(* ===== verification/Prelude.thy ===== *)
theory Prelude
  imports Main "HOL-Library.Word"
begin

text \<open>
  What every component of the development shares: the types of machine bytes, the outcome
  type of C++ code that may return, throw or run outside its memory, a byte-addressed memory
  with little-endian 32- and 64-bit accesses, two's complement readings of 32-bit values, and
  the collections the component theories add their rewriting rules to.
\<close>

named_theorems mem_simps \<open>reads and writes of byte-addressed memory\<close>
named_theorems edb_codes \<open>values of the EDB error codes\<close>
named_theorems layout_simps \<open>sizes and offsets of the on-disk and wire structures\<close>

type_synonym u8 = "8 word"
type_synonym u32 = "32 word"
type_synonym u64 = "64 word"

section \<open>Outcomes\<close>

text \<open>
  A C++ function of the program returns, throws one of the numbered BSON assertions, does
  something the standard leaves undefined (a read outside the buffer it was given), or waits
  for a latch, a condition or a peer that nobody has signalled yet.
\<close>

datatype 'a res = Ret 'a | Raise nat | Stuck | Wait

fun bnd :: "'a res \<Rightarrow> ('a \<Rightarrow> 'b res) \<Rightarrow> 'b res" where
  "bnd (Ret x) f = f x"
| "bnd (Raise n) f = Raise n"
| "bnd Stuck f = Stuck"
| "bnd Wait f = Wait"

fun is_ret :: "'a res \<Rightarrow> bool" where
  "is_ret (Ret _) = True"
| "is_ret _ = False"

primrec the_ret :: "'a res \<Rightarrow> 'a" where
  "the_ret (Ret x) = x"

lemma bnd_eq_Ret: "bnd m f = Ret y \<longleftrightarrow> (\<exists>x. m = Ret x \<and> f x = Ret y)"
  by (cases m) auto

lemma Ret_eq_bnd: "Ret y = bnd m f \<longleftrightarrow> (\<exists>x. m = Ret x \<and> f x = Ret y)"
  by (cases m) auto

lemma bnd_eq_Raise: "bnd m f = Raise n \<longleftrightarrow> m = Raise n \<or> (\<exists>x. m = Ret x \<and> f x = Raise n)"
  by (cases m) auto

lemma bnd_assoc: "bnd (bnd m f) g = bnd m (\<lambda>x. bnd (f x) g)"
  by (cases m) auto

lemma is_ret_iff: "is_ret r \<longleftrightarrow> (\<exists>x. r = Ret x)"
  by (cases r) auto

text \<open>
  A loop that may run for ever is a \<open>partial_function\<close> of type \<open>'a run\<close>: \<open>None\<close> says that it does
  not terminate.  \<open>obnd\<close> sequences such computations.
\<close>

type_synonym 'a run = "'a res option"

definition obnd :: "'a run \<Rightarrow> ('a \<Rightarrow> 'b run) \<Rightarrow> 'b run" where
  "obnd m f = Option.bind m (\<lambda>r. case r of Ret x \<Rightarrow> f x | Raise n \<Rightarrow> Some (Raise n)
     | Stuck \<Rightarrow> Some Stuck | Wait \<Rightarrow> Some Wait)"

lemma obnd_simps [simp, code]:
  "obnd None f = None"
  "obnd (Some (Ret x)) f = f x"
  "obnd (Some (Raise n)) f = Some (Raise n)"
  "obnd (Some Stuck) f = Some Stuck"
  "obnd (Some Wait) f = Some Wait"
  by (simp_all add: obnd_def)

lemma obnd_eq_Ret:
  "obnd m f = Some (Ret y) \<longleftrightarrow> (\<exists>x. m = Some (Ret x) \<and> f x = Some (Ret y))"
proof (cases m)
  case (Some r)
  then show ?thesis
    by (cases r) auto
qed simp

lemma obnd_cong [fundef_cong]:
  "m = m' \<Longrightarrow> (\<And>x. m' = Some (Ret x) \<Longrightarrow> f x = f' x) \<Longrightarrow> obnd m f = obnd m' f'"
  by (cases m') (auto simp: obnd_def split: res.splits)

lemma bnd_cong [fundef_cong]:
  "m = m' \<Longrightarrow> (\<And>x. m' = Ret x \<Longrightarrow> f x = f' x) \<Longrightarrow> bnd m f = bnd m' f'"
  by (cases m') auto

lemma obnd_mono [partial_function_mono]:
  assumes "mono_option B" "\<And>y. mono_option (\<lambda>f. C y f)"
  shows "mono_option (\<lambda>f. obnd (B f) (\<lambda>y. C y f))"
  unfolding obnd_def
proof (rule bind_mono [OF assms(1)])
  fix r
  show "mono_option (\<lambda>f. case r of Ret x \<Rightarrow> C x f | Raise n \<Rightarrow> Some (Raise n)
     | Stuck \<Rightarrow> Some Stuck | Wait \<Rightarrow> Some Wait)"
    by (cases r) (simp_all add: assms(2) option.const_mono)
qed

section \<open>Machine integers\<close>

text \<open>
  A 32-bit unsigned value is kept as the natural number below \<open>2 ^ 32\<close> it denotes; \<open>s32\<close> is its
  signed reading, \<open>i32\<close> truncates a mathematical integer to an \<open>int\<close> and \<open>to_u32\<close> to an
  \<open>unsigned int\<close>. The same with 64 bits for \<open>size_t\<close> and \<open>long long\<close>.
\<close>

definition s32 :: "nat \<Rightarrow> int" where
  "s32 n = (if n < 2147483648 then int n else int n - 4294967296)"

definition to_u32 :: "int \<Rightarrow> nat" where
  "to_u32 i = nat (i mod 4294967296)"

definition i32 :: "int \<Rightarrow> int" where
  "i32 i = s32 (to_u32 i)"

definition to_u64 :: "int \<Rightarrow> nat" where
  "to_u64 i = nat (i mod 18446744073709551616)"

definition u32_add :: "nat \<Rightarrow> nat \<Rightarrow> nat" where
  "u32_add a b = (a + b) mod 4294967296"

definition u32_sub :: "nat \<Rightarrow> nat \<Rightarrow> nat" where
  "u32_sub a b = (a + (4294967296 - b mod 4294967296)) mod 4294967296"

lemma to_u32_less [simp]: "to_u32 i < 4294967296"
  by (simp add: to_u32_def nat_less_iff)

lemma to_u32_nat: "0 \<le> i \<Longrightarrow> i < 4294967296 \<Longrightarrow> to_u32 i = nat i"
  by (simp add: to_u32_def)

lemma s32_to_u32:
  assumes "-2147483648 \<le> i" "i < 2147483648"
  shows "s32 (to_u32 i) = i"
proof (cases "0 \<le> i")
  case False
  have "(i + 4294967296) mod 4294967296 = i + 4294967296"
    using False assms by (intro mod_pos_pos_trivial) auto
  then have "i mod 4294967296 = i + 4294967296"
    by simp
  with False assms show ?thesis
    by (simp add: s32_def to_u32_def)
next
  case True
  with assms show ?thesis
    by (simp add: s32_def to_u32_def)
qed

lemma i32_id: "-2147483648 \<le> i \<Longrightarrow> i < 2147483648 \<Longrightarrow> i32 i = i"
  by (simp add: i32_def s32_to_u32)

lemma s32_small [simp]: "n < 2147483648 \<Longrightarrow> s32 n = int n"
  by (simp add: s32_def)

lemma s32_range: "n < 4294967296 \<Longrightarrow> -2147483648 \<le> s32 n \<and> s32 n < 2147483648"
  by (auto simp: s32_def)

lemma i32_range: "-2147483648 \<le> i32 i \<and> i32 i < 2147483648"
  unfolding i32_def by (rule s32_range) simp

lemma to_u32_s32 [simp]: "n < 4294967296 \<Longrightarrow> to_u32 (s32 n) = n"
  by (auto simp: s32_def to_u32_def)

lemma u32_sub_le:
  assumes "b \<le> a" "a < 4294967296"
  shows "u32_sub a b = a - b"
proof -
  from assms obtain d where d: "a = b + d" "b < 4294967296"
    by (auto simp: le_iff_add)
  then have "a + (4294967296 - b mod 4294967296) = d + 4294967296"
    by simp
  with assms d show ?thesis
    by (simp only: u32_sub_def) simp
qed

lemma u32_add_small: "a + b < 4294967296 \<Longrightarrow> u32_add a b = a + b"
  by (simp add: u32_add_def)

lemma u32_less [simp]: "u32_add a b < 4294967296" "u32_sub a b < 4294967296"
  by (simp_all add: u32_add_def u32_sub_def)

lemma to_u32_i32 [simp]: "to_u32 (i32 i) = to_u32 i"
  unfolding i32_def by (rule to_u32_s32) simp

lemma i32_i32_add: "i32 (i32 a + b) = i32 (a + b)"
proof -
  have "(i32 a) mod 4294967296 = a mod 4294967296"
    using to_u32_i32 [of a] unfolding to_u32_def by (metis Euclidean_Rings.pos_mod_sign eq_nat_nat_iff zero_less_numeral)
  then have "(i32 a + b) mod 4294967296 = (a + b) mod 4294967296"
    by (metis mod_add_left_eq)
  then show ?thesis
    by (simp add: i32_def to_u32_def)
qed

lemma i32_wraps:
  assumes "2147483648 \<le> i" "i < 4294967296"
  shows "i32 i = i - 4294967296"
proof -
  have "to_u32 i = nat i"
    using assms by (intro to_u32_nat) simp_all
  then show ?thesis
    using assms by (simp add: i32_def s32_def nat_less_iff)
qed

lemma signed_take_31:
  fixes k :: int
  assumes "0 \<le> k" "k < 4294967296"
  shows "signed_take_bit 31 k = (if k < 2147483648 then k else k - 4294967296)"
proof (cases "k < 2147483648")
  case True
  with assms show ?thesis
    by (simp add: signed_take_bit_int_eq_self_iff)
next
  case False
  have "(k + 2147483648) mod 4294967296 = (k - 2147483648) mod 4294967296"
    by (simp add: mod_eq_dvd_iff)
  also have "\<dots> = k - 2147483648"
    using False assms by (intro mod_pos_pos_trivial) auto
  finally show ?thesis
    using False by (simp add: signed_take_bit_eq_take_bit_shift take_bit_eq_mod)
qed

lemma s32_unat: "s32 (unat (w :: u32)) = sint w"
proof -
  define n where "n = unat w"
  have u: "uint w = int n" "n < 4294967296"
    using unsigned_less [of w, where 'a = nat] by (simp_all add: n_def)
  have "sint w = signed_take_bit 31 (int n)"
    by (simp add: sint_uint u(1))
  also have "\<dots> = s32 n"
    using u(2) by (simp add: signed_take_31 s32_def)
  finally show ?thesis
    by (simp add: n_def)
qed

section \<open>Bytes of a number\<close>

definition byte :: "nat \<Rightarrow> u8" where
  "byte n = of_nat n"

lemma unat_byte: "unat (byte n) = n mod 256"
  by (simp add: byte_def unat_of_nat)

lemma byte_unat [simp]: "byte (unat (b :: u8)) = b"
  by (simp add: byte_def)

text \<open>Little-endian encoding of a number on \<open>k\<close> bytes, and its inverse.\<close>

fun le_bytes :: "nat \<Rightarrow> nat \<Rightarrow> u8 list" where
  "le_bytes 0 n = []"
| "le_bytes (Suc k) n = byte n # le_bytes k (n div 256)"

fun le_value :: "u8 list \<Rightarrow> nat" where
  "le_value [] = 0"
| "le_value (b # bs) = unat b + 256 * le_value bs"

lemma length_le_bytes [simp]: "length (le_bytes k n) = k"
  by (induction k arbitrary: n) auto

lemma le_value_le_bytes [simp]: "le_value (le_bytes k n) = n mod 256 ^ k"
  by (induction k arbitrary: n) (simp_all add: unat_byte mod_mult2_eq)

lemma unat_u8_less: "unat (b :: u8) < 256"
  by (rule unsigned_less [THEN less_le_trans]) simp

lemma le_value_less: "le_value bs < 256 ^ length bs"
proof (induction bs)
  case (Cons b bs)
  with unat_u8_less [of b] show ?case
    by simp
qed simp

lemma le_bytes_le_value [simp]: "le_bytes (length bs) (le_value bs) = bs"
proof (induction bs)
  case (Cons b bs)
  have "byte (unat b + 256 * le_value bs) = b"
  proof (rule word_unat_eq_iff [THEN iffD2])
    show "unat (byte (unat b + 256 * le_value bs)) = unat b"
      using unat_u8_less [of b] by (simp add: unat_byte)
  qed
  moreover have "(unat b + 256 * le_value bs) div 256 = le_value bs"
    using unat_u8_less [of b] by simp
  ultimately show ?case
    using Cons by simp
qed simp

definition le32 :: "nat \<Rightarrow> u8 list" where
  "le32 n = le_bytes 4 n"

definition le64 :: "nat \<Rightarrow> u8 list" where
  "le64 n = le_bytes 8 n"

lemma le32_eq: "le32 n = [byte n, byte (n div 256), byte (n div 65536), byte (n div 16777216)]"
proof -
  have 4: "(4 :: nat) = Suc (Suc (Suc (Suc 0)))"
    by simp
  have "n div 65536 = n div 256 div 256" "n div 16777216 = n div 256 div 256 div 256"
    by (simp_all flip: div_mult2_eq)
  then show ?thesis
    unfolding le32_def 4 le_bytes.simps by (simp only:)
qed

lemma length_le32 [simp]: "length (le32 n) = 4"
  by (simp add: le32_def)

lemma length_le64 [simp]: "length (le64 n) = 8"
  by (simp add: le64_def)

lemma le_value_le32 [simp]: "le_value (le32 n) = n mod 4294967296"
  by (simp add: le32_def)

lemma le_value_le64 [simp]: "le_value (le64 n) = n mod 18446744073709551616"
  by (simp add: le64_def)

lemma le32_le_value: "length bs = 4 \<Longrightarrow> le32 (le_value bs) = bs"
  by (metis le32_def le_bytes_le_value)

lemma le64_le_value: "length bs = 8 \<Longrightarrow> le64 (le_value bs) = bs"
  by (metis le64_def le_bytes_le_value)

section \<open>Byte-addressed memory\<close>

type_synonym mem = "nat \<Rightarrow> u8"

definition rdb :: "mem \<Rightarrow> nat \<Rightarrow> nat \<Rightarrow> u8 list" where
  "rdb m a n = map m [a..<a + n]"

definition blit :: "mem \<Rightarrow> nat \<Rightarrow> u8 list \<Rightarrow> mem" where
  "blit m a bs = (\<lambda>x. if a \<le> x \<and> x < a + length bs then bs ! (x - a) else m x)"

definition rd32 :: "mem \<Rightarrow> nat \<Rightarrow> nat" where
  "rd32 m a = le_value (rdb m a 4)"

definition wr32 :: "mem \<Rightarrow> nat \<Rightarrow> nat \<Rightarrow> mem" where
  "wr32 m a v = blit m a (le32 v)"

lemma length_rdb [simp]: "length (rdb m a n) = n"
  by (simp add: rdb_def)

lemma nth_rdb [simp]: "i < n \<Longrightarrow> rdb m a n ! i = m (a + i)"
  by (simp add: rdb_def)

lemma rdb_cong: "(\<And>x. a \<le> x \<Longrightarrow> x < a + n \<Longrightarrow> m x = m' x) \<Longrightarrow> rdb m a n = rdb m' a n"
  by (simp add: rdb_def)

lemma blit_out: "x < a \<or> a + length bs \<le> x \<Longrightarrow> blit m a bs x = m x"
  by (auto simp: blit_def)

lemma rdb_blit_same [mem_simps]: "n = length bs \<Longrightarrow> rdb (blit m a bs) a n = bs"
  by (rule nth_equalityI) (auto simp: blit_def)

lemma rdb_blit_disj: "a + n \<le> b \<or> b + length bs \<le> a \<Longrightarrow> rdb (blit m b bs) a n = rdb m a n"
  by (rule rdb_cong) (auto simp: blit_def)

lemma rd32_blit_disj [mem_simps]:
  "a + 4 \<le> b \<or> b + length bs \<le> a \<Longrightarrow> rd32 (blit m b bs) a = rd32 m a"
  by (simp add: rd32_def rdb_blit_disj)

lemma rdb_wr32_disj [mem_simps]: "a + n \<le> b \<or> b + 4 \<le> a \<Longrightarrow> rdb (wr32 m b v) a n = rdb m a n"
  by (simp add: wr32_def rdb_blit_disj)

lemma rd32_wr32_same [mem_simps]: "rd32 (wr32 m a v) a = v mod 4294967296"
  by (simp add: rd32_def wr32_def mem_simps)

lemma rd32_wr32_disj [mem_simps]: "a + 4 \<le> b \<or> b + 4 \<le> a \<Longrightarrow> rd32 (wr32 m b v) a = rd32 m a"
  by (simp add: rd32_def rdb_wr32_disj)

lemma rd32_less [simp]: "rd32 m a < 4294967296"
  using le_value_less [of "rdb m a 4"] by (simp add: rd32_def)

lemma wr32_out: "x < a \<or> a + 4 \<le> x \<Longrightarrow> wr32 m a v x = m x"
  by (simp add: wr32_def blit_out)

lemma rd32_cong: "(\<And>x. a \<le> x \<Longrightarrow> x < a + 4 \<Longrightarrow> m x = m' x) \<Longrightarrow> rd32 m a = rd32 m' a"
  using rdb_cong [of a 4 m m'] by (simp add: rd32_def)

lemma rdb_append: "rdb m a (n + k) = rdb m a n @ rdb m (a + n) k"
  by (rule nth_equalityI) (auto simp: nth_append)

section \<open>Lists\<close>

text \<open>\<open>sub bs a n\<close>: the \<open>n\<close> bytes of a buffer from index \<open>a\<close>, what \<open>memcpy\<close> reads.\<close>

definition sub :: "'a list \<Rightarrow> nat \<Rightarrow> nat \<Rightarrow> 'a list" where
  "sub bs a n = take n (drop a bs)"

lemma length_sub [simp]: "a + n \<le> length bs \<Longrightarrow> length (sub bs a n) = n"
  by (simp add: sub_def)

lemma sub_append_left: "a + n \<le> length xs \<Longrightarrow> sub (xs @ ys) a n = sub xs a n"
  by (simp add: sub_def)

lemma sub_append_right: "length xs \<le> a \<Longrightarrow> sub (xs @ ys) a n = sub ys (a - length xs) n"
  by (simp add: sub_def)

lemma sub_0_all: "n = length xs \<Longrightarrow> sub (xs @ ys) 0 n = xs"
  by (simp add: sub_def)

lemma sub_skip: "sub (xs @ ys @ zs) (length xs) (length ys) = ys"
  by (simp add: sub_def)

end
