(* ===== verification/CMem.thy ===== *)
theory CMem
  imports Prelude
begin

text \<open>
  C pointers into a buffer: a pointer is the bytes of the allocation and an offset that may lie
  outside it; every read outside is \<open>Stuck\<close>.  The string functions of the C library that the
  program calls follow (\<open>char\<close> bytes compare as unsigned, and only the sign of a comparison is
  kept), with \<open>bson::strnlen\<close> of \<open>bson/src/util/misc.h\<close>.
\<close>

type_synonym buf = "u8 list"
type_synonym cptr = "buf \<times> int"

definition ld8 :: "buf \<Rightarrow> int \<Rightarrow> u8 res" where
  "ld8 b p = (if 0 \<le> p \<and> p < int (length b) then Ret (b ! nat p) else Stuck)"

definition ldn :: "buf \<Rightarrow> int \<Rightarrow> int \<Rightarrow> u8 list res" where
  "ldn b p n = (if 0 \<le> p \<and> 0 \<le> n \<and> p + n \<le> int (length b)
     then Ret (sub b (nat p) (nat n)) else Stuck)"

definition ld32 :: "buf \<Rightarrow> int \<Rightarrow> nat res" where
  "ld32 b p = bnd (ldn b p 4) (\<lambda>bs. Ret (le_value bs))"

definition ldi32 :: "buf \<Rightarrow> int \<Rightarrow> int res" where
  "ldi32 b p = bnd (ld32 b p) (\<lambda>n. Ret (s32 n))"

definition ld64 :: "buf \<Rightarrow> int \<Rightarrow> nat res" where
  "ld64 b p = bnd (ldn b p 8) (\<lambda>bs. Ret (le_value bs))"

definition tail_at :: "buf \<Rightarrow> int \<Rightarrow> u8 list" where
  "tail_at b p = (if 0 \<le> p then drop (nat p) b else [])"

fun c_len :: "u8 list \<Rightarrow> nat res" where
  "c_len [] = Stuck"
| "c_len (c # cs) = (if c = 0 then Ret 0 else bnd (c_len cs) (\<lambda>n. Ret (Suc n)))"

definition c_strlen :: "buf \<Rightarrow> int \<Rightarrow> int res" where
  "c_strlen b p = bnd (c_len (tail_at b p)) (\<lambda>n. Ret (int n))"

fun c_cmp :: "u8 list \<Rightarrow> u8 list \<Rightarrow> int res" where
  "c_cmp (x # xs) (y # ys) = (if x < y then Ret (- 1) else if y < x then Ret 1
     else if x = 0 then Ret 0 else c_cmp xs ys)"
| "c_cmp _ _ = Stuck"

definition c_strcmp :: "cptr \<Rightarrow> cptr \<Rightarrow> int res" where
  "c_strcmp s t = c_cmp (tail_at (fst s) (snd s)) (tail_at (fst t) (snd t))"

fun mem_cmp :: "u8 list \<Rightarrow> u8 list \<Rightarrow> int" where
  "mem_cmp (x # xs) (y # ys) = (if x < y then - 1 else if y < x then 1 else mem_cmp xs ys)"
| "mem_cmp _ _ = 0"

text \<open>\<open>bson::strnlen\<close>: at most \<open>n\<close> bytes are read; -1 when none of them is 0.\<close>

fun strnlen_loop :: "u8 list \<Rightarrow> nat \<Rightarrow> nat \<Rightarrow> int res" where
  "strnlen_loop s i 0 = Ret (- 1)"
| "strnlen_loop [] i (Suc n) = Stuck"
| "strnlen_loop (c # s) i (Suc n) = (if c = 0 then Ret (int i) else strnlen_loop s (Suc i) n)"

definition bson_strnlen :: "buf \<Rightarrow> int \<Rightarrow> int \<Rightarrow> int res" where
  "bson_strnlen b p n = strnlen_loop (tail_at b p) 0 (nat n)"

section \<open>Reads inside a concatenation\<close>

text \<open>
  \<open>at b p xs\<close>: the bytes \<open>xs\<close> stand in the buffer at offset \<open>p\<close>.  All reads of encoded data go
  through this predicate.
\<close>

definition at :: "buf \<Rightarrow> int \<Rightarrow> u8 list \<Rightarrow> bool" where
  "at b p xs \<longleftrightarrow> (\<exists>pre post. b = pre @ xs @ post \<and> p = int (length pre))"

lemma atI: "p = int (length pre) \<Longrightarrow> at (pre @ xs @ post) p xs"
  unfolding at_def by blast

lemma at_append: "at b p (xs @ ys) \<longleftrightarrow> at b p xs \<and> at b (p + int (length xs)) ys"
proof
  assume "at b p (xs @ ys)"
  then obtain pre post where "b = pre @ (xs @ ys) @ post" "p = int (length pre)"
    unfolding at_def by blast
  then have "b = pre @ xs @ (ys @ post)" "b = (pre @ xs) @ ys @ post" "p = int (length pre)"
    by simp_all
  then show "at b p xs \<and> at b (p + int (length xs)) ys"
    unfolding at_def by (metis length_append of_nat_add)
next
  assume "at b p xs \<and> at b (p + int (length xs)) ys"
  then obtain pre post pre' post' where b: "b = pre @ xs @ post" "p = int (length pre)"
      "b = pre' @ ys @ post'" "p + int (length xs) = int (length pre')"
    unfolding at_def by blast
  then have "length (pre @ xs) = length pre'"
    by simp
  moreover have "(pre @ xs) @ post = pre' @ ys @ post'"
    using b by simp
  ultimately have "pre' = pre @ xs" "post = ys @ post'"
    using append_eq_append_conv by blast+
  with b have "b = pre @ (xs @ ys) @ post'"
    by simp
  with b show "at b p (xs @ ys)"
    unfolding at_def by blast
qed

lemma at_Cons: "at b p (x # xs) \<longleftrightarrow> at b p [x] \<and> at b (p + 1) xs"
  using at_append [of b p "[x]" xs] by simp

lemma at_bound: "at b p xs \<Longrightarrow> 0 \<le> p \<and> p + int (length xs) \<le> int (length b)"
  unfolding at_def by auto

lemma at_sub: "at b p xs \<Longrightarrow> n = length xs \<Longrightarrow> sub b (nat p) n = xs"
  unfolding at_def by (auto simp: sub_def)

lemma at_self: "at xs 0 xs"
  unfolding at_def by (rule exI [of _ "[]"]) auto

lemma at_whole: "xs = ys \<Longrightarrow> at xs 0 ys"
  using at_self by simp

lemma ld8_at: "at b p [c] \<Longrightarrow> ld8 b p = Ret c"
  unfolding at_def ld8_def by auto

lemma ldn_at: "at b p xs \<Longrightarrow> n = int (length xs) \<Longrightarrow> ldn b p n = Ret xs"
  using at_bound [of b p xs] at_sub [of b p xs "length xs"] by (simp add: ldn_def)

lemma ld32_at: "at b p (le32 v) \<Longrightarrow> ld32 b p = Ret (v mod 4294967296)"
  by (simp add: ld32_def ldn_at)

lemma ldi32_at: "at b p (le32 v) \<Longrightarrow> v < 2147483648 \<Longrightarrow> ldi32 b p = Ret (int v)"
  by (simp add: ldi32_def ld32_at)

lemma ld64_at: "at b p (le64 v) \<Longrightarrow> ld64 b p = Ret (v mod 18446744073709551616)"
  by (simp add: ld64_def ldn_at)

lemma c_len_app: "0 \<notin> set s \<Longrightarrow> c_len (s @ 0 # t) = Ret (length s)"
  by (induction s) auto

lemma tail_at_at: "at b p xs \<Longrightarrow> \<exists>post. tail_at b p = xs @ post"
  unfolding at_def tail_at_def by auto

lemma c_strlen_at: "at b p (s @ [0]) \<Longrightarrow> 0 \<notin> set s \<Longrightarrow> c_strlen b p = Ret (int (length s))"
  by (drule tail_at_at) (auto simp: c_strlen_def c_len_app)

lemma c_cmp_zero:
  "0 \<notin> set s \<Longrightarrow> 0 \<notin> set t \<Longrightarrow> \<exists>x. c_cmp (s @ 0 # s') (t @ 0 # t') = Ret x \<and> (x = 0 \<longleftrightarrow> s = t)"
proof (induction s arbitrary: t)
  case Nil
  then show ?case
    by (cases t) (auto simp: word_neq_0_conv)
next
  case (Cons a s)
  then show ?case
    by (cases t) (auto simp: word_neq_0_conv not_less_iff_gr_or_eq)
qed

lemma c_strcmp_at:
  assumes "at b p (s @ [0])" "at c q (t @ [0])" "0 \<notin> set s" "0 \<notin> set t"
  shows "\<exists>x. c_strcmp (b, p) (c, q) = Ret x \<and> (x = 0 \<longleftrightarrow> s = t)"
proof -
  obtain s' t' where "tail_at b p = s @ 0 # s'" "tail_at c q = t @ 0 # t'"
    using tail_at_at [OF assms(1)] tail_at_at [OF assms(2)] by auto
  then show ?thesis
    using c_cmp_zero [OF assms(3,4)] by (simp add: c_strcmp_def)
qed

lemma strnlen_loop_app:
  "0 \<notin> set s \<Longrightarrow> length s < n \<Longrightarrow> strnlen_loop (s @ 0 # t) i n = Ret (int (i + length s))"
proof (induction s arbitrary: n i)
  case Nil
  then show ?case
    by (cases n) auto
next
  case (Cons a s)
  then obtain m where "n = Suc m"
    by (cases n) auto
  with Cons show ?case
    by auto
qed

lemma bson_strnlen_at:
  "at b p (s @ [0]) \<Longrightarrow> 0 \<notin> set s \<Longrightarrow> int (length s) < n \<Longrightarrow> bson_strnlen b p n = Ret (int (length s))"
  by (drule tail_at_at) (auto simp: bson_strnlen_def strnlen_loop_app)

text \<open>\<open>strnlen\<close> never reads past its bound, and what it returns is in range.\<close>

lemma strnlen_loop_range:
  "strnlen_loop s i n = Ret x \<Longrightarrow> x = - 1 \<or> (int i \<le> x \<and> x < int (i + n))"
  by (induction s i n rule: strnlen_loop.induct) (auto split: if_splits)

lemma strnlen_loop_defined: "n \<le> length s \<Longrightarrow> is_ret (strnlen_loop s i n)"
  by (induction s i n rule: strnlen_loop.induct) auto

lemma mem_cmp_eq_0: "length xs = length ys \<Longrightarrow> mem_cmp xs ys = 0 \<longleftrightarrow> xs = ys"
  by (induction xs ys rule: mem_cmp.induct) (auto simp: not_less)

section \<open>Writes\<close>

definition stn :: "buf \<Rightarrow> int \<Rightarrow> u8 list \<Rightarrow> buf res" where
  "stn b p bs = (if 0 \<le> p \<and> p + int (length bs) \<le> int (length b)
     then Ret (take (nat p) b @ bs @ drop (nat p + length bs) b) else Stuck)"

definition sti32 :: "buf \<Rightarrow> int \<Rightarrow> int \<Rightarrow> buf res" where
  "sti32 b p v = stn b p (le32 (to_u32 v))"

lemma stn_append:
  assumes "p = int (length pre)" "length bs \<le> length old"
  shows "stn (pre @ old) p bs = Ret (pre @ bs @ drop (length bs) old)"
  using assms by (simp add: stn_def)

lemma sti32_append:
  "p = int (length pre) \<Longrightarrow> 4 \<le> length old \<Longrightarrow>
     sti32 (pre @ old) p v = Ret (pre @ le32 (to_u32 v) @ drop 4 old)"
  by (simp add: sti32_def stn_append)

lemma stn_length: "stn b p bs = Ret b' \<Longrightarrow> length b' = length b"
  by (auto simp: stn_def split: if_splits)

lemma stn_ok:
  assumes "0 \<le> p" "p + int (length bs) \<le> int (length b)"
  obtains b' where "stn b p bs = Ret b'" "length b' = length b" "take (nat p + length bs) b' = take (nat p) b @ bs"
proof -
  let ?b' = "take (nat p) b @ bs @ drop (nat p + length bs) b"
  have st: "stn b p bs = Ret ?b'"
    using assms by (simp add: stn_def)
  moreover have "length (take (nat p) b) = nat p"
    using assms by simp
  then have "take (nat p + length bs) ?b' = take (nat p) b @ bs"
    by (simp del: length_take)
  ultimately show ?thesis
    using that stn_length [OF st] by blast
qed

lemma take_snoc: "take (n + 1) xs = ys @ [z] \<Longrightarrow> n < length xs \<Longrightarrow> take n xs = ys \<and> xs ! n = z"
  by (simp add: take_Suc_conv_app_nth)

end
