(* ===== verification/BsonElement.thy ===== *)
theory BsonElement
  imports CMem
begin

text \<open>
  BSON elements at the level of bytes: \<open>bson/src/bsontypes.h\<close>, \<open>bson/src/bsonelement.h\<close> and the
  element functions of \<open>bson/src/bson-inl.h\<close>.  An element is a pointer to
  \<open><type><fieldName 0><value>\<close> in some buffer together with the two sizes it caches.  The model
  keeps every \<open>assert\<close>, \<open>uassert\<close> and \<open>massert\<close> as \<open>Raise\<close> of its number (\<open>assert\<close> is number 0,
  as in \<open>bson/src/bsonassert.h\<close>), reads outside the buffer as \<open>Stuck\<close>, and the wrap-around of
  \<open>int\<close> arithmetic on sizes that come from the data.
\<close>

section \<open>Types\<close>

datatype BSONType =
    MinKey | EOO | NumberDouble | StringT | Object | Array | BinData | Undefined | jstOID | BoolT
  | Date | jstNULL | RegEx | DBRef | Code | Symbol | CodeWScope | NumberInt | Timestamp
  | NumberLong | MaxKey | BadType int

text \<open>\<open>(BSONType) *data\<close>, with \<open>char\<close> signed.\<close>

definition type_codes :: "(int \<times> BSONType) list" where
  "type_codes = [(- 1, MinKey), (0, EOO), (1, NumberDouble), (2, StringT), (3, Object), (4, Array),
     (5, BinData), (6, Undefined), (7, jstOID), (8, BoolT), (9, Date), (10, jstNULL), (11, RegEx),
     (12, DBRef), (13, Code), (14, Symbol), (15, CodeWScope), (16, NumberInt), (17, Timestamp),
     (18, NumberLong), (127, MaxKey)]"

definition schar :: "u8 \<Rightarrow> int" where
  "schar c = (if c < 128 then uint c else uint c - 256)"

definition bson_type :: "u8 \<Rightarrow> BSONType" where
  "bson_type c = (case map_of type_codes (schar c) of Some t \<Rightarrow> t | None \<Rightarrow> BadType (schar c))"

fun type_byte :: "BSONType \<Rightarrow> u8" where
  "type_byte MinKey = 255" | "type_byte EOO = 0" | "type_byte NumberDouble = 1"
| "type_byte StringT = 2" | "type_byte Object = 3" | "type_byte Array = 4"
| "type_byte BinData = 5" | "type_byte Undefined = 6" | "type_byte jstOID = 7"
| "type_byte BoolT = 8" | "type_byte Date = 9" | "type_byte jstNULL = 10"
| "type_byte RegEx = 11" | "type_byte DBRef = 12" | "type_byte Code = 13"
| "type_byte Symbol = 14" | "type_byte CodeWScope = 15" | "type_byte NumberInt = 16"
| "type_byte Timestamp = 17" | "type_byte NumberLong = 18" | "type_byte MaxKey = 127"
| "type_byte (BadType i) = of_int i"

section \<open>Elements\<close>

record BSONElement =
  ebuf :: buf
  data :: int
  fnSize :: int
  totSize :: int

text \<open>\<open>BSONElement()\<close> points at a static zero byte.\<close>

definition elem_default :: BSONElement where
  "elem_default = \<lparr>ebuf = [0], data = 0, fnSize = 0, totSize = 1\<rparr>"

definition elem_at :: "buf \<Rightarrow> int \<Rightarrow> BSONElement res" where
  "elem_at b p = bnd (ld8 b p) (\<lambda>c. if c = 0
     then Ret \<lparr>ebuf = b, data = p, fnSize = 0, totSize = 1\<rparr>
     else Ret \<lparr>ebuf = b, data = p, fnSize = - 1, totSize = - 1\<rparr>)"

definition elem_at_max :: "buf \<Rightarrow> int \<Rightarrow> int \<Rightarrow> BSONElement res" where
  "elem_at_max b p maxLen = bnd (ld8 b p) (\<lambda>c. if c = 0
     then Ret \<lparr>ebuf = b, data = p, fnSize = 0, totSize = 1\<rparr>
     else if maxLen \<noteq> - 1 then
       bnd (bson_strnlen b (p + 1) (maxLen - 1)) (\<lambda>size.
         if size = - 1 then Raise 10333
         else Ret \<lparr>ebuf = b, data = p, fnSize = size + 1, totSize = - 1\<rparr>)
     else Ret \<lparr>ebuf = b, data = p, fnSize = - 1, totSize = - 1\<rparr>)"

definition elem_type :: "BSONElement \<Rightarrow> BSONType res" where
  "elem_type e = bnd (ld8 (ebuf e) (data e)) (\<lambda>c. Ret (bson_type c))"

definition elem_eoo :: "BSONElement \<Rightarrow> bool res" where
  "elem_eoo e = bnd (elem_type e) (\<lambda>t. Ret (t = EOO))"

definition elem_fieldName :: "BSONElement \<Rightarrow> cptr res" where
  "elem_fieldName e = bnd (elem_eoo e) (\<lambda>z. if z then Ret ([0], 0) else Ret (ebuf e, data e + 1))"

definition elem_fieldNameSize :: "BSONElement \<Rightarrow> int res" where
  "elem_fieldNameSize e = (if fnSize e = - 1
     then bnd (elem_fieldName e) (\<lambda>s. bnd (c_strlen (fst s) (snd s)) (\<lambda>n. Ret (n + 1)))
     else Ret (fnSize e))"

definition elem_value :: "BSONElement \<Rightarrow> int res" where
  "elem_value e = bnd (elem_fieldNameSize e) (\<lambda>n. Ret (data e + n + 1))"

definition elem_objsize :: "BSONElement \<Rightarrow> int res" where
  "elem_objsize e = bnd (elem_value e) (\<lambda>v. ldi32 (ebuf e) v)"

definition elem_valuestrsize :: "BSONElement \<Rightarrow> int res" where
  "elem_valuestrsize e = bnd (elem_value e) (\<lambda>v. ldi32 (ebuf e) v)"

text \<open>\<open>int size() const\<close>: the value's size by type, then the cached or computed total.\<close>

definition elem_regex_size :: "BSONElement \<Rightarrow> int res" where
  "elem_regex_size e = bnd (elem_value e) (\<lambda>p. bnd (c_strlen (ebuf e) p) (\<lambda>len1.
     bnd (c_strlen (ebuf e) (p + len1 + 1)) (\<lambda>len2. Ret (i32 (len1 + 1 + len2 + 1)))))"

definition elem_size :: "BSONElement \<Rightarrow> int res" where
  "elem_size e = (if 0 \<le> totSize e then Ret (totSize e) else
     bnd (elem_type e) (\<lambda>t.
     bnd (case t of
         EOO \<Rightarrow> Ret 0 | Undefined \<Rightarrow> Ret 0 | jstNULL \<Rightarrow> Ret 0 | MaxKey \<Rightarrow> Ret 0 | MinKey \<Rightarrow> Ret 0
       | BoolT \<Rightarrow> Ret 1
       | NumberInt \<Rightarrow> Ret 4
       | Timestamp \<Rightarrow> Ret 8 | Date \<Rightarrow> Ret 8 | NumberDouble \<Rightarrow> Ret 8 | NumberLong \<Rightarrow> Ret 8
       | jstOID \<Rightarrow> Ret 12
       | Symbol \<Rightarrow> bnd (elem_valuestrsize e) (\<lambda>n. Ret (i32 (n + 4)))
       | Code \<Rightarrow> bnd (elem_valuestrsize e) (\<lambda>n. Ret (i32 (n + 4)))
       | StringT \<Rightarrow> bnd (elem_valuestrsize e) (\<lambda>n. Ret (i32 (n + 4)))
       | DBRef \<Rightarrow> bnd (elem_valuestrsize e) (\<lambda>n. Ret (i32 (n + 4 + 12)))
       | CodeWScope \<Rightarrow> elem_objsize e | Object \<Rightarrow> elem_objsize e | Array \<Rightarrow> elem_objsize e
       | BinData \<Rightarrow> bnd (elem_valuestrsize e) (\<lambda>n. Ret (i32 (n + 4 + 1)))
       | RegEx \<Rightarrow> elem_regex_size e
       | BadType _ \<Rightarrow> Raise 10320) (\<lambda>x.
     bnd (elem_fieldNameSize e) (\<lambda>f. Ret (i32 (x + f + 1))))))"

text \<open>
  \<open>int size(int maxLen) const\<close>.  In the regular expression case \<open>strnlen\<close>'s -1 becomes the
  largest \<open>size_t\<close>, so that \<open>len1 + 1\<close> is 0 again; \<open>remain - len1 - 1\<close> is a \<open>size_t\<close>.
\<close>

definition need_len :: "int \<Rightarrow> int \<Rightarrow> nat \<Rightarrow> int res \<Rightarrow> int res" where
  "need_len maxLen remain code r = (if maxLen = - 1 \<or> remain > 3 then r else Raise code)"

definition elem_regex_size_max :: "BSONElement \<Rightarrow> int \<Rightarrow> int \<Rightarrow> int res" where
  "elem_regex_size_max e maxLen remain = bnd (elem_value e) (\<lambda>p.
     bnd (if maxLen = - 1 then c_strlen (ebuf e) p else bson_strnlen (ebuf e) p remain) (\<lambda>len1.
     bnd (if maxLen = - 1 then c_strlen (ebuf e) (p + len1 + 1)
          else if (remain - len1 - 1) mod 18446744073709551616 > 2147483647 then Raise 0
          else bson_strnlen (ebuf e) (p + len1 + 1) (remain - len1 - 1)) (\<lambda>len2.
     Ret (i32 (len1 + 1 + len2 + 1)))))"

definition elem_size_max :: "BSONElement \<Rightarrow> int \<Rightarrow> int res" where
  "elem_size_max e maxLen = (if 0 \<le> totSize e then Ret (totSize e) else
     bnd (elem_fieldNameSize e) (\<lambda>f. let remain = maxLen - f - 1 in
     bnd (elem_type e) (\<lambda>t.
     bnd (case t of
         EOO \<Rightarrow> Ret 0 | Undefined \<Rightarrow> Ret 0 | jstNULL \<Rightarrow> Ret 0 | MaxKey \<Rightarrow> Ret 0 | MinKey \<Rightarrow> Ret 0
       | BoolT \<Rightarrow> Ret 1
       | NumberInt \<Rightarrow> Ret 4
       | Timestamp \<Rightarrow> Ret 8 | Date \<Rightarrow> Ret 8 | NumberDouble \<Rightarrow> Ret 8 | NumberLong \<Rightarrow> Ret 8
       | jstOID \<Rightarrow> Ret 12
       | Symbol \<Rightarrow> need_len maxLen remain 10313 (bnd (elem_valuestrsize e) (\<lambda>n. Ret (i32 (n + 4))))
       | Code \<Rightarrow> need_len maxLen remain 10313 (bnd (elem_valuestrsize e) (\<lambda>n. Ret (i32 (n + 4))))
       | StringT \<Rightarrow> need_len maxLen remain 10313 (bnd (elem_valuestrsize e) (\<lambda>n. Ret (i32 (n + 4))))
       | CodeWScope \<Rightarrow> need_len maxLen remain 10314 (elem_objsize e)
       | DBRef \<Rightarrow> need_len maxLen remain 10315 (bnd (elem_valuestrsize e) (\<lambda>n. Ret (i32 (n + 4 + 12))))
       | Object \<Rightarrow> need_len maxLen remain 10316 (elem_objsize e)
       | Array \<Rightarrow> need_len maxLen remain 10316 (elem_objsize e)
       | BinData \<Rightarrow> need_len maxLen remain 10317 (bnd (elem_valuestrsize e) (\<lambda>n. Ret (i32 (n + 4 + 1))))
       | RegEx \<Rightarrow> elem_regex_size_max e maxLen remain
       | BadType _ \<Rightarrow> Raise 13655) (\<lambda>x.
     Ret (i32 (x + f + 1))))))"

definition elem_valuesize :: "BSONElement \<Rightarrow> int res" where
  "elem_valuesize e = bnd (elem_size e) (\<lambda>s. bnd (elem_fieldNameSize e) (\<lambda>f. Ret (s - f - 1)))"

section \<open>Classification\<close>

fun canonical :: "BSONType \<Rightarrow> int res" where
  "canonical MinKey = Ret (- 1)" | "canonical MaxKey = Ret 127"
| "canonical EOO = Ret 0" | "canonical Undefined = Ret 0" | "canonical jstNULL = Ret 5"
| "canonical NumberDouble = Ret 10" | "canonical NumberInt = Ret 10"
| "canonical NumberLong = Ret 10" | "canonical StringT = Ret 15" | "canonical Symbol = Ret 15"
| "canonical Object = Ret 20" | "canonical Array = Ret 25" | "canonical BinData = Ret 30"
| "canonical jstOID = Ret 35" | "canonical BoolT = Ret 40" | "canonical Date = Ret 45"
| "canonical Timestamp = Ret 45" | "canonical RegEx = Ret 50" | "canonical DBRef = Ret 55"
| "canonical Code = Ret 60" | "canonical CodeWScope = Ret 65" | "canonical (BadType _) = Raise 0"

definition elem_canonicalType :: "BSONElement \<Rightarrow> int res" where
  "elem_canonicalType e = bnd (elem_type e) canonical"

definition elem_isNumber :: "BSONElement \<Rightarrow> bool res" where
  "elem_isNumber e = bnd (elem_type e) (\<lambda>t. Ret (t \<in> {NumberLong, NumberDouble, NumberInt}))"

definition elem_isSimpleType :: "BSONElement \<Rightarrow> bool res" where
  "elem_isSimpleType e = bnd (elem_type e)
     (\<lambda>t. Ret (t \<in> {NumberLong, NumberDouble, NumberInt, StringT, BoolT, Date, jstOID}))"

definition elem_mayEncapsulate :: "BSONElement \<Rightarrow> bool res" where
  "elem_mayEncapsulate e = bnd (elem_type e) (\<lambda>t. Ret (t \<in> {Object, Array, CodeWScope}))"

definition elem_isABSONObj :: "BSONElement \<Rightarrow> bool res" where
  "elem_isABSONObj e = bnd (elem_type e) (\<lambda>t. Ret (t \<in> {Object, Array}))"

text \<open>A double is non-zero unless its bits, the sign aside, are all zero.\<close>

definition elem_trueValue :: "BSONElement \<Rightarrow> bool res" where
  "elem_trueValue e = bnd (elem_type e) (\<lambda>t. case t of
       NumberLong \<Rightarrow> bnd (elem_value e) (\<lambda>v. bnd (ld64 (ebuf e) v) (\<lambda>n. Ret (n \<noteq> 0)))
     | NumberDouble \<Rightarrow> bnd (elem_value e) (\<lambda>v. bnd (ld64 (ebuf e) v)
          (\<lambda>n. Ret (n mod 9223372036854775808 \<noteq> 0)))
     | NumberInt \<Rightarrow> bnd (elem_value e) (\<lambda>v. bnd (ld32 (ebuf e) v) (\<lambda>n. Ret (n \<noteq> 0)))
     | BoolT \<Rightarrow> bnd (elem_value e) (\<lambda>v. bnd (ld8 (ebuf e) v) (\<lambda>c. Ret (c \<noteq> 0)))
     | EOO \<Rightarrow> Ret False | jstNULL \<Rightarrow> Ret False | Undefined \<Rightarrow> Ret False
     | _ \<Rightarrow> Ret True)"

section \<open>Accessors\<close>

definition elem_boolean :: "BSONElement \<Rightarrow> bool res" where
  "elem_boolean e = bnd (elem_value e) (\<lambda>v. bnd (ld8 (ebuf e) v) (\<lambda>c. Ret (c \<noteq> 0)))"

definition elem_booleanSafe :: "BSONElement \<Rightarrow> bool res" where
  "elem_booleanSafe e = bnd (elem_type e) (\<lambda>t. if t = BoolT then elem_boolean e else Ret False)"

definition elem_date :: "BSONElement \<Rightarrow> nat res" where
  "elem_date e = bnd (elem_value e) (\<lambda>v. ld64 (ebuf e) v)"

definition elem_numberInt_raw :: "BSONElement \<Rightarrow> int res" where
  "elem_numberInt_raw e = bnd (elem_value e) (\<lambda>v. ldi32 (ebuf e) v)"

definition elem_long_bits :: "BSONElement \<Rightarrow> nat res" where
  "elem_long_bits e = bnd (elem_value e) (\<lambda>v. ld64 (ebuf e) v)"

definition elem_oid :: "BSONElement \<Rightarrow> u8 list res" where
  "elem_oid e = bnd (elem_value e) (\<lambda>v. ldn (ebuf e) v 12)"

definition elem_valuestr :: "BSONElement \<Rightarrow> cptr res" where
  "elem_valuestr e = bnd (elem_value e) (\<lambda>v. Ret (ebuf e, v + 4))"

text \<open>\<open>str()\<close>: a \<open>std::string\<close> of \<open>valuestrsize() - 1\<close> bytes, zero bytes inside included.\<close>

definition elem_str :: "BSONElement \<Rightarrow> u8 list res" where
  "elem_str e = bnd (elem_type e) (\<lambda>t. if t = StringT
     then bnd (elem_valuestr e) (\<lambda>s. bnd (elem_valuestrsize e) (\<lambda>n. ldn (fst s) (snd s) (n - 1)))
     else Ret [])"

definition elem_codeWScopeCode :: "BSONElement \<Rightarrow> cptr res" where
  "elem_codeWScopeCode e = bnd (elem_value e) (\<lambda>v. Ret (ebuf e, v + 8))"

definition elem_codeWScopeScopeData :: "BSONElement \<Rightarrow> cptr res" where
  "elem_codeWScopeScopeData e = bnd (elem_codeWScopeCode e) (\<lambda>s.
     bnd (c_strlen (fst s) (snd s)) (\<lambda>n. Ret (fst s, snd s + n + 1)))"

definition elem_binData :: "BSONElement \<Rightarrow> (cptr \<times> int) res" where
  "elem_binData e = bnd (elem_type e) (\<lambda>t. if t \<noteq> BinData then Raise 0 else
     bnd (elem_valuestrsize e) (\<lambda>len. bnd (elem_value e) (\<lambda>v. Ret ((ebuf e, v + 5), len))))"

definition elem_binDataType :: "BSONElement \<Rightarrow> u8 res" where
  "elem_binDataType e = bnd (elem_type e) (\<lambda>t. if t \<noteq> BinData then Raise 0 else
     bnd (elem_value e) (\<lambda>v. ld8 (ebuf e) (v + 4)))"

definition elem_binDataClean :: "BSONElement \<Rightarrow> (cptr \<times> int) res" where
  "elem_binDataClean e = bnd (elem_binDataType e) (\<lambda>k. if k \<noteq> 2 then elem_binData e else
     bnd (elem_valuestrsize e) (\<lambda>n. bnd (elem_value e) (\<lambda>v. Ret ((ebuf e, v + 5 + 4), n - 4))))"

definition elem_regex :: "BSONElement \<Rightarrow> cptr res" where
  "elem_regex e = bnd (elem_type e) (\<lambda>t. if t \<noteq> RegEx then Raise 0 else
     bnd (elem_value e) (\<lambda>v. Ret (ebuf e, v)))"

definition elem_regexFlags :: "BSONElement \<Rightarrow> cptr res" where
  "elem_regexFlags e = bnd (elem_regex e) (\<lambda>s. bnd (c_strlen (fst s) (snd s))
     (\<lambda>n. Ret (fst s, snd s + n + 1)))"

text \<open>\<open>t * 1000\<close> in \<open>unsigned long long\<close> cannot wrap: \<open>t\<close> has 32 bits.\<close>

definition elem_timestampTime :: "BSONElement \<Rightarrow> nat res" where
  "elem_timestampTime e = bnd (elem_value e) (\<lambda>v. bnd (ld32 (ebuf e) (v + 4)) (\<lambda>t. Ret (t * 1000)))"

definition elem_timestampInc :: "BSONElement \<Rightarrow> nat res" where
  "elem_timestampInc e = bnd (elem_value e) (\<lambda>v. ld32 (ebuf e) v)"

definition elem_dbrefNS :: "BSONElement \<Rightarrow> cptr res" where
  "elem_dbrefNS e = bnd (elem_type e) (\<lambda>t. if t \<noteq> DBRef then Raise 10063 else
     bnd (elem_value e) (\<lambda>v. Ret (ebuf e, v + 4)))"

definition elem_dbrefOID :: "BSONElement \<Rightarrow> u8 list res" where
  "elem_dbrefOID e = bnd (elem_type e) (\<lambda>t. if t \<noteq> DBRef then Raise 10064 else
     bnd (elem_value e) (\<lambda>v. bnd (ldi32 (ebuf e) v) (\<lambda>n. ldn (ebuf e) (v + 4 + n) 12)))"

text \<open>\<open>chk(int t)\<close>, and the checked accessors built on it.\<close>

definition elem_chk :: "BSONType \<Rightarrow> BSONElement \<Rightarrow> BSONElement res" where
  "elem_chk t e = bnd (elem_type e) (\<lambda>u. if t = u then Ret e else Raise 13111)"

definition elem_Int :: "BSONElement \<Rightarrow> int res" where
  "elem_Int e = bnd (elem_chk NumberInt e) elem_numberInt_raw"

definition elem_Bool :: "BSONElement \<Rightarrow> bool res" where
  "elem_Bool e = bnd (elem_chk BoolT e) elem_boolean"

definition elem_Date :: "BSONElement \<Rightarrow> nat res" where
  "elem_Date e = bnd (elem_chk Date e) elem_date"

definition elem_OID :: "BSONElement \<Rightarrow> u8 list res" where
  "elem_OID e = bnd (elem_chk jstOID e) elem_oid"

section \<open>Validation\<close>

text \<open>\<open>BSONObjMaxInternalSize\<close> of \<open>bson/src/util/builder.h\<close>: 16 MB and 16 kB.\<close>

definition BSONObjMaxInternalSize :: int where
  "BSONObjMaxInternalSize = 16 * 1024 * 1024 + 16 * 1024"

text \<open>\<open>(unsigned) valuestrsize()\<close>, hence a negative size fails the upper bound.\<close>

definition validate_string :: "BSONElement \<Rightarrow> unit res" where
  "validate_string e = bnd (elem_valuestrsize e) (\<lambda>n. let x = int (to_u32 n) in
     if 0 < x \<and> x < BSONObjMaxInternalSize
     then bnd (elem_valuestr e) (\<lambda>s. bnd (ld8 (fst s) (snd s + x - 1)) (\<lambda>c.
            if c = 0 then Ret () else bnd (bson_strnlen (fst s) (snd s) x) (\<lambda>_. Raise 10321)))
     else Raise 10321)"

definition validate_codewscope :: "BSONElement \<Rightarrow> unit res" where
  "validate_codewscope e = bnd (elem_value e) (\<lambda>v.
     bnd (ldi32 (ebuf e) v) (\<lambda>total. if total < 8 then Raise 10322 else
     bnd (ldi32 (ebuf e) (v + 4)) (\<lambda>str. if total < i32 (str + 8) then Raise 10323 else
     bnd (if str \<le> 0 then Raise 10324 else bson_strnlen (ebuf e) (v + 8) str) (\<lambda>n.
     if i32 (str - 1) \<noteq> n then Raise 10324 else
     if total < i32 (str + 12) then Raise 10325 else
     bnd (ldi32 (ebuf e) (v + 8 + str)) (\<lambda>obj.
     if total \<noteq> i32 (8 + str + obj) then Raise 10326 else Ret ())))))"

definition elem_validate :: "BSONElement \<Rightarrow> unit res" where
  "elem_validate e = bnd (elem_type e) (\<lambda>t.
     if t \<in> {DBRef, Code, Symbol, StringT} then validate_string e
     else if t = CodeWScope then validate_codewscope e else Ret ())"

end
