(* ===== verification/BsonSpec.thy ===== *)
theory BsonSpec
  imports BsonElement
begin

text \<open>
  What the bytes mean: abstract BSON values with their encoding (the layout table at the head of
  \<open>bson/src/bsonobj.h\<close>), and the proof that the element functions, run on the encoding of a
  value in the middle of any buffer, compute its type, its name, its size and its contents.
\<close>

section \<open>Values and their encoding\<close>

datatype bval =
    VMinKey | VMaxKey | VUndefined | VNull
  | VDouble u64 | VInt u32 | VLong u64 | VDate u64 | VTimestamp u32 u32
  | VBool bool | VOID "u8 list"
  | VString "u8 list" | VCode "u8 list" | VSymbol "u8 list"
  | VBin u8 "u8 list" | VRegEx "u8 list" "u8 list" | VDBRef "u8 list" "u8 list"
  | VObject "(u8 list \<times> bval) list" | VArray "(u8 list \<times> bval) list"
  | VCodeW "u8 list" "(u8 list \<times> bval) list"

type_synonym fields = "(u8 list \<times> bval) list"

fun btype :: "bval \<Rightarrow> BSONType" where
  "btype VMinKey = MinKey" | "btype VMaxKey = MaxKey" | "btype VUndefined = Undefined"
| "btype VNull = jstNULL" | "btype (VDouble _) = NumberDouble" | "btype (VInt _) = NumberInt"
| "btype (VLong _) = NumberLong" | "btype (VDate _) = Date" | "btype (VTimestamp _ _) = Timestamp"
| "btype (VBool _) = BoolT" | "btype (VOID _) = jstOID" | "btype (VString _) = StringT"
| "btype (VCode _) = Code" | "btype (VSymbol _) = Symbol" | "btype (VBin _ _) = BinData"
| "btype (VRegEx _ _) = RegEx" | "btype (VDBRef _ _) = DBRef" | "btype (VObject _) = Object"
| "btype (VArray _) = Array" | "btype (VCodeW _ _) = CodeWScope"

definition enc_str :: "u8 list \<Rightarrow> u8 list" where
  "enc_str s = le32 (length s + 1) @ s @ [0]"

text \<open>A document body with its size in front and the EOO byte behind.\<close>

definition enc_doc :: "u8 list \<Rightarrow> u8 list" where
  "enc_doc body = le32 (length body + 5) @ body @ [0]"

fun enc_val :: "bval \<Rightarrow> u8 list" and enc_fields :: "fields \<Rightarrow> u8 list" where
  "enc_val VMinKey = []" | "enc_val VMaxKey = []" | "enc_val VUndefined = []" | "enc_val VNull = []"
| "enc_val (VDouble w) = le64 (unat w)" | "enc_val (VInt w) = le32 (unat w)"
| "enc_val (VLong w) = le64 (unat w)" | "enc_val (VDate w) = le64 (unat w)"
| "enc_val (VTimestamp i t) = le32 (unat i) @ le32 (unat t)"
| "enc_val (VBool b) = [if b then 1 else 0]" | "enc_val (VOID bs) = bs"
| "enc_val (VString s) = enc_str s" | "enc_val (VCode s) = enc_str s"
| "enc_val (VSymbol s) = enc_str s"
| "enc_val (VBin k bs) = le32 (length bs) @ [k] @ bs"
| "enc_val (VRegEx r f) = r @ [0] @ f @ [0]"
| "enc_val (VDBRef ns oid) = enc_str ns @ oid"
| "enc_val (VObject fs) = enc_doc (enc_fields fs)"
| "enc_val (VArray fs) = enc_doc (enc_fields fs)"
| "enc_val (VCodeW s fs) = le32 (length (enc_str s) + length (enc_doc (enc_fields fs)) + 4)
     @ enc_str s @ enc_doc (enc_fields fs)"
| "enc_fields [] = []"
| "enc_fields (f # fs) = type_byte (btype (snd f)) # fst f @ [0] @ enc_val (snd f) @ enc_fields fs"

definition enc_elem :: "u8 list \<times> bval \<Rightarrow> u8 list" where
  "enc_elem f = type_byte (btype (snd f)) # fst f @ [0] @ enc_val (snd f)"

definition enc_obj :: "fields \<Rightarrow> u8 list" where
  "enc_obj fs = enc_doc (enc_fields fs)"

lemma enc_fields_Cons: "enc_fields (f # fs) = enc_elem f @ enc_fields fs"
  by (simp add: enc_elem_def)

lemma enc_fields_append [simp]: "enc_fields (fs @ gs) = enc_fields fs @ enc_fields gs"
  by (induction fs) (simp_all add: enc_fields_Cons del: enc_fields.simps(2))

text \<open>Names and patterns are C strings; an object id has 12 bytes.\<close>

definition cname :: "u8 list \<Rightarrow> bool" where
  "cname s \<longleftrightarrow> 0 \<notin> set s"

fun wf_val :: "bval \<Rightarrow> bool" and wf_fields :: "fields \<Rightarrow> bool" where
  "wf_val (VOID bs) = (length bs = 12)"
| "wf_val (VRegEx r f) = (cname r \<and> cname f)"
| "wf_val (VDBRef ns oid) = (cname ns \<and> length oid = 12)"
| "wf_val (VObject fs) = wf_fields fs"
| "wf_val (VArray fs) = wf_fields fs"
| "wf_val (VCodeW s fs) = (cname s \<and> wf_fields fs)"
| "wf_val _ = True"
| "wf_fields [] = True"
| "wf_fields (f # fs) = (cname (fst f) \<and> wf_val (snd f) \<and> wf_fields fs)"

lemma wf_fields_iff: "wf_fields fs \<longleftrightarrow> (\<forall>f \<in> set fs. cname (fst f) \<and> wf_val (snd f))"
  by (induction fs) auto

lemma length_enc_str [simp]: "length (enc_str s) = length s + 5"
  by (simp add: enc_str_def)

lemma length_enc_doc [simp]: "length (enc_doc body) = length body + 5"
  by (simp add: enc_doc_def)

lemma length_enc_elem: "length (enc_elem f) = length (fst f) + length (enc_val (snd f)) + 2"
  by (simp add: enc_elem_def)

lemma length_enc_obj: "length (enc_obj fs) = length (enc_fields fs) + 5"
  by (simp add: enc_obj_def)

section \<open>Types\<close>

lemma bson_type_byte [simp]: "bson_type (type_byte (btype v)) = btype v"
  by (cases v) (simp_all add: bson_type_def type_codes_def schar_def)

lemma btype_nz [simp]: "type_byte (btype v) \<noteq> 0" "btype v \<noteq> EOO" "btype v \<noteq> BadType i"
  by (cases v; simp)+

section \<open>Elements inside a buffer\<close>

text \<open>
  The hypotheses under which an element is read: its encoding stands at \<open>p\<close> in a buffer below
  2 GB and its name is a C string.
\<close>

definition elem_in :: "buf \<Rightarrow> int \<Rightarrow> u8 list \<times> bval \<Rightarrow> bool" where
  "elem_in b p f \<longleftrightarrow> at b p (enc_elem f) \<and> cname (fst f) \<and> wf_val (snd f) \<and> length b < 2147483648"

text \<open>The element either constructor builds there: the name size is cached or still to be found.\<close>

definition elem_of :: "buf \<Rightarrow> int \<Rightarrow> u8 list \<times> bval \<Rightarrow> BSONElement \<Rightarrow> bool" where
  "elem_of b p f e \<longleftrightarrow> ebuf e = b \<and> data e = p \<and> totSize e = - 1 \<and>
     (fnSize e = - 1 \<or> fnSize e = int (length (fst f)) + 1)"

lemma elem_in_parts:
  assumes "elem_in b p f"
  shows "at b p [type_byte (btype (snd f))]" "at b (p + 1) (fst f @ [0])"
    "at b (p + int (length (fst f)) + 2) (enc_val (snd f))"
proof -
  have "at b p ([type_byte (btype (snd f))] @ (fst f @ [0]) @ enc_val (snd f))"
    using assms by (simp add: elem_in_def enc_elem_def)
  then show "at b p [type_byte (btype (snd f))]" "at b (p + 1) (fst f @ [0])"
      "at b (p + int (length (fst f)) + 2) (enc_val (snd f))"
    unfolding at_append by (simp_all add: algebra_simps)
qed

lemma elem_in_bound:
  "elem_in b p f \<Longrightarrow> 0 \<le> p \<and> p + int (length (enc_elem f)) \<le> int (length b) \<and> length b < 2147483648"
  using at_bound [of b p "enc_elem f"] by (simp add: elem_in_def)

lemma elem_at_in:
  assumes "elem_in b p f"
  shows "elem_at b p = Ret \<lparr>ebuf = b, data = p, fnSize = - 1, totSize = - 1\<rparr>"
  using ld8_at [OF elem_in_parts(1) [OF assms]] by (simp add: elem_at_def)

lemma elem_at_max_in:
  assumes "elem_in b p f" "int (length (fst f)) + 1 < maxLen"
  shows "elem_at_max b p maxLen =
    Ret \<lparr>ebuf = b, data = p, fnSize = int (length (fst f)) + 1, totSize = - 1\<rparr>"
proof -
  have "bson_strnlen b (p + 1) (maxLen - 1) = Ret (int (length (fst f)))"
    using elem_in_parts(2) [OF assms(1)] assms by (intro bson_strnlen_at) (auto simp: elem_in_def cname_def)
  with assms(2) ld8_at [OF elem_in_parts(1) [OF assms(1)]] show ?thesis
    by (simp add: elem_at_max_def)
qed

lemma elem_type_in:
  assumes "elem_in b p f" "elem_of b p f e"
  shows "elem_type e = Ret (btype (snd f))"
  using ld8_at [OF elem_in_parts(1) [OF assms(1)]] assms(2) by (simp add: elem_type_def elem_of_def)

lemma elem_eoo_in:
  assumes "elem_in b p f" "elem_of b p f e"
  shows "elem_eoo e = Ret False"
  using elem_type_in [OF assms] by (simp add: elem_eoo_def)

lemma elem_fieldName_in:
  assumes "elem_in b p f" "elem_of b p f e"
  shows "elem_fieldName e = Ret (b, p + 1)"
  using elem_eoo_in [OF assms] assms(2) by (simp add: elem_fieldName_def elem_of_def)

lemma elem_fieldNameSize_in:
  assumes "elem_in b p f" "elem_of b p f e"
  shows "elem_fieldNameSize e = Ret (int (length (fst f)) + 1)"
  using assms elem_in_parts(2) [OF assms(1)] elem_fieldName_in [OF assms]
  by (auto simp: elem_fieldNameSize_def elem_of_def c_strlen_at elem_in_def cname_def)

lemma elem_value_in:
  assumes "elem_in b p f" "elem_of b p f e"
  shows "elem_value e = Ret (p + int (length (fst f)) + 2)"
  using assms(2) elem_fieldNameSize_in [OF assms] by (simp add: elem_value_def elem_of_def)

lemma elem_val_at:
  assumes "elem_in b p f" "elem_of b p f e"
  shows "at (ebuf e) (p + int (length (fst f)) + 2) (enc_val (snd f))"
  using elem_in_parts(3) [OF assms(1)] assms(2) by (simp add: elem_of_def)

text \<open>A length prefix in front of the value, as a signed \<open>int\<close>.\<close>

lemma elem_prefix_in:
  assumes "elem_in b p f" "elem_of b p f e" "enc_val (snd f) = le32 n @ xs" "n < 2147483648"
  shows "elem_valuestrsize e = Ret (int n)" "elem_objsize e = Ret (int n)"
  using elem_val_at [OF assms(1,2)] elem_value_in [OF assms(1,2)] assms(3,4)
  by (simp_all add: elem_valuestrsize_def elem_objsize_def at_append ldi32_at)

section \<open>Sizes\<close>

lemma elem_regex_size_in:
  assumes "elem_in b p f" "elem_of b p f e" "snd f = VRegEx r g"
  shows "elem_regex_size e = Ret (int (length r + length g + 2))"
proof -
  let ?v = "p + int (length (fst f)) + 2"
  have "at (ebuf e) ?v ((r @ [0]) @ (g @ [0]))"
    using elem_val_at [OF assms(1,2)] assms(3) by simp
  then have "at (ebuf e) ?v (r @ [0])" "at (ebuf e) (?v + int (length r) + 1) (g @ [0])"
    unfolding at_append [of _ _ "r @ [0]" "g @ [0]"] by (simp_all add: algebra_simps)
  then have "c_strlen (ebuf e) ?v = Ret (int (length r))"
      "c_strlen (ebuf e) (?v + int (length r) + 1) = Ret (int (length g))"
    using assms(1,3) by (auto intro!: c_strlen_at simp: elem_in_def cname_def)
  moreover have "int (length r + length g + 2) < 2147483648"
    using elem_in_bound [OF assms(1)] assms(3) by (simp add: length_enc_elem)
  ultimately show ?thesis
    using elem_value_in [OF assms(1,2)] by (simp add: elem_regex_size_def i32_id algebra_simps)
qed

lemma elem_size_in:
  assumes "elem_in b p f" "elem_of b p f e"
  shows "elem_size e = Ret (int (length (enc_elem f)))"
proof -
  note sz = elem_in_bound [OF assms(1), unfolded length_enc_elem]
  note pre = elem_prefix_in [OF assms]
  have "totSize e = - 1"
    using assms(2) by (simp add: elem_of_def)
  then show ?thesis
    using sz elem_type_in [OF assms] elem_fieldNameSize_in [OF assms] elem_regex_size_in [OF assms] assms(1)
    by (cases "snd f")
       (auto simp: elem_size_def length_enc_elem i32_id enc_str_def enc_doc_def elem_in_def
         pre [where xs = "_ @ _"] pre [where xs = "_ # _"])
qed

text \<open>
  The bounded size function computes the same, when its bound admits the whole element; with a
  length prefix it needs four bytes behind the name even then.
\<close>

lemma elem_regex_size_max_in:
  assumes "elem_in b p f" "elem_of b p f e" "snd f = VRegEx r g" "int (length (enc_elem f)) \<le> m"
    and "m < 2147483648"
  shows "elem_regex_size_max e m (m - int (length (fst f)) - 2) = Ret (int (length r + length g + 2))"
proof -
  let ?v = "p + int (length (fst f)) + 2" and ?r = "m - int (length (fst f)) - 2"
  have "at (ebuf e) ?v ((r @ [0]) @ (g @ [0]))"
    using elem_val_at [OF assms(1,2)] assms(3) by simp
  then have at: "at (ebuf e) ?v (r @ [0])" "at (ebuf e) (?v + int (length r) + 1) (g @ [0])"
    unfolding at_append [of _ _ "r @ [0]" "g @ [0]"] by (simp_all add: algebra_simps)
  have room: "int (length r) + int (length g) + 2 \<le> ?r" "0 \<le> ?r" "?r < 2147483648"
    using assms(3-5) by (simp_all add: length_enc_elem)
  have c: "0 \<notin> set r" "0 \<notin> set g"
    using assms(1,3) by (auto simp: elem_in_def cname_def)
  have 1: "bson_strnlen (ebuf e) ?v ?r = Ret (int (length r))"
    using at(1) c(1) room by (intro bson_strnlen_at) auto
  have 2: "bson_strnlen (ebuf e) (?v + int (length r) + 1) (?r - int (length r) - 1)
      = Ret (int (length g))"
    using at(2) c(2) room by (intro bson_strnlen_at) auto
  have 3: "(?r - int (length r) - 1) mod 18446744073709551616 = ?r - int (length r) - 1"
    using room by (intro mod_pos_pos_trivial) auto
  have 4: "\<not> 2147483647 < ?r - int (length r) - 1" "m \<noteq> - 1"
    using room by auto
  have 5: "i32 (int (length r) + 1 + int (length g) + 1) = int (length r + length g + 2)"
    using room by (subst i32_id) auto
  show ?thesis
    unfolding elem_regex_size_max_def elem_value_in [OF assms(1,2)] bnd.simps
    by (simp only: 1 2 3 4 5 bnd.simps if_False)
qed

lemma elem_size_max_in:
  assumes "elem_in b p f" "elem_of b p f e" "int (length (enc_elem f)) \<le> m" "m < 2147483648"
  shows "elem_size_max e m = Ret (int (length (enc_elem f)))"
proof -
  note sz = elem_in_bound [OF assms(1), unfolded length_enc_elem]
  note pre = elem_prefix_in [OF assms(1,2)]
  note m = assms(3) [unfolded length_enc_elem]
  have "totSize e = - 1" "m - (int (length (fst f)) + 1) - 1 = m - int (length (fst f)) - 2"
    using assms(2) by (simp_all add: elem_of_def)
  then show ?thesis
    using sz m elem_type_in [OF assms(1,2)] elem_fieldNameSize_in [OF assms(1,2)]
      elem_regex_size_max_in [OF assms(1,2) _ assms(3,4)] assms(1)
    by (cases "snd f")
       (auto simp: elem_size_max_def length_enc_elem i32_id enc_str_def enc_doc_def elem_in_def
         need_len_def Let_def pre [where xs = "_ @ _"] pre [where xs = "_ # _"])
qed

section \<open>Accessors\<close>

lemma u32_mod [simp]: "unat (w :: u32) mod 4294967296 = unat w"
  using unsigned_less [of w, where 'a = nat] by simp

lemma u64_mod [simp]: "unat (w :: u64) mod 18446744073709551616 = unat w"
  using unsigned_less [of w, where 'a = nat] by simp

text \<open>What the accessor of each type returns on an element that holds \<open>v\<close>.\<close>

fun accessor_ok :: "BSONElement \<Rightarrow> bval \<Rightarrow> bool" where
  "accessor_ok e (VInt w) = (elem_Int e = Ret (sint w) \<and> elem_trueValue e = Ret (w \<noteq> 0))"
| "accessor_ok e (VLong w) = (elem_long_bits e = Ret (unat w) \<and> elem_trueValue e = Ret (w \<noteq> 0))"
| "accessor_ok e (VDouble w) = (elem_long_bits e = Ret (unat w))"
| "accessor_ok e (VDate w) = (elem_Date e = Ret (unat w))"
| "accessor_ok e (VTimestamp i t) =
     (elem_timestampInc e = Ret (unat i) \<and> elem_timestampTime e = Ret (unat t * 1000))"
| "accessor_ok e (VBool x) =
     (elem_Bool e = Ret x \<and> elem_booleanSafe e = Ret x \<and> elem_trueValue e = Ret x)"
| "accessor_ok e (VOID bs) = (elem_OID e = Ret bs)"
| "accessor_ok e (VString s) = (elem_str e = Ret s)"
| "accessor_ok e (VBin k bs) = (elem_binDataType e = Ret k \<and>
     (\<exists>q. elem_binData e = Ret ((ebuf e, q), int (length bs)) \<and> at (ebuf e) q bs))"
| "accessor_ok e (VRegEx r g) = (\<exists>q q'. elem_regex e = Ret (ebuf e, q) \<and> at (ebuf e) q (r @ [0]) \<and>
     elem_regexFlags e = Ret (ebuf e, q') \<and> at (ebuf e) q' (g @ [0]))"
| "accessor_ok e (VDBRef ns oid) = ((\<exists>q. elem_dbrefNS e = Ret (ebuf e, q) \<and> at (ebuf e) q (ns @ [0]))
     \<and> elem_dbrefOID e = Ret oid)"
| "accessor_ok e (VCodeW s fs) = (\<exists>q q'. elem_codeWScopeCode e = Ret (ebuf e, q) \<and>
     at (ebuf e) q (s @ [0]) \<and> elem_codeWScopeScopeData e = Ret (ebuf e, q') \<and>
     at (ebuf e) q' (enc_obj fs))"
| "accessor_ok e _ = True"

lemmas accessor_defs = elem_Int_def elem_Bool_def elem_Date_def elem_OID_def elem_chk_def
  elem_numberInt_raw_def elem_boolean_def elem_booleanSafe_def elem_date_def elem_oid_def
  elem_long_bits_def elem_timestampInc_def elem_timestampTime_def elem_trueValue_def

lemma ldi32_at_word: "at b p (le32 (unat (w :: u32))) \<Longrightarrow> ldi32 b p = Ret (sint w)"
  by (simp add: ldi32_def ld32_at s32_unat)

lemma accessors_in:
  assumes "elem_in b p f" "elem_of b p f e"
  shows "accessor_ok e (snd f)"
proof -
  define v where "v = p + int (length (fst f)) + 2"
  note val = elem_val_at [OF assms, folded v_def]
  note base = elem_type_in [OF assms] elem_value_in [OF assms, folded v_def]
  note sz = elem_in_bound [OF assms(1), unfolded length_enc_elem]
  note pre = elem_prefix_in [OF assms]
  have wf: "wf_val (snd f)"
    using assms(1) by (simp add: elem_in_def)
  show ?thesis
  proof (cases "snd f")
    case (VInt w)
    with val base show ?thesis
      by (simp add: accessor_defs ldi32_at_word ld32_at unat_gt_0)
  next
    case (VString s)
    then have "at (ebuf e) (v + 4) (s @ [0])"
      using val by (simp add: enc_str_def at_append)
    then have "at (ebuf e) (v + 4) s"
      unfolding at_append by simp
    with VString base sz pre [of "length s + 1" "s @ [0]"] show ?thesis
      by (simp add: elem_str_def elem_valuestr_def enc_str_def ldn_at)
  next
    case (VBin k bs)
    with val have "at (ebuf e) v (le32 (length bs))" "at (ebuf e) (v + 4) [k]" "at (ebuf e) (v + 5) bs"
      using at_append [of "ebuf e" v "le32 (length bs)" "k # bs"] at_Cons [of "ebuf e" "v + 4" k bs]
      by (auto simp: add.commute)
    with VBin base sz pre [of "length bs" "k # bs"] show ?thesis
      by (simp add: elem_binDataType_def elem_binData_def ld8_at)
  next
    case (VRegEx r g)
    with val have at: "at (ebuf e) v (r @ [0])" "at (ebuf e) (v + int (length r) + 1) (g @ [0])"
      using at_append [of "ebuf e" v "r @ [0]" "g @ [0]"] by (simp_all add: algebra_simps)
    moreover have "c_strlen (ebuf e) v = Ret (int (length r))"
      using at(1) wf VRegEx by (intro c_strlen_at) (auto simp: cname_def)
    ultimately show ?thesis
      using VRegEx base by (simp add: elem_regex_def elem_regexFlags_def)
  next
    case (VDBRef ns oid)
    with val have at: "at (ebuf e) v (le32 (length ns + 1))" "at (ebuf e) (v + 4) (ns @ [0])"
        "at (ebuf e) (v + int (length ns) + 5) oid"
      using at_append [of "ebuf e" v "enc_str ns" oid]
        at_append [of "ebuf e" v "le32 (length ns + 1)" "ns @ [0]"]
      by (simp_all add: enc_str_def algebra_simps)
    from VDBRef wf at(3) have "ldn (ebuf e) (v + int (length ns) + 5) 12 = Ret oid"
      by (simp add: ldn_at)
    with at VDBRef base sz show ?thesis
      by (simp add: elem_dbrefNS_def elem_dbrefOID_def ldi32_at algebra_simps)
  next
    case (VCodeW s fs)
    with val have "at (ebuf e) v (le32 (length (enc_str s) + length (enc_obj fs) + 4) @
        le32 (length s + 1) @ (s @ [0]) @ enc_obj fs)"
      by (simp add: enc_str_def enc_obj_def)
    then have "at (ebuf e) (v + 4 + 4) (s @ [0])"
        "at (ebuf e) (v + 4 + 4 + int (length (s @ [0]))) (enc_obj fs)"
      unfolding at_append by simp_all
    then have at: "at (ebuf e) (v + 8) (s @ [0])" "at (ebuf e) (v + int (length s) + 9) (enc_obj fs)"
      by (simp_all add: ac_simps)
    moreover have "c_strlen (ebuf e) (v + 8) = Ret (int (length s))"
      using at(1) wf VCodeW by (intro c_strlen_at) (auto simp: cname_def)
    ultimately show ?thesis
      using VCodeW base
      by (simp add: elem_codeWScopeCode_def elem_codeWScopeScopeData_def algebra_simps)
  next
    case (VTimestamp i t)
    with val have "at (ebuf e) v (le32 (unat i))" "at (ebuf e) (v + 4) (le32 (unat t))"
      by (simp_all add: at_append)
    with VTimestamp base show ?thesis
      by (simp add: accessor_defs ld32_at)
  next
    case (VBool x)
    with val base show ?thesis
      by (simp add: accessor_defs ld8_at split: if_splits)
  next
    case (VOID bs)
    with val base wf show ?thesis
      by (simp add: accessor_defs ldn_at)
  qed (use val base in \<open>simp_all add: accessor_defs ld64_at unat_gt_0\<close>)
qed

section \<open>Validation\<close>

lemma to_u32_int: "n < 4294967296 \<Longrightarrow> to_u32 (int n) = n"
  by (simp add: to_u32_nat)

lemma validate_string_in:
  assumes "elem_in b p f" "elem_of b p f e" "enc_val (snd f) = enc_str s @ xs"
    and "int (length s) + 1 < BSONObjMaxInternalSize"
  shows "validate_string e = Ret ()"
proof -
  define v where "v = p + int (length (fst f)) + 2"
  have len: "length s + 1 < 2147483648"
    using assms(4) by (simp add: BSONObjMaxInternalSize_def)
  have "enc_val (snd f) = le32 (length s + 1) @ s @ [0] @ xs"
    using assms(3) by (simp add: enc_str_def)
  then have 1: "elem_valuestrsize e = Ret (int (length s + 1))"
      and "at (ebuf e) v (le32 (length s + 1) @ s @ [0] @ xs)"
    using elem_prefix_in(1) [OF assms(1,2) _ len] elem_val_at [OF assms(1,2)] by (simp_all add: v_def)
  then have "at (ebuf e) (v + 4 + int (length s)) [0]"
    unfolding at_append by simp
  then have 2: "ld8 (ebuf e) (v + 4 + int (length s + 1) - 1) = Ret 0"
    by (simp add: ld8_at ac_simps)
  have 3: "to_u32 (int (length s + 1)) = length s + 1"
    using len by (intro to_u32_int) simp
  have 4: "elem_valuestr e = Ret (ebuf e, v + 4)"
    using elem_value_in [OF assms(1,2)] by (simp add: elem_valuestr_def v_def)
  show ?thesis
    unfolding validate_string_def 1 bnd.simps 3 4 Let_def fst_conv snd_conv 2
    using assms(4) by simp
qed

lemma validate_codewscope_in:
  assumes "elem_in b p f" "elem_of b p f e" "snd f = VCodeW s fs"
  shows "validate_codewscope e = Ret ()"
proof -
  define v where "v = p + int (length (fst f)) + 2"
  let ?body = "enc_fields fs" and ?total = "length (enc_str s) + length (enc_obj fs) + 4"
  have sz: "length s + length ?body + 14 < 2147483648"
    using elem_in_bound [OF assms(1)] assms(3) by (simp add: length_enc_elem)
  have c: "0 \<notin> set s"
    using assms(1,3) by (simp add: elem_in_def cname_def)
  have "at (ebuf e) v (le32 ?total @ le32 (length s + 1) @ (s @ [0]) @ le32 (length ?body + 5) @ ?body @ [0])"
    using elem_val_at [OF assms(1,2)] assms(3) by (simp add: v_def enc_str_def enc_obj_def enc_doc_def)
  then have at: "at (ebuf e) v (le32 ?total)" "at (ebuf e) (v + 4) (le32 (length s + 1))"
      "at (ebuf e) (v + 4 + 4) (s @ [0])"
      "at (ebuf e) (v + 4 + 4 + int (length (s @ [0]))) (le32 (length ?body + 5))"
    unfolding at_append by simp_all
  have 1: "ldi32 (ebuf e) v = Ret (int ?total)"
    using at(1) sz by (intro ldi32_at) (auto simp: length_enc_obj)
  have 2: "ldi32 (ebuf e) (v + 4) = Ret (int (length s + 1))"
    using at(2) sz by (intro ldi32_at) auto
  have 3: "bson_strnlen (ebuf e) (v + 8) (int (length s + 1)) = Ret (int (length s))"
    using at(3) c by (intro bson_strnlen_at) (auto simp: ac_simps)
  have 4: "ldi32 (ebuf e) (v + 8 + int (length s + 1)) = Ret (int (length ?body + 5))"
    using at(4) sz by (intro ldi32_at) (auto simp: ac_simps)
  show ?thesis
    using sz
    by (simp add: validate_codewscope_def elem_value_in [OF assms(1,2), folded v_def] 1 2 [simplified]
        3 [simplified] 4 [simplified] i32_id length_enc_obj)
qed

text \<open>Every well-formed element whose string is below the size limit passes.\<close>

fun str_len :: "bval \<Rightarrow> nat" where
  "str_len (VString s) = length s" | "str_len (VCode s) = length s" | "str_len (VSymbol s) = length s"
| "str_len (VDBRef s _) = length s" | "str_len _ = 0"

lemma validate_in:
  assumes "elem_in b p f" "elem_of b p f e" "int (str_len (snd f)) + 1 < BSONObjMaxInternalSize"
  shows "elem_validate e = Ret ()"
  using elem_type_in [OF assms(1,2)] validate_string_in [OF assms(1,2)] assms(3)
    validate_codewscope_in [OF assms(1,2)]
  by (cases "snd f") (auto simp: elem_validate_def)

end
