(* ===== verification/Double.thy ===== *)
theory Double
  imports Prelude
begin

text \<open>
  The C++ type \<open>double\<close> as far as the program looks into it: IEEE 754 binary64 with rounding to
  nearest.  A finite value is kept exactly, as an integer number of the smallest positive double
  \<open>2 ^ -1074\<close>; the sign of a zero does not matter to a comparison and is dropped.
\<close>

datatype double = NaN | Infty bool | Fin int

text \<open>The signed reading of 64 bits.\<close>

definition s64 :: "nat \<Rightarrow> int" where
  "s64 n = (if n < 9223372036854775808 then int n else int n - 18446744073709551616)"

section \<open>Values\<close>

definition dbl_fraction :: "nat \<Rightarrow> nat \<Rightarrow> nat" where
  "dbl_fraction e f = (if e = 0 then f else (2 ^ 52 + f) * 2 ^ (e - 1))"

definition dbl_of_bits :: "nat \<Rightarrow> double" where
  "dbl_of_bits w = (let neg = odd (w div 2 ^ 63); e = (w div 2 ^ 52) mod 2 ^ 11; f = w mod 2 ^ 52 in
     if e = 2047 then (if f = 0 then Infty neg else NaN)
     else Fin (if neg then - int (dbl_fraction e f) else int (dbl_fraction e f)))"

text \<open>\<open>numeric_limits<double>::max()\<close>.\<close>

definition dbl_max_units :: int where
  "dbl_max_units = 9007199254740991 * 2 ^ 2045"

text \<open>
  Conversion of an integer: \<open>excess\<close> low bits do not fit into the 53 bits of the significand, and
  are rounded to the nearest, a tie to the even neighbour.
\<close>

fun excess :: "nat \<Rightarrow> nat" where
  "excess n = (if n < 2 ^ 53 then 0 else Suc (excess (n div 2)))"

declare excess.simps [simp del]

definition round53 :: "nat \<Rightarrow> nat" where
  "round53 n = (let k = excess n; q = n div 2 ^ k; r = n mod 2 ^ k in
     (if 2 * r > 2 ^ k \<or> (2 * r = 2 ^ k \<and> odd q) then q + 1 else q) * 2 ^ k)"

definition dbl_of_int :: "int \<Rightarrow> double" where
  "dbl_of_int i = Fin ((if i < 0 then - int (round53 (nat (- i))) else int (round53 (nat i))) * 2 ^ 1074)"

section \<open>Comparisons and conversions to integers\<close>

fun dbl_le :: "double \<Rightarrow> double \<Rightarrow> bool" where
  "dbl_le (Fin a) (Fin b) = (a \<le> b)"
| "dbl_le (Infty s) (Infty t) = (s \<or> \<not> t)"
| "dbl_le (Infty s) (Fin b) = s"
| "dbl_le (Fin a) (Infty t) = (\<not> t)"
| "dbl_le _ _ = False"

definition dbl_negative :: "double \<Rightarrow> bool" where
  "dbl_negative d = (case d of Fin a \<Rightarrow> a < 0 | Infty s \<Rightarrow> s | NaN \<Rightarrow> False)"

text \<open>
  The sign of \<open>left - right\<close>, both finite: with gradual underflow the rounded difference is zero
  only when the operands are equal, and otherwise has the sign of the exact one.
\<close>

definition dbl_diff_sign :: "int \<Rightarrow> int \<Rightarrow> int" where
  "dbl_diff_sign a b = (if a < b then - 1 else if a = b then 0 else 1)"

text \<open>\<open>(int) d\<close> and \<open>(long long) d\<close>: the integral part when it is in range, else undefined.\<close>

definition trunc_units :: "int \<Rightarrow> int" where
  "trunc_units a = (if a < 0 then - ((- a) div 2 ^ 1074) else a div 2 ^ 1074)"

definition dbl_to_int :: "nat \<Rightarrow> double \<Rightarrow> int res" where
  "dbl_to_int width d = (case d of Fin a \<Rightarrow> let n = trunc_units a in
     if - (2 ^ (width - 1)) \<le> n \<and> n < 2 ^ (width - 1) then Ret n else Stuck
   | _ \<Rightarrow> Stuck)"

section \<open>Facts\<close>

lemma dbl_of_bits_range: "dbl_of_bits w = Fin a \<Longrightarrow> - dbl_max_units \<le> a \<and> a \<le> dbl_max_units"
proof -
  define e f where "e = (w div 2 ^ 52) mod 2 ^ 11" and "f = w mod 2 ^ 52"
  have f: "f \<le> 2 ^ 52 - 1"
    unfolding f_def using mod_less_divisor [of "2 ^ 52" w] by simp
  have e: "e < 2048"
    unfolding e_def using mod_less_divisor [of "2 ^ 11" "w div 2 ^ 52"] by simp
  assume a: "dbl_of_bits w = Fin a"
  then have e': "e \<noteq> 2047"
    by (auto simp: dbl_of_bits_def Let_def e_def split: if_splits)
  have "dbl_fraction e f \<le> 9007199254740991 * 2 ^ 2045"
  proof (cases "e = 0")
    case True
    have "f \<le> 9007199254740991 * 1"
      using f by simp
    also have "9007199254740991 * 1 \<le> 9007199254740991 * (2 ^ 2045 :: nat)"
      by (rule mult_le_mono2) simp
    finally show ?thesis
      using True by (simp add: dbl_fraction_def)
  next
    case False
    have "(2 ^ 52 + f) * 2 ^ (e - 1) \<le> 9007199254740991 * (2 ^ 2045 :: nat)"
    proof (rule mult_le_mono)
      show "2 ^ 52 + f \<le> 9007199254740991"
        using f by simp
      show "(2 :: nat) ^ (e - 1) \<le> 2 ^ 2045"
        using e e' by (intro power_increasing) auto
    qed
    then show ?thesis
      using False by (simp add: dbl_fraction_def)
  qed
  then have le: "int (dbl_fraction e f) \<le> dbl_max_units"
    unfolding dbl_max_units_def using of_nat_mono [where 'a = int] by fastforce
  then show ?thesis
    using a e' unfolding dbl_of_bits_def Let_def e_def [symmetric] f_def [symmetric]
    by (auto split: if_splits)
qed

lemma round53_small: "n < 2 ^ 53 \<Longrightarrow> round53 n = n"
  by (simp add: round53_def excess.simps [of n])

end
