(* ===== verification/BsonNumber.thy ===== *)
theory BsonNumber
  imports BsonElement Double
begin

text \<open>
  The numeric readings of an element, whatever its numeric type (\<open>bson/src/bsonelement.h\<close>).
\<close>

section \<open>Numbers\<close>

definition elem_numberDouble :: "BSONElement \<Rightarrow> double res" where
  "elem_numberDouble e = bnd (elem_type e) (\<lambda>t.
     if t = NumberDouble then bnd (elem_long_bits e) (\<lambda>w. Ret (dbl_of_bits w))
     else if t = NumberInt then bnd (elem_numberInt_raw e) (\<lambda>i. Ret (dbl_of_int i))
     else if t = NumberLong then bnd (elem_long_bits e) (\<lambda>w. Ret (dbl_of_int (s64 w)))
     else Ret (Fin 0))"

definition elem_numberInt :: "BSONElement \<Rightarrow> int res" where
  "elem_numberInt e = bnd (elem_type e) (\<lambda>t.
     if t = NumberDouble then bnd (elem_long_bits e) (\<lambda>w. dbl_to_int 32 (dbl_of_bits w))
     else if t = NumberInt then elem_numberInt_raw e
     else if t = NumberLong then bnd (elem_long_bits e) (\<lambda>w. Ret (i32 (s64 w)))
     else Ret 0)"

definition elem_numberLong :: "BSONElement \<Rightarrow> int res" where
  "elem_numberLong e = bnd (elem_type e) (\<lambda>t.
     if t = NumberDouble then bnd (elem_long_bits e) (\<lambda>w. dbl_to_int 64 (dbl_of_bits w))
     else if t = NumberInt then elem_numberInt_raw e
     else if t = NumberLong then bnd (elem_long_bits e) (\<lambda>w. Ret (s64 w))
     else Ret 0)"

end
