(* ===== verification/BsonObj.thy ===== *)
theory BsonObj
  imports BsonSpec BsonNumber
begin

text \<open>
  BSON objects and their iterators: \<open>bson/src/bsonobj.h\<close>, \<open>bson/src/bsonobjiterator.h\<close> and the
  field look-ups of \<open>bson/src/bson-inl.h\<close> and \<open>bson/src/bsonobj.cpp\<close>.  An object is a pointer to
  its length word.  A loop over the elements takes its step from the sizes in the data, so it may
  run for ever on data that is not an encoding; the loops are therefore of type \<open>run\<close>.
\<close>

section \<open>Objects\<close>

type_synonym BSONObj = cptr

definition obj_objsize :: "BSONObj \<Rightarrow> int res" where
  "obj_objsize o1 = ldi32 (fst o1) (snd o1)"

definition obj_isValid :: "BSONObj \<Rightarrow> bool res" where
  "obj_isValid o1 = bnd (obj_objsize o1) (\<lambda>x. Ret (0 < x \<and> x \<le> BSONObjMaxInternalSize))"

text \<open>The constructor from a pointer: an invalid size throws (\<open>_assertInvalid\<close>).\<close>

definition obj_init :: "cptr \<Rightarrow> BSONObj res" where
  "obj_init p = bnd (obj_isValid p) (\<lambda>v. if v then Ret p else Raise 10334)"

definition obj_empty :: BSONObj where
  "obj_empty = ([5, 0, 0, 0, 0], 0)"

definition obj_isEmpty :: "BSONObj \<Rightarrow> bool res" where
  "obj_isEmpty o1 = bnd (obj_objsize o1) (\<lambda>n. Ret (n \<le> 5))"

definition obj_firstElement :: "BSONObj \<Rightarrow> BSONElement res" where
  "obj_firstElement o1 = elem_at (fst o1) (snd o1 + 4)"

text \<open>\<open>copy\<close>: a buffer of its own that holds the \<open>objsize()\<close> bytes (\<open>malloc\<close> is taken to succeed).\<close>

definition obj_copy :: "BSONObj \<Rightarrow> BSONObj res" where
  "obj_copy o1 = bnd (obj_objsize o1) (\<lambda>n. bnd (ldn (fst o1) (snd o1) n) (\<lambda>bs. obj_init (bs, 0)))"

definition obj_shallowEqual :: "BSONObj \<Rightarrow> BSONObj \<Rightarrow> bool res" where
  "obj_shallowEqual o1 o2 = bnd (obj_objsize o1) (\<lambda>os. bnd (obj_objsize o2) (\<lambda>rs.
     if os = rs then (if os = 0 then Ret True else
       bnd (ldn (fst o1) (snd o1) os) (\<lambda>x. bnd (ldn (fst o2) (snd o2) os) (\<lambda>y. Ret (mem_cmp x y = 0))))
     else Ret False))"

text \<open>\<open>hash\<close>: a polynomial over the signed bytes, in \<open>unsigned\<close> arithmetic.\<close>

definition hash_step :: "nat \<Rightarrow> u8 \<Rightarrow> nat" where
  "hash_step x c = to_u32 (int x * 131 + schar c)"

definition obj_hash :: "BSONObj \<Rightarrow> nat res" where
  "obj_hash o1 = bnd (obj_objsize o1) (\<lambda>n. bnd (ldn (fst o1) (snd o1) (max 0 n)) (\<lambda>bs.
     let x = fold (\<lambda>c x. hash_step x c) bs 0 in
     Ret (or (and x 2147483647) 134217728)))"

definition elem_embeddedObject :: "BSONElement \<Rightarrow> BSONObj res" where
  "elem_embeddedObject e = bnd (elem_isABSONObj e) (\<lambda>k. if \<not> k then Raise 0 else
     bnd (elem_value e) (\<lambda>v. obj_init (ebuf e, v)))"

definition elem_embeddedObjectUserCheck :: "BSONElement \<Rightarrow> BSONObj res" where
  "elem_embeddedObjectUserCheck e = bnd (elem_isABSONObj e) (\<lambda>k. if \<not> k then Raise 10065 else
     bnd (elem_value e) (\<lambda>v. obj_init (ebuf e, v)))"

definition elem_codeWScopeObject :: "BSONElement \<Rightarrow> BSONObj res" where
  "elem_codeWScopeObject e = bnd (elem_type e) (\<lambda>t. if t \<noteq> CodeWScope then Raise 0 else
     bnd (elem_value e) (\<lambda>v. bnd (ldi32 (ebuf e) (v + 4)) (\<lambda>n. obj_init (ebuf e, v + 4 + 4 + n))))"

section \<open>Iterators\<close>

record BSONObjIterator =
  ibuf :: buf
  ipos :: int
  iend :: int

definition it_of :: "BSONObj \<Rightarrow> BSONObjIterator res" where
  "it_of o1 = bnd (obj_objsize o1) (\<lambda>sz. if sz = 0
     then Ret \<lparr>ibuf = [], ipos = 0, iend = 0\<rparr>
     else Ret \<lparr>ibuf = fst o1, ipos = snd o1 + 4, iend = snd o1 + sz - 1\<rparr>)"

definition it_range :: "buf \<Rightarrow> int \<Rightarrow> int \<Rightarrow> BSONObjIterator" where
  "it_range b start end = \<lparr>ibuf = b, ipos = start + 4, iend = end - 1\<rparr>"

definition it_more :: "BSONObjIterator \<Rightarrow> bool" where
  "it_more i \<longleftrightarrow> ipos i < iend i"

definition it_moreWithEOO :: "BSONObjIterator \<Rightarrow> bool" where
  "it_moreWithEOO i \<longleftrightarrow> ipos i \<le> iend i"

definition it_next :: "BSONObjIterator \<Rightarrow> (BSONElement \<times> BSONObjIterator) res" where
  "it_next i = (if iend i < ipos i then Raise 0 else
     bnd (elem_at (ibuf i) (ipos i)) (\<lambda>e. bnd (elem_size e) (\<lambda>n.
       Ret (e, i\<lparr>ipos := ipos i + n\<rparr>))))"

definition it_deref :: "BSONObjIterator \<Rightarrow> BSONElement res" where
  "it_deref i = (if iend i < ipos i then Raise 0 else elem_at (ibuf i) (ipos i))"

definition it_next_check :: "bool \<Rightarrow> BSONObjIterator \<Rightarrow> (BSONElement \<times> BSONObjIterator) res" where
  "it_next_check checkEnd i = (if iend i < ipos i then Raise 0 else
     let m = (if checkEnd then iend i + 1 - ipos i else - 1) in
     bnd (elem_at_max (ibuf i) (ipos i) m) (\<lambda>e. bnd (elem_size_max e m) (\<lambda>n.
       Ret (e, i\<lparr>ipos := ipos i + n\<rparr>))))"

text \<open>
  The loops of the sources that walk an object: \<open>while (i.more()) { e = i.next(); ... }\<close>.  The
  body gets the loop's variables and the element, and either goes on with new variables (\<open>Inl\<close>)
  or leaves with a result (\<open>Inr\<close>).
\<close>

partial_function (option) it_while :: "(BSONObjIterator \<Rightarrow> bool) \<Rightarrow>
    ('s \<Rightarrow> BSONElement \<Rightarrow> ('s + 'r) run) \<Rightarrow> 's \<Rightarrow> BSONObjIterator \<Rightarrow> ('s + 'r) run" where
  [code]: "it_while test body s i = (if test i then
     obnd (Some (it_next i)) (\<lambda>(e, i').
     obnd (body s e) (\<lambda>r. case r of Inl s' \<Rightarrow> it_while test body s' i' | Inr x \<Rightarrow> Some (Ret (Inr x))))
     else Some (Ret (Inl s)))"

section \<open>Looking up fields\<close>

text \<open>
  A field name argument is a C string, given by its bytes before the zero; \<open>name_is\<close> is the test
  \<open>strcmp(e.fieldName(), name) == 0\<close>.
\<close>

definition name_is :: "BSONElement \<Rightarrow> u8 list \<Rightarrow> bool res" where
  "name_is e name = bnd (elem_fieldName e) (\<lambda>s. bnd (c_strcmp s (name @ [0], 0)) (\<lambda>x. Ret (x = 0)))"

definition getField_body :: "u8 list \<Rightarrow> unit \<Rightarrow> BSONElement \<Rightarrow> (unit + BSONElement) run" where
  "getField_body name _ e = obnd (Some (name_is e name)) (\<lambda>y. Some (Ret (if y then Inr e else Inl ())))"

definition getField :: "BSONObj \<Rightarrow> u8 list \<Rightarrow> BSONElement run" where
  "getField o1 name = obnd (Some (it_of o1)) (\<lambda>i.
     obnd (it_while it_more (getField_body name) () i) (\<lambda>r.
     case r of Inl _ \<Rightarrow> Some (Ret elem_default) | Inr e \<Rightarrow> Some (Ret e)))"

definition hasField :: "BSONObj \<Rightarrow> u8 list \<Rightarrow> bool run" where
  "hasField o1 name = obnd (getField o1 name) (\<lambda>e. Some (bnd (elem_eoo e) (\<lambda>z. Ret (\<not> z))))"

definition getIntField :: "BSONObj \<Rightarrow> u8 list \<Rightarrow> int run" where
  "getIntField o1 name = obnd (getField o1 name) (\<lambda>e. Some (bnd (elem_isNumber e) (\<lambda>k.
     if k then bnd (elem_numberDouble e) (dbl_to_int 32) else Ret (- 2147483648))))"

definition getBoolField :: "BSONObj \<Rightarrow> u8 list \<Rightarrow> bool run" where
  "getBoolField o1 name = obnd (getField o1 name) (\<lambda>e. Some (bnd (elem_type e) (\<lambda>t.
     if t = BoolT then elem_boolean e else Ret False)))"

definition getStringField :: "BSONObj \<Rightarrow> u8 list \<Rightarrow> cptr run" where
  "getStringField o1 name = obnd (getField o1 name) (\<lambda>e. Some (bnd (elem_type e) (\<lambda>t.
     if t = StringT then elem_valuestr e else Ret ([0], 0))))"

definition getObjectField :: "BSONObj \<Rightarrow> u8 list \<Rightarrow> BSONObj run" where
  "getObjectField o1 name = obnd (getField o1 name) (\<lambda>e. Some (bnd (elem_type e) (\<lambda>t.
     if t = Object \<or> t = Array then elem_embeddedObject e else Ret obj_empty)))"

text \<open>\<open>getObjectID\<close>: whether there is an \<open>_id\<close>, and the element then stored in \<open>e\<close>.\<close>

definition str_id :: "u8 list" where
  "str_id = [0x5F, 0x69, 0x64]"

definition getObjectID :: "BSONObj \<Rightarrow> BSONElement option run" where
  "getObjectID o1 = obnd (getField o1 str_id) (\<lambda>f. Some (bnd (elem_eoo f) (\<lambda>z.
     Ret (if z then None else Some f))))"

text \<open>\<open>strchr(name, '.')\<close>: what is left and right of the first dot.\<close>

definition split_dot :: "u8 list \<Rightarrow> (u8 list \<times> u8 list) option" where
  "split_dot name = (case dropWhile (\<lambda>c. c \<noteq> 0x2E) name of [] \<Rightarrow> None
     | _ # right \<Rightarrow> Some (takeWhile (\<lambda>c. c \<noteq> 0x2E) name, right))"

lemma split_dot_shorter: "split_dot name = Some (l, r) \<Longrightarrow> length r < length name"
  using length_dropWhile_le [of "\<lambda>c. c \<noteq> 0x2E" name]
  by (auto simp: split_dot_def split: list.splits)

function getFieldDotted :: "BSONObj \<Rightarrow> u8 list \<Rightarrow> BSONElement run" where
  "getFieldDotted o1 name = obnd (getField o1 name) (\<lambda>e. obnd (Some (elem_eoo e)) (\<lambda>z.
     if \<not> z then Some (Ret e) else
     case split_dot name of None \<Rightarrow> Some (Ret e)
     | Some (left, right) \<Rightarrow> obnd (getObjectField o1 left) (\<lambda>sub. obnd (Some (obj_isEmpty sub)) (\<lambda>k.
         if k then Some (Ret elem_default) else getFieldDotted sub right))))"
  by pat_completeness auto
termination
  by (relation "measure (\<lambda>(o1, name). length name)") (auto dest: split_dot_shorter)

text \<open>The second component is what \<open>name\<close>, a reference, points at on return.\<close>

function getFieldDottedOrArray :: "BSONObj \<Rightarrow> u8 list \<Rightarrow> (BSONElement \<times> u8 list) run" where
  "getFieldDottedOrArray o1 name =
     (case split_dot name of
        Some (left, right) \<Rightarrow>
          obnd (getField o1 left) (\<lambda>sub. obnd (Some (elem_type sub)) (\<lambda>t.
            if t = EOO then Some (Ret (elem_default, right))
            else if t = Array \<or> right = [] then Some (Ret (sub, right))
            else if t = Object then
              obnd (Some (elem_embeddedObject sub)) (\<lambda>o2. getFieldDottedOrArray o2 right)
            else Some (Ret (elem_default, right))))
      | None \<Rightarrow>
          obnd (getField o1 name) (\<lambda>sub. obnd (Some (elem_type sub)) (\<lambda>t.
            if t = EOO then Some (Ret (elem_default, [])) else Some (Ret (sub, [])))))"
  by pat_completeness auto
termination
  by (relation "measure (\<lambda>(o1, name). length name)") (auto dest: split_dot_shorter)

text \<open>The loops \<open>while (i.moreWithEOO()) { e = i.next(); if (e.eoo()) break; ... }\<close>.\<close>

definition it_for :: "('s \<Rightarrow> BSONElement \<Rightarrow> ('s + 'r) run) \<Rightarrow> 's \<Rightarrow> BSONObjIterator \<Rightarrow> ('s + 'r) run" where
  "it_for body s i = obnd (it_while it_moreWithEOO
     (\<lambda>s e. obnd (Some (elem_eoo e)) (\<lambda>z. if z then Some (Ret (Inr (Inl s)))
        else obnd (body s e) (\<lambda>r. case r of Inl s' \<Rightarrow> Some (Ret (Inl s')) | Inr x \<Rightarrow> Some (Ret (Inr (Inr x))))))
     s i) (\<lambda>r. Some (Ret (case r of Inl s' \<Rightarrow> Inl s' | Inr x \<Rightarrow> x)))"

definition nFields :: "BSONObj \<Rightarrow> nat run" where
  "nFields o1 = obnd (Some (it_of o1)) (\<lambda>i.
     obnd (it_for (\<lambda>n e. Some (Ret (Inl (n + 1) :: nat + unit))) 0 i) (\<lambda>r.
     case r of Inl n \<Rightarrow> Some (Ret n) | Inr _ \<Rightarrow> Some Stuck))"

text \<open>\<open>getFieldNames\<close>: the names inserted, in order, and the count returned.\<close>

definition name_of :: "BSONElement \<Rightarrow> u8 list res" where
  "name_of e = bnd (elem_fieldName e) (\<lambda>s. bnd (c_strlen (fst s) (snd s)) (\<lambda>n. ldn (fst s) (snd s) n))"

definition getFieldNames :: "BSONObj \<Rightarrow> (u8 list list \<times> nat) run" where
  "getFieldNames o1 = obnd (Some (it_of o1)) (\<lambda>i.
     obnd (it_for (\<lambda>(ns, n) e. obnd (Some (name_of e)) (\<lambda>s. Some (Ret (Inl (ns @ [s], n + 1) :: _ + unit))))
       ([], 0) i) (\<lambda>r.
     case r of Inl x \<Rightarrow> Some (Ret x) | Inr _ \<Rightarrow> Some Stuck))"

definition elems :: "BSONObj \<Rightarrow> BSONElement list run" where
  "elems o1 = obnd (Some (it_of o1)) (\<lambda>i.
     obnd (it_while it_more (\<lambda>v e. Some (Ret (Inl (v @ [e]) :: _ + unit))) [] i) (\<lambda>r.
     case r of Inl v \<Rightarrow> Some (Ret v) | Inr _ \<Rightarrow> Some Stuck))"

end
