(* ===== verification/BsonBuilder.thy ===== *)
theory BsonBuilder
  imports BsonObj
begin

text \<open>
  Building documents: \<open>BufBuilder\<close> of \<open>bson/src/util/builder.h\<close> and \<open>BSONObjBuilder\<close> of
  \<open>bson/src/bsonobjbuilder.h\<close>.  A field name or text argument is the list of its bytes without the
  0 that \<open>StringData\<close> guarantees behind them.  The four bytes that \<open>skip\<close> leaves room for hold what
  \<open>malloc\<close> left there until \<open>_done\<close> fills them; they are an argument.
\<close>

section \<open>BufBuilder\<close>

definition BufferMaxSize :: nat where "BufferMaxSize = 67108864"

text \<open>
  The bytes written and the capacity.  \<open>bb_oom\<close> says that the allocator fails: the constructor
  tests for that, the growth does not, and then writes through a null pointer.
\<close>

record BufBuilder =
  bb_bytes :: "u8 list"
  bb_size :: nat
  bb_oom :: bool

definition bb_new :: "bool \<Rightarrow> nat \<Rightarrow> BufBuilder res" where
  "bb_new oom initsize = (if 0 < initsize \<and> oom then Raise 10000
     else Ret \<lparr>bb_bytes = [], bb_size = initsize, bb_oom = oom\<rparr>)"

definition grown_size :: "nat \<Rightarrow> nat \<Rightarrow> nat" where
  "grown_size l cap = (let a = cap * 2; a = (if a = 0 then 512 else a) in if l > a then l + 16 * 1024 else a)"

definition bb_grow_reallocate :: "nat \<Rightarrow> BufBuilder \<Rightarrow> BufBuilder res" where
  "bb_grow_reallocate l b = (let a = grown_size l (bb_size b) in
     if a > BufferMaxSize then Raise 13548 else if bb_oom b then Stuck else Ret (b\<lparr>bb_size := a\<rparr>))"

text \<open>\<open>grow\<close> followed by the store of the bytes the caller has for the room.\<close>

definition bb_append :: "u8 list \<Rightarrow> BufBuilder \<Rightarrow> BufBuilder res" where
  "bb_append bs b = (let l = length (bb_bytes b) + length bs in
     bnd (if l > bb_size b then bb_grow_reallocate l b else Ret b) (\<lambda>b. Ret (b\<lparr>bb_bytes := bb_bytes b @ bs\<rparr>)))"

definition bb_setlen :: "nat \<Rightarrow> BufBuilder \<Rightarrow> BufBuilder" where
  "bb_setlen n b = b\<lparr>bb_bytes := take n (bb_bytes b)\<rparr>"

definition bb_reset :: "BufBuilder \<Rightarrow> BufBuilder" where
  "bb_reset b = b\<lparr>bb_bytes := []\<rparr>"

definition bb_reset_max :: "nat \<Rightarrow> BufBuilder \<Rightarrow> BufBuilder" where
  "bb_reset_max maxSize b = (if maxSize \<noteq> 0 \<and> bb_size b > maxSize
     then b\<lparr>bb_bytes := [], bb_size := maxSize\<rparr> else b\<lparr>bb_bytes := []\<rparr>)"

definition bb_appendStr :: "u8 list \<Rightarrow> bool \<Rightarrow> BufBuilder \<Rightarrow> BufBuilder res" where
  "bb_appendStr str includeEndingNull = bb_append (if includeEndingNull then str @ [0] else str)"

section \<open>BSONObjBuilder\<close>

record BSONObjBuilder =
  ob_b :: BufBuilder
  ob_offset :: nat
  ob_doneCalled :: bool
  ob_owned :: bool

definition ob_new :: "bool \<Rightarrow> u8 list \<Rightarrow> nat \<Rightarrow> BSONObjBuilder res" where
  "ob_new oom room initsize = bnd (bb_new oom (initsize + 4)) (\<lambda>b. bnd (bb_append (le32 0) b) (\<lambda>b.
     bnd (bb_append (take 4 room) b) (\<lambda>b.
     Ret \<lparr>ob_b = b, ob_offset = 4, ob_doneCalled = False, ob_owned = True\<rparr>)))"

definition ob_sub :: "u8 list \<Rightarrow> BufBuilder \<Rightarrow> BSONObjBuilder res" where
  "ob_sub room base = bnd (bb_append (take 4 room) base) (\<lambda>b.
     Ret \<lparr>ob_b = b, ob_offset = length (bb_bytes base), ob_doneCalled = False, ob_owned = False\<rparr>)"

text \<open>A row of appends to the buffer, as every function below makes one.\<close>

fun bb_appends :: "u8 list list \<Rightarrow> BufBuilder \<Rightarrow> BufBuilder res" where
  "bb_appends [] b = Ret b"
| "bb_appends (c # cs) b = bnd (bb_append c b) (bb_appends cs)"

definition ob_put :: "u8 list list \<Rightarrow> BSONObjBuilder \<Rightarrow> BSONObjBuilder res" where
  "ob_put cs ob = bnd (bb_appends cs (ob_b ob)) (\<lambda>b. Ret (ob\<lparr>ob_b := b\<rparr>))"

text \<open>The type byte and the name, then the rest.\<close>

definition ob_field :: "BSONType \<Rightarrow> u8 list \<Rightarrow> u8 list list \<Rightarrow> BSONObjBuilder \<Rightarrow> BSONObjBuilder res" where
  "ob_field ty name cs = ob_put ([type_byte ty] # (name @ [0]) # cs)"

text \<open>The bytes of an object, \<open>objsize()\<close> of them.\<close>

definition obj_raw :: "BSONObj \<Rightarrow> u8 list res" where
  "obj_raw o1 = bnd (obj_objsize o1) (\<lambda>n. ldn (fst o1) (snd o1) n)"

definition ob_append_element :: "BSONElement \<Rightarrow> BSONObjBuilder \<Rightarrow> BSONObjBuilder res" where
  "ob_append_element e ob = bnd (elem_eoo e) (\<lambda>z. if z then Raise 0 else
     bnd (elem_size e) (\<lambda>n. bnd (ldn (ebuf e) (data e) n) (\<lambda>bs. ob_put [bs] ob)))"

definition ob_appendAs :: "BSONElement \<Rightarrow> u8 list \<Rightarrow> BSONObjBuilder \<Rightarrow> BSONObjBuilder res" where
  "ob_appendAs e name ob = bnd (elem_eoo e) (\<lambda>z. if z then Raise 0 else
     bnd (elem_type e) (\<lambda>t. bnd (elem_value e) (\<lambda>v. bnd (elem_valuesize e) (\<lambda>n.
     bnd (ldn (ebuf e) v n) (\<lambda>bs. ob_field t name [bs] ob)))))"

definition ob_append_obj :: "u8 list \<Rightarrow> BSONObj \<Rightarrow> BSONObjBuilder \<Rightarrow> BSONObjBuilder res" where
  "ob_append_obj name o1 ob = bnd (obj_raw o1) (\<lambda>bs. ob_field Object name [bs] ob)"

definition ob_appendObject :: "u8 list \<Rightarrow> cptr \<Rightarrow> int \<Rightarrow> BSONObjBuilder \<Rightarrow> BSONObjBuilder res" where
  "ob_appendObject name p sz ob = bnd (if sz = 0 then ldi32 (fst p) (snd p) else Ret sz) (\<lambda>n.
     if \<not> (n > 4 \<and> n < 100000000) then Raise 0
     else bnd (ldn (fst p) (snd p) n) (\<lambda>bs. ob_field Object name [bs] ob))"

definition ob_subobjStart :: "u8 list \<Rightarrow> BSONObjBuilder \<Rightarrow> BSONObjBuilder res" where
  "ob_subobjStart name = ob_field Object name []"

definition ob_subarrayStart :: "u8 list \<Rightarrow> BSONObjBuilder \<Rightarrow> BSONObjBuilder res" where
  "ob_subarrayStart name = ob_field Array name []"

definition ob_appendArray :: "u8 list \<Rightarrow> BSONObj \<Rightarrow> BSONObjBuilder \<Rightarrow> BSONObjBuilder res" where
  "ob_appendArray name o1 ob = bnd (obj_raw o1) (\<lambda>bs. ob_field Array name [bs] ob)"

definition ob_appendBool :: "u8 list \<Rightarrow> int \<Rightarrow> BSONObjBuilder \<Rightarrow> BSONObjBuilder res" where
  "ob_appendBool name val = ob_field BoolT name [[if val \<noteq> 0 then 1 else 0]]"

definition ob_append_bool :: "u8 list \<Rightarrow> bool \<Rightarrow> BSONObjBuilder \<Rightarrow> BSONObjBuilder res" where
  "ob_append_bool name val = ob_field BoolT name [[if val then 1 else 0]]"

definition ob_append_int :: "u8 list \<Rightarrow> int \<Rightarrow> BSONObjBuilder \<Rightarrow> BSONObjBuilder res" where
  "ob_append_int name n = ob_field NumberInt name [le32 (to_u32 n)]"

definition ob_append_unsigned :: "u8 list \<Rightarrow> nat \<Rightarrow> BSONObjBuilder \<Rightarrow> BSONObjBuilder res" where
  "ob_append_unsigned name n = ob_append_int name (s32 n)"

definition ob_append_ll :: "u8 list \<Rightarrow> int \<Rightarrow> BSONObjBuilder \<Rightarrow> BSONObjBuilder res" where
  "ob_append_ll name n = ob_field NumberLong name [le64 (to_u64 n)]"

definition ob_appendIntOrLL :: "u8 list \<Rightarrow> int \<Rightarrow> BSONObjBuilder \<Rightarrow> BSONObjBuilder res" where
  "ob_appendIntOrLL name n ob = (if n = - 9223372036854775808 then Stuck else
     let x = (if n < 0 then n * - 1 else n) in
     if x < 1073741823 then ob_append_int name n ob else ob_append_ll name n ob)"

definition ob_appendNumber_int :: "u8 list \<Rightarrow> int \<Rightarrow> BSONObjBuilder \<Rightarrow> BSONObjBuilder res" where
  "ob_appendNumber_int name n = ob_append_int name n"

definition ob_append_double :: "u8 list \<Rightarrow> u64 \<Rightarrow> BSONObjBuilder \<Rightarrow> BSONObjBuilder res" where
  "ob_append_double name d = ob_field NumberDouble name [le64 (unat d)]"

definition ob_appendNumber_double :: "u8 list \<Rightarrow> u64 \<Rightarrow> BSONObjBuilder \<Rightarrow> BSONObjBuilder res" where
  "ob_appendNumber_double name d = ob_append_double name d"

definition ob_appendNumber_size :: "u8 list \<Rightarrow> nat \<Rightarrow> BSONObjBuilder \<Rightarrow> BSONObjBuilder res" where
  "ob_appendNumber_size name n = (if n < 1073741824 then ob_append_int name (int n) else ob_append_ll name (int n))"

text \<open>
  \<open>to_double\<close> is the conversion of the machine, a parameter.  The negation of the least
  \<open>long long\<close> overflows (undefined), here and in \<open>appendIntOrLL\<close>.
\<close>

definition ob_appendNumber_ll :: "(int \<Rightarrow> u64) \<Rightarrow> u8 list \<Rightarrow> int \<Rightarrow> BSONObjBuilder \<Rightarrow> BSONObjBuilder res" where
  "ob_appendNumber_ll to_double name n ob = (if n = - 9223372036854775808 then Stuck else
     let x = (if n \<ge> 0 then n else - n) in
     if x < 1073741824 then ob_append_int name n ob
     else if x < 1099511627776 then ob_append_double name (to_double n) ob else ob_append_ll name n ob)"

text \<open>\<open>appendOID\<close>: the id passed, or a new one from \<open>gen\<close> when asked for, or the zero id.\<close>

definition ob_appendOID :: "u8 list \<Rightarrow> u8 list option \<Rightarrow> bool \<Rightarrow> u8 list \<Rightarrow> BSONObjBuilder \<Rightarrow> BSONObjBuilder res" where
  "ob_appendOID name oid generateIfBlank gen = ob_field jstOID name [case oid of Some x \<Rightarrow> x
     | None \<Rightarrow> if generateIfBlank then gen else replicate 12 0]"

definition ob_append_oid :: "u8 list \<Rightarrow> u8 list \<Rightarrow> BSONObjBuilder \<Rightarrow> BSONObjBuilder res" where
  "ob_append_oid name oid = ob_field jstOID name [oid]"

definition ob_genOID :: "u8 list \<Rightarrow> BSONObjBuilder \<Rightarrow> BSONObjBuilder res" where
  "ob_genOID gen = ob_append_oid [95, 105, 100] gen"

definition ob_appendTimeT :: "u8 list \<Rightarrow> int \<Rightarrow> BSONObjBuilder \<Rightarrow> BSONObjBuilder res" where
  "ob_appendTimeT name dt = ob_field Date name [le64 (to_u64 (int (to_u64 dt) * 1000))]"

definition ob_appendDate :: "u8 list \<Rightarrow> nat \<Rightarrow> BSONObjBuilder \<Rightarrow> BSONObjBuilder res" where
  "ob_appendDate name dt = ob_field Date name [le64 dt]"

definition ob_appendRegex :: "u8 list \<Rightarrow> u8 list \<Rightarrow> u8 list \<Rightarrow> BSONObjBuilder \<Rightarrow> BSONObjBuilder res" where
  "ob_appendRegex name regex options = ob_field RegEx name [regex @ [0], options @ [0]]"

definition ob_appendCode :: "u8 list \<Rightarrow> u8 list \<Rightarrow> BSONObjBuilder \<Rightarrow> BSONObjBuilder res" where
  "ob_appendCode name code = ob_field Code name [le32 (length code + 1), code @ [0]]"

text \<open>\<open>append\<close> of text: \<open>sz\<close> bytes from the pointer, the 0 included.\<close>

definition ob_append_str :: "u8 list \<Rightarrow> cptr \<Rightarrow> int \<Rightarrow> BSONObjBuilder \<Rightarrow> BSONObjBuilder res" where
  "ob_append_str name str sz ob = bnd (ldn (fst str) (snd str) sz) (\<lambda>bs.
     ob_field StringT name [le32 (to_u32 sz), bs] ob)"

definition ob_append_cstr :: "u8 list \<Rightarrow> cptr \<Rightarrow> BSONObjBuilder \<Rightarrow> BSONObjBuilder res" where
  "ob_append_cstr name str ob = bnd (c_strlen (fst str) (snd str)) (\<lambda>n. ob_append_str name str (n + 1) ob)"

definition ob_append_string :: "u8 list \<Rightarrow> u8 list \<Rightarrow> BSONObjBuilder \<Rightarrow> BSONObjBuilder res" where
  "ob_append_string name s = ob_append_str name (s @ [0], 0) (int (length s) + 1)"

definition ob_appendSymbol :: "u8 list \<Rightarrow> u8 list \<Rightarrow> BSONObjBuilder \<Rightarrow> BSONObjBuilder res" where
  "ob_appendSymbol name symbol = ob_field Symbol name [le32 (length symbol + 1), symbol @ [0]]"

definition ob_appendNull :: "u8 list \<Rightarrow> BSONObjBuilder \<Rightarrow> BSONObjBuilder res" where
  "ob_appendNull name = ob_field jstNULL name []"

definition ob_appendMinKey :: "u8 list \<Rightarrow> BSONObjBuilder \<Rightarrow> BSONObjBuilder res" where
  "ob_appendMinKey name = ob_field MinKey name []"

definition ob_appendMaxKey :: "u8 list \<Rightarrow> BSONObjBuilder \<Rightarrow> BSONObjBuilder res" where
  "ob_appendMaxKey name = ob_field MaxKey name []"

definition ob_appendTimestamp_now :: "u8 list \<Rightarrow> BSONObjBuilder \<Rightarrow> BSONObjBuilder res" where
  "ob_appendTimestamp_now name = ob_field Timestamp name [le64 0]"

definition ob_appendTimestamp :: "u8 list \<Rightarrow> nat \<Rightarrow> BSONObjBuilder \<Rightarrow> BSONObjBuilder res" where
  "ob_appendTimestamp name val = ob_field Timestamp name [le64 val]"

definition ob_appendTimestamp_inc :: "u8 list \<Rightarrow> nat \<Rightarrow> nat \<Rightarrow> BSONObjBuilder \<Rightarrow> BSONObjBuilder res" where
  "ob_appendTimestamp_inc name time inc = (let secs = (time div 1000) mod 4294967296 in
     ob_appendTimestamp name (inc mod 4294967296 + 4294967296 * secs))"

definition ob_appendDBRef :: "u8 list \<Rightarrow> u8 list \<Rightarrow> u8 list \<Rightarrow> BSONObjBuilder \<Rightarrow> BSONObjBuilder res" where
  "ob_appendDBRef name ns oid = ob_field DBRef name [le32 (length ns + 1), ns @ [0], oid]"

definition ob_appendBinData :: "u8 list \<Rightarrow> int \<Rightarrow> u8 \<Rightarrow> cptr \<Rightarrow> BSONObjBuilder \<Rightarrow> BSONObjBuilder res" where
  "ob_appendBinData name len type p ob = bnd (ldn (fst p) (snd p) len) (\<lambda>bs.
     ob_field BinData name [le32 (to_u32 len), [type], bs] ob)"

definition ob_appendBinDataArrayDeprecated :: "u8 list \<Rightarrow> cptr \<Rightarrow> int \<Rightarrow> BSONObjBuilder \<Rightarrow> BSONObjBuilder res" where
  "ob_appendBinDataArrayDeprecated name p len ob = bnd (ldn (fst p) (snd p) len) (\<lambda>bs.
     ob_field BinData name [le32 (to_u32 (len + 4)), [2], le32 (to_u32 len), bs] ob)"

definition ob_appendCodeWScope :: "u8 list \<Rightarrow> u8 list \<Rightarrow> BSONObj \<Rightarrow> BSONObjBuilder \<Rightarrow> BSONObjBuilder res" where
  "ob_appendCodeWScope name code scope ob = bnd (obj_objsize scope) (\<lambda>n. bnd (obj_raw scope) (\<lambda>bs.
     ob_field CodeWScope name [le32 (to_u32 (4 + 4 + int (length code) + 1 + n)), le32 (length code + 1), code @ [0], bs] ob))"

definition ob_appendUndefined :: "u8 list \<Rightarrow> BSONObjBuilder \<Rightarrow> BSONObjBuilder res" where
  "ob_appendUndefined name = ob_field Undefined name []"

definition ob_appendWhere :: "u8 list \<Rightarrow> BSONObj \<Rightarrow> BSONObjBuilder \<Rightarrow> BSONObjBuilder res" where
  "ob_appendWhere code scope = ob_appendCodeWScope [36, 119, 104, 101, 114, 101] code scope"

section \<open>Finishing\<close>

text \<open>\<open>_done\<close> ends the document and stores its size in the room; the pointer it returns follows.\<close>

definition ob__done :: "BSONObjBuilder \<Rightarrow> BSONObjBuilder res" where
  "ob__done ob = (if ob_doneCalled ob then Ret ob else
     bnd (bb_append [type_byte EOO] (ob_b ob)) (\<lambda>b.
     bnd (sti32 (bb_bytes b) (int (ob_offset ob)) (int (length (bb_bytes b)) - int (ob_offset ob))) (\<lambda>bs.
     Ret (ob\<lparr>ob_b := b\<lparr>bb_bytes := bs\<rparr>, ob_doneCalled := True\<rparr>))))"

definition ob_ptr :: "BSONObjBuilder \<Rightarrow> cptr" where
  "ob_ptr ob = (bb_bytes (ob_b ob), int (ob_offset ob))"

definition ob_obj :: "BSONObjBuilder \<Rightarrow> BSONObj res" where
  "ob_obj ob = (if \<not> ob_owned ob then Raise 10335 else bnd (ob__done ob) (\<lambda>ob. obj_init (ob_ptr ob)))"

definition ob_done :: "BSONObjBuilder \<Rightarrow> (BSONObj \<times> BSONObjBuilder) res" where
  "ob_done ob = bnd (ob__done ob) (\<lambda>ob. bnd (obj_init (ob_ptr ob)) (\<lambda>o1. Ret (o1, ob)))"

definition ob_asTempObj :: "BSONObjBuilder \<Rightarrow> (BSONObj \<times> BSONObjBuilder) res" where
  "ob_asTempObj ob = bnd (ob__done ob) (\<lambda>ob. bnd (obj_init (ob_ptr ob)) (\<lambda>o1.
     Ret (o1, ob\<lparr>ob_b := bb_setlen (length (bb_bytes (ob_b ob)) - 1) (ob_b ob), ob_doneCalled := False\<rparr>)))"

text \<open>Back to the builder whose buffer a sub-builder wrote into.\<close>

definition ob_after_sub :: "BSONObjBuilder \<Rightarrow> BSONObjBuilder \<Rightarrow> BSONObjBuilder" where
  "ob_after_sub child ob = ob\<lparr>ob_b := ob_b child\<rparr>"

text \<open>\<open>appendElements\<close>: the elements up to the EOO; the walk may not end on a malformed object.\<close>

partial_function (option) ob_append_loop :: "BSONObjIterator \<Rightarrow> BSONObjBuilder \<Rightarrow> BSONObjBuilder run" where
  [code]: "ob_append_loop i ob = (if \<not> it_moreWithEOO i then Some (Ret ob) else
     obnd (Some (it_next i)) (\<lambda>(e, i'). obnd (Some (elem_eoo e)) (\<lambda>z. if z then Some (Ret ob) else
     obnd (Some (ob_append_element e ob)) (ob_append_loop i'))))"

definition ob_appendElements :: "BSONObj \<Rightarrow> BSONObjBuilder \<Rightarrow> BSONObjBuilder run" where
  "ob_appendElements x ob = obnd (Some (it_of x)) (\<lambda>i. ob_append_loop i ob)"

text \<open>Decimal field names of arrays.\<close>

fun digits_rev :: "nat \<Rightarrow> nat \<Rightarrow> u8 list" where
  "digits_rev 0 n = []"
| "digits_rev (Suc k) n = of_nat (48 + n mod 10) # (if n < 10 then [] else digits_rev k (n div 10))"

definition numStr :: "nat \<Rightarrow> u8 list" where
  "numStr n = rev (digits_rev 20 n)"

end
