(* ===== verification/BsonOrder.thy ===== *)
theory BsonOrder
  imports BsonObj
begin

text \<open>
  The well-ordered comparison of documents: \<open>BSONElement::woCompare\<close> of \<open>bson/src/bson-inl.h\<close>,
  \<open>compareElementValues\<close> and the three comparisons of objects of \<open>bson/src/bsonobj.cpp\<close>, and
  \<open>bson/src/ordering.h\<close>.  As everywhere only the sign of \<open>strcmp\<close> and \<open>memcmp\<close> is kept.
\<close>

section \<open>Values\<close>

definition three_way :: "int \<Rightarrow> int \<Rightarrow> int" where
  "three_way a b = (if a < b then - 1 else if a = b then 0 else 1)"

definition cmp_canonical :: "BSONElement \<Rightarrow> BSONElement \<Rightarrow> int res" where
  "cmp_canonical l r = bnd (elem_canonicalType l) (\<lambda>a. bnd (elem_canonicalType r) (\<lambda>b. Ret (a - b)))"

definition cmp_bool :: "BSONElement \<Rightarrow> BSONElement \<Rightarrow> int res" where
  "cmp_bool l r = bnd (elem_value l) (\<lambda>v. bnd (ld8 (ebuf l) v) (\<lambda>a.
     bnd (elem_value r) (\<lambda>w. bnd (ld8 (ebuf r) w) (\<lambda>b. Ret (schar a - schar b)))))"

definition cmp_date :: "BSONElement \<Rightarrow> BSONElement \<Rightarrow> int res" where
  "cmp_date l r = bnd (elem_date l) (\<lambda>a. bnd (elem_date r) (\<lambda>b. Ret (three_way (int a) (int b))))"

definition cmp_long :: "BSONElement \<Rightarrow> BSONElement \<Rightarrow> int res" where
  "cmp_long l r = bnd (elem_long_bits l) (\<lambda>a. bnd (elem_long_bits r) (\<lambda>b. Ret (three_way (s64 a) (s64 b))))"

definition dbl_isNan :: "double \<Rightarrow> bool" where
  "dbl_isNan d \<longleftrightarrow> \<not> (dbl_le d (Fin dbl_max_units) \<and> dbl_le (Fin (- dbl_max_units)) d)"

definition cmp_double :: "double \<Rightarrow> double \<Rightarrow> int" where
  "cmp_double left right = (if dbl_isNan left then (if dbl_isNan right then 0 else - 1)
     else if dbl_isNan right then 1
     else (case (left, right) of (Fin a, Fin b) \<Rightarrow> dbl_diff_sign a b | _ \<Rightarrow> 1))"

definition cmp_number :: "BSONElement \<Rightarrow> BSONElement \<Rightarrow> int res" where
  "cmp_number l r = bnd (elem_numberDouble l) (\<lambda>a. bnd (elem_numberDouble r) (\<lambda>b. Ret (cmp_double a b)))"

text \<open>\<open>memcmp\<close> of \<open>n\<close> bytes at two pointers, and \<open>strcmp\<close> of what two accessors return.\<close>

definition c_memcmp :: "cptr \<Rightarrow> cptr \<Rightarrow> int \<Rightarrow> int res" where
  "c_memcmp s t n = bnd (ldn (fst s) (snd s) n) (\<lambda>x. bnd (ldn (fst t) (snd t) n) (\<lambda>y. Ret (mem_cmp x y)))"

definition cmp_strs :: "(BSONElement \<Rightarrow> cptr res) \<Rightarrow> BSONElement \<Rightarrow> BSONElement \<Rightarrow> int res" where
  "cmp_strs acc l r = bnd (acc l) (\<lambda>s. bnd (acc r) (\<lambda>t. c_strcmp s t))"

definition cmp_oid :: "BSONElement \<Rightarrow> BSONElement \<Rightarrow> int res" where
  "cmp_oid l r = bnd (elem_value l) (\<lambda>v. bnd (elem_value r) (\<lambda>w. c_memcmp (ebuf l, v) (ebuf r, w) 12))"

definition cmp_dbref :: "BSONElement \<Rightarrow> BSONElement \<Rightarrow> int res" where
  "cmp_dbref l r = bnd (elem_valuesize l) (\<lambda>lsz. bnd (elem_valuesize r) (\<lambda>rsz.
     if i32 (lsz - rsz) \<noteq> 0 then Ret (i32 (lsz - rsz)) else
     bnd (elem_value l) (\<lambda>v. bnd (elem_value r) (\<lambda>w. c_memcmp (ebuf l, v) (ebuf r, w) lsz))))"

definition cmp_bindata :: "BSONElement \<Rightarrow> BSONElement \<Rightarrow> int res" where
  "cmp_bindata l r = bnd (elem_objsize l) (\<lambda>lsz. bnd (elem_objsize r) (\<lambda>rsz.
     if i32 (lsz - rsz) \<noteq> 0 then Ret (i32 (lsz - rsz)) else
     bnd (elem_value l) (\<lambda>v. bnd (elem_value r) (\<lambda>w. c_memcmp (ebuf l, v + 4) (ebuf r, w + 4) (lsz + 1)))))"

definition cmp_regex :: "BSONElement \<Rightarrow> BSONElement \<Rightarrow> int res" where
  "cmp_regex l r = bnd (cmp_strs elem_regex l r) (\<lambda>c. if c \<noteq> 0 then Ret c else cmp_strs elem_regexFlags l r)"

definition cmp_codewscope :: "BSONElement \<Rightarrow> BSONElement \<Rightarrow> int res" where
  "cmp_codewscope l r = bnd (cmp_canonical l r) (\<lambda>f. if f \<noteq> 0 then Ret f else
     bnd (cmp_strs elem_codeWScopeCode l r) (\<lambda>f. if f \<noteq> 0 then Ret f else
     cmp_strs elem_codeWScopeScopeData l r))"

text \<open>Every type but the embedded objects.\<close>

definition compare_flat :: "BSONType \<Rightarrow> BSONElement \<Rightarrow> BSONElement \<Rightarrow> int res" where
  "compare_flat t l r = (case t of
       EOO \<Rightarrow> bnd (cmp_canonical l r) (\<lambda>f. Ret (three_way f 0))
     | Undefined \<Rightarrow> bnd (cmp_canonical l r) (\<lambda>f. Ret (three_way f 0))
     | jstNULL \<Rightarrow> bnd (cmp_canonical l r) (\<lambda>f. Ret (three_way f 0))
     | MaxKey \<Rightarrow> bnd (cmp_canonical l r) (\<lambda>f. Ret (three_way f 0))
     | MinKey \<Rightarrow> bnd (cmp_canonical l r) (\<lambda>f. Ret (three_way f 0))
     | BoolT \<Rightarrow> cmp_bool l r
     | Timestamp \<Rightarrow> cmp_date l r | Date \<Rightarrow> cmp_date l r
     | NumberLong \<Rightarrow> bnd (elem_type r) (\<lambda>u. if u = NumberLong then cmp_long l r else cmp_number l r)
     | NumberInt \<Rightarrow> cmp_number l r | NumberDouble \<Rightarrow> cmp_number l r
     | jstOID \<Rightarrow> cmp_oid l r
     | Code \<Rightarrow> cmp_strs elem_valuestr l r | Symbol \<Rightarrow> cmp_strs elem_valuestr l r
     | StringT \<Rightarrow> cmp_strs elem_valuestr l r
     | DBRef \<Rightarrow> cmp_dbref l r
     | BinData \<Rightarrow> cmp_bindata l r
     | RegEx \<Rightarrow> cmp_regex l r
     | CodeWScope \<Rightarrow> cmp_codewscope l r
     | _ \<Rightarrow> Raise 0)"

text \<open>\<open>nest\<close> is the comparison of the embedded objects, which is the whole comparison again.\<close>

definition compare_with :: "(BSONObj \<Rightarrow> BSONObj \<Rightarrow> int run) \<Rightarrow> BSONElement \<Rightarrow> BSONElement \<Rightarrow> int run" where
  "compare_with nest l r = obnd (Some (elem_type l)) (\<lambda>t.
     if t = Object \<or> t = Array
     then obnd (Some (elem_embeddedObject l)) (\<lambda>a. obnd (Some (elem_embeddedObject r)) (nest a))
     else Some (compare_flat t l r))"

definition name_cmp :: "BSONElement \<Rightarrow> BSONElement \<Rightarrow> int res" where
  "name_cmp l r = bnd (elem_fieldName l) (\<lambda>s. bnd (elem_fieldName r) (\<lambda>t. c_strcmp s t))"

definition elem_compare_with :: "(BSONObj \<Rightarrow> BSONObj \<Rightarrow> int run) \<Rightarrow> bool \<Rightarrow> BSONElement \<Rightarrow> BSONElement \<Rightarrow> int run" where
  "elem_compare_with nest considerFieldName l r =
     obnd (Some (cmp_canonical l r)) (\<lambda>x.
     obnd (Some (elem_isNumber l)) (\<lambda>nl. obnd (Some (elem_isNumber r)) (\<lambda>nr.
     if x \<noteq> 0 \<and> (\<not> nl \<or> \<not> nr) then Some (Ret x) else
     obnd (if considerFieldName then Some (name_cmp l r) else Some (Ret 0)) (\<lambda>x.
     if x \<noteq> 0 then Some (Ret x) else compare_with nest l r))))"

text \<open>Entering two objects: the empty ones first, then an iterator on each.\<close>

definition enter_objs :: "(BSONObjIterator \<Rightarrow> BSONObjIterator \<Rightarrow> int run) \<Rightarrow> BSONObj \<Rightarrow> BSONObj \<Rightarrow> int run" where
  "enter_objs loop o1 o2 = obnd (Some (obj_isEmpty o1)) (\<lambda>e1. obnd (Some (obj_isEmpty o2)) (\<lambda>e2.
     if e1 then Some (Ret (if e2 then 0 else - 1)) else if e2 then Some (Ret 1) else
     obnd (Some (it_of o1)) (\<lambda>i. obnd (Some (it_of o2)) (loop i))))"

lemma compare_with_mono [partial_function_mono]:
  assumes "\<And>a b. mono_option (\<lambda>f. N f a b)"
  shows "mono_option (\<lambda>f. compare_with (N f) l r)"
  unfolding compare_with_def by (intro partial_function_mono assms)

lemma elem_compare_with_mono [partial_function_mono]:
  assumes "\<And>a b. mono_option (\<lambda>f. N f a b)"
  shows "mono_option (\<lambda>f. elem_compare_with (N f) c l r)"
  unfolding elem_compare_with_def by (intro partial_function_mono assms)

lemma enter_objs_mono [partial_function_mono]:
  assumes "\<And>i j. mono_option (\<lambda>f. L f i j)"
  shows "mono_option (\<lambda>f. enter_objs (L f) o1 o2)"
  unfolding enter_objs_def by (intro partial_function_mono assms)

section \<open>Objects\<close>

text \<open>
  The loop of \<open>woCompare\<close> with an index key (\<open>k\<close> is its iterator, absent when the key is empty);
  embedded objects are compared without a key and with their field names.
\<close>

definition key_next :: "BSONObjIterator option \<Rightarrow> (BSONElement \<times> BSONObjIterator option) res" where
  "key_next k = (case k of None \<Rightarrow> Ret (elem_default, None)
     | Some k \<Rightarrow> bnd (it_next k) (\<lambda>(e, k'). Ret (e, Some k')))"

definition key_negative :: "BSONObjIterator option \<Rightarrow> BSONElement \<Rightarrow> bool res" where
  "key_negative k e = (case k of None \<Rightarrow> Ret False
     | Some _ \<Rightarrow> bnd (elem_numberDouble e) (\<lambda>d. Ret (dbl_negative d)))"

partial_function (option) wo_loop :: "BSONObjIterator option \<Rightarrow> bool \<Rightarrow> BSONObjIterator \<Rightarrow> BSONObjIterator \<Rightarrow> int run" where
  [code]: "wo_loop k considerFieldName i j =
     obnd (Some (it_next i)) (\<lambda>(l, i'). obnd (Some (it_next j)) (\<lambda>(r, j').
     obnd (Some (key_next k)) (\<lambda>(e, k').
     obnd (Some (elem_eoo l)) (\<lambda>lz. obnd (Some (elem_eoo r)) (\<lambda>rz.
     if lz then Some (Ret (if rz then 0 else - 1)) else if rz then Some (Ret 1) else
     obnd (elem_compare_with (enter_objs (\<lambda>i j. wo_loop None True i j)) considerFieldName l r) (\<lambda>x.
     obnd (Some (key_negative k' e)) (\<lambda>neg. let x = (if neg then - x else x) in
     if x \<noteq> 0 then Some (Ret x) else wo_loop k' considerFieldName i' j')))))))"

definition woCompare :: "BSONObj \<Rightarrow> BSONObj \<Rightarrow> BSONObj \<Rightarrow> bool \<Rightarrow> int run" where
  "woCompare o1 r idxKey considerFieldName = enter_objs (\<lambda>i j.
     obnd (Some (obj_isEmpty idxKey)) (\<lambda>z. obnd (Some (it_of idxKey)) (\<lambda>k.
     wo_loop (if z then None else Some k) considerFieldName i j))) o1 r"

definition wo_plain :: "BSONObj \<Rightarrow> BSONObj \<Rightarrow> int run" where
  "wo_plain o1 r = enter_objs (\<lambda>i j. wo_loop None True i j) o1 r"

definition compareElementValues :: "BSONElement \<Rightarrow> BSONElement \<Rightarrow> int run" where
  "compareElementValues l r = compare_with wo_plain l r"

definition elem_woCompare :: "BSONElement \<Rightarrow> BSONElement \<Rightarrow> bool \<Rightarrow> int run" where
  "elem_woCompare l r considerFieldName = elem_compare_with wo_plain considerFieldName l r"

definition elem_valuesEqual :: "BSONElement \<Rightarrow> BSONElement \<Rightarrow> bool run" where
  "elem_valuesEqual l r = obnd (elem_woCompare l r False) (\<lambda>x. Some (Ret (x = 0)))"

definition elem_equal :: "BSONElement \<Rightarrow> BSONElement \<Rightarrow> bool run" where
  "elem_equal l r = obnd (elem_woCompare l r True) (\<lambda>x. Some (Ret (x = 0)))"

definition elem_less :: "BSONElement \<Rightarrow> BSONElement \<Rightarrow> bool run" where
  "elem_less l r = obnd (Some (cmp_canonical l r)) (\<lambda>x.
     if x < 0 then Some (Ret True) else if x > 0 then Some (Ret False)
     else obnd (compareElementValues l r) (\<lambda>x. Some (Ret (x < 0))))"

definition obj_less :: "BSONObj \<Rightarrow> BSONObj \<Rightarrow> bool run" where
  "obj_less o1 r = obnd (woCompare o1 r obj_empty True) (\<lambda>x. Some (Ret (x < 0)))"

text \<open>\<open>equal\<close>: both iterators in step until the left one ends or the elements differ.\<close>

partial_function (option) equal_loop :: "BSONObjIterator \<Rightarrow> BSONObjIterator \<Rightarrow> bool run" where
  [code]: "equal_loop i j = obnd (Some (it_next i)) (\<lambda>(l, i'). obnd (Some (it_next j)) (\<lambda>(r, j').
     obnd (Some (elem_eoo l)) (\<lambda>lz. if lz then Some (elem_eoo r) else
     obnd (elem_equal l r) (\<lambda>y. if y then equal_loop i' j' else Some (Ret False)))))"

definition obj_equal :: "BSONObj \<Rightarrow> BSONObj \<Rightarrow> bool run" where
  "obj_equal o1 rhs = obnd (Some (it_of o1)) (\<lambda>i. obnd (Some (it_of rhs)) (equal_loop i))"

section \<open>Key patterns\<close>

text \<open>\<open>Ordering\<close>: bit \<open>i\<close> is set when key \<open>i\<close> is descending.\<close>

record Ordering =
  od_bits :: nat
  od_nkeys :: nat

definition od_descending :: "Ordering \<Rightarrow> nat \<Rightarrow> nat" where
  "od_descending od bitmask = and (od_bits od) bitmask"

definition od_get :: "Ordering \<Rightarrow> nat \<Rightarrow> int" where
  "od_get od i = (if and (2 ^ i) (od_bits od) \<noteq> 0 then - 1 else 1)"

definition od_make_body :: "Ordering \<Rightarrow> BSONElement \<Rightarrow> (Ordering + Ordering) run" where
  "od_make_body od e = Some (bnd (elem_eoo e) (\<lambda>z. if z then Ret (Inr od) else
     if od_nkeys od > 31 then Raise 13103 else
     bnd (elem_numberDouble e) (\<lambda>d. Ret (Inl
       \<lparr>od_bits = (if dbl_negative d then or (od_bits od) (2 ^ od_nkeys od) else od_bits od),
        od_nkeys = od_nkeys od + 1\<rparr>))))"

definition od_make :: "BSONObj \<Rightarrow> Ordering run" where
  "od_make o1 = obnd (Some (it_of o1)) (\<lambda>k.
     obnd (it_while (\<lambda>_. True) od_make_body \<lparr>od_bits = 0, od_nkeys = 0\<rparr> k) (\<lambda>r.
     case r of Inl od \<Rightarrow> Some (Ret od) | Inr od \<Rightarrow> Some (Ret od)))"

partial_function (option) wo_ord_loop :: "Ordering \<Rightarrow> nat \<Rightarrow> bool \<Rightarrow> BSONObjIterator \<Rightarrow> BSONObjIterator \<Rightarrow> int run" where
  [code]: "wo_ord_loop od bitmask considerFieldName i j =
     obnd (Some (it_next i)) (\<lambda>(l, i'). obnd (Some (it_next j)) (\<lambda>(r, j').
     obnd (Some (elem_eoo l)) (\<lambda>lz. obnd (Some (elem_eoo r)) (\<lambda>rz.
     if lz then Some (Ret (if rz then 0 else - 1)) else if rz then Some (Ret 1) else
     obnd (elem_woCompare l r considerFieldName) (\<lambda>x.
     let x = (if od_descending od bitmask \<noteq> 0 then - x else x) in
     if x \<noteq> 0 then Some (Ret x)
     else wo_ord_loop od (2 * bitmask mod 4294967296) considerFieldName i' j')))))"

definition woCompare_ord :: "BSONObj \<Rightarrow> BSONObj \<Rightarrow> Ordering \<Rightarrow> bool \<Rightarrow> int run" where
  "woCompare_ord o1 r od considerFieldName = enter_objs (wo_ord_loop od 1 considerFieldName) o1 r"

section \<open>Sort keys\<close>

text \<open>\<open>staticNull\<close> is the document \<open>{'': null}\<close>.\<close>

definition staticNull :: BSONObj where
  "staticNull = ([7, 0, 0, 0, 10, 0, 0], 0)"

definition sort_field :: "bool \<Rightarrow> BSONObj \<Rightarrow> u8 list \<Rightarrow> BSONElement run" where
  "sort_field useDotted o1 name = obnd (if useDotted then getFieldDotted o1 name else getField o1 name) (\<lambda>l.
     Some (bnd (elem_eoo l) (\<lambda>z. if z then obj_firstElement staticNull else Ret l)))"

definition sort_body :: "bool \<Rightarrow> BSONObj \<Rightarrow> BSONObj \<Rightarrow> unit \<Rightarrow> BSONElement \<Rightarrow> (unit + int) run" where
  "sort_body useDotted o1 other _ f = obnd (Some (elem_eoo f)) (\<lambda>z. if z then Some (Ret (Inr 0)) else
     obnd (Some (name_of f)) (\<lambda>name.
     obnd (sort_field useDotted o1 name) (\<lambda>l. obnd (sort_field useDotted other name) (\<lambda>r.
     obnd (elem_woCompare l r False) (\<lambda>x. obnd (Some (elem_numberDouble f)) (\<lambda>d.
     let x = (if dbl_negative d then - x else x) in
     Some (Ret (if x \<noteq> 0 then Inr x else Inl ()))))))))"

definition woSortOrder :: "BSONObj \<Rightarrow> BSONObj \<Rightarrow> BSONObj \<Rightarrow> bool \<Rightarrow> int run" where
  "woSortOrder o1 other sortKey useDotted = obnd (Some (obj_isEmpty o1)) (\<lambda>e1. obnd (Some (obj_isEmpty other)) (\<lambda>e2.
     if e1 then Some (Ret (if e2 then 0 else - 1)) else if e2 then Some (Ret 1) else
     obnd (Some (obj_isEmpty sortKey)) (\<lambda>z. if z then Some (Raise 10060) else
     obnd (Some (it_of sortKey)) (\<lambda>i. obnd (it_while (\<lambda>_. True) (sort_body useDotted o1 other) () i) (\<lambda>r.
     case r of Inl _ \<Rightarrow> Some (Ret (- 1)) | Inr x \<Rightarrow> Some (Ret x))))))"

end
