(* ===== verification/BsonOps.thy ===== *)
theory BsonOps
  imports BsonBuilder BsonOrder
begin

text \<open>
  The operations of \<open>bson/src/bsonobj.cpp\<close> that read one document and build another, or test it:
  selection of fields, renaming, flattening, validity, the operators of a query, and the least and
  greatest value of a type.  Every new builder gets the four bytes \<open>malloc\<close> left in its size word
  (\<open>room\<close>) and the answer of the allocator (\<open>oom\<close>).
\<close>

section \<open>Recursion through the loop over an object\<close>

text \<open>A longer run of the body gives a longer run of the loop, so a body may call its own function.\<close>

lemma it_while_extends:
  assumes "it_while test B s i = Some y" "\<And>s e r. B s e = Some r \<Longrightarrow> C s e = Some r"
  shows "it_while test C s i = Some y"
proof -
  have "(\<lambda>test B s i y. \<forall>C. (\<forall>s e r. B s e = Some r \<longrightarrow> C s e = Some r) \<longrightarrow> it_while test C s i = Some y) test B s i y"
  proof (rule it_while.raw_induct [OF _ assms(1)], intro allI impI)
    fix W test and B C :: "'a \<Rightarrow> BSONElement \<Rightarrow> ('a + 'b) run" and s i y
    assume W: "\<And>test B s i y. W test B s i = Some y \<Longrightarrow>
        \<forall>C. (\<forall>s e r. B s e = Some r \<longrightarrow> C s e = Some r) \<longrightarrow> it_while test C s i = Some y"
      and run: "(if test i then obnd (Some (it_next i)) (\<lambda>(e, i'). obnd (B s e) (\<lambda>r. case r of Inl s' \<Rightarrow> W test B s' i'
         | Inr x \<Rightarrow> Some (Ret (Inr x)))) else Some (Ret (Inl s))) = Some y"
      and C: "\<forall>s e r. B s e = Some r \<longrightarrow> C s e = Some r"
    show "it_while test C s i = Some y"
    proof (cases "test i \<and> (\<exists>x. it_next i = Ret x)")
      case True
      then obtain e i' where i: "test i" "it_next i = Ret (e, i')"
        by auto
      with run C W show ?thesis
        by (cases "B s e") (auto simp: obnd_def it_while.simps [of test C s i] split: res.splits sum.splits)
    next
      case False
      with run show ?thesis
        by (cases "it_next i") (auto simp: it_while.simps [of test C s i] split: if_splits)
    qed
  qed
  then show ?thesis
    using assms(2) by blast
qed

lemma it_while_mono [partial_function_mono]:
  assumes "\<And>s e. mono_option (\<lambda>f. B f s e)"
  shows "mono_option (\<lambda>f. it_while test (B f) s i)"
proof (rule monotoneI)
  fix x y :: "'b \<Rightarrow> 'c option"
  assume "option.le_fun x y"
  then have le: "option_ord (B x s e) (B y s e)" for s e
    using monotoneD [OF assms] by blast
  show "option_ord (it_while test (B x) s i) (it_while test (B y) s i)"
  proof (cases "it_while test (B x) s i")
    case (Some r)
    have "it_while test (B y) s i = Some r"
    proof (rule it_while_extends [OF Some])
      fix s e r
      assume "B x s e = Some r"
      with le [of s e] show "B y s e = Some r"
        by (simp add: flat_ord_def)
    qed
    with Some show ?thesis
      by (simp add: flat_ord_def)
  qed (simp add: flat_ord_def)
qed

text \<open>\<open>try { ... } catch (...) { } return false;\<close>\<close>

definition catch_false :: "bool run \<Rightarrow> bool run" where
  "catch_false m = Option.bind m (\<lambda>r. Some (case r of Raise _ \<Rightarrow> Ret False | _ \<Rightarrow> r))"

lemma catch_false_mono [partial_function_mono]:
  "mono_option F \<Longrightarrow> mono_option (\<lambda>f. catch_false (F f))"
  unfolding catch_false_def by (intro partial_function_mono)

section \<open>Selecting fields\<close>

text \<open>An append as the last step of a turn.\<close>

definition go_on :: "'s res \<Rightarrow> ('s + 'r) run" where
  "go_on r = Some (bnd r (\<lambda>s. Ret (Inl s)))"

text \<open>\<open>BSONObjBuilder b; while (i.moreWithEOO()) { e = i.next(); if (e.eoo()) break; ... } return b.obj();\<close>\<close>

definition build_from :: "bool \<Rightarrow> u8 list \<Rightarrow> nat \<Rightarrow> BSONObj \<Rightarrow>
    (BSONObjBuilder \<Rightarrow> BSONElement \<Rightarrow> (BSONObjBuilder + BSONObjBuilder) run) \<Rightarrow> BSONObj run" where
  "build_from oom room initsize src body = obnd (Some (ob_new oom room initsize)) (\<lambda>ob.
     obnd (Some (it_of src)) (\<lambda>i. obnd (it_for body ob i) (\<lambda>r.
     case r of Inl ob \<Rightarrow> Some (ob_obj ob) | Inr ob \<Rightarrow> Some (ob_obj ob))))"

definition extractFieldsUnDotted :: "bool \<Rightarrow> u8 list \<Rightarrow> BSONObj \<Rightarrow> BSONObj \<Rightarrow> BSONObj run" where
  "extractFieldsUnDotted oom room o1 pattern = build_from oom room 512 pattern (\<lambda>b e.
     obnd (Some (name_of e)) (\<lambda>n. obnd (getField o1 n) (\<lambda>x. obnd (Some (elem_eoo x)) (\<lambda>z.
     if z then Some (Ret (Inl b)) else go_on (ob_appendAs x [] b)))))"

definition extractFields :: "bool \<Rightarrow> u8 list \<Rightarrow> BSONObj \<Rightarrow> BSONObj \<Rightarrow> bool \<Rightarrow> BSONObj run" where
  "extractFields oom room o1 pattern fillWithNull = build_from oom room 32 pattern (\<lambda>b e.
     obnd (Some (name_of e)) (\<lambda>n. obnd (getFieldDotted o1 n) (\<lambda>x. obnd (Some (elem_eoo x)) (\<lambda>z.
     if \<not> z then go_on (ob_appendAs x n b)
     else if fillWithNull then go_on (ob_appendNull n b) else Some (Ret (Inl b))))))"

definition filterFieldsUndotted :: "bool \<Rightarrow> u8 list \<Rightarrow> BSONObj \<Rightarrow> BSONObj \<Rightarrow> bool \<Rightarrow> BSONObj run" where
  "filterFieldsUndotted oom room o1 filt inFilter = build_from oom room 512 o1 (\<lambda>b e.
     obnd (Some (name_of e)) (\<lambda>n. obnd (getField filt n) (\<lambda>x. obnd (Some (elem_eoo x)) (\<lambda>z.
     if z \<and> \<not> inFilter \<or> \<not> z \<and> inFilter then go_on (ob_append_element e b) else Some (Ret (Inl b))))))"

text \<open>The smallest and the greatest key as sub-documents that any client can read.\<close>

definition key_doc :: "bool \<Rightarrow> u8 list \<Rightarrow> u8 list \<Rightarrow> BSONObj res" where
  "key_doc oom room name = bnd (ob_new oom room 512) (\<lambda>m. bnd (ob_append_int name 1 m) (\<lambda>m.
     bnd (ob_done m) (\<lambda>(o2, m). Ret o2)))"

definition str_minElement :: "u8 list" where
  "str_minElement = [0x24, 0x6D, 0x69, 0x6E, 0x45, 0x6C, 0x65, 0x6D, 0x65, 0x6E, 0x74]"

definition str_maxElement :: "u8 list" where
  "str_maxElement = [0x24, 0x6D, 0x61, 0x78, 0x45, 0x6C, 0x65, 0x6D, 0x65, 0x6E, 0x74]"

definition clientReadable :: "bool \<Rightarrow> u8 list \<Rightarrow> BSONObj \<Rightarrow> BSONObj run" where
  "clientReadable oom room o1 = build_from oom room 512 o1 (\<lambda>b e. obnd (Some (elem_type e)) (\<lambda>t.
     if t = MinKey then obnd (Some (key_doc oom room str_minElement)) (\<lambda>m.
       obnd (Some (name_of e)) (\<lambda>n. go_on (ob_append_obj n m b)))
     else if t = MaxKey then obnd (Some (key_doc oom room str_maxElement)) (\<lambda>m.
       obnd (Some (name_of e)) (\<lambda>n. go_on (ob_append_obj n m b)))
     else go_on (ob_append_element e b)))"

text \<open>\<open>replaceFieldNames\<close>: a second iterator runs beside the first, one element ahead.\<close>

definition replaceFieldNames :: "bool \<Rightarrow> u8 list \<Rightarrow> BSONObj \<Rightarrow> BSONObj \<Rightarrow> BSONObj run" where
  "replaceFieldNames oom room o1 names = obnd (Some (ob_new oom room 512)) (\<lambda>b.
     obnd (Some (it_of o1)) (\<lambda>i. obnd (Some (it_of names)) (\<lambda>j.
     obnd (Some (if it_moreWithEOO j then it_next j else bnd (obj_firstElement obj_empty) (\<lambda>f. Ret (f, j)))) (\<lambda>(f, j).
     obnd (it_for (\<lambda>(b, f, j) e. obnd (Some (elem_eoo f)) (\<lambda>z. if \<not> z
         then obnd (Some (name_of f)) (\<lambda>n. obnd (Some (ob_appendAs e n b)) (\<lambda>b.
           go_on (bnd (it_next j) (\<lambda>(f, j). Ret (b, f, j)))))
         else go_on (bnd (ob_append_element e b) (\<lambda>b. Ret (b, f, j))))) (b, f, j) i) (\<lambda>r.
     case r of Inl (b, _) \<Rightarrow> Some (ob_obj b) | Inr b \<Rightarrow> Some (ob_obj b))))))"

text \<open>\<open>getFieldUsingIndexNames\<close>: the position of the name in the key, then the element at that position.\<close>

definition getFieldUsingIndexNames :: "BSONObj \<Rightarrow> u8 list \<Rightarrow> BSONObj \<Rightarrow> BSONElement run" where
  "getFieldUsingIndexNames o1 fieldName indexKey = obnd (Some (it_of indexKey)) (\<lambda>i.
     obnd (it_while it_moreWithEOO (\<lambda>j f. obnd (Some (elem_eoo f)) (\<lambda>z. if z then Some (Ret (Inr None)) else
       obnd (Some (name_is f fieldName)) (\<lambda>y. Some (Ret (if y then Inr (Some j) else Inl (j + 1)))))) (0 :: nat) i) (\<lambda>r.
     let second = (\<lambda>j. obnd (Some (it_of o1)) (\<lambda>k.
       obnd (it_while it_moreWithEOO (\<lambda>j g. obnd (Some (elem_eoo g)) (\<lambda>z. Some (Ret (if z then Inr elem_default
         else if j = 0 then Inr g else Inl (j - 1))))) j k) (\<lambda>r.
       Some (Ret (case r of Inl _ \<Rightarrow> elem_default | Inr g \<Rightarrow> g))))) in
     case r of Inl j \<Rightarrow> second j | Inr None \<Rightarrow> Some (Ret elem_default) | Inr (Some j) \<Rightarrow> second j))"

text \<open>
  \<open>addFields\<close> fills an object that is empty and owns nothing (\<open>owned\<close>); the count and what the
  object is afterwards are returned.  The end-of-object element goes through the same tests.
\<close>

definition add_body :: "u8 list list \<Rightarrow> (BSONObjBuilder \<times> nat \<times> bool) \<Rightarrow> BSONElement \<Rightarrow>
    ((BSONObjBuilder \<times> nat \<times> bool) + (BSONObjBuilder \<times> nat)) run" where
  "add_body names s e = (case s of (b, n, gotId) \<Rightarrow> let N = card (set names) in
     obnd (Some (name_of e)) (\<lambda>fname.
     if fname \<in> set names then obnd (Some (ob_append_element e b)) (\<lambda>b. let n = n + 1; g = (gotId \<or> fname = str_id) in
       Some (Ret (if n = N \<and> g then Inr (b, n) else Inl (b, n, g))))
     else if fname = str_id then obnd (Some (ob_append_element e b)) (\<lambda>b.
       Some (Ret (if n = N then Inr (b, n) else Inl (b, n, True))))
     else Some (Ret (Inl (b, n, gotId)))))"

definition addFields :: "bool \<Rightarrow> u8 list \<Rightarrow> bool \<Rightarrow> BSONObj \<Rightarrow> BSONObj \<Rightarrow> u8 list list \<Rightarrow> (nat \<times> BSONObj) run" where
  "addFields oom room owned o1 frm names = obnd (Some (obj_isEmpty o1)) (\<lambda>z.
     if \<not> (z \<and> \<not> owned) then Some (Raise 0) else
     obnd (Some (ob_new oom room 512)) (\<lambda>b. obnd (Some (it_of frm)) (\<lambda>i.
     obnd (it_while it_moreWithEOO (add_body names) (b, 0, False) i) (\<lambda>r.
     let (b, n) = (case r of Inl (b, n, _) \<Rightarrow> (b, n) | Inr x \<Rightarrow> x) in
     if n = 0 then Some (Ret (0, o1))
     else Some (bnd (ob__done b) (\<lambda>b. bnd (obj_init (ob_ptr b)) (\<lambda>o2. Ret (n, o2))))))))"

text \<open>\<open>appendElementsUnique\<close> and \<open>hasField\<close> of a builder, over what it holds so far.\<close>

definition ob_iterator :: "BSONObjBuilder \<Rightarrow> BSONObjIterator" where
  "ob_iterator ob = it_range (bb_bytes (ob_b ob)) (int (ob_offset ob)) (int (length (bb_bytes (ob_b ob))))"

definition ob_names :: "BSONObjBuilder \<Rightarrow> u8 list list run" where
  "ob_names ob = obnd (it_while it_more (\<lambda>ns e. obnd (Some (name_of e)) (\<lambda>n. Some (Ret (Inl (ns @ [n]) :: _ + unit)))) []
     (ob_iterator ob)) (\<lambda>r. case r of Inl ns \<Rightarrow> Some (Ret ns) | Inr _ \<Rightarrow> Some Stuck)"

definition ob_appendElementsUnique :: "BSONObj \<Rightarrow> BSONObjBuilder \<Rightarrow> BSONObjBuilder run" where
  "ob_appendElementsUnique x ob = obnd (ob_names ob) (\<lambda>have.
     obnd (Some (it_of x)) (\<lambda>i.
     obnd (it_while it_more (\<lambda>b e. obnd (Some (name_of e)) (\<lambda>n.
       if n \<in> set have then Some (Ret (Inl b)) else go_on (ob_append_element e b))) ob i) (\<lambda>r.
     case r of Inl b \<Rightarrow> Some (Ret b) | Inr b \<Rightarrow> Some (Ret b))))"

definition ob_hasField :: "u8 list \<Rightarrow> BSONObjBuilder \<Rightarrow> bool run" where
  "ob_hasField name ob = obnd (it_while it_more (\<lambda>_ e. obnd (Some (name_is e name)) (\<lambda>y.
     Some (Ret (if y then Inr True else Inl ())))) () (ob_iterator ob)) (\<lambda>r.
     Some (Ret (case r of Inl _ \<Rightarrow> False | Inr y \<Rightarrow> y)))"

text \<open>\<open>appendKeys\<close>: the values under the names of the key pattern, both of one length.\<close>

partial_function (option) keys_loop :: "BSONObjIterator \<Rightarrow> BSONObjIterator \<Rightarrow> BSONObjBuilder \<Rightarrow> BSONObjBuilder run" where
  [code]: "keys_loop i j ob = (if it_more i \<and> it_more j then
     obnd (Some (it_next j)) (\<lambda>(v, j'). obnd (Some (it_next i)) (\<lambda>(k, i'). obnd (Some (name_of k)) (\<lambda>n.
     obnd (Some (ob_appendAs v n ob)) (keys_loop i' j'))))
     else if it_more i \<or> it_more j then Some (Raise 0) else Some (Ret ob))"

definition ob_appendKeys :: "BSONObj \<Rightarrow> BSONObj \<Rightarrow> BSONObjBuilder \<Rightarrow> BSONObjBuilder run" where
  "ob_appendKeys keyPattern values ob = obnd (Some (it_of keyPattern)) (\<lambda>i. obnd (Some (it_of values)) (\<lambda>j.
     keys_loop i j ob))"

section \<open>Walking nested documents\<close>

text \<open>\<open>nested2dotted\<close>: the fields of embedded objects under dotted names; arrays stay as they are.\<close>

partial_function (option) nested2dotted :: "BSONObjBuilder \<Rightarrow> BSONObj \<Rightarrow> u8 list \<Rightarrow> BSONObjBuilder run" where
  [code]: "nested2dotted b o1 base = obnd (Some (it_of o1)) (\<lambda>i.
     obnd (it_while it_more (\<lambda>b e. obnd (Some (elem_type e)) (\<lambda>t. obnd (Some (name_of e)) (\<lambda>n.
       if t = Object then obnd (Some (elem_embeddedObject e)) (\<lambda>o2.
         obnd (nested2dotted b o2 (base @ n @ [0x2E])) (\<lambda>b. Some (Ret (Inl b :: _ + unit))))
       else go_on (ob_appendAs e (base @ n) b)))) b i) (\<lambda>r.
     case r of Inl b \<Rightarrow> Some (Ret b) | Inr _ \<Rightarrow> Some Stuck))"

text \<open>\<open>okForStorage\<close>: the first name with a dot or a dollar decides.\<close>

definition str_ref :: "u8 list" where "str_ref = [0x24, 0x72, 0x65, 0x66]"
definition str_dollar_id :: "u8 list" where "str_dollar_id = [0x24, 0x69, 0x64]"

partial_function (option) okForStorage :: "BSONObj \<Rightarrow> bool run" where
  [code]: "okForStorage o1 = obnd (Some (it_of o1)) (\<lambda>i.
     obnd (it_while it_more (\<lambda>_ e. obnd (Some (name_of e)) (\<lambda>name.
       if 0x2E \<in> set name \<or> 0x24 \<in> set name then Some (Ret (Inr (name = str_ref \<or> name = str_dollar_id)))
       else obnd (Some (elem_mayEncapsulate e)) (\<lambda>m. if \<not> m then Some (Ret (Inl ())) else
         obnd (Some (elem_type e)) (\<lambda>t.
         obnd (Some (if t = CodeWScope then elem_codeWScopeObject e else elem_embeddedObject e)) (\<lambda>o2.
         obnd (okForStorage o2) (\<lambda>k. Some (Ret (if k then Inl () else Inr False)))))))) () i) (\<lambda>r.
     case r of Inl _ \<Rightarrow> Some (Ret True) | Inr k \<Rightarrow> Some (Ret k)))"

text \<open>
  \<open>valid\<close>: the checked iteration, \<open>validate\<close> on every element, and the embedded documents; every
  exception makes the answer false.
\<close>

partial_function (option) valid_loop :: "BSONObjIterator \<Rightarrow> bool run" where
  [code]: "valid_loop i = (if \<not> it_moreWithEOO i then Some (Ret False) else
     obnd (Some (it_next_check True i)) (\<lambda>(e, i'). obnd (Some (elem_validate e)) (\<lambda>_.
     obnd (Some (elem_eoo e)) (\<lambda>z. if z then Some (Ret (\<not> it_moreWithEOO i')) else
     obnd (Some (elem_isABSONObj e)) (\<lambda>a. if a then
       obnd (Some (elem_embeddedObject e)) (\<lambda>o2.
       obnd (catch_false (obnd (Some (it_of o2)) valid_loop)) (\<lambda>k. if k then valid_loop i' else Some (Ret False)))
     else obnd (Some (elem_type e)) (\<lambda>t. if t = CodeWScope then
       obnd (Some (elem_codeWScopeObject e)) (\<lambda>o2.
       obnd (catch_false (obnd (Some (it_of o2)) valid_loop)) (\<lambda>k. if k then valid_loop i' else Some (Ret False)))
     else valid_loop i'))))))"

definition obj_valid :: "BSONObj \<Rightarrow> bool run" where
  "obj_valid o1 = catch_false (obnd (Some (it_of o1)) valid_loop)"

end
