(* ===== verification/BsonBounds.thy ===== *)
theory BsonBounds
  imports BsonOps
begin

text \<open>
  Values by type in \<open>bson/src/bsonobj.cpp\<close>: the least and the greatest value of a type, and a number
  read from its text.  A type is the \<open>int\<close> the callers pass.
\<close>

section \<open>The least and the greatest value\<close>

definition dbl_max_bits :: u64 where "dbl_max_bits = 0x7FEFFFFFFFFFFFFF"
definition dbl_neg_max_bits :: u64 where "dbl_neg_max_bits = 0xFFEFFFFFFFFFFFFF"

definition bin_Function :: u8 where "bin_Function = 1"

definition ob_appendMinForType :: "u8 list \<Rightarrow> int \<Rightarrow> BSONObjBuilder \<Rightarrow> BSONObjBuilder res" where
  "ob_appendMinForType name t ob = (case map_of type_codes t of
       Some MinKey \<Rightarrow> ob_appendMinKey name ob
     | Some MaxKey \<Rightarrow> ob_appendMinKey name ob
     | Some NumberInt \<Rightarrow> ob_append_double name dbl_neg_max_bits ob
     | Some NumberDouble \<Rightarrow> ob_append_double name dbl_neg_max_bits ob
     | Some NumberLong \<Rightarrow> ob_append_double name dbl_neg_max_bits ob
     | Some jstOID \<Rightarrow> ob_appendOID name (Some (replicate 12 0)) False [] ob
     | Some BoolT \<Rightarrow> ob_appendBool name 0 ob
     | Some Date \<Rightarrow> ob_appendDate name 0 ob
     | Some jstNULL \<Rightarrow> ob_appendNull name ob
     | Some Symbol \<Rightarrow> ob_append_cstr name ([0], 0) ob
     | Some StringT \<Rightarrow> ob_append_cstr name ([0], 0) ob
     | Some Object \<Rightarrow> ob_append_obj name obj_empty ob
     | Some Array \<Rightarrow> ob_appendArray name obj_empty ob
     | Some BinData \<Rightarrow> ob_appendBinData name 0 bin_Function ([], 0) ob
     | Some Undefined \<Rightarrow> ob_appendUndefined name ob
     | Some RegEx \<Rightarrow> ob_appendRegex name [] [] ob
     | Some DBRef \<Rightarrow> ob_appendDBRef name [] (replicate 12 0) ob
     | Some Code \<Rightarrow> ob_appendCode name [] ob
     | Some CodeWScope \<Rightarrow> ob_appendCodeWScope name [] obj_empty ob
     | Some Timestamp \<Rightarrow> ob_appendTimestamp name 0 ob
     | _ \<Rightarrow> Raise 10061)"

text \<open>The case of \<open>Undefined\<close> and \<open>jstNULL\<close> runs on into the one of \<open>Bool\<close>.\<close>

definition ob_appendMaxForType :: "u8 list \<Rightarrow> int \<Rightarrow> BSONObjBuilder \<Rightarrow> BSONObjBuilder res" where
  "ob_appendMaxForType name t ob = (case map_of type_codes t of
       Some MinKey \<Rightarrow> ob_appendMaxKey name ob
     | Some MaxKey \<Rightarrow> ob_appendMaxKey name ob
     | Some NumberInt \<Rightarrow> ob_append_double name dbl_max_bits ob
     | Some NumberDouble \<Rightarrow> ob_append_double name dbl_max_bits ob
     | Some NumberLong \<Rightarrow> ob_append_double name dbl_max_bits ob
     | Some BinData \<Rightarrow> ob_appendMinForType name 7 ob
     | Some jstOID \<Rightarrow> ob_appendOID name (Some (replicate 12 255)) False [] ob
     | Some Undefined \<Rightarrow> bnd (ob_appendMinForType name 16 ob) (ob_appendBool name 1)
     | Some jstNULL \<Rightarrow> bnd (ob_appendMinForType name 16 ob) (ob_appendBool name 1)
     | Some BoolT \<Rightarrow> ob_appendBool name 1 ob
     | Some Date \<Rightarrow> ob_appendDate name 18446744073709551615 ob
     | Some Symbol \<Rightarrow> ob_append_obj name obj_empty ob
     | Some StringT \<Rightarrow> ob_append_obj name obj_empty ob
     | Some Code \<Rightarrow> ob_appendCodeWScope name [90, 90, 90] obj_empty ob
     | Some CodeWScope \<Rightarrow> ob_appendCodeWScope name [90, 90, 90] obj_empty ob
     | Some Timestamp \<Rightarrow> ob_appendTimestamp name 18446744073709551615 ob
     | _ \<Rightarrow> ob_appendMinForType name (i32 (t + 1)) ob)"

section \<open>Numbers from text\<close>

definition c_isdigit :: "u8 \<Rightarrow> bool" where
  "c_isdigit c \<longleftrightarrow> 48 \<le> c \<and> c \<le> 57"

text \<open>The scan for digits and at most one dot: whether there was one, or none for anything else.\<close>

fun number_scan :: "bool \<Rightarrow> u8 list \<Rightarrow> bool option" where
  "number_scan hasDec [] = Some hasDec"
| "number_scan hasDec (c # cs) = (if c_isdigit c then number_scan hasDec cs
     else if c = 0x2E then (if hasDec then None else number_scan True cs) else None)"

definition num_value :: "u8 list \<Rightarrow> nat" where
  "num_value cs = foldl (\<lambda>x c. x * 10 + (unat c - 48)) 0 cs"

text \<open>The integer that a text of digits after an optional minus stands for.\<close>

definition text_int :: "u8 list \<Rightarrow> int" where
  "text_int s = (case s of [] \<Rightarrow> 0 | c # cs \<Rightarrow> if c = 0x2D then - int (num_value cs) else int (num_value s))"

text \<open>
  \<open>appendAsNumber\<close>: whether something was appended.  \<open>atof\<close> of the C library is a parameter;
  \<open>lexical_cast\<close> accepts the text exactly if the number is in range.
\<close>

definition ob_appendAsNumber :: "(u8 list \<Rightarrow> u64) \<Rightarrow> u8 list \<Rightarrow> u8 list \<Rightarrow> BSONObjBuilder \<Rightarrow> (bool \<times> BSONObjBuilder) res" where
  "ob_appendAsNumber atof name s ob = (if s = [] \<or> s = [0x2D] then Ret (False, ob) else
     case number_scan False (if hd s = 0x2D then tl s else s) of
       None \<Rightarrow> Ret (False, ob)
     | Some True \<Rightarrow> bnd (ob_append_double name (atof s) ob) (\<lambda>ob. Ret (True, ob))
     | Some False \<Rightarrow> (if length s < 8 then bnd (ob_append_int name (text_int s) ob) (\<lambda>ob. Ret (True, ob))
         else if - 9223372036854775808 \<le> text_int s \<and> text_int s \<le> 9223372036854775807
         then bnd (ob_append_ll name (text_int s) ob) (\<lambda>ob. Ret (True, ob))
         else Ret (False, ob)))"

end
