(* ===== verification/BsonObjSpec.thy ===== *)
theory BsonObjSpec
  imports BsonObj
begin

text \<open>
  The object functions on encoded documents: every loop over an encoding visits the encoded
  fields in order and stops, hence the look-ups find what the abstract document holds under the
  name, and on a malformed element of size zero they do not stop at all.
\<close>

section \<open>Walking an encoding\<close>

definition fields_in :: "buf \<Rightarrow> int \<Rightarrow> fields \<Rightarrow> bool" where
  "fields_in b p fs \<longleftrightarrow> at b p (enc_fields fs) \<and> wf_fields fs \<and> length b < 2147483648"

definition raw_elem :: "buf \<Rightarrow> int \<Rightarrow> BSONElement" where
  "raw_elem b p = \<lparr>ebuf = b, data = p, fnSize = - 1, totSize = - 1\<rparr>"

lemma raw_elem_of [simp]: "elem_of b p f (raw_elem b p)"
  by (simp add: elem_of_def raw_elem_def)

lemma fields_in_Cons:
  "fields_in b p (f # fs) \<longleftrightarrow> elem_in b p f \<and> fields_in b (p + int (length (enc_elem f))) fs"
  by (auto simp: fields_in_def elem_in_def enc_fields_Cons at_append simp del: enc_fields.simps)

fun run_fields :: "('s \<Rightarrow> BSONElement \<Rightarrow> ('s + 'r) run) \<Rightarrow> 's \<Rightarrow> buf \<Rightarrow> int \<Rightarrow> fields \<Rightarrow> ('s + 'r) run" where
  "run_fields body s b p [] = Some (Ret (Inl s))"
| "run_fields body s b p (f # fs) = obnd (body s (raw_elem b p)) (\<lambda>r. case r of
     Inl s' \<Rightarrow> run_fields body s' b (p + int (length (enc_elem f))) fs
   | Inr x \<Rightarrow> Some (Ret (Inr x)))"

lemma it_next_in:
  assumes "elem_in b p f" "p \<le> q"
  shows "it_next \<lparr>ibuf = b, ipos = p, iend = q\<rparr> =
    Ret (raw_elem b p, \<lparr>ibuf = b, ipos = p + int (length (enc_elem f)), iend = q\<rparr>)"
  using assms elem_at_in [OF assms(1)] elem_size_in [OF assms(1), of "raw_elem b p"]
  by (simp add: it_next_def raw_elem_def elem_of_def)

lemma length_enc_fields_Cons:
  "length (enc_fields (f # fs)) = length (enc_elem f) + length (enc_fields fs)"
  by (simp add: enc_fields_Cons del: enc_fields.simps)

lemma length_enc_elem_pos: "0 < length (enc_elem f)"
  by (simp add: length_enc_elem)

lemma it_while_fields:
  assumes "fields_in b p fs"
  shows "it_while it_more body s \<lparr>ibuf = b, ipos = p, iend = p + int (length (enc_fields fs))\<rparr>
    = run_fields body s b p fs"
  using assms
proof (induction fs arbitrary: p s)
  case Nil
  then show ?case
    by (subst it_while.simps) (simp add: it_more_def)
next
  case (Cons f fs)
  let ?n = "int (length (enc_elem f))" and ?q = "p + int (length (enc_fields (f # fs)))"
  have q: "?q = p + ?n + int (length (enc_fields fs))" "p < ?q"
    by (simp_all add: length_enc_fields_Cons length_enc_elem del: enc_fields.simps)
  have in1: "elem_in b p f" "fields_in b (p + ?n) fs"
    using Cons.prems by (simp_all add: fields_in_Cons)
  have "it_next \<lparr>ibuf = b, ipos = p, iend = ?q\<rparr> =
      Ret (raw_elem b p, \<lparr>ibuf = b, ipos = p + ?n, iend = p + ?n + int (length (enc_fields fs))\<rparr>)"
    using it_next_in [OF in1(1), of ?q] q by simp
  moreover have "it_more \<lparr>ibuf = b, ipos = p, iend = ?q\<rparr>"
    using q(2) by (simp add: it_more_def)
  ultimately show ?case
    by (subst it_while.simps)
       (simp add: Cons.IH [OF in1(2)] del: enc_fields.simps cong: sum.case_cong)
qed

lemma it_for_while_fields:
  assumes "fields_in b p fs" "at b (p + int (length (enc_fields fs))) [0]"
  shows "it_for body s \<lparr>ibuf = b, ipos = p, iend = p + int (length (enc_fields fs))\<rparr>
    = run_fields body s b p fs"
  using assms
proof (induction fs arbitrary: p s)
  case Nil
  then have "elem_at b p = Ret \<lparr>ebuf = b, data = p, fnSize = 0, totSize = 1\<rparr>" "ld8 b p = Ret 0"
    by (simp_all add: elem_at_def ld8_at)
  then show ?case
    unfolding it_for_def
    by (subst it_while.simps)
       (simp add: it_moreWithEOO_def it_next_def elem_size_def elem_eoo_def elem_type_def
         bson_type_def type_codes_def schar_def)
next
  case (Cons f fs)
  let ?n = "int (length (enc_elem f))" and ?q = "p + int (length (enc_fields (f # fs)))"
  have q: "?q = p + ?n + int (length (enc_fields fs))" "p \<le> ?q"
    by (simp_all add: length_enc_fields_Cons del: enc_fields.simps)
  have in1: "elem_in b p f" "fields_in b (p + ?n) fs" "at b (p + ?n + int (length (enc_fields fs))) [0]"
    using Cons.prems by (simp_all add: fields_in_Cons q(1) del: enc_fields.simps)
  have "it_next \<lparr>ibuf = b, ipos = p, iend = ?q\<rparr> =
      Ret (raw_elem b p, \<lparr>ibuf = b, ipos = p + ?n, iend = p + ?n + int (length (enc_fields fs))\<rparr>)"
    using it_next_in [OF in1(1), of ?q] q by simp
  moreover have "it_moreWithEOO \<lparr>ibuf = b, ipos = p, iend = ?q\<rparr>"
    using q(2) by (simp add: it_moreWithEOO_def)
  moreover have "elem_eoo (raw_elem b p) = Ret False"
    by (rule elem_eoo_in [OF in1(1) raw_elem_of])
  ultimately show ?case
    using Cons.IH [OF in1(2,3)] unfolding it_for_def
    by (subst it_while.simps)
       (auto simp: obnd_def split: sum.splits res.splits bind_splits option.splits simp del: enc_fields.simps)
qed

section \<open>Documents\<close>

text \<open>A document encoded at the address an object points at, within the size the code accepts.\<close>

definition obj_in :: "BSONObj \<Rightarrow> fields \<Rightarrow> bool" where
  "obj_in o1 fs \<longleftrightarrow> at (fst o1) (snd o1) (enc_obj fs) \<and> wf_fields fs \<and> length (fst o1) < 2147483648
     \<and> int (length (enc_obj fs)) \<le> BSONObjMaxInternalSize"

lemma obj_in_parts:
  assumes "obj_in o1 fs"
  shows "at (fst o1) (snd o1) (le32 (length (enc_obj fs)))" "fields_in (fst o1) (snd o1 + 4) fs"
    "at (fst o1) (snd o1 + 4 + int (length (enc_fields fs))) [0]"
    "length (enc_obj fs) < 2147483648"
proof -
  have "at (fst o1) (snd o1) (le32 (length (enc_obj fs)) @ enc_fields fs @ [0])"
    using assms by (simp add: obj_in_def enc_obj_def enc_doc_def add.commute)
  then show "at (fst o1) (snd o1) (le32 (length (enc_obj fs)))" "fields_in (fst o1) (snd o1 + 4) fs"
      "at (fst o1) (snd o1 + 4 + int (length (enc_fields fs))) [0]"
    using assms unfolding at_append by (simp_all add: fields_in_def obj_in_def)
  show "length (enc_obj fs) < 2147483648"
    using assms by (simp add: obj_in_def BSONObjMaxInternalSize_def)
qed

lemma obj_objsize_in: "obj_in o1 fs \<Longrightarrow> obj_objsize o1 = Ret (int (length (enc_obj fs)))"
  by (simp add: obj_objsize_def ldi32_at obj_in_parts)

lemma obj_init_in: "obj_in o1 fs \<Longrightarrow> obj_init o1 = Ret o1"
  using obj_objsize_in [of o1 fs] by (simp add: obj_init_def obj_isValid_def obj_in_def length_enc_obj)

lemma enc_fields_eq_Nil [simp]: "enc_fields fs = [] \<longleftrightarrow> fs = []"
  by (cases fs) auto

lemma obj_isEmpty_in: "obj_in o1 fs \<Longrightarrow> obj_isEmpty o1 = Ret (fs = [])"
  by (cases fs) (simp_all add: obj_isEmpty_def obj_objsize_in length_enc_obj)

lemma it_of_in:
  "obj_in o1 fs \<Longrightarrow> it_of o1 = Ret \<lparr>ibuf = fst o1, ipos = snd o1 + 4,
     iend = snd o1 + 4 + int (length (enc_fields fs))\<rparr>"
  using obj_objsize_in [of o1 fs] by (simp add: it_of_def length_enc_obj)

lemma obj_copy_in:
  assumes "obj_in o1 fs"
  shows "obj_copy o1 = Ret (enc_obj fs, 0) \<and> obj_in (enc_obj fs, 0) fs"
proof -
  have i: "obj_in (enc_obj fs, 0) fs"
    using assms obj_in_parts(4) [OF assms] by (simp add: obj_in_def at_self)
  have "at (fst o1) (snd o1) (enc_obj fs)"
    using assms by (simp add: obj_in_def)
  with i show ?thesis
    by (simp add: obj_copy_def obj_objsize_in [OF assms] ldn_at obj_init_in)
qed

lemma embedded_in:
  assumes "elem_in b p f" "elem_of b p f e" "snd f = VObject gs \<or> snd f = VArray gs"
    and "int (length (enc_obj gs)) \<le> BSONObjMaxInternalSize"
  shows "elem_embeddedObject e = Ret (b, p + int (length (fst f)) + 2)"
    "obj_in (b, p + int (length (fst f)) + 2) gs"
proof -
  show "obj_in (b, p + int (length (fst f)) + 2) gs"
    using elem_in_parts(3) [OF assms(1)] assms by (auto simp: obj_in_def enc_obj_def elem_in_def)
  moreover have "elem_isABSONObj e = Ret True"
    using assms(3) elem_type_in [OF assms(1,2)] by (auto simp: elem_isABSONObj_def)
  moreover have "ebuf e = b"
    using assms(2) by (simp add: elem_of_def)
  ultimately show "elem_embeddedObject e = Ret (b, p + int (length (fst f)) + 2)"
    by (simp add: elem_embeddedObject_def elem_value_in [OF assms(1,2)] obj_init_in)
qed

section \<open>Look-ups\<close>

lemma name_is_in:
  assumes "elem_in b p f" "cname name"
  shows "name_is (raw_elem b p) name = Ret (fst f = name)"
proof -
  have "at (name @ [0]) 0 (name @ [0])"
    by (rule at_self)
  from c_strcmp_at [OF elem_in_parts(2) [OF assms(1)] this] assms
  obtain x where "c_strcmp (b, p + 1) (name @ [0], 0) = Ret x" "x = 0 \<longleftrightarrow> fst f = name"
    by (auto simp: elem_in_def cname_def)
  then show ?thesis
    by (simp add: name_is_def elem_fieldName_in [OF assms(1) raw_elem_of])
qed

lemma getField_run:
  assumes "fields_in b p fs" "cname name"
  shows "case map_of fs name of
      None \<Rightarrow> run_fields (getField_body name) () b p fs = Some (Ret (Inl ()))
    | Some v \<Rightarrow> \<exists>q. run_fields (getField_body name) () b p fs = Some (Ret (Inr (raw_elem b q))) \<and>
        elem_in b q (name, v)"
  using assms(1)
proof (induction fs arbitrary: p)
  case (Cons f fs)
  then have in1: "elem_in b p f" "fields_in b (p + int (length (enc_elem f))) fs"
    by (simp_all add: fields_in_Cons)
  show ?case
  proof (cases "fst f = name")
    case True
    with in1 name_is_in [OF in1(1) assms(2)] show ?thesis
      by (cases f) (auto simp: getField_body_def)
  next
    case False
    with name_is_in [OF in1(1) assms(2)] Cons.IH [OF in1(2)] show ?thesis
      by (cases f) (simp add: getField_body_def split: option.splits)
  qed
qed simp

text \<open>\<open>getField\<close> finds the first field with the name, or the end-of-object element.\<close>

lemma getField_in:
  assumes "obj_in o1 fs" "cname name"
  shows "case map_of fs name of
      None \<Rightarrow> getField o1 name = Some (Ret elem_default)
    | Some v \<Rightarrow> \<exists>q. getField o1 name = Some (Ret (raw_elem (fst o1) q)) \<and> elem_in (fst o1) q (name, v)"
  using getField_run [OF obj_in_parts(2) [OF assms(1)] assms(2)]
  by (auto simp: getField_def it_of_in [OF assms(1)] it_while_fields [OF obj_in_parts(2) [OF assms(1)]]
      split: option.splits)

lemma elem_default_type [simp]: "elem_type elem_default = Ret EOO" "elem_eoo elem_default = Ret True"
  by (simp_all add: elem_type_def elem_eoo_def elem_default_def ld8_def bson_type_def type_codes_def
      schar_def)

text \<open>What the dotted look-ups mean on documents.\<close>

fun sub_doc :: "bval \<Rightarrow> fields option" where
  "sub_doc (VObject gs) = Some gs"
| "sub_doc (VArray gs) = Some gs"
| "sub_doc _ = None"

function dotted_lookup :: "fields \<Rightarrow> u8 list \<Rightarrow> bval option" where
  "dotted_lookup fs name = (case map_of fs name of Some v \<Rightarrow> Some v
     | None \<Rightarrow> (case split_dot name of None \<Rightarrow> None
         | Some (left, right) \<Rightarrow> (case Option.bind (map_of fs left) sub_doc of
             None \<Rightarrow> None | Some gs \<Rightarrow> if gs = [] then None else dotted_lookup gs right)))"
  by pat_completeness auto
termination
  by (relation "measure (\<lambda>(fs, name). length name)") (auto dest: split_dot_shorter)

text \<open>With the rest of the name that is left over when an array is met.\<close>

function array_lookup :: "fields \<Rightarrow> u8 list \<Rightarrow> bval option \<times> u8 list" where
  "array_lookup fs name = (case split_dot name of
       None \<Rightarrow> (map_of fs name, [])
     | Some (left, right) \<Rightarrow> (case map_of fs left of
         None \<Rightarrow> (None, right)
       | Some v \<Rightarrow> if btype v = Array \<or> right = [] then (Some v, right)
           else (case v of VObject gs \<Rightarrow> array_lookup gs right | _ \<Rightarrow> (None, right))))"
  by pat_completeness auto
termination
  by (relation "measure (\<lambda>(fs, name). length name)") (auto dest: split_dot_shorter)

lemma split_dot_eq: "split_dot name = Some (l, r) \<Longrightarrow> name = l @ 0x2E # r \<and> 0x2E \<notin> set l"
  using dropWhile_eq_Cons_conv [of "\<lambda>c. c \<noteq> 0x2E" name "0x2E" r]
  by (auto simp: split_dot_def split: list.splits dest: set_takeWhileD iffD1 [OF dropWhile_eq_Cons_conv])

lemma split_dot_cname: "split_dot name = Some (l, r) \<Longrightarrow> cname name \<Longrightarrow> cname l \<and> cname r"
  by (drule split_dot_eq) (auto simp: cname_def)

lemma enc_val_le: "map_of fs n = Some v \<Longrightarrow> length (enc_val v) \<le> length (enc_fields fs)"
proof (induction fs)
  case (Cons f fs)
  then show ?case
    by (cases f) (auto split: if_splits)
qed simp

lemma sub_doc_le: "sub_doc v = Some gs \<Longrightarrow> length (enc_obj gs) = length (enc_val v)"
  by (cases v) (auto simp: enc_obj_def)

text \<open>An element of the buffer that holds the value, or the end-of-object element for none.\<close>

definition finds :: "buf \<Rightarrow> BSONElement \<Rightarrow> bval option \<Rightarrow> bool" where
  "finds b e r \<longleftrightarrow> (case r of None \<Rightarrow> elem_eoo e = Ret True
     | Some v \<Rightarrow> \<exists>n q. e = raw_elem b q \<and> elem_in b q (n, v))"

lemma finds_type: "finds b e (Some v) \<Longrightarrow> elem_type e = Ret (btype v)"
  by (auto simp: finds_def dest: elem_type_in [OF _ raw_elem_of])

lemma getField_finds:
  assumes "obj_in o1 fs" "cname name"
  shows "\<exists>e. getField o1 name = Some (Ret e) \<and> finds (fst o1) e (map_of fs name)"
  using getField_in [OF assms] by (auto simp: finds_def split: option.splits)

lemma sub_doc_in:
  assumes "obj_in o1 fs" "map_of fs n = Some v" "sub_doc v = Some gs" "finds (fst o1) e (Some v)"
  shows "\<exists>q. elem_embeddedObject e = Ret (fst o1, q) \<and> obj_in (fst o1, q) gs"
proof -
  obtain m q where e: "e = raw_elem (fst o1) q" "elem_in (fst o1) q (m, v)"
    using assms(4) by (auto simp: finds_def)
  have "length (enc_obj gs) \<le> length (enc_obj fs)"
    using enc_val_le [OF assms(2)] sub_doc_le [OF assms(3)] by (simp add: length_enc_obj)
  then have le: "int (length (enc_obj gs)) \<le> BSONObjMaxInternalSize"
    using assms(1) by (simp add: obj_in_def)
  have v: "v = VObject gs \<or> v = VArray gs"
    using assms(3) by (cases v) auto
  show ?thesis
    using embedded_in [OF e(2) raw_elem_of _ le] v e(1) by auto
qed

lemma getObjectField_in:
  assumes "obj_in o1 fs" "cname name"
  shows "case Option.bind (map_of fs name) sub_doc of
      None \<Rightarrow> getObjectField o1 name = Some (Ret obj_empty)
    | Some gs \<Rightarrow> \<exists>q. getObjectField o1 name = Some (Ret (fst o1, q)) \<and> obj_in (fst o1, q) gs"
proof -
  obtain e where e: "getField o1 name = Some (Ret e)" "finds (fst o1) e (map_of fs name)"
    using getField_finds [OF assms] by blast
  show ?thesis
  proof (cases "map_of fs name")
    case None
    with getField_in [OF assms] show ?thesis
      by (simp add: getObjectField_def)
  next
    case (Some v)
    with e have t: "finds (fst o1) e (Some v)" "elem_type e = Ret (btype v)"
      by (simp_all add: finds_type)
    show ?thesis
      using sub_doc_in [OF assms(1) Some _ t(1)] e(1) t(2) Some
      by (cases v) (auto simp: getObjectField_def)
  qed
qed

lemma obj_in_empty: "obj_isEmpty obj_empty = Ret True"
  by (simp add: obj_isEmpty_def obj_objsize_def obj_empty_def ldi32_def ld32_def ldn_def sub_def)

lemma getFieldDotted_finds:
  assumes "obj_in o1 fs" "cname name"
  shows "\<exists>e. getFieldDotted o1 name = Some (Ret e) \<and> finds (fst o1) e (dotted_lookup fs name)"
  using assms
proof (induction fs name arbitrary: o1 rule: dotted_lookup.induct)
  case (1 fs name)
  obtain e where e: "getField o1 name = Some (Ret e)" "finds (fst o1) e (map_of fs name)"
    using getField_finds [OF 1(2,3)] by blast
  consider (found) v where "map_of fs name = Some v" | (leaf) "map_of fs name = None" "split_dot name = None"
    | (deep) left right where "map_of fs name = None" "split_dot name = Some (left, right)"
    by (cases "map_of fs name"; cases "split_dot name") auto
  then show ?case
  proof cases
    case found
    with e show ?thesis
      using finds_type [of "fst o1" e v] by (subst getFieldDotted.simps) (simp add: elem_eoo_def)
  next
    case leaf
    with e show ?thesis
      by (subst getFieldDotted.simps) (simp add: finds_def)
  next
    case deep
    have z: "elem_eoo e = Ret True"
      using e(2) deep(1) by (simp add: finds_def)
    have c: "cname left" "cname right"
      using split_dot_cname [OF deep(2) 1(3)] by simp_all
    show ?thesis
    proof (cases "Option.bind (map_of fs left) sub_doc")
      case None
      with getObjectField_in [OF 1(2) c(1)] deep z e show ?thesis
        by (subst getFieldDotted.simps) (simp add: obj_in_empty finds_def)
    next
      case (Some gs)
      with getObjectField_in [OF 1(2) c(1)] obtain q where
        q: "getObjectField o1 left = Some (Ret (fst o1, q))" "obj_in (fst o1, q) gs"
        by auto
      show ?thesis
      proof (cases "gs = []")
        case True
        with Some deep z e q obj_isEmpty_in [OF q(2)] show ?thesis
          by (subst getFieldDotted.simps) (simp add: finds_def)
      next
        case False
        with 1(1) [OF deep(1,2) refl Some False q(2) c(2)] Some deep z e q obj_isEmpty_in [OF q(2)]
        show ?thesis
          by (subst getFieldDotted.simps) simp
      qed
    qed
  qed
qed

lemma getFieldDottedOrArray_finds:
  assumes "obj_in o1 fs" "cname name"
  shows "\<exists>e. getFieldDottedOrArray o1 name = Some (Ret (e, snd (array_lookup fs name))) \<and>
    finds (fst o1) e (fst (array_lookup fs name))"
  using assms
proof (induction fs name arbitrary: o1 rule: array_lookup.induct)
  case (1 fs name)
  show ?case
  proof (cases "split_dot name")
    case None
    obtain e where e: "getField o1 name = Some (Ret e)" "finds (fst o1) e (map_of fs name)"
      using getField_finds [OF 1(2,3)] by blast
    show ?thesis
    proof (cases "map_of fs name")
      case (Some v)
      with e None show ?thesis
        using finds_type [of "fst o1" e v] by (subst getFieldDottedOrArray.simps) simp
    next
      case none: None
      with e None getField_in [OF 1(2,3)] show ?thesis
        by (subst getFieldDottedOrArray.simps) (simp add: finds_def)
    qed
  next
    case (Some lr)
    obtain left right where lr: "split_dot name = Some (left, right)"
      using Some by (cases lr) auto
    then have c: "cname left" "cname right"
      using split_dot_cname [OF _ 1(3)] by simp_all
    obtain e where e: "getField o1 left = Some (Ret e)" "finds (fst o1) e (map_of fs left)"
      using getField_finds [OF 1(2) c(1)] by blast
    show ?thesis
    proof (cases "map_of fs left")
      case None
      with e lr getField_in [OF 1(2) c(1)] show ?thesis
        by (subst getFieldDottedOrArray.simps) (simp add: finds_def)
    next
      case v: (Some v)
      with e(2) have f: "finds (fst o1) e (Some v)" and t: "elem_type e = Ret (btype v)"
        by (simp_all add: finds_type)
      show ?thesis
      proof (cases "btype v = Array \<or> right = []")
        case True
        with v e f t lr show ?thesis
          by (subst getFieldDottedOrArray.simps) simp
      next
        case False
        show ?thesis
        proof (cases "\<exists>gs. v = VObject gs")
          case True
          then obtain gs where gs: "v = VObject gs" ..
          with sub_doc_in [OF 1(2) v _ f, of gs] obtain q where
            q: "elem_embeddedObject e = Ret (fst o1, q)" "obj_in (fst o1, q) gs"
            by auto
          with 1(1) [OF lr refl v False gs q(2) c(2)] v e t lr False gs show ?thesis
            by (subst getFieldDottedOrArray.simps) simp
        next
          case other: False
          then have "btype v \<noteq> Object" "(case v of VObject gs \<Rightarrow> array_lookup gs right | _ \<Rightarrow> (None, right)) = (None, right)"
            by (cases v; simp)+
          with v e t lr False show ?thesis
            by (subst getFieldDottedOrArray.simps) (simp add: finds_def)
        qed
      qed
    qed
  qed
qed

section \<open>Counting\<close>

lemma it_for_in:
  "obj_in o1 fs \<Longrightarrow> it_for body s \<lparr>ibuf = fst o1, ipos = snd o1 + 4,
     iend = snd o1 + 4 + int (length (enc_fields fs))\<rparr> = run_fields body s (fst o1) (snd o1 + 4) fs"
  by (rule it_for_while_fields [OF obj_in_parts(2,3)])

lemma run_count: "run_fields (\<lambda>n e. Some (Ret (Inl (n + 1) :: nat + unit))) n b p fs
    = Some (Ret (Inl (n + length fs)))"
  by (induction fs arbitrary: n p) simp_all

lemma nFields_in: "obj_in o1 fs \<Longrightarrow> nFields o1 = Some (Ret (length fs))"
  by (simp add: nFields_def it_of_in it_for_in run_count [simplified])

lemma name_of_in: "elem_in b p f \<Longrightarrow> name_of (raw_elem b p) = Ret (fst f)"
proof -
  assume f: "elem_in b p f"
  have at: "at b (p + 1) (fst f @ [0])"
    using elem_in_parts(2) [OF f] .
  then have "ldn b (p + 1) (int (length (fst f))) = Ret (fst f)"
    unfolding at_append by (simp add: ldn_at)
  moreover have "c_strlen b (p + 1) = Ret (int (length (fst f)))"
    using at f by (intro c_strlen_at) (auto simp: elem_in_def cname_def)
  ultimately show ?thesis
    by (simp add: name_of_def elem_fieldName_in [OF f raw_elem_of])
qed

lemma run_names: "fields_in b p fs \<Longrightarrow> run_fields (\<lambda>(ns, n) e. obnd (Some (name_of e))
      (\<lambda>s. Some (Ret (Inl (ns @ [s], n + 1) :: _ + unit)))) (ns, n) b p fs
    = Some (Ret (Inl (ns @ map fst fs, n + length fs)))"
proof (induction fs arbitrary: ns n p)
  case (Cons f fs)
  then have "elem_in b p f" "fields_in b (p + int (length (enc_elem f))) fs"
    by (simp_all add: fields_in_Cons)
  with Cons.IH show ?case
    by (simp add: name_of_in [of b p f])
qed simp

lemma getFieldNames_in: "obj_in o1 fs \<Longrightarrow> getFieldNames o1 = Some (Ret (map fst fs, length fs))"
  using run_names [OF obj_in_parts(2), of o1 fs "[]" 0]
  by (simp add: getFieldNames_def it_of_in it_for_in)

text \<open>\<open>elems\<close> lists one element per field, each holding its field.\<close>

fun elems_at :: "buf \<Rightarrow> int \<Rightarrow> fields \<Rightarrow> BSONElement list" where
  "elems_at b p [] = []"
| "elems_at b p (f # fs) = raw_elem b p # elems_at b (p + int (length (enc_elem f))) fs"

lemma elems_at_hold: "fields_in b p fs \<Longrightarrow> list_all2 (\<lambda>e f. finds b e (Some (snd f))) (elems_at b p fs) fs"
proof (induction fs arbitrary: p)
  case (Cons f fs)
  then have "elem_in b p (fst f, snd f)" "fields_in b (p + int (length (enc_elem f))) fs"
    by (simp_all add: fields_in_Cons)
  then have "finds b (raw_elem b p) (Some (snd f))" "fields_in b (p + int (length (enc_elem f))) fs"
    unfolding finds_def option.case by blast+
  with Cons.IH show ?case
    by simp
qed simp

lemma run_elems: "run_fields (\<lambda>v e. Some (Ret (Inl (v @ [e]) :: _ + unit))) v b p fs
    = Some (Ret (Inl (v @ elems_at b p fs)))"
  by (induction fs arbitrary: v p) simp_all

lemma elems_in:
  assumes "obj_in o1 fs"
  shows "\<exists>es. elems o1 = Some (Ret es) \<and> list_all2 (\<lambda>e f. finds (fst o1) e (Some (snd f))) es fs"
  using elems_at_hold [OF obj_in_parts(2) [OF assms]]
  by (simp add: elems_def it_of_in [OF assms] it_while_fields [OF obj_in_parts(2) [OF assms]] run_elems)

section \<open>Malformed sizes\<close>

text \<open>A loop whose element has size 0, and whose body goes on, never ends.\<close>

lemma it_while_diverges:
  assumes "test i" "it_next i = Ret (e, i)" "body s e = Some (Ret (Inl s))"
  shows "it_while test body s i = None"
proof -
  have "\<not> (test' = test \<and> body' = body \<and> s' = s \<and> i' = i)"
    if "it_while test' body' s' i' = Some y" for test' body' s' i' y
    by (rule it_while.raw_induct [where P = "\<lambda>t bo st it y. \<not> (t = test \<and> bo = body \<and> st = s \<and> it = i)",
        OF _ that]) (use assms in \<open>auto split: if_splits; blast\<close>)
  then have "\<And>y. it_while test body s i \<noteq> Some y"
    by blast
  then show ?thesis
    by (meson not_Some_eq)
qed

text \<open>
  A document of 13 bytes, of valid size, whose only element is a string with a length word of
  -7: the element's size is \<open>-7 + 4 + 2 + 1 = 0\<close>, and looking for another name never returns.
\<close>

definition endless_doc :: "u8 list" where
  "endless_doc = [13, 0, 0, 0, 2, 0x61, 0, 0xF9, 0xFF, 0xFF, 0xFF, 0, 0]"

lemmas eval_loads = ld8_def ldi32_def ld32_def ldn_def sub_def tail_at_def s32_def
lemmas eval_types = bson_type_def type_codes_def schar_def elem_type_def elem_eoo_def

lemma endless_valid: "obj_init (endless_doc, 0) = Ret (endless_doc, 0)"
  by (simp add: obj_init_def obj_isValid_def obj_objsize_def endless_doc_def eval_loads
      BSONObjMaxInternalSize_def)

lemma endless_getField: "getField (endless_doc, 0) str_id = None"
proof -
  let ?i = "\<lparr>ibuf = endless_doc, ipos = 4, iend = 12\<rparr>"
  have 1: "it_of (endless_doc, 0) = Ret ?i"
    by (simp add: it_of_def obj_objsize_def endless_doc_def eval_loads)
  have 2: "it_more ?i"
    by (simp add: it_more_def)
  have 3: "it_next ?i = Ret (raw_elem endless_doc 4, ?i)"
    by (simp add: it_next_def elem_at_def raw_elem_def elem_size_def elem_valuestrsize_def
        elem_value_def elem_fieldNameSize_def elem_fieldName_def c_strlen_def i32_def to_u32_def
        endless_doc_def eval_loads eval_types)
  have 4: "getField_body str_id () (raw_elem endless_doc 4) = Some (Ret (Inl ()))"
    by (simp add: getField_body_def name_is_def raw_elem_def elem_fieldName_def c_strcmp_def str_id_def
        endless_doc_def eval_loads eval_types)
  show ?thesis
    by (simp add: getField_def 1 it_while_diverges [where test = it_more and body = "getField_body str_id" and s = "()", OF 2 3 4])
qed

section \<open>A document on its own\<close>

lemma obj_in_self:
  "wf_fields fs \<Longrightarrow> int (length (enc_obj fs)) \<le> BSONObjMaxInternalSize \<Longrightarrow> obj_in (enc_obj fs, 0) fs"
  by (simp add: obj_in_def at_self BSONObjMaxInternalSize_def)

lemma elem_in_self:
  "cname (fst f) \<Longrightarrow> wf_val (snd f) \<Longrightarrow> length (enc_elem f) < 2147483648 \<Longrightarrow> elem_in (enc_elem f) 0 f"
  by (simp add: elem_in_def at_self)

text \<open>\<open>{a: {b: "hi"}}\<close> and \<open>{s: "hi"}\<close> for the closed instances.\<close>

definition nested_fields :: fields where
  "nested_fields = [([0x61], VObject [([0x62], VString [0x68, 0x69])])]"

definition string_field :: "u8 list \<times> bval" where
  "string_field = ([0x73], VString [0x68, 0x69])"

lemma nested_in: "obj_in (enc_obj nested_fields, 0) nested_fields"
  by (rule obj_in_self)
    (simp_all add: nested_fields_def cname_def length_enc_obj BSONObjMaxInternalSize_def)

lemma string_field_in: "elem_in (enc_elem string_field) 0 string_field"
  by (rule elem_in_self) (simp_all add: string_field_def cname_def length_enc_elem)

lemma shallowEqual_in:
  assumes "obj_in o1 fs" "obj_in o2 gs"
  shows "obj_shallowEqual o1 o2 = Ret (enc_obj fs = enc_obj gs)"
proof -
  have l: "ldn (fst o1) (snd o1) (int (length (enc_obj fs))) = Ret (enc_obj fs)"
      "ldn (fst o2) (snd o2) (int (length (enc_obj gs))) = Ret (enc_obj gs)"
    using assms by (simp_all add: obj_in_def ldn_at)
  show ?thesis
  proof (cases "length (enc_obj fs) = length (enc_obj gs)")
    case True
    have "enc_obj fs \<noteq> []" "enc_obj gs \<noteq> []"
      using length_enc_obj [of fs] length_enc_obj [of gs] by auto
    with l True show ?thesis
      by (simp add: obj_shallowEqual_def obj_objsize_in [OF assms(1)] obj_objsize_in [OF assms(2)] mem_cmp_eq_0)
  next
    case False
    then show ?thesis
      by (auto simp: obj_shallowEqual_def obj_objsize_in [OF assms(1)] obj_objsize_in [OF assms(2)])
  qed
qed

text \<open>
  \<open>copy\<close> of a document in the middle of any buffer, a page of the data file for instance, is a document
  of its own with the same fields, and \<open>shallowEqual\<close> agrees.
\<close>

lemma obj_copy_equal:
  assumes "obj_in o1 fs"
  shows "\<exists>o2. obj_copy o1 = Ret o2 \<and> o2 = (enc_obj fs, 0) \<and> obj_in o2 fs \<and> obj_shallowEqual o1 o2 = Ret True"
  using obj_copy_in [OF assms] shallowEqual_in [OF assms, of "(enc_obj fs, 0)" fs] by simp

lemma obj_copy_equal_witness:
  "\<exists>o2. obj_copy (enc_obj nested_fields, 0) = Ret o2 \<and> obj_in o2 nested_fields \<and>
     obj_shallowEqual (enc_obj nested_fields, 0) o2 = Ret True"
  using obj_copy_equal [OF nested_in] by auto

text \<open>
  \<open>validate\<close> raises none of its assertions (10321 to 10326) on a well-formed element.
\<close>

lemma elem_validate_accepts:
  assumes "elem_in b p f" "elem_of b p f e" "int (str_len (snd f)) + 1 < BSONObjMaxInternalSize"
  shows "elem_validate e = Ret ()"
  using validate_in [OF assms] .

lemma elem_validate_accepts_witness:
  "elem_validate (raw_elem (enc_elem string_field) 0) = Ret ()"
  by (rule elem_validate_accepts [OF string_field_in raw_elem_of])
    (simp add: string_field_def BSONObjMaxInternalSize_def)

end
