(* ===== verification/BsonBuildSpec.thy ===== *)
theory BsonBuildSpec
  imports BsonBuilder BsonObjSpec
begin

text \<open>
  What a builder has in its buffer, as the list of the fields appended so far; that \<open>obj\<close> hands
  out the encoding of that list, which the reading functions of \<open>BsonObjSpec\<close> then find again; and
  that building a sub-document in place is the same as appending it.
\<close>

section \<open>Growing\<close>

text \<open>As long as less than 32 MB are written, the growth stays below the limit.\<close>

lemma grown_size_ok: "l \<le> 33554432 \<Longrightarrow> cap < l \<Longrightarrow> l \<le> grown_size l cap \<and> grown_size l cap \<le> BufferMaxSize"
  by (auto simp: grown_size_def BufferMaxSize_def Let_def)

lemma bb_append_ok:
  assumes "length (bb_bytes b) + length bs \<le> 33554432" "\<not> bb_oom b"
  shows "\<exists>cap. bb_append bs b = Ret (b\<lparr>bb_bytes := bb_bytes b @ bs, bb_size := cap\<rparr>)"
proof (cases "length (bb_bytes b) + length bs > bb_size b")
  case True
  with grown_size_ok [OF assms(1) True] assms(2) show ?thesis
    by (intro exI [of _ "grown_size (length (bb_bytes b) + length bs) (bb_size b)"])
      (simp add: bb_append_def bb_grow_reallocate_def Let_def)
next
  case False
  then show ?thesis
    by (intro exI [of _ "bb_size b"]) (simp add: bb_append_def Let_def)
qed

lemma bb_appends_ok:
  assumes "length (bb_bytes b) + length (concat cs) \<le> 33554432" "\<not> bb_oom b"
  shows "\<exists>cap. bb_appends cs b = Ret (b\<lparr>bb_bytes := bb_bytes b @ concat cs, bb_size := cap\<rparr>)"
  using assms
proof (induction cs arbitrary: b)
  case Nil
  then show ?case
    by (intro exI [of _ "bb_size b"]) simp
next
  case (Cons c cs)
  obtain cap where c: "bb_append c b = Ret (b\<lparr>bb_bytes := bb_bytes b @ c, bb_size := cap\<rparr>)"
    using bb_append_ok [of b c] Cons.prems by auto
  have "\<exists>cap'. bb_appends cs (b\<lparr>bb_bytes := bb_bytes b @ c, bb_size := cap\<rparr>) =
      Ret (b\<lparr>bb_bytes := bb_bytes b @ c, bb_size := cap\<rparr>\<lparr>bb_bytes := (bb_bytes b @ c) @ concat cs, bb_size := cap'\<rparr>)"
    using Cons.IH [of "b\<lparr>bb_bytes := bb_bytes b @ c, bb_size := cap\<rparr>"] Cons.prems by (simp add: add.assoc)
  with c show ?case
    by auto
qed

section \<open>What a builder holds\<close>

definition builds :: "BSONObjBuilder \<Rightarrow> u8 list \<Rightarrow> fields \<Rightarrow> bool" where
  "builds ob pre fs \<longleftrightarrow> (\<exists>room. length room = 4 \<and> bb_bytes (ob_b ob) = pre @ room @ enc_fields fs) \<and>
     ob_offset ob = length pre \<and> \<not> ob_doneCalled ob \<and> \<not> bb_oom (ob_b ob) \<and> wf_fields fs"

definition fits_in :: "u8 list \<Rightarrow> fields \<Rightarrow> bool" where
  "fits_in pre fs \<longleftrightarrow> length pre + length (enc_obj fs) \<le> 33554432"

lemma ob_new_ok:
  assumes "length room = 4" "initsize \<le> 33554432"
  obtains ob where "ob_new False room initsize = Ret ob" "builds ob (le32 0) []" "ob_owned ob"
proof -
  let ?b0 = "\<lparr>bb_bytes = [], bb_size = initsize + 4, bb_oom = False\<rparr>"
  obtain c1 where c1: "bb_append (le32 0) ?b0 = Ret (?b0\<lparr>bb_bytes := le32 0, bb_size := c1\<rparr>)"
    using bb_append_ok [of ?b0 "le32 0"] by auto
  obtain c2 where c2: "bb_append room (?b0\<lparr>bb_bytes := le32 0, bb_size := c1\<rparr>) =
      Ret (?b0\<lparr>bb_bytes := le32 0 @ room, bb_size := c2\<rparr>)"
    using bb_append_ok [of "?b0\<lparr>bb_bytes := le32 0, bb_size := c1\<rparr>" room] assms(1) by auto
  show ?thesis
    using that c1 c2 assms(1) by (simp add: ob_new_def bb_new_def builds_def)
qed

lemma ob_sub_ok:
  assumes "length room = 4" "length (bb_bytes b) \<le> 33554428" "\<not> bb_oom b"
  obtains ob where "ob_sub room b = Ret ob" "builds ob (bb_bytes b) []" "\<not> ob_owned ob"
proof -
  obtain c where "bb_append room b = Ret (b\<lparr>bb_bytes := bb_bytes b @ room, bb_size := c\<rparr>)"
    using bb_append_ok [of b room] assms by auto
  with that assms show ?thesis
    by (simp add: ob_sub_def builds_def)
qed

text \<open>Every append function comes down to this.\<close>

lemma ob_field_ok:
  assumes "builds ob pre fs" "cname name" "wf_val v" "enc_val v = concat cs" "ty = btype v"
    and "fits_in pre (fs @ [(name, v)])"
  shows "\<exists>ob'. ob_field ty name cs ob = Ret ob' \<and> builds ob' pre (fs @ [(name, v)]) \<and> ob_owned ob' = ob_owned ob"
proof -
  obtain room where room: "length room = 4" "bb_bytes (ob_b ob) = pre @ room @ enc_fields fs"
    using assms(1) by (auto simp: builds_def)
  have e: "enc_fields [(name, v)] = concat ([type_byte ty] # (name @ [0]) # cs)"
    using assms(4,5) by simp
  then have "length (bb_bytes (ob_b ob)) + length (concat ([type_byte ty] # (name @ [0]) # cs)) \<le> 33554432"
    using assms(6) room by (simp add: fits_in_def length_enc_obj)
  then obtain cap where "bb_appends ([type_byte ty] # (name @ [0]) # cs) (ob_b ob) =
      Ret (ob_b ob\<lparr>bb_bytes := bb_bytes (ob_b ob) @ concat ([type_byte ty] # (name @ [0]) # cs), bb_size := cap\<rparr>)"
    using bb_appends_ok assms(1) unfolding builds_def by blast
  then have "ob_field ty name cs ob = Ret (ob\<lparr>ob_b := ob_b ob\<lparr>bb_bytes := pre @ room @ enc_fields (fs @ [(name, v)]), bb_size := cap\<rparr>\<rparr>)"
    using room(2) e by (simp add: ob_field_def ob_put_def)
  moreover have "wf_fields (fs @ [(name, v)])"
    using assms(1-3) by (auto simp: builds_def wf_fields_iff)
  ultimately show ?thesis
    using assms(1) room(1) by (auto simp: builds_def)
qed

section \<open>The append function for each kind of value\<close>

fun ob_value :: "u8 list \<times> bval \<Rightarrow> BSONObjBuilder \<Rightarrow> BSONObjBuilder res" where
  "ob_value (name, VMinKey) ob = ob_appendMinKey name ob"
| "ob_value (name, VMaxKey) ob = ob_appendMaxKey name ob"
| "ob_value (name, VUndefined) ob = ob_appendUndefined name ob"
| "ob_value (name, VNull) ob = ob_appendNull name ob"
| "ob_value (name, VDouble w) ob = ob_append_double name w ob"
| "ob_value (name, VInt w) ob = ob_append_int name (sint w) ob"
| "ob_value (name, VLong w) ob = ob_append_ll name (sint w) ob"
| "ob_value (name, VDate w) ob = ob_appendDate name (unat w) ob"
| "ob_value (name, VTimestamp i t) ob = ob_appendTimestamp name (unat i + 4294967296 * unat t) ob"
| "ob_value (name, VBool b) ob = ob_append_bool name b ob"
| "ob_value (name, VOID bs) ob = ob_append_oid name bs ob"
| "ob_value (name, VString s) ob = ob_append_string name s ob"
| "ob_value (name, VCode s) ob = ob_appendCode name s ob"
| "ob_value (name, VSymbol s) ob = ob_appendSymbol name s ob"
| "ob_value (name, VBin k bs) ob = ob_appendBinData name (int (length bs)) k (bs, 0) ob"
| "ob_value (name, VRegEx r f) ob = ob_appendRegex name r f ob"
| "ob_value (name, VDBRef ns oid) ob = ob_appendDBRef name ns oid ob"
| "ob_value (name, VObject gs) ob = ob_append_obj name (enc_obj gs, 0) ob"
| "ob_value (name, VArray gs) ob = ob_appendArray name (enc_obj gs, 0) ob"
| "ob_value (name, VCodeW s gs) ob = ob_appendCodeWScope name s (enc_obj gs, 0) ob"

fun ob_values :: "fields \<Rightarrow> BSONObjBuilder \<Rightarrow> BSONObjBuilder res" where
  "ob_values [] ob = Ret ob"
| "ob_values (f # fs) ob = bnd (ob_value f ob) (ob_values fs)"

lemma to_u64_sint: "to_u64 (sint (w :: u64)) = unat w"
proof -
  have "sint w mod 18446744073709551616 = uint w"
    using uint_sint [of w] by (simp add: take_bit_eq_mod)
  then show ?thesis
    by (simp add: to_u64_def)
qed

lemma unat_u32_less: "unat (w :: u32) < 4294967296"
  by (rule unsigned_less [THEN less_le_trans]) simp

lemma to_u32_sint: "to_u32 (sint (w :: u32)) = unat w"
  using unat_u32_less [of w] by (simp flip: s32_unat)

lemma le_value_append: "le_value (xs @ ys) = le_value xs + 256 ^ length xs * le_value ys"
  by (induction xs) (simp_all add: algebra_simps)

lemma le64_pair:
  assumes "a < 4294967296" "b < 4294967296"
  shows "le64 (a + 4294967296 * b) = le32 a @ le32 b"
proof -
  have "le_value (le32 a @ le32 b) = a + 4294967296 * b"
    using assms by (simp add: le_value_append)
  then show ?thesis
    using le64_le_value [of "le32 a @ le32 b"] by simp
qed

lemma obj_raw_in: "obj_in o1 fs \<Longrightarrow> obj_raw o1 = Ret (enc_obj fs)"
  using obj_objsize_in [of o1 fs] by (simp add: obj_raw_def obj_in_def ldn_at)

lemmas plain_defs = ob_appendMinKey_def ob_appendMaxKey_def ob_appendUndefined_def ob_appendNull_def
  ob_append_double_def ob_append_int_def ob_append_ll_def ob_appendDate_def ob_append_bool_def
  ob_append_oid_def ob_appendCode_def ob_appendSymbol_def ob_appendRegex_def ob_appendDBRef_def
  enc_str_def to_u64_sint to_u32_sint

lemma ob_value_ok:
  assumes "builds ob pre fs" "cname name" "wf_val v" "fits_in pre (fs @ [(name, v)])"
    and "\<And>gs. v = VObject gs \<or> v = VArray gs \<or> (\<exists>s. v = VCodeW s gs) \<Longrightarrow> int (length (enc_obj gs)) \<le> BSONObjMaxInternalSize"
  shows "\<exists>ob'. ob_value (name, v) ob = Ret ob' \<and> builds ob' pre (fs @ [(name, v)]) \<and> ob_owned ob' = ob_owned ob"
proof -
  have put: "\<exists>ob'. r = Ret ob' \<and> builds ob' pre (fs @ [(name, v)]) \<and> ob_owned ob' = ob_owned ob"
    if "r = ob_field (btype v) name cs ob" "enc_val v = concat cs" for r cs
    using ob_field_ok [OF assms(1,2,3) that(2) refl assms(4)] that(1) by simp
  have sub: "obj_raw (enc_obj gs, 0) = Ret (enc_obj gs)" "obj_objsize (enc_obj gs, 0) = Ret (int (length (enc_obj gs)))"
    if "v = VObject gs \<or> v = VArray gs \<or> (\<exists>s. v = VCodeW s gs)" for gs
  proof -
    have "obj_in (enc_obj gs, 0) gs"
      using that assms(3,5) by (intro obj_in_self) auto
    then show "obj_raw (enc_obj gs, 0) = Ret (enc_obj gs)" "obj_objsize (enc_obj gs, 0) = Ret (int (length (enc_obj gs)))"
      by (simp_all add: obj_raw_in obj_objsize_in)
  qed
  have u: "to_u32 (int n) = n" if "n \<le> 33554432" for n
    using that by (simp add: to_u32_nat)
  have l: "length (enc_val v) \<le> 33554432"
    using assms(4) by (simp add: fits_in_def length_enc_obj)
  show ?thesis
  proof (cases v)
    case (VTimestamp i t)
    then show ?thesis using unat_u32_less [of i] unat_u32_less [of t]
      by (intro put [of _ "[le64 (unat i + 4294967296 * unat t)]"]) (simp_all add: ob_appendTimestamp_def le64_pair)
  next
    case (VString s)
    have "ldn (s @ [0]) 0 (int (length s) + 1) = Ret (s @ [0])"
      by (simp add: ldn_def sub_def nat_add_distrib)
    moreover have "to_u32 (int (length s) + 1) = length s + 1"
      using u [of "length s + 1"] l VString by (simp add: add.commute)
    ultimately show ?thesis
      using VString by (intro put [of _ "[le32 (length s + 1), s @ [0]]"])
        (simp_all add: ob_append_string_def ob_append_str_def enc_str_def)
  next
    case (VBin k bs)
    have "ldn bs 0 (int (length bs)) = Ret bs"
      by (simp add: ldn_def sub_def)
    with VBin u [of "length bs"] l show ?thesis
      by (intro put [of _ "[le32 (length bs), [k], bs]"]) (simp_all add: ob_appendBinData_def)
  next
    case (VCodeW s gs)
    have "to_u32 (4 + 4 + int (length s) + 1 + int (length (enc_obj gs))) = length s + 9 + length (enc_obj gs)"
      using u [of "length s + 9 + length (enc_obj gs)"] l VCodeW by (simp add: enc_obj_def algebra_simps)
    with VCodeW sub [of gs] show ?thesis
      by (intro put [of _ "[le32 (length s + 9 + length (enc_obj gs)), le32 (length s + 1), s @ [0], enc_obj gs]"])
        (simp_all add: ob_appendCodeWScope_def enc_str_def enc_obj_def add.commute add.left_commute)
  next
    case (VObject gs)
    with sub [of gs] show ?thesis
      by (intro put [of _ "[enc_obj gs]"]) (simp_all add: ob_append_obj_def enc_obj_def)
  next
    case (VArray gs)
    with sub [of gs] show ?thesis
      by (intro put [of _ "[enc_obj gs]"]) (simp_all add: ob_appendArray_def enc_obj_def)
  next
    case VMinKey
    then show ?thesis
      using put [of _ "[]", OF refl] by (simp add: plain_defs)
  next
    case VMaxKey
    then show ?thesis
      using put [of _ "[]", OF refl] by (simp add: plain_defs)
  next
    case VUndefined
    then show ?thesis
      using put [of _ "[]", OF refl] by (simp add: plain_defs)
  next
    case VNull
    then show ?thesis
      using put [of _ "[]", OF refl] by (simp add: plain_defs)
  next
    case (VDouble w)
    then show ?thesis
      using put [of _ "[le64 (unat w)]", OF refl] by (simp add: plain_defs)
  next
    case (VInt w)
    then show ?thesis
      using put [of _ "[le32 (unat w)]", OF refl] by (simp add: plain_defs)
  next
    case (VLong w)
    then show ?thesis
      using put [of _ "[le64 (unat w)]", OF refl] by (simp add: plain_defs)
  next
    case (VDate w)
    then show ?thesis
      using put [of _ "[le64 (unat w)]", OF refl] by (simp add: plain_defs)
  next
    case (VBool b)
    then show ?thesis
      using put [of _ "[[if b then 1 else 0]]", OF refl] by (simp add: plain_defs)
  next
    case (VOID bs)
    then show ?thesis
      using put [of _ "[bs]", OF refl] by (simp add: plain_defs)
  next
    case (VCode s)
    then show ?thesis
      using put [of _ "[le32 (length s + 1), s @ [0]]", OF refl] by (simp add: plain_defs)
  next
    case (VSymbol s)
    then show ?thesis
      using put [of _ "[le32 (length s + 1), s @ [0]]", OF refl] by (simp add: plain_defs)
  next
    case (VRegEx r f)
    then show ?thesis
      using put [of _ "[r @ [0], f @ [0]]", OF refl] by (simp add: plain_defs)
  next
    case (VDBRef ns oid)
    then show ?thesis
      using put [of _ "[le32 (length ns + 1), ns @ [0], oid]", OF refl] by (simp add: plain_defs)
  qed
qed

section \<open>Finishing\<close>

lemma nested_length:
  "length (enc_val (VObject gs)) = length (enc_obj gs)" "length (enc_val (VArray gs)) = length (enc_obj gs)"
  "length (enc_obj gs) \<le> length (enc_val (VCodeW s gs))"
  by (simp_all add: enc_obj_def)

lemma small_nested:
  assumes "(name, v) \<in> set fs" "v = VObject gs \<or> v = VArray gs \<or> (\<exists>s. v = VCodeW s gs)"
    and "int (length (enc_obj fs)) \<le> BSONObjMaxInternalSize"
  shows "int (length (enc_obj gs)) \<le> BSONObjMaxInternalSize"
proof -
  have "length (enc_val v) \<le> length (enc_fields fs)"
    using assms(1) by (induction fs) auto
  moreover have "length (enc_obj gs) \<le> length (enc_val v)"
    using assms(2) nested_length by fastforce
  ultimately show ?thesis
    using assms(3) by (simp add: length_enc_obj)
qed

lemma ob_values_ok:
  assumes "builds ob pre gs" "wf_fields fs" "int (length (enc_obj fs)) \<le> BSONObjMaxInternalSize"
    and "fits_in pre (gs @ fs)"
  shows "\<exists>ob'. ob_values fs ob = Ret ob' \<and> builds ob' pre (gs @ fs) \<and> ob_owned ob' = ob_owned ob"
  using assms
proof (induction fs arbitrary: ob gs)
  case (Cons f fs)
  obtain name v where f: "f = (name, v)"
    by (cases f)
  have wf: "cname name" "wf_val v" "wf_fields fs"
    using Cons.prems(2) f by simp_all
  have "fits_in pre (gs @ [(name, v)])" "int (length (enc_obj fs)) \<le> BSONObjMaxInternalSize"
    using Cons.prems(3,4) f by (simp_all add: fits_in_def length_enc_obj)
  then obtain ob1 where ob1: "ob_value (name, v) ob = Ret ob1" "builds ob1 pre (gs @ [(name, v)])" "ob_owned ob1 = ob_owned ob"
    using ob_value_ok [OF Cons.prems(1) wf(1,2)] small_nested [of name v "f # fs", OF _ _ Cons.prems(3)] f by auto
  have "fits_in pre ((gs @ [(name, v)]) @ fs)"
    using Cons.prems(4) f by simp
  then obtain ob' where "ob_values fs ob1 = Ret ob'" "builds ob' pre ((gs @ [(name, v)]) @ fs)" "ob_owned ob' = ob_owned ob1"
    using Cons.IH [OF ob1(2) wf(3)] \<open>int (length (enc_obj fs)) \<le> BSONObjMaxInternalSize\<close> by blast
  with ob1 f show ?case
    by simp
qed simp

lemma ob__done_ok:
  assumes "builds ob pre fs" "fits_in pre fs"
  shows "\<exists>ob'. ob__done ob = Ret ob' \<and> bb_bytes (ob_b ob') = pre @ enc_obj fs \<and> ob_offset ob' = length pre \<and>
    ob_owned ob' = ob_owned ob \<and> ob_doneCalled ob' \<and> \<not> bb_oom (ob_b ob')"
proof -
  obtain room where room: "length room = 4" "bb_bytes (ob_b ob) = pre @ room @ enc_fields fs"
    using assms(1) by (auto simp: builds_def)
  obtain cap where b: "bb_append [0] (ob_b ob) = Ret (ob_b ob\<lparr>bb_bytes := pre @ room @ enc_fields fs @ [0], bb_size := cap\<rparr>)"
    using bb_append_ok [of "ob_b ob" "[0]"] assms room by (auto simp: builds_def fits_in_def length_enc_obj)
  have "to_u32 (int (length (enc_fields fs)) + 5) = length (enc_fields fs) + 5"
    using assms(2) by (subst to_u32_nat) (auto simp: fits_in_def length_enc_obj)
  then have "sti32 (pre @ room @ enc_fields fs @ [0]) (int (length pre)) (int (length (enc_fields fs)) + 5) =
      Ret (pre @ enc_obj fs)"
    using sti32_append [of "int (length pre)" pre "room @ enc_fields fs @ [0]"] room(1)
    by (simp add: enc_obj_def enc_doc_def)
  with b room(1) assms(1) show ?thesis
    by (simp add: ob__done_def builds_def add.commute)
qed

lemma ob_obj_ok:
  assumes "builds ob pre fs" "ob_owned ob" "int (length (enc_obj fs)) \<le> BSONObjMaxInternalSize" "length pre \<le> 1024"
  shows "ob_obj ob = Ret (pre @ enc_obj fs, int (length pre)) \<and> obj_in (pre @ enc_obj fs, int (length pre)) fs"
proof -
  have "fits_in pre fs"
    using assms(3,4) by (simp add: fits_in_def BSONObjMaxInternalSize_def)
  then obtain ob' where ob': "ob__done ob = Ret ob'" "bb_bytes (ob_b ob') = pre @ enc_obj fs" "ob_offset ob' = length pre"
    using ob__done_ok [OF assms(1)] by blast
  have "at (pre @ enc_obj fs @ []) (int (length pre)) (enc_obj fs)"
    by (rule atI) simp
  then have "obj_in (pre @ enc_obj fs, int (length pre)) fs"
    using assms(1,3,4) by (simp add: obj_in_def builds_def BSONObjMaxInternalSize_def)
  with ob' assms(2) show ?thesis
    by (simp add: ob_obj_def ob_ptr_def obj_init_in)
qed

text \<open>A new builder, the appends, \<open>obj()\<close>.\<close>

lemma build_document:
  assumes "wf_fields fs" "int (length (enc_obj fs)) \<le> BSONObjMaxInternalSize" "length room = 4" "initsize \<le> 33554432"
  shows "bnd (ob_new False room initsize) (\<lambda>ob. bnd (ob_values fs ob) ob_obj) = Ret (le32 0 @ enc_obj fs, 4)"
    "obj_in (le32 0 @ enc_obj fs, 4) fs"
proof -
  obtain ob where ob: "ob_new False room initsize = Ret ob" "builds ob (le32 0) []" "ob_owned ob"
    using ob_new_ok [OF assms(3,4)] .
  have "fits_in (le32 0) ([] @ fs)"
    using assms(2) by (simp add: fits_in_def BSONObjMaxInternalSize_def)
  then obtain ob' where ob': "ob_values fs ob = Ret ob'" "builds ob' (le32 0) fs" "ob_owned ob'"
    using ob_values_ok [OF ob(2) assms(1,2)] ob(3) by auto
  with ob_obj_ok [OF ob'(2,3) assms(2)] ob show
    "bnd (ob_new False room initsize) (\<lambda>ob. bnd (ob_values fs ob) ob_obj) = Ret (le32 0 @ enc_obj fs, 4)"
    "obj_in (le32 0 @ enc_obj fs, 4) fs"
    by simp_all
qed

text \<open>A sub-document built in place.\<close>

lemma build_nested:
  assumes "builds ob pre fs" "cname name" "wf_fields gs" "int (length (enc_obj gs)) \<le> BSONObjMaxInternalSize"
    and "fits_in pre (fs @ [(name, VObject gs)])" "length room = 4"
  shows "\<exists>ob1 sub1 sub2 sub3. ob_subobjStart name ob = Ret ob1 \<and> ob_sub room (ob_b ob1) = Ret sub1 \<and>
    ob_values gs sub1 = Ret sub2 \<and> ob__done sub2 = Ret sub3 \<and>
    builds (ob_after_sub sub3 ob1) pre (fs @ [(name, VObject gs)])"
proof -
  obtain r where r: "length r = 4" "bb_bytes (ob_b ob) = pre @ r @ enc_fields fs"
    using assms(1) by (auto simp: builds_def)
  let ?head = "type_byte Object # name @ [0]"
  have len: "length pre + length (enc_fields fs) + length name + length (enc_fields gs) + 12 \<le> 33554432"
    using assms(5) by (simp add: fits_in_def length_enc_obj)
  obtain c1 where c1: "bb_appends ([type_byte Object] # (name @ [0]) # []) (ob_b ob) =
      Ret (ob_b ob\<lparr>bb_bytes := pre @ r @ enc_fields fs @ ?head, bb_size := c1\<rparr>)"
    using bb_appends_ok [of "ob_b ob" "[type_byte Object] # (name @ [0]) # []"] r len assms(1) by (auto simp: builds_def)
  let ?b1 = "ob_b ob\<lparr>bb_bytes := pre @ r @ enc_fields fs @ ?head, bb_size := c1\<rparr>"
  let ?ob1 = "ob\<lparr>ob_b := ?b1\<rparr>"
  have s1: "ob_subobjStart name ob = Ret ?ob1"
    using c1 by (simp add: ob_subobjStart_def ob_field_def ob_put_def)
  obtain sub1 where sub1: "ob_sub room ?b1 = Ret sub1" "builds sub1 (bb_bytes ?b1) []"
  proof (rule ob_sub_ok [of room ?b1])
    show "length room = 4" "length (bb_bytes ?b1) \<le> 33554428" "\<not> bb_oom ?b1"
      using assms(1,6) r(1) len by (simp_all add: builds_def)
  qed
  have f: "fits_in (bb_bytes ?b1) ([] @ gs)"
    using len r(1) by (simp add: fits_in_def length_enc_obj)
  obtain sub2 where sub2: "ob_values gs sub1 = Ret sub2" "builds sub2 (bb_bytes ?b1) gs"
    using ob_values_ok [OF sub1(2) assms(3,4) f] by auto
  obtain sub3 where sub3: "ob__done sub2 = Ret sub3" "bb_bytes (ob_b sub3) = bb_bytes ?b1 @ enc_obj gs" "\<not> bb_oom (ob_b sub3)"
    using ob__done_ok [OF sub2(2)] f by auto
  have "wf_fields (fs @ [(name, VObject gs)])"
    using assms(1-3) by (auto simp: builds_def wf_fields_iff)
  with sub3 r(1) assms(1) have "builds (ob_after_sub sub3 ?ob1) pre (fs @ [(name, VObject gs)])"
    by (auto simp: builds_def ob_after_sub_def enc_obj_def)
  with s1 sub1 sub2 sub3 show ?thesis
    by auto
qed

lemma builds_bytes: "builds ob pre fs \<Longrightarrow> drop (length pre + 4) (bb_bytes (ob_b ob)) = enc_fields fs"
  by (auto simp: builds_def)

text \<open>
  A sub-document written in place into the buffer of its parent gives the parent exactly the bytes
  that appending the finished sub-document as a value gives.
\<close>

lemma build_nested_same:
  assumes "builds ob pre fs" "cname name" "wf_fields gs" "int (length (enc_obj gs)) \<le> BSONObjMaxInternalSize"
    and "fits_in pre (fs @ [(name, VObject gs)])" "length room = 4"
  shows "\<exists>ob1 sub1 sub2 sub3 ob2. ob_subobjStart name ob = Ret ob1 \<and> ob_sub room (ob_b ob1) = Ret sub1 \<and>
    ob_values gs sub1 = Ret sub2 \<and> ob__done sub2 = Ret sub3 \<and> ob_append_obj name (enc_obj gs, 0) ob = Ret ob2 \<and>
    drop (length pre + 4) (bb_bytes (ob_b (ob_after_sub sub3 ob1))) = enc_fields (fs @ [(name, VObject gs)]) \<and>
    drop (length pre + 4) (bb_bytes (ob_b ob2)) = enc_fields (fs @ [(name, VObject gs)])"
  using build_nested [OF assms] ob_value_ok [OF assms(1,2) _ assms(5), of] assms(3,4) builds_bytes by fastforce

end
