(* ===== verification/BsonOrderSpec.thy ===== *)
theory BsonOrderSpec
  imports BsonBuildSpec BsonOrder
begin

text \<open>
  The comparison on the values the bytes stand for, that the code computes it on encoded documents,
  and that it is a total preorder as long as every \<open>long\<close> is exactly representable as a double.
\<close>

section \<open>The comparison of values\<close>

fun canon :: "bval \<Rightarrow> int" where
  "canon VMinKey = - 1" | "canon VMaxKey = 127" | "canon VUndefined = 0" | "canon VNull = 5"
| "canon (VDouble _) = 10" | "canon (VInt _) = 10" | "canon (VLong _) = 10"
| "canon (VString _) = 15" | "canon (VSymbol _) = 15" | "canon (VObject _) = 20"
| "canon (VArray _) = 25" | "canon (VBin _ _) = 30" | "canon (VOID _) = 35" | "canon (VBool _) = 40"
| "canon (VDate _) = 45" | "canon (VTimestamp _ _) = 45" | "canon (VRegEx _ _) = 50"
| "canon (VDBRef _ _) = 55" | "canon (VCode _) = 60" | "canon (VCodeW _ _) = 65"

fun vnum :: "bval \<Rightarrow> double" where
  "vnum (VDouble w) = dbl_of_bits (unat w)"
| "vnum (VInt w) = dbl_of_int (sint w)"
| "vnum (VLong w) = dbl_of_int (sint w)"
| "vnum _ = Fin 0"

text \<open>Finite numbers by value, everything else below them and equal to each other.\<close>

fun num_cmp :: "double \<Rightarrow> double \<Rightarrow> int" where
  "num_cmp (Fin a) (Fin b) = three_way a b"
| "num_cmp (Fin a) _ = 1"
| "num_cmp _ (Fin b) = - 1"
| "num_cmp _ _ = 0"

fun str_cmp :: "u8 list \<Rightarrow> u8 list \<Rightarrow> int" where
  "str_cmp [] ys = (if ys = [] then 0 else - 1)"
| "str_cmp (x # xs) [] = 1"
| "str_cmp (x # xs) (y # ys) = (if x < y then - 1 else if y < x then 1 else str_cmp xs ys)"

definition upto0 :: "u8 list \<Rightarrow> u8 list" where
  "upto0 s = takeWhile (\<lambda>c. c \<noteq> 0) s"

fun vstr :: "bval \<Rightarrow> u8 list" where
  "vstr (VString s) = upto0 s" | "vstr (VSymbol s) = upto0 s" | "vstr (VCode s) = upto0 s"
| "vstr (VRegEx r f) = r" | "vstr (VCodeW s fs) = s" | "vstr _ = []"

fun vtime :: "bval \<Rightarrow> nat" where
  "vtime (VDate w) = unat w"
| "vtime (VTimestamp i t) = unat i + 4294967296 * unat t"
| "vtime _ = 0"

text \<open>Length first, then the bytes: binary data and references.\<close>

definition len_cmp :: "nat \<Rightarrow> nat \<Rightarrow> u8 list \<Rightarrow> u8 list \<Rightarrow> int" where
  "len_cmp m n xs ys = (if m \<noteq> n then int m - int n else mem_cmp xs ys)"

fun vbytes :: "bval \<Rightarrow> u8 list" where
  "vbytes (VOID bs) = bs"
| "vbytes (VBin k bs) = k # bs"
| "vbytes v = enc_val v"

text \<open>The second component of a pair of strings.\<close>

fun vstr2 :: "bval \<Rightarrow> u8 list" where
  "vstr2 (VRegEx r f) = f"
| "vstr2 (VCodeW s fs) = upto0 (enc_obj fs)"
| "vstr2 _ = []"

fun vfields :: "bval \<Rightarrow> fields" where
  "vfields (VObject fs) = fs" | "vfields (VArray fs) = fs" | "vfields _ = []"

fun vbool :: "bval \<Rightarrow> int" where
  "vbool (VBool b) = (if b then 1 else 0)"
| "vbool _ = 0"

definition then_cmp :: "int \<Rightarrow> int \<Rightarrow> int" where
  "then_cmp x y = (if x \<noteq> 0 then x else y)"

text \<open>Two values of one canonical type that hold no documents.\<close>

definition flat_cmp :: "bval \<Rightarrow> bval \<Rightarrow> int" where
  "flat_cmp v w = (case v of
       VBool _ \<Rightarrow> vbool v - vbool w
     | VDate _ \<Rightarrow> three_way (int (vtime v)) (int (vtime w))
     | VTimestamp _ _ \<Rightarrow> three_way (int (vtime v)) (int (vtime w))
     | VLong a \<Rightarrow> (case w of VLong b \<Rightarrow> three_way (sint a) (sint b) | _ \<Rightarrow> num_cmp (vnum v) (vnum w))
     | VInt _ \<Rightarrow> num_cmp (vnum v) (vnum w) | VDouble _ \<Rightarrow> num_cmp (vnum v) (vnum w)
     | VOID _ \<Rightarrow> mem_cmp (vbytes v) (vbytes w)
     | VString _ \<Rightarrow> str_cmp (vstr v) (vstr w) | VSymbol _ \<Rightarrow> str_cmp (vstr v) (vstr w)
     | VCode _ \<Rightarrow> str_cmp (vstr v) (vstr w)
     | VDBRef _ _ \<Rightarrow> len_cmp (length (vbytes v)) (length (vbytes w)) (vbytes v) (vbytes w)
     | VBin _ _ \<Rightarrow> len_cmp (length (vbytes v)) (length (vbytes w)) (vbytes v) (vbytes w)
     | VRegEx _ _ \<Rightarrow> then_cmp (str_cmp (vstr v) (vstr w)) (str_cmp (vstr2 v) (vstr2 w))
     | VCodeW _ _ \<Rightarrow> then_cmp (str_cmp (vstr v) (vstr w)) (str_cmp (vstr2 v) (vstr2 w))
     | _ \<Rightarrow> 0)"

text \<open>\<open>vcmp\<close>: two values of one canonical type; \<open>fcmp\<close>: two documents.\<close>

fun vcmp :: "bval \<Rightarrow> bval \<Rightarrow> int" and fcmp :: "fields \<Rightarrow> fields \<Rightarrow> int" where
  "vcmp (VObject fs) w = fcmp fs (vfields w)"
| "vcmp (VArray fs) w = fcmp fs (vfields w)"
| "vcmp v w = flat_cmp v w"
| "fcmp [] gs = (if gs = [] then 0 else - 1)"
| "fcmp (f # fs) [] = 1"
| "fcmp (f # fs) (g # gs) = then_cmp (canon (snd f) - canon (snd g)) (then_cmp (str_cmp (fst f) (fst g))
     (then_cmp (vcmp (snd f) (snd g)) (fcmp fs gs)))"

definition ecmp :: "bool \<Rightarrow> u8 list \<times> bval \<Rightarrow> u8 list \<times> bval \<Rightarrow> int" where
  "ecmp names f g = then_cmp (canon (snd f) - canon (snd g))
     (then_cmp (if names then str_cmp (fst f) (fst g) else 0) (vcmp (snd f) (snd g)))"

text \<open>With a key pattern: the keys whose sign is negative reverse their field.\<close>

fun kcmp :: "bool \<Rightarrow> bool list \<Rightarrow> fields \<Rightarrow> fields \<Rightarrow> int" where
  "kcmp names negs [] gs = (if gs = [] then 0 else - 1)"
| "kcmp names negs (f # fs) [] = 1"
| "kcmp names negs (f # fs) (g # gs) = (let x = ecmp names f g in
     then_cmp (if negs \<noteq> [] \<and> hd negs then - x else x) (kcmp names (tl negs) fs gs))"

lemma then_cmp_simps [simp]: "then_cmp 0 y = y" "x \<noteq> 0 \<Longrightarrow> then_cmp x y = x"
  by (simp_all add: then_cmp_def)

lemma then_cmp_assoc: "then_cmp (then_cmp x y) z = then_cmp x (then_cmp y z)"
  by (simp add: then_cmp_def)

lemma fcmp_kcmp: "fcmp fs gs = kcmp True [] fs gs"
proof (induction fs arbitrary: gs)
  case (Cons f fs)
  then show ?case
    by (cases gs) (simp_all add: ecmp_def then_cmp_assoc)
qed simp

section \<open>Numbers of the code\<close>

lemma excess_le: "2 ^ excess n \<le> max 1 n"
proof (induction n rule: excess.induct)
  case (1 n)
  then show ?case
    by (cases "n < 2 ^ 53") (auto simp: excess.simps [of n] max_def split: if_splits)
qed

lemma round53_le: "round53 n \<le> 2 * n"
proof (cases "n < 2 ^ 53")
  case False
  have q: "2 ^ excess n * (n div 2 ^ excess n) \<le> n"
    by simp
  have k: "(2 :: nat) ^ excess n \<le> n"
    using excess_le [of n] False by (auto simp: max_def split: if_splits)
  have "round53 n \<le> (n div 2 ^ excess n + 1) * 2 ^ excess n"
    by (simp add: round53_def Let_def)
  also have "\<dots> = 2 ^ excess n * (n div 2 ^ excess n) + 2 ^ excess n"
    by (simp add: algebra_simps)
  also have "\<dots> \<le> 2 * n"
    using add_mono [OF q k] by simp
  finally show ?thesis .
qed (simp add: round53_small)

lemma dbl_of_int_range:
  assumes "\<bar>i\<bar> \<le> 9223372036854775808" "dbl_of_int i = Fin a"
  shows "- dbl_max_units \<le> a \<and> a \<le> dbl_max_units"
proof -
  define m where "m = round53 (nat \<bar>i\<bar>)"
  have "int m \<le> 2 * \<bar>i\<bar>"
    using round53_le [of "nat \<bar>i\<bar>"] by (simp add: m_def)
  then have "int m \<le> 18446744073709551616"
    using assms(1) by simp
  then have "int m * 2 ^ 1074 \<le> 18446744073709551616 * 2 ^ 1074"
    by (rule mult_right_mono) simp
  also have "(18446744073709551616 :: int) * 2 ^ 1074 \<le> dbl_max_units"
    unfolding dbl_max_units_def by simp
  finally have "int m * 2 ^ 1074 \<le> dbl_max_units" .
  moreover have "a = (if i < 0 then - int m else int m) * 2 ^ 1074"
    using assms(2) by (auto simp: dbl_of_int_def m_def abs_if)
  moreover have "0 \<le> int m * 2 ^ 1074" "0 \<le> dbl_max_units"
    by (simp_all add: dbl_max_units_def)
  ultimately show ?thesis
    by (auto split: if_splits)
qed

lemma sint64_bound: "\<bar>sint (w :: u64)\<bar> \<le> 9223372036854775808"
  using sint_ge [of w] sint_lt [of w] by (auto simp: abs_le_iff)

lemma sint32_bound: "\<bar>sint (w :: u32)\<bar> \<le> 2147483648"
  using sint_ge [of w] sint_lt [of w] by (auto simp: abs_le_iff)

lemma vnum_range: "vnum v = Fin a \<Longrightarrow> - dbl_max_units \<le> a \<and> a \<le> dbl_max_units"
proof (cases v)
  case (VInt w)
  moreover assume "vnum v = Fin a"
  moreover have "\<bar>sint w\<bar> \<le> 9223372036854775808"
    using sint32_bound [of w] by simp
  ultimately show ?thesis
    using dbl_of_int_range by simp
qed (use dbl_of_bits_range dbl_of_int_range [OF sint64_bound] in \<open>auto simp: dbl_max_units_def\<close>)

lemma cmp_double_num: "cmp_double (vnum v) (vnum w) = num_cmp (vnum v) (vnum w)"
  using vnum_range [of v] vnum_range [of w]
  by (cases "vnum v"; cases "vnum w")
    (auto simp: cmp_double_def dbl_isNan_def dbl_diff_sign_def three_way_def)

lemma s64_of_mod:
  assumes "int n = s mod 18446744073709551616" "- 9223372036854775808 \<le> s" "s < 9223372036854775808"
  shows "s64 n = s"
proof (cases "0 \<le> s")
  case True
  then have "int n = s"
    using assms by simp
  then show ?thesis
    using assms by (auto simp: s64_def)
next
  case False
  have "s mod 18446744073709551616 = (s + 18446744073709551616) mod 18446744073709551616"
    by simp
  also have "\<dots> = s + 18446744073709551616"
    using False assms by (intro mod_pos_pos_trivial) auto
  finally have "int n = s + 18446744073709551616"
    using assms(1) by simp
  then show ?thesis
    using assms False by (auto simp: s64_def)
qed

lemma s64_unat: "s64 (unat (w :: u64)) = sint w"
proof (rule s64_of_mod)
  show "int (unat w) = sint w mod 18446744073709551616"
    using uint_sint [of w] by (simp add: take_bit_eq_mod)
qed (use sint_ge [of w] sint_lt [of w] in auto)

section \<open>The pieces of the code on encoded elements\<close>

lemma c_cmp_upto0: "0 \<in> set xs \<Longrightarrow> 0 \<in> set ys \<Longrightarrow> c_cmp xs ys = Ret (str_cmp (upto0 xs) (upto0 ys))"
proof (induction xs arbitrary: ys)
  case (Cons x xs)
  then obtain y ys' where "ys = y # ys'"
    by (cases ys) auto
  with Cons show ?case
    by (auto simp: upto0_def word_neq_0_conv not_less_iff_gr_or_eq)
qed simp

lemma upto0_append: "0 \<in> set xs \<Longrightarrow> upto0 (xs @ ys) = upto0 xs"
  unfolding upto0_def by (rule takeWhile_append1) auto

lemma upto0_cname: "cname s \<Longrightarrow> upto0 (s @ 0 # t) = s"
  unfolding upto0_def cname_def by (subst takeWhile_append2) auto

lemma upto0_zero: "upto0 (s @ [0]) = upto0 s"
  unfolding upto0_def by (induction s) auto

lemma c_strcmp_upto0:
  assumes "at b p xs" "at c q ys" "0 \<in> set xs" "0 \<in> set ys"
  shows "c_strcmp (b, p) (c, q) = Ret (str_cmp (upto0 xs) (upto0 ys))"
proof -
  obtain s t where "tail_at b p = xs @ s" "tail_at c q = ys @ t"
    using tail_at_at assms(1,2) by blast
  then show ?thesis
    using assms(3,4) by (simp add: c_strcmp_def c_cmp_upto0 upto0_append)
qed

lemma canonical_in: "elem_in b p f \<Longrightarrow> elem_canonicalType (raw_elem b p) = Ret (canon (snd f))"
  by (cases "snd f") (simp_all add: elem_canonicalType_def elem_type_in)

lemma cmp_canonical_in:
  "elem_in b p f \<Longrightarrow> elem_in c q g \<Longrightarrow>
     cmp_canonical (raw_elem b p) (raw_elem c q) = Ret (canon (snd f) - canon (snd g))"
  by (simp add: cmp_canonical_def canonical_in)

lemma name_cmp_in:
  assumes "elem_in b p f" "elem_in c q g"
  shows "name_cmp (raw_elem b p) (raw_elem c q) = Ret (str_cmp (fst f) (fst g))"
proof -
  have "cname (fst f)" "cname (fst g)"
    using assms by (simp_all add: elem_in_def)
  then show ?thesis
    using c_strcmp_upto0 [OF elem_in_parts(2) [OF assms(1)] elem_in_parts(2) [OF assms(2)]]
    by (simp add: name_cmp_def elem_fieldName_in [OF assms(1)] elem_fieldName_in [OF assms(2)] upto0_cname)
qed

lemma value_at:
  assumes "elem_in b p f"
  shows "elem_value (raw_elem b p) = Ret (p + int (length (fst f)) + 2)"
    "at b (p + int (length (fst f)) + 2) (enc_val (snd f))"
  using elem_value_in [OF assms raw_elem_of] elem_val_at [OF assms raw_elem_of] by (simp_all add: raw_elem_def)

lemma raw_simps [simp]: "ebuf (raw_elem b p) = b" "data (raw_elem b p) = p"
  by (simp_all add: raw_elem_def)

lemma long_bits_in:
  assumes "elem_in b p f" "enc_val (snd f) = le64 n"
  shows "elem_long_bits (raw_elem b p) = Ret (n mod 18446744073709551616)"
    "elem_date (raw_elem b p) = Ret (n mod 18446744073709551616)"
  using value_at [OF assms(1)] assms(2) ld64_at by (simp_all add: elem_long_bits_def elem_date_def)

fun is_num :: "bval \<Rightarrow> bool" where
  "is_num (VDouble _) = True" | "is_num (VInt _) = True" | "is_num (VLong _) = True" | "is_num _ = False"

lemma is_num_canon: "is_num v \<longleftrightarrow> canon v = 10"
  by (cases v) auto

lemma isNumber_in: "elem_in b p f \<Longrightarrow> elem_isNumber (raw_elem b p) = Ret (is_num (snd f))"
  by (cases "snd f") (simp_all add: elem_isNumber_def elem_type_in)

lemma numberDouble_in: "elem_in b p f \<Longrightarrow> elem_numberDouble (raw_elem b p) = Ret (vnum (snd f))"
proof -
  assume e: "elem_in b p f"
  show ?thesis
  proof (cases "snd f")
    case (VInt w)
    then have "at b (p + int (length (fst f)) + 2) (le32 (unat w))"
      using value_at(2) [OF e] by simp
    then show ?thesis
      using VInt value_at(1) [OF e] ldi32_at_word
      by (simp add: elem_numberDouble_def elem_type_in [OF e] elem_numberInt_raw_def)
  next
    case (VLong w)
    then show ?thesis
      using long_bits_in [OF e, of "unat w"] by (simp add: elem_numberDouble_def elem_type_in [OF e] s64_unat)
  next
    case (VDouble w)
    then show ?thesis
      using long_bits_in [OF e, of "unat w"] by (simp add: elem_numberDouble_def elem_type_in [OF e])
  qed (simp_all add: elem_numberDouble_def elem_type_in [OF e])
qed

lemma cmp_number_in:
  "elem_in b p f \<Longrightarrow> elem_in c q g \<Longrightarrow>
     cmp_number (raw_elem b p) (raw_elem c q) = Ret (num_cmp (vnum (snd f)) (vnum (snd g)))"
  by (simp add: cmp_number_def numberDouble_in cmp_double_num)

lemma vtime_less: "vtime v < 18446744073709551616"
proof (cases v)
  case (VDate w)
  then show ?thesis
    using unsigned_less [of w, where 'a = nat] by simp
next
  case (VTimestamp i t)
  then show ?thesis
    using unat_u32_less [of i] unat_u32_less [of t] by simp
qed simp_all

lemma date_in:
  assumes "elem_in b p f" "canon (snd f) = 45"
  shows "elem_date (raw_elem b p) = Ret (vtime (snd f))"
proof -
  have "enc_val (snd f) = le64 (vtime (snd f))"
    using assms(2) unat_u32_less by (cases "snd f") (simp_all add: le64_pair)
  then show ?thesis
    using long_bits_in(2) [OF assms(1)] vtime_less [of "snd f"] by simp
qed

lemma c_memcmp_at:
  "at b p xs \<Longrightarrow> at c q ys \<Longrightarrow> n = int (length xs) \<Longrightarrow> n = int (length ys) \<Longrightarrow>
     c_memcmp (b, p) (c, q) n = Ret (mem_cmp xs ys)"
  by (simp add: c_memcmp_def ldn_at)

lemma cmp_strs_at:
  assumes "acc l = Ret (b, p)" "acc r = Ret (c, q)" "at b p xs" "at c q ys" "0 \<in> set xs" "0 \<in> set ys"
  shows "cmp_strs acc l r = Ret (str_cmp (upto0 xs) (upto0 ys))"
  using c_strcmp_upto0 [OF assms(3-6)] assms(1,2) by (simp add: cmp_strs_def)

lemma at_tail: "at b p (xs @ ys) \<Longrightarrow> k = int (length xs) \<Longrightarrow> at b (p + k) ys"
  by (simp add: at_append)

lemma at_le32: "at b p (le32 n @ xs) \<Longrightarrow> at b (p + 4) xs"
  by (rule at_tail [of b p "le32 n" xs 4]) simp_all

lemma valuestr_in:
  assumes "elem_in b p f" "enc_val (snd f) = enc_str s"
  obtains q where "elem_valuestr (raw_elem b p) = Ret (b, q)" "at b q (s @ [0])"
proof
  show "elem_valuestr (raw_elem b p) = Ret (b, p + int (length (fst f)) + 2 + 4)"
    using value_at(1) [OF assms(1)] by (simp add: elem_valuestr_def)
  show "at b (p + int (length (fst f)) + 2 + 4) (s @ [0])"
    using value_at(2) [OF assms(1)] assms(2) by (intro at_le32) (simp add: enc_str_def)
qed

lemma cmp_valuestr_in:
  assumes "elem_in b p f" "elem_in c q g" "enc_val (snd f) = enc_str s" "enc_val (snd g) = enc_str t"
  shows "cmp_strs elem_valuestr (raw_elem b p) (raw_elem c q) = Ret (str_cmp (upto0 s) (upto0 t))"
proof -
  obtain q1 q2 where "elem_valuestr (raw_elem b p) = Ret (b, q1)" "at b q1 (s @ [0])"
      "elem_valuestr (raw_elem c q) = Ret (c, q2)" "at c q2 (t @ [0])"
    using valuestr_in [OF assms(1,3)] valuestr_in [OF assms(2,4)] by metis
  then show ?thesis
    using cmp_strs_at [of elem_valuestr _ b q1 _ c q2] by (simp add: upto0_zero)
qed

lemma i32_diff: "m < 2147483648 \<Longrightarrow> n < 2147483648 \<Longrightarrow> i32 (int m - int n) = int m - int n"
  by (rule i32_id) auto

lemma enc_val_small: "elem_in b p f \<Longrightarrow> length (enc_val (snd f)) < 2147483648"
  using elem_in_bound [of b p f] length_enc_elem [of f] by simp

lemma cmp_dbref_in:
  assumes "elem_in b p f" "elem_in c q g" "snd f = VDBRef ns i" "snd g = VDBRef nt j"
  shows "cmp_dbref (raw_elem b p) (raw_elem c q) = Ret (flat_cmp (snd f) (snd g))"
proof -
  have sz: "elem_valuesize (raw_elem b' p') = Ret (int (length (enc_val (snd h))))" if "elem_in b' p' h" for b' p' h
    using elem_size_in [OF that raw_elem_of] elem_fieldNameSize_in [OF that raw_elem_of]
    by (simp add: elem_valuesize_def length_enc_elem)
  have mem: "c_memcmp (b, p + int (length (fst f)) + 2) (c, q + int (length (fst g)) + 2) (int (length (enc_val (snd f))))
      = Ret (mem_cmp (enc_val (snd f)) (enc_val (snd g)))" if "length (enc_val (snd f)) = length (enc_val (snd g))"
    using that value_at(2) [OF assms(1)] value_at(2) [OF assms(2)] by (intro c_memcmp_at) auto
  define m n where "m = length (enc_val (snd f))" and "n = length (enc_val (snd g))"
  have "flat_cmp (snd f) (snd g) = len_cmp m n (enc_val (snd f)) (enc_val (snd g))"
    by (simp add: flat_cmp_def assms(3,4) m_def n_def)
  moreover have "i32 (int m - int n) = int m - int n"
    using i32_diff enc_val_small assms(1,2) by (simp add: m_def n_def)
  ultimately show ?thesis
    using mem unfolding cmp_dbref_def len_cmp_def sz [OF assms(1)] sz [OF assms(2)] m_def [symmetric] n_def [symmetric]
    by (simp add: value_at(1) [OF assms(1)] value_at(1) [OF assms(2)])
qed

lemma cmp_bindata_in:
  assumes "elem_in b p f" "elem_in c q g" "snd f = VBin k xs" "snd g = VBin l ys"
  shows "cmp_bindata (raw_elem b p) (raw_elem c q) = Ret (flat_cmp (snd f) (snd g))"
proof -
  have s: "length xs < 2147483648" "length ys < 2147483648"
    using enc_val_small [OF assms(1)] enc_val_small [OF assms(2)] assms(3,4) by simp_all
  have sz: "elem_objsize (raw_elem b p) = Ret (int (length xs))" "elem_objsize (raw_elem c q) = Ret (int (length ys))"
    using elem_prefix_in(2) [OF assms(1) raw_elem_of, of "length xs"] elem_prefix_in(2) [OF assms(2) raw_elem_of, of "length ys"]
      s assms(3,4) by simp_all
  have at: "at b (p + int (length (fst f)) + 2 + 4) (k # xs)" "at c (q + int (length (fst g)) + 2 + 4) (l # ys)"
    using value_at(2) [OF assms(1)] value_at(2) [OF assms(2)] assms(3,4)
    by (simp_all only: snd_conv enc_val.simps at_le32 append_Cons append_Nil)
  have "c_memcmp (b, p + int (length (fst f)) + 2 + 4) (c, q + int (length (fst g)) + 2 + 4) (int (length xs) + 1)
      = Ret (mem_cmp (k # xs) (l # ys))" if "length xs = length ys"
    using that by (intro c_memcmp_at [OF at]) auto
  then show ?thesis
    using i32_diff [OF s] by (simp add: cmp_bindata_def sz value_at(1) [OF assms(1)] value_at(1) [OF assms(2)]
      flat_cmp_def len_cmp_def assms(3,4))
qed

lemma cmp_bool_in:
  assumes "elem_in b p f" "elem_in c q g" "snd f = VBool x" "snd g = VBool y"
  shows "cmp_bool (raw_elem b p) (raw_elem c q) = Ret (flat_cmp (snd f) (snd g))"
proof -
  have "ld8 b (p + int (length (fst f)) + 2) = Ret (if x then 1 else 0)"
      "ld8 c (q + int (length (fst g)) + 2) = Ret (if y then 1 else 0)"
    using value_at(2) [OF assms(1)] value_at(2) [OF assms(2)] assms(3,4) ld8_at by simp_all
  then show ?thesis
    using value_at(1) [OF assms(1)] value_at(1) [OF assms(2)] assms(3,4)
    by (simp add: cmp_bool_def flat_cmp_def schar_def)
qed

lemma cmp_oid_in:
  assumes "elem_in b p f" "elem_in c q g" "snd f = VOID xs" "snd g = VOID ys"
  shows "cmp_oid (raw_elem b p) (raw_elem c q) = Ret (flat_cmp (snd f) (snd g))"
proof -
  have "length xs = 12" "length ys = 12"
    using assms by (simp_all add: elem_in_def)
  then have "c_memcmp (b, p + int (length (fst f)) + 2) (c, q + int (length (fst g)) + 2) 12 = Ret (mem_cmp xs ys)"
    using value_at(2) [OF assms(1)] value_at(2) [OF assms(2)] assms(3,4) by (intro c_memcmp_at) simp_all
  then show ?thesis
    using value_at(1) [OF assms(1)] value_at(1) [OF assms(2)] assms(3,4) by (simp add: cmp_oid_def flat_cmp_def)
qed

lemma cmp_regex_in:
  assumes "elem_in b p f" "elem_in c q g" "snd f = VRegEx r1 o1" "snd g = VRegEx r2 o2"
  shows "cmp_regex (raw_elem b p) (raw_elem c q) = Ret (flat_cmp (snd f) (snd g))"
proof -
  have z: "upto0 (r1 @ [0]) = r1" "upto0 (o1 @ [0]) = o1" "upto0 (r2 @ [0]) = r2" "upto0 (o2 @ [0]) = o2"
    using assms by (auto simp: elem_in_def intro!: upto0_cname)
  obtain a1 a2 b1 b2 where
    l: "elem_regex (raw_elem b p) = Ret (b, a1)" "at b a1 (r1 @ [0])"
      "elem_regexFlags (raw_elem b p) = Ret (b, a2)" "at b a2 (o1 @ [0])" and
    r: "elem_regex (raw_elem c q) = Ret (c, b1)" "at c b1 (r2 @ [0])"
      "elem_regexFlags (raw_elem c q) = Ret (c, b2)" "at c b2 (o2 @ [0])"
    using accessors_in [OF assms(1) raw_elem_of] accessors_in [OF assms(2) raw_elem_of] assms(3,4) by auto
  have "cmp_strs elem_regex (raw_elem b p) (raw_elem c q) = Ret (str_cmp r1 r2)"
      "cmp_strs elem_regexFlags (raw_elem b p) (raw_elem c q) = Ret (str_cmp o1 o2)"
    using cmp_strs_at [of elem_regex _ b a1 _ c b1, OF l(1) r(1) l(2) r(2)]
      cmp_strs_at [of elem_regexFlags _ b a2 _ c b2, OF l(3) r(3) l(4) r(4)] z by simp_all
  then show ?thesis
    by (simp add: cmp_regex_def flat_cmp_def then_cmp_def assms(3,4))
qed

lemma zero_in_enc: "0 \<in> set (enc_obj fs)"
  by (simp add: enc_obj_def enc_doc_def)

lemma cmp_codewscope_in:
  assumes "elem_in b p f" "elem_in c q g" "snd f = VCodeW s fs" "snd g = VCodeW t gs"
  shows "cmp_codewscope (raw_elem b p) (raw_elem c q) = Ret (flat_cmp (snd f) (snd g))"
proof -
  have z: "upto0 (s @ [0]) = s" "upto0 (t @ [0]) = t"
    using assms by (auto simp: elem_in_def intro!: upto0_cname)
  obtain a1 a2 b1 b2 where
    l: "elem_codeWScopeCode (raw_elem b p) = Ret (b, a1)" "at b a1 (s @ [0])"
      "elem_codeWScopeScopeData (raw_elem b p) = Ret (b, a2)" "at b a2 (enc_obj fs)" and
    r: "elem_codeWScopeCode (raw_elem c q) = Ret (c, b1)" "at c b1 (t @ [0])"
      "elem_codeWScopeScopeData (raw_elem c q) = Ret (c, b2)" "at c b2 (enc_obj gs)"
    using accessors_in [OF assms(1) raw_elem_of] accessors_in [OF assms(2) raw_elem_of] assms(3,4) by auto
  have "cmp_strs elem_codeWScopeCode (raw_elem b p) (raw_elem c q) = Ret (str_cmp s t)"
      "cmp_strs elem_codeWScopeScopeData (raw_elem b p) (raw_elem c q) = Ret (str_cmp (upto0 (enc_obj fs)) (upto0 (enc_obj gs)))"
    using cmp_strs_at [of elem_codeWScopeCode _ b a1 _ c b1, OF l(1) r(1) l(2) r(2)]
      cmp_strs_at [of elem_codeWScopeScopeData _ b a2 _ c b2, OF l(3) r(3) l(4) r(4) zero_in_enc zero_in_enc] z by simp_all
  then show ?thesis
    using cmp_canonical_in [OF assms(1,2)] assms(3,4) by (simp add: cmp_codewscope_def flat_cmp_def then_cmp_def)
qed

fun text_of :: "bval \<Rightarrow> u8 list" where
  "text_of (VString s) = s" | "text_of (VSymbol s) = s" | "text_of (VCode s) = s" | "text_of _ = []"

lemma cmp_text_in:
  assumes "elem_in b p f" "elem_in c q g" "canon (snd f) = canon (snd g)" "canon (snd f) = 15 \<or> canon (snd f) = 60"
  shows "cmp_strs elem_valuestr (raw_elem b p) (raw_elem c q) = Ret (flat_cmp (snd f) (snd g))"
proof -
  have "enc_val (snd f) = enc_str (text_of (snd f))" "enc_val (snd g) = enc_str (text_of (snd g))"
    using assms(3,4) by (cases "snd f"; simp; fail) (cases "snd g"; use assms(3,4) in \<open>simp; fail\<close>)
  then have "cmp_strs elem_valuestr (raw_elem b p) (raw_elem c q) = Ret (str_cmp (upto0 (text_of (snd f))) (upto0 (text_of (snd g))))"
    by (rule cmp_valuestr_in [OF assms(1,2)])
  moreover have "flat_cmp (snd f) (snd g) = str_cmp (upto0 (text_of (snd f))) (upto0 (text_of (snd g)))"
    using assms(3,4) by (cases "snd f"; cases "snd g") (simp_all add: flat_cmp_def)
  ultimately show ?thesis
    by simp
qed

lemma cmp_date_in:
  assumes "elem_in b p f" "elem_in c q g" "canon (snd f) = 45" "canon (snd g) = 45"
  shows "cmp_date (raw_elem b p) (raw_elem c q) = Ret (flat_cmp (snd f) (snd g))"
  using date_in [OF assms(1,3)] date_in [OF assms(2,4)] assms(3)
  by (cases "snd f") (simp_all add: cmp_date_def flat_cmp_def)

lemma cmp_long_in:
  assumes "elem_in b p f" "elem_in c q g" "snd f = VLong x" "snd g = VLong y"
  shows "cmp_long (raw_elem b p) (raw_elem c q) = Ret (flat_cmp (snd f) (snd g))"
  using long_bits_in(1) [OF assms(1), of "unat x"] long_bits_in(1) [OF assms(2), of "unat y"] assms(3,4)
  by (simp add: cmp_long_def flat_cmp_def s64_unat)

lemma compare_flat_in:
  assumes f: "elem_in b p f" and g: "elem_in c q g" and eq: "canon (snd f) = canon (snd g)"
    and "canon (snd f) \<notin> {20, 25}"
  shows "compare_flat (btype (snd f)) (raw_elem b p) (raw_elem c q) = Ret (flat_cmp (snd f) (snd g))"
proof -
  consider "canon (snd f) \<in> {- 1, 127, 0, 5}" | "canon (snd f) = 10" | "canon (snd f) \<in> {15, 60}"
    | "canon (snd f) = 30" | "canon (snd f) = 35" | "canon (snd f) = 40" | "canon (snd f) = 45"
    | "canon (snd f) = 50" | "canon (snd f) = 55" | "canon (snd f) = 65"
    using assms(4) by (cases "snd f") simp_all
  then show ?thesis
  proof cases
    case 1
    then show ?thesis
      using cmp_canonical_in [OF f g] eq
      by (cases "snd f") (simp_all add: compare_flat_def flat_cmp_def three_way_def)
  next
    case 2
    then have "is_num (snd f)" "is_num (snd g)"
      using eq by (simp_all add: is_num_canon)
    then show ?thesis
      using cmp_number_in [OF f g] cmp_long_in [OF f g] elem_type_in [OF g raw_elem_of]
      by (cases "snd f"; cases "snd g") (simp_all add: compare_flat_def flat_cmp_def)
  next
    case 3
    then show ?thesis
      using cmp_text_in [OF f g eq] by (cases "snd f") (simp_all add: compare_flat_def)
  next
    case 4
    then show ?thesis
      using cmp_bindata_in [OF f g] eq by (cases "snd f"; cases "snd g") (simp_all add: compare_flat_def)
  next
    case 5
    then show ?thesis
      using cmp_oid_in [OF f g] eq by (cases "snd f"; cases "snd g") (simp_all add: compare_flat_def)
  next
    case 6
    then show ?thesis
      using cmp_bool_in [OF f g] eq by (cases "snd f"; cases "snd g") (simp_all add: compare_flat_def)
  next
    case 7
    then show ?thesis
      using cmp_date_in [OF f g] eq by (cases "snd f") (simp_all add: compare_flat_def)
  next
    case 8
    then show ?thesis
      using cmp_regex_in [OF f g] eq by (cases "snd f"; cases "snd g") (simp_all add: compare_flat_def)
  next
    case 9
    then show ?thesis
      using cmp_dbref_in [OF f g] eq by (cases "snd f"; cases "snd g") (simp_all add: compare_flat_def)
  next
    case 10
    then show ?thesis
      using cmp_codewscope_in [OF f g] eq by (cases "snd f"; cases "snd g") (simp_all add: compare_flat_def)
  qed
qed

section \<open>Elements and objects\<close>

text \<open>
  Documents nested in a document of legal size have legal sizes; \<open>small_doc\<close> says it of an element.
\<close>

definition small_doc :: "bval \<Rightarrow> bool" where
  "small_doc v \<longleftrightarrow> int (length (enc_val v)) \<le> BSONObjMaxInternalSize"

lemma nested_obj_in:
  assumes "elem_in b p f" "small_doc (snd f)" "canon (snd f) \<in> {20, 25}"
  obtains q where "elem_embeddedObject (raw_elem b p) = Ret (b, q)" "obj_in (b, q) (vfields (snd f))"
proof -
  have v: "snd f = VObject (vfields (snd f)) \<or> snd f = VArray (vfields (snd f))"
    using assms(3) by (cases "snd f") simp_all
  then have len: "length (enc_obj (vfields (snd f))) = length (enc_val (snd f))"
    by (cases "snd f") (auto simp: enc_obj_def)
  then have "int (length (enc_obj (vfields (snd f)))) \<le> BSONObjMaxInternalSize"
    using assms(2) by (simp add: small_doc_def)
  then show ?thesis
    using embedded_in [OF assms(1) raw_elem_of v] that by blast
qed

lemma compare_with_in:
  assumes f: "elem_in b p f" and g: "elem_in c q g" and eq: "canon (snd f) = canon (snd g)"
    and small: "small_doc (snd f)" "small_doc (snd g)"
    and nest: "\<And>o1 o2. obj_in o1 (vfields (snd f)) \<Longrightarrow> obj_in o2 (vfields (snd g)) \<Longrightarrow> canon (snd f) \<in> {20, 25} \<Longrightarrow>
      nest o1 o2 = Some (Ret (fcmp (vfields (snd f)) (vfields (snd g))))"
  shows "compare_with nest (raw_elem b p) (raw_elem c q) = Some (Ret (vcmp (snd f) (snd g)))"
proof (cases "canon (snd f) \<in> {20, 25}")
  case True
  obtain q1 where l: "elem_embeddedObject (raw_elem b p) = Ret (b, q1)" "obj_in (b, q1) (vfields (snd f))"
    using nested_obj_in [OF f small(1) True] .
  obtain q2 where r: "elem_embeddedObject (raw_elem c q) = Ret (c, q2)" "obj_in (c, q2) (vfields (snd g))"
    using nested_obj_in [OF g small(2)] True eq by metis
  have v: "vcmp (snd f) (snd g) = fcmp (vfields (snd f)) (vfields (snd g))"
    using True by (cases "snd f") simp_all
  have t: "btype (snd f) = Object \<or> btype (snd f) = Array"
    using True by (cases "snd f") simp_all
  show ?thesis
    using nest [OF l(2) r(2) True] t
    by (simp add: compare_with_def elem_type_in [OF f raw_elem_of] l(1) r(1) v)
next
  case False
  then have t: "btype (snd f) \<noteq> Object" "btype (snd f) \<noteq> Array"
    by (cases "snd f"; simp)+
  have v: "vcmp (snd f) (snd g) = flat_cmp (snd f) (snd g)"
    using False by (cases "snd f") simp_all
  show ?thesis
    using compare_flat_in [OF f g eq False] t by (simp add: compare_with_def elem_type_in [OF f raw_elem_of] v)
qed

lemma elem_compare_with_in:
  assumes f: "elem_in b p f" and g: "elem_in c q g" and small: "small_doc (snd f)" "small_doc (snd g)"
    and nest: "\<And>o1 o2. obj_in o1 (vfields (snd f)) \<Longrightarrow> obj_in o2 (vfields (snd g)) \<Longrightarrow> canon (snd f) \<in> {20, 25} \<Longrightarrow>
      nest o1 o2 = Some (Ret (fcmp (vfields (snd f)) (vfields (snd g))))"
  shows "elem_compare_with nest names (raw_elem b p) (raw_elem c q) = Some (Ret (ecmp names f g))"
proof (cases "canon (snd f) = canon (snd g)")
  case True
  show ?thesis
    using compare_with_in [OF f g True small nest]
    by (simp add: elem_compare_with_def cmp_canonical_in [OF f g] isNumber_in [OF f] isNumber_in [OF g]
      name_cmp_in [OF f g] True ecmp_def then_cmp_def)
next
  case False
  then have "\<not> is_num (snd f) \<or> \<not> is_num (snd g)"
    by (auto simp: is_num_canon)
  with False show ?thesis
    by (simp add: elem_compare_with_def cmp_canonical_in [OF f g] isNumber_in [OF f] isNumber_in [OF g] ecmp_def)
qed

text \<open>An iterator that stands before the fields \<open>fs\<close> and the EOO byte behind them.\<close>

definition cur :: "BSONObjIterator \<Rightarrow> buf \<Rightarrow> int \<Rightarrow> fields \<Rightarrow> bool" where
  "cur i b p fs \<longleftrightarrow> i = \<lparr>ibuf = b, ipos = p, iend = p + int (length (enc_fields fs))\<rparr> \<and> fields_in b p fs \<and>
     at b (p + int (length (enc_fields fs))) [0]"

definition eoo_elem :: "buf \<Rightarrow> int \<Rightarrow> BSONElement" where
  "eoo_elem b p = \<lparr>ebuf = b, data = p, fnSize = 0, totSize = 1\<rparr>"

lemma cur_step:
  assumes "cur i b p (f # fs)"
  obtains i' where "it_next i = Ret (raw_elem b p, i')" "elem_in b p f" "cur i' b (p + int (length (enc_elem f))) fs"
proof
  let ?i' = "\<lparr>ibuf = b, ipos = p + int (length (enc_elem f)), iend = p + int (length (enc_fields (f # fs)))\<rparr>"
  have f: "elem_in b p f" "fields_in b (p + int (length (enc_elem f))) fs"
    using assms by (simp_all add: cur_def fields_in_Cons)
  show "it_next i = Ret (raw_elem b p, ?i')"
    using assms it_next_in [OF f(1)] by (simp add: cur_def)
  show "elem_in b p f"
    by (rule f)
  show "cur ?i' b (p + int (length (enc_elem f))) fs"
    using assms f(2) by (simp add: cur_def length_enc_fields_Cons algebra_simps del: enc_fields.simps)
qed

lemma eoo_at: "at b p [0] \<Longrightarrow> elem_at b p = Ret (eoo_elem b p)" "at b p [0] \<Longrightarrow> elem_eoo (eoo_elem b p) = Ret True"
  by (simp_all add: elem_at_def eoo_elem_def elem_eoo_def elem_type_def ld8_at bson_type_def type_codes_def schar_def)

lemma cur_end:
  assumes "cur i b p []"
  obtains i' where "it_next i = Ret (eoo_elem b p, i')" "elem_eoo (eoo_elem b p) = Ret True"
proof
  have z: "at b p [0]" "i = \<lparr>ibuf = b, ipos = p, iend = p\<rparr>"
    using assms by (simp_all add: cur_def)
  show "it_next i = Ret (eoo_elem b p, i\<lparr>ipos := p + 1\<rparr>)"
    using eoo_at(1) [OF z(1)] by (simp add: it_next_def z(2) elem_size_def eoo_elem_def)
  show "elem_eoo (eoo_elem b p) = Ret True"
    by (rule eoo_at(2) [OF z(1)])
qed

lemma cur_next:
  assumes "cur i b p fs"
  obtains e i' where "it_next i = Ret (e, i')" "elem_eoo e = Ret (fs = [])"
    "fs \<noteq> [] \<Longrightarrow> e = raw_elem b p \<and> elem_in b p (hd fs) \<and> cur i' b (p + int (length (enc_elem (hd fs)))) (tl fs)"
proof (cases fs)
  case Nil
  then show ?thesis
    using assms that by (metis cur_end)
next
  case (Cons f fs')
  obtain i' where "it_next i = Ret (raw_elem b p, i')" "elem_in b p f" "cur i' b (p + int (length (enc_elem f))) fs'"
    using assms cur_step unfolding Cons by blast
  then show ?thesis
    using that Cons elem_eoo_in [OF _ raw_elem_of] by simp
qed

lemma it_of_cur: "obj_in o1 fs \<Longrightarrow> \<exists>i. it_of o1 = Ret i \<and> cur i (fst o1) (snd o1 + 4) fs"
  using it_of_in [of o1 fs] obj_in_parts(2,3) [of o1 fs] by (simp add: cur_def)

definition key_neg :: "u8 list \<times> bval \<Rightarrow> bool" where
  "key_neg f = dbl_negative (vnum (snd f))"

text \<open>No key pattern, or an iterator on one that has a key for each of the next \<open>n\<close> fields.\<close>

definition key_ok :: "BSONObjIterator option \<Rightarrow> bool list \<Rightarrow> nat \<Rightarrow> bool" where
  "key_ok k negs n \<longleftrightarrow> k = None \<and> negs = [] \<or>
     (\<exists>i b p ks. k = Some i \<and> cur i b p ks \<and> negs = map key_neg ks \<and> n \<le> length ks)"

lemma key_step:
  assumes "key_ok k negs n"
  obtains e k' where "key_next k = Ret (e, k')"
    "0 < n \<Longrightarrow> key_negative k' e = Ret (negs \<noteq> [] \<and> hd negs) \<and> key_ok k' (tl negs) (n - 1)"
proof (cases k)
  case None
  then have "key_next k = Ret (elem_default, None)" "negs = []"
    using assms by (simp_all add: key_next_def key_ok_def)
  then show ?thesis
    using that by (simp add: key_negative_def key_ok_def)
next
  case (Some i)
  then obtain b p ks where c: "cur i b p ks" "negs = map key_neg ks" "n \<le> length ks"
    using assms by (auto simp: key_ok_def)
  obtain e i' where n: "it_next i = Ret (e, i')" "elem_eoo e = Ret (ks = [])"
    "ks \<noteq> [] \<Longrightarrow> e = raw_elem b p \<and> elem_in b p (hd ks) \<and> cur i' b (p + int (length (enc_elem (hd ks)))) (tl ks)"
    using cur_next [OF c(1)] by blast
  show ?thesis
  proof (rule that)
    show "key_next k = Ret (e, Some i')"
      by (simp add: key_next_def Some n(1))
    assume "0 < n"
    then have ks: "ks \<noteq> []"
      using c(3) by auto
    then have "key_negative (Some i') e = Ret (key_neg (hd ks))"
      using n(3) [OF ks] numberDouble_in [of b p "hd ks"] by (simp add: key_negative_def key_neg_def)
    moreover have "key_ok (Some i') (tl negs) (n - 1)"
      unfolding key_ok_def using n(3) [OF ks] c(2,3) by (metis diff_le_mono length_tl map_tl)
    ultimately show "key_negative (Some i') e = Ret (negs \<noteq> [] \<and> hd negs) \<and> key_ok (Some i') (tl negs) (n - 1)"
      using ks c(2) by (simp add: hd_map)
  qed
qed

lemma enter_objs_in:
  assumes o1: "obj_in o1 fs" and o2: "obj_in o2 gs"
    and loop: "\<And>i j. cur i (fst o1) (snd o1 + 4) fs \<Longrightarrow> cur j (fst o2) (snd o2 + 4) gs \<Longrightarrow>
      fs \<noteq> [] \<Longrightarrow> gs \<noteq> [] \<Longrightarrow> loop i j = Some (Ret (kcmp names negs fs gs))"
  shows "enter_objs loop o1 o2 = Some (Ret (kcmp names negs fs gs))"
proof -
  obtain i j where "it_of o1 = Ret i" "cur i (fst o1) (snd o1 + 4) fs" "it_of o2 = Ret j" "cur j (fst o2) (snd o2 + 4) gs"
    using it_of_cur [OF o1] it_of_cur [OF o2] by blast
  then show ?thesis
    using loop by (cases fs; cases gs) (simp_all add: enter_objs_def obj_isEmpty_in [OF o1] obj_isEmpty_in [OF o2])
qed

definition small_fields :: "fields \<Rightarrow> bool" where
  "small_fields fs \<longleftrightarrow> int (length (enc_fields fs)) \<le> BSONObjMaxInternalSize"

lemma small_fields_Cons: "small_fields (f # fs) \<Longrightarrow> small_doc (snd f) \<and> small_fields fs"
  by (simp add: small_fields_def small_doc_def)

lemma small_fields_obj: "obj_in o1 fs \<Longrightarrow> small_fields fs"
  by (simp add: obj_in_def small_fields_def length_enc_obj)

lemma vfields_shorter: "length (enc_fields (vfields v)) < length (enc_fields ((n, v) # fs))"
  by (cases v) simp_all

lemma wo_loop_in:
  assumes "cur i b p fs" "cur j c q gs" "small_fields fs" "small_fields gs"
    and "key_ok k negs (min (length fs) (length gs))"
  shows "wo_loop k names i j = Some (Ret (kcmp names negs fs gs))"
  using assms
proof (induction "length (enc_fields fs)" arbitrary: i b p fs j c q gs k negs names rule: less_induct)
  case less
  obtain l i' where l: "it_next i = Ret (l, i')" "elem_eoo l = Ret (fs = [])"
    "fs \<noteq> [] \<Longrightarrow> l = raw_elem b p \<and> elem_in b p (hd fs) \<and> cur i' b (p + int (length (enc_elem (hd fs)))) (tl fs)"
    using cur_next [OF less.prems(1)] by blast
  obtain r j' where r: "it_next j = Ret (r, j')" "elem_eoo r = Ret (gs = [])"
    "gs \<noteq> [] \<Longrightarrow> r = raw_elem c q \<and> elem_in c q (hd gs) \<and> cur j' c (q + int (length (enc_elem (hd gs)))) (tl gs)"
    using cur_next [OF less.prems(2)] by blast
  obtain e k' where k: "key_next k = Ret (e, k')"
    "0 < min (length fs) (length gs) \<Longrightarrow> key_negative k' e = Ret (negs \<noteq> [] \<and> hd negs) \<and>
       key_ok k' (tl negs) (min (length fs) (length gs) - 1)"
    using key_step [OF less.prems(5)] by blast
  show ?case
  proof (cases "fs = [] \<or> gs = []")
    case True
    then have "kcmp names negs fs gs = (if fs = [] then if gs = [] then 0 else - 1 else 1)"
      by (cases fs; cases gs) simp_all
    then show ?thesis
      using True by (subst wo_loop.simps) (auto simp: l(1,2) r(1,2) k(1))
  next
    case False
    then obtain f fs' g gs' where fg: "fs = f # fs'" "gs = g # gs'"
      by (cases fs; cases gs) auto
    have lf: "l = raw_elem b p" "elem_in b p f" "cur i' b (p + int (length (enc_elem f))) fs'"
      using l(3) by (simp_all add: fg(1))
    have rg: "r = raw_elem c q" "elem_in c q g" "cur j' c (q + int (length (enc_elem g))) gs'"
      using r(3) by (simp_all add: fg(2))
    have sm: "small_doc (snd f)" "small_fields fs'" "small_doc (snd g)" "small_fields gs'"
      using less.prems(3,4) small_fields_Cons by (simp_all add: fg)
    have kk: "key_negative k' e = Ret (negs \<noteq> [] \<and> hd negs)" "key_ok k' (tl negs) (min (length fs') (length gs'))"
      using k(2) by (simp_all add: fg)
    have nest: "enter_objs (wo_loop None True) o1 o2 = Some (Ret (fcmp (vfields (snd f)) (vfields (snd g))))"
      if o: "obj_in o1 (vfields (snd f))" "obj_in o2 (vfields (snd g))" for o1 o2
    proof -
      have "length (enc_fields (vfields (snd f))) < length (enc_fields fs)"
        using vfields_shorter [of "snd f" "fst f" fs'] by (simp add: fg(1))
      then have "enter_objs (wo_loop None True) o1 o2 = Some (Ret (kcmp True [] (vfields (snd f)) (vfields (snd g))))"
        using less.hyps small_fields_obj [OF o(1)] small_fields_obj [OF o(2)]
        by (intro enter_objs_in [OF o]) (blast intro: key_ok_def [THEN iffD2])
      then show ?thesis
        by (simp add: fcmp_kcmp)
    qed
    have cmp: "elem_compare_with (enter_objs (wo_loop None True)) names l r = Some (Ret (ecmp names f g))"
      unfolding lf(1) rg(1) by (rule elem_compare_with_in [OF lf(2) rg(2) sm(1,3)]) (rule nest)
    have rest: "wo_loop k' names i' j' = Some (Ret (kcmp names (tl negs) fs' gs'))"
    proof (rule less.hyps [OF _ lf(3) rg(3) sm(2,4) kk(2)])
      show "length (enc_fields fs') < length (enc_fields fs)"
        by (simp add: fg(1))
    qed
    show ?thesis
      using False by (subst wo_loop.simps) (simp add: l(1,2) r(1,2) k(1) cmp kk(1) rest fg then_cmp_def Let_def)
  qed
qed

lemma obj_empty_it: "\<exists>k. it_of obj_empty = Ret k"
  by (simp add: it_of_def obj_empty_def obj_objsize_def eval_loads)

lemma wo_plain_woCompare: "wo_plain o1 o2 = woCompare o1 o2 obj_empty True"
  using obj_empty_it by (auto simp: wo_plain_def woCompare_def obj_in_empty)

theorem woCompare_in:
  assumes "obj_in o1 fs" "obj_in o2 gs" "obj_in key ks" "ks = [] \<or> min (length fs) (length gs) \<le> length ks"
  shows "woCompare o1 o2 key names = Some (Ret (kcmp names (map key_neg ks) fs gs))"
proof -
  obtain k where k: "it_of key = Ret k" "cur k (fst key) (snd key + 4) ks"
    using it_of_cur [OF assms(3)] by blast
  have ok: "key_ok (if ks = [] then None else Some k) (map key_neg ks) (min (length fs) (length gs))"
    using assms(4) k(2) unfolding key_ok_def by auto
  show ?thesis
    unfolding woCompare_def
  proof (rule enter_objs_in [OF assms(1,2)])
    fix i j
    assume "cur i (fst o1) (snd o1 + 4) fs" "cur j (fst o2) (snd o2 + 4) gs"
    then show "obnd (Some (obj_isEmpty key)) (\<lambda>z. obnd (Some (it_of key)) (\<lambda>k.
        wo_loop (if z then None else Some k) names i j)) = Some (Ret (kcmp names (map key_neg ks) fs gs))"
      using wo_loop_in [OF _ _ small_fields_obj [OF assms(1)] small_fields_obj [OF assms(2)] ok, of i _ _ j _ _ names]
      by (simp add: obj_isEmpty_in [OF assms(3)] k(1))
  qed
qed

lemma wo_plain_in:
  assumes "obj_in o1 fs" "obj_in o2 gs"
  shows "wo_plain o1 o2 = Some (Ret (fcmp fs gs))"
proof -
  have e: "obj_in obj_empty []"
    by (simp add: obj_in_def obj_empty_def enc_obj_def enc_doc_def at_self le32_eq BSONObjMaxInternalSize_def byte_def)
  show ?thesis
    using woCompare_in [OF assms e, of True] by (simp add: wo_plain_woCompare fcmp_kcmp)
qed

lemma elem_woCompare_in:
  assumes "elem_in b p f" "elem_in c q g" "small_doc (snd f)" "small_doc (snd g)"
  shows "elem_woCompare (raw_elem b p) (raw_elem c q) names = Some (Ret (ecmp names f g))"
  unfolding elem_woCompare_def by (rule elem_compare_with_in [OF assms]) (rule wo_plain_in)

lemma compareElementValues_in:
  assumes "elem_in b p f" "elem_in c q g" "canon (snd f) = canon (snd g)" "small_doc (snd f)" "small_doc (snd g)"
  shows "compareElementValues (raw_elem b p) (raw_elem c q) = Some (Ret (vcmp (snd f) (snd g)))"
  unfolding compareElementValues_def by (rule compare_with_in [OF assms]) (rule wo_plain_in)

lemma elem_less_in:
  assumes "elem_in b p f" "elem_in c q g" "small_doc (snd f)" "small_doc (snd g)"
  shows "elem_less (raw_elem b p) (raw_elem c q) = Some (Ret (ecmp False f g < 0))"
  using compareElementValues_in [OF assms(1,2) _ assms(3,4)]
  by (auto simp: elem_less_def cmp_canonical_in [OF assms(1,2)] ecmp_def then_cmp_def)

section \<open>Loops that run into the EOO\<close>

lemma it_while_true:
  assumes "cur i b p fs" "\<And>s. body s (eoo_elem b (p + int (length (enc_fields fs)))) = Some (Ret (Inr (fin s)))"
  shows "it_while (\<lambda>_. True) body s i =
    obnd (run_fields body s b p fs) (\<lambda>r. Some (Ret (Inr (case r of Inl s' \<Rightarrow> fin s' | Inr x \<Rightarrow> x))))"
  using assms
proof (induction fs arbitrary: i p s)
  case Nil
  obtain i' where "it_next i = Ret (eoo_elem b p, i')"
    using cur_end [OF Nil.prems(1)] by blast
  then show ?case
    using Nil.prems(2) [of s] by (subst it_while.simps) simp
next
  case (Cons f fs)
  obtain i' where i': "it_next i = Ret (raw_elem b p, i')" "cur i' b (p + int (length (enc_elem f))) fs"
    using cur_step [OF Cons.prems(1)] by blast
  have fin: "body s (eoo_elem b (p + int (length (enc_elem f)) + int (length (enc_fields fs)))) = Some (Ret (Inr (fin s)))" for s
    using Cons.prems(2) [of s] by (simp only: length_enc_fields_Cons of_nat_add add.assoc)
  show ?case
  proof (cases "body s (raw_elem b p)")
    case (Some r)
    show ?thesis
    proof (cases r)
      case (Ret y)
      then show ?thesis
        using Some Cons.IH [OF i'(2) fin] by (subst it_while.simps) (simp add: i'(1) split: sum.split)
    qed (use Some in \<open>subst it_while.simps, simp add: i'(1)\<close>)+
  qed (subst it_while.simps, simp add: i'(1))
qed

section \<open>Key patterns\<close>

definition od_ok :: "Ordering \<Rightarrow> bool list \<Rightarrow> bool" where
  "od_ok od negs \<longleftrightarrow> od_nkeys od = length negs \<and> (\<forall>i. bit (od_bits od) i \<longleftrightarrow> i < length negs \<and> negs ! i)"

lemma run_make:
  assumes "fields_in b p fs" "od_ok od negs" "length negs + length fs \<le> 32"
  shows "\<exists>od'. run_fields od_make_body od b p fs = Some (Ret (Inl od')) \<and> od_ok od' (negs @ map key_neg fs)"
  using assms
proof (induction fs arbitrary: p od negs)
  case (Cons f fs)
  have f: "elem_in b p f" "fields_in b (p + int (length (enc_elem f))) fs"
    using Cons.prems(1) by (simp_all add: fields_in_Cons)
  define od1 where "od1 = \<lparr>od_bits = (if key_neg f then or (od_bits od) (2 ^ od_nkeys od) else od_bits od), od_nkeys = od_nkeys od + 1\<rparr>"
  have b: "od_make_body od (raw_elem b p) = Some (Ret (Inl od1))"
    using Cons.prems(2,3) by (simp add: od_make_body_def elem_eoo_in [OF f(1) raw_elem_of] numberDouble_in [OF f(1)]
      od_ok_def od1_def key_neg_def)
  have n: "od_nkeys od = length negs" and ob: "\<And>i. bit (od_bits od) i \<longleftrightarrow> i < length negs \<and> negs ! i"
    using Cons.prems(2) by (simp_all add: od_ok_def)
  have bb: "bit (od_bits od1) i \<longleftrightarrow> i < length negs \<and> negs ! i \<or> key_neg f \<and> i = length negs" for i
    by (simp add: od1_def bit_or_iff bit_exp_iff ob n)
  have nk: "od_nkeys od1 = Suc (length negs)"
    by (simp add: od1_def n)
  have "od_ok od1 (negs @ [key_neg f])"
    unfolding od_ok_def bb nk by (auto simp: nth_append)
  then obtain od' where "run_fields od_make_body od1 b (p + int (length (enc_elem f))) fs = Some (Ret (Inl od'))"
      "od_ok od' ((negs @ [key_neg f]) @ map key_neg fs)"
    using Cons.IH [OF f(2), of od1 "negs @ [key_neg f]"] Cons.prems(3) by auto
  then show ?case
    by (simp add: b)
qed simp

lemma od_make_in:
  assumes "obj_in key ks" "length ks \<le> 32"
  shows "\<exists>od. od_make key = Some (Ret od) \<and> od_ok od (map key_neg ks)"
proof -
  obtain i where i: "it_of key = Ret i" "cur i (fst key) (snd key + 4) ks"
    using it_of_cur [OF assms(1)] by blast
  let ?q = "snd key + 4 + int (length (enc_fields ks))"
  have "at (fst key) ?q [0]"
    using i(2) by (simp add: cur_def)
  then have e: "od_make_body od (eoo_elem (fst key) ?q) = Some (Ret (Inr od))" for od
    by (simp add: od_make_body_def eoo_at(2))
  obtain od where "run_fields od_make_body \<lparr>od_bits = 0, od_nkeys = 0\<rparr> (fst key) (snd key + 4) ks = Some (Ret (Inl od))"
      "od_ok od (map key_neg ks)"
    using run_make [OF obj_in_parts(2) [OF assms(1)], of "\<lparr>od_bits = 0, od_nkeys = 0\<rparr>" "[]"] assms(2)
    by (auto simp: od_ok_def)
  then show ?thesis
    using it_while_true [OF i(2), of od_make_body "\<lambda>od. od", OF e] by (simp add: od_make_def i(1))
qed

lemma descending_bit:
  assumes "od_ok od negs" "length negs \<le> 32"
  shows "od_descending od (2 ^ n mod 4294967296) \<noteq> 0 \<longleftrightarrow> n < length negs \<and> negs ! n"
proof (cases "n < 32")
  case True
  then have "(2 :: nat) ^ n < 2 ^ 32"
    by (intro power_strict_increasing) auto
  then have "2 ^ n mod 4294967296 = (2 :: nat) ^ n"
    by simp
  then show ?thesis
    using assms by (simp add: od_descending_def od_ok_def and_exp_eq_0_iff_not_bit)
next
  case False
  then have "(4294967296 :: nat) dvd 2 ^ n"
    using le_imp_power_dvd [of 32 n "2 :: nat"] by simp
  then show ?thesis
    using False assms(2) by (simp add: od_descending_def)
qed

lemma wo_ord_loop_in:
  assumes "cur i b p fs" "cur j c q gs" "small_fields fs" "small_fields gs" "od_ok od negs" "length negs \<le> 32"
  shows "wo_ord_loop od (2 ^ n mod 4294967296) names i j = Some (Ret (kcmp names (drop n negs) fs gs))"
  using assms(1-4)
proof (induction fs arbitrary: i p j q gs n)
  case Nil
  obtain i' where i': "it_next i = Ret (eoo_elem b p, i')" "elem_eoo (eoo_elem b p) = Ret True"
    using cur_end [OF Nil.prems(1)] by blast
  obtain r j' where r: "it_next j = Ret (r, j')" "elem_eoo r = Ret (gs = [])"
    using cur_next [OF Nil.prems(2)] by blast
  show ?case
    by (subst wo_ord_loop.simps) (simp add: i' r)
next
  case (Cons f fs)
  obtain i' where i': "it_next i = Ret (raw_elem b p, i')" "elem_in b p f" "cur i' b (p + int (length (enc_elem f))) fs"
    using cur_step [OF Cons.prems(1)] by blast
  show ?case
  proof (cases gs)
    case Nil
    obtain j' where "it_next j = Ret (eoo_elem c q, j')" "elem_eoo (eoo_elem c q) = Ret True"
      using cur_end Cons.prems(2) unfolding Nil by blast
    then show ?thesis
      by (subst wo_ord_loop.simps) (simp add: i'(1) elem_eoo_in [OF i'(2) raw_elem_of] Nil)
  next
    case (Cons g gs')
    obtain j' where j': "it_next j = Ret (raw_elem c q, j')" "elem_in c q g" "cur j' c (q + int (length (enc_elem g))) gs'"
      using cur_step \<open>cur j c q gs\<close> unfolding Cons by blast
    have sm: "small_doc (snd f)" "small_fields fs" "small_doc (snd g)" "small_fields gs'"
      using Cons.prems(3,4) small_fields_Cons unfolding Cons by blast+
    have m: "2 * (2 ^ n mod 4294967296) mod 4294967296 = (2 :: nat) ^ Suc n mod 4294967296"
      by (simp add: mod_mult_right_eq)
    have k: "kcmp names (drop n negs) (f # fs) (g # gs') =
        then_cmp (if od_descending od (2 ^ n mod 4294967296) \<noteq> 0 then - ecmp names f g else ecmp names f g)
          (kcmp names (drop (Suc n) negs) fs gs')"
    proof (cases "n < length negs")
      case True
      then show ?thesis
        using descending_bit [OF assms(5,6), of n] by (simp add: Cons_nth_drop_Suc [symmetric])
    next
      case False
      then show ?thesis
        using descending_bit [OF assms(5,6), of n] by simp
    qed
    have rest: "wo_ord_loop od (2 * (2 ^ n mod 4294967296) mod 4294967296) names i' j' =
        Some (Ret (kcmp names (drop (Suc n) negs) fs gs'))"
      unfolding m by (rule Cons.IH [OF i'(3) j'(3) sm(2,4)])
    define x where "x = (if od_descending od (2 ^ n mod 4294967296) \<noteq> 0 then - ecmp names f g else ecmp names f g)"
    have "wo_ord_loop od (2 ^ n mod 4294967296) names i j = (if x \<noteq> 0 then Some (Ret x)
        else wo_ord_loop od (2 * (2 ^ n mod 4294967296) mod 4294967296) names i' j')"
      by (subst wo_ord_loop.simps)
        (simp only: i'(1) j'(1) elem_eoo_in [OF i'(2) raw_elem_of] elem_eoo_in [OF j'(2) raw_elem_of]
          elem_woCompare_in [OF i'(2) j'(2) sm(1,3)] obnd_simps prod.case Let_def if_False x_def [symmetric])
    then show ?thesis
      unfolding Cons k rest x_def [symmetric] by (simp add: then_cmp_def)
  qed
qed

theorem woCompare_ord_in:
  assumes "obj_in o1 fs" "obj_in o2 gs" "obj_in key ks" "length ks \<le> 32"
  shows "\<exists>od. od_make key = Some (Ret od) \<and>
    woCompare_ord o1 o2 od names = Some (Ret (kcmp names (map key_neg ks) fs gs))"
proof -
  obtain od where od: "od_make key = Some (Ret od)" "od_ok od (map key_neg ks)"
    using od_make_in [OF assms(3,4)] by blast
  have "woCompare_ord o1 o2 od names = Some (Ret (kcmp names (map key_neg ks) fs gs))"
    unfolding woCompare_ord_def
  proof (rule enter_objs_in [OF assms(1,2)])
    fix i j
    assume "cur i (fst o1) (snd o1 + 4) fs" "cur j (fst o2) (snd o2 + 4) gs"
    then show "wo_ord_loop od 1 names i j = Some (Ret (kcmp names (map key_neg ks) fs gs))"
      using wo_ord_loop_in [OF _ _ small_fields_obj [OF assms(1)] small_fields_obj [OF assms(2)] od(2), of i _ _ j _ _ 0 names]
        assms(4) by simp
  qed
  with od(1) show ?thesis
    by blast
qed

section \<open>Deep equality\<close>

text \<open>
  An undefined field with an empty name is the one element that equals the EOO; after it \<open>equal\<close>
  would run past the end of the shorter object.
\<close>

lemma equal_eoo_in:
  assumes "elem_in b p f" "at c q [0]" "f \<noteq> ([], VUndefined)"
  shows "elem_equal (raw_elem b p) (eoo_elem c q) = Some (Ret False)"
proof -
  have t: "elem_type (eoo_elem c q) = Ret EOO"
    using assms(2) by (simp add: elem_type_def eoo_elem_def ld8_at bson_type_def type_codes_def schar_def)
  have c: "cmp_canonical (raw_elem b p) (eoo_elem c q) = Ret (canon (snd f))"
    unfolding cmp_canonical_def canonical_in [OF assms(1)] by (simp add: elem_canonicalType_def t)
  have n: "elem_isNumber (eoo_elem c q) = Ret False"
    by (simp add: elem_isNumber_def t)
  show ?thesis
  proof (cases "canon (snd f) = 0")
    case True
    then have v: "snd f = VUndefined" "fst f \<noteq> []"
      using assms(3) by (cases "snd f"; cases f; simp)+
    have "elem_fieldName (eoo_elem c q) = Ret ([0], 0)"
      by (simp add: elem_fieldName_def elem_eoo_def t)
    moreover have "c_strcmp (b, p + 1) ([0], 0) = Ret (str_cmp (fst f) [])"
      using c_strcmp_upto0 [OF elem_in_parts(2) [OF assms(1)] at_self [of "[0]"]] assms(1)
      by (simp add: upto0_cname elem_in_def) (simp add: upto0_def)
    ultimately have "name_cmp (raw_elem b p) (eoo_elem c q) = Ret (str_cmp (fst f) [])"
      unfolding name_cmp_def elem_fieldName_in [OF assms(1) raw_elem_of] by simp
    moreover have "str_cmp (fst f) [] \<noteq> 0"
      using v(2) by (cases "fst f") simp_all
    ultimately show ?thesis
      by (simp add: elem_equal_def elem_woCompare_def elem_compare_with_def c n isNumber_in [OF assms(1)] True)
  next
    case False
    then show ?thesis
      by (simp add: elem_equal_def elem_woCompare_def elem_compare_with_def c n isNumber_in [OF assms(1)])
  qed
qed

lemma equal_loop_in:
  assumes "cur i b p fs" "cur j c q gs" "small_fields fs" "small_fields gs" "([], VUndefined) \<notin> set fs"
  shows "equal_loop i j = Some (Ret (fcmp fs gs = 0))"
  using assms
proof (induction fs arbitrary: i p j q gs)
  case Nil
  obtain i' where i': "it_next i = Ret (eoo_elem b p, i')" "elem_eoo (eoo_elem b p) = Ret True"
    using cur_end [OF Nil.prems(1)] by blast
  obtain r j' where r: "it_next j = Ret (r, j')" "elem_eoo r = Ret (gs = [])"
    using cur_next [OF Nil.prems(2)] by blast
  show ?case
    by (subst equal_loop.simps) (simp add: i' r)
next
  case (Cons f fs)
  obtain i' where i': "it_next i = Ret (raw_elem b p, i')" "elem_in b p f" "cur i' b (p + int (length (enc_elem f))) fs"
    using cur_step [OF Cons.prems(1)] by blast
  show ?case
  proof (cases gs)
    case Nil
    have z: "at c q [0]"
      using Cons.prems(2) by (simp add: cur_def Nil)
    obtain j' where "it_next j = Ret (eoo_elem c q, j')"
      using cur_end Cons.prems(2) unfolding Nil by blast
    then show ?thesis
      using equal_eoo_in [OF i'(2) z] Cons.prems(5)
      by (subst equal_loop.simps) (auto simp: i'(1) elem_eoo_in [OF i'(2) raw_elem_of] Nil)
  next
    case (Cons g gs')
    obtain j' where j': "it_next j = Ret (raw_elem c q, j')" "elem_in c q g" "cur j' c (q + int (length (enc_elem g))) gs'"
      using cur_step \<open>cur j c q gs\<close> unfolding Cons by blast
    have sm: "small_doc (snd f)" "small_fields fs" "small_doc (snd g)" "small_fields gs'"
      using Cons.prems(3,4) small_fields_Cons unfolding Cons by blast+
    have "elem_equal (raw_elem b p) (raw_elem c q) = Some (Ret (ecmp True f g = 0))"
      by (simp add: elem_equal_def elem_woCompare_in [OF i'(2) j'(2) sm(1,3)])
    moreover have "equal_loop i' j' = Some (Ret (fcmp fs gs' = 0))"
      using Cons.prems(5) by (intro Cons.IH [OF i'(3) j'(3) sm(2,4)]) simp
    ultimately show ?thesis
      by (subst equal_loop.simps)
        (simp add: i'(1) j'(1) elem_eoo_in [OF i'(2) raw_elem_of] Cons ecmp_def then_cmp_def)
  qed
qed

lemma obj_equal_in:
  assumes "obj_in o1 fs" "obj_in o2 gs" "([], VUndefined) \<notin> set fs"
  shows "obj_equal o1 o2 = Some (Ret (fcmp fs gs = 0))"
proof -
  obtain i j where "it_of o1 = Ret i" "cur i (fst o1) (snd o1 + 4) fs" "it_of o2 = Ret j" "cur j (fst o2) (snd o2 + 4) gs"
    using it_of_cur [OF assms(1)] it_of_cur [OF assms(2)] by blast
  then show ?thesis
    using equal_loop_in [of i _ _ fs j _ _ gs] assms small_fields_obj by (simp add: obj_equal_def)
qed

section \<open>A total preorder\<close>

text \<open>
  Three comparisons of a, b and c with each other (\<open>x\<close> of a and b, \<open>y\<close> of b and c, \<open>z\<close> of a and
  c), and two of a and b in either direction.
\<close>

definition trans3 :: "int \<Rightarrow> int \<Rightarrow> int \<Rightarrow> bool" where
  "trans3 x y z \<longleftrightarrow> (x \<le> 0 \<and> y \<le> 0 \<longrightarrow> z \<le> 0 \<and> (z = 0 \<longleftrightarrow> x = 0 \<and> y = 0))"

definition anti2 :: "int \<Rightarrow> int \<Rightarrow> bool" where
  "anti2 x y \<longleftrightarrow> (x < 0 \<longleftrightarrow> 0 < y) \<and> (x = 0 \<longleftrightarrow> y = 0)"

lemma trans3_then: "trans3 x y z \<Longrightarrow> (x = 0 \<Longrightarrow> y = 0 \<Longrightarrow> z = 0 \<Longrightarrow> trans3 x' y' z') \<Longrightarrow>
    trans3 (then_cmp x x') (then_cmp y y') (then_cmp z z')"
  by (auto simp: trans3_def then_cmp_def)

lemma anti2_then: "anti2 x y \<Longrightarrow> (x = 0 \<Longrightarrow> y = 0 \<Longrightarrow> anti2 x' y') \<Longrightarrow> anti2 (then_cmp x x') (then_cmp y y')"
  by (auto simp: anti2_def then_cmp_def)

named_theorems order_laws \<open>the comparisons of the code are orders\<close>

lemma diff_laws [order_laws]: "trans3 (a - b) (b - c) (a - c)" "anti2 (a - b) (b - a)"
  by (auto simp: trans3_def anti2_def)

lemma three_way_laws [order_laws]:
  "trans3 (three_way a b) (three_way b c) (three_way a c)" "anti2 (three_way a b) (three_way b a)"
  by (auto simp: trans3_def anti2_def three_way_def)

lemma num_laws [order_laws]: "trans3 (num_cmp a b) (num_cmp b c) (num_cmp a c)" "anti2 (num_cmp a b) (num_cmp b a)"
  by (cases a; cases b; cases c; simp add: trans3_def anti2_def three_way_def)+

lemma str_cmp_Nil [simp]: "str_cmp s [] = (if s = [] then 0 else 1)"
  by (cases s) simp_all

lemma str_anti [order_laws]: "anti2 (str_cmp s t) (str_cmp t s)"
  by (induction s t rule: str_cmp.induct) (auto simp: anti2_def split: if_splits)

lemma str_trans [order_laws]: "trans3 (str_cmp s t) (str_cmp t u) (str_cmp s u)"
proof (induction s arbitrary: t u)
  case Nil
  then show ?case
    by (cases t; cases u) (auto simp: trans3_def)
next
  case (Cons x s)
  show ?case
  proof (cases "t = [] \<or> u = []")
    case True
    then show ?thesis
      by (cases t; cases u) (auto simp: trans3_def)
  next
    case False
    then obtain y t' z u' where tu: "t = y # t'" "u = z # u'"
      by (cases t; cases u) auto
    have "trans3 (str_cmp s t') (str_cmp t' u') (str_cmp s u')"
      by (rule Cons.IH)
    then show ?thesis
      unfolding tu trans3_def by (auto dest: less_trans split: if_splits)
  qed
qed

lemma mem_str: "length s = length t \<Longrightarrow> mem_cmp s t = str_cmp s t"
  by (induction s t rule: list_induct2) auto

lemma len_laws [order_laws]:
  "trans3 (len_cmp (length s) (length t) s t) (len_cmp (length t) (length u) t u) (len_cmp (length s) (length u) s u)"
  "anti2 (len_cmp (length s) (length t) s t) (len_cmp (length t) (length s) t s)"
proof -
  have e: "len_cmp (length a) (length b) a b = then_cmp (int (length a) - int (length b)) (str_cmp a b)" for a b
    by (simp add: len_cmp_def then_cmp_def mem_str)
  show "trans3 (len_cmp (length s) (length t) s t) (len_cmp (length t) (length u) t u) (len_cmp (length s) (length u) s u)"
    unfolding e by (intro trans3_then order_laws)
  show "anti2 (len_cmp (length s) (length t) s t) (len_cmp (length t) (length s) t s)"
    unfolding e by (intro anti2_then order_laws)
qed

end
