(* ===== verification/BsonOpsSpec.thy ===== *)
theory BsonOpsSpec
  imports BsonOps BsonBuildSpec BsonOrderSpec
begin

text \<open>
  What the operations of \<open>BsonOps\<close> do to documents: each one that builds a document builds the
  encoding of a list of fields that is a function of the fields it read, and each test is the
  obvious test on the abstract document.
\<close>

section \<open>Appending elements\<close>

text \<open>An append that leaves the builder with the fields \<open>hs\<close> more.\<close>

definition appends :: "BSONObjBuilder \<Rightarrow> u8 list \<Rightarrow> fields \<Rightarrow> fields \<Rightarrow> BSONObjBuilder res \<Rightarrow> bool" where
  "appends ob pre gs hs r \<longleftrightarrow> (\<exists>ob'. r = Ret ob' \<and> builds ob' pre (gs @ hs) \<and> ob_owned ob' = ob_owned ob)"

lemma appends_Nil [simp]: "builds ob pre gs \<Longrightarrow> appends ob pre gs [] (Ret ob)"
  by (simp add: appends_def)

lemma ob_put_ok:
  assumes "builds ob pre gs" "concat cs = enc_fields hs" "wf_fields hs" "fits_in pre (gs @ hs)"
  shows "appends ob pre gs hs (ob_put cs ob)"
proof -
  obtain room where room: "length room = 4" "bb_bytes (ob_b ob) = pre @ room @ enc_fields gs"
    using assms(1) by (auto simp: builds_def)
  have "length (bb_bytes (ob_b ob)) + length (concat cs) \<le> 33554432"
    using assms(2,4) room by (simp add: fits_in_def length_enc_obj)
  then obtain cap where "bb_appends cs (ob_b ob) =
      Ret (ob_b ob\<lparr>bb_bytes := bb_bytes (ob_b ob) @ concat cs, bb_size := cap\<rparr>)"
    using bb_appends_ok assms(1) unfolding builds_def by blast
  moreover have "wf_fields (gs @ hs)"
    using assms(1,3) by (auto simp: builds_def wf_fields_iff)
  ultimately show ?thesis
    using assms(1,2) room by (auto simp: appends_def ob_put_def builds_def)
qed

lemma valuesize_in: "elem_in b p f \<Longrightarrow> elem_valuesize (raw_elem b p) = Ret (int (length (enc_val (snd f))))"
  using elem_size_in [OF _ raw_elem_of, of b p f] elem_fieldNameSize_in [OF _ raw_elem_of, of b p f]
  by (simp add: elem_valuesize_def length_enc_elem)

lemma append_element_ok:
  assumes "builds ob pre gs" "elem_in b p f" "fits_in pre (gs @ [f])"
  shows "appends ob pre gs [f] (ob_append_element (raw_elem b p) ob)"
proof -
  have "at b p (enc_elem f)"
    using assms(2) by (simp add: elem_in_def)
  then have "ldn b p (int (length (enc_elem f))) = Ret (enc_elem f)"
    by (rule ldn_at [OF _ refl])
  moreover have "appends ob pre gs [f] (ob_put [enc_elem f] ob)"
    using assms by (intro ob_put_ok) (auto simp: enc_fields_Cons elem_in_def simp del: enc_fields.simps(2))
  ultimately show ?thesis
    using elem_eoo_in [OF assms(2) raw_elem_of] elem_size_in [OF assms(2) raw_elem_of]
    by (simp add: ob_append_element_def)
qed

lemma appendAs_ok:
  assumes "builds ob pre gs" "elem_in b p f" "cname name" "fits_in pre (gs @ [(name, snd f)])"
  shows "appends ob pre gs [(name, snd f)] (ob_appendAs (raw_elem b p) name ob)"
proof -
  have "ldn b (p + int (length (fst f)) + 2) (int (length (enc_val (snd f)))) = Ret (enc_val (snd f))"
    by (rule ldn_at [OF elem_in_parts(3) [OF assms(2)] refl])
  moreover have "appends ob pre gs [(name, snd f)] (ob_put [[type_byte (btype (snd f))], name @ [0], enc_val (snd f)] ob)"
    using assms by (intro ob_put_ok) (auto simp: elem_in_def)
  ultimately show ?thesis
    using elem_eoo_in [OF assms(2) raw_elem_of] elem_type_in [OF assms(2) raw_elem_of]
      elem_value_in [OF assms(2) raw_elem_of] valuesize_in [OF assms(2)]
    by (simp add: ob_appendAs_def ob_field_def)
qed

lemma appendNull_ok:
  assumes "builds ob pre gs" "cname name" "fits_in pre (gs @ [(name, VNull)])"
  shows "appends ob pre gs [(name, VNull)] (ob_appendNull name ob)"
  unfolding ob_appendNull_def ob_field_def using assms by (intro ob_put_ok) simp_all

section \<open>A loop that appends for each field\<close>

lemma fits_prefix: "fits_in pre (gs @ hs @ ks) \<Longrightarrow> fits_in pre (gs @ hs)"
  by (simp add: fits_in_def length_enc_obj)

definition appends_for :: "(BSONObjBuilder \<Rightarrow> BSONElement \<Rightarrow> (BSONObjBuilder + 'r) run) \<Rightarrow> buf \<Rightarrow>
    fields \<Rightarrow> (u8 list \<times> bval \<Rightarrow> fields) \<Rightarrow> u8 list \<Rightarrow> bool" where
  "appends_for body b fs sel pre \<longleftrightarrow> (\<forall>ob gs p f. f \<in> set fs \<and> builds ob pre gs \<and> elem_in b p f \<and> fits_in pre (gs @ sel f) \<longrightarrow>
     (\<exists>r. body ob (raw_elem b p) = go_on r \<and> appends ob pre gs (sel f) r))"

lemma run_append:
  assumes "appends_for body b hs sel pre" "set fs \<subseteq> set hs" "fields_in b p fs" "builds ob pre gs"
    and "fits_in pre (gs @ concat (map sel fs))"
  shows "\<exists>ob'. run_fields body ob b p fs = Some (Ret (Inl ob')) \<and> builds ob' pre (gs @ concat (map sel fs)) \<and>
    ob_owned ob' = ob_owned ob"
  using assms(2-5)
proof (induction fs arbitrary: p ob gs)
  case (Cons f fs)
  have f: "elem_in b p f" "fields_in b (p + int (length (enc_elem f))) fs" "f \<in> set hs" "set fs \<subseteq> set hs"
    using Cons.prems(1,2) by (simp_all add: fields_in_Cons)
  have fit: "fits_in pre (gs @ sel f)" "fits_in pre ((gs @ sel f) @ concat (map sel fs))"
    using Cons.prems(4) fits_prefix [of pre gs "sel f" "concat (map sel fs)"] by simp_all
  obtain ob1 where ob1: "body ob (raw_elem b p) = Some (Ret (Inl ob1))" "builds ob1 pre (gs @ sel f)" "ob_owned ob1 = ob_owned ob"
    using assms(1) f(1,3) fit(1) Cons.prems(3) unfolding appends_for_def by (fastforce simp: appends_def go_on_def)
  then show ?case
    using Cons.IH [OF f(4,2) ob1(2) fit(2)] by auto
qed simp

lemma build_from_in:
  assumes "obj_in src fs" "length room = 4" "initsize \<le> 33554432" "appends_for body (fst src) fs sel (le32 0)"
    and "int (length (enc_obj (concat (map sel fs)))) \<le> BSONObjMaxInternalSize"
  shows "build_from False room initsize src body = Some (Ret (le32 0 @ enc_obj (concat (map sel fs)), 4))"
    and "obj_in (le32 0 @ enc_obj (concat (map sel fs)), 4) (concat (map sel fs))"
proof -
  obtain ob where ob: "ob_new False room initsize = Ret ob" "builds ob (le32 0) []" "ob_owned ob"
    using ob_new_ok [OF assms(2,3)] .
  have "fits_in (le32 0) ([] @ concat (map sel fs))"
    using assms(5) by (simp add: fits_in_def BSONObjMaxInternalSize_def)
  then obtain ob' where ob': "run_fields body ob (fst src) (snd src + 4) fs = Some (Ret (Inl ob'))"
      "builds ob' (le32 0) (concat (map sel fs))" "ob_owned ob'"
    using run_append [OF assms(4) order_refl obj_in_parts(2) [OF assms(1)] ob(2)] ob(3) by auto
  show "build_from False room initsize src body = Some (Ret (le32 0 @ enc_obj (concat (map sel fs)), 4))"
    "obj_in (le32 0 @ enc_obj (concat (map sel fs)), 4) (concat (map sel fs))"
    using ob_obj_ok [OF ob'(2,3) assms(5)] ob ob'(1)
    by (simp_all add: build_from_def it_of_in [OF assms(1)] it_for_in [OF assms(1)])
qed

section \<open>Selecting fields\<close>

definition found :: "u8 list \<Rightarrow> bval option \<Rightarrow> fields" where
  "found name r = (case r of None \<Rightarrow> [] | Some v \<Rightarrow> [(name, v)])"

lemma finds_cases:
  assumes "finds b e r"
  obtains "r = None" "elem_eoo e = Ret True"
  | m q v where "r = Some v" "e = raw_elem b q" "elem_in b q (m, v)" "elem_eoo e = Ret False"
  using assms elem_eoo_in [OF _ raw_elem_of] by (cases r) (auto simp: finds_def)

lemma go_on_Ret: "Some (Ret (Inl s)) = go_on (Ret s)"
  by (simp add: go_on_def)

text \<open>Looking up a name and appending what is found under another name.\<close>

lemma append_found:
  assumes "finds b e r" "builds ob pre gs" "cname name" "fits_in pre (gs @ found name r)"
  shows "\<exists>x. obnd (Some (elem_eoo e)) (\<lambda>z. if z then Some (Ret (Inl ob)) else go_on (ob_appendAs e name ob)) = go_on x \<and>
    appends ob pre gs (found name r) x"
  using assms(1)
proof (cases rule: finds_cases)
  case 1
  then show ?thesis
    using assms(2) by (auto simp: go_on_Ret found_def intro!: exI [of _ "Ret ob"])
next
  case (2 m q v)
  then show ?thesis
    using appendAs_ok [OF assms(2) 2(3) assms(3)] assms(4) by (auto simp: found_def)
qed

theorem extractFieldsUnDotted_in:
  assumes "obj_in o1 fs" "obj_in pattern ps" "length room = 4" "res = concat (map (\<lambda>p. found [] (map_of fs (fst p))) ps)"
    and "int (length (enc_obj res)) \<le> BSONObjMaxInternalSize"
  shows "extractFieldsUnDotted False room o1 pattern = Some (Ret (le32 0 @ enc_obj res, 4))"
proof -
  have "appends_for (\<lambda>b e. obnd (Some (name_of e)) (\<lambda>n. obnd (getField o1 n) (\<lambda>x. obnd (Some (elem_eoo x)) (\<lambda>z.
     if z then Some (Ret (Inl b)) else go_on (ob_appendAs x [] b))))) (fst pattern) ps (\<lambda>p. found [] (map_of fs (fst p))) (le32 0)"
    unfolding appends_for_def
  proof (intro allI impI, elim conjE)
    fix ob gs p f
    assume a: "builds ob (le32 0) gs" "elem_in (fst pattern) p f" "fits_in (le32 0) (gs @ found [] (map_of fs (fst f)))"
    then obtain e where e: "getField o1 (fst f) = Some (Ret e)" "finds (fst o1) e (map_of fs (fst f))"
      using getField_finds [OF assms(1)] by (auto simp: elem_in_def)
    show "\<exists>r. obnd (Some (name_of (raw_elem (fst pattern) p))) (\<lambda>n. obnd (getField o1 n) (\<lambda>x. obnd (Some (elem_eoo x)) (\<lambda>z.
        if z then Some (Ret (Inl ob)) else go_on (ob_appendAs x [] ob)))) = go_on r \<and>
        appends ob (le32 0) gs (found [] (map_of fs (fst f))) r"
      using append_found [OF e(2) a(1) _ a(3)] e(1) by (simp add: name_of_in [OF a(2)] cname_def)
  qed
  from build_from_in(1) [OF assms(2,3) _ this] assms(4,5) show ?thesis
    by (simp add: extractFieldsUnDotted_def)
qed

text \<open>\<open>extractFields\<close>: the dotted look-up of each name, under the same name, or null for nothing.\<close>

definition extracted :: "fields \<Rightarrow> bool \<Rightarrow> u8 list \<times> bval \<Rightarrow> fields" where
  "extracted fs fillWithNull p = (case dotted_lookup fs (fst p) of Some v \<Rightarrow> [(fst p, v)]
     | None \<Rightarrow> if fillWithNull then [(fst p, VNull)] else [])"

theorem extractFields_in:
  assumes "obj_in o1 fs" "obj_in pattern ps" "length room = 4" "res = concat (map (extracted fs fillWithNull) ps)"
    and "int (length (enc_obj res)) \<le> BSONObjMaxInternalSize"
  shows "extractFields False room o1 pattern fillWithNull = Some (Ret (le32 0 @ enc_obj res, 4))"
proof -
  have "appends_for (\<lambda>b e. obnd (Some (name_of e)) (\<lambda>n. obnd (getFieldDotted o1 n) (\<lambda>x. obnd (Some (elem_eoo x)) (\<lambda>z.
     if \<not> z then go_on (ob_appendAs x n b)
     else if fillWithNull then go_on (ob_appendNull n b) else Some (Ret (Inl b)))))) (fst pattern) ps (extracted fs fillWithNull) (le32 0)"
    unfolding appends_for_def
  proof (intro allI impI, elim conjE)
    fix ob gs p f
    assume a: "builds ob (le32 0) gs" "elem_in (fst pattern) p f" "fits_in (le32 0) (gs @ extracted fs fillWithNull f)"
    then obtain e where e: "getFieldDotted o1 (fst f) = Some (Ret e)" "finds (fst o1) e (dotted_lookup fs (fst f))"
      using getFieldDotted_finds [OF assms(1)] by (auto simp: elem_in_def)
    have name: "cname (fst f)"
      using a(2) by (simp add: elem_in_def)
    have "\<exists>r. obnd (Some (elem_eoo e)) (\<lambda>z. if \<not> z then go_on (ob_appendAs e (fst f) ob)
        else if fillWithNull then go_on (ob_appendNull (fst f) ob) else Some (Ret (Inl ob))) = go_on r \<and>
        appends ob (le32 0) gs (extracted fs fillWithNull f) r"
      using e(2)
    proof (cases rule: finds_cases)
      case 1
      then show ?thesis
        using appendNull_ok [OF a(1) name] a(1,3)
        by (cases fillWithNull) (auto simp: extracted_def go_on_Ret simp del: dotted_lookup.simps intro: exI [of _ "Ret ob"])
    next
      case (2 m q v)
      then show ?thesis
        using appendAs_ok [OF a(1) 2(3) name] a(3) by (auto simp: extracted_def simp del: dotted_lookup.simps)
    qed
    then show "\<exists>r. obnd (Some (name_of (raw_elem (fst pattern) p))) (\<lambda>n. obnd (getFieldDotted o1 n) (\<lambda>x. obnd (Some (elem_eoo x)) (\<lambda>z.
        if \<not> z then go_on (ob_appendAs x n ob)
        else if fillWithNull then go_on (ob_appendNull n ob) else Some (Ret (Inl ob))))) = go_on r \<and>
        appends ob (le32 0) gs (extracted fs fillWithNull f) r"
      using e(1) by (simp add: name_of_in [OF a(2)])
  qed
  from build_from_in(1) [OF assms(2,3) _ this] assms(4,5) show ?thesis
    by (simp add: extractFields_def)
qed

lemma concat_filter: "concat (map (\<lambda>f. if P f then [f] else []) fs) = filter P fs"
  by (induction fs) simp_all

theorem filterFieldsUndotted_in:
  assumes "obj_in o1 fs" "obj_in filt gs" "length room = 4"
  shows "filterFieldsUndotted False room o1 filt inFilter =
    Some (Ret (le32 0 @ enc_obj (filter (\<lambda>f. (fst f \<in> fst ` set gs) = inFilter) fs), 4))"
proof -
  define sel where "sel = (\<lambda>f :: u8 list \<times> bval. if (fst f \<in> fst ` set gs) = inFilter then [f] else [])"
  have c: "concat (map sel fs) = filter (\<lambda>f. (fst f \<in> fst ` set gs) = inFilter) fs"
    unfolding sel_def by (rule concat_filter)
  have "length (enc_fields (filter P hs)) \<le> length (enc_fields hs)" for P and hs :: fields
    by (induction hs) auto
  then have "length (enc_obj (concat (map sel fs))) \<le> length (enc_obj fs)"
    by (simp add: c length_enc_obj)
  then have le: "int (length (enc_obj (concat (map sel fs)))) \<le> BSONObjMaxInternalSize"
    using assms(1) by (simp add: obj_in_def)
  have "appends_for (\<lambda>b e. obnd (Some (name_of e)) (\<lambda>n. obnd (getField filt n) (\<lambda>x. obnd (Some (elem_eoo x)) (\<lambda>z.
     if z \<and> \<not> inFilter \<or> \<not> z \<and> inFilter then go_on (ob_append_element e b) else Some (Ret (Inl b)))))) (fst o1) fs sel (le32 0)"
    unfolding appends_for_def
  proof (intro allI impI, elim conjE)
    fix ob hs p f
    assume a: "builds ob (le32 0) hs" "elem_in (fst o1) p f" "fits_in (le32 0) (hs @ sel f)"
    then obtain e where e: "getField filt (fst f) = Some (Ret e)" "finds (fst filt) e (map_of gs (fst f))"
      using getField_finds [OF assms(2)] by (auto simp: elem_in_def)
    have z: "elem_eoo e = Ret (fst f \<notin> fst ` set gs)"
      using e(2) by (cases rule: finds_cases) (auto simp: map_of_eq_None_iff dest: map_of_SomeD intro: rev_image_eqI)
    show "\<exists>r. obnd (Some (name_of (raw_elem (fst o1) p))) (\<lambda>n. obnd (getField filt n) (\<lambda>x. obnd (Some (elem_eoo x)) (\<lambda>z.
        if z \<and> \<not> inFilter \<or> \<not> z \<and> inFilter then go_on (ob_append_element (raw_elem (fst o1) p) ob) else Some (Ret (Inl ob))))) = go_on r \<and>
        appends ob (le32 0) hs (sel f) r"
      using append_element_ok [OF a(1,2)] a(1,3) e(1)
      by (auto simp: name_of_in [OF a(2)] z sel_def go_on_Ret intro: exI [of _ "Ret ob"] split: if_splits)
  qed
  from build_from_in(1) [OF assms(1,3) _ this le] show ?thesis
    by (simp add: filterFieldsUndotted_def c)
qed

section \<open>Walking nested documents\<close>

lemma code_scope_in:
  assumes "elem_in b p f" "elem_of b p f e" "snd f = VCodeW s gs" "small_doc (snd f)"
  obtains q where "elem_codeWScopeObject e = Ret (b, q)" "obj_in (b, q) gs"
proof -
  let ?v = "p + int (length (fst f)) + 2" and ?q = "p + int (length (fst f)) + 2 + 4 + 4 + int (length s + 1)"
  have e: "enc_val (snd f) = le32 (length s + 9 + length (enc_obj gs)) @ le32 (length s + 1) @ (s @ [0]) @ enc_obj gs"
    using assms(3) by (simp add: enc_str_def enc_obj_def)
  have a: "at b (?v + 4) (le32 (length s + 1) @ (s @ [0]) @ enc_obj gs)" "at b ?q (enc_obj gs)"
  proof -
    note at = elem_in_parts(3) [OF assms(1), unfolded e]
    show 1: "at b (?v + 4) (le32 (length s + 1) @ (s @ [0]) @ enc_obj gs)"
      by (rule at_tail [OF at]) simp
    have 2: "at b (?v + 4 + 4) ((s @ [0]) @ enc_obj gs)"
      by (rule at_tail [OF 1]) simp
    show "at b ?q (enc_obj gs)"
      by (rule at_tail [OF 2]) simp
  qed
  have small: "length s + 1 < 2147483648" "int (length (enc_obj gs)) \<le> BSONObjMaxInternalSize"
    using assms(4) by (simp_all add: small_doc_def e BSONObjMaxInternalSize_def)
  have "ldi32 b (?v + 4) = Ret (int (length s + 1))"
    using a(1) small(1) unfolding at_append by (intro ldi32_at) auto
  moreover have "obj_in (b, ?q) gs"
    using a(2) small(2) assms(1,3) by (simp add: obj_in_def elem_in_def)
  ultimately show ?thesis
    using that elem_type_in [OF assms(1,2)] elem_value_in [OF assms(1,2)] assms(2,3)
    by (auto simp: elem_codeWScopeObject_def elem_of_def obj_init_in)
qed

text \<open>Fields of embedded objects under dotted names.\<close>

fun flatten :: "u8 list \<Rightarrow> fields \<Rightarrow> fields" where
  "flatten base [] = []"
| "flatten base ((n, VObject gs) # fs) = flatten (base @ n @ [0x2E]) gs @ flatten base fs"
| "flatten base ((n, v) # fs) = (base @ n, v) # flatten base fs"

lemma flatten_single: "flatten base ((n, v) # fs) = (case v of VObject gs \<Rightarrow> flatten (base @ n @ [0x2E]) gs
    | _ \<Rightarrow> [(base @ n, v)]) @ flatten base fs"
  by (cases v) simp_all

definition n2d_body :: "u8 list \<Rightarrow> BSONObjBuilder \<Rightarrow> BSONElement \<Rightarrow> (BSONObjBuilder + unit) run" where
  "n2d_body base b e = obnd (Some (elem_type e)) (\<lambda>t. obnd (Some (name_of e)) (\<lambda>n.
       if t = Object then obnd (Some (elem_embeddedObject e)) (\<lambda>o2.
         obnd (nested2dotted b o2 (base @ n @ [0x2E])) (\<lambda>b. Some (Ret (Inl b :: _ + unit))))
       else go_on (ob_appendAs e (base @ n) b)))"

lemma nested2dotted_run:
  assumes "obj_in o1 fs"
  shows "nested2dotted b o1 base = obnd (run_fields (n2d_body base) b (fst o1) (snd o1 + 4) fs) (\<lambda>r.
    case r of Inl b \<Rightarrow> Some (Ret b) | Inr _ \<Rightarrow> Some Stuck)"
  by (subst nested2dotted.simps)
    (simp add: it_of_in [OF assms] it_while_fields [OF obj_in_parts(2) [OF assms]] n2d_body_def [abs_def])

lemma run_flatten:
  assumes "fields_in b p fs" "builds ob pre gs" "cname base" "fits_in pre (gs @ flatten base fs)" "small_fields fs"
  shows "\<exists>ob'. run_fields (n2d_body base) ob b p fs = Some (Ret (Inl ob')) \<and>
    builds ob' pre (gs @ flatten base fs) \<and> ob_owned ob' = ob_owned ob"
  using assms
proof (induction "length (enc_fields fs)" arbitrary: fs p ob gs base rule: less_induct)
  case less
  show ?case
  proof (cases fs)
    case (Cons f hs)
    obtain n v where f: "f = (n, v)"
      by (cases f)
    have in1: "elem_in b p f" "fields_in b (p + int (length (enc_elem f))) hs"
      using less.prems(1) Cons by (simp_all add: fields_in_Cons)
    have sm: "small_doc v" "small_fields hs" and n: "cname n"
      using small_fields_Cons less.prems(5) in1(1) Cons f by (auto simp: elem_in_def)
    let ?here = "case v of VObject hs \<Rightarrow> flatten (base @ n @ [0x2E]) hs | _ \<Rightarrow> [(base @ n, v)]"
    have fit: "fits_in pre (gs @ ?here)" "fits_in pre ((gs @ ?here) @ flatten base hs)"
      using less.prems(4) fits_prefix [of pre gs ?here "flatten base hs"] Cons f flatten_single [of base n v hs] by simp_all
    have "\<exists>ob1. n2d_body base ob (raw_elem b p) = Some (Ret (Inl ob1)) \<and> builds ob1 pre (gs @ ?here) \<and> ob_owned ob1 = ob_owned ob"
    proof (cases "btype v = Object")
      case True
      then obtain ks where v: "v = VObject ks"
        by (cases v) simp_all
      then obtain q where q: "elem_embeddedObject (raw_elem b p) = Ret (b, q)" "obj_in (b, q) ks"
        using nested_obj_in [OF in1(1)] sm(1) f by auto
      have "length (enc_fields ks) < length (enc_fields fs)"
        using vfields_shorter [of v n hs] v Cons f by simp
      then obtain ob1 where "run_fields (n2d_body (base @ n @ [0x2E])) ob b (q + 4) ks = Some (Ret (Inl ob1))"
          "builds ob1 pre (gs @ ?here)" "ob_owned ob1 = ob_owned ob"
        using less.hyps [of ks "q + 4" ob gs "base @ n @ [0x2E]"] obj_in_parts(2) [OF q(2)] less.prems(2,3) fit(1) n
          small_fields_obj [OF q(2)] v by (auto simp: cname_def)
      then show ?thesis
        using elem_type_in [OF in1(1) raw_elem_of] True f q
        by (simp add: n2d_body_def name_of_in [OF in1(1)] nested2dotted_run [OF q(2)])
    next
      case False
      then have h: "?here = [(base @ n, snd f)]"
        using f by (cases v) simp_all
      have "cname (base @ n)"
        using less.prems(3) n by (auto simp: cname_def)
      from appendAs_ok [OF less.prems(2) in1(1) this] fit(1) h
      obtain ob1 where "ob_appendAs (raw_elem b p) (base @ n) ob = Ret ob1" "builds ob1 pre (gs @ ?here)" "ob_owned ob1 = ob_owned ob"
        by (auto simp: appends_def)
      then show ?thesis
        using elem_type_in [OF in1(1) raw_elem_of] False f
        by (simp add: n2d_body_def name_of_in [OF in1(1)] go_on_def)
    qed
    then obtain ob1 where ob1: "n2d_body base ob (raw_elem b p) = Some (Ret (Inl ob1))" "builds ob1 pre (gs @ ?here)" "ob_owned ob1 = ob_owned ob"
      by blast
    have "length (enc_fields hs) < length (enc_fields fs)"
      using Cons by (simp add: length_enc_elem_pos)
    from less.hyps [OF this in1(2) ob1(2) less.prems(3) fit(2) sm(2)] ob1 show ?thesis
      using Cons f flatten_single [of base n v hs] by auto
  qed (use less.prems(2) in simp)
qed

theorem nested2dotted_in:
  assumes "obj_in o1 fs" "builds ob pre gs" "cname base" "fits_in pre (gs @ flatten base fs)"
  shows "\<exists>ob'. nested2dotted ob o1 base = Some (Ret ob') \<and> builds ob' pre (gs @ flatten base fs) \<and> ob_owned ob' = ob_owned ob"
  using run_flatten [OF obj_in_parts(2) [OF assms(1)] assms(2-4) small_fields_obj [OF assms(1)]]
  by (auto simp: nested2dotted_run [OF assms(1)])

text \<open>What \<open>okForStorage\<close> tests: the first field whose name has a dot or a dollar decides for its document.\<close>

fun storable :: "bval \<Rightarrow> bool" and storable_fields :: "fields \<Rightarrow> bool" where
  "storable (VObject fs) = storable_fields fs"
| "storable (VArray fs) = storable_fields fs"
| "storable (VCodeW s fs) = storable_fields fs"
| "storable _ = True"
| "storable_fields [] = True"
| "storable_fields (f # fs) = (if 0x2E \<in> set (fst f) \<or> 0x24 \<in> set (fst f) then fst f = str_ref \<or> fst f = str_dollar_id
     else storable (snd f) \<and> storable_fields fs)"

text \<open>The document inside a value, of whatever of the three kinds.\<close>

fun inner :: "bval \<Rightarrow> fields option" where
  "inner (VObject fs) = Some fs" | "inner (VArray fs) = Some fs" | "inner (VCodeW s fs) = Some fs" | "inner _ = None"

lemma inner_shorter: "inner v = Some gs \<Longrightarrow> length (enc_fields gs) < length (enc_fields ((n, v) # fs))"
  by (cases v) auto

lemma inner_in:
  assumes "elem_in b p f" "elem_of b p f e" "small_doc (snd f)" "inner (snd f) = Some gs"
  obtains q where "(if btype (snd f) = CodeWScope then elem_codeWScopeObject e else elem_embeddedObject e) = Ret (b, q)"
    "obj_in (b, q) gs"
proof (cases "snd f")
  case (VCodeW s hs)
  then show ?thesis
    using code_scope_in [OF assms(1,2) VCodeW assms(3)] assms(4) that by auto
next
  case (VObject hs)
  then have "int (length (enc_obj gs)) \<le> BSONObjMaxInternalSize"
    using assms(3,4) by (simp add: small_doc_def enc_obj_def)
  then show ?thesis
    using embedded_in [OF assms(1,2), of gs] VObject assms(4) that by auto
next
  case (VArray hs)
  then have "int (length (enc_obj gs)) \<le> BSONObjMaxInternalSize"
    using assms(3,4) by (simp add: small_doc_def enc_obj_def)
  then show ?thesis
    using embedded_in [OF assms(1,2), of gs] VArray assms(4) that by auto
qed (use assms(4) in simp_all)

definition ok_body :: "unit \<Rightarrow> BSONElement \<Rightarrow> (unit + bool) run" where
  "ok_body _ e = obnd (Some (name_of e)) (\<lambda>name.
       if 0x2E \<in> set name \<or> 0x24 \<in> set name then Some (Ret (Inr (name = str_ref \<or> name = str_dollar_id)))
       else obnd (Some (elem_mayEncapsulate e)) (\<lambda>m. if \<not> m then Some (Ret (Inl ())) else
         obnd (Some (elem_type e)) (\<lambda>t.
         obnd (Some (if t = CodeWScope then elem_codeWScopeObject e else elem_embeddedObject e)) (\<lambda>o2.
         obnd (okForStorage o2) (\<lambda>k. Some (Ret (if k then Inl () else Inr False)))))))"

lemma okForStorage_run:
  assumes "obj_in o1 fs"
  shows "okForStorage o1 = obnd (run_fields ok_body () (fst o1) (snd o1 + 4) fs) (\<lambda>r.
    case r of Inl _ \<Rightarrow> Some (Ret True) | Inr k \<Rightarrow> Some (Ret k))"
  by (subst okForStorage.simps)
    (simp add: it_of_in [OF assms] it_while_fields [OF obj_in_parts(2) [OF assms]] ok_body_def [abs_def])

lemma okForStorage_result:
  assumes "obj_in o1 fs" "\<exists>r. run_fields ok_body () (fst o1) (snd o1 + 4) fs = Some (Ret r) \<and> (case r of Inl _ \<Rightarrow> True | Inr k \<Rightarrow> k) = x"
  shows "okForStorage o1 = Some (Ret x)"
proof -
  obtain r where "run_fields ok_body () (fst o1) (snd o1 + 4) fs = Some (Ret r)" "(case r of Inl _ \<Rightarrow> True | Inr k \<Rightarrow> k) = x"
    using assms(2) by blast
  then show ?thesis
    by (cases r) (simp_all add: okForStorage_run [OF assms(1)])
qed

lemma run_storable:
  assumes "fields_in b p fs" "small_fields fs"
  shows "\<exists>r. run_fields ok_body () b p fs = Some (Ret r) \<and> (case r of Inl _ \<Rightarrow> True | Inr k \<Rightarrow> k) = storable_fields fs"
  using assms
proof (induction "length (enc_fields fs)" arbitrary: fs p rule: less_induct)
  case less
  show ?case
  proof (cases fs)
    case (Cons f hs)
    have in1: "elem_in b p f" "fields_in b (p + int (length (enc_elem f))) hs"
      using less.prems(1) Cons by (simp_all add: fields_in_Cons)
    have sm: "small_doc (snd f)" "small_fields hs"
      using small_fields_Cons less.prems(2) Cons by auto
    have rest: "\<exists>r. run_fields ok_body () b (p + int (length (enc_elem f))) hs = Some (Ret r) \<and>
        (case r of Inl _ \<Rightarrow> True | Inr k \<Rightarrow> k) = storable_fields hs"
      using less.hyps [OF _ in1(2) sm(2)] Cons by (simp add: length_enc_elem_pos)
    show ?thesis
    proof (cases "0x2E \<in> set (fst f) \<or> 0x24 \<in> set (fst f)")
      case True
      then show ?thesis
        using Cons by (auto simp: ok_body_def name_of_in [OF in1(1)])
    next
      case plain: False
      show ?thesis
      proof (cases "inner (snd f)")
        case None
        then have "ok_body () (raw_elem b p) = Some (Ret (Inl ()))" "storable (snd f)"
          using plain elem_type_in [OF in1(1) raw_elem_of]
          by (cases "snd f"; auto simp: ok_body_def name_of_in [OF in1(1)] elem_mayEncapsulate_def)+
        then show ?thesis
          using plain rest Cons by auto
      next
        case (Some ks)
        then have st: "storable (snd f) = storable_fields ks" and enc: "elem_mayEncapsulate (raw_elem b p) = Ret True"
          using elem_type_in [OF in1(1) raw_elem_of] by (cases "snd f"; simp add: elem_mayEncapsulate_def)+
        obtain q where q: "(if btype (snd f) = CodeWScope then elem_codeWScopeObject (raw_elem b p)
            else elem_embeddedObject (raw_elem b p)) = Ret (b, q)" "obj_in (b, q) ks"
          using inner_in [OF in1(1) raw_elem_of sm(1) Some] .
        have "length (enc_fields ks) < length (enc_fields fs)"
          using inner_shorter [OF Some, of "fst f" hs] Cons by simp
        then have "okForStorage (b, q) = Some (Ret (storable_fields ks))"
          using less.hyps [of ks "q + 4"] obj_in_parts(2) [OF q(2)] small_fields_obj [OF q(2)]
          by (intro okForStorage_result [OF q(2)]) simp
        then have "ok_body () (raw_elem b p) = Some (Ret (if storable_fields ks then Inl () else Inr False))"
          using plain elem_type_in [OF in1(1) raw_elem_of] q(1) by (simp add: ok_body_def name_of_in [OF in1(1)] enc)
        then show ?thesis
          using plain rest Cons st by auto
      qed
    qed
  qed simp
qed

theorem okForStorage_in: "obj_in o1 fs \<Longrightarrow> okForStorage o1 = Some (Ret (storable_fields fs))"
  by (rule okForStorage_result [OF _ run_storable [OF obj_in_parts(2) small_fields_obj]])

section \<open>Validity\<close>

lemma valid_fields:
  assumes "fields_in b p fs" "at b (p + int (length (enc_fields fs))) [0]" "small_fields fs"
  shows "valid_loop \<lparr>ibuf = b, ipos = p, iend = p + int (length (enc_fields fs))\<rparr> = Some (Ret True)"
  using assms
proof (induction "length (enc_fields fs)" arbitrary: fs p rule: less_induct)
  case less
  show ?case
  proof (cases fs)
    case Nil
    then have "elem_at_max b p m = Ret \<lparr>ebuf = b, data = p, fnSize = 0, totSize = 1\<rparr>" "ld8 b p = Ret 0" for m
      using less.prems(2) by (simp_all add: elem_at_max_def ld8_at)
    with Nil show ?thesis
      by (subst valid_loop.simps)
        (simp add: it_moreWithEOO_def it_next_check_def elem_size_max_def elem_validate_def elem_eoo_def elem_type_def
          bson_type_def type_codes_def schar_def Let_def)
  next
    case (Cons f hs)
    let ?n = "int (length (enc_elem f))" and ?q = "p + int (length (enc_fields fs))"
    let ?e = "\<lparr>ebuf = b, data = p, fnSize = int (length (fst f)) + 1, totSize = - 1\<rparr>"
    let ?i = "\<lparr>ibuf = b, ipos = p + ?n, iend = p + ?n + int (length (enc_fields hs))\<rparr>"
    have q: "?q = p + ?n + int (length (enc_fields hs))"
      using Cons by (simp add: length_enc_fields_Cons del: enc_fields.simps)
    have in1: "elem_in b p f" "fields_in b (p + ?n) hs" "at b (p + ?n + int (length (enc_fields hs))) [0]"
      using less.prems(1,2) Cons q by (simp_all add: fields_in_Cons add.assoc del: enc_fields.simps)
    have sm: "small_doc (snd f)" "small_fields hs"
      using small_fields_Cons less.prems(3) Cons by auto
    have of: "elem_of b p f ?e"
      by (simp add: elem_of_def)
    have big: "?q + 1 - p < 2147483648"
      using less.prems(3) by (simp add: small_fields_def BSONObjMaxInternalSize_def)
    have len: "?n = int (length (fst f)) + int (length (enc_val (snd f))) + 2"
      by (simp add: length_enc_elem)
    have nxt: "it_next_check True \<lparr>ibuf = b, ipos = p, iend = ?q\<rparr> = Ret (?e, ?i)"
    proof -
      have "elem_at_max b p (?q + 1 - p) = Ret ?e"
        using elem_at_max_in [OF in1(1), of "?q + 1 - p"] q len by simp
      moreover have "elem_size_max ?e (?q + 1 - p) = Ret ?n"
        using elem_size_max_in [OF in1(1) of _ big] q by simp
      ultimately show ?thesis
        using q len by (simp add: it_next_check_def Let_def)
    qed
    have "int (str_len (snd f)) + 1 < BSONObjMaxInternalSize"
      using sm(1) by (cases "snd f") (auto simp: small_doc_def BSONObjMaxInternalSize_def)
    then have val: "elem_validate ?e = Ret ()"
      by (rule validate_in [OF in1(1) of])
    have rest: "valid_loop ?i = Some (Ret True)"
      using less.hyps [OF _ in1(2,3) sm(2)] Cons by (simp add: length_enc_elem_pos)
    have sub: "catch_false (obnd (Some (it_of o2)) valid_loop) = Some (Ret True)"
      if "obj_in o2 ks" "fst o2 = b" "length (enc_fields ks) < length (enc_fields fs)" for o2 ks
      using less.hyps [OF that(3), of "snd o2 + 4"] obj_in_parts(2,3) [OF that(1)] small_fields_obj [OF that(1)] that(2)
      by (simp add: it_of_in [OF that(1)] catch_false_def)
    have step: "valid_loop \<lparr>ibuf = b, ipos = p, iend = ?q\<rparr> = (if btype (snd f) = Object \<or> btype (snd f) = Array \<or> btype (snd f) = CodeWScope
        then obnd (Some (if btype (snd f) = CodeWScope then elem_codeWScopeObject ?e else elem_embeddedObject ?e)) (\<lambda>o2.
          obnd (catch_false (obnd (Some (it_of o2)) valid_loop)) (\<lambda>k. if k then valid_loop ?i else Some (Ret False)))
        else valid_loop ?i)"
      by (subst valid_loop.simps) (auto simp: it_moreWithEOO_def nxt val elem_eoo_in [OF in1(1) of] elem_isABSONObj_def
          elem_type_in [OF in1(1) of] simp del: enc_fields.simps)
    show ?thesis
    proof (cases "inner (snd f)")
      case None
      then show ?thesis
        using step rest by (cases "snd f") simp_all
    next
      case (Some ks)
      then have t: "btype (snd f) = Object \<or> btype (snd f) = Array \<or> btype (snd f) = CodeWScope"
        by (cases "snd f") simp_all
      obtain q' where q': "(if btype (snd f) = CodeWScope then elem_codeWScopeObject ?e else elem_embeddedObject ?e) = Ret (b, q')"
          "obj_in (b, q') ks"
        using inner_in [OF in1(1) of sm(1) Some] .
      show ?thesis
        using step t rest sub [OF q'(2)] q'(1) inner_shorter [OF Some, of "fst f" hs] Cons by simp
    qed
  qed
qed

theorem obj_valid_in: "obj_in o1 fs \<Longrightarrow> obj_valid o1 = Some (Ret True)"
  using valid_fields [OF obj_in_parts(2,3) small_fields_obj] by (simp add: obj_valid_def it_of_in catch_false_def)

section \<open>Readable keys, renaming, positions\<close>

lemma ob_done_in:
  assumes "builds ob pre fs" "int (length (enc_obj fs)) \<le> BSONObjMaxInternalSize" "length pre \<le> 1024"
  shows "\<exists>ob'. ob_done ob = Ret ((pre @ enc_obj fs, int (length pre)), ob')" "obj_in (pre @ enc_obj fs, int (length pre)) fs"
proof -
  have "fits_in pre fs"
    using assms(2,3) by (simp add: fits_in_def BSONObjMaxInternalSize_def)
  then obtain ob' where ob': "ob__done ob = Ret ob'" "bb_bytes (ob_b ob') = pre @ enc_obj fs" "ob_offset ob' = length pre"
    using ob__done_ok [OF assms(1)] by blast
  have "at (pre @ enc_obj fs @ []) (int (length pre)) (enc_obj fs)"
    by (rule atI) simp
  then show i: "obj_in (pre @ enc_obj fs, int (length pre)) fs"
    using assms by (simp add: obj_in_def builds_def BSONObjMaxInternalSize_def)
  show "\<exists>ob'. ob_done ob = Ret ((pre @ enc_obj fs, int (length pre)), ob')"
    using ob' obj_init_in [OF i] by (simp add: ob_done_def ob_ptr_def)
qed

lemma key_doc_in:
  assumes "cname name" "length name \<le> 100" "length room = 4"
  shows "key_doc False room name = Ret (le32 0 @ enc_obj [(name, VInt 1)], 4)" "obj_in (le32 0 @ enc_obj [(name, VInt 1)], 4) [(name, VInt 1)]"
proof -
  obtain ob where ob: "ob_new False room 512 = Ret ob" "builds ob (le32 0) []" "ob_owned ob"
    using ob_new_ok [OF assms(3), of 512] by auto
  have v: "ob_value (name, VInt 1) ob = ob_append_int name 1 ob"
    by simp
  have "fits_in (le32 0) ([] @ [(name, VInt 1)])" and sz: "int (length (enc_obj [(name, VInt 1)])) \<le> BSONObjMaxInternalSize"
    using assms(2) by (simp_all add: fits_in_def length_enc_obj BSONObjMaxInternalSize_def)
  then obtain ob1 where ob1: "ob_append_int name 1 ob = Ret ob1" "builds ob1 (le32 0) [(name, VInt 1)]"
    using ob_value_ok [OF ob(2) assms(1), of "VInt 1"] v by auto
  show "key_doc False room name = Ret (le32 0 @ enc_obj [(name, VInt 1)], 4)" "obj_in (le32 0 @ enc_obj [(name, VInt 1)], 4) [(name, VInt 1)]"
    using ob_done_in [OF ob1(2) sz] ob(1) ob1(1) by (auto simp: key_doc_def)
qed

lemma append_obj_ok:
  assumes "builds ob pre gs" "obj_in o1 hs" "cname name" "fits_in pre (gs @ [(name, VObject hs)])"
  shows "appends ob pre gs [(name, VObject hs)] (ob_append_obj name o1 ob)"
proof -
  have "wf_fields hs"
    using assms(2) by (simp add: obj_in_def)
  then have "appends ob pre gs [(name, VObject hs)] (ob_put [[type_byte Object], name @ [0], enc_obj hs] ob)"
    using assms by (intro ob_put_ok) (simp_all add: enc_obj_def)
  then show ?thesis
    by (simp add: ob_append_obj_def ob_field_def obj_raw_in [OF assms(2)])
qed

definition readable :: "u8 list \<times> bval \<Rightarrow> u8 list \<times> bval" where
  "readable f = (case snd f of VMinKey \<Rightarrow> (fst f, VObject [(str_minElement, VInt 1)])
     | VMaxKey \<Rightarrow> (fst f, VObject [(str_maxElement, VInt 1)]) | _ \<Rightarrow> f)"

theorem clientReadable_in:
  assumes "obj_in o1 fs" "length room = 4" "int (length (enc_obj (map readable fs))) \<le> BSONObjMaxInternalSize"
  shows "clientReadable False room o1 = Some (Ret (le32 0 @ enc_obj (map readable fs), 4))"
proof -
  have c: "concat (map (\<lambda>f. [readable f]) hs) = map readable hs" for hs
    by (induction hs) simp_all
  have names: "cname str_minElement" "cname str_maxElement" "length str_minElement \<le> 100" "length str_maxElement \<le> 100"
    by (simp_all add: str_minElement_def str_maxElement_def cname_def)
  have "appends_for (\<lambda>b e. obnd (Some (elem_type e)) (\<lambda>t.
     if t = MinKey then obnd (Some (key_doc False room str_minElement)) (\<lambda>m.
       obnd (Some (name_of e)) (\<lambda>n. go_on (ob_append_obj n m b)))
     else if t = MaxKey then obnd (Some (key_doc False room str_maxElement)) (\<lambda>m.
       obnd (Some (name_of e)) (\<lambda>n. go_on (ob_append_obj n m b)))
     else go_on (ob_append_element e b))) (fst o1) fs (\<lambda>f. [readable f]) (le32 0)" (is "appends_for ?body _ _ _ _")
    unfolding appends_for_def
  proof (intro allI impI, elim conjE)
    fix ob gs p f
    assume a: "builds ob (le32 0) gs" "elem_in (fst o1) p f" "fits_in (le32 0) (gs @ [readable f])"
    have name: "cname (fst f)"
      using a(2) by (simp add: elem_in_def)
    note t = elem_type_in [OF a(2) raw_elem_of] name_of_in [OF a(2)]
    consider "snd f = VMinKey" | "snd f = VMaxKey" | "btype (snd f) \<noteq> MinKey" "btype (snd f) \<noteq> MaxKey" "readable f = f"
      by (cases "snd f") (simp_all add: readable_def)
    then show "\<exists>r. ?body ob (raw_elem (fst o1) p) = go_on r \<and> appends ob (le32 0) gs [readable f] r"
    proof cases
      case 1
      then show ?thesis
        using append_obj_ok [OF a(1) key_doc_in(2) name, OF names(1,3) assms(2)] a(3)
        by (auto simp: t readable_def key_doc_in(1) [OF names(1,3) assms(2)])
    next
      case 2
      then show ?thesis
        using append_obj_ok [OF a(1) key_doc_in(2) name, OF names(2,4) assms(2)] a(3)
        by (auto simp: t readable_def key_doc_in(1) [OF names(2,4) assms(2)])
    next
      case 3
      then show ?thesis
        using append_element_ok [OF a(1,2)] a(3) by (auto simp: t)
    qed
  qed
  from build_from_in(1) [OF assms(1,2) _ this] assms(3) show ?thesis
    by (simp add: clientReadable_def c)
qed

text \<open>A field by the position its name has in the index key.\<close>

fun position :: "u8 list \<Rightarrow> fields \<Rightarrow> nat option" where
  "position name [] = None"
| "position name (k # ks) = (if fst k = name then Some 0 else map_option Suc (position name ks))"

lemma it_while_eoo:
  assumes "fields_in b p fs" "at b (p + int (length (enc_fields fs))) [0]"
    and "\<And>s. body s (eoo_elem b (p + int (length (enc_fields fs)))) = Some (Ret (fin s))"
  shows "it_while it_moreWithEOO body s \<lparr>ibuf = b, ipos = p, iend = p + int (length (enc_fields fs))\<rparr> =
    obnd (run_fields body s b p fs) (\<lambda>r. Some (Ret (case r of Inl s' \<Rightarrow> fin s' | Inr x \<Rightarrow> Inr x)))"
  using assms
proof (induction fs arbitrary: p s)
  case Nil
  then have "elem_at b p = Ret (eoo_elem b p)"
    by (simp add: eoo_at)
  moreover have "it_while it_moreWithEOO body s' \<lparr>ibuf = b, ipos = p + 1, iend = p\<rparr> = Some (Ret (Inl s'))" for s'
    by (subst it_while.simps) (simp add: it_moreWithEOO_def)
  ultimately show ?case
    using Nil.prems(3) [of s]
    by (subst it_while.simps) (simp add: it_moreWithEOO_def it_next_def elem_size_def eoo_elem_def split: sum.split)
next
  case (Cons f fs)
  let ?n = "int (length (enc_elem f))" and ?q = "p + int (length (enc_fields (f # fs)))"
  have q: "?q = p + ?n + int (length (enc_fields fs))" "p \<le> ?q"
    by (simp_all add: length_enc_fields_Cons del: enc_fields.simps)
  have in1: "elem_in b p f" "fields_in b (p + ?n) fs" "at b (p + ?n + int (length (enc_fields fs))) [0]"
    using Cons.prems by (simp_all add: fields_in_Cons q(1) del: enc_fields.simps)
  have fin: "body s (eoo_elem b (p + ?n + int (length (enc_fields fs)))) = Some (Ret (fin s))" for s
    using Cons.prems(3) [of s] by (simp only: q(1))
  have nx: "it_next \<lparr>ibuf = b, ipos = p, iend = ?q\<rparr> =
      Ret (raw_elem b p, \<lparr>ibuf = b, ipos = p + ?n, iend = p + ?n + int (length (enc_fields fs))\<rparr>)"
    using it_next_in [OF in1(1), of ?q] q by simp
  have m: "it_moreWithEOO \<lparr>ibuf = b, ipos = p, iend = ?q\<rparr>"
    using q(2) by (simp add: it_moreWithEOO_def)
  show ?case
  proof (cases "body s (raw_elem b p)")
    case (Some r)
    show ?thesis
    proof (cases r)
      case (Ret y)
      then show ?thesis
        using Some Cons.IH [OF in1(2,3) fin]
        by (subst it_while.simps) (simp add: nx m del: enc_fields.simps split: sum.split)
    qed (use Some in \<open>subst it_while.simps, simp add: nx m del: enc_fields.simps\<close>)+
  qed (subst it_while.simps, simp add: nx m del: enc_fields.simps)
qed

lemma run_position:
  assumes "fields_in b p ks" "cname name"
  shows "run_fields (\<lambda>j f. obnd (Some (elem_eoo f)) (\<lambda>z. if z then Some (Ret (Inr None)) else
       obnd (Some (name_is f name)) (\<lambda>y. Some (Ret (if y then Inr (Some j) else Inl (j + 1)))))) j b p ks =
    Some (Ret (case position name ks of None \<Rightarrow> Inl (j + length ks) | Some k \<Rightarrow> Inr (Some (j + k))))"
  using assms(1)
proof (induction ks arbitrary: j p)
  case (Cons k ks)
  then have in1: "elem_in b p k" "fields_in b (p + int (length (enc_elem k))) ks"
    by (simp_all add: fields_in_Cons)
  show ?case
    using Cons.IH [OF in1(2), of "j + 1"] elem_eoo_in [OF in1(1) raw_elem_of]
    by (cases "position name ks") (auto simp: name_is_in [OF in1(1) assms(2)])
qed simp

lemma run_nth:
  assumes "fields_in b p fs"
  shows "\<exists>r. run_fields (\<lambda>j g. obnd (Some (elem_eoo g)) (\<lambda>z. Some (Ret (if z then Inr elem_default
         else if j = 0 then Inr g else Inl (j - 1))))) j b p fs = Some (Ret r) \<and>
    (if j < length fs then \<exists>q. r = Inr (raw_elem b q) \<and> elem_in b q (fs ! j) else r = Inl (j - length fs))"
  using assms
proof (induction fs arbitrary: j p)
  case (Cons f fs)
  then have in1: "elem_in b p f" "fields_in b (p + int (length (enc_elem f))) fs"
    by (simp_all add: fields_in_Cons)
  show ?case
    using Cons.IH [OF in1(2), of "j - 1"] elem_eoo_in [OF in1(1) raw_elem_of] in1(1)
    by (cases j) auto
qed simp

theorem getFieldUsingIndexNames_in:
  assumes "obj_in o1 fs" "obj_in key ks" "cname name"
  shows "\<exists>e. getFieldUsingIndexNames o1 name key = Some (Ret e) \<and>
    finds (fst o1) e (case position name ks of None \<Rightarrow> None | Some j \<Rightarrow> if j < length fs then Some (snd (fs ! j)) else None)"
proof -
  let ?b1 = "\<lambda>(j :: nat) f. obnd (Some (elem_eoo f)) (\<lambda>z. if z then Some (Ret (Inr None)) else
       obnd (Some (name_is f name)) (\<lambda>y. Some (Ret (if y then Inr (Some j) else Inl (j + 1)))))"
  let ?b2 = "\<lambda>(j :: nat) g. obnd (Some (elem_eoo g)) (\<lambda>z. Some (Ret (if z then Inr elem_default
         else if j = 0 then Inr g else Inl (j - 1))))"
  note p1 = obj_in_parts(2,3) [OF assms(2)] and p2 = obj_in_parts(2,3) [OF assms(1)]
  have l1: "it_while it_moreWithEOO ?b1 0 \<lparr>ibuf = fst key, ipos = snd key + 4, iend = snd key + 4 + int (length (enc_fields ks))\<rparr> =
      Some (Ret (Inr (position name ks)))"
    using it_while_eoo [OF p1, of ?b1 "\<lambda>_. Inr None"] p1(2) run_position [OF p1(1) assms(3), of 0]
    by (simp add: eoo_at split: option.split)
  show ?thesis
  proof (cases "position name ks")
    case None
    then show ?thesis
      by (simp add: getFieldUsingIndexNames_def it_of_in [OF assms(2)] l1 finds_def)
  next
    case (Some j)
    obtain r where r: "run_fields ?b2 j (fst o1) (snd o1 + 4) fs = Some (Ret r)"
        "if j < length fs then \<exists>q. r = Inr (raw_elem (fst o1) q) \<and> elem_in (fst o1) q (fs ! j) else r = Inl (j - length fs)"
      using run_nth [OF p2(1), of j] by blast
    have l2: "it_while it_moreWithEOO ?b2 j \<lparr>ibuf = fst o1, ipos = snd o1 + 4, iend = snd o1 + 4 + int (length (enc_fields fs))\<rparr> =
        Some (Ret (Inr (case r of Inl _ \<Rightarrow> elem_default | Inr g \<Rightarrow> g)))"
      using it_while_eoo [OF p2, of ?b2 "\<lambda>_. Inr elem_default"] p2(2) r(1) by (simp add: eoo_at split: sum.split)
    have "finds (fst o1) (case r of Inl _ \<Rightarrow> elem_default | Inr g \<Rightarrow> g) (if j < length fs then Some (snd (fs ! j)) else None)"
      using r(2) by (auto simp: finds_def) (metis prod.collapse)
    then show ?thesis
      using Some by (simp add: getFieldUsingIndexNames_def it_of_in [OF assms(1)] it_of_in [OF assms(2)] l1 l2 Let_def)
  qed
qed

section \<open>What a builder holds so far\<close>

lemma it_while_builder:
  assumes "fields_in b p fs"
  shows "it_while it_more body s \<lparr>ibuf = b, ipos = p, iend = p + int (length (enc_fields fs)) - 1\<rparr>
    = run_fields body s b p fs"
  using assms
proof (induction fs arbitrary: p s)
  case Nil
  then show ?case
    by (subst it_while.simps) (simp add: it_more_def)
next
  case (Cons f fs)
  let ?n = "int (length (enc_elem f))" and ?q = "p + int (length (enc_fields (f # fs))) - 1"
  have q: "?q = p + ?n + int (length (enc_fields fs)) - 1" "p < ?q"
    by (simp_all add: length_enc_fields_Cons length_enc_elem del: enc_fields.simps)
  have in1: "elem_in b p f" "fields_in b (p + ?n) fs"
    using Cons.prems by (simp_all add: fields_in_Cons)
  have "it_next \<lparr>ibuf = b, ipos = p, iend = ?q\<rparr> =
      Ret (raw_elem b p, \<lparr>ibuf = b, ipos = p + ?n, iend = p + ?n + int (length (enc_fields fs)) - 1\<rparr>)"
    using it_next_in [OF in1(1), of ?q] q by simp
  moreover have "it_more \<lparr>ibuf = b, ipos = p, iend = ?q\<rparr>"
    using q(2) by (simp add: it_more_def)
  ultimately show ?case
    by (subst it_while.simps)
       (simp add: Cons.IH [OF in1(2)] del: enc_fields.simps cong: sum.case_cong)
qed

lemma builder_fields:
  assumes "builds ob pre fs" "fits_in pre fs"
  shows "fields_in (bb_bytes (ob_b ob)) (int (length pre) + 4) fs"
    "ob_iterator ob = \<lparr>ibuf = bb_bytes (ob_b ob), ipos = int (length pre) + 4,
       iend = int (length pre) + 4 + int (length (enc_fields fs)) - 1\<rparr>"
proof -
  obtain room where room: "length room = 4" "bb_bytes (ob_b ob) = pre @ room @ enc_fields fs"
    using assms(1) by (auto simp: builds_def)
  have "at ((pre @ room) @ enc_fields fs @ []) (int (length (pre @ room))) (enc_fields fs)"
    by (rule atI) simp
  then show "fields_in (bb_bytes (ob_b ob)) (int (length pre) + 4) fs"
    using room assms by (simp add: fields_in_def builds_def fits_in_def length_enc_obj)
  show "ob_iterator ob = \<lparr>ibuf = bb_bytes (ob_b ob), ipos = int (length pre) + 4,
       iend = int (length pre) + 4 + int (length (enc_fields fs)) - 1\<rparr>"
    using room assms(1) by (simp add: ob_iterator_def it_range_def builds_def)
qed

lemma ob_iterate:
  "builds ob pre fs \<Longrightarrow> fits_in pre fs \<Longrightarrow>
    it_while it_more body s (ob_iterator ob) = run_fields body s (bb_bytes (ob_b ob)) (int (length pre) + 4) fs"
  by (simp only: builder_fields(2) it_while_builder [OF builder_fields(1)])

lemma run_names_only: "fields_in b p fs \<Longrightarrow> run_fields (\<lambda>ns e. obnd (Some (name_of e))
      (\<lambda>n. Some (Ret (Inl (ns @ [n]) :: _ + unit)))) ns b p fs = Some (Ret (Inl (ns @ map fst fs)))"
proof (induction fs arbitrary: ns p)
  case (Cons f fs)
  then have "elem_in b p f" "fields_in b (p + int (length (enc_elem f))) fs"
    by (simp_all add: fields_in_Cons)
  with Cons.IH show ?case
    by (simp add: name_of_in [of b p f])
qed simp

lemma ob_names_in: "builds ob pre fs \<Longrightarrow> fits_in pre fs \<Longrightarrow> ob_names ob = Some (Ret (map fst fs))"
  by (simp add: ob_names_def ob_iterate run_names_only [OF builder_fields(1)])

lemma run_has:
  assumes "fields_in b p fs" "cname name"
  shows "run_fields (\<lambda>_ e. obnd (Some (name_is e name)) (\<lambda>y. Some (Ret (if y then Inr True else Inl ())))) () b p fs =
    Some (Ret (if name \<in> fst ` set fs then Inr True else Inl ()))"
  using assms(1)
proof (induction fs arbitrary: p)
  case (Cons f fs)
  then have in1: "elem_in b p f" "fields_in b (p + int (length (enc_elem f))) fs"
    by (simp_all add: fields_in_Cons)
  with Cons.IH show ?case
    by (auto simp: name_is_in [OF in1(1) assms(2)])
qed simp

theorem ob_hasField_in:
  "builds ob pre fs \<Longrightarrow> fits_in pre fs \<Longrightarrow> cname name \<Longrightarrow> ob_hasField name ob = Some (Ret (name \<in> fst ` set fs))"
  by (simp add: ob_hasField_def ob_iterate run_has [OF builder_fields(1)])

theorem appendElementsUnique_in:
  assumes "builds ob pre gs" "obj_in x fs" "hs = filter (\<lambda>f. fst f \<notin> fst ` set gs) fs" "fits_in pre (gs @ hs)"
  shows "\<exists>ob'. ob_appendElementsUnique x ob = Some (Ret ob') \<and> builds ob' pre (gs @ hs) \<and> ob_owned ob' = ob_owned ob"
proof -
  define sel where "sel = (\<lambda>f :: u8 list \<times> bval. if fst f \<notin> fst ` set gs then [f] else [])"
  have c: "concat (map sel fs) = hs"
    unfolding sel_def assms(3) by (rule concat_filter)
  have names: "ob_names ob = Some (Ret (map fst gs))"
    using fits_prefix [of pre gs "[]" hs] assms(4) by (intro ob_names_in [OF assms(1)]) (simp add: fits_in_def length_enc_obj)
  have "appends_for (\<lambda>b e. obnd (Some (name_of e)) (\<lambda>n.
       if n \<in> set (map fst gs) then Some (Ret (Inl b :: BSONObjBuilder + BSONObjBuilder)) else go_on (ob_append_element e b))) (fst x) fs sel pre"
    unfolding appends_for_def
  proof (intro allI impI, elim conjE)
    fix ob1 ks p f
    assume a: "builds ob1 pre ks" "elem_in (fst x) p f" "fits_in pre (ks @ sel f)"
    then show "\<exists>r. obnd (Some (name_of (raw_elem (fst x) p))) (\<lambda>n.
        if n \<in> set (map fst gs) then Some (Ret (Inl ob1 :: BSONObjBuilder + BSONObjBuilder)) else go_on (ob_append_element (raw_elem (fst x) p) ob1)) = go_on r \<and>
        appends ob1 pre ks (sel f) r"
      using append_element_ok [OF a(1,2)]
      by (auto simp: name_of_in [OF a(2)] sel_def go_on_Ret intro: exI [of _ "Ret ob1"] split: if_splits)
  qed
  from run_append [OF this order_refl obj_in_parts(2) [OF assms(2)] assms(1)] assms(4) show ?thesis
    by (auto simp: c ob_appendElementsUnique_def names it_of_in [OF assms(2)] it_while_fields [OF obj_in_parts(2) [OF assms(2)]])
qed

section \<open>Adding chosen fields\<close>

definition chosen :: "u8 list list \<Rightarrow> u8 list \<times> bval \<Rightarrow> bool" where
  "chosen names f \<longleftrightarrow> fst f \<in> set names \<or> fst f = str_id"

lemma run_add:
  assumes "fields_in b p fs" "builds ob pre (filter (chosen names) ds)" "distinct (map fst (ds @ fs))"
    and "fits_in pre (filter (chosen names) (ds @ fs))"
    and "n = card (set names \<inter> fst ` set ds)" "g = (str_id \<in> fst ` set ds)"
  shows "\<exists>r. run_fields (add_body names) (ob, n, g) b p fs = Some (Ret r) \<and>
    (let (ob', n') = (case r of Inl (b, n, _) \<Rightarrow> (b, n) | Inr x \<Rightarrow> x) in
      builds ob' pre (filter (chosen names) (ds @ fs)) \<and> n' = card (set names \<inter> fst ` set (ds @ fs)) \<and> ob_owned ob' = ob_owned ob)"
  using assms
proof (induction fs arbitrary: p ob ds n g)
  case Nil
  then show ?case
    by simp
next
  case (Cons f fs)
  have in1: "elem_in b p f" "fields_in b (p + int (length (enc_elem f))) fs"
    using Cons.prems(1) by (simp_all add: fields_in_Cons)
  have new: "fst f \<notin> fst ` set ds"
    using Cons.prems(3) by auto
  let ?ds = "ds @ [f]"
  have n': "card (set names \<inter> fst ` set ?ds) = (if fst f \<in> set names then n + 1 else n)"
    using new Cons.prems(5) by (simp add: Int_insert_right)
  have g': "str_id \<in> fst ` set ?ds \<longleftrightarrow> g \<or> fst f = str_id"
    using Cons.prems(6) by auto
  note IH = Cons.IH [OF in1(2), of _ "ds @ [f]"]
  have fit: "fits_in pre (filter (chosen names) ?ds)"
    using Cons.prems(4) fits_prefix [of pre "filter (chosen names) ds" "if chosen names f then [f] else []" "filter (chosen names) fs"]
    by (auto split: if_splits)
  show ?case
  proof (cases "chosen names f")
    case False
    then show ?thesis
      using IH [of ob n g] Cons.prems(2-6) n' g' by (simp add: add_body_def name_of_in [OF in1(1)] chosen_def Let_def)
  next
    case True
    then have "appends ob pre (filter (chosen names) ds) [f] (ob_append_element (raw_elem b p) ob)"
      using append_element_ok [OF Cons.prems(2) in1(1)] fit by simp
    then obtain ob1 where ob1: "ob_append_element (raw_elem b p) ob = Ret ob1"
        "builds ob1 pre (filter (chosen names) ?ds)" "ob_owned ob1 = ob_owned ob"
      using True by (auto simp: appends_def)
    define n1 g1 where "n1 = (if fst f \<in> set names then n + 1 else n)" and "g1 \<longleftrightarrow> g \<or> fst f = str_id"
    have body: "add_body names (ob, n, g) (raw_elem b p) =
        Some (Ret (if n1 = card (set names) \<and> g1 then Inr (ob1, n1) else Inl (ob1, n1, g1)))"
      using True ob1(1) by (auto simp: add_body_def name_of_in [OF in1(1)] chosen_def Let_def n1_def g1_def)
    note n1 = n' [folded n1_def] and g1 = g' [folded g1_def]
    show ?thesis
    proof (cases "n1 = card (set names) \<and> g1")
      case False
      have go: "add_body names (ob, n, g) (raw_elem b p) = Some (Ret (Inl (ob1, n1, g1)))"
        unfolding body if_not_P [OF False] ..
      have step: "run_fields (add_body names) (ob, n, g) b p (f # fs) =
          run_fields (add_body names) (ob1, n1, g1) b (p + int (length (enc_elem f))) fs"
        by (simp add: go)
      have "ds @ f # fs = ?ds @ fs"
        by simp
      from IH [OF ob1(2) Cons.prems(3,4) [unfolded this] n1 [symmetric] g1 [symmetric]] show ?thesis
        unfolding step ob1(3) \<open>ds @ f # fs = ?ds @ fs\<close> .
    next
      case all: True
      have "set names \<subseteq> fst ` set ?ds"
        using all n1 card_subset_eq [of "set names" "set names \<inter> fst ` set ?ds"] by auto
      moreover have "str_id \<in> fst ` set ?ds"
        using all g1 by simp
      ultimately have none: "\<not> chosen names h \<and> fst h \<notin> set names" if "h \<in> set fs" for h
      proof -
        have "fst h \<notin> fst ` set ?ds"
        proof -
          have "fst h \<in> fst ` set fs"
            using that by (rule imageI)
          moreover have "fst ` set ?ds \<inter> fst ` set fs = {}"
            using Cons.prems(3) by auto
          ultimately show ?thesis
            by blast
        qed
        with \<open>set names \<subseteq> fst ` set ?ds\<close> \<open>str_id \<in> fst ` set ?ds\<close> show ?thesis
          unfolding chosen_def by (metis subsetD)
      qed
      then have "filter (chosen names) (ds @ f # fs) = filter (chosen names) ?ds"
        by (simp add: filter_empty_conv)
      moreover have "set names \<inter> fst ` set (ds @ f # fs) = set names \<inter> fst ` set ?ds"
        using none by auto
      ultimately show ?thesis
        using all body ob1(2,3) n1 by simp
    qed
  qed
qed


theorem addFields_in:
  assumes "obj_in frm fs" "distinct (map fst fs)" "[] \<notin> set names" "length room = 4"
    and "n = card (set names \<inter> fst ` set fs)"
  shows "addFields False room False obj_empty frm names =
    Some (Ret (if n = 0 then (0, obj_empty) else (n, (le32 0 @ enc_obj (filter (chosen names) fs), 4))))"
proof -
  obtain ob where ob: "ob_new False room 512 = Ret ob" "builds ob (le32 0) []" "ob_owned ob"
    using ob_new_ok [OF assms(4), of 512] by auto
  have "length (enc_fields (filter P hs)) \<le> length (enc_fields hs)" for P and hs :: fields
    by (induction hs) auto
  then have "length (enc_obj (filter (chosen names) fs)) \<le> length (enc_obj fs)"
    by (simp add: length_enc_obj)
  then have le: "int (length (enc_obj (filter (chosen names) fs))) \<le> BSONObjMaxInternalSize"
    using assms(1) by (simp add: obj_in_def)
  then have fit: "fits_in (le32 0) (filter (chosen names) fs)"
    by (simp add: fits_in_def BSONObjMaxInternalSize_def)
  obtain r where r: "run_fields (add_body names) (ob, 0, False) (fst frm) (snd frm + 4) fs = Some (Ret r)"
      "let (ob', n') = (case r of Inl (b, n, _) \<Rightarrow> (b, n) | Inr x \<Rightarrow> x) in
        builds ob' (le32 0) (filter (chosen names) fs) \<and> n' = n \<and> ob_owned ob' = ob_owned ob"
    using run_add [OF obj_in_parts(2) [OF assms(1)], of ob "le32 0" names "[]" 0 False] ob(2) assms(2,5) fit by auto
  have "str_id \<noteq> []"
    by (simp add: str_id_def)
  then have eoo: "add_body names s (eoo_elem (fst frm) (snd frm + 4 + int (length (enc_fields fs)))) = Some (Ret (Inl s))" for s
    using eoo_at(2) [OF obj_in_parts(3) [OF assms(1)]] assms(3)
    by (cases s) (simp add: add_body_def name_of_def elem_fieldName_def c_strlen_def tail_at_def ldn_def sub_def Let_def)
  have "it_while it_moreWithEOO (add_body names) (ob, 0, False)
      \<lparr>ibuf = fst frm, ipos = snd frm + 4, iend = snd frm + 4 + int (length (enc_fields fs))\<rparr> = Some (Ret r)"
    using it_while_eoo [OF obj_in_parts(2,3) [OF assms(1)], of "add_body names" Inl, OF eoo] r(1)
    by (simp add: sum.case_eq_if)
  moreover obtain ob' where ob': "(case r of Inl (b, n, _) \<Rightarrow> (b, n) | Inr x \<Rightarrow> x) = (ob', n)"
      "builds ob' (le32 0) (filter (chosen names) fs)" "ob_owned ob'"
    using r(2) ob(3) by (auto simp: Let_def split: prod.splits)
  moreover have "bnd (ob__done ob') (\<lambda>b. bnd (obj_init (ob_ptr b)) (\<lambda>o2. Ret (n, o2))) =
      Ret (n, (le32 0 @ enc_obj (filter (chosen names) fs), 4))"
    using ob_obj_ok [OF ob'(2,3) le] ob'(3) by (cases "ob__done ob'") (auto simp: ob_obj_def)
  ultimately show ?thesis
    using ob(1) by (simp add: addFields_def obj_in_empty it_of_in [OF assms(1)])
qed

section \<open>A whole document\<close>

text \<open>A new builder, some appends, \<open>obj()\<close>.\<close>

lemma build_one:
  assumes "\<And>ob. builds ob (le32 0) [] \<Longrightarrow> appends ob (le32 0) [] hs (f ob)" "length room = 4"
    and "int (length (enc_obj hs)) \<le> BSONObjMaxInternalSize"
  shows "bnd (ob_new False room 512) (\<lambda>ob. bnd (f ob) ob_obj) = Ret (le32 0 @ enc_obj hs, 4)"
proof -
  obtain ob where ob: "ob_new False room 512 = Ret ob" "builds ob (le32 0) []" "ob_owned ob"
    using ob_new_ok [OF assms(2), of 512] by auto
  obtain ob1 where "f ob = Ret ob1" "builds ob1 (le32 0) hs" "ob_owned ob1"
    using assms(1) [OF ob(2)] ob(3) by (auto simp: appends_def)
  then show ?thesis
    using ob_obj_ok [of ob1 "le32 0" hs] assms(3) ob(1) by simp
qed

definition dotted_document :: "u8 list \<Rightarrow> BSONObj \<Rightarrow> BSONObj run" where
  "dotted_document room o1 = obnd (Some (ob_new False room 512)) (\<lambda>ob. obnd (nested2dotted ob o1 []) (\<lambda>ob. Some (ob_obj ob)))"

theorem dotted_document_in:
  assumes "obj_in o1 fs" "length room = 4" "int (length (enc_obj (flatten [] fs))) \<le> BSONObjMaxInternalSize"
  shows "dotted_document room o1 = Some (Ret (le32 0 @ enc_obj (flatten [] fs), 4))"
proof -
  obtain ob where ob: "ob_new False room 512 = Ret ob" "builds ob (le32 0) []" "ob_owned ob"
    using ob_new_ok [OF assms(2), of 512] by auto
  have "fits_in (le32 0) ([] @ flatten [] fs)"
    using assms(3) by (simp add: fits_in_def BSONObjMaxInternalSize_def)
  then obtain ob1 where "nested2dotted ob o1 [] = Some (Ret ob1)" "builds ob1 (le32 0) (flatten [] fs)" "ob_owned ob1"
    using nested2dotted_in [OF assms(1) ob(2), of "[]"] ob(3) by (auto simp: cname_def)
  then show ?thesis
    using ob_obj_ok [of ob1 "le32 0" "flatten [] fs"] assms(3) ob(1) by (simp add: dotted_document_def)
qed

end
