(* ===== verification/BsonBoundsSpec.thy ===== *)
theory BsonBoundsSpec
  imports BsonBounds BsonOpsSpec
begin

text \<open>
  What \<open>appendMinForType\<close> and \<open>appendMaxForType\<close> append, that it bounds the values of the type in the
  order of documents, where it does not; and that a number survives its text.
\<close>

section \<open>What is appended\<close>

fun min_value :: "BSONType \<Rightarrow> bval option" where
  "min_value MinKey = Some VMinKey" | "min_value MaxKey = Some VMinKey"
| "min_value NumberInt = Some (VDouble dbl_neg_max_bits)" | "min_value NumberDouble = Some (VDouble dbl_neg_max_bits)"
| "min_value NumberLong = Some (VDouble dbl_neg_max_bits)" | "min_value jstOID = Some (VOID (replicate 12 0))"
| "min_value BoolT = Some (VBool False)" | "min_value Date = Some (VDate 0)" | "min_value jstNULL = Some VNull"
| "min_value Symbol = Some (VString [])" | "min_value StringT = Some (VString [])" | "min_value Object = Some (VObject [])"
| "min_value Array = Some (VArray [])" | "min_value BinData = Some (VBin bin_Function [])"
| "min_value Undefined = Some VUndefined" | "min_value RegEx = Some (VRegEx [] [])"
| "min_value DBRef = Some (VDBRef [] (replicate 12 0))" | "min_value Code = Some (VCode [])"
| "min_value CodeWScope = Some (VCodeW [] [])" | "min_value Timestamp = Some (VTimestamp 0 0)"
| "min_value _ = None"

lemma empty_in: "obj_in obj_empty []"
  by (simp add: obj_in_def obj_empty_def enc_obj_def enc_doc_def at_self le32_eq BSONObjMaxInternalSize_def byte_def)

lemma min_small: "min_value t = Some v \<Longrightarrow> wf_val v \<and> length (enc_val v) \<le> 32"
  by (cases t) (auto simp: enc_str_def cname_def)

lemma append_empty:
  "ob_append_obj name obj_empty ob = ob_put [[type_byte Object], name @ [0], enc_obj []] ob"
  "ob_appendArray name obj_empty ob = ob_put [[type_byte Array], name @ [0], enc_obj []] ob"
  "ob_appendCodeWScope name code obj_empty ob = ob_put [[type_byte CodeWScope], name @ [0],
     le32 (to_u32 (4 + 4 + int (length code) + 1 + 5)), le32 (length code + 1), code @ [0], enc_obj []] ob"
  using obj_raw_in [OF empty_in] obj_objsize_in [OF empty_in]
  by (simp_all add: ob_append_obj_def ob_appendArray_def ob_appendCodeWScope_def ob_field_def length_enc_obj)

lemma append_empty_cstr:
  "ob_append_cstr name ([0], 0) ob = ob_put [[type_byte StringT], name @ [0], le32 1, [0]] ob"
  by (simp add: ob_append_cstr_def ob_append_str_def c_strlen_def tail_at_def ldn_def sub_def ob_field_def to_u32_def)

text \<open>One put of a field's pieces.\<close>

lemma put_value:
  assumes "builds ob pre gs" "cname name" "wf_val v" "length name + length (enc_val v) \<le> 1000" "length pre + length (enc_obj gs) \<le> 33000000"
    and "r = ob_put ([type_byte (btype v)] # (name @ [0]) # cs) ob" "concat cs = enc_val v"
  shows "appends ob pre gs [(name, v)] r"
  unfolding assms(6) using assms(1-5,7) by (intro ob_put_ok) (simp_all add: fits_in_def length_enc_obj)

theorem appendMinForType_ok:
  assumes "builds ob pre gs" "cname name" "length name \<le> 900" "length pre + length (enc_obj gs) \<le> 33000000"
    and "map_of type_codes t = Some ty" "min_value ty = Some v"
  shows "appends ob pre gs [(name, v)] (ob_appendMinForType name t ob)"
proof -
  have sm: "wf_val v" "length name + length (enc_val v) \<le> 1000"
    using min_small [OF assms(6)] assms(3) by auto
  note put = put_value [OF assms(1,2) sm assms(4)]
  have to32: "to_u32 14 = 14"
    by (simp add: to_u32_def)
  show ?thesis
  proof (cases ty)
    case NumberInt then show ?thesis
      using assms(5,6) put [of _ "[le64 (unat dbl_neg_max_bits)]"] by (auto simp: ob_appendMinForType_def ob_append_double_def ob_field_def)
  next
    case NumberDouble then show ?thesis
      using assms(5,6) put [of _ "[le64 (unat dbl_neg_max_bits)]"] by (auto simp: ob_appendMinForType_def ob_append_double_def ob_field_def)
  next
    case NumberLong then show ?thesis
      using assms(5,6) put [of _ "[le64 (unat dbl_neg_max_bits)]"] by (auto simp: ob_appendMinForType_def ob_append_double_def ob_field_def)
  next
    case jstOID then show ?thesis
      using assms(5,6) put [of _ "[replicate 12 0]"] by (auto simp: ob_appendMinForType_def ob_appendOID_def ob_field_def)
  next
    case BoolT then show ?thesis
      using assms(5,6) put [of _ "[[0]]"] by (auto simp: ob_appendMinForType_def ob_appendBool_def ob_field_def)
  next
    case Date then show ?thesis
      using assms(5,6) put [of _ "[le64 0]"] by (auto simp: ob_appendMinForType_def ob_appendDate_def ob_field_def)
  next
    case Timestamp then show ?thesis
      using assms(5,6) put [of _ "[le64 0]"] le64_pair [of 0 0] by (auto simp: ob_appendMinForType_def ob_appendTimestamp_def ob_field_def)
  next
    case Symbol then show ?thesis
      using assms(5,6) put [of _ "[le32 1, [0]]"] by (auto simp: ob_appendMinForType_def append_empty_cstr enc_str_def)
  next
    case StringT then show ?thesis
      using assms(5,6) put [of _ "[le32 1, [0]]"] by (auto simp: ob_appendMinForType_def append_empty_cstr enc_str_def)
  next
    case Object then show ?thesis
      using assms(5,6) put [of _ "[enc_obj []]"] by (auto simp: ob_appendMinForType_def append_empty enc_obj_def)
  next
    case Array then show ?thesis
      using assms(5,6) put [of _ "[enc_obj []]"] by (auto simp: ob_appendMinForType_def append_empty enc_obj_def)
  next
    case BinData then show ?thesis
      using assms(5,6) put [of _ "[le32 0, [bin_Function], []]"]
      by (auto simp: ob_appendMinForType_def ob_appendBinData_def ldn_def sub_def to_u32_def ob_field_def)
  next
    case RegEx then show ?thesis
      using assms(5,6) put [of _ "[[0], [0]]"] by (auto simp: ob_appendMinForType_def ob_appendRegex_def ob_field_def)
  next
    case DBRef then show ?thesis
      using assms(5,6) put [of _ "[le32 1, [0], replicate 12 0]"]
      by (auto simp: ob_appendMinForType_def ob_appendDBRef_def ob_field_def enc_str_def)
  next
    case Code then show ?thesis
      using assms(5,6) put [of _ "[le32 1, [0]]"] by (auto simp: ob_appendMinForType_def ob_appendCode_def ob_field_def enc_str_def)
  next
    case CodeWScope then show ?thesis
      using assms(5,6) put [of _ "[le32 14, le32 1, [0], enc_obj []]"]
      by (auto simp: ob_appendMinForType_def append_empty to32 enc_str_def enc_obj_def)
  next
    case MinKey then show ?thesis
      using assms(5,6) put [of _ "[]"] by (auto simp: ob_appendMinForType_def ob_appendMinKey_def ob_field_def)
  next
    case MaxKey then show ?thesis
      using assms(5,6) put [of _ "[]"] by (auto simp: ob_appendMinForType_def ob_appendMinKey_def ob_field_def)
  next
    case jstNULL then show ?thesis
      using assms(5,6) put [of _ "[]"] by (auto simp: ob_appendMinForType_def ob_appendNull_def ob_field_def)
  next
    case Undefined then show ?thesis
      using assms(5,6) put [of _ "[]"] by (auto simp: ob_appendMinForType_def ob_appendUndefined_def ob_field_def)
  qed (use assms(6) in simp_all)
qed

definition opt_list :: "'a option \<Rightarrow> 'a list" where
  "opt_list x = (case x of None \<Rightarrow> [] | Some y \<Rightarrow> [y])"

definition max_values :: "int \<Rightarrow> bval list" where
  "max_values t = (case map_of type_codes t of
       Some MinKey \<Rightarrow> [VMaxKey] | Some MaxKey \<Rightarrow> [VMaxKey]
     | Some NumberInt \<Rightarrow> [VDouble dbl_max_bits] | Some NumberDouble \<Rightarrow> [VDouble dbl_max_bits]
     | Some NumberLong \<Rightarrow> [VDouble dbl_max_bits] | Some BinData \<Rightarrow> [VOID (replicate 12 0)]
     | Some jstOID \<Rightarrow> [VOID (replicate 12 255)]
     | Some Undefined \<Rightarrow> [VDouble dbl_neg_max_bits, VBool True] | Some jstNULL \<Rightarrow> [VDouble dbl_neg_max_bits, VBool True]
     | Some BoolT \<Rightarrow> [VBool True] | Some Date \<Rightarrow> [VDate (- 1)]
     | Some Symbol \<Rightarrow> [VObject []] | Some StringT \<Rightarrow> [VObject []]
     | Some Code \<Rightarrow> [VCodeW [90, 90, 90] []] | Some CodeWScope \<Rightarrow> [VCodeW [90, 90, 90] []]
     | Some Timestamp \<Rightarrow> [VTimestamp (- 1) (- 1)]
     | _ \<Rightarrow> opt_list (Option.bind (map_of type_codes (i32 (t + 1))) min_value))"

lemma appends_append:
  assumes "appends ob pre gs hs r" "\<And>ob'. builds ob' pre (gs @ hs) \<Longrightarrow> appends ob' pre (gs @ hs) ks (f ob')"
  shows "appends ob pre gs (hs @ ks) (bnd r f)"
  using assms by (fastforce simp: appends_def)

lemma append_bool_ok:
  assumes "builds ob pre gs" "cname name" "length name \<le> 990" "length pre + length (enc_obj gs) \<le> 33000000"
  shows "appends ob pre gs [(name, VBool (n \<noteq> 0))] (ob_appendBool name n ob)"
  by (rule put_value [OF assms(1,2) _ _ assms(4), of _ _ "[[if n \<noteq> 0 then 1 else 0]]"])
    (use assms(3) in \<open>simp_all add: ob_appendBool_def ob_field_def\<close>)

lemma minus_one_word: "unat (- 1 :: u64) = 18446744073709551615" "unat (- 1 :: u32) = 4294967295"
  by (simp_all add: unsigned_minus_1_eq_mask mask_eq_exp_minus_1)

theorem appendMaxForType_ok:
  assumes "builds ob pre gs" "cname name" "length name \<le> 900" "length pre + length (enc_obj gs) \<le> 32000000"
    and "max_values t \<noteq> []"
  shows "appends ob pre gs (map (Pair name) (max_values t)) (ob_appendMaxForType name t ob)"
proof -
  have a4: "length pre + length (enc_obj gs) \<le> 33000000"
    using assms(4) by simp
  note put = put_value [OF assms(1,2) _ _ a4]
  note low = appendMinForType_ok [OF assms(1-3) a4]
  have wf: "wf_val (VCodeW [90, 90, 90] [])"
    by (simp add: cname_def)
  have min16: "appends ob pre gs ([(name, VDouble dbl_neg_max_bits)] @ [(name, VBool True)])
      (bnd (ob_appendMinForType name 16 ob) (ob_appendBool name 1))"
  proof (rule appends_append)
    show "appends ob pre gs [(name, VDouble dbl_neg_max_bits)] (ob_appendMinForType name 16 ob)"
      by (rule low [where ty = NumberInt]) (simp_all add: type_codes_def)
    fix ob' assume b: "builds ob' pre (gs @ [(name, VDouble dbl_neg_max_bits)])"
    show "appends ob' pre (gs @ [(name, VDouble dbl_neg_max_bits)]) [(name, VBool True)] (ob_appendBool name 1 ob')"
      using append_bool_ok [OF b assms(2), of 1] assms(3,4) by (simp add: length_enc_obj)
  qed
  have other: "appends ob pre gs (map (Pair name) (opt_list (Option.bind (map_of type_codes u) min_value))) (ob_appendMinForType name u ob)"
    if "opt_list (Option.bind (map_of type_codes u) min_value) \<noteq> []" for u
    using that low by (auto simp: opt_list_def split: option.splits bind_splits)
  have code: "to_u32 17 = 17"
    by (simp add: to_u32_def)
  show ?thesis
  proof (cases "map_of type_codes t")
    case None then show ?thesis
      using other [of "i32 (t + 1)"] assms(5) by (simp add: max_values_def ob_appendMaxForType_def)
  next
    case (Some ty)
    note m = Some
    show ?thesis
    proof (cases ty)
      case NumberInt then show ?thesis
        using m put [of "VDouble dbl_max_bits" _ "[le64 (unat dbl_max_bits)]"] assms(3)
        by (simp add: ob_appendMaxForType_def max_values_def ob_append_double_def ob_field_def)
    next
      case NumberDouble then show ?thesis
        using m put [of "VDouble dbl_max_bits" _ "[le64 (unat dbl_max_bits)]"] assms(3)
        by (simp add: ob_appendMaxForType_def max_values_def ob_append_double_def ob_field_def)
    next
      case NumberLong then show ?thesis
        using m put [of "VDouble dbl_max_bits" _ "[le64 (unat dbl_max_bits)]"] assms(3)
        by (simp add: ob_appendMaxForType_def max_values_def ob_append_double_def ob_field_def)
    next
      case BinData then show ?thesis
        using m low [of 7 jstOID] by (simp add: ob_appendMaxForType_def max_values_def type_codes_def)
    next
      case jstOID then show ?thesis
        using m put [of "VOID (replicate 12 255)" _ "[replicate 12 255]"] assms(3)
        by (simp add: ob_appendMaxForType_def max_values_def ob_appendOID_def ob_field_def)
    next
      case Undefined then show ?thesis
        using m min16 by (simp add: ob_appendMaxForType_def max_values_def)
    next
      case jstNULL then show ?thesis
        using m min16 by (simp add: ob_appendMaxForType_def max_values_def)
    next
      case BoolT then show ?thesis
        using m append_bool_ok [OF assms(1,2) _ a4, of 1] assms(3) by (simp add: ob_appendMaxForType_def max_values_def)
    next
      case Date then show ?thesis
        using m put [of "VDate (- 1)" _ "[le64 18446744073709551615]"] assms(3)
        by (simp add: ob_appendMaxForType_def max_values_def ob_appendDate_def ob_field_def minus_one_word)
    next
      case Timestamp then show ?thesis
        using m put [of "VTimestamp (- 1) (- 1)" _ "[le64 18446744073709551615]"] assms(3) le64_pair [of 4294967295 4294967295]
        by (simp add: ob_appendMaxForType_def max_values_def ob_appendTimestamp_def ob_field_def minus_one_word)
    next
      case Symbol then show ?thesis
        using m put [of "VObject []" _ "[enc_obj []]"] assms(3)
        by (simp add: ob_appendMaxForType_def max_values_def append_empty enc_obj_def)
    next
      case StringT then show ?thesis
        using m put [of "VObject []" _ "[enc_obj []]"] assms(3)
        by (simp add: ob_appendMaxForType_def max_values_def append_empty enc_obj_def)
    next
      case Code then show ?thesis
        using m wf put [of "VCodeW [90, 90, 90] []" _ "[le32 17, le32 (Suc (Suc (Suc (Suc 0)))), [90, 90, 90] @ [0], enc_obj []]"] assms(3)
        by (simp add: ob_appendMaxForType_def max_values_def append_empty enc_obj_def enc_str_def code)
    next
      case CodeWScope then show ?thesis
        using m wf put [of "VCodeW [90, 90, 90] []" _ "[le32 17, le32 (Suc (Suc (Suc (Suc 0)))), [90, 90, 90] @ [0], enc_obj []]"] assms(3)
        by (simp add: ob_appendMaxForType_def max_values_def append_empty enc_obj_def enc_str_def code)
    next
      case MinKey then show ?thesis
        using m put [of VMaxKey _ "[]"] assms(3) by (simp add: ob_appendMaxForType_def max_values_def ob_appendMaxKey_def ob_field_def)
    next
      case MaxKey then show ?thesis
        using m put [of VMaxKey _ "[]"] assms(3) by (simp add: ob_appendMaxForType_def max_values_def ob_appendMaxKey_def ob_field_def)
    qed (use m other [of "i32 (t + 1)"] assms(5) in \<open>simp_all add: ob_appendMaxForType_def max_values_def\<close>)
  qed
qed

section \<open>Bounds\<close>

lemma str_cmp_low: "length xs = length ys \<Longrightarrow> \<forall>x \<in> set xs. x = 0 \<Longrightarrow> str_cmp xs ys \<le> 0"
proof (induction xs ys rule: list_induct2)
  case (Cons x xs y ys)
  then show ?case
    by (cases "y = 0") (auto simp: word_neq_0_conv)
qed simp

lemma str_cmp_high: "length xs = length ys \<Longrightarrow> \<forall>y \<in> set ys. y = 255 \<Longrightarrow> str_cmp xs ys \<le> 0"
proof (induction xs ys rule: list_induct2)
  case (Cons x xs y ys)
  have m: "(- 1 :: u8) = 255"
    by simp
  have "x \<le> 255"
    unfolding m [symmetric] by (rule word_order.extremum)
  with Cons show ?case
    by (auto simp: not_less)
qed simp

lemma str_cmp_common: "str_cmp (zs @ xs) (zs @ ys) = str_cmp xs ys"
  by (induction zs) simp_all

lemma num_low: "dbl_of_bits (unat dbl_neg_max_bits) = Fin (- dbl_max_units)"
  by (simp add: dbl_neg_max_bits_def dbl_of_bits_def dbl_fraction_def dbl_max_units_def Let_def)

lemma num_high: "dbl_of_bits (unat dbl_max_bits) = Fin dbl_max_units"
  by (simp add: dbl_max_bits_def dbl_of_bits_def dbl_fraction_def dbl_max_units_def Let_def)

text \<open>
  The least value of a type is not above any of its values: but for numbers that are infinite or
  no number, binary data (the subtype is 1, not 0) and code with a scope.
\<close>

theorem min_value_bound:
  assumes "min_value (btype w) = Some v" "wf_val w" "btype w \<noteq> BinData" "btype w \<noteq> CodeWScope" "\<exists>a. vnum w = Fin a"
  shows "ecmp False ([], v) ([], w) \<le> 0"
proof -
  obtain a where a: "vnum w = Fin a" "- dbl_max_units \<le> a"
    using assms(5) vnum_range by blast
  show ?thesis
  proof (cases w)
    case (VOID bs)
    then show ?thesis
      using assms(1,2) mem_str [of "replicate 12 0" bs] str_cmp_low [of "replicate 12 0" bs]
      by (auto simp: ecmp_def then_cmp_def flat_cmp_def)
  next
    case (VDBRef ns oid)
    have mem: "mem_cmp (enc_val (VDBRef [] (replicate 12 0))) (enc_val w) \<le> 0" if "ns = []"
    proof -
      have "str_cmp ((le32 1 @ [0]) @ replicate 12 0) ((le32 1 @ [0]) @ oid) \<le> 0"
        unfolding str_cmp_common using assms(2) VDBRef by (intro str_cmp_low) simp_all
      then show ?thesis
        using assms(2) VDBRef that by (subst mem_str) (simp_all add: enc_str_def)
    qed
    then show ?thesis
      using assms(1,2) VDBRef by (cases ns) (auto simp: ecmp_def then_cmp_def flat_cmp_def len_cmp_def)
  next
    case (VRegEx r f)
    then show ?thesis
      using assms(1) by (auto simp: ecmp_def then_cmp_def flat_cmp_def)
  next
    case (VDate d)
    have "v = VDate 0"
      using assms(1) VDate by simp
    then have "vtime v = 0" "ecmp False ([], v) ([], w) = three_way (int (vtime v)) (int (vtime w))"
      using VDate by (simp_all add: ecmp_def then_cmp_def flat_cmp_def)
    then show ?thesis
      by (simp add: three_way_def)
  next
    case (VTimestamp i u)
    have "v = VTimestamp 0 0"
      using assms(1) VTimestamp by simp
    then have "vtime v = 0" "ecmp False ([], v) ([], w) = three_way (int (vtime v)) (int (vtime w))"
      using VTimestamp by (simp_all add: ecmp_def then_cmp_def flat_cmp_def)
    then show ?thesis
      by (simp add: three_way_def)
  qed (use assms a num_low in \<open>auto simp: ecmp_def then_cmp_def flat_cmp_def three_way_def upto0_def\<close>)
qed

lemma types_unique: "map_of type_codes t = Some ty \<Longrightarrow> ty \<noteq> EOO \<and> (\<forall>i. ty \<noteq> BadType i) \<or> t = 0"
  by (auto simp: type_codes_def split: if_splits)

text \<open>The greatest value, for every type but code with a scope.\<close>

theorem max_value_bound:
  assumes "map_of type_codes t = Some (btype w)" "wf_val w" "btype w \<noteq> CodeWScope"
  shows "max_values t \<noteq> [] \<and> ecmp False ([], w) ([], hd (max_values t)) \<le> 0"
proof -
  have num: "num_cmp (vnum w) (Fin dbl_max_units) \<le> 0"
    using vnum_range [of w] by (cases "vnum w") (auto simp: three_way_def)
  have t: "t = 3 \<or> t = 4 \<or> t = 11 \<or> t = 12" if "btype w \<in> {Object, Array, RegEx, DBRef}"
    using assms(1) that by (auto simp: type_codes_def split: if_splits)
  show ?thesis
  proof (cases w)
    case (VOID bs)
    then show ?thesis
      using assms mem_str [of bs "replicate 12 255"] str_cmp_high [of bs "replicate 12 255"]
      by (auto simp: max_values_def ecmp_def then_cmp_def flat_cmp_def)
  next
    case (VDate d)
    have "ecmp False ([], w) ([], hd (max_values t)) = three_way (int (vtime w)) 18446744073709551615" "max_values t \<noteq> []"
      using assms(1) VDate by (simp_all add: max_values_def ecmp_def then_cmp_def flat_cmp_def minus_one_word del: of_nat_unat)
    then show ?thesis
      using vtime_less [of w] by (simp add: three_way_def)
  next
    case (VTimestamp i u)
    have "ecmp False ([], w) ([], hd (max_values t)) = three_way (int (vtime w)) 18446744073709551615" "max_values t \<noteq> []"
      using assms(1) VTimestamp by (simp_all add: max_values_def ecmp_def then_cmp_def flat_cmp_def minus_one_word)
    then show ?thesis
      using vtime_less [of w] by (simp add: three_way_def)
  next
    case (VObject gs)
    then show ?thesis
      using assms t by (auto simp: max_values_def ecmp_def then_cmp_def type_codes_def opt_list_def i32_id)
  next
    case (VArray gs)
    then show ?thesis
      using assms t by (auto simp: max_values_def ecmp_def then_cmp_def type_codes_def opt_list_def i32_id)
  next
    case (VRegEx r f)
    then show ?thesis
      using assms t by (auto simp: max_values_def ecmp_def then_cmp_def type_codes_def opt_list_def i32_id)
  next
    case (VDBRef r f)
    then show ?thesis
      using assms t by (auto simp: max_values_def ecmp_def then_cmp_def type_codes_def opt_list_def i32_id)
  qed (use assms num num_high in \<open>auto simp: max_values_def ecmp_def then_cmp_def flat_cmp_def\<close>)
qed

text \<open>The exceptions: what the code takes for the least or the greatest value is not.\<close>

lemma bounds_missed:
  "ecmp False ([], VBin bin_Function []) ([], VBin 0 []) > 0"
  "ecmp False ([], VDouble dbl_neg_max_bits) ([], VDouble 0xFFF0000000000000) > 0"
  "ecmp False ([], VCodeW [0x61] []) ([], hd (max_values 15)) > 0"
proof -
  show "ecmp False ([], VBin bin_Function []) ([], VBin 0 []) > 0"
    by (simp add: ecmp_def then_cmp_def flat_cmp_def len_cmp_def bin_Function_def)
  have "dbl_of_bits (unat (0xFFF0000000000000 :: u64)) = Infty True"
    by (simp add: dbl_of_bits_def)
  then show "ecmp False ([], VDouble dbl_neg_max_bits) ([], VDouble 0xFFF0000000000000) > 0"
    by (simp add: ecmp_def then_cmp_def flat_cmp_def num_low)
  show "ecmp False ([], VCodeW [0x61] []) ([], hd (max_values 15)) > 0"
    by (simp add: ecmp_def then_cmp_def flat_cmp_def max_values_def type_codes_def)
qed

section \<open>Numbers and their text\<close>

definition int_text :: "int \<Rightarrow> u8 list" where
  "int_text i = (if i < 0 then 0x2D # numStr (nat (- i)) else numStr (nat i))"

lemma digits_rev_numeral:
  "digits_rev (numeral k) n = of_nat (48 + n mod 10) # (if n < 10 then [] else digits_rev (pred_numeral k) (n div 10))"
  unfolding numeral_eq_Suc [of k] by (rule digits_rev.simps)

lemma num_value_snoc: "num_value (cs @ [c]) = num_value cs * 10 + (unat c - 48)"
  by (simp add: num_value_def)

lemma digit_unat: "d < 10 \<Longrightarrow> unat (of_nat (48 + d) :: u8) = 48 + d"
  unfolding unat_of_nat by simp

lemma digits_rev_value: "n < 10 ^ k \<Longrightarrow> num_value (rev (digits_rev k n)) = n"
proof (induction k arbitrary: n)
  case (Suc k)
  have "unat (of_nat (48 + n mod 10) :: u8) - 48 = n mod 10"
    using digit_unat [of "n mod 10"] by simp
  then show ?case
    using Suc.IH [of "n div 10"] Suc.prems by (simp add: num_value_snoc) (simp add: num_value_def)
qed (simp add: num_value_def)

lemma digits_rev_digits: "\<forall>c \<in> set (digits_rev k n). c_isdigit c"
proof (induction k arbitrary: n)
  case (Suc k)
  have "c_isdigit (of_nat (48 + n mod 10))"
    using digit_unat [of "n mod 10"] by (simp add: c_isdigit_def word_le_nat_alt)
  with Suc show ?case
    by simp
qed simp

lemma number_scan_digits: "\<forall>c \<in> set cs. c_isdigit c \<Longrightarrow> number_scan k cs = Some k"
  by (induction cs) simp_all

lemma numStr_facts:
  assumes "n < 10 ^ 20"
  shows "num_value (numStr n) = n" "number_scan k (numStr n) = Some k" "numStr n \<noteq> []" "0x2D \<notin> set (numStr n)"
proof -
  show "num_value (numStr n) = n"
    unfolding numStr_def by (rule digits_rev_value [OF assms])
  have d: "\<forall>c \<in> set (numStr n). c_isdigit c"
    using digits_rev_digits [of 20 n] by (simp add: numStr_def)
  then show "number_scan k (numStr n) = Some k"
    by (rule number_scan_digits)
  show "0x2D \<notin> set (numStr n)"
    using d by (auto simp: c_isdigit_def)
  show "numStr n \<noteq> []"
  proof -
    have "(20 :: nat) = Suc 19"
      by simp
    then have "digits_rev 20 n \<noteq> []"
      by (metis digits_rev.simps(2) list.distinct(1))
    then show ?thesis
      by (simp add: numStr_def)
  qed
qed

lemma text_int_of:
  assumes "\<bar>i\<bar> < 10 ^ 20"
  shows "text_int (int_text i) = i" "int_text i \<noteq> []" "int_text i \<noteq> [0x2D]"
    "number_scan False (if hd (int_text i) = 0x2D then tl (int_text i) else int_text i) = Some False"
proof -
  define n where "n = nat \<bar>i\<bar>"
  have n: "n < 10 ^ 20"
    using assms by (simp add: n_def nat_less_iff)
  note f = numStr_facts [OF n]
  have "int_text i = (if i < 0 then 0x2D # numStr n else numStr n)"
    by (simp add: int_text_def n_def)
  moreover have "hd (numStr n) \<noteq> 0x2D"
    using f(3,4) by (cases "numStr n") auto
  ultimately show "text_int (int_text i) = i" "int_text i \<noteq> []" "int_text i \<noteq> [0x2D]"
    "number_scan False (if hd (int_text i) = 0x2D then tl (int_text i) else int_text i) = Some False"
    using f by (auto simp: text_int_def n_def split: list.splits)
qed

lemma to_u_word: "to_u32 i = unat (of_int i :: u32)" "to_u64 i = unat (of_int i :: u64)"
  by (simp_all add: to_u32_def to_u64_def unsigned_of_int take_bit_eq_mod)

theorem appendAsNumber_int:
  assumes "builds ob pre gs" "cname name" "length name \<le> 900" "length pre + length (enc_obj gs) \<le> 33000000"
    and "- 9223372036854775808 \<le> i" "i \<le> 9223372036854775807"
  shows "\<exists>ob'. ob_appendAsNumber atof name (int_text i) ob = Ret (True, ob') \<and> builds ob' pre (gs @
    [(name, if length (int_text i) < 8 then VInt (of_int i) else VLong (of_int i))]) \<and> ob_owned ob' = ob_owned ob"
proof -
  have "\<bar>i\<bar> < 10 ^ 20"
    using assms(5,6) by simp
  note t = text_int_of [OF this]
  have a: "appends ob pre gs [(name, VInt (of_int i))] (ob_append_int name i ob)"
    by (rule put_value [OF assms(1,2) _ _ assms(4), of _ _ "[le32 (to_u32 i)]"])
      (use assms(3) in \<open>simp_all add: ob_append_int_def ob_field_def to_u_word\<close>)
  have b: "appends ob pre gs [(name, VLong (of_int i))] (ob_append_ll name i ob)"
    by (rule put_value [OF assms(1,2) _ _ assms(4), of _ _ "[le64 (to_u64 i)]"])
      (use assms(3) in \<open>simp_all add: ob_append_ll_def ob_field_def to_u_word\<close>)
  have e: "ob_appendAsNumber atof name (int_text i) ob = bnd (if length (int_text i) < 8
      then ob_append_int name i ob else ob_append_ll name i ob) (\<lambda>ob. Ret (True, ob))"
    using t assms(5,6) by (simp add: ob_appendAsNumber_def)
  show ?thesis
    using a b unfolding e by (auto simp: appends_def)
qed

section \<open>In whole documents\<close>

lemma one_field_small: "length name \<le> 900 \<Longrightarrow> length (enc_val v) \<le> 100 \<Longrightarrow> int (length (enc_obj [(name, v)])) \<le> BSONObjMaxInternalSize"
  by (simp add: length_enc_obj BSONObjMaxInternalSize_def)

lemma min_built:
  assumes "map_of type_codes t = Some ty" "min_value ty = Some v" "cname name" "length name \<le> 900" "length room = 4"
  shows "bnd (ob_new False room 512) (\<lambda>ob. bnd (ob_appendMinForType name t ob) ob_obj) = Ret (le32 0 @ enc_obj [(name, v)], 4)"
proof (rule build_one [OF _ assms(5)])
  show "appends ob (le32 0) [] [(name, v)] (ob_appendMinForType name t ob)" if "builds ob (le32 0) []" for ob
    using that by (rule appendMinForType_ok) (use assms in \<open>simp_all add: length_enc_obj\<close>)
  show "int (length (enc_obj [(name, v)])) \<le> BSONObjMaxInternalSize"
    using one_field_small assms(4) min_small [OF assms(2)] by fastforce
qed

lemma min_value_known: "\<exists>v. min_value (btype w) = Some v"
  by (cases w) auto

lemma max_small: "max_values t \<noteq> [] \<Longrightarrow> length (max_values t) \<le> 2 \<and> (\<forall>v \<in> set (max_values t). length (enc_val v) \<le> 32)"
  using min_small by (auto simp: max_values_def opt_list_def enc_str_def split: option.splits BSONType.splits bind_splits)

lemma max_built:
  assumes "max_values t \<noteq> []" "cname name" "length name \<le> 900" "length room = 4"
  shows "bnd (ob_new False room 512) (\<lambda>ob. bnd (ob_appendMaxForType name t ob) ob_obj) =
    Ret (le32 0 @ enc_obj (map (Pair name) (max_values t)), 4)"
proof -
  obtain v vs where m: "max_values t = v # vs"
    using assms(1) by (cases "max_values t") auto
  have "length vs \<le> 1" "\<forall>u \<in> set (v # vs). length (enc_val u) \<le> 32"
    using max_small [of t] m by auto
  then have "int (length (enc_obj (map (Pair name) (v # vs)))) \<le> BSONObjMaxInternalSize"
    using assms(3) by (cases vs) (auto simp: length_enc_obj BSONObjMaxInternalSize_def)
  then show ?thesis
    using appendMaxForType_ok [OF _ assms(2,3), of _ "le32 0" "[]" t] m
    by (intro build_one [OF _ assms(4)]) (simp_all add: length_enc_obj)
qed

text \<open>Every type has a greatest value; undefined and null have two, one of them no such value.\<close>

lemma max_values_known:
  assumes "map_of type_codes t = Some (btype w)" "wf_val w"
  shows "max_values t \<noteq> []"
proof (cases "btype w = CodeWScope")
  case True
  with assms(1) show ?thesis
    by (simp add: max_values_def)
qed (use max_value_bound [OF assms] in simp)

lemma number_text:
  assumes "- 9223372036854775808 \<le> i" "i \<le> 9223372036854775807" "cname name" "length name \<le> 900" "length room = 4"
  shows "bnd (ob_new False room 512) (\<lambda>ob. bnd (ob_appendAsNumber atof name (int_text i) ob) (\<lambda>(k, ob).
      if k then ob_obj ob else Stuck)) =
    Ret (le32 0 @ enc_obj [(name, if length (int_text i) < 8 then VInt (of_int i) else VLong (of_int i))], 4)"
proof -
  let ?v = "if length (int_text i) < 8 then VInt (of_int i) else VLong (of_int i)"
  obtain ob where ob: "ob_new False room 512 = Ret ob" "builds ob (le32 0) []" "ob_owned ob"
    using ob_new_ok [OF assms(5), of 512] by auto
  obtain ob1 where ob1: "ob_appendAsNumber atof name (int_text i) ob = Ret (True, ob1)" "builds ob1 (le32 0) [(name, ?v)]" "ob_owned ob1"
    using appendAsNumber_int [OF ob(2) assms(3,4) _ assms(1,2), of atof] ob(3) by (auto simp: length_enc_obj)
  have "int (length (enc_obj [(name, ?v)])) \<le> BSONObjMaxInternalSize"
    using assms(4) by (intro one_field_small) auto
  then show ?thesis
    using ob_obj_ok [OF ob1(2,3)] ob(1) ob1(1) by simp
qed

end
