(* ===== verification/BuildStack.thy ===== *)
theory BuildStack
  imports BsonOpsSpec
begin

text \<open>
  A stack of document builders that write into one buffer, each into a sub-document of the one below:
  what \<open>EmbeddedBuilder\<close> (\<open>bson/src/util/embedded_builder.h\<close>) and \<open>ObjectBuilder\<close>
  (\<open>bson/src/util/json.cpp\<close>) keep.  The builder on top comes first and holds the buffer.
\<close>

section \<open>The code\<close>

definition stk_push :: "bool \<Rightarrow> u8 list \<Rightarrow> u8 list \<Rightarrow> BSONObjBuilder list \<Rightarrow> BSONObjBuilder list res" where
  "stk_push array name room st = (case st of [] \<Rightarrow> Stuck | tp # rest \<Rightarrow>
     bnd (if array then ob_subarrayStart name tp else ob_subobjStart name tp) (\<lambda>tp.
     bnd (ob_sub room (ob_b tp)) (\<lambda>child. Ret (child # tp # rest))))"

definition stk_pop :: "BSONObjBuilder list \<Rightarrow> BSONObjBuilder list res" where
  "stk_pop st = (case st of child # parent # rest \<Rightarrow>
     bnd (ob_done child) (\<lambda>(o1, child). Ret (ob_after_sub child parent # rest)) | _ \<Rightarrow> Stuck)"

definition stk_top :: "(BSONObjBuilder \<Rightarrow> BSONObjBuilder res) \<Rightarrow> BSONObjBuilder list \<Rightarrow> BSONObjBuilder list res" where
  "stk_top f st = (case st of [] \<Rightarrow> Stuck | tp # rest \<Rightarrow> bnd (f tp) (\<lambda>tp. Ret (tp # rest)))"

section \<open>The documents under construction\<close>

text \<open>
  A frame is an array or not, its name and the fields so far; the top frame first.  \<open>aclose\<close> is the
  document that closing every frame gives.
\<close>

type_synonym frame = "bool \<times> u8 list \<times> fields"

definition doc_val :: "bool \<Rightarrow> fields \<Rightarrow> bval" where
  "doc_val a gs = (if a then VArray gs else VObject gs)"

fun apop :: "frame list \<Rightarrow> frame list" where
  "apop ((a, n, gs) # (a', n', gs') # fr) = (a', n', gs' @ [(n, doc_val a gs)]) # fr"
| "apop fr = fr"

fun aappend :: "fields \<Rightarrow> frame list \<Rightarrow> frame list" where
  "aappend hs ((a, n, gs) # fr) = (a, n, gs @ hs) # fr"
| "aappend hs [] = []"

definition apush :: "bool \<Rightarrow> u8 list \<Rightarrow> frame list \<Rightarrow> frame list" where
  "apush a n fr = (a, n, []) # fr"

function aclose :: "frame list \<Rightarrow> fields" where
  "aclose [] = []"
| "aclose [(a, n, gs)] = gs"
| "aclose ((a, n, gs) # (a', n', gs') # fr) = aclose ((a', n', gs' @ [(n, doc_val a gs)]) # fr)"
  by pat_completeness auto
termination
  by (relation "measure length") auto

text \<open>
  The buffer up to the room of the top builder: that of the builder below with its room and fields,
  then the head of the sub-document.  Only the bottom builder may own its buffer.
\<close>

fun under :: "u8 list \<Rightarrow> bool \<Rightarrow> BSONObjBuilder list \<Rightarrow> frame list \<Rightarrow> bool \<Rightarrow> u8 list \<Rightarrow> u8 list \<Rightarrow> bool" where
  "under p0 own [] [] a n q = (q = p0)"
| "under p0 own (par # obs) ((a', n', gs') # fr) a n q = (\<exists>q' room. length room = 4 \<and>
     q = q' @ room @ enc_fields gs' @ type_byte (if a then Array else Object) # n @ [0] \<and>
     ob_offset par = length q' \<and> \<not> ob_doneCalled par \<and> ob_owned par = (obs = [] \<and> own) \<and> wf_fields gs' \<and> cname n \<and>
     under p0 own obs fr a' n' q')"
| "under p0 own _ _ a n q = False"

fun stacked :: "u8 list \<Rightarrow> bool \<Rightarrow> BSONObjBuilder list \<Rightarrow> frame list \<Rightarrow> bool" where
  "stacked p0 own (ob # obs) ((a, n, gs) # fr) = (\<exists>q. builds ob q gs \<and> ob_owned ob = (obs = [] \<and> own) \<and> under p0 own obs fr a n q)"
| "stacked p0 own _ _ = False"

lemma under_length: "under p0 own obs fr a n q \<Longrightarrow> length obs = length fr"
  by (induction p0 own obs fr a n q rule: under.induct) auto

text \<open>The bytes of the top frame are bounded by those of the whole document.\<close>

lemma length_doc_val [simp]: "length (enc_val (doc_val a gs)) = length (enc_obj gs)"
  by (simp add: doc_val_def enc_obj_def)

lemma under_fits: "under p0 own obs fr a n q \<Longrightarrow>
    length q + length (enc_obj gs) \<le> length p0 + length (enc_obj (aclose ((a, n, gs) # fr)))"
proof (induction p0 own obs fr a n q arbitrary: gs rule: under.induct)
  case (2 p0 own par obs a' n' gs' fr a n q)
  then obtain q' room where u: "length room = 4" "under p0 own obs fr a' n' q'"
      "q = q' @ room @ enc_fields gs' @ type_byte (if a then Array else Object) # n @ [0]"
    by auto
  have "length q' + length (enc_obj (gs' @ [(n, doc_val a gs)])) \<le> length p0 +
      length (enc_obj (aclose ((a', n', gs' @ [(n, doc_val a gs)]) # fr)))"
    by (rule "2.IH" [OF u(2)])
  then show ?case
    by (simp add: u(1,3) length_enc_obj)
qed simp_all

text \<open>Every open document is no longer than the document all of them make.\<close>

lemma aclose_mono: "length (enc_obj gs) \<le> length (enc_obj hs) \<Longrightarrow>
    length (enc_obj (aclose ((a, n, gs) # fr))) \<le> length (enc_obj (aclose ((a, n, hs) # fr)))"
proof (induction fr arbitrary: a n gs hs)
  case (Cons f fr)
  obtain a' n' gs' where f: "f = (a', n', gs')"
    by (cases f)
  have "length (enc_obj (gs' @ [(n, doc_val a gs)])) \<le> length (enc_obj (gs' @ [(n, doc_val a hs)]))"
    using Cons.prems by (simp add: length_enc_obj)
  then show ?case
    using Cons.IH f by simp
qed simp

lemma aclose_ge: "length (enc_obj gs) \<le> length (enc_obj (aclose ((a, n, gs) # fr)))"
proof (induction fr arbitrary: a n gs)
  case (Cons f fr)
  obtain a' n' gs' where f: "f = (a', n', gs')"
    by (cases f)
  have "length (enc_obj gs) \<le> length (enc_obj (gs' @ [(n, doc_val a gs)]))"
    by (simp add: length_enc_obj)
  then show ?case
    using Cons.IH [of "gs' @ [(n, doc_val a gs)]" a' n'] f by simp
qed simp

lemma stackedE:
  assumes "stacked p0 own st fr"
  obtains ob obs a n gs fr' q where "st = ob # obs" "fr = (a, n, gs) # fr'" "builds ob q gs" "ob_owned ob = (obs = [] \<and> own)"
    "under p0 own obs fr' a n q"
proof -
  obtain ob obs a n gs fr' where e: "st = ob # obs" "fr = (a, n, gs) # fr'"
    using assms by (cases st; cases fr) auto
  with assms obtain q where "builds ob q gs" "ob_owned ob = (obs = [] \<and> own)" "under p0 own obs fr' a n q"
    unfolding e stacked.simps by blast
  with e that show thesis
    by blast
qed

section \<open>What the operations do\<close>

definition fits_doc :: "u8 list \<Rightarrow> frame list \<Rightarrow> bool" where
  "fits_doc p0 fr \<longleftrightarrow> length p0 \<le> 1024 \<and> int (length (enc_obj (aclose fr))) \<le> BSONObjMaxInternalSize"

lemma stacked_fits:
  assumes "under p0 own obs fr a n q" "fits_doc p0 ((a, n, gs) # fr)"
  shows "fits_in q gs" "int (length (enc_obj gs)) \<le> BSONObjMaxInternalSize" "length q \<le> 16795648"
  using under_fits [OF assms(1), of gs] aclose_ge [of gs a n fr] assms(2)
  by (simp_all add: fits_doc_def fits_in_def BSONObjMaxInternalSize_def)

lemma stk_top_ok:
  assumes "stacked p0 own st fr" "fits_doc p0 (aappend hs fr)"
    and "\<And>ob q gs. builds ob q gs \<Longrightarrow> fits_in q (gs @ hs) \<Longrightarrow> appends ob q gs hs (f ob)"
  shows "\<exists>st'. stk_top f st = Ret st' \<and> stacked p0 own st' (aappend hs fr)"
proof -
  obtain ob obs a n gs fr' q where s: "st = ob # obs" "fr = (a, n, gs) # fr'" "builds ob q gs" "ob_owned ob = (obs = [] \<and> own)"
      "under p0 own obs fr' a n q"
    using assms(1) by (rule stackedE)
  have "fits_in q (gs @ hs)"
    using stacked_fits(1) [OF s(5)] assms(2) s(2) by simp
  from assms(3) [OF s(3) this] obtain ob' where "f ob = Ret ob'" "builds ob' q (gs @ hs)" "ob_owned ob' = ob_owned ob"
    by (auto simp: appends_def)
  then show ?thesis
    using s by (auto simp: stk_top_def)
qed

lemma head_ok:
  assumes "builds ob q gs" "cname n" "fits_in q (gs @ [(n, doc_val a [])])"
  shows "\<exists>ob'. (if a then ob_subarrayStart n ob else ob_subobjStart n ob) = Ret ob' \<and>
    (\<exists>room. length room = 4 \<and> bb_bytes (ob_b ob') = q @ room @ enc_fields gs @ type_byte (if a then Array else Object) # n @ [0]) \<and>
    ob_offset ob' = length q \<and> \<not> ob_doneCalled ob' \<and> \<not> bb_oom (ob_b ob') \<and> ob_owned ob' = ob_owned ob"
proof -
  obtain r where r: "length r = 4" "bb_bytes (ob_b ob) = q @ r @ enc_fields gs"
    using assms(1) by (auto simp: builds_def)
  let ?cs = "[type_byte (if a then Array else Object)] # (n @ [0]) # []"
  have "length (bb_bytes (ob_b ob)) + length (concat ?cs) \<le> 33554432"
    using assms(3) r by (simp add: fits_in_def length_enc_obj)
  then obtain c1 where "bb_appends ?cs (ob_b ob) =
      Ret (ob_b ob\<lparr>bb_bytes := q @ r @ enc_fields gs @ type_byte (if a then Array else Object) # n @ [0], bb_size := c1\<rparr>)"
    using bb_appends_ok [of "ob_b ob" ?cs] r assms(1) by (auto simp: builds_def)
  with r(1) assms(1) show ?thesis
    by (cases a) (auto simp: ob_subarrayStart_def ob_subobjStart_def ob_field_def ob_put_def builds_def)
qed

lemma stk_push_ok:
  assumes "stacked p0 own st fr" "fits_doc p0 (apush a n fr)" "cname n" "length room = 4"
  shows "\<exists>st'. stk_push a n room st = Ret st' \<and> stacked p0 own st' (apush a n fr)"
proof -
  obtain ob obs a' n' gs fr' q where s: "st = ob # obs" "fr = (a', n', gs) # fr'" "builds ob q gs" "ob_owned ob = (obs = [] \<and> own)"
      "under p0 own obs fr' a' n' q"
    using assms(1) by (rule stackedE)
  have "fits_doc p0 ((a', n', gs @ [(n, doc_val a [])]) # fr')"
    using assms(2) s(2) by (simp add: apush_def fits_doc_def)
  note fit = stacked_fits [OF s(5) this]
  obtain ob' r where ob': "(if a then ob_subarrayStart n ob else ob_subobjStart n ob) = Ret ob'" "length r = 4"
      "bb_bytes (ob_b ob') = q @ r @ enc_fields gs @ type_byte (if a then Array else Object) # n @ [0]"
      "ob_offset ob' = length q" "\<not> ob_doneCalled ob'" "\<not> bb_oom (ob_b ob')" "ob_owned ob' = ob_owned ob"
    using head_ok [OF s(3) assms(3) fit(1)] by auto
  have "length (bb_bytes (ob_b ob')) \<le> 33554428"
    using fit(1,3) ob'(2,3) by (simp add: fits_in_def length_enc_obj)
  then obtain child where child: "ob_sub room (ob_b ob') = Ret child" "builds child (bb_bytes (ob_b ob')) []" "\<not> ob_owned child"
    using ob_sub_ok [of room "ob_b ob'"] assms(4) ob'(6) by blast
  have "under p0 own (ob' # obs) fr a n (bb_bytes (ob_b ob'))"
    unfolding s(2) using ob' s(3-5) assms(3) by (auto simp: builds_def)
  then show ?thesis
    using child ob'(1) s(1) by (auto simp: stk_push_def apush_def)
qed

lemma stk_pop_ok:
  assumes "stacked p0 own st ((a, n, gs) # f # fr)" "fits_doc p0 ((a, n, gs) # f # fr)"
  shows "\<exists>st'. stk_pop st = Ret st' \<and> stacked p0 own st' (apop ((a, n, gs) # f # fr))"
proof -
  obtain a' n' gs' where f: "f = (a', n', gs')"
    by (cases f)
  obtain ob par obs q where s: "st = ob # par # obs" "builds ob q gs" "under p0 own (par # obs) ((a', n', gs') # fr) a n q"
    using assms(1) unfolding f by (cases st; cases "tl st") auto
  note fit = stacked_fits [OF s(3), of gs]
  have fit: "fits_in q gs" "int (length (enc_obj gs)) \<le> BSONObjMaxInternalSize"
    using fit assms(2) f by simp_all
  obtain ob' where ob': "ob__done ob = Ret ob'" "bb_bytes (ob_b ob') = q @ enc_obj gs" "ob_offset ob' = length q"
      "\<not> bb_oom (ob_b ob')"
    using ob__done_ok [OF s(2) fit(1)] by blast
  have "at (q @ enc_obj gs @ []) (int (length q)) (enc_obj gs)"
    by (rule atI) simp
  then have "obj_in (q @ enc_obj gs, int (length q)) gs"
    using s(2) fit by (simp add: obj_in_def builds_def fits_in_def)
  then have dn: "ob_done ob = Ret ((q @ enc_obj gs, int (length q)), ob')"
    using ob' by (simp add: ob_done_def ob_ptr_def obj_init_in)
  obtain q' room where u: "length room = 4" "q = q' @ room @ enc_fields gs' @ type_byte (if a then Array else Object) # n @ [0]"
      "ob_offset par = length q'" "\<not> ob_doneCalled par" "ob_owned par = (obs = [] \<and> own)" "wf_fields gs'" "cname n"
      "under p0 own obs fr a' n' q'"
    using s(3) by auto
  have "wf_fields gs"
    using s(2) by (simp add: builds_def)
  then have "builds (ob_after_sub ob' par) q' (gs' @ [(n, doc_val a gs)])"
    using u ob' by (auto simp: builds_def ob_after_sub_def doc_val_def enc_obj_def wf_fields_iff)
  then have "stacked p0 own (ob_after_sub ob' par # obs) (apop ((a, n, gs) # f # fr))"
    using u(5,8) f by (auto simp: ob_after_sub_def)
  then show ?thesis
    using s(1) dn by (auto simp: stk_pop_def)
qed

lemma stacked_one: "stacked p0 own st [(a, n, gs)] \<longleftrightarrow> (\<exists>ob. st = [ob] \<and> builds ob p0 gs \<and> ob_owned ob = own)"
proof
  assume "stacked p0 own st [(a, n, gs)]"
  then show "\<exists>ob. st = [ob] \<and> builds ob p0 gs \<and> ob_owned ob = own"
    by (cases st; cases "tl st") auto
qed auto

lemma fits_doc_pop [simp]: "fits_doc p0 (apop fr) = fits_doc p0 fr"
proof (cases fr rule: apop.cases)
  case (1 a n gs a' n' gs' fr)
  then show ?thesis
    by (simp add: fits_doc_def)
qed auto

lemma stacked_length: "stacked p0 own st fr \<Longrightarrow> length st = length fr"
  by (cases st; cases fr) (auto dest: under_length)

end
