(* ===== verification/BsonOrderLaws.thy ===== *)
theory BsonOrderLaws
  imports BsonOrderSpec
begin

text \<open>
  The order of documents is a total preorder, with every key pattern, as long as every \<open>long\<close> is
  exactly representable as a double; where it is not, the order is not transitive.  Sorting by a
  key is the order of the looked-up values.
\<close>

text \<open>
  Every \<open>long\<close>, at any depth, is the value of a double.  (Scopes of code are compared as bytes.)
\<close>

fun exact :: "bval \<Rightarrow> bool" and exact_fields :: "fields \<Rightarrow> bool" where
  "exact (VLong w) = (\<bar>sint w\<bar> \<le> 9007199254740992)"
| "exact (VObject fs) = exact_fields fs"
| "exact (VArray fs) = exact_fields fs"
| "exact _ = True"
| "exact_fields [] = True"
| "exact_fields (f # fs) = (exact (snd f) \<and> exact_fields fs)"

lemma round53_exact: "n \<le> 9007199254740992 \<Longrightarrow> round53 n = n"
proof (cases "n = 9007199254740992")
  case True
  have "excess 4503599627370496 = 0"
    by (simp add: excess.simps)
  then have "excess 9007199254740992 = 1"
    by (simp add: excess.simps [of 9007199254740992])
  then show ?thesis
    by (simp add: round53_def True)
qed (simp add: round53_small)

lemma exact_long: "\<bar>i\<bar> \<le> 9007199254740992 \<Longrightarrow> dbl_of_int i = Fin (i * 2 ^ 1074)"
  by (simp add: dbl_of_int_def round53_exact)

lemma three_way_scale: "0 < k \<Longrightarrow> three_way (a * k) (b * k) = three_way a b"
  by (simp add: three_way_def)

lemma flat_number:
  assumes "is_num v" "is_num w" "exact v" "exact w"
  shows "flat_cmp v w = num_cmp (vnum v) (vnum w)"
  using assms by (cases v; cases w) (simp_all add: flat_cmp_def exact_long three_way_scale)

definition nested :: "bval \<Rightarrow> bool" where
  "nested v \<longleftrightarrow> canon v \<in> {20, 25}"

lemma vcmp_nested: "nested v \<Longrightarrow> vcmp v w = fcmp (vfields v) (vfields w)"
  by (cases v) (simp_all add: nested_def)

lemma vcmp_flat: "\<not> nested v \<Longrightarrow> vcmp v w = flat_cmp v w"
  by (cases v) (simp_all add: nested_def)

lemma flat_kinds:
  "canon v \<in> {- 1, 127, 0, 5} \<Longrightarrow> flat_cmp v w = 0"
  "canon v \<in> {15, 60} \<Longrightarrow> flat_cmp v w = str_cmp (vstr v) (vstr w)"
  "canon v \<in> {30, 55} \<Longrightarrow> flat_cmp v w = len_cmp (length (vbytes v)) (length (vbytes w)) (vbytes v) (vbytes w)"
  "canon v = 35 \<Longrightarrow> flat_cmp v w = mem_cmp (vbytes v) (vbytes w)"
  "canon v = 40 \<Longrightarrow> flat_cmp v w = vbool v - vbool w"
  "canon v = 45 \<Longrightarrow> flat_cmp v w = three_way (int (vtime v)) (int (vtime w))"
  "canon v \<in> {50, 65} \<Longrightarrow> flat_cmp v w = then_cmp (str_cmp (vstr v) (vstr w)) (str_cmp (vstr2 v) (vstr2 w))"
  by (cases v; simp add: flat_cmp_def)+

lemma flat_laws:
  assumes "canon v = canon w" "canon w = canon u" "\<not> nested v" "exact v" "exact w" "exact u"
    and "wf_val v" "wf_val w" "wf_val u"
  shows "trans3 (flat_cmp v w) (flat_cmp w u) (flat_cmp v u) \<and> anti2 (flat_cmp v w) (flat_cmp w v)"
proof (cases "is_num v")
  case True
  then have "is_num w" "is_num u"
    using assms(1,2) by (simp_all add: is_num_canon)
  then show ?thesis
    using True assms(4-6) by (simp add: flat_number order_laws)
next
  case False
  have oid: "canon x = 35 \<Longrightarrow> wf_val x \<Longrightarrow> length (vbytes x) = 12" for x
    by (cases x) simp_all
  consider "canon v \<in> {- 1, 127, 0, 5}" | "canon v \<in> {15, 60}" | "canon v \<in> {30, 55}" | "canon v = 35"
    | "canon v = 40" | "canon v = 45" | "canon v \<in> {50, 65}"
    using assms(3) False by (cases v) (simp_all add: nested_def)
  then show ?thesis
  proof cases
    case 4
    then show ?thesis
      using oid [of v] oid [of w] oid [of u] assms(1,2,7-9) by (simp add: flat_kinds(4) mem_str order_laws)
  next
    case 7
    then show ?thesis
      using flat_kinds(7) [of v] flat_kinds(7) [of w] assms(1,2) by (auto intro!: trans3_then anti2_then order_laws)
  next
    case 1
    then show ?thesis
      using assms(1,2) by (simp add: flat_kinds(1) trans3_def anti2_def)
  next
    case 2
    then show ?thesis
      using assms(1,2) by (simp add: flat_kinds(2) order_laws)
  next
    case 3
    then show ?thesis
      using assms(1,2) by (simp add: flat_kinds(3) order_laws)
  next
    case 5
    then show ?thesis
      using assms(1,2) by (simp add: flat_kinds(5) order_laws)
  next
    case 6
    then show ?thesis
      using assms(1,2) by (simp add: flat_kinds(6) order_laws)
  qed
qed


text \<open>Elements, and documents field by field.\<close>

definition value_laws :: "bval \<Rightarrow> bool" where
  "value_laws v \<longleftrightarrow> (\<forall>w u. canon v = canon w \<and> canon w = canon u \<and> exact v \<and> exact w \<and> exact u \<and>
     wf_val v \<and> wf_val w \<and> wf_val u \<longrightarrow>
     trans3 (vcmp v w) (vcmp w u) (vcmp v u) \<and> anti2 (vcmp v w) (vcmp w v))"

definition ok_fields :: "fields \<Rightarrow> bool" where
  "ok_fields fs \<longleftrightarrow> wf_fields fs \<and> exact_fields fs"

lemma ok_fields_Cons [simp]:
  "ok_fields (f # fs) \<longleftrightarrow> cname (fst f) \<and> wf_val (snd f) \<and> exact (snd f) \<and> ok_fields fs"
  by (auto simp: ok_fields_def)

lemma ecmp_laws:
  assumes "value_laws (snd f)" "exact (snd f)" "exact (snd g)" "exact (snd h)"
    and "wf_val (snd f)" "wf_val (snd g)" "wf_val (snd h)"
  shows "trans3 (ecmp names f g) (ecmp names g h) (ecmp names f h)" "anti2 (ecmp names f g) (ecmp names g f)"
proof -
  let ?n = "\<lambda>f g :: u8 list \<times> bval. if names then str_cmp (fst f) (fst g) else 0"
  have n: "trans3 (?n f g) (?n g h) (?n f h)" "anti2 (?n f g) (?n g f)"
    by (simp_all add: order_laws) (simp_all add: trans3_def anti2_def)
  show "trans3 (ecmp names f g) (ecmp names g h) (ecmp names f h)"
    unfolding ecmp_def
    by (intro trans3_then diff_laws n) (use assms in \<open>auto simp: value_laws_def\<close>)
  show "anti2 (ecmp names f g) (ecmp names g f)"
    unfolding ecmp_def
    by (intro anti2_then diff_laws n) (use assms in \<open>auto simp: value_laws_def\<close>)
qed

lemma anti2_minus: "anti2 (- x) (- y) \<longleftrightarrow> anti2 x y"
  by (auto simp: anti2_def)

lemma trans3_minus: "anti2 x x' \<Longrightarrow> anti2 y y' \<Longrightarrow> anti2 z z' \<Longrightarrow> trans3 y' x' z' \<Longrightarrow> trans3 (- x) (- y) (- z)"
  by (auto simp: anti2_def trans3_def)

lemma kcmp_laws:
  assumes "\<forall>f \<in> set fs. value_laws (snd f)" "negs \<noteq> [] \<longrightarrow> (\<forall>f \<in> set gs \<union> set hs. value_laws (snd f))"
    and "ok_fields fs" "ok_fields gs" "ok_fields hs"
  shows "trans3 (kcmp names negs fs gs) (kcmp names negs gs hs) (kcmp names negs fs hs) \<and>
    anti2 (kcmp names negs fs gs) (kcmp names negs gs fs)"
  using assms
proof (induction fs arbitrary: gs hs negs)
  case Nil
  then show ?case
    by (cases gs; cases hs) (auto simp: trans3_def anti2_def Let_def)
next
  case (Cons f fs)
  have a: "anti2 (kcmp names negs (f # fs) gs) (kcmp names negs gs (f # fs))"
  proof (cases gs)
    case (Cons g gs')
    have "negs \<noteq> [] \<longrightarrow> (\<forall>f \<in> set gs' \<union> set []. value_laws (snd f))"
      using Cons.prems(2) unfolding Cons by auto
    then have "anti2 (kcmp names (tl negs) fs gs') (kcmp names (tl negs) gs' fs)"
      using Cons.IH [of "tl negs" gs' "[]"] Cons.prems unfolding Cons by (cases negs) (auto simp: ok_fields_def)
    moreover have "anti2 (ecmp names f g) (ecmp names g f)"
      using Cons.prems unfolding Cons by (intro ecmp_laws(2) [where h = f]) auto
    ultimately show ?thesis
      by (auto simp: Cons Let_def anti2_minus intro!: anti2_then)
  qed (simp add: anti2_def)
  have "trans3 (kcmp names negs (f # fs) gs) (kcmp names negs gs hs) (kcmp names negs (f # fs) hs)"
  proof (cases "gs = [] \<or> hs = []")
    case True
    then show ?thesis
      by (cases gs; cases hs) (auto simp: trans3_def)
  next
    case False
    then obtain g gs' h hs' where gh: "gs = g # gs'" "hs = h # hs'"
      by (cases gs; cases hs) auto
    have "negs \<noteq> [] \<longrightarrow> (\<forall>f \<in> set gs' \<union> set hs'. value_laws (snd f))"
      using Cons.prems(2) unfolding gh by auto
    then have r: "trans3 (kcmp names (tl negs) fs gs') (kcmp names (tl negs) gs' hs') (kcmp names (tl negs) fs hs')"
      using Cons.IH [of "tl negs" gs' hs'] Cons.prems unfolding gh by (cases negs) auto
    have e: "trans3 (ecmp names f g) (ecmp names g h) (ecmp names f h)"
        "anti2 (ecmp names f g) (ecmp names g f)" "anti2 (ecmp names f h) (ecmp names h f)"
      using Cons.prems unfolding gh by (auto intro!: ecmp_laws)
    have m: "trans3 (- ecmp names f g) (- ecmp names g h) (- ecmp names f h)" if "negs \<noteq> []"
    proof (rule trans3_minus [OF e(2) _ e(3)])
      show "anti2 (ecmp names g h) (ecmp names h g)" "trans3 (ecmp names h g) (ecmp names g f) (ecmp names h f)"
        using Cons.prems that unfolding gh by (auto intro!: ecmp_laws)
    qed
    show ?thesis
    proof (cases "negs \<noteq> [] \<and> hd negs")
      case True
      then show ?thesis
        using m r unfolding gh by (simp add: Let_def trans3_then)
    next
      case False
      then have "kcmp names negs (x # xs) (y # ys) = then_cmp (ecmp names x y) (kcmp names (tl negs) xs ys)" for x xs y ys
        by auto
      then show ?thesis
        using e(1) r unfolding gh by (simp only: trans3_then)
    qed
  qed
  with a show ?case
    by simp
qed

lemma ok_vfields: "exact v \<Longrightarrow> wf_val v \<Longrightarrow> ok_fields (vfields v)"
  by (cases v) (simp_all add: ok_fields_def)

lemma value_laws_nested:
  assumes "nested v" "\<And>f. f \<in> set (vfields v) \<Longrightarrow> value_laws (snd f)"
  shows "value_laws v"
  unfolding value_laws_def
proof (intro allI impI)
  fix w u
  assume a: "canon v = canon w \<and> canon w = canon u \<and> exact v \<and> exact w \<and> exact u \<and> wf_val v \<and> wf_val w \<and> wf_val u"
  then have n: "nested w"
    using assms(1) by (simp add: nested_def)
  show "trans3 (vcmp v w) (vcmp w u) (vcmp v u) \<and> anti2 (vcmp v w) (vcmp w v)"
    unfolding vcmp_nested [OF assms(1)] vcmp_nested [OF n] fcmp_kcmp
    using a assms(2) by (intro kcmp_laws) (auto intro: ok_vfields)
qed

lemma value_laws_flat:
  assumes "\<not> nested v"
  shows "value_laws v"
  unfolding value_laws_def
proof (intro allI impI)
  fix w u
  assume a: "canon v = canon w \<and> canon w = canon u \<and> exact v \<and> exact w \<and> exact u \<and> wf_val v \<and> wf_val w \<and> wf_val u"
  then have n: "\<not> nested w"
    using assms by (simp add: nested_def)
  show "trans3 (vcmp v w) (vcmp w u) (vcmp v u) \<and> anti2 (vcmp v w) (vcmp w v)"
    unfolding vcmp_flat [OF assms] vcmp_flat [OF n] using a assms by (intro flat_laws) auto
qed

theorem value_laws_all: "value_laws v"
proof (induction v)
  have snd: "snd f \<in> Basic_BNFs.snds f" for f :: "u8 list \<times> bval"
    by (cases f) (simp add: snds.intros)
  show "value_laws (VObject fs)" if ih: "\<And>f v. f \<in> set fs \<Longrightarrow> v \<in> Basic_BNFs.snds f \<Longrightarrow> value_laws v" for fs
  proof (rule value_laws_nested)
    show "value_laws (snd f)" if "f \<in> set (vfields (VObject fs))" for f
      using ih [of f "snd f"] that snd by simp
  qed (simp add: nested_def)
  show "value_laws (VArray fs)" if ih: "\<And>f v. f \<in> set fs \<Longrightarrow> v \<in> Basic_BNFs.snds f \<Longrightarrow> value_laws v" for fs
  proof (rule value_laws_nested)
    show "value_laws (snd f)" if "f \<in> set (vfields (VArray fs))" for f
      using ih [of f "snd f"] that snd by simp
  qed (simp add: nested_def)
qed (simp_all add: value_laws_flat nested_def)

text \<open>Hence the order of documents, with any key pattern.\<close>

theorem kcmp_order:
  assumes "ok_fields fs" "ok_fields gs" "ok_fields hs"
  shows "trans3 (kcmp names negs fs gs) (kcmp names negs gs hs) (kcmp names negs fs hs)"
    "anti2 (kcmp names negs fs gs) (kcmp names negs gs fs)"
  using kcmp_laws [of fs negs gs hs names] assms value_laws_all by simp_all
section \<open>The interface of an order\<close>

text \<open>What a client of a comparison relies on, on the values it is used for.\<close>

locale total_preorder =
  fixes D :: "'a \<Rightarrow> bool" and c :: "'a \<Rightarrow> 'a \<Rightarrow> int"
  assumes sym_sign: "D x \<Longrightarrow> D y \<Longrightarrow> anti2 (c x y) (c y x)"
    and trans_sign: "D x \<Longrightarrow> D y \<Longrightarrow> D z \<Longrightarrow> trans3 (c x y) (c y z) (c x z)"
begin

lemma refl: "D x \<Longrightarrow> c x x = 0"
  using sym_sign [of x x] by (auto simp: anti2_def)

lemma le_trans: "D x \<Longrightarrow> D y \<Longrightarrow> D z \<Longrightarrow> c x y \<le> 0 \<Longrightarrow> c y z \<le> 0 \<Longrightarrow> c x z \<le> 0"
  using trans_sign [of x y z] by (simp add: trans3_def)

lemma less_le_trans: "D x \<Longrightarrow> D y \<Longrightarrow> D z \<Longrightarrow> c x y < 0 \<Longrightarrow> c y z \<le> 0 \<Longrightarrow> c x z < 0"
  using trans_sign [of x y z] by (auto simp: trans3_def)

lemma equal_trans: "D x \<Longrightarrow> D y \<Longrightarrow> D z \<Longrightarrow> c x y = 0 \<Longrightarrow> c y z = 0 \<Longrightarrow> c x z = 0"
  using trans_sign [of x y z] by (simp add: trans3_def)

lemma total: "D x \<Longrightarrow> D y \<Longrightarrow> c x y \<le> 0 \<or> c y x \<le> 0"
  using sym_sign [of x y] by (auto simp: anti2_def)

text \<open>Equal values cannot be told apart by a comparison.\<close>

lemma equal_substitute:
  assumes "D x" "D y" "D z" "c x y = 0"
  shows "c x z < 0 \<longleftrightarrow> c y z < 0" "c x z = 0 \<longleftrightarrow> c y z = 0"
proof -
  have "c y x = 0"
    using assms sym_sign [of x y] by (simp add: anti2_def)
  then show "c x z < 0 \<longleftrightarrow> c y z < 0" "c x z = 0 \<longleftrightarrow> c y z = 0"
    using assms trans_sign [of x y z] trans_sign [of y x z] by (auto simp: trans3_def)
qed

end

interpretation wo: total_preorder ok_fields "kcmp names negs"
  by unfold_locales (auto intro: kcmp_order)

section \<open>Longs beyond the precision of a double\<close>

definition long_big :: fields where
  "long_big = [([0x61], VLong 9007199254740993)]"

definition double_mid :: fields where
  "double_mid = [([0x61], VDouble 0x4340000000000000)]"

definition long_small :: fields where
  "long_small = [([0x61], VLong 9007199254740992)]"

lemma mid_number: "dbl_of_bits 4845873199050653696 = Fin (9007199254740992 * 2 ^ 1074)"
  by (simp add: dbl_of_bits_def dbl_fraction_def)

lemma big_number: "dbl_of_int 9007199254740993 = Fin (9007199254740992 * 2 ^ 1074)"
proof -
  have "excess 4503599627370496 = 0"
    by (simp add: excess.simps)
  then have "excess 9007199254740993 = 1"
    by (simp add: excess.simps [of 9007199254740993])
  then have "round53 9007199254740993 = 9007199254740992"
    by (simp add: round53_def)
  then show ?thesis
    by (simp add: dbl_of_int_def)
qed

lemma not_transitive:
  "fcmp long_big double_mid = 0" "fcmp double_mid long_small = 0" "fcmp long_big long_small = 1"
proof -
  have s: "dbl_of_int 9007199254740992 = Fin (9007199254740992 * 2 ^ 1074)"
    by (rule exact_long) simp
  have v: "vnum (VLong 9007199254740993) = Fin (9007199254740992 * 2 ^ 1074)"
    "vnum (VDouble 0x4340000000000000) = Fin (9007199254740992 * 2 ^ 1074)"
    "vnum (VLong 9007199254740992) = Fin (9007199254740992 * 2 ^ 1074)"
    using s mid_number big_number by simp_all
  show "fcmp long_big double_mid = 0" "fcmp double_mid long_small = 0"
    unfolding long_big_def double_mid_def long_small_def
    by (simp_all add: flat_cmp_def v three_way_def del: vnum.simps)
  show "fcmp long_big long_small = 1"
    by (simp add: long_big_def long_small_def flat_cmp_def three_way_def)
qed

lemma long_in:
  "obj_in (enc_obj long_big, 0) long_big" "obj_in (enc_obj double_mid, 0) double_mid"
  "obj_in (enc_obj long_small, 0) long_small"
  by (rule obj_in_self; simp add: long_big_def double_mid_def long_small_def cname_def length_enc_obj BSONObjMaxInternalSize_def)+

lemma long_no_undefined: "([], VUndefined) \<notin> set long_big"
  by (simp add: long_big_def)

section \<open>Sorting by a key\<close>

definition sort_look :: "bool \<Rightarrow> fields \<Rightarrow> u8 list \<Rightarrow> bval" where
  "sort_look useDotted fs name = (case (if useDotted then dotted_lookup fs name else map_of fs name) of
     Some v \<Rightarrow> v | None \<Rightarrow> VNull)"

fun sort_cmp :: "bool \<Rightarrow> fields \<Rightarrow> fields \<Rightarrow> fields \<Rightarrow> int" where
  "sort_cmp useDotted [] fs gs = 0"
| "sort_cmp useDotted (k # ks) fs gs =
    (let x = ecmp False ([], sort_look useDotted fs (fst k)) ([], sort_look useDotted gs (fst k)) in
     then_cmp (if key_neg k then - x else x) (sort_cmp useDotted ks fs gs))"

lemma dotted_lookup_le: "dotted_lookup fs name = Some v \<Longrightarrow> length (enc_val v) \<le> length (enc_fields fs)"
proof (induction fs name rule: dotted_lookup.induct)
  case (1 fs name)
  show ?case
  proof (cases "map_of fs name")
    case None
    then obtain l r gs where s: "split_dot name = Some (l, r)" "Option.bind (map_of fs l) sub_doc = Some gs"
        "gs \<noteq> []" "dotted_lookup gs r = Some v"
      using "1.prems" by (subst (asm) dotted_lookup.simps) (auto split: option.splits prod.splits if_splits)
    then obtain w where w: "map_of fs l = Some w" "sub_doc w = Some gs"
      by (auto simp: bind_eq_Some_conv)
    have "length (enc_val v) \<le> length (enc_fields gs)"
      using "1.IH" [OF None s(1) refl s(2,3,4)] .
    also have "\<dots> \<le> length (enc_val w)"
      using sub_doc_le [OF w(2)] by (simp add: length_enc_obj)
    also have "\<dots> \<le> length (enc_fields fs)"
      by (rule enc_val_le [OF w(1)])
    finally show ?thesis .
  qed (use "1.prems" in \<open>subst (asm) dotted_lookup.simps, auto intro: enc_val_le\<close>)
qed

lemma static_null: "obj_firstElement staticNull = Ret (raw_elem [7, 0, 0, 0, 10, 0, 0] 4)"
    "elem_in [7, 0, 0, 0, 10, 0, 0] 4 ([], VNull)"
proof -
  have "at [7, 0, 0, 0, 10, 0, 0] 4 [10, 0]"
    using atI [of 4 "[7, 0, 0, 0]" "[10, 0]" "[0]"] by simp
  then show e: "elem_in [7, 0, 0, 0, 10, 0, 0] 4 ([], VNull)"
    by (simp add: elem_in_def enc_elem_def cname_def)
  show "obj_firstElement staticNull = Ret (raw_elem [7, 0, 0, 0, 10, 0, 0] 4)"
    using elem_at_in [OF e] by (simp add: obj_firstElement_def staticNull_def raw_elem_def)
qed

lemma sort_field_in:
  assumes "obj_in o1 fs" "cname name"
  obtains b q n where "sort_field useDotted o1 name = Some (Ret (raw_elem b q))"
    "elem_in b q (n, sort_look useDotted fs name)" "small_doc (sort_look useDotted fs name)"
proof -
  let ?r = "if useDotted then dotted_lookup fs name else map_of fs name"
  obtain e where e: "(if useDotted then getFieldDotted o1 name else getField o1 name) = Some (Ret e)"
      "finds (fst o1) e ?r"
    using getFieldDotted_finds [OF assms] getField_finds [OF assms] by (cases useDotted) auto
  show ?thesis
  proof (cases ?r)
    case None
    then have v: "sort_look useDotted fs name = VNull" "elem_eoo e = Ret True"
      using e(2) by (auto simp: sort_look_def finds_def)
    show ?thesis
    proof (rule that)
      show "sort_field useDotted o1 name = Some (Ret (raw_elem [7, 0, 0, 0, 10, 0, 0] 4))"
        using e(1) static_null(1) by (simp add: sort_field_def v(2))
      show "elem_in [7, 0, 0, 0, 10, 0, 0] 4 ([], sort_look useDotted fs name)"
        unfolding v(1) by (rule static_null)
      show "small_doc (sort_look useDotted fs name)"
        by (simp add: v(1) small_doc_def BSONObjMaxInternalSize_def)
    qed
  next
    case (Some v)
    then obtain n q where q: "e = raw_elem (fst o1) q" "elem_in (fst o1) q (n, v)"
      using e(2) by (auto simp: finds_def)
    have "length (enc_val v) \<le> length (enc_fields fs)"
      using Some dotted_lookup_le enc_val_le by (auto split: if_splits)
    then have "small_doc v"
      using small_fields_obj [OF assms(1)] by (simp add: small_doc_def small_fields_def)
    then show ?thesis
      using that [of "fst o1" q n] q e(1) Some by (simp add: sort_field_def elem_eoo_in [OF q(2) raw_elem_of] sort_look_def)
  qed
qed

lemma run_sort:
  assumes "obj_in o1 fs" "obj_in o2 gs" "fields_in b p ks"
  shows "run_fields (sort_body useDotted o1 o2) () b p ks =
    Some (Ret (if sort_cmp useDotted ks fs gs = 0 then Inl () else Inr (sort_cmp useDotted ks fs gs)))"
  using assms(3)
proof (induction ks arbitrary: p)
  case (Cons k ks)
  have k: "elem_in b p k" "fields_in b (p + int (length (enc_elem k))) ks"
    using Cons.prems by (simp_all add: fields_in_Cons)
  have name: "cname (fst k)"
    using k(1) by (simp add: elem_in_def)
  obtain b1 q1 n1 where l: "sort_field useDotted o1 (fst k) = Some (Ret (raw_elem b1 q1))"
      "elem_in b1 q1 (n1, sort_look useDotted fs (fst k))" "small_doc (sort_look useDotted fs (fst k))"
    using sort_field_in [OF assms(1) name] by metis
  obtain b2 q2 n2 where r: "sort_field useDotted o2 (fst k) = Some (Ret (raw_elem b2 q2))"
      "elem_in b2 q2 (n2, sort_look useDotted gs (fst k))" "small_doc (sort_look useDotted gs (fst k))"
    using sort_field_in [OF assms(2) name] by metis
  define x where "x = ecmp False ([], sort_look useDotted fs (fst k)) ([], sort_look useDotted gs (fst k))"
  have x: "elem_woCompare (raw_elem b1 q1) (raw_elem b2 q2) False = Some (Ret x)"
    using elem_woCompare_in [OF l(2) r(2), of False] l(3) r(3) by (simp add: x_def ecmp_def)
  have body: "sort_body useDotted o1 o2 () (raw_elem b p) =
      Some (Ret (let y = (if key_neg k then - x else x) in if y \<noteq> 0 then Inr y else Inl ()))"
    by (simp add: sort_body_def elem_eoo_in [OF k(1) raw_elem_of] name_of_in [OF k(1)] l(1) r(1) x
      numberDouble_in [OF k(1)] key_neg_def Let_def)
  show ?case
    using Cons.IH [OF k(2)] by (simp add: body x_def [symmetric] Let_def then_cmp_def)
qed simp

theorem woSortOrder_in:
  assumes "obj_in o1 fs" "obj_in o2 gs" "obj_in key ks" "ks \<noteq> []"
  shows "woSortOrder o1 o2 key useDotted = Some (Ret (if fs = [] then (if gs = [] then 0 else - 1)
    else if gs = [] then 1 else sort_cmp useDotted ks fs gs))"
proof -
  obtain i where i: "it_of key = Ret i" "cur i (fst key) (snd key + 4) ks"
    using it_of_cur [OF assms(3)] by blast
  let ?q = "snd key + 4 + int (length (enc_fields ks))"
  have "at (fst key) ?q [0]"
    using i(2) by (simp add: cur_def)
  then have e: "sort_body useDotted o1 o2 s (eoo_elem (fst key) ?q) = Some (Ret (Inr 0))" for s
    by (simp add: sort_body_def eoo_at(2))
  have "it_while (\<lambda>_. True) (sort_body useDotted o1 o2) () i = Some (Ret (Inr (sort_cmp useDotted ks fs gs)))"
    using it_while_true [OF i(2), of "sort_body useDotted o1 o2" "\<lambda>_. 0", OF e]
      run_sort [OF assms(1,2) obj_in_parts(2) [OF assms(3)], of useDotted] by simp
  then show ?thesis
    using assms(4) by (simp add: woSortOrder_def obj_isEmpty_in [OF assms(1)] obj_isEmpty_in [OF assms(2)]
      obj_isEmpty_in [OF assms(3)] i(1))
qed

end
