(* ===== verification/LexCmp.thy ===== *)
theory LexCmp
  imports BsonBounds BsonOrderLaws
begin

text \<open>
  Comparing names with numbers in them (\<open>lexNumCmp\<close> and \<open>compareDottedFieldNames\<close> of
  \<open>bson/src/bsonobj.cpp\<close>): runs of digits compare by their value, a byte 255 is greater than
  anything else, and everything else compares as signed characters.  A C string is the list of its
  bytes before the 0.
\<close>

section \<open>The code\<close>

definition lex_isNumber :: "u8 \<Rightarrow> bool" where
  "lex_isNumber c \<longleftrightarrow> 0x30 \<le> c \<and> c \<le> 0x39"

lemma zero_isNumber [simp]: "lex_isNumber 0x30"
  by (simp add: lex_isNumber_def)

lemma digits_shorter:
  "lex_isNumber x \<Longrightarrow> length (dropWhile lex_isNumber (dropWhile (\<lambda>c. c = 0x30) (x # xs))) \<le> length xs"
proof -
  assume x: "lex_isNumber x"
  have "dropWhile lex_isNumber (dropWhile (\<lambda>c. c = 0x30) ys) = dropWhile lex_isNumber ys" for ys
    by (induction ys) auto
  then show ?thesis
    using x length_dropWhile_le [of lex_isNumber xs] by simp
qed

function lexNumCmp :: "u8 list \<Rightarrow> u8 list \<Rightarrow> int" where
  "lexNumCmp [] [] = 0"
| "lexNumCmp (x # xs) [] = 1"
| "lexNumCmp [] (y # ys) = - 1"
| "lexNumCmp (x # xs) (y # ys) =
    (let p1 = (x = 255); p2 = (y = 255) in
     if p1 \<and> \<not> p2 then 1 else if p2 \<and> \<not> p1 then - 1 else
     let n1 = lex_isNumber x; n2 = lex_isNumber y in
     if n1 \<and> n2 then
       (let s1 = dropWhile (\<lambda>c. c = 0x30) (x # xs); s2 = dropWhile (\<lambda>c. c = 0x30) (y # ys);
            d1 = takeWhile lex_isNumber s1; d2 = takeWhile lex_isNumber s2;
            len1 = length d1; len2 = length d2; result = mem_cmp d1 d2 in
        if len1 > len2 then 1 else if len2 > len1 then - 1 else if result \<noteq> 0 then result
        else lexNumCmp (dropWhile lex_isNumber s1) (dropWhile lex_isNumber s2))
     else if n1 then 1 else if n2 then - 1
     else if schar x > schar y then 1 else if schar y > schar x then - 1
     else lexNumCmp xs ys)"
  by pat_completeness auto
termination
  by (relation "measure (\<lambda>(s, t). length s)") (use digits_shorter in \<open>fastforce intro: le_imp_less_Suc\<close>)+

datatype FieldCompareResult = LEFT_SUBFIELD | LEFT_BEFORE | SAME | RIGHT_BEFORE | RIGHT_SUBFIELD

fun field_compare_code :: "FieldCompareResult \<Rightarrow> int" where
  "field_compare_code LEFT_SUBFIELD = - 2" | "field_compare_code LEFT_BEFORE = - 1" | "field_compare_code SAME = 0"
| "field_compare_code RIGHT_BEFORE = 1" | "field_compare_code RIGHT_SUBFIELD = 2"

text \<open>
  The loop with its bound; \<open>l\<close> and \<open>r\<close> are what is left of the names from \<open>lstart\<close> and \<open>rstart\<close>, and
  \<open>lex_c_str()\<close> of a part ends at its first 0.
\<close>

definition lex_c_str :: "u8 list \<Rightarrow> u8 list" where
  "lex_c_str s = takeWhile (\<lambda>c. c \<noteq> 0) s"

fun compare_dotted_loop :: "nat \<Rightarrow> u8 list \<Rightarrow> u8 list \<Rightarrow> FieldCompareResult res" where
  "compare_dotted_loop 0 l r = Raise 0"
| "compare_dotted_loop (Suc i) l r =
    (if l = [] then Ret (if r = [] then SAME else RIGHT_SUBFIELD)
     else if r = [] then Ret LEFT_SUBFIELD
     else let c = takeWhile (\<lambda>x. x \<noteq> 0x2E) l; d = takeWhile (\<lambda>x. x \<noteq> 0x2E) r;
              x = lexNumCmp (lex_c_str c) (lex_c_str d) in
       if x < 0 then Ret LEFT_BEFORE else if x > 0 then Ret RIGHT_BEFORE
       else compare_dotted_loop i (drop (length c + 1) l) (drop (length d + 1) r))"

definition compareDottedFieldNames :: "u8 list \<Rightarrow> u8 list \<Rightarrow> FieldCompareResult res" where
  "compareDottedFieldNames l r = compare_dotted_loop 1048576 l r"

section \<open>What is compared\<close>

text \<open>
  The reference: a name is a sequence of tokens, a character or the value of a run of digits; tokens
  are ranked, numbers above characters and the byte 255 above all, and names compare
  lexicographically by the ranks.
\<close>

datatype token = Chr int | Num nat | Top

fun token_less :: "token \<Rightarrow> token \<Rightarrow> bool" where
  "token_less (Chr i) (Chr j) = (i < j)" | "token_less (Chr _) _ = True"
| "token_less (Num m) (Num n) = (m < n)" | "token_less (Num _) Top = True" | "token_less (Num _) (Chr _) = False"
| "token_less Top _ = False"

function tokens :: "u8 list \<Rightarrow> token list" where
  "tokens [] = []"
| "tokens (x # xs) = (if x = 255 then Top # tokens xs
     else if lex_isNumber x then Num (num_value (takeWhile lex_isNumber (x # xs))) # tokens (dropWhile lex_isNumber xs)
     else Chr (schar x) # tokens xs)"
  by pat_completeness auto
termination
  by (relation "measure length") (auto simp: le_imp_less_Suc length_dropWhile_le)

fun tokens_cmp :: "token list \<Rightarrow> token list \<Rightarrow> int" where
  "tokens_cmp [] [] = 0" | "tokens_cmp (_ # _) [] = 1" | "tokens_cmp [] (_ # _) = - 1"
| "tokens_cmp (s # ss) (t # ts) = (if token_less s t then - 1 else if token_less t s then 1 else tokens_cmp ss ts)"


section \<open>The code computes the reference\<close>

lemma foldl_digits: "foldl (\<lambda>x c. x * 10 + (unat c - 48)) v cs = v * 10 ^ length cs + num_value (cs :: u8 list)"
proof (induction cs arbitrary: v)
  case (Cons c cs)
  show ?case
    unfolding num_value_def foldl.simps Cons.IH [of "v * 10 + (unat c - 48)"] Cons.IH [of "0 * 10 + (unat c - 48)"]
    by (simp add: algebra_simps)
qed (simp add: num_value_def)

lemma num_value_Cons: "num_value (c # cs) = (unat c - 48) * 10 ^ length cs + num_value cs"
  using foldl_digits [of "unat c - 48" cs] by (simp add: num_value_def)

lemma num_value_zero [simp]: "num_value (0x30 # cs) = num_value cs" "num_value [] = 0"
  by (simp_all add: num_value_Cons) (simp add: num_value_def)

lemma digit_range: "lex_isNumber c \<Longrightarrow> 48 \<le> unat c \<and> unat c \<le> 57"
  by (simp add: lex_isNumber_def word_le_nat_alt)

lemma num_value_less: "\<forall>c \<in> set cs. lex_isNumber c \<Longrightarrow> num_value cs < 10 ^ length cs"
proof (induction cs)
  case (Cons c cs)
  have "(unat c - 48) * 10 ^ length cs \<le> 9 * 10 ^ length cs"
    using digit_range [of c] Cons.prems by (intro mult_right_mono) auto
  then have "num_value (c # cs) < 9 * 10 ^ length cs + 10 ^ length cs"
    unfolding num_value_Cons using Cons by (intro add_le_less_mono) auto
  then show ?case
    by simp
qed simp

lemma longer_is_greater:
  assumes "\<forall>c \<in> set cs. lex_isNumber c" "\<forall>c \<in> set ds. lex_isNumber c" "length cs < length ds" "hd ds \<noteq> 0x30"
  shows "num_value cs < num_value ds"
proof (cases ds)
  case (Cons d ds')
  have "unat d \<noteq> 48"
    using assms(4) Cons by (auto simp: word_unat_eq_iff)
  then have "1 * 10 ^ length ds' \<le> (unat d - 48) * 10 ^ length ds'"
    using digit_range [of d] assms(2) Cons by (intro mult_right_mono) auto
  also have "\<dots> \<le> num_value ds"
    by (simp add: Cons num_value_Cons)
  finally have "10 ^ length ds' \<le> num_value ds"
    by simp
  moreover have "10 ^ length cs \<le> (10 :: nat) ^ length ds'"
    using assms(3) Cons by (intro power_increasing) auto
  ultimately show ?thesis
    using num_value_less [OF assms(1)] by linarith
qed (use assms(3) in simp)

lemma same_length_cmp:
  assumes "length cs = length ds" "\<forall>c \<in> set cs. lex_isNumber c" "\<forall>c \<in> set ds. lex_isNumber c"
  shows "mem_cmp cs ds = sgn (int (num_value cs) - int (num_value ds))"
  using assms
proof (induction cs ds rule: list_induct2)
  case (Cons c cs d ds)
  have lt: "num_value cs < 10 ^ length ds" "num_value ds < 10 ^ length ds"
    using num_value_less Cons by fastforce+
  have r: "48 \<le> unat c" "48 \<le> unat d"
    using digit_range Cons.prems by simp_all
  consider "unat c < unat d" | "unat d < unat c" | "c = d"
    by (metis linorder_neqE_nat word_unat_eq_iff)
  then show ?case
  proof cases
    case 1
    then have "(unat c - 48 + 1) * 10 ^ length ds \<le> (unat d - 48) * 10 ^ length ds"
      using r by (intro mult_right_mono) auto
    then have "num_value (c # cs) < num_value (d # ds)"
      unfolding num_value_Cons Cons.hyps using lt by (simp only: distrib_right mult_1)
    with 1 show ?thesis
      by (simp add: word_less_nat_alt)
  next
    case 2
    then have "(unat d - 48 + 1) * 10 ^ length ds \<le> (unat c - 48) * 10 ^ length ds"
      using r by (intro mult_right_mono) auto
    then have "num_value (d # ds) < num_value (c # cs)"
      unfolding num_value_Cons Cons.hyps using lt by (simp only: distrib_right mult_1)
    with 2 show ?thesis
      by (simp add: word_less_nat_alt)
  next
    case 3
    with Cons show ?thesis
      by (simp add: num_value_Cons)
  qed
qed simp

lemma drop_zeros: "dropWhile lex_isNumber (dropWhile (\<lambda>c. c = 0x30) ys) = dropWhile lex_isNumber ys"
  by (induction ys) auto

lemma value_zeros: "num_value (takeWhile lex_isNumber (dropWhile (\<lambda>c. c = 0x30) ys)) = num_value (takeWhile lex_isNumber ys)"
  by (induction ys) auto

lemma hd_zeros: "takeWhile lex_isNumber (dropWhile (\<lambda>c. c = 0x30) ys) = d # ds \<Longrightarrow> d \<noteq> 0x30"
  by (induction ys) (auto split: if_splits)

lemma digits_cmp:
  assumes "d1 = takeWhile lex_isNumber (dropWhile (\<lambda>c. c = 0x30) xs)" "d2 = takeWhile lex_isNumber (dropWhile (\<lambda>c. c = 0x30) ys)"
    and "m = num_value (takeWhile lex_isNumber xs)" "n = num_value (takeWhile lex_isNumber ys)"
  shows "length d1 > length d2 \<Longrightarrow> m > n" "length d1 < length d2 \<Longrightarrow> m < n"
    "length d1 = length d2 \<Longrightarrow> mem_cmp d1 d2 = sgn (int m - int n)"
proof -
  have v: "m = num_value d1" "n = num_value d2"
    using assms value_zeros by metis+
  have dig: "\<forall>c \<in> set d1. lex_isNumber c" "\<forall>c \<in> set d2. lex_isNumber c"
    using assms(1,2) by (auto dest: set_takeWhileD)
  have hd: "d1 \<noteq> [] \<Longrightarrow> hd d1 \<noteq> 0x30" "d2 \<noteq> [] \<Longrightarrow> hd d2 \<noteq> 0x30"
    using hd_zeros assms(1,2) by (metis list.exhaust_sel)+
  show "length d1 > length d2 \<Longrightarrow> m > n"
    using longer_is_greater [OF dig(2,1)] hd(1) v by (cases d1) auto
  show "length d1 < length d2 \<Longrightarrow> m < n"
    using longer_is_greater [OF dig] hd(2) v by (cases d2) auto
  show "length d1 = length d2 \<Longrightarrow> mem_cmp d1 d2 = sgn (int m - int n)"
    using same_length_cmp [OF _ dig] v by simp
qed

lemma lexNumCmp_numbers:
  assumes "lex_isNumber x" "lex_isNumber y" "d1 = takeWhile lex_isNumber (dropWhile (\<lambda>c. c = 0x30) (x # xs))"
    and "d2 = takeWhile lex_isNumber (dropWhile (\<lambda>c. c = 0x30) (y # ys))"
  shows "lexNumCmp (x # xs) (y # ys) = (if length d1 > length d2 then 1 else if length d2 > length d1 then - 1
    else if mem_cmp d1 d2 \<noteq> 0 then mem_cmp d1 d2 else lexNumCmp (dropWhile lex_isNumber xs) (dropWhile lex_isNumber ys))"
proof -
  have "x \<noteq> 255" "y \<noteq> 255"
    using assms(1,2) by (auto simp: lex_isNumber_def)
  moreover have "dropWhile lex_isNumber (dropWhile (\<lambda>c. c = 0x30) (x # xs)) = dropWhile lex_isNumber xs"
      "dropWhile lex_isNumber (dropWhile (\<lambda>c. c = 0x30) (y # ys)) = dropWhile lex_isNumber ys"
    unfolding drop_zeros using assms(1,2) by simp_all
  ultimately show ?thesis
    unfolding lexNumCmp.simps(4) Let_def using assms by (simp del: dropWhile.simps takeWhile.simps lexNumCmp.simps)
qed

theorem lexNumCmp_tokens: "lexNumCmp s t = tokens_cmp (tokens s) (tokens t)"
proof (induction "length s" arbitrary: s t rule: less_induct)
  case less
  show ?case
  proof (cases s; cases t)
    fix x xs y ys
    assume st: "s = x # xs" "t = y # ys"
    show ?thesis
    proof (cases "lex_isNumber x \<and> lex_isNumber y")
      case True
      define d1 d2 where d: "d1 = takeWhile lex_isNumber (dropWhile (\<lambda>c. c = 0x30) s)"
        "d2 = takeWhile lex_isNumber (dropWhile (\<lambda>c. c = 0x30) t)"
      define m n where mn: "m = num_value (takeWhile lex_isNumber s)" "n = num_value (takeWhile lex_isNumber t)"
      have "lexNumCmp (dropWhile lex_isNumber xs) (dropWhile lex_isNumber ys) =
          tokens_cmp (tokens (dropWhile lex_isNumber xs)) (tokens (dropWhile lex_isNumber ys))"
        using less.hyps [of "dropWhile lex_isNumber xs"] st by (simp add: le_imp_less_Suc length_dropWhile_le)
      moreover have "x \<noteq> 255" "y \<noteq> 255"
        using True by (auto simp: lex_isNumber_def)
      then have "tokens s = Num m # tokens (dropWhile lex_isNumber xs)" "tokens t = Num n # tokens (dropWhile lex_isNumber ys)"
        using True by (simp_all add: mn st)
      moreover have "lexNumCmp s t = (if length d1 > length d2 then 1 else if length d2 > length d1 then - 1
          else if mem_cmp d1 d2 \<noteq> 0 then mem_cmp d1 d2 else lexNumCmp (dropWhile lex_isNumber xs) (dropWhile lex_isNumber ys))"
        unfolding st using True d st by (intro lexNumCmp_numbers) simp_all
      ultimately show ?thesis
        using digits_cmp [OF d mn] by (cases "length d1" "length d2" rule: linorder_cases) (simp_all add: sgn_if)
    next
      case False
      have ih: "lexNumCmp xs ys = tokens_cmp (tokens xs) (tokens ys)"
        using less.hyps [of xs] st by simp
      have n: "lex_isNumber x \<Longrightarrow> x \<noteq> 255" "lex_isNumber y \<Longrightarrow> y \<noteq> 255"
        by (auto simp: lex_isNumber_def)
      show ?thesis
        using False n ih unfolding st lexNumCmp.simps(4) Let_def
        by (cases "x = 255"; cases "y = 255"; cases "lex_isNumber x"; cases "lex_isNumber y") simp_all
    qed
  qed simp_all
qed


section \<open>It is a total preorder\<close>

lemma token_less_irrefl: "\<not> token_less s s"
  by (cases s) auto

lemma token_less_trans: "token_less s t \<Longrightarrow> token_less t u \<Longrightarrow> token_less s u"
  by (cases s; cases t; cases u) auto

lemma token_less_total: "\<not> token_less s t \<Longrightarrow> \<not> token_less t s \<Longrightarrow> s = t"
  by (cases s; cases t) auto

lemma token_less_asym: "token_less s t \<Longrightarrow> \<not> token_less t s"
  using token_less_trans token_less_irrefl by blast

lemma tokens_cmp_zero: "tokens_cmp ss ts = 0 \<longleftrightarrow> ss = ts"
  by (induction ss ts rule: tokens_cmp.induct) (auto simp: token_less_irrefl token_less_total)

lemma tokens_cmp_anti: "tokens_cmp ts ss = - tokens_cmp ss ts"
  by (induction ss ts rule: tokens_cmp.induct) (auto dest: token_less_asym)

lemma tokens_cmp_le_trans: "tokens_cmp ss ts \<le> 0 \<Longrightarrow> tokens_cmp ts us \<le> 0 \<Longrightarrow> tokens_cmp ss us \<le> 0"
proof (induction ss arbitrary: ts us)
  case Nil
  then show ?case
    by (cases us) auto
next
  case (Cons s ss)
  obtain t ts' where ts: "ts = t # ts'"
    using Cons.prems(1) by (cases ts) auto
  obtain u us' where us: "us = u # us'"
    using Cons.prems(2) ts by (cases us) auto
  have 1: "token_less s t \<or> s = t \<and> tokens_cmp ss ts' \<le> 0"
    using Cons.prems(1) token_less_total [of s t] unfolding ts by (auto split: if_splits)
  have 2: "token_less t u \<or> t = u \<and> tokens_cmp ts' us' \<le> 0"
    using Cons.prems(2) token_less_total [of t u] unfolding ts us by (auto split: if_splits)
  have "token_less s u \<or> s = u \<and> tokens_cmp ss us' \<le> 0"
    using 1 2 token_less_trans [of s t u] Cons.IH [of ts' us'] by auto
  then show ?case
    unfolding us using token_less_irrefl [of s] by auto
qed

lemma tokens_cmp_laws:
  "anti2 (tokens_cmp ss ts) (tokens_cmp ts ss)" "trans3 (tokens_cmp ss ts) (tokens_cmp ts us) (tokens_cmp ss us)"
proof -
  show "anti2 (tokens_cmp ss ts) (tokens_cmp ts ss)"
    using tokens_cmp_anti [of ts ss] by (auto simp: anti2_def)
  have "ss = ts \<and> ts = us" if "tokens_cmp ss ts \<le> 0" "tokens_cmp ts us \<le> 0" "ss = us"
    using that tokens_cmp_anti [of us ts] tokens_cmp_zero [of us ts] by auto
  then show "trans3 (tokens_cmp ss ts) (tokens_cmp ts us) (tokens_cmp ss us)"
    using tokens_cmp_le_trans [of ss ts us] by (auto simp: trans3_def tokens_cmp_zero)
qed

interpretation lex: total_preorder "\<lambda>s. True" lexNumCmp
  by unfold_locales (simp_all add: lexNumCmp_tokens tokens_cmp_laws)

section \<open>Dotted names\<close>

text \<open>The parts between dots; nothing behind a last dot is no part.\<close>

function name_parts :: "u8 list \<Rightarrow> u8 list list" where
  "name_parts l = (if l = [] then [] else
     let c = takeWhile (\<lambda>x. x \<noteq> 0x2E) l in c # name_parts (drop (length c + 1) l))"
  by pat_completeness auto
termination
  by (relation "measure length") auto

declare name_parts.simps [simp del]

fun parts_cmp :: "u8 list list \<Rightarrow> u8 list list \<Rightarrow> FieldCompareResult" where
  "parts_cmp [] [] = SAME" | "parts_cmp [] (_ # _) = RIGHT_SUBFIELD" | "parts_cmp (_ # _) [] = LEFT_SUBFIELD"
| "parts_cmp (c # cs) (d # ds) = (let x = lexNumCmp (lex_c_str c) (lex_c_str d) in
     if x < 0 then LEFT_BEFORE else if x > 0 then RIGHT_BEFORE else parts_cmp cs ds)"

lemma name_parts_Nil [simp]: "name_parts [] = []"
  by (simp add: name_parts.simps)

lemma compare_dotted_loop_parts:
  "length (name_parts l) < n \<or> length (name_parts r) < n \<Longrightarrow>
    compare_dotted_loop n l r = Ret (parts_cmp (name_parts l) (name_parts r))"
proof (induction n arbitrary: l r)
  case (Suc n)
  show ?case
  proof (cases "l = [] \<or> r = []")
    case True
    then show ?thesis
      by (cases l; cases r) (simp_all add: name_parts.simps Let_def)
  next
    case False
    then have "name_parts l = takeWhile (\<lambda>x. x \<noteq> 0x2E) l # name_parts (drop (length (takeWhile (\<lambda>x. x \<noteq> 0x2E) l) + 1) l)"
      "name_parts r = takeWhile (\<lambda>x. x \<noteq> 0x2E) r # name_parts (drop (length (takeWhile (\<lambda>x. x \<noteq> 0x2E) r) + 1) r)"
      by (simp_all add: name_parts.simps [of l] name_parts.simps [of r] Let_def)
    then show ?thesis
      using False Suc by (simp add: Let_def)
  qed
qed simp

theorem compareDottedFieldNames_parts:
  "length (name_parts l) < 1048576 \<or> length (name_parts r) < 1048576 \<Longrightarrow>
    compareDottedFieldNames l r = Ret (parts_cmp (name_parts l) (name_parts r))"
  unfolding compareDottedFieldNames_def by (rule compare_dotted_loop_parts)

text \<open>Exchanging the names exchanges left and right.\<close>

text \<open>The character that the comment of the function calls the greatest.\<close>

lemma brace_low: "lexNumCmp [0x7B] [0x30] < 0" "lexNumCmp [0x7B] [0xFF] < 0"
  by (simp_all add: lex_isNumber_def schar_def)

lemma lexNumCmp_anti: "lexNumCmp t s = - lexNumCmp s t"
  by (simp add: lexNumCmp_tokens tokens_cmp_anti [of "tokens t"])

theorem parts_cmp_flip: "field_compare_code (parts_cmp ds cs) = - field_compare_code (parts_cmp cs ds)"
proof (induction cs ds rule: parts_cmp.induct)
  case (4 c cs d ds)
  then show ?case
    using lexNumCmp_anti [of "lex_c_str d" "lex_c_str c"] by (auto simp: Let_def)
qed simp_all

end
