(* ===== verification/StdMap.thy ===== *)
theory StdMap
  imports Prelude
begin

text \<open>
  \<open>std::map\<close> as the list of its entries in iteration order: keys ascend.  What it stands for is
  \<open>map_of\<close>.
\<close>

type_synonym ('k, 'v) std_map = "('k \<times> 'v) list"

fun smap_put :: "'k::linorder \<Rightarrow> 'v \<Rightarrow> ('k, 'v) std_map \<Rightarrow> ('k, 'v) std_map" where
  "smap_put k v [] = [(k, v)]"
| "smap_put k v (e # es) = (if k < fst e then (k, v) # e # es
     else if k = fst e then (k, v) # es else e # smap_put k v es)"

definition smap_erase :: "'k \<Rightarrow> ('k, 'v) std_map \<Rightarrow> ('k, 'v) std_map" where
  "smap_erase k m = filter (\<lambda>e. fst e \<noteq> k) m"

definition smap_ok :: "('k::linorder, 'v) std_map \<Rightarrow> bool" where
  "smap_ok m \<longleftrightarrow> sorted_wrt (<) (map fst m)"

lemma map_of_smap_put [simp]: "map_of (smap_put k v m) = (map_of m)(k \<mapsto> v)"
  by (induction m) (auto simp: fun_eq_iff)

lemma map_of_smap_erase [simp]: "map_of (smap_erase k m) = (map_of m)(k := None)"
  by (induction m) (auto simp: smap_erase_def fun_eq_iff)

lemma set_smap_put: "set (smap_put k v m) \<subseteq> insert (k, v) (set m)"
  by (induction m) auto

lemma fst_smap_put [simp]: "fst ` set (smap_put k v m) = insert k (fst ` set m)"
  using dom_map_of_conv_image_fst [of "smap_put k v m"] dom_map_of_conv_image_fst [of m] by simp

lemma set_smap_erase [simp]: "set (smap_erase k m) = {e \<in> set m. fst e \<noteq> k}"
  by (simp add: smap_erase_def)

lemma smap_ok_put: "smap_ok m \<Longrightarrow> smap_ok (smap_put k v m)"
  unfolding smap_ok_def
proof (induction m)
  case (Cons e es)
  then show ?case
    using fst_smap_put [of k v es] by (auto simp: less_le dest: order.trans)
qed simp

lemma smap_ok_erase: "smap_ok m \<Longrightarrow> smap_ok (smap_erase k m)"
  unfolding smap_ok_def smap_erase_def
  by (induction m) auto

lemma smap_ok_Nil [simp]: "smap_ok []"
  by (simp add: smap_ok_def)

lemma smap_ok_distinct: "smap_ok m \<Longrightarrow> distinct (map fst m)"
  unfolding smap_ok_def using strict_sorted_iff by blast

lemma map_of_smap: "smap_ok m \<Longrightarrow> map_of m k = Some v \<longleftrightarrow> (k, v) \<in> set m"
  by (simp add: smap_ok_distinct)

lemma length_smap_erase: "smap_ok m \<Longrightarrow> map_of m k = Some v \<Longrightarrow> length (smap_erase k m) = length m - 1"
proof (induction m)
  case (Cons e es)
  have ok: "smap_ok es" "\<forall>e' \<in> set es. fst e < fst e'"
    using Cons.prems(1) by (auto simp: smap_ok_def)
  show ?case
  proof (cases "fst e = k")
    case True
    then have "filter (\<lambda>e. fst e \<noteq> k) es = es"
      using ok(2) by (intro filter_True) auto
    with True show ?thesis
      by (simp add: smap_erase_def)
  next
    case False
    then have "map_of es k = Some v"
      using Cons.prems(2) by (cases e) auto
    with False Cons.IH [OF ok(1)] show ?thesis
      by (cases es) (auto simp: smap_erase_def)
  qed
qed simp

lemma length_smap_put_new: "map_of m k = None \<Longrightarrow> length (smap_put k v m) = length m + 1"
  by (induction m) (auto split: if_splits)

end
