(* ===== verification/BsonNest.thy ===== *)
theory BsonNest
  imports BuildStack LexCmp StdMap "HOL-Library.List_Lexorder"
begin

text \<open>
  Documents by name: the iterator that visits the fields in the order of \<open>lexNumCmp\<close>
  (\<open>BSONObjIteratorSorted\<close>), a document as a map (\<open>bson2map\<close> of \<open>bson/src/bson-inl.h\<close>), and
  \<open>dotted2nested\<close> with \<open>EmbeddedBuilder\<close> (\<open>bson/src/util/embedded_builder.h\<close>), the inverse of
  \<open>nested2dotted\<close>.
\<close>

section \<open>Sorted iteration\<close>

text \<open>
  The array \<open>_fields\<close> holds pointers to raw elements; each comes with its name, which the iteration
  has measured.  \<open>qs\<close> is \<open>qsort\<close> of the C library.
\<close>

type_synonym named_ptr = "u8 list \<times> cptr"

record SortedIter =
  si_fields :: "named_ptr list"
  si_nfields :: nat
  si_cur :: nat

definition BSONElementFieldSorter :: "named_ptr \<Rightarrow> named_ptr \<Rightarrow> int" where
  "BSONElementFieldSorter x y = lexNumCmp (fst x) (fst y)"

definition si_new :: "((named_ptr \<Rightarrow> named_ptr \<Rightarrow> int) \<Rightarrow> named_ptr list \<Rightarrow> named_ptr list) \<Rightarrow> BSONObj \<Rightarrow> SortedIter run" where
  "si_new qs o1 = obnd (nFields o1) (\<lambda>n. obnd (Some (it_of o1)) (\<lambda>i.
     obnd (it_while it_more (\<lambda>xs e. if length xs \<ge> n then Some Stuck else
       obnd (Some (name_of e)) (\<lambda>s. Some (Ret (Inl (xs @ [(s, ebuf e, data e)]) :: _ + unit)))) [] i) (\<lambda>r.
     case r of Inl xs \<Rightarrow> if length xs \<noteq> n then Some (Raise 0)
         else Some (Ret \<lparr>si_fields = qs BSONElementFieldSorter xs, si_nfields = n, si_cur = 0\<rparr>)
       | Inr _ \<Rightarrow> Some Stuck)))"

definition si_more :: "SortedIter \<Rightarrow> bool" where
  "si_more i \<longleftrightarrow> si_cur i < si_nfields i"

definition si_next :: "SortedIter \<Rightarrow> (BSONElement \<times> SortedIter) res" where
  "si_next i = (if si_cur i < si_nfields i then
     (if si_cur i < length (si_fields i) then let p = snd (si_fields i ! si_cur i) in
        bnd (elem_at (fst p) (snd p)) (\<lambda>e. Ret (e, i\<lparr>si_cur := si_cur i + 1\<rparr>)) else Stuck)
     else Ret (elem_default, i))"

section \<open>A document as a map\<close>

definition bson2map :: "BSONObj \<Rightarrow> (u8 list, BSONElement) std_map run" where
  "bson2map o1 = obnd (Some (it_of o1)) (\<lambda>i.
     obnd (it_while it_more (\<lambda>m e. obnd (Some (name_of e)) (\<lambda>n. Some (Ret (Inl (smap_put n e m) :: _ + unit)))) [] i) (\<lambda>r.
     case r of Inl m \<Rightarrow> Some (Ret m) | Inr _ \<Rightarrow> Some Stuck))"

section \<open>EmbeddedBuilder\<close>

text \<open>
  The names of the open sub-documents and the builders, top first; the bottom builder has no name.
  \<open>std_exception\<close> stands for an exception of the C++ library, here \<open>std::out_of_range\<close>, a number
  that no assertion has.  The room that a new builder leaves holds whatever was there before.
\<close>

definition std_exception :: nat where "std_exception = 4294967295"

record EmbeddedBuilder =
  eb_names :: "u8 list list"
  eb_st :: "BSONObjBuilder list"

definition eb_new :: "BSONObjBuilder \<Rightarrow> EmbeddedBuilder" where
  "eb_new b = \<lparr>eb_names = [], eb_st = [b]\<rparr>"

definition eb_popBuilder :: "EmbeddedBuilder \<Rightarrow> EmbeddedBuilder res" where
  "eb_popBuilder eb = bnd (stk_pop (eb_st eb)) (\<lambda>st. Ret \<lparr>eb_names = tl (eb_names eb), eb_st = st\<rparr>)"

definition eb_addBuilder :: "(BSONObjBuilder list \<Rightarrow> u8 list) \<Rightarrow> u8 list \<Rightarrow> EmbeddedBuilder \<Rightarrow> EmbeddedBuilder res" where
  "eb_addBuilder room name eb = bnd (stk_push False name (room (eb_st eb)) (eb_st eb)) (\<lambda>st.
     Ret \<lparr>eb_names = name # eb_names eb, eb_st = st\<rparr>)"

text \<open>\<open>splitDot\<close>: what is before the first dot, and what \<open>str\<close> becomes.\<close>

definition eb_splitDot :: "u8 list \<Rightarrow> u8 list \<times> u8 list" where
  "eb_splitDot str = (case split_dot str of None \<Rightarrow> ([], str) | Some (l, r) \<Rightarrow> (l, r))"

text \<open>
  The first loop of \<open>prepareContext\<close>, over the names from the bottom: how many of them the name
  begins with, and what is left of it.  At the end of the name \<open>substr\<close> is called behind it.
\<close>

fun eb_match :: "u8 list list \<Rightarrow> u8 list \<Rightarrow> (nat \<times> u8 list) res" where
  "eb_match [] name = Ret (0, name)"
| "eb_match (n # ns) name = (if take (length n) name = n then
     (case drop (length n) name of [] \<Rightarrow> Raise std_exception
      | c # rest \<Rightarrow> if c = 0x2E \<or> c = 0 then bnd (eb_match ns rest) (\<lambda>(k, name). Ret (Suc k, name)) else Ret (0, name))
     else Ret (0, name))"

fun eb_pops :: "nat \<Rightarrow> EmbeddedBuilder \<Rightarrow> EmbeddedBuilder res" where
  "eb_pops 0 eb = Ret eb"
| "eb_pops (Suc k) eb = bnd (eb_popBuilder eb) (eb_pops k)"

function eb_adds :: "(BSONObjBuilder list \<Rightarrow> u8 list) \<Rightarrow> u8 list \<Rightarrow> EmbeddedBuilder \<Rightarrow> (u8 list \<times> EmbeddedBuilder) res" where
  "eb_adds room name eb = (let (nxt, name') = eb_splitDot name in
     if nxt = [] then Ret (name', eb) else bnd (eb_addBuilder room nxt eb) (eb_adds room name'))"
  by pat_completeness auto
termination
  by (relation "measure (\<lambda>(room, name, eb). length name)")
    (auto simp: eb_splitDot_def split: option.splits dest: split_dot_shorter)

declare eb_adds.simps [simp del]

definition eb_prepareContext :: "(BSONObjBuilder list \<Rightarrow> u8 list) \<Rightarrow> u8 list \<Rightarrow> EmbeddedBuilder \<Rightarrow> (u8 list \<times> EmbeddedBuilder) res" where
  "eb_prepareContext room name eb = bnd (eb_match (rev (eb_names eb)) name) (\<lambda>(k, name).
     bnd (eb_pops (length (eb_names eb) - k) eb) (\<lambda>eb. eb_adds room name eb))"

definition str_dot_foo :: "u8 list" where
  "str_dot_foo = [0x2E, 0x66, 0x6F, 0x6F]"

definition eb_appendAs :: "(BSONObjBuilder list \<Rightarrow> u8 list) \<Rightarrow> BSONElement \<Rightarrow> u8 list \<Rightarrow> EmbeddedBuilder \<Rightarrow> EmbeddedBuilder res" where
  "eb_appendAs room e name eb = bnd (elem_type e) (\<lambda>t. bnd (if t = Object then elem_valuesize e else Ret 0) (\<lambda>n.
     if t = Object \<and> n = 5 then bnd (eb_prepareContext room (name @ str_dot_foo) eb) (\<lambda>(_, eb). Ret eb)
     else bnd (eb_prepareContext room name eb) (\<lambda>(name, eb).
       bnd (stk_top (ob_appendAs e name) (eb_st eb)) (\<lambda>st. Ret (eb\<lparr>eb_st := st\<rparr>)))))"

definition eb_subarrayStartAs :: "(BSONObjBuilder list \<Rightarrow> u8 list) \<Rightarrow> u8 list \<Rightarrow> EmbeddedBuilder \<Rightarrow> EmbeddedBuilder res" where
  "eb_subarrayStartAs room name eb = bnd (eb_prepareContext room name eb) (\<lambda>(name, eb).
     bnd (stk_top (ob_subarrayStart name) (eb_st eb)) (\<lambda>st. Ret (eb\<lparr>eb_st := st\<rparr>)))"

definition eb_done :: "EmbeddedBuilder \<Rightarrow> EmbeddedBuilder res" where
  "eb_done eb = eb_pops (length (eb_names eb)) eb"

fun eb_appendAll :: "(BSONObjBuilder list \<Rightarrow> u8 list) \<Rightarrow> (u8 list \<times> BSONElement) list \<Rightarrow> EmbeddedBuilder \<Rightarrow> EmbeddedBuilder res" where
  "eb_appendAll room [] eb = Ret eb"
| "eb_appendAll room ((name, e) # m) eb = bnd (eb_appendAs room e name eb) (eb_appendAll room m)"

text \<open>\<open>dotted2nested\<close> into a given builder, and the document of its own that the inline version makes.\<close>

definition dotted2nested :: "(BSONObjBuilder list \<Rightarrow> u8 list) \<Rightarrow> BSONObjBuilder \<Rightarrow> BSONObj \<Rightarrow> BSONObjBuilder run" where
  "dotted2nested room b o1 = obnd (bson2map o1) (\<lambda>m. Some (bnd (eb_appendAll room m (eb_new b)) (\<lambda>eb.
     bnd (eb_done eb) (\<lambda>eb. case eb_st eb of [b] \<Rightarrow> Ret b | _ \<Rightarrow> Stuck))))"

definition dotted2nested_obj :: "bool \<Rightarrow> u8 list \<Rightarrow> (BSONObjBuilder list \<Rightarrow> u8 list) \<Rightarrow> BSONObj \<Rightarrow> BSONObj run" where
  "dotted2nested_obj oom room0 room o1 = obnd (Some (ob_new oom room0 512)) (\<lambda>b.
     obnd (dotted2nested room b o1) (\<lambda>b. Some (ob_obj b)))"

end
