(* ===== verification/BsonNestSpec.thy ===== *)
theory BsonNestSpec
  imports BsonNest "HOL-Library.Multiset"
begin

text \<open>
  What \<open>dotted2nested\<close> builds: a document that flattens to the fields of the given one in the order
  of their names, so that \<open>nested2dotted\<close> inverts it.  And what the sorted iterator visits.
\<close>

section \<open>Maps of elements\<close>

definition holds :: "buf \<Rightarrow> u8 list \<times> BSONElement \<Rightarrow> u8 list \<times> bval \<Rightarrow> bool" where
  "holds b x f \<longleftrightarrow> fst x = fst f \<and> (\<exists>q. snd x = raw_elem b q \<and> elem_in b q f)"

text \<open>The last field of each name, in the order of the names.\<close>

definition by_name :: "fields \<Rightarrow> fields" where
  "by_name fs = fold (\<lambda>f m. smap_put (fst f) (snd f) m) fs []"

lemma smap_put_holds:
  "list_all2 (holds b) m es \<Longrightarrow> elem_in b q f \<Longrightarrow>
    list_all2 (holds b) (smap_put (fst f) (raw_elem b q) m) (smap_put (fst f) (snd f) es)"
proof (induction m es rule: list_all2_induct)
  case Nil
  then show ?case
    by (auto simp: holds_def)
next
  case (Cons x m e es)
  then have "fst x = fst e"
    by (simp add: holds_def)
  with Cons show ?case
    by (cases f) (auto simp: holds_def)
qed

lemma run_map:
  "fields_in b p fs \<Longrightarrow> list_all2 (holds b) m es \<Longrightarrow> \<exists>m'. run_fields (\<lambda>m e. obnd (Some (name_of e)) (\<lambda>n.
      Some (Ret (Inl (smap_put n e m) :: _ + unit)))) m b p fs = Some (Ret (Inl m')) \<and>
    list_all2 (holds b) m' (fold (\<lambda>f m. smap_put (fst f) (snd f) m) fs es)"
proof (induction fs arbitrary: p m es)
  case (Cons f fs)
  then have f: "elem_in b p f" "fields_in b (p + int (length (enc_elem f))) fs"
    by (simp_all add: fields_in_Cons)
  show ?case
    using Cons.IH [OF f(2) smap_put_holds [OF Cons.prems(2) f(1)]] by (simp add: name_of_in [OF f(1)])
qed auto

theorem bson2map_in:
  "obj_in o1 fs \<Longrightarrow> \<exists>m. bson2map o1 = Some (Ret m) \<and> list_all2 (holds (fst o1)) m (by_name fs)"
  using run_map [OF obj_in_parts(2), of o1 fs "[]" "[]"]
  by (auto simp: bson2map_def by_name_def it_of_in it_while_fields [OF obj_in_parts(2)])

lemma by_name_ok: "smap_ok (by_name fs)" and by_name_lookup: "map_of (by_name fs) = map_of (rev fs)"
proof -
  have "smap_ok m \<Longrightarrow> smap_ok (fold (\<lambda>f m. smap_put (fst f) (snd f) m) fs m)" for m
    by (induction fs arbitrary: m) (simp_all add: smap_ok_put)
  then show "smap_ok (by_name fs)"
    by (simp add: by_name_def)
  have "map_of (fold (\<lambda>f m. smap_put (fst f) (snd f) m) fs m) = map_of m ++ map_of (rev fs)" for m
    by (induction fs arbitrary: m) (auto simp: fun_eq_iff map_add_def split: option.splits)
  then show "map_of (by_name fs) = map_of (rev fs)"
    by (simp add: by_name_def)
qed

lemma by_name_subset: "set (by_name fs) \<subseteq> set fs"
proof -
  have "set (fold (\<lambda>f m. smap_put (fst f) (snd f) m) fs m) \<subseteq> set m \<union> set fs" for m
    using set_smap_put by (induction fs arbitrary: m) fastforce+
  from this [of "[]"] show ?thesis
    by (simp add: by_name_def)
qed

section \<open>Parts of a name\<close>

function dot_parts :: "u8 list \<Rightarrow> u8 list list" where
  "dot_parts name = (case split_dot name of None \<Rightarrow> [name] | Some (l, r) \<Rightarrow> l # dot_parts r)"
  by pat_completeness auto
termination
  by (relation "measure length") (auto dest: split_dot_shorter)

declare dot_parts.simps [simp del]

definition dot_path :: "u8 list list \<Rightarrow> u8 list" where
  "dot_path ns = concat (map (\<lambda>n. n @ [0x2E]) ns)"

lemma dot_path_simps [simp]: "dot_path [] = []" "dot_path (n # ns) = n @ 0x2E # dot_path ns" "dot_path (ns @ ms) = dot_path ns @ dot_path ms"
  by (simp_all add: dot_path_def)

lemma split_dot_None: "split_dot name = None \<longleftrightarrow> 0x2E \<notin> set name"
proof (cases "split_dot name")
  case None
  then show ?thesis
    by (auto simp: split_dot_def dropWhile_eq_Nil_conv split: list.splits)
next
  case (Some lr)
  then have "name = fst lr @ 0x2E # snd lr"
    using split_dot_eq [of name "fst lr" "snd lr"] by simp
  then have "0x2E \<in> set name"
    by (metis in_set_conv_decomp)
  with Some show ?thesis
    by simp
qed

lemma split_dot_app: "0x2E \<notin> set l \<Longrightarrow> split_dot (l @ 0x2E # r) = Some (l, r)"
proof -
  assume l: "0x2E \<notin> set l"
  then have "\<forall>c \<in> set l. c \<noteq> 0x2E"
    by auto
  then have "dropWhile (\<lambda>c. c \<noteq> 0x2E) (l @ 0x2E # r) = 0x2E # r" "takeWhile (\<lambda>c. c \<noteq> 0x2E) (l @ 0x2E # r) = l"
    by (simp_all add: dropWhile_append2 takeWhile_append2)
  then show ?thesis
    by (simp add: split_dot_def)
qed

lemma dot_parts_one: "0x2E \<notin> set name \<Longrightarrow> dot_parts name = [name]"
  by (simp add: dot_parts.simps split_dot_None [THEN iffD2])

lemma dot_parts_app: "0x2E \<notin> set l \<Longrightarrow> dot_parts (l @ 0x2E # r) = l # dot_parts r"
  by (simp add: dot_parts.simps [of "l @ 0x2E # r"] split_dot_app)

lemma dot_parts_ne [simp]: "dot_parts name \<noteq> []"
  by (simp add: dot_parts.simps split: option.splits)

lemma dot_parts_all:
  "dot_path (butlast (dot_parts name)) @ last (dot_parts name) = name \<and> (\<forall>c \<in> set (dot_parts name). 0x2E \<notin> set c)"
proof (induction name rule: dot_parts.induct)
  case (1 name)
  show ?case
  proof (cases "split_dot name")
    case None
    then show ?thesis
      by (simp add: dot_parts_one split_dot_None)
  next
    case (Some lr)
    then obtain l r where lr: "split_dot name = Some (l, r)"
      by (cases lr) simp
    show ?thesis
      using "1.IH" [OF lr refl] split_dot_eq [OF lr] dot_parts_app [of l r] by simp
  qed
qed

lemmas dot_parts_path = dot_parts_all [THEN conjunct1]
lemmas dot_parts_free = dot_parts_all [THEN conjunct2, rule_format]

section \<open>prepareContext\<close>

fun common :: "u8 list list \<Rightarrow> u8 list list \<Rightarrow> nat" where
  "common (n # ns) (c # c' # cs) = (if n = c then Suc (common ns (c' # cs)) else 0)"
| "common _ _ = 0"

lemma common_le: "common ns cs \<le> length ns" "cs \<noteq> [] \<Longrightarrow> common ns cs < length cs"
  by (induction ns cs rule: common.induct) auto

lemma common_take: "take (common ns cs) ns = take (common ns cs) cs"
  by (induction ns cs rule: common.induct) auto

lemma eb_match_parts:
  assumes "\<forall>n \<in> set ns. 0x2E \<notin> set n" "0 \<notin> set name" "\<forall>k. dot_parts name \<noteq> take k ns"
  shows "\<exists>rest. eb_match ns name = Ret (common ns (dot_parts name), rest) \<and>
    dot_parts rest = drop (common ns (dot_parts name)) (dot_parts name)"
  using assms
proof (induction ns arbitrary: name)
  case (Cons n ns)
  have n: "0x2E \<notin> set n"
    using Cons.prems(1) by simp
  consider "0x2E \<notin> set name" | l r where "name = l @ 0x2E # r" "0x2E \<notin> set l"
    using split_dot_eq [of name] split_dot_None [of name] by (cases "split_dot name") auto
  then show ?case
  proof cases
    case 1
    then have p: "dot_parts name = [name]"
      by (rule dot_parts_one)
    have "name \<noteq> n"
      using Cons.prems(3) p by (metis take_Suc_Cons take0)
    moreover have "take (length n) name = n \<Longrightarrow> drop (length n) name = c # rest \<Longrightarrow> c \<noteq> 0x2E \<and> c \<noteq> 0" for c rest
      using 1 Cons.prems(2) by (metis append_take_drop_id in_set_conv_decomp)
    ultimately have "eb_match (n # ns) name = Ret (0, name)"
      by (auto split: list.splits simp: take_all_iff)
    then show ?thesis
      by (simp add: p)
  next
    case 2
    have p: "dot_parts name = l # dot_parts r"
      unfolding 2(1) by (rule dot_parts_app [OF 2(2)])
    obtain c cs where cs: "dot_parts r = c # cs"
      using dot_parts_ne by (metis list.exhaust)
    show ?thesis
    proof (cases "n = l")
      case True
      have "\<forall>k. dot_parts r \<noteq> take k ns"
        using Cons.prems(3) unfolding p True by (metis take_Suc_Cons)
      then obtain rest where "eb_match ns r = Ret (common ns (dot_parts r), rest)"
          "dot_parts rest = drop (common ns (dot_parts r)) (dot_parts r)"
        using Cons.IH [of r] Cons.prems(1,2) 2(1) by auto
      then show ?thesis
        using True 2(1) p cs by simp
    next
      case False
      have "\<not> (take (length n) name = n \<and> (\<exists>c rest. drop (length n) name = c # rest \<and> (c = 0x2E \<or> c = 0)))"
      proof
        assume "take (length n) name = n \<and> (\<exists>c rest. drop (length n) name = c # rest \<and> (c = 0x2E \<or> c = 0))"
        then obtain c rest where c: "name = n @ c # rest" "c = 0x2E \<or> c = 0"
          by (metis append_take_drop_id)
        then have "c = 0x2E"
          using Cons.prems(2) by auto
        then have "split_dot name = Some (n, rest)" "split_dot name = Some (l, r)"
          using split_dot_app n 2 c(1) by metis+
        then show False
          using False by simp
      qed
      moreover have "\<not> (take (length n) name = n \<and> drop (length n) name = [])"
        using n 2(1) by (metis append_Nil2 append_take_drop_id in_set_conv_decomp)
      ultimately have "eb_match (n # ns) name = Ret (0, name)"
        by (auto split: list.splits)
      then show ?thesis
        using False p cs by simp
    qed
  qed
qed simp


section \<open>The stack of sub-documents\<close>

definition frame_names :: "frame list \<Rightarrow> u8 list list" where
  "frame_names fr = rev (map (\<lambda>f. fst (snd f)) (butlast fr))"

definition eb_ok :: "u8 list \<Rightarrow> bool \<Rightarrow> EmbeddedBuilder \<Rightarrow> frame list \<Rightarrow> bool" where
  "eb_ok p0 own eb fr \<longleftrightarrow> stacked p0 own (eb_st eb) fr \<and> fr \<noteq> [] \<and> rev (eb_names eb) = frame_names fr"

lemma frame_names_push: "fr \<noteq> [] \<Longrightarrow> frame_names (apush a n fr) = frame_names fr @ [n]"
  by (simp add: frame_names_def apush_def)

lemma frame_names_pop: "frame_names (apop (f # f' # fr)) = butlast (frame_names (f # f' # fr))"
  by (cases f; cases f') (auto simp: frame_names_def butlast_append)

lemma frame_names_append [simp]: "frame_names (aappend hs fr) = frame_names fr"
  by (cases fr) (auto simp: frame_names_def)

lemma length_frame_names: "fr \<noteq> [] \<Longrightarrow> length (frame_names fr) = length fr - 1"
  by (simp add: frame_names_def)

lemma length_apop: "length (apop fr) = (if 2 \<le> length fr then length fr - 1 else length fr)"
  by (cases fr rule: apop.cases) auto

lemma names_pops: "k < length fr \<Longrightarrow> frame_names ((apop ^^ k) fr) = take (length fr - 1 - k) (frame_names fr) \<and>
    length ((apop ^^ k) fr) = length fr - k"
proof (induction k)
  case 0
  then show ?case
    by (simp add: length_frame_names)
next
  case (Suc k)
  then have ih: "frame_names ((apop ^^ k) fr) = take (length fr - 1 - k) (frame_names fr)" "length ((apop ^^ k) fr) = length fr - k"
    by simp_all
  with Suc.prems obtain f f' r where "(apop ^^ k) fr = f # f' # r"
    by (cases "(apop ^^ k) fr"; cases "tl ((apop ^^ k) fr)") auto
  then have "frame_names ((apop ^^ Suc k) fr) = butlast (take (length fr - 1 - k) (frame_names fr))"
    using ih(1) frame_names_pop [of f f' r] by simp
  also have "\<dots> = take (length fr - 1 - Suc k) (frame_names fr)"
    using Suc.prems length_frame_names [of fr] by (cases fr) (simp_all add: butlast_take)
  finally show ?case
    using ih(2) Suc.prems by (simp add: length_apop)
qed

lemma fits_doc_pops [simp]: "fits_doc p0 ((apop ^^ k) fr) = fits_doc p0 fr"
  by (induction k) simp_all

lemma eb_pops_ok:
  "eb_ok p0 own eb fr \<Longrightarrow> fits_doc p0 fr \<Longrightarrow> k < length fr \<Longrightarrow>
    \<exists>eb'. eb_pops k eb = Ret eb' \<and> eb_ok p0 own eb' ((apop ^^ k) fr)"
proof (induction k arbitrary: eb fr)
  case (Suc k)
  obtain a n gs f fr' where fr: "fr = (a, n, gs) # f # fr'"
    using Suc.prems(3) by (cases fr; cases "tl fr") auto
  obtain st where st: "stk_pop (eb_st eb) = Ret st" "stacked p0 own st (apop fr)"
    using stk_pop_ok [of p0 own "eb_st eb" a n gs f fr'] Suc.prems(1,2) unfolding fr eb_ok_def by auto
  let ?eb = "\<lparr>eb_names = tl (eb_names eb), eb_st = st\<rparr>"
  have "rev (tl (eb_names eb)) = butlast (frame_names fr)"
    using Suc.prems(1) unfolding eb_ok_def by (metis butlast_rev)
  then have "eb_ok p0 own ?eb (apop fr)"
    using st(2) Suc.prems(1) frame_names_pop [of "(a, n, gs)" f fr'] fr by (cases f) (simp add: eb_ok_def)
  moreover have "k < length (apop fr)" "fits_doc p0 (apop fr)"
    using Suc.prems(2,3) by (simp_all add: length_apop)
  ultimately obtain eb' where "eb_pops k ?eb = Ret eb'" "eb_ok p0 own eb' ((apop ^^ k) (apop fr))"
    using Suc.IH by blast
  then show ?case
    using st(1) by (simp add: eb_popBuilder_def funpow_swap1)
qed simp

definition apushes :: "u8 list list \<Rightarrow> frame list \<Rightarrow> frame list" where
  "apushes cs fr = foldl (\<lambda>fr c. apush False c fr) fr cs"

lemma apushes_simps [simp]: "apushes [] fr = fr" "apushes (c # cs) fr = apushes cs (apush False c fr)"
  by (simp_all add: apushes_def)

lemma fits_doc_push: "fits_doc p0 (apush a n fr) \<Longrightarrow> fr \<noteq> [] \<Longrightarrow> fits_doc p0 fr"
proof -
  assume a: "fits_doc p0 (apush a n fr)" "fr \<noteq> []"
  then obtain a' n' gs r where fr: "fr = (a', n', gs) # r"
    by (cases fr) auto
  have "length (enc_obj (aclose fr)) \<le> length (enc_obj (aclose (apush a n fr)))"
    unfolding fr apush_def aclose.simps(3) by (rule aclose_mono) (simp add: length_enc_obj)
  with a show ?thesis
    by (simp add: fits_doc_def)
qed

lemma apush_ne [simp]: "apush a n fr \<noteq> []"
  by (simp add: apush_def)

lemma fits_doc_pushes: "fits_doc p0 (apushes cs fr) \<Longrightarrow> fr \<noteq> [] \<Longrightarrow> fits_doc p0 fr"
proof (induction cs arbitrary: fr)
  case (Cons c cs)
  then have "fits_doc p0 (apush False c fr)"
    by simp
  then show ?case
    using Cons.prems(2) by (rule fits_doc_push)
qed simp

lemma eb_adds_ok:
  assumes "eb_ok p0 own eb fr" "0 \<notin> set name" "\<forall>c \<in> set (butlast (dot_parts name)). c \<noteq> []"
    and "fits_doc p0 (apushes (butlast (dot_parts name)) fr)" "\<forall>st. length (room st) = 4"
  shows "\<exists>eb'. eb_adds room name eb = Ret (last (dot_parts name), eb') \<and> eb_ok p0 own eb' (apushes (butlast (dot_parts name)) fr)"
  using assms(1-4)
proof (induction "length name" arbitrary: name eb fr rule: less_induct)
  case less
  show ?case
  proof (cases "split_dot name")
    case None
    then have "0x2E \<notin> set name"
      by (simp add: split_dot_None)
    then show ?thesis
      using less.prems(1) None by (simp add: eb_adds.simps [of room name] eb_splitDot_def dot_parts_one)
  next
    case (Some lr)
    then obtain l r where lr: "split_dot name = Some (l, r)"
      by (cases lr) simp
    note eq = split_dot_eq [OF lr]
    have p: "dot_parts name = l # dot_parts r"
      using dot_parts_app [of l r] eq by simp
    have l: "l \<noteq> []" "cname l"
      using less.prems(2,3) eq p by (auto simp: cname_def)
    have fit: "fits_doc p0 (apushes (butlast (dot_parts r)) (apush False l fr))"
      using less.prems(4) p by simp
    then have fit1: "fits_doc p0 (apush False l fr)"
      by (rule fits_doc_pushes) simp
    obtain st where st: "stk_push False l (room (eb_st eb)) (eb_st eb) = Ret st" "stacked p0 own st (apush False l fr)"
      using stk_push_ok [OF _ fit1 l(2)] less.prems(1) assms(5) unfolding eb_ok_def by blast
    let ?eb = "\<lparr>eb_names = l # eb_names eb, eb_st = st\<rparr>"
    have ok: "eb_ok p0 own ?eb (apush False l fr)"
      using st(2) less.prems(1) by (simp add: eb_ok_def frame_names_push)
    have "length r < length name" "0 \<notin> set r" "\<forall>c \<in> set (butlast (dot_parts r)). c \<noteq> []"
      using less.prems(2,3) eq p by auto
    then obtain eb' where "eb_adds room r ?eb = Ret (last (dot_parts r), eb')"
        "eb_ok p0 own eb' (apushes (butlast (dot_parts r)) (apush False l fr))"
      using less.hyps [OF _ ok] fit by blast
    then show ?thesis
      using st(1) l(1) p by (simp add: eb_adds.simps [of room name] eb_splitDot_def lr eb_addBuilder_def)
  qed
qed

text \<open>\<open>prepareContext\<close> on frames: close what is not on the way, open what is missing.\<close>

definition aprepare :: "u8 list \<Rightarrow> frame list \<Rightarrow> frame list" where
  "aprepare name fr = (let cs = dot_parts name; k = common (frame_names fr) cs in
     apushes (drop k (butlast cs)) ((apop ^^ (length fr - 1 - k)) fr))"

lemma eb_prepareContext_ok:
  assumes "eb_ok p0 own eb fr" "0 \<notin> set name" "\<forall>c \<in> set (butlast (dot_parts name)). c \<noteq> []"
    and "\<forall>k. dot_parts name \<noteq> take k (frame_names fr)" "\<forall>n \<in> set (frame_names fr). 0x2E \<notin> set n"
    and "fits_doc p0 (aprepare name fr)" "\<forall>st. length (room st) = 4"
  shows "\<exists>eb'. eb_prepareContext room name eb = Ret (last (dot_parts name), eb') \<and> eb_ok p0 own eb' (aprepare name fr)"
proof -
  define k where "k = common (frame_names fr) (dot_parts name)"
  have names: "rev (eb_names eb) = frame_names fr" "fr \<noteq> []"
    using assms(1) by (simp_all add: eb_ok_def)
  have len: "length (eb_names eb) = length fr - 1"
    using names length_frame_names [of fr] by (metis length_rev)
  obtain rest where rest: "eb_match (frame_names fr) name = Ret (k, rest)" "dot_parts rest = drop k (dot_parts name)"
    using eb_match_parts [OF assms(5,2,4)] k_def by blast
  have k: "k < length (dot_parts name)"
    using common_le(2) [OF dot_parts_ne] by (simp add: k_def)
  have parts: "butlast (dot_parts rest) = drop k (butlast (dot_parts name))" "last (dot_parts rest) = last (dot_parts name)"
    using rest(2) k by (simp_all add: butlast_drop last_drop)
  have "dot_path (butlast (dot_parts name)) @ last (dot_parts name) = name" "dot_path (butlast (dot_parts rest)) @ last (dot_parts rest) = rest"
    by (rule dot_parts_path)+
  moreover have "set (dot_path (drop k xs)) \<subseteq> set (dot_path xs)" for xs
    using set_drop_subset [of k xs] by (auto simp: dot_path_def)
  ultimately have z: "0 \<notin> set rest"
    using assms(2) parts by (metis (no_types, lifting) Un_iff set_append subsetD)
  have fit: "fits_doc p0 (apushes (butlast (dot_parts rest)) ((apop ^^ (length fr - 1 - k)) fr))"
    using assms(6) unfolding parts(1) aprepare_def Let_def k_def .
  have lt: "length fr - 1 - k < length fr"
    using names(2) by (cases fr) auto
  moreover have ne: "(apop ^^ (length fr - 1 - k)) fr \<noteq> []"
    using names_pops [OF lt] lt by (metis length_0_conv less_irrefl zero_less_diff)
  then have "fits_doc p0 fr"
    using fits_doc_pushes [OF fit] by simp
  ultimately obtain eb1 where eb1: "eb_pops (length fr - 1 - k) eb = Ret eb1" "eb_ok p0 own eb1 ((apop ^^ (length fr - 1 - k)) fr)"
    using eb_pops_ok [OF assms(1)] by blast
  have "\<forall>c \<in> set (butlast (dot_parts rest)). c \<noteq> []"
    using assms(3) parts(1) set_drop_subset by fastforce
  from eb_adds_ok [OF eb1(2) z this fit assms(7)] obtain eb' where
      "eb_adds room rest eb1 = Ret (last (dot_parts rest), eb')"
      "eb_ok p0 own eb' (apushes (butlast (dot_parts rest)) ((apop ^^ (length fr - 1 - k)) fr))"
    by blast
  then show ?thesis
    using rest(1) eb1(1) names(1) len parts by (simp add: eb_prepareContext_def aprepare_def Let_def k_def)
qed

lemma aprepare_names:
  assumes "fr \<noteq> []"
  shows "frame_names (aprepare name fr) = butlast (dot_parts name)" "aprepare name fr \<noteq> []"
proof -
  define k where "k = common (frame_names fr) (dot_parts name)"
  have push: "frame_names (apushes cs fr') = frame_names fr' @ cs \<and> apushes cs fr' \<noteq> []" if "fr' \<noteq> []" for cs fr'
    using that by (induction cs arbitrary: fr') (simp_all add: frame_names_push)
  have "k \<le> length fr - 1" "0 < length fr"
    using common_le(1) [of "frame_names fr" "dot_parts name"] assms by (simp_all add: length_frame_names k_def)
  then have "length fr - 1 - (length fr - 1 - k) = k" "length fr - 1 - k < length fr"
    by auto
  then have pop: "frame_names ((apop ^^ (length fr - 1 - k)) fr) = take k (frame_names fr)" "(apop ^^ (length fr - 1 - k)) fr \<noteq> []"
    using names_pops [of "length fr - 1 - k" fr] by auto
  have k: "k < length (dot_parts name)" "take k (frame_names fr) = take k (dot_parts name)"
    using common_le(2) [OF dot_parts_ne] by (simp_all add: k_def common_take)
  then have "take k (frame_names fr) = take k (butlast (dot_parts name))"
    by (simp add: take_butlast)
  then show "frame_names (aprepare name fr) = butlast (dot_parts name)" "aprepare name fr \<noteq> []"
    using push [OF pop(2)] pop(1) by (simp_all add: aprepare_def Let_def flip: k_def)
qed


section \<open>The nested document\<close>

definition astep :: "u8 list \<times> bval \<Rightarrow> frame list \<Rightarrow> frame list" where
  "astep f fr = (if snd f = VObject [] then aprepare (fst f @ str_dot_foo) fr
     else aappend [(last (dot_parts (fst f)), snd f)] (aprepare (fst f) fr))"

definition nest_from :: "frame list \<Rightarrow> fields \<Rightarrow> frame list" where
  "nest_from fr es = fold astep es fr"

definition nest :: "fields \<Rightarrow> fields" where
  "nest es = aclose (nest_from [(False, [], [])] es)"

text \<open>Names whose parts in front of a dot are not empty.\<close>

definition nestable :: "u8 list \<times> bval \<Rightarrow> bool" where
  "nestable f \<longleftrightarrow> cname (fst f) \<and> wf_val (snd f) \<and> (\<forall>c \<in> set (butlast (dot_parts (fst f))). c \<noteq> []) \<and>
     (snd f = VObject [] \<longrightarrow> last (dot_parts (fst f)) \<noteq> [])"

lemma dot_parts_snoc: "0x2E \<notin> set r \<Longrightarrow> dot_parts (name @ 0x2E # r) = dot_parts name @ [r]"
proof (induction name rule: dot_parts.induct)
  case (1 name)
  show ?case
  proof (cases "split_dot name")
    case None
    then have "0x2E \<notin> set name"
      by (simp add: split_dot_None)
    then show ?thesis
      using dot_parts_app [of name r] dot_parts_one [OF "1.prems"] dot_parts_one [of name] by simp
  next
    case (Some lr)
    then obtain l q where lr: "split_dot name = Some (l, q)"
      by (cases lr) simp
    note eq = split_dot_eq [OF lr]
    show ?thesis
      using "1.IH" [OF lr refl "1.prems"] dot_parts_app [of l q] dot_parts_app [of l "q @ 0x2E # r"] eq by simp
  qed
qed

lemma dot_parts_foo: "dot_parts (name @ str_dot_foo) = dot_parts name @ [[0x66, 0x6F, 0x6F]]"
  using dot_parts_snoc [of "[0x66, 0x6F, 0x6F]" name] by (simp add: str_dot_foo_def)

lemma prefix_le: "(xs :: u8 list) \<le> xs @ ys"
  by (induction xs) auto

text \<open>The open sub-documents lie on the way to the name before; a later name is none of them.\<close>

definition on_the_way :: "u8 list option \<Rightarrow> frame list \<Rightarrow> bool" where
  "on_the_way prev fr \<longleftrightarrow> fr \<noteq> [] \<and> (case prev of None \<Rightarrow> frame_names fr = []
     | Some name \<Rightarrow> \<exists>j. frame_names fr = take j (dot_parts name))"

lemma way_free: "on_the_way prev fr \<Longrightarrow> \<forall>n \<in> set (frame_names fr). 0x2E \<notin> set n"
  unfolding on_the_way_def using dot_parts_free in_set_takeD by (fastforce split: option.splits)

lemma dot_path_all: "dot_path (dot_parts name) = name @ [0x2E]"
proof -
  have "dot_path (butlast (dot_parts name) @ [last (dot_parts name)]) = dot_path (butlast (dot_parts name)) @ last (dot_parts name) @ [0x2E]"
    by (simp only: dot_path_simps append_Nil)
  then have "dot_path (dot_parts name) = (dot_path (butlast (dot_parts name)) @ last (dot_parts name)) @ [0x2E]"
    by (simp only: append_butlast_last_id [OF dot_parts_ne] append_assoc)
  then show ?thesis
    by (simp only: dot_parts_path)
qed

lemma parts_take_le:
  assumes "dot_parts name = take k (dot_parts prev)"
  shows "name \<le> prev"
proof (cases "k < length (dot_parts prev)")
  case True
  then have "dot_parts name = take k (butlast (dot_parts prev))"
    using assms by (simp add: take_butlast)
  then have "butlast (dot_parts prev) = dot_parts name @ drop k (butlast (dot_parts prev))"
    by (simp only: append_take_drop_id)
  then have "dot_path (butlast (dot_parts prev)) = dot_path (dot_parts name) @ dot_path (drop k (butlast (dot_parts prev)))"
    by (metis dot_path_simps(3))
  also have "\<dots> = name @ [0x2E] @ dot_path (drop k (butlast (dot_parts prev)))"
    by (simp only: dot_path_all append_assoc)
  finally have "dot_path (butlast (dot_parts prev)) @ last (dot_parts prev) =
      name @ ([0x2E] @ dot_path (drop k (butlast (dot_parts prev))) @ last (dot_parts prev))"
    by (simp only: append_assoc)
  then have "prev = name @ ([0x2E] @ dot_path (drop k (butlast (dot_parts prev))) @ last (dot_parts prev))"
    by (simp only: dot_parts_path)
  then obtain ys where "prev = name @ ys"
    by (rule that)
  then show ?thesis
    by (simp add: prefix_le)
next
  case False
  then have "dot_parts name = dot_parts prev"
    using assms by simp
  then have "name = prev"
    using dot_path_all by (metis append1_eq_conv)
  then show ?thesis
    by simp
qed

lemma way_new:
  assumes "on_the_way prev fr" "\<forall>p. prev = Some p \<longrightarrow> p < name"
  shows "dot_parts name \<noteq> take k (frame_names fr)"
proof
  assume eq: "dot_parts name = take k (frame_names fr)"
  then obtain p j where p: "prev = Some p" "frame_names fr = take j (dot_parts p)"
    using assms(1) by (auto simp: on_the_way_def split: option.splits)
  then have "name \<le> p"
    using eq parts_take_le [of name "min k j" p] by (simp add: min.commute)
  then show False
    using assms(2) p(1) by auto
qed

lemma aappend_ne [simp]: "aappend hs fr = [] \<longleftrightarrow> fr = []"
  by (cases fr) auto

lemma way_step:
  assumes "on_the_way prev fr"
  shows "on_the_way (Some (fst f)) (astep f fr)"
proof -
  have ne: "fr \<noteq> []"
    using assms by (simp add: on_the_way_def)
  show ?thesis
  proof (cases "snd f = VObject []")
    case True
    have "frame_names (astep f fr) = take (length (dot_parts (fst f))) (dot_parts (fst f))" "astep f fr \<noteq> []"
      using True aprepare_names [OF ne] by (simp_all add: astep_def dot_parts_foo)
    then show ?thesis
      unfolding on_the_way_def option.case by blast
  next
    case False
    have "frame_names (astep f fr) = take (length (dot_parts (fst f)) - 1) (dot_parts (fst f))" "astep f fr \<noteq> []"
      using False aprepare_names [OF ne] by (simp_all add: astep_def butlast_conv_take)
    then show ?thesis
      unfolding on_the_way_def option.case by blast
  qed
qed

section \<open>What it flattens to\<close>

lemma flatten_append: "flatten base (fs @ gs) = flatten base fs @ flatten base gs"
  by (induction base fs rule: flatten.induct) auto

lemma flatten_under: "flatten base [(n, v)] = flatten [] [(base @ n, v)]"
  by (cases v) simp_all

definition plain_frames :: "frame list \<Rightarrow> bool" where
  "plain_frames fr \<longleftrightarrow> (\<forall>f \<in> set fr. \<not> fst f)"

fun flat_frames :: "frame list \<Rightarrow> fields" where
  "flat_frames [] = []"
| "flat_frames (f # fr) = flat_frames fr @ flatten (dot_path (frame_names (f # fr))) (snd (snd f))"

lemma frame_names_Cons2: "frame_names ((a, n, gs) # f # fr) = frame_names (f # fr) @ [n]"
  by (simp add: frame_names_def)

lemma frame_names_fields: "frame_names ((a, n, gs) # fr) = frame_names ((a, n, hs) # fr)"
  by (simp add: frame_names_def)

lemma flat_apop: "plain_frames fr \<Longrightarrow> flat_frames (apop fr) = flat_frames fr \<and> plain_frames (apop fr)"
proof (cases fr rule: apop.cases)
  case (1 a n gs a' n' gs' fr')
  moreover assume "plain_frames fr"
  ultimately show ?thesis
    using frame_names_fields [of a' n' "gs' @ [(n, VObject gs)]" fr' gs']
    by (simp add: plain_frames_def doc_val_def flatten_append frame_names_Cons2)
qed auto

lemma flat_apops: "plain_frames fr \<Longrightarrow> flat_frames ((apop ^^ k) fr) = flat_frames fr \<and> plain_frames ((apop ^^ k) fr)"
  by (induction k) (simp_all add: flat_apop)

lemma flat_apush [simp]: "flat_frames (apush False c fr) = flat_frames fr" "plain_frames (apush False c fr) = plain_frames fr"
  by (simp_all add: apush_def plain_frames_def)

lemma flat_apushes: "flat_frames (apushes cs fr) = flat_frames fr \<and> plain_frames (apushes cs fr) = plain_frames fr"
  by (induction cs arbitrary: fr) simp_all

lemma flat_aclose: "plain_frames fr \<Longrightarrow> fr \<noteq> [] \<Longrightarrow> flatten [] (aclose fr) = flat_frames fr"
proof (induction fr rule: aclose.induct)
  case (3 a n gs a' n' gs' fr)
  have "flat_frames (apop ((a, n, gs) # (a', n', gs') # fr)) = flat_frames ((a, n, gs) # (a', n', gs') # fr)"
    "plain_frames (apop ((a, n, gs) # (a', n', gs') # fr))"
    using flat_apop [OF "3.prems"(1)] by auto
  with "3.IH" show ?case
    by simp
qed (simp_all add: frame_names_def)

lemma flat_astep:
  assumes "plain_frames fr" "fr \<noteq> []"
  shows "flat_frames (astep f fr) = flat_frames fr @ flatten [] [f] \<and> plain_frames (astep f fr)"
proof -
  have prep: "flat_frames (aprepare name fr) = flat_frames fr \<and> plain_frames (aprepare name fr)" for name
    unfolding aprepare_def Let_def by (simp add: flat_apushes flat_apops [OF assms(1)])
  show ?thesis
  proof (cases "snd f = VObject []")
    case True
    then show ?thesis
      using prep by (cases f) (simp add: astep_def)
  next
    case False
    obtain n gs fr' where fr': "aprepare (fst f) fr = (False, n, gs) # fr'"
      using aprepare_names(2) [OF assms(2), of "fst f"] prep [of "fst f"]
      by (cases "aprepare (fst f) fr") (auto simp: plain_frames_def)
    have "dot_path (frame_names (aprepare (fst f) fr)) @ last (dot_parts (fst f)) = fst f"
      using dot_parts_path aprepare_names(1) [OF assms(2)] by simp
    then have "flatten (dot_path (frame_names (aprepare (fst f) fr))) [(last (dot_parts (fst f)), snd f)] = flatten [] [f]"
      unfolding flatten_under [of "dot_path (frame_names (aprepare (fst f) fr))"] by simp
    moreover have "frame_names ((False, n, gs @ [(last (dot_parts (fst f)), snd f)]) # fr') = frame_names (aprepare (fst f) fr)"
      unfolding fr' by (rule frame_names_fields)
    ultimately show ?thesis
      using prep [of "fst f"] False by (simp add: astep_def fr' plain_frames_def flatten_append)
  qed
qed

lemma flat_nest_from: "plain_frames fr \<Longrightarrow> fr \<noteq> [] \<Longrightarrow> on_the_way prev fr \<Longrightarrow>
    flat_frames (nest_from fr es) = flat_frames fr @ flatten [] es \<and> plain_frames (nest_from fr es) \<and> nest_from fr es \<noteq> []"
proof (induction es arbitrary: fr prev)
  case (Cons e es)
  have "astep e fr \<noteq> []"
    using way_step [OF Cons.prems(3), of e] by (simp add: on_the_way_def)
  then show ?case
    using Cons.IH [OF _ _ way_step [OF Cons.prems(3), of e]] flat_astep [OF Cons.prems(1,2), of e]
      flatten_append [of "[]" "[e]" es] by (simp add: nest_from_def)
qed (simp add: nest_from_def)

theorem flatten_nest: "flatten [] (nest es) = flatten [] es"
proof -
  let ?fr = "[(False, [], [])] :: frame list"
  have "plain_frames ?fr" "on_the_way None ?fr"
    by (simp_all add: plain_frames_def on_the_way_def frame_names_def)
  then show ?thesis
    using flat_nest_from [of ?fr None es] flat_aclose [of "nest_from ?fr es"] by (simp add: nest_def)
qed


section \<open>The code builds the nested document\<close>

lemma fits_doc_append: "fits_doc p0 (aappend hs fr) \<Longrightarrow> fits_doc p0 fr"
proof (cases fr)
  case (Cons f r)
  obtain a n gs where f: "f = (a, n, gs)"
    by (cases f)
  assume "fits_doc p0 (aappend hs fr)"
  then show ?thesis
    using aclose_mono [of gs "gs @ hs" a n r] Cons f by (simp add: fits_doc_def length_enc_obj)
qed simp

lemma fits_doc_prepare: "fits_doc p0 (aprepare name fr) \<Longrightarrow> fr \<noteq> [] \<Longrightarrow> fits_doc p0 fr"
proof -
  assume a: "fits_doc p0 (aprepare name fr)" "fr \<noteq> []"
  define k where "k = length fr - 1 - common (frame_names fr) (dot_parts name)"
  have "k < length fr"
    using a(2) by (cases fr) (auto simp: k_def)
  then have "(apop ^^ k) fr \<noteq> []"
    using names_pops [of k fr] by auto
  then show ?thesis
    using a(1) fits_doc_pushes [of p0 _ "(apop ^^ k) fr"] by (auto simp: aprepare_def Let_def k_def)
qed

lemma fits_doc_step: "fits_doc p0 (astep f fr) \<Longrightarrow> fr \<noteq> [] \<Longrightarrow> fits_doc p0 fr"
  by (auto simp: astep_def dest: fits_doc_append fits_doc_prepare split: if_splits)

lemma fits_doc_nest: "fits_doc p0 (nest_from fr es) \<Longrightarrow> on_the_way prev fr \<Longrightarrow> fits_doc p0 fr"
proof (induction es arbitrary: fr prev)
  case (Cons e es)
  then have "fits_doc p0 (astep e fr)"
    using way_step [OF Cons.prems(2), of e] by (auto simp: nest_from_def)
  then show ?case
    using Cons.prems(2) fits_doc_step by (auto simp: on_the_way_def)
qed (simp add: nest_from_def)

lemma foo_cname: "cname name \<Longrightarrow> 0 \<notin> set (name @ str_dot_foo)"
  by (auto simp: cname_def str_dot_foo_def)

lemma eb_appendAs_ok:
  assumes "eb_ok p0 own eb fr" "on_the_way prev fr" "\<forall>p. prev = Some p \<longrightarrow> p < fst f" "nestable f" "elem_in b q f"
    and "fits_doc p0 (astep f fr)" "\<forall>st. length (room st) = 4"
  shows "\<exists>eb'. eb_appendAs room (raw_elem b q) (fst f) eb = Ret eb' \<and> eb_ok p0 own eb' (astep f fr)"
proof -
  have name: "cname (fst f)" "\<forall>c \<in> set (butlast (dot_parts (fst f))). c \<noteq> []"
    using assms(4) by (simp_all add: nestable_def)
  note ty = elem_type_in [OF assms(5) raw_elem_of] valuesize_in [OF assms(5)]
  show ?thesis
  proof (cases "snd f = VObject []")
    case True
    have "\<forall>c \<in> set (dot_parts (fst f)). c \<noteq> []"
      using name(2) assms(4) True append_butlast_last_id [OF dot_parts_ne, of "fst f"]
      by (metis Un_iff empty_iff insert_iff list.simps(15) nestable_def set_append list.set(1))
    moreover have "\<forall>p. prev = Some p \<longrightarrow> p < fst f @ str_dot_foo"
      using assms(3) prefix_le less_le_trans by blast
    then have "\<forall>k. dot_parts (fst f @ str_dot_foo) \<noteq> take k (frame_names fr)"
      using way_new [OF assms(2)] by blast
    ultimately obtain eb' where "eb_prepareContext room (fst f @ str_dot_foo) eb = Ret (last (dot_parts (fst f @ str_dot_foo)), eb')"
        "eb_ok p0 own eb' (aprepare (fst f @ str_dot_foo) fr)"
      using eb_prepareContext_ok [OF assms(1) foo_cname [OF name(1)] _ _ way_free [OF assms(2)] _ assms(7)] assms(6) True
      by (auto simp: dot_parts_foo astep_def)
    then show ?thesis
      using ty True by (simp add: eb_appendAs_def astep_def)
  next
    case False
    let ?fr = "aprepare (fst f) fr"
    have fit: "fits_doc p0 (aappend [(last (dot_parts (fst f)), snd f)] ?fr)"
      using assms(6) False by (simp add: astep_def)
    have "\<forall>k. dot_parts (fst f) \<noteq> take k (frame_names fr)"
      using way_new [OF assms(2,3)] by blast
    then obtain eb1 where eb1: "eb_prepareContext room (fst f) eb = Ret (last (dot_parts (fst f)), eb1)" "eb_ok p0 own eb1 ?fr"
      using eb_prepareContext_ok [OF assms(1) _ name(2) _ way_free [OF assms(2)] fits_doc_append [OF fit] assms(7)] name(1)
      by (auto simp: cname_def)
    have "cname (last (dot_parts (fst f)))"
      using name(1) dot_parts_path [of "fst f"] by (metis Un_iff cname_def set_append)
    then have "\<exists>st. stk_top (ob_appendAs (raw_elem b q) (last (dot_parts (fst f)))) (eb_st eb1) = Ret st \<and>
        stacked p0 own st (aappend [(last (dot_parts (fst f)), snd f)] ?fr)"
      using eb1(2) appendAs_ok [OF _ assms(5)] by (intro stk_top_ok [OF _ fit]) (simp_all add: eb_ok_def)
    then obtain st where st: "stk_top (ob_appendAs (raw_elem b q) (last (dot_parts (fst f)))) (eb_st eb1) = Ret st"
        "stacked p0 own st (aappend [(last (dot_parts (fst f)), snd f)] ?fr)"
      by blast
    have "\<not> (btype (snd f) = Object \<and> length (enc_val (snd f)) = 5)"
      using False by (cases "snd f") (auto simp: enc_doc_def)
    then have "eb_appendAs room (raw_elem b q) (fst f) eb = Ret (eb1\<lparr>eb_st := st\<rparr>)"
      using ty eb1(1) st(1) by (auto simp: eb_appendAs_def)
    moreover have "eb_ok p0 own (eb1\<lparr>eb_st := st\<rparr>) (astep f fr)"
      using st(2) eb1(2) False by (simp add: eb_ok_def astep_def)
    ultimately show ?thesis
      by blast
  qed
qed

lemma eb_appendAll_ok:
  assumes "list_all2 (holds b) m es" "eb_ok p0 own eb fr" "on_the_way prev fr" "\<forall>p. prev = Some p \<longrightarrow> (\<forall>e \<in> set es. p < fst e)"
    and "sorted_wrt (<) (map fst es)" "\<forall>e \<in> set es. nestable e" "fits_doc p0 (nest_from fr es)" "\<forall>st. length (room st) = 4"
  shows "\<exists>eb'. eb_appendAll room m eb = Ret eb' \<and> eb_ok p0 own eb' (nest_from fr es)"
  using assms(1-7)
proof (induction m es arbitrary: eb fr prev rule: list_all2_induct)
  case (Cons x m e es)
  obtain q where x: "x = (fst e, raw_elem b q)" "elem_in b q e"
    using Cons.hyps(1) by (cases x) (auto simp: holds_def)
  have way: "on_the_way (Some (fst e)) (astep e fr)"
    by (rule way_step [OF Cons.prems(2)])
  have fit: "fits_doc p0 (nest_from (astep e fr) es)"
    using Cons.prems(6) by (simp add: nest_from_def)
  obtain eb1 where eb1: "eb_appendAs room (raw_elem b q) (fst e) eb = Ret eb1" "eb_ok p0 own eb1 (astep e fr)"
    using eb_appendAs_ok [OF Cons.prems(1,2) _ _ x(2) fits_doc_nest [OF fit way] assms(8)] Cons.prems(3,5) by auto
  have "\<exists>eb'. eb_appendAll room m eb1 = Ret eb' \<and> eb_ok p0 own eb' (nest_from (astep e fr) es)"
    using Cons.prems(4,5) by (intro Cons.IH [OF eb1(2) way _ _ _ fit]) auto
  then show ?case
    using eb1(1) x(1) by (simp add: nest_from_def)
qed (simp add: nest_from_def)

lemma aclose_pop [simp]: "aclose (apop fr) = aclose fr"
  by (cases fr rule: apop.cases) simp_all

lemma aclose_pops: "fr \<noteq> [] \<Longrightarrow> \<exists>a n. (apop ^^ (length fr - 1)) fr = [(a, n, aclose fr)]"
proof -
  assume ne: "fr \<noteq> []"
  have "aclose ((apop ^^ k) fr) = aclose fr" for k
    by (induction k) simp_all
  moreover have "length ((apop ^^ (length fr - 1)) fr) = 1"
    using names_pops [of "length fr - 1" fr] ne by (cases fr) auto
  then obtain x where x: "(apop ^^ (length fr - 1)) fr = [x]"
    by (auto simp: length_Suc_conv)
  moreover obtain a n gs where "x = (a, n, gs)"
    by (cases x)
  ultimately have "(apop ^^ (length fr - 1)) fr = [(a, n, aclose fr)]"
    using aclose.simps(2) [of a n gs] by metis
  then show ?thesis
    by blast
qed

theorem dotted2nested_in:
  assumes "obj_in o1 fs" "\<forall>f \<in> set fs. nestable f" "builds ob p0 gs" "\<forall>st. length (room st) = 4"
    and "fits_doc p0 (nest_from [(False, [], gs)] (by_name fs))"
  shows "\<exists>ob'. dotted2nested room ob o1 = Some (Ret ob') \<and>
    builds ob' p0 (aclose (nest_from [(False, [], gs)] (by_name fs))) \<and> ob_owned ob' = ob_owned ob"
proof -
  let ?fr = "[(False, [], gs)]" and ?own = "ob_owned ob"
  obtain m where m: "bson2map o1 = Some (Ret m)" "list_all2 (holds (fst o1)) m (by_name fs)"
    using bson2map_in [OF assms(1)] by blast
  have way: "on_the_way None ?fr"
    by (simp add: on_the_way_def frame_names_def)
  have "eb_ok p0 ?own (eb_new ob) ?fr"
    using assms(3) by (simp add: eb_ok_def eb_new_def frame_names_def)
  moreover have "sorted_wrt (<) (map fst (by_name fs))"
    using by_name_ok by (simp add: smap_ok_def)
  moreover have "\<forall>e \<in> set (by_name fs). nestable e"
    using assms(2) by_name_subset by blast
  ultimately obtain eb where eb: "eb_appendAll room m (eb_new ob) = Ret eb" "eb_ok p0 ?own eb (nest_from ?fr (by_name fs))"
    using eb_appendAll_ok [OF m(2) _ way] assms(4,5) by blast
  let ?all = "nest_from ?fr (by_name fs)"
  have ne: "?all \<noteq> []" "rev (eb_names eb) = frame_names ?all"
    using eb(2) by (simp_all add: eb_ok_def)
  then have len: "length (eb_names eb) = length ?all - 1"
    using length_frame_names by (metis length_rev)
  moreover have "length ?all - 1 < length ?all"
    using ne(1) by (cases ?all) auto
  ultimately obtain eb' where eb': "eb_done eb = Ret eb'" "eb_ok p0 ?own eb' ((apop ^^ (length ?all - 1)) ?all)"
    using eb_pops_ok [OF eb(2) assms(5)] by (auto simp: eb_done_def)
  obtain a n where "(apop ^^ (length ?all - 1)) ?all = [(a, n, aclose ?all)]"
    using aclose_pops [OF ne(1)] by blast
  then obtain ob' where "eb_st eb' = [ob']" "builds ob' p0 (aclose ?all)" "ob_owned ob' = ?own"
    using eb'(2) by (auto simp: eb_ok_def stacked_one)
  then show ?thesis
    using m(1) eb(1) eb'(1) by (simp add: dotted2nested_def)
qed

theorem dotted2nested_obj_in:
  assumes "obj_in o1 fs" "\<forall>f \<in> set fs. nestable f" "length room0 = 4" "\<forall>st. length (room st) = 4"
    and "int (length (enc_obj (nest (by_name fs)))) \<le> BSONObjMaxInternalSize"
  shows "dotted2nested_obj False room0 room o1 = Some (Ret (le32 0 @ enc_obj (nest (by_name fs)), 4))"
    "obj_in (le32 0 @ enc_obj (nest (by_name fs)), 4) (nest (by_name fs))"
proof -
  obtain ob where ob: "ob_new False room0 512 = Ret ob" "builds ob (le32 0) []" "ob_owned ob"
    using ob_new_ok [OF assms(3), of 512] by auto
  have "fits_doc (le32 0) (nest_from [(False, [], [])] (by_name fs))"
    using assms(5) by (simp add: fits_doc_def nest_def)
  then obtain ob' where ob': "dotted2nested room ob o1 = Some (Ret ob')" "builds ob' (le32 0) (nest (by_name fs))" "ob_owned ob'"
    using dotted2nested_in [OF assms(1,2) ob(2) assms(4)] ob(3) by (auto simp: nest_def)
  have "length (le32 0) \<le> 1024"
    by simp
  from ob_obj_ok [OF ob'(2,3) assms(5) this] show
    "dotted2nested_obj False room0 room o1 = Some (Ret (le32 0 @ enc_obj (nest (by_name fs)), 4))"
    "obj_in (le32 0 @ enc_obj (nest (by_name fs)), 4) (nest (by_name fs))"
    using ob(1) ob'(1) by (simp_all add: dotted2nested_obj_def)
qed

text \<open>Nesting and flattening again sorts the fields by name.\<close>

lemma flatten_flat: "\<forall>f \<in> set fs. \<forall>gs. snd f \<noteq> VObject gs \<Longrightarrow> flatten [] fs = fs"
proof (induction fs)
  case (Cons f fs)
  then show ?case
    by (cases f; cases "snd f") auto
qed simp

theorem nest_then_flatten:
  assumes "obj_in o1 fs" "\<forall>f \<in> set fs. nestable f \<and> (\<forall>gs. snd f \<noteq> VObject gs)" "length room0 = 4" "\<forall>st. length (room st) = 4"
    and "int (length (enc_obj (nest (by_name fs)))) \<le> BSONObjMaxInternalSize"
    and "int (length (enc_obj (by_name fs))) \<le> BSONObjMaxInternalSize"
  shows "obnd (dotted2nested_obj False room0 room o1) (dotted_document room0) = Some (Ret (le32 0 @ enc_obj (by_name fs), 4))"
proof -
  have n: "\<forall>f \<in> set fs. nestable f"
    using assms(2) by blast
  have "flatten [] (nest (by_name fs)) = by_name fs"
    using assms(2) by_name_subset [of fs] flatten_flat [of "by_name fs"] by (auto simp: flatten_nest)
  then show ?thesis
    using dotted_document_in [OF dotted2nested_obj_in(2) [OF assms(1) n assms(3-5)] assms(3)] assms(6)
      dotted2nested_obj_in(1) [OF assms(1) n assms(3-5)] by simp
qed


section \<open>Sorted iteration\<close>

text \<open>What the C standard promises of \<open>qsort\<close>, for the comparison it is called with.\<close>

definition qsort_ok :: "((named_ptr \<Rightarrow> named_ptr \<Rightarrow> int) \<Rightarrow> named_ptr list \<Rightarrow> named_ptr list) \<Rightarrow> bool" where
  "qsort_ok qs \<longleftrightarrow> (\<forall>xs. mset (qs BSONElementFieldSorter xs) = mset xs \<and>
     sorted_wrt (\<lambda>x y. BSONElementFieldSorter x y \<le> 0) (qs BSONElementFieldSorter xs))"

text \<open>All elements that \<open>next\<close> returns while there are \<open>more\<close>.\<close>

lemma si_next_step: "si_next i = Ret (e, i') \<Longrightarrow> si_more i \<Longrightarrow> i' = i\<lparr>si_cur := si_cur i + 1\<rparr>"
  by (auto simp: si_next_def si_more_def Let_def bnd_eq_Ret split: if_splits)

function si_all :: "SortedIter \<Rightarrow> BSONElement list res" where
  "si_all i = (if si_more i then bnd (si_next i) (\<lambda>(e, i'). bnd (si_all i') (\<lambda>es. Ret (e # es))) else Ret [])"
  by pat_completeness auto
termination
  by (relation "measure (\<lambda>i. si_nfields i - si_cur i)") (auto dest!: si_next_step simp: si_more_def)

declare si_all.simps [simp del]

definition points :: "buf \<Rightarrow> named_ptr \<Rightarrow> u8 list \<times> bval \<Rightarrow> bool" where
  "points b p f \<longleftrightarrow> fst p = fst f \<and> fst (snd p) = b \<and> elem_in b (snd (snd p)) f"

lemma si_all_points:
  "list_all2 (points b) ps gs \<Longrightarrow> k \<le> length ps \<Longrightarrow>
    \<exists>es. si_all \<lparr>si_fields = ps, si_nfields = length ps, si_cur = k\<rparr> = Ret es \<and>
      list_all2 (\<lambda>e f. \<exists>q. e = raw_elem b q \<and> elem_in b q f) es (drop k gs)"
proof (induction "length ps - k" arbitrary: k)
  case 0
  then show ?case
    by (simp add: si_all.simps si_more_def list_all2_lengthD)
next
  case (Suc d)
  then have k: "k < length ps" "k < length gs"
    by (auto dest: list_all2_lengthD)
  have "points b (ps ! k) (gs ! k)"
    using Suc.prems(1) k(1) by (rule list_all2_nthD)
  then obtain q where q: "snd (ps ! k) = (b, q)" "elem_in b q (gs ! k)"
    by (cases "snd (ps ! k)") (auto simp: points_def)
  then have nx: "si_next \<lparr>si_fields = ps, si_nfields = length ps, si_cur = k\<rparr> =
      Ret (raw_elem b q, \<lparr>si_fields = ps, si_nfields = length ps, si_cur = Suc k\<rparr>)"
    using k(1) elem_at_in [OF q(2)] by (simp add: si_next_def raw_elem_def)
  have d: "d = length ps - Suc k" and sk: "Suc k \<le> length ps"
    using Suc.hyps(2) k(1) by simp_all
  obtain es where es: "si_all \<lparr>si_fields = ps, si_nfields = length ps, si_cur = Suc k\<rparr> = Ret es"
      "list_all2 (\<lambda>e f. \<exists>q. e = raw_elem b q \<and> elem_in b q f) es (drop (Suc k) gs)"
    using Suc.hyps(1) [OF d Suc.prems(1) sk] by blast
  have "drop k gs = gs ! k # drop (Suc k) gs"
    using k(2) by (simp add: Cons_nth_drop_Suc)
  then show ?case
    using k(1) nx es q(2) by (auto simp: si_all.simps [of "\<lparr>si_fields = ps, si_nfields = length ps, si_cur = k\<rparr>"] si_more_def)
qed

lemma run_points:
  "fields_in b p fs \<Longrightarrow> length xs + length fs \<le> n \<Longrightarrow> \<exists>ps. run_fields (\<lambda>xs e. if length xs \<ge> n then Some Stuck else
       obnd (Some (name_of e)) (\<lambda>s. Some (Ret (Inl (xs @ [(s, ebuf e, data e)]) :: _ + unit)))) xs b p fs = Some (Ret (Inl (xs @ ps))) \<and>
    list_all2 (points b) ps fs"
proof (induction fs arbitrary: xs p)
  case (Cons f fs)
  then have f: "elem_in b p f" "fields_in b (p + int (length (enc_elem f))) fs"
    by (simp_all add: fields_in_Cons)
  have "points b (fst f, b, p) f"
    using f(1) by (simp add: points_def)
  moreover have "ebuf (raw_elem b p) = b" "data (raw_elem b p) = p"
    by (simp_all add: raw_elem_def)
  moreover have "length (xs @ [(fst f, b, p)]) + length fs \<le> n"
    using Cons.prems(2) by simp
  from Cons.IH [OF f(2) this] obtain ps where "run_fields (\<lambda>xs e. if length xs \<ge> n then Some Stuck else
       obnd (Some (name_of e)) (\<lambda>s. Some (Ret (Inl (xs @ [(s, ebuf e, data e)]) :: _ + unit)))) (xs @ [(fst f, b, p)]) b
       (p + int (length (enc_elem f))) fs = Some (Ret (Inl ((xs @ [(fst f, b, p)]) @ ps)))" "list_all2 (points b) ps fs"
    by blast
  ultimately show ?case
    using Cons.prems(2) by (intro exI [of _ "(fst f, b, p) # ps"]) (simp add: name_of_in [OF f(1)])
qed simp

theorem sorted_visits:
  assumes "obj_in o1 fs" "qsort_ok qs"
  shows "\<exists>i es gs. si_new qs o1 = Some (Ret i) \<and> si_all i = Ret es \<and> mset gs = mset fs \<and>
    sorted_wrt (\<lambda>f g. lexNumCmp (fst f) (fst g) \<le> 0) gs \<and>
    list_all2 (\<lambda>e f. \<exists>q. e = raw_elem (fst o1) q \<and> elem_in (fst o1) q f) es gs"
proof -
  let ?b = "fst o1"
  obtain ps where ps: "run_fields (\<lambda>xs e. if length xs \<ge> length fs then Some Stuck else
       obnd (Some (name_of e)) (\<lambda>s. Some (Ret (Inl (xs @ [(s, ebuf e, data e)]) :: _ + unit)))) [] ?b (snd o1 + 4) fs =
      Some (Ret (Inl ps))" "list_all2 (points ?b) ps fs"
    using run_points [OF obj_in_parts(2) [OF assms(1)], of "[]" "length fs"] by auto
  define ys where "ys = qs BSONElementFieldSorter ps"
  have ys: "mset ys = mset ps" "sorted_wrt (\<lambda>x y. lexNumCmp (fst x) (fst y) \<le> 0) ys"
    using assms(2) by (simp_all add: qsort_ok_def ys_def BSONElementFieldSorter_def)
  obtain gs where gs: "list_all2 (points ?b) ys gs" "mset gs = mset fs"
    using list_all2_reorder_left_invariance [OF ps(2) ys(1)] by blast
  have len: "length ys = length ps" "length ps = length fs"
    using ys(1) ps(2) by (auto dest: mset_eq_length list_all2_lengthD)
  have new: "si_new qs o1 = Some (Ret \<lparr>si_fields = ys, si_nfields = length ys, si_cur = 0\<rparr>)"
    using ps(1) len by (simp add: si_new_def nFields_in [OF assms(1)] it_of_in [OF assms(1)]
        it_while_fields [OF obj_in_parts(2) [OF assms(1)]] ys_def)
  obtain es where "si_all \<lparr>si_fields = ys, si_nfields = length ys, si_cur = 0\<rparr> = Ret es"
      "list_all2 (\<lambda>e f. \<exists>q. e = raw_elem ?b q \<and> elem_in ?b q f) es gs"
    using si_all_points [OF gs(1), of 0] by auto
  moreover have "sorted_wrt (\<lambda>f g. lexNumCmp (fst f) (fst g) \<le> 0) gs"
    using ys(2) gs(1) by (auto simp: sorted_wrt_iff_nth_less points_def list_all2_conv_all_nth)
  ultimately show ?thesis
    using new gs(2) by blast
qed

text \<open>A sorting that keeps the promise.\<close>

fun sort_in :: "('a \<Rightarrow> 'a \<Rightarrow> int) \<Rightarrow> 'a \<Rightarrow> 'a list \<Rightarrow> 'a list" where
  "sort_in c x [] = [x]"
| "sort_in c x (y # ys) = (if c x y \<le> 0 then x # y # ys else y # sort_in c x ys)"

definition insertion_qsort :: "('a \<Rightarrow> 'a \<Rightarrow> int) \<Rightarrow> 'a list \<Rightarrow> 'a list" where
  "insertion_qsort c xs = foldr (sort_in c) xs []"

lemma mset_sort_in [simp]: "mset (sort_in c x ys) = add_mset x (mset ys)"
  by (induction ys) auto

lemma set_sort_in [simp]: "set (sort_in c x ys) = insert x (set ys)"
  by (induction ys) auto

lemma insertion_qsort_ok: "qsort_ok insertion_qsort"
  unfolding qsort_ok_def
proof
  fix xs
  let ?R = "\<lambda>x y. BSONElementFieldSorter x y \<le> 0"
  have total: "?R y x" if "\<not> ?R x y" for x y
    using lex.total [of "fst x" "fst y"] that by (auto simp: BSONElementFieldSorter_def)
  have trans: "?R x z" if "?R x y" "?R y z" for x y z
    using lex.le_trans [of "fst x" "fst y" "fst z"] that by (auto simp: BSONElementFieldSorter_def)
  have ins: "sorted_wrt ?R (sort_in BSONElementFieldSorter x ys)" if "sorted_wrt ?R ys" for x ys
    using that
  proof (induction ys)
    case (Cons y ys)
    show ?case
    proof (cases "?R x y")
      case True
      have "?R x z" if "z \<in> set ys" for z
        using trans [OF True] Cons.prems that by simp
      with True Cons.prems show ?thesis
        by simp
    next
      case False
      with total [OF False] Cons show ?thesis
        by simp
    qed
  qed simp
  have "sorted_wrt ?R (insertion_qsort BSONElementFieldSorter xs)" "mset (insertion_qsort BSONElementFieldSorter xs) = mset xs"
    unfolding insertion_qsort_def by (induction xs) (simp_all add: ins)
  then show "mset (insertion_qsort BSONElementFieldSorter xs) = mset xs \<and> sorted_wrt ?R (insertion_qsort BSONElementFieldSorter xs)"
    by simp
qed

end
