(* ===== verification/BsonQuery.thy ===== *)
theory BsonQuery
  imports BsonBounds
begin

text \<open>
  Reading queries and arrays: the operator an element's name stands for, all matches of a dotted
  name, several fields at once, and an array as a vector (\<open>bson/src/bsonobj.cpp\<close>, \<open>bson/src/bson-inl.h\<close>).
\<close>

section \<open>Operators\<close>

datatype MatchType = Equality | LT | LTE | GTE | GT | opIN | NE | opSIZE | opALL | NIN | opEXISTS | opMOD | opTYPE
  | opREGEX | opOPTIONS | opELEM_MATCH | opNEAR | opWITHIN | opMAX_DISTANCE | Other int

fun match_code :: "MatchType \<Rightarrow> int" where
  "match_code Equality = 0" | "match_code LT = 1" | "match_code LTE = 3" | "match_code GTE = 6" | "match_code GT = 4"
| "match_code opIN = 8" | "match_code NE = 9" | "match_code opSIZE = 10" | "match_code opALL = 11" | "match_code NIN = 12"
| "match_code opEXISTS = 13" | "match_code opMOD = 14" | "match_code opTYPE = 15" | "match_code opREGEX = 16"
| "match_code opOPTIONS = 17" | "match_code opELEM_MATCH = 18" | "match_code opNEAR = 19" | "match_code opWITHIN = 20"
| "match_code opMAX_DISTANCE = 21" | "match_code (Other i) = i"

text \<open>The tests of characters one after the other, each only when the one before held.\<close>

fun chars_are :: "cptr \<Rightarrow> int \<Rightarrow> u8 list \<Rightarrow> bool res" where
  "chars_are fn k [] = Ret True"
| "chars_are fn k (c # cs) = bnd (ld8 (fst fn) (snd fn + k)) (\<lambda>x. if x = c then chars_are fn (k + 1) cs else Ret False)"

fun first_match :: "(bool res \<times> MatchType) list \<Rightarrow> MatchType res \<Rightarrow> MatchType res" where
  "first_match [] d = d"
| "first_match ((t, r) # ts) d = bnd t (\<lambda>k. if k then Ret r else first_match ts d)"

definition elem_getGtLtOp :: "BSONElement \<Rightarrow> MatchType \<Rightarrow> MatchType res" where
  "elem_getGtLtOp e def = bnd (elem_fieldName e) (\<lambda>fn. let rd = (\<lambda>k. ld8 (fst fn) (snd fn + k)) in
     bnd (rd 0) (\<lambda>c0. if c0 \<noteq> 0x24 then Ret def else bnd (rd 1) (\<lambda>c1. if c1 = 0 then Ret def else bnd (rd 2) (\<lambda>c2.
     if c2 = 0x74 then
       (if c1 = 0x67 then first_match [(chars_are fn 3 [0], GT), (chars_are fn 3 [0x65, 0], GTE)] (Ret def)
        else if c1 = 0x6C then first_match [(chars_are fn 3 [0], LT), (chars_are fn 3 [0x65, 0], LTE)] (Ret def)
        else Ret def)
     else if c1 = 0x6E \<and> c2 = 0x65 then
       first_match [(chars_are fn 3 [0], NE), (chars_are fn 3 [0x61, 0x72], opNEAR)] (Ret def)
     else if c1 = 0x6D then
       first_match [(chars_are fn 2 [0x6F, 0x64, 0], opMOD),
         (chars_are fn 2 [0x61, 0x78, 0x44, 0x69, 0x73, 0x74, 0x61, 0x6E, 0x63, 0x65, 0], opMAX_DISTANCE)] (Ret def)
     else first_match [(chars_are fn 1 [0x74, 0x79, 0x70, 0x65, 0], opTYPE), (chars_are fn 1 [0x69, 0x6E, 0], opIN),
         (chars_are fn 1 [0x6E, 0x69, 0x6E, 0], NIN), (chars_are fn 1 [0x61, 0x6C, 0x6C, 0], opALL),
         (chars_are fn 1 [0x73, 0x69, 0x7A, 0x65, 0], opSIZE)]
       (if c1 = 0x65 then first_match [(chars_are fn 2 [0x78, 0x69, 0x73, 0x74, 0x73, 0], opEXISTS),
            (chars_are fn 2 [0x6C, 0x65, 0x6D, 0x4D, 0x61, 0x74, 0x63, 0x68, 0], opELEM_MATCH)] (Ret def)
        else first_match [(chars_are fn 1 [0x72, 0x65, 0x67, 0x65, 0x78, 0], opREGEX),
            (chars_are fn 1 [0x6F, 0x70, 0x74, 0x69, 0x6F, 0x6E, 0x73, 0], opOPTIONS),
            (chars_are fn 1 [0x77, 0x69, 0x74, 0x68, 0x69, 0x6E, 0], opWITHIN)] (Ret def))))))"

definition getGtLtOp :: "BSONElement \<Rightarrow> MatchType res" where
  "getGtLtOp e = bnd (elem_type e) (\<lambda>t. if t \<noteq> Object then Ret Equality else
     bnd (elem_embeddedObject e) (\<lambda>o1. bnd (obj_firstElement o1) (\<lambda>fe. elem_getGtLtOp fe Equality)))"

text \<open>\<open>{a: {$gt: 3}}\<close> is appended as \<open>{a: 3}\<close>; any name of the form \<open>$?t...\<close> counts as an operator.\<close>

definition ob_appendElementHandlingGtLt :: "BSONElement \<Rightarrow> BSONObjBuilder \<Rightarrow> BSONObjBuilder res" where
  "ob_appendElementHandlingGtLt e ob = bnd (elem_type e) (\<lambda>t. if t = Object then
       bnd (elem_embeddedObject e) (\<lambda>o1. bnd (obj_firstElement o1) (\<lambda>fe. bnd (elem_fieldName fe) (\<lambda>fn.
       let rd = (\<lambda>k. ld8 (fst fn) (snd fn + k)) in
       bnd (rd 0) (\<lambda>c0. bnd (if c0 = 0x24 then rd 1 else Ret 0) (\<lambda>c1. bnd (if c1 \<noteq> 0 then rd 2 else Ret 0) (\<lambda>c2.
       if c0 = 0x24 \<and> c1 \<noteq> 0 \<and> c2 = 0x74 then bnd (name_of e) (\<lambda>n. ob_appendAs fe n ob)
       else ob_append_element e ob))))))
     else ob_append_element e ob)"

section \<open>All matches of a dotted name\<close>

definition index_name :: "u8 list \<Rightarrow> bool" where
  "index_name next \<longleftrightarrow> next \<noteq> [] \<and> c_isdigit (hd next) \<and>
     (case dropWhile c_isdigit (tl next) of [] \<Rightarrow> True | c # _ \<Rightarrow> c = 0x2E)"

text \<open>The elements handed to \<open>ret.insert\<close>, in order (the set drops those that compare equal).\<close>

partial_function (option) getFieldsDotted :: "BSONObj \<Rightarrow> u8 list \<Rightarrow> BSONElement list run" where
  [code]: "getFieldsDotted o1 name = obnd (getField o1 name) (\<lambda>e. obnd (Some (elem_eoo e)) (\<lambda>z. if z then
       (case split_dot name of None \<Rightarrow> Some (Ret []) | Some (left, next) \<Rightarrow>
         obnd (getField o1 left) (\<lambda>e. obnd (Some (elem_type e)) (\<lambda>t.
         if t = Object then obnd (Some (elem_embeddedObject e)) (\<lambda>o2. getFieldsDotted o2 next)
         else if t = Array then
           (if index_name next then obnd (Some (elem_embeddedObject e)) (\<lambda>o2. getFieldsDotted o2 next)
            else obnd (Some (elem_embeddedObject e)) (\<lambda>o2. obnd (Some (it_of o2)) (\<lambda>i.
              obnd (it_while it_more (\<lambda>ret e2. obnd (Some (elem_isABSONObj e2)) (\<lambda>a. if a then
                  obnd (Some (elem_embeddedObject e2)) (\<lambda>o3. obnd (getFieldsDotted o3 next) (\<lambda>es.
                    Some (Ret (Inl (ret @ es) :: _ + unit))))
                else Some (Ret (Inl ret)))) [] i) (\<lambda>r. case r of Inl ret \<Rightarrow> Some (Ret ret) | Inr _ \<Rightarrow> Some Stuck))))
         else Some (Ret []))))
     else obnd (Some (elem_type e)) (\<lambda>t. if t = Array
       then obnd (Some (elem_embeddedObject e)) elems else Some (Ret [e]))))"

section \<open>Several fields, arrays as vectors\<close>

text \<open>\<open>getFields\<close>: each name gets the last element of that name, for a name given twice the first place.\<close>

fun put_first :: "u8 list \<Rightarrow> BSONElement \<Rightarrow> u8 list list \<Rightarrow> BSONElement list \<Rightarrow> BSONElement list" where
  "put_first p e (n # ns) (x # xs) = (if p = n then e # xs else x # put_first p e ns xs)"
| "put_first p e _ xs = xs"

definition getFields :: "BSONObj \<Rightarrow> u8 list list \<Rightarrow> BSONElement list \<Rightarrow> BSONElement list run" where
  "getFields o1 fieldNames into = obnd (Some (it_of o1)) (\<lambda>i.
     obnd (it_while it_more (\<lambda>into e. obnd (Some (name_of e)) (\<lambda>p.
       Some (Ret (Inl (put_first p e fieldNames into) :: _ + unit)))) into i) (\<lambda>r.
     case r of Inl x \<Rightarrow> Some (Ret x) | Inr _ \<Rightarrow> Some Stuck))"

text \<open>
  \<open>stringToNum\<close> throws the \<open>int\<close> 0 for a text that is not digits only; the numbers wrap around.
  \<open>Array\<close> means to catch that, but its handler is for \<open>unsigned\<close>: the exception leaves it.
\<close>

fun stringToNum_loop :: "nat \<Rightarrow> bool \<Rightarrow> u8 list \<Rightarrow> nat res" where
  "stringToNum_loop x first [] = (if first then Raise 0 else Ret x)"
| "stringToNum_loop x first (c # cs) = (if c_isdigit c
     then stringToNum_loop ((x * 10 + (unat c - 48)) mod 4294967296) False cs else Raise 0)"

definition stringToNum :: "u8 list \<Rightarrow> nat res" where
  "stringToNum s = stringToNum_loop 0 True s"

definition vector_put :: "BSONElement list \<Rightarrow> nat \<Rightarrow> BSONElement \<Rightarrow> BSONElement list" where
  "vector_put v u e = (if u \<ge> length v then v @ replicate (u - length v) elem_default @ [e] else v[u := e])"

definition elem_Array :: "BSONElement \<Rightarrow> BSONElement list run" where
  "elem_Array e = obnd (Some (elem_chk Array e)) (\<lambda>e. obnd (Some (elem_embeddedObjectUserCheck e)) (\<lambda>o1.
     obnd (Some (it_of o1)) (\<lambda>i.
     obnd (it_while it_more (\<lambda>v e. obnd (Some (name_of e)) (\<lambda>f. obnd (Some (stringToNum f)) (\<lambda>u.
       if u < 1000000 then Some (Ret (Inl (vector_put v u e) :: _ + unit)) else Some (Raise 0)))) [] i) (\<lambda>r.
     case r of Inl v \<Rightarrow> Some (Ret v) | Inr _ \<Rightarrow> Some Stuck))))"

section \<open>An element as a document\<close>

definition elem_wrap :: "bool \<Rightarrow> u8 list \<Rightarrow> BSONElement \<Rightarrow> BSONObj res" where
  "elem_wrap oom room e = bnd (elem_size e) (\<lambda>n. if n + 6 + 4 < 0 then Stuck else
     bnd (ob_new oom room (nat (n + 6))) (\<lambda>b. bnd (ob_append_element e b) ob_obj))"

definition elem_wrap_as :: "bool \<Rightarrow> u8 list \<Rightarrow> u8 list \<Rightarrow> BSONElement \<Rightarrow> BSONObj res" where
  "elem_wrap_as oom room newName e = bnd (elem_size e) (\<lambda>n. if n + 6 + int (length newName) + 4 < 0 then Stuck else
     bnd (ob_new oom room (nat (n + 6 + int (length newName)))) (\<lambda>b. bnd (ob_appendAs e newName b) ob_obj))"

end
