(* ===== verification/BsonQuerySpec.thy ===== *)
theory BsonQuerySpec
  imports BsonQuery BsonBoundsSpec
begin

text \<open>
  On documents: the operators are a table of names, a dotted name finds every match along arrays,
  and an array with the names "0", "1", ... becomes the list of its values.
\<close>

section \<open>Operators\<close>

definition op_table :: "(u8 list \<times> MatchType) list" where
  "op_table = [([0x24, 0x67, 0x74], GT), ([0x24, 0x67, 0x74, 0x65], GTE), ([0x24, 0x6C, 0x74], LT), ([0x24, 0x6C, 0x74, 0x65], LTE),
     ([0x24, 0x6E, 0x65], NE), ([0x24, 0x6D, 0x6F, 0x64], opMOD),
     ([0x24, 0x6D, 0x61, 0x78, 0x44, 0x69, 0x73, 0x74, 0x61, 0x6E, 0x63, 0x65], opMAX_DISTANCE),
     ([0x24, 0x74, 0x79, 0x70, 0x65], opTYPE), ([0x24, 0x69, 0x6E], opIN), ([0x24, 0x6E, 0x69, 0x6E], NIN),
     ([0x24, 0x61, 0x6C, 0x6C], opALL), ([0x24, 0x73, 0x69, 0x7A, 0x65], opSIZE),
     ([0x24, 0x65, 0x78, 0x69, 0x73, 0x74, 0x73], opEXISTS),
     ([0x24, 0x65, 0x6C, 0x65, 0x6D, 0x4D, 0x61, 0x74, 0x63, 0x68], opELEM_MATCH),
     ([0x24, 0x72, 0x65, 0x67, 0x65, 0x78], opREGEX), ([0x24, 0x6F, 0x70, 0x74, 0x69, 0x6F, 0x6E, 0x73], opOPTIONS),
     ([0x24, 0x77, 0x69, 0x74, 0x68, 0x69, 0x6E], opWITHIN)]"

text \<open>\<open>$near\<close> counts with anything behind it.\<close>

definition op_of :: "u8 list \<Rightarrow> MatchType \<Rightarrow> MatchType" where
  "op_of name def = (if take 5 name = [0x24, 0x6E, 0x65, 0x61, 0x72] then opNEAR
     else case map_of op_table name of Some r \<Rightarrow> r | None \<Rightarrow> def)"

lemma at_nth: "at b p xs \<Longrightarrow> k < length xs \<Longrightarrow> ld8 b (p + int k) = Ret (xs ! k)"
proof -
  assume a: "at b p xs" "k < length xs"
  have "at b p (take k xs @ [xs ! k] @ drop (Suc k) xs)"
    using a by (simp add: id_take_nth_drop [symmetric])
  then have "at b (p + int k) [xs ! k]"
    using a(2) unfolding at_append by simp
  then show ?thesis
    by (rule ld8_at)
qed

text \<open>Comparing with a text that ends in the zero is comparing with the rest of the name.\<close>

lemma chars_end:
  assumes "at b p (s @ [0])" "0 \<notin> set s" "k \<le> length s"
    and "0 \<notin> set cs"
  shows "chars_are (b, p) (int k) (cs @ [0]) = Ret (drop k s = cs)"
  using assms(3,4)
proof (induction cs arbitrary: k)
  case Nil
  have "ld8 b (p + int k) = Ret ((s @ [0]) ! k)"
    using at_nth [OF assms(1), of k] Nil by simp
  moreover have "(s @ [0]) ! k = 0 \<longleftrightarrow> k = length s"
    using Nil assms(2) by (auto simp: nth_append in_set_conv_nth)
  ultimately show ?case
    using Nil by auto
next
  case (Cons c cs)
  have r: "ld8 b (p + int k) = Ret ((s @ [0]) ! k)"
    using at_nth [OF assms(1), of k] Cons.prems by simp
  show ?case
  proof (cases "k < length s")
    case True
    then have d: "drop k s = s ! k # drop (Suc k) s"
      by (simp add: Cons_nth_drop_Suc)
    have "chars_are (b, p) (int (Suc k)) (cs @ [0]) = Ret (drop (Suc k) s = cs)"
      using Cons.IH [of "Suc k"] Cons.prems True by simp
    with True r d show ?thesis
      by (auto simp: nth_append add.commute)
  next
    case False
    with r Cons.prems show ?thesis
      by (auto simp: nth_append)
  qed
qed

lemma chars_prefix:
  assumes "at b p (s @ [0])" "0 \<notin> set s" "k \<le> length s"
    and "0 \<notin> set cs"
  shows "chars_are (b, p) (int k) cs = Ret (take (length cs) (drop k s) = cs)"
  using assms(3,4)
proof (induction cs arbitrary: k)
  case (Cons c cs)
  have r: "ld8 b (p + int k) = Ret ((s @ [0]) ! k)"
    using at_nth [OF assms(1), of k] Cons.prems by simp
  show ?case
  proof (cases "k < length s")
    case True
    then have d: "drop k s = s ! k # drop (Suc k) s"
      by (simp add: Cons_nth_drop_Suc)
    have "chars_are (b, p) (int (Suc k)) cs = Ret (take (length cs) (drop (Suc k) s) = cs)"
      using Cons.IH [of "Suc k"] Cons.prems True by simp
    with True r d show ?thesis
      by (auto simp: nth_append add.commute)
  next
    case False
    with r Cons.prems show ?thesis
      by (auto simp: nth_append)
  qed
qed simp


declare chars_are.simps [simp del]

lemma field_text:
  assumes "elem_in b p f"
  shows "at b (p + 1) (fst f @ [0])" "0 \<notin> set (fst f)" "elem_fieldName (raw_elem b p) = Ret (b, p + 1)"
  using elem_in_parts(2) [OF assms] elem_fieldName_in [OF assms raw_elem_of] assms by (simp_all add: elem_in_def cname_def)

lemma nth_text: "0 \<notin> set s \<Longrightarrow> k \<le> length s \<Longrightarrow> (s @ [0]) ! k = (0 :: u8) \<longleftrightarrow> k = length s"
  by (auto simp: nth_append in_set_conv_nth)

theorem getGtLtOp_in:
  assumes "elem_in b p f"
  shows "elem_getGtLtOp (raw_elem b p) def = Ret (op_of (fst f) def)"
proof -
  define s where "s = fst f"
  note t = field_text [OF assms, folded s_def]
  have rd: "ld8 b (p + 1 + int k) = Ret ((s @ [0]) ! k)" if "k \<le> length s" for k
    using at_nth [OF t(1), of k] that by simp
  have e: "chars_are (b, p + 1) (int k) (cs @ [0]) = Ret (drop k s = cs)" if "k \<le> length s" "0 \<notin> set cs" for k cs
    using chars_end [OF t(1,2)] that by blast
  have x: "chars_are (b, p + 1) (int k) cs = Ret (take (length cs) (drop k s) = cs)" if "k \<le> length s" "0 \<notin> set cs" for k cs
    using chars_prefix [OF t(1,2)] that by blast
  show ?thesis
  proof (cases "\<exists>c rest. s = 0x24 # c # rest")
    case False
    have r0: "ld8 b (p + 1) = Ret ((s @ [0]) ! 0)"
      using rd [of 0] by simp
    have d: "op_of s def = def"
      using False by (cases s; cases "tl s") (auto simp: op_of_def op_table_def)
    show ?thesis
    proof (cases s)
      case Nil
      with r0 d show ?thesis
        by (simp add: elem_getGtLtOp_def t(3) Let_def flip: s_def)
    next
      case (Cons c cs)
      show ?thesis
      proof (cases "c = 0x24")
        case True
        with False Cons have "s = [0x24]"
          by (cases cs) auto
        with r0 d rd [of 1] show ?thesis
          by (simp add: elem_getGtLtOp_def t(3) Let_def flip: s_def)
      next
        case False
        with r0 d Cons show ?thesis
          by (simp add: elem_getGtLtOp_def t(3) Let_def flip: s_def)
      qed
    qed
  next
    case True
    then obtain c rest where s: "s = 0x24 # c # rest"
      by blast
    have c: "c \<noteq> 0"
      using t(2) s by auto
    have r: "ld8 b (p + 1 + 0) = Ret 0x24" "ld8 b (p + 1 + 1) = Ret c" "ld8 b (p + 1 + 2) = Ret ((rest @ [0]) ! 0)"
      using rd [of 0] rd [of 1] rd [of 2] s by simp_all
    have e1: "chars_are (b, p + 1) 1 (cs @ [0]) = Ret (c # rest = cs)" and e2: "chars_are (b, p + 1) 2 (cs @ [0]) = Ret (rest = cs)"
      if "0 \<notin> set cs" for cs
      using e [of 1 cs] e [of 2 cs] that s by simp_all
    have e3: "chars_are (b, p + 1) 3 (cs @ [0]) = Ret (tl rest = cs)" "chars_are (b, p + 1) 3 cs = Ret (take (length cs) (tl rest) = cs)"
      if "0 \<notin> set cs" "rest \<noteq> []" for cs
      using e [of 3 cs] x [of 3 cs] that s by (cases rest; simp)+
    note E = e1 [of "[0x74, 0x79, 0x70, 0x65]", simplified] e1 [of "[0x69, 0x6E]", simplified] e1 [of "[0x6E, 0x69, 0x6E]", simplified]
      e1 [of "[0x61, 0x6C, 0x6C]", simplified] e1 [of "[0x73, 0x69, 0x7A, 0x65]", simplified]
      e1 [of "[0x72, 0x65, 0x67, 0x65, 0x78]", simplified] e1 [of "[0x6F, 0x70, 0x74, 0x69, 0x6F, 0x6E, 0x73]", simplified]
      e1 [of "[0x77, 0x69, 0x74, 0x68, 0x69, 0x6E]", simplified]
      e2 [of "[0x6F, 0x64]", simplified] e2 [of "[0x61, 0x78, 0x44, 0x69, 0x73, 0x74, 0x61, 0x6E, 0x63, 0x65]", simplified]
      e2 [of "[0x78, 0x69, 0x73, 0x74, 0x73]", simplified] e2 [of "[0x6C, 0x65, 0x6D, 0x4D, 0x61, 0x74, 0x63, 0x68]", simplified]
    show ?thesis
    proof (cases rest)
      case Nil
      have "op_of s def = def"
        using s Nil by (simp add: op_of_def op_table_def)
      then show ?thesis
        using r E c Nil by (simp add: elem_getGtLtOp_def t(3) Let_def flip: s_def)
    next
      case (Cons c2 more)
      have "c2 \<noteq> 0"
        using t(2) s Cons by auto
      note G = e3(1) [of "[]", simplified] e3(1) [of "[0x65]", simplified] e3(2) [of "[0x61, 0x72]", simplified]
      consider "c2 = 0x74" | "c = 0x6E" "c2 = 0x65" | "c2 \<noteq> 0x74" "\<not> (c = 0x6E \<and> c2 = 0x65)"
        by blast
      then show ?thesis
      proof cases
        case 1
        then show ?thesis
          using r G c Cons by (simp add: elem_getGtLtOp_def t(3) Let_def flip: s_def) (simp add: op_of_def op_table_def s Cons)
      next
        case 2
        have two: "take (Suc (Suc 0)) more = take 2 more"
          by (simp add: numeral_2_eq_2)
        show ?thesis
          using 2 r G c Cons by (simp add: elem_getGtLtOp_def t(3) Let_def flip: s_def) (simp add: op_of_def op_table_def s Cons two)
      next
        case 3
        consider "c = 0x6D" | "c = 0x74" | "c = 0x69" | "c = 0x6E" | "c = 0x61" | "c = 0x73" | "c = 0x65" | "c = 0x72" | "c = 0x6F"
          | "c = 0x77" | "c \<notin> {0x6D, 0x74, 0x69, 0x6E, 0x61, 0x73, 0x65, 0x72, 0x6F, 0x77, 0x67, 0x6C}" | "c = 0x67" | "c = 0x6C"
          by auto
        then show ?thesis
          by cases (use 3 r E c Cons in \<open>simp add: elem_getGtLtOp_def t(3) Let_def flip: s_def,
            simp add: op_of_def op_table_def s Cons\<close>)+
      qed
    qed
  qed
qed


text \<open>The operator of a whole field: that of the first field of its embedded document.\<close>

definition field_op :: "bval \<Rightarrow> MatchType" where
  "field_op v = (case v of VObject (f # fs) \<Rightarrow> op_of (fst f) Equality | _ \<Rightarrow> Equality)"

lemma first_element_in:
  assumes "obj_in o1 (f # fs)"
  shows "obj_firstElement o1 = Ret (raw_elem (fst o1) (snd o1 + 4))" "elem_in (fst o1) (snd o1 + 4) f"
proof -
  show in1: "elem_in (fst o1) (snd o1 + 4) f"
    using obj_in_parts(2) [OF assms] by (simp add: fields_in_Cons)
  have "type_byte (btype (snd f)) \<noteq> 0"
    by (cases "snd f") simp_all
  then show "obj_firstElement o1 = Ret (raw_elem (fst o1) (snd o1 + 4))"
    using ld8_at [OF elem_in_parts(1) [OF in1]] by (simp add: obj_firstElement_def elem_at_def raw_elem_def)
qed

lemma first_element_empty:
  assumes "obj_in o1 []"
  shows "obj_firstElement o1 = Ret (eoo_elem (fst o1) (snd o1 + 4))" "elem_fieldName (eoo_elem (fst o1) (snd o1 + 4)) = Ret ([0], 0)"
  using eoo_at [of "fst o1" "snd o1 + 4"] obj_in_parts(3) [OF assms] by (simp_all add: obj_firstElement_def elem_fieldName_def)

theorem field_op_in:
  assumes "elem_in b p f" "small_doc (snd f)"
  shows "getGtLtOp (raw_elem b p) = Ret (field_op (snd f))"
proof (cases "btype (snd f) = Object")
  case True
  then obtain gs where v: "snd f = VObject gs"
    by (cases "snd f") simp_all
  then obtain q where q: "elem_embeddedObject (raw_elem b p) = Ret (b, q)" "obj_in (b, q) gs"
    using nested_obj_in [OF assms] by auto
  show ?thesis
  proof (cases gs)
    case Nil
    with first_element_empty [of "(b, q)"] q v show ?thesis
      using elem_type_in [OF assms(1) raw_elem_of]
      by (simp add: getGtLtOp_def elem_getGtLtOp_def field_op_def ld8_def Let_def)
  next
    case (Cons g hs)
    with first_element_in [of "(b, q)" g hs] q v show ?thesis
      using elem_type_in [OF assms(1) raw_elem_of] by (simp add: getGtLtOp_def field_op_def getGtLtOp_in)
  qed
next
  case False
  then show ?thesis
    using elem_type_in [OF assms(1) raw_elem_of] by (cases "snd f") (simp_all add: getGtLtOp_def field_op_def)
qed

section \<open>All matches of a dotted name\<close>

function dotted_all :: "fields \<Rightarrow> u8 list \<Rightarrow> bval list" where
  "dotted_all fs name = (case map_of fs name of
       Some (VArray gs) \<Rightarrow> map snd gs
     | Some v \<Rightarrow> [v]
     | None \<Rightarrow> (case split_dot name of None \<Rightarrow> [] | Some (left, next) \<Rightarrow>
        (case map_of fs left of
           Some (VObject gs) \<Rightarrow> dotted_all gs next
         | Some (VArray gs) \<Rightarrow> if index_name next then dotted_all gs next
             else concat (map (\<lambda>f. case sub_doc (snd f) of None \<Rightarrow> [] | Some hs \<Rightarrow> dotted_all hs next) gs)
         | _ \<Rightarrow> [])))"
  by pat_completeness auto
termination
  by (relation "measure (\<lambda>(fs, name). length name)") (auto dest: split_dot_shorter)

declare dotted_all.simps [simp del]

definition finds_all :: "buf \<Rightarrow> BSONElement list run \<Rightarrow> bval list \<Rightarrow> bool" where
  "finds_all b r vs \<longleftrightarrow> (\<exists>es. r = Some (Ret es) \<and> list_all2 (\<lambda>e v. finds b e (Some v)) es vs)"

lemma finds_all_elems: "obj_in o1 gs \<Longrightarrow> finds_all (fst o1) (elems o1) (map snd gs)"
  using elems_in [of o1 gs] by (auto simp: finds_all_def list_all2_map2)

definition gfd_body :: "u8 list \<Rightarrow> BSONElement list \<Rightarrow> BSONElement \<Rightarrow> (BSONElement list + unit) run" where
  "gfd_body next ret e2 = obnd (Some (elem_isABSONObj e2)) (\<lambda>a. if a then
      obnd (Some (elem_embeddedObject e2)) (\<lambda>o3. obnd (getFieldsDotted o3 next) (\<lambda>es. Some (Ret (Inl (ret @ es) :: _ + unit))))
    else Some (Ret (Inl ret)))"

lemma run_all:
  assumes "fields_in b p gs" "small_fields gs"
    and "\<And>q hs. obj_in (b, q) hs \<Longrightarrow> finds_all b (getFieldsDotted (b, q) next) (dotted_all hs next)"
  shows "\<exists>es. run_fields (gfd_body next) ret b p gs = Some (Ret (Inl (ret @ es))) \<and> list_all2 (\<lambda>e v. finds b e (Some v)) es
    (concat (map (\<lambda>f. case sub_doc (snd f) of None \<Rightarrow> [] | Some hs \<Rightarrow> dotted_all hs next) gs))"
  using assms(1,2)
proof (induction gs arbitrary: p ret)
  case (Cons g gs)
  have in1: "elem_in b p g" "fields_in b (p + int (length (enc_elem g))) gs"
    using Cons.prems(1) by (simp_all add: fields_in_Cons)
  have sm: "small_doc (snd g)" "small_fields gs"
    using small_fields_Cons [OF Cons.prems(2)] by simp_all
  note ty = elem_type_in [OF in1(1) raw_elem_of]
  show ?case
  proof (cases "sub_doc (snd g)")
    case None
    then have "elem_isABSONObj (raw_elem b p) = Ret False"
      using ty by (cases "snd g") (simp_all add: elem_isABSONObj_def)
    with None Cons.IH [OF in1(2) sm(2), of ret] show ?thesis
      by (simp add: gfd_body_def)
  next
    case (Some hs)
    then have "elem_isABSONObj (raw_elem b p) = Ret True" and "canon (snd g) \<in> {20, 25}" and hs: "vfields (snd g) = hs"
      using ty by (cases "snd g"; simp add: elem_isABSONObj_def)+
    moreover obtain q where q: "elem_embeddedObject (raw_elem b p) = Ret (b, q)" "obj_in (b, q) hs"
      using nested_obj_in [OF in1(1) sm(1)] calculation by auto
    moreover obtain es where "getFieldsDotted (b, q) next = Some (Ret es)" "list_all2 (\<lambda>e v. finds b e (Some v)) es (dotted_all hs next)"
      using assms(3) [OF q(2)] by (auto simp: finds_all_def)
    moreover obtain es' where "run_fields (gfd_body next) (ret @ es) b (p + int (length (enc_elem g))) gs = Some (Ret (Inl ((ret @ es) @ es')))"
        "list_all2 (\<lambda>e v. finds b e (Some v)) es' (concat (map (\<lambda>f. case sub_doc (snd f) of None \<Rightarrow> [] | Some hs \<Rightarrow> dotted_all hs next) gs))"
      using Cons.IH [OF in1(2) sm(2), of "ret @ es"] by blast
    moreover have "gfd_body next ret (raw_elem b p) = Some (Ret (Inl (ret @ es)))"
      using calculation by (simp add: gfd_body_def)
    ultimately show ?thesis
      using Some by (auto intro!: exI [of _ "es @ es'"] list_all2_appendI)
  qed
qed simp

theorem getFieldsDotted_in:
  assumes "obj_in o1 fs" "cname name"
  shows "finds_all (fst o1) (getFieldsDotted o1 name) (dotted_all fs name)"
  using assms
proof (induction "length name" arbitrary: o1 fs name rule: less_induct)
  case less
  obtain e where e: "getField o1 name = Some (Ret e)" "finds (fst o1) e (map_of fs name)"
    using getField_finds [OF less.prems] by blast
  show ?case
  proof (cases "map_of fs name")
    case (Some v)
    note some = Some
    obtain m q where eq: "e = raw_elem (fst o1) q" "elem_in (fst o1) q (m, v)"
      using e(2) some by (auto simp: finds_def)
    have z: "elem_eoo e = Ret False" "elem_type e = Ret (btype v)"
      using elem_eoo_in [OF eq(2) raw_elem_of] elem_type_in [OF eq(2) raw_elem_of] eq(1) by simp_all
    show ?thesis
    proof (cases "btype v = Array")
      case True
      then obtain gs where v: "v = VArray gs"
        by (cases v) simp_all
      obtain q' where "elem_embeddedObject e = Ret (fst o1, q')" "obj_in (fst o1, q') gs"
        using sub_doc_in [OF less.prems(1) some, of gs e] e(2) some v by auto
      with finds_all_elems [of "(fst o1, q')" gs] show ?thesis
        using e(1) z v some by (subst getFieldsDotted.simps, subst dotted_all.simps) simp
    next
      case False
      then have "dotted_all fs name = [v]"
        using some by (subst dotted_all.simps) (cases v; simp)
      with False show ?thesis
        using e z some by (subst getFieldsDotted.simps) (simp add: finds_all_def)
    qed
  next
    case None
    have z: "elem_eoo e = Ret True"
      using e(2) None by (simp add: finds_def)
    show ?thesis
    proof (cases "split_dot name")
      case None
      with \<open>map_of fs name = None\<close> e(1) z show ?thesis
        by (subst getFieldsDotted.simps, subst dotted_all.simps) (simp add: finds_all_def)
    next
      case (Some lr)
      obtain l r where lr: "lr = (l, r)"
        by (cases lr)
      note sp = Some [unfolded lr]
      have nm: "cname l" "cname r" "length r < length name"
        using split_dot_cname [OF sp less.prems(2)] split_dot_shorter [OF sp] by simp_all
      obtain s where s: "getField o1 l = Some (Ret s)" "finds (fst o1) s (map_of fs l)"
        using getField_finds [OF less.prems(1) nm(1)] by blast
      have IH: "finds_all b (getFieldsDotted (b, q) r) (dotted_all hs r)" if "obj_in (b, q) hs" for b q hs
        using less.hyps [OF nm(3) that nm(2)] by simp
      show ?thesis
      proof (cases "map_of fs l")
        case None
        then have "elem_type s = Ret EOO"
          using s(2) by (cases "elem_type s") (auto simp: finds_def elem_eoo_def)
        with None sp s(1) e(1) z \<open>map_of fs name = None\<close> show ?thesis
          by (subst getFieldsDotted.simps, subst dotted_all.simps) (simp add: finds_all_def)
      next
        case (Some v)
        have ty: "elem_type s = Ret (btype v)"
          using finds_type s(2) Some by simp
        show ?thesis
        proof (cases "sub_doc v")
          case None
          with Some ty sp s(1) e(1) z \<open>map_of fs name = None\<close> show ?thesis
            by (subst getFieldsDotted.simps, subst dotted_all.simps) (cases v; simp add: finds_all_def)
        next
          case sub: (Some gs)
          obtain q where q: "elem_embeddedObject s = Ret (fst o1, q)" "obj_in (fst o1, q) gs"
            using sub_doc_in [OF less.prems(1) Some sub] s(2) Some by auto
          have all: "finds_all (fst o1) (getFieldsDotted (fst o1, q) r) (dotted_all gs r)"
            by (rule IH [OF q(2)])
          obtain es where es: "run_fields (gfd_body r) [] (fst o1) (q + 4) gs = Some (Ret (Inl es))" "list_all2 (\<lambda>e v. finds (fst o1) e (Some v)) es
              (concat (map (\<lambda>f. case sub_doc (snd f) of None \<Rightarrow> [] | Some hs \<Rightarrow> dotted_all hs r) gs))"
            using run_all [OF _ small_fields_obj [OF q(2)] IH, of "fst o1" "q + 4" "[]"] obj_in_parts(2) [OF q(2)] by auto
          have loop: "it_while it_more (gfd_body r) [] \<lparr>ibuf = fst o1, ipos = q + 4, iend = q + 4 + int (length (enc_fields gs))\<rparr> =
              Some (Ret (Inl es))"
            using it_while_fields [OF obj_in_parts(2) [OF q(2)], of "gfd_body r"] es(1) by simp
          show ?thesis
            using Some sub ty sp s(1) e(1) z q(1) all es(2) loop it_of_in [OF q(2)] \<open>map_of fs name = None\<close>
            by (subst getFieldsDotted.simps, subst dotted_all.simps)
              (cases v; simp add: finds_all_def gfd_body_def [abs_def])
        qed
      qed
    qed
  qed
qed


section \<open>Arrays as vectors\<close>

lemma stringToNum_digits:
  assumes "\<forall>c \<in> set cs. c_isdigit c" "cs \<noteq> [] \<or> \<not> first" "x = y mod 4294967296"
  shows "stringToNum_loop x first cs = Ret (foldl (\<lambda>x c. x * 10 + (unat c - 48)) y cs mod 4294967296)"
  using assms
proof (induction cs arbitrary: x y first)
  case (Cons c cs)
  have "(x * 10 + (unat c - 48)) mod 4294967296 = (y * 10 + (unat c - 48)) mod 4294967296"
    unfolding Cons.prems(3) by (metis mod_add_left_eq mod_mult_left_eq)
  then show ?case
    using Cons.IH [of False] Cons.prems(1) by simp
qed simp

lemma stringToNum_numStr: "n < 4294967296 \<Longrightarrow> stringToNum (numStr n) = Ret n"
proof -
  assume n: "n < 4294967296"
  then have "n < 10 ^ 20"
    by simp
  note f = numStr_facts [OF this]
  have d: "\<forall>c \<in> set (numStr n). c_isdigit c"
    using digits_rev_digits [of 20 n] by (simp add: numStr_def)
  show ?thesis
    using stringToNum_digits [OF d, of True 0 0] f(1,3) n by (simp add: stringToNum_def num_value_def)
qed

definition vec_body :: "BSONElement list \<Rightarrow> BSONElement \<Rightarrow> (BSONElement list + unit) run" where
  "vec_body v e = obnd (Some (name_of e)) (\<lambda>f. obnd (Some (stringToNum f)) (\<lambda>u.
       if u < 1000000 then Some (Ret (Inl (vector_put v u e) :: _ + unit)) else Some (Raise 0)))"

lemma run_vector:
  assumes "fields_in b p gs" "map fst gs = map numStr [length v..<length v + length gs]" "length v + length gs \<le> 1000000"
  shows "\<exists>es. run_fields vec_body v b p gs = Some (Ret (Inl (v @ es))) \<and> list_all2 (\<lambda>e w. finds b e (Some w)) es (map snd gs)"
  using assms
proof (induction gs arbitrary: v p)
  case (Cons g gs)
  have in1: "elem_in b p g" "fields_in b (p + int (length (enc_elem g))) gs"
    using Cons.prems(1) by (simp_all add: fields_in_Cons)
  have up: "[length v..<length v + length (g # gs)] = length v # [Suc (length v)..<Suc (length v) + length gs]"
    using upt_conv_Cons [of "length v" "length v + length (g # gs)"] by simp
  have name: "fst g = numStr (length v)" "map fst gs = map numStr [Suc (length v)..<Suc (length v) + length gs]"
    using Cons.prems(2) unfolding up by simp_all
  have "vec_body v (raw_elem b p) = Some (Ret (Inl (v @ [raw_elem b p])))"
    using Cons.prems(3) by (simp add: vec_body_def name_of_in [OF in1(1)] name(1) stringToNum_numStr vector_put_def)
  moreover have "finds b (raw_elem b p) (Some (snd g))"
    using in1(1) by (cases g) (auto simp: finds_def)
  ultimately show ?case
    using Cons.IH [OF in1(2), of "v @ [raw_elem b p]"] name(2) Cons.prems(3) by auto
qed simp

lemma elem_Array_run:
  assumes "elem_in b p f" "small_doc (snd f)" "snd f = VArray gs"
  obtains q where "obj_in (b, q) gs"
    "elem_Array (raw_elem b p) = obnd (run_fields vec_body [] b (q + 4) gs) (\<lambda>r. case r of Inl v \<Rightarrow> Some (Ret v) | Inr _ \<Rightarrow> Some Stuck)"
proof -
  have "int (length (enc_obj gs)) \<le> BSONObjMaxInternalSize"
    using assms(2,3) by (simp add: small_doc_def enc_obj_def)
  then obtain q where q: "elem_embeddedObject (raw_elem b p) = Ret (b, q)" "obj_in (b, q) gs"
    using embedded_in [OF assms(1) raw_elem_of, of gs] assms(3) by auto
  then have "elem_embeddedObjectUserCheck (raw_elem b p) = Ret (b, q)"
    by (auto simp: elem_embeddedObject_def elem_embeddedObjectUserCheck_def bnd_eq_Ret split: if_splits)
  then show ?thesis
    using that [OF q(2)] elem_type_in [OF assms(1) raw_elem_of] assms(3)
    by (simp add: elem_Array_def elem_chk_def it_of_in [OF q(2)] it_while_fields [OF obj_in_parts(2) [OF q(2), simplified]] vec_body_def [abs_def])
qed

theorem elem_Array_in:
  assumes "elem_in b p f" "small_doc (snd f)" "snd f = VArray gs" "map fst gs = map numStr [0..<length gs]" "length gs \<le> 1000000"
  shows "finds_all b (elem_Array (raw_elem b p)) (map snd gs)"
proof -
  obtain q where q: "obj_in (b, q) gs"
    "elem_Array (raw_elem b p) = obnd (run_fields vec_body [] b (q + 4) gs) (\<lambda>r. case r of Inl v \<Rightarrow> Some (Ret v) | Inr _ \<Rightarrow> Some Stuck)"
    using elem_Array_run [OF assms(1-3)] .
  then show ?thesis
    using run_vector [of b "q + 4" gs "[]"] obj_in_parts(2) [OF q(1)] assms(4,5) by (auto simp: finds_all_def)
qed

text \<open>A name that is not a number is not ignored: the exception is thrown out of \<open>Array\<close>.\<close>

theorem elem_Array_bad_name:
  assumes "elem_in b p f" "small_doc (snd f)" "snd f = VArray (g # gs)" "\<not> (fst g \<noteq> [] \<and> (\<forall>c \<in> set (fst g). c_isdigit c))"
  shows "elem_Array (raw_elem b p) = Some (Raise 0)"
proof -
  obtain q where q: "obj_in (b, q) (g # gs)"
    "elem_Array (raw_elem b p) = obnd (run_fields vec_body [] b (q + 4) (g # gs)) (\<lambda>r. case r of Inl v \<Rightarrow> Some (Ret v) | Inr _ \<Rightarrow> Some Stuck)"
    using elem_Array_run [OF assms(1-3)] .
  have in1: "elem_in b (q + 4) g"
    using obj_in_parts(2) [OF q(1)] by (simp add: fields_in_Cons)
  have "stringToNum_loop x first cs = Raise 0" if "\<not> (\<forall>c \<in> set cs. c_isdigit c) \<or> first \<and> cs = []" for x first cs
    using that by (induction cs arbitrary: x first) auto
  then have "stringToNum (fst g) = Raise 0"
    using assms(4) unfolding stringToNum_def by blast
  then show ?thesis
    using q(2) by (simp add: vec_body_def name_of_in [OF in1])
qed

end
