(* ===== verification/OssCore.thy ===== *)
theory OssCore
  imports Prelude
begin

text \<open>
  The error codes of \<open>include/core.hpp\<close>, the two sleeping functions of \<open>include/ossUtil.hpp\<close>
  (the microsecond count is an \<open>unsigned int\<close>, kept as a natural number below \<open>2 ^ 32\<close>).
\<close>

section \<open>Error codes (core.hpp)\<close>

definition EDB_OK :: int where [edb_codes]: "EDB_OK = 0"
definition EDB_IO :: int where [edb_codes]: "EDB_IO = - 1"
definition EDB_INVALIDARG :: int where [edb_codes]: "EDB_INVALIDARG = - 2"
definition EDB_PERM :: int where [edb_codes]: "EDB_PERM = - 3"
definition EDB_OOM :: int where [edb_codes]: "EDB_OOM = - 4"
definition EDB_SYS :: int where [edb_codes]: "EDB_SYS = - 5"
definition EDB_PMD_HELP_ONLY :: int where [edb_codes]: "EDB_PMD_HELP_ONLY = - 6"
definition EDB_PMD_FORCE_SYSTEM_EDU :: int where [edb_codes]: "EDB_PMD_FORCE_SYSTEM_EDU = - 7"
definition EDB_TIMEOUT :: int where [edb_codes]: "EDB_TIMEOUT = - 8"
definition EDB_QUIESCED :: int where [edb_codes]: "EDB_QUIESCED = - 9"
definition EDB_EDU_INVAL_STATUS :: int where [edb_codes]: "EDB_EDU_INVAL_STATUS = - 10"
definition EDB_NETWORK :: int where [edb_codes]: "EDB_NETWORK = - 11"
definition EDB_NETWORK_CLOSE :: int where [edb_codes]: "EDB_NETWORK_CLOSE = - 12"
definition EDB_APP_FORCED :: int where [edb_codes]: "EDB_APP_FORCED = - 13"
definition EDB_IXM_ID_EXIST :: int where [edb_codes]: "EDB_IXM_ID_EXIST = - 14"
definition EDB_HEADER_INVALID :: int where [edb_codes]: "EDB_HEADER_INVALID = - 15"
definition EDB_IXM_ID_NOT_EXIST :: int where [edb_codes]: "EDB_IXM_ID_NOT_EXIST = - 16"
definition EDB_NO_ID :: int where [edb_codes]: "EDB_NO_ID = - 17"

definition edb_all_codes :: "int list" where
  "edb_all_codes = [EDB_OK, EDB_IO, EDB_INVALIDARG, EDB_PERM,
     EDB_OOM, EDB_SYS, EDB_PMD_HELP_ONLY, EDB_PMD_FORCE_SYSTEM_EDU,
     EDB_TIMEOUT, EDB_QUIESCED, EDB_EDU_INVAL_STATUS, EDB_NETWORK,
     EDB_NETWORK_CLOSE, EDB_APP_FORCED, EDB_IXM_ID_EXIST, EDB_HEADER_INVALID,
     EDB_IXM_ID_NOT_EXIST, EDB_NO_ID]"

lemma edb_codes_distinct: "distinct edb_all_codes"
  by (simp add: edb_all_codes_def edb_codes)

section \<open>Sleeping (ossUtil.hpp)\<close>

text \<open>
  The \<open>timespec\<close> passed to \<open>nanosleep\<close>; the loop calls \<open>nanosleep\<close> again with the remaining time
  for as long as a signal interrupts it, so what it asks for in all is the first request.
\<close>

record timespec =
  tv_sec :: nat
  tv_nsec :: nat

definition ossSleepmicros_request :: "nat \<Rightarrow> timespec" where
  "ossSleepmicros_request s = \<lparr>tv_sec = s div 10000000, tv_nsec = 1000 * (s mod 1000000)\<rparr>"

text \<open>
  One entry of \<open>sleeps\<close> per call of \<open>nanosleep\<close>: the time left when a signal interrupted it
  (\<open>Some\<close>), or \<open>None\<close> when it slept to the end.  The result is the list of the requests made;
  \<open>Wait\<close> when the last call listed was still interrupted.
\<close>

fun nanosleep_loop :: "timespec \<Rightarrow> timespec option list \<Rightarrow> timespec list res" where
  "nanosleep_loop t [] = Wait"
| "nanosleep_loop t (None # _) = Ret [t]"
| "nanosleep_loop t (Some r # sleeps) = bnd (nanosleep_loop r sleeps) (\<lambda>ts. Ret (t # ts))"

definition ossSleepmicros :: "nat \<Rightarrow> timespec option list \<Rightarrow> timespec list res" where
  "ossSleepmicros s sleeps = nanosleep_loop (ossSleepmicros_request s) sleeps"

definition ossSleepmillis :: "nat \<Rightarrow> timespec option list \<Rightarrow> timespec list res" where
  "ossSleepmillis s sleeps = ossSleepmicros ((s * 1000) mod 4294967296) sleeps"

definition timespec_ns :: "timespec \<Rightarrow> nat" where
  "timespec_ns t = tv_sec t * 1000000000 + tv_nsec t"

text \<open>The request is a valid \<open>timespec\<close>, and it is the time asked for below one second only.\<close>

lemma sleepmicros_nsec_valid: "tv_nsec (ossSleepmicros_request s) < 1000000000"
  by (simp add: ossSleepmicros_request_def)

lemma sleepmicros_below_second: "s < 1000000 \<Longrightarrow> timespec_ns (ossSleepmicros_request s) = 1000 * s"
  by (simp add: ossSleepmicros_request_def timespec_ns_def)

lemma sleepmicros_short:
  assumes "1000000 \<le> s"
  shows "timespec_ns (ossSleepmicros_request s) < 1000 * s"
proof -
  have s: "s = 1000000 * (s div 1000000) + s mod 1000000"
    by simp
  have "s div 10000000 = s div 1000000 div 10"
    by (simp flip: div_mult2_eq)
  then have "1000000000 * (s div 10000000) < 1000000000 * (s div 1000000)"
    using assms by (simp add: div_greater_zero_iff)
  then show ?thesis
    using s unfolding ossSleepmicros_request_def timespec_ns_def timespec.simps by linarith
qed

lemma nanosleep_loop_first: "nanosleep_loop t sleeps = Ret ts \<Longrightarrow> ts \<noteq> [] \<and> hd ts = t"
  by (induction t sleeps arbitrary: ts rule: nanosleep_loop.induct) (auto simp: bnd_eq_Ret)

lemma nanosleep_loop_ends: "None \<in> set sleeps \<Longrightarrow> is_ret (nanosleep_loop t sleeps)"
  by (induction t sleeps rule: nanosleep_loop.induct) (auto simp: is_ret_iff bnd_eq_Ret)

text \<open>
  The request of \<open>ossSleepmicros\<close> is a valid \<open>timespec\<close>, exact below one second, and always too
  short from one second on (the code divides by 10000000 where it means 1000000).
\<close>

lemma sleep_too_short:
  "tv_nsec (ossSleepmicros_request s) < 1000000000 \<and>
   (if s < 1000000 then timespec_ns (ossSleepmicros_request s) = 1000 * s
    else timespec_ns (ossSleepmicros_request s) < 1000 * s)"
  using sleepmicros_nsec_valid sleepmicros_below_second [of s] sleepmicros_short [of s] by simp

end
