(* ===== verification/Msg.thy ===== *)
theory Msg
  imports BsonObjSpec OssCore
begin

text \<open>
  The wire messages of \<open>include/msg.hpp\<close> and \<open>msg/msg.cpp\<close>: building a message in a buffer that is
  grown when it is too small, and taking one apart again.  Messages start with their length and
  their operation code; the documents of the body follow each other without separators.
\<close>

section \<open>Layout\<close>

definition OP_REPLY :: int where [layout_simps]: "OP_REPLY = 1"
definition OP_INSERT :: int where [layout_simps]: "OP_INSERT = 2"
definition OP_DELETE :: int where [layout_simps]: "OP_DELETE = 3"
definition OP_QUERY :: int where [layout_simps]: "OP_QUERY = 4"
definition OP_COMMAND :: int where [layout_simps]: "OP_COMMAND = 5"
definition OP_DISCONNECT :: int where [layout_simps]: "OP_DISCONNECT = 6"
definition OP_CONNECT :: int where [layout_simps]: "OP_CONNECT = 7"
definition OP_SNAPSHOT :: int where [layout_simps]: "OP_SNAPSHOT = 8"

definition sizeof_MsgHeader :: int where [layout_simps]: "sizeof_MsgHeader = 8"
definition sizeof_MsgReply :: int where [layout_simps]: "sizeof_MsgReply = 16"
definition sizeof_MsgInsert :: int where [layout_simps]: "sizeof_MsgInsert = 12"
definition sizeof_MsgDelete :: int where [layout_simps]: "sizeof_MsgDelete = 8"
definition sizeof_MsgQuery :: int where [layout_simps]: "sizeof_MsgQuery = 8"
definition sizeof_MsgCommand :: int where [layout_simps]: "sizeof_MsgCommand = 12"

section \<open>The buffer\<close>

text \<open>
  \<open>*ppBuffer\<close> with the bytes it points at, and \<open>*pBufferSize\<close>.  \<open>realloc\<close> either fails (\<open>None\<close>) or
  keeps the old bytes and leaves the new ones unspecified (the argument of \<open>Some\<close>).
\<close>

record msg_buffer =
  mb_bytes :: buf
  mb_size :: int

type_synonym realloc_env = "(nat \<Rightarrow> u8) option"

definition realloc_bytes :: "(nat \<Rightarrow> u8) \<Rightarrow> nat \<Rightarrow> buf \<Rightarrow> buf" where
  "realloc_bytes junk n b = take n b @ map junk [length b..<n]"

definition msgCheckBuffer :: "realloc_env \<Rightarrow> int \<Rightarrow> msg_buffer \<Rightarrow> int \<times> msg_buffer" where
  "msgCheckBuffer env len mb =
     (if len > mb_size mb then
        if len < 0 then (EDB_INVALIDARG, mb)
        else (case env of None \<Rightarrow> (EDB_OOM, mb)
          | Some junk \<Rightarrow> (EDB_OK, \<lparr>mb_bytes = realloc_bytes junk (nat len) (mb_bytes mb), mb_size = len\<rparr>))
      else (EDB_OK, mb))"

text \<open>\<open>memcpy\<close> of a document's \<open>objsize()\<close> bytes to offset \<open>p\<close>; the loop over a vector of documents.\<close>

definition put_doc :: "BSONObj \<Rightarrow> int \<Rightarrow> buf \<Rightarrow> buf res" where
  "put_doc o1 p b = bnd (obj_objsize o1) (\<lambda>n. bnd (ldn (fst o1) (snd o1) n) (\<lambda>bs. stn b p bs))"

fun put_docs :: "BSONObj list \<Rightarrow> int \<Rightarrow> buf \<Rightarrow> buf res" where
  "put_docs [] p b = Ret b"
| "put_docs (o1 # os) p b = bnd (put_doc o1 p b) (\<lambda>b'. bnd (obj_objsize o1) (\<lambda>n. put_docs os (p + n) b'))"

fun add_sizes :: "BSONObj list \<Rightarrow> int \<Rightarrow> int res" where
  "add_sizes [] sz = Ret sz"
| "add_sizes (o1 # os) sz = bnd (obj_objsize o1) (\<lambda>n. add_sizes os (i32 (sz + n)))"

text \<open>The fixed part of a message, word by word.\<close>

fun put_words :: "int list \<Rightarrow> int \<Rightarrow> buf \<Rightarrow> buf res" where
  "put_words [] p b = Ret b"
| "put_words (v # vs) p b = bnd (sti32 b p v) (put_words vs (p + 4))"

text \<open>A build function: check the buffer for the size, then fill it.\<close>

definition with_buffer :: "realloc_env \<Rightarrow> int \<Rightarrow> msg_buffer \<Rightarrow> (buf \<Rightarrow> buf res) \<Rightarrow> (int \<times> msg_buffer) res" where
  "with_buffer env sz mb fill = (let (rc, mb') = msgCheckBuffer env sz mb in
     if rc \<noteq> 0 then Ret (rc, mb')
     else bnd (fill (mb_bytes mb')) (\<lambda>b. Ret (EDB_OK, mb'\<lparr>mb_bytes := b\<rparr>)))"

section \<open>Building\<close>

definition msgBuildReply :: "realloc_env \<Rightarrow> msg_buffer \<Rightarrow> int \<Rightarrow> BSONObj option \<Rightarrow> (int \<times> msg_buffer) res" where
  "msgBuildReply env mb returnCode objReturn =
     bnd (case objReturn of None \<Rightarrow> Ret sizeof_MsgReply
          | Some o1 \<Rightarrow> bnd (obj_objsize o1) (\<lambda>n. Ret (i32 (sizeof_MsgReply + n)))) (\<lambda>sz.
     with_buffer env sz mb (\<lambda>b.
       bnd (put_words [sz, OP_REPLY, returnCode, if objReturn = None then 0 else 1] 0 b) (\<lambda>b.
       case objReturn of None \<Rightarrow> Ret b | Some o1 \<Rightarrow> put_doc o1 sizeof_MsgReply b)))"

definition msgBuildInsert :: "realloc_env \<Rightarrow> msg_buffer \<Rightarrow> BSONObj \<Rightarrow> (int \<times> msg_buffer) res" where
  "msgBuildInsert env mb obj = bnd (obj_objsize obj) (\<lambda>n. let sz = i32 (sizeof_MsgInsert + n) in
     with_buffer env sz mb (\<lambda>b.
       bnd (put_words [sz, OP_INSERT, 1] 0 b) (put_doc obj sizeof_MsgInsert)))"

definition msgBuildInsert_many :: "realloc_env \<Rightarrow> msg_buffer \<Rightarrow> BSONObj list \<Rightarrow> (int \<times> msg_buffer) res" where
  "msgBuildInsert_many env mb objs = bnd (add_sizes objs sizeof_MsgInsert) (\<lambda>sz.
     with_buffer env sz mb (\<lambda>b.
       bnd (put_words [sz, OP_INSERT, int (length objs)] 0 b) (put_docs objs sizeof_MsgInsert)))"

definition msgBuildDelete :: "realloc_env \<Rightarrow> msg_buffer \<Rightarrow> BSONObj \<Rightarrow> (int \<times> msg_buffer) res" where
  "msgBuildDelete env mb key = bnd (obj_objsize key) (\<lambda>n. let sz = i32 (sizeof_MsgDelete + n) in
     with_buffer env sz mb (\<lambda>b.
       bnd (put_words [sz, OP_DELETE] 0 b) (put_doc key sizeof_MsgDelete)))"

definition msgBuildQuery :: "realloc_env \<Rightarrow> msg_buffer \<Rightarrow> BSONObj \<Rightarrow> (int \<times> msg_buffer) res" where
  "msgBuildQuery env mb key = bnd (obj_objsize key) (\<lambda>n. let sz = i32 (sizeof_MsgQuery + n) in
     with_buffer env sz mb (\<lambda>b.
       bnd (put_words [sz, OP_QUERY] 0 b) (put_doc key sizeof_MsgQuery)))"

definition msgBuildCommand :: "realloc_env \<Rightarrow> msg_buffer \<Rightarrow> BSONObj \<Rightarrow> (int \<times> msg_buffer) res" where
  "msgBuildCommand env mb obj = bnd (obj_objsize obj) (\<lambda>n. let sz = i32 (sizeof_MsgCommand + n) in
     with_buffer env sz mb (\<lambda>b.
       bnd (put_words [sz, OP_COMMAND, 1] 0 b) (put_doc obj sizeof_MsgCommand)))"

definition msgBuildCommand_many :: "realloc_env \<Rightarrow> msg_buffer \<Rightarrow> BSONObj list \<Rightarrow> (int \<times> msg_buffer) res" where
  "msgBuildCommand_many env mb objs = bnd (add_sizes objs sizeof_MsgCommand) (\<lambda>sz.
     with_buffer env sz mb (\<lambda>b.
       bnd (put_words [sz, OP_COMMAND, int (length objs)] 0 b) (put_docs objs sizeof_MsgCommand)))"

section \<open>Taking apart\<close>

text \<open>The two checks at the head of each \<open>msgExtract\<close> function; \<open>Inl\<close> is the error returned.\<close>

definition check_msg :: "buf \<Rightarrow> int \<Rightarrow> int \<Rightarrow> (int + unit) res" where
  "check_msg b least op = bnd (ldi32 b 0) (\<lambda>len. if len < least then Ret (Inl EDB_INVALIDARG) else
     bnd (ldi32 b 4) (\<lambda>code. if code \<noteq> op then Ret (Inl EDB_INVALIDARG) else Ret (Inr ())))"

definition msgExtraReply :: "buf \<Rightarrow> (int + int \<times> int \<times> cptr option) res" where
  "msgExtraReply b = bnd (check_msg b sizeof_MsgReply OP_REPLY) (\<lambda>c. case c of Inl rc \<Rightarrow> Ret (Inl rc)
     | Inr _ \<Rightarrow> bnd (ldi32 b 8) (\<lambda>returnCode. bnd (ldi32 b 12) (\<lambda>numReturn.
         Ret (Inr (returnCode, numReturn, if numReturn = 0 then None else Some (b, sizeof_MsgReply))))))"

definition msgExtractInsert :: "buf \<Rightarrow> (int + int \<times> cptr option) res" where
  "msgExtractInsert b = bnd (check_msg b sizeof_MsgInsert OP_INSERT) (\<lambda>c. case c of Inl rc \<Rightarrow> Ret (Inl rc)
     | Inr _ \<Rightarrow> bnd (ldi32 b 8) (\<lambda>numInsert.
         Ret (Inr (numInsert, if numInsert = 0 then None else Some (b, sizeof_MsgInsert)))))"

text \<open>The key is constructed in place; the construction throws when its size is invalid.\<close>

definition msgExtractDelete :: "buf \<Rightarrow> (int + BSONObj) res" where
  "msgExtractDelete b = bnd (check_msg b sizeof_MsgDelete OP_DELETE) (\<lambda>c. case c of Inl rc \<Rightarrow> Ret (Inl rc)
     | Inr _ \<Rightarrow> bnd (obj_init (b, sizeof_MsgDelete)) (\<lambda>key. Ret (Inr key)))"

definition msgExtractQuery :: "buf \<Rightarrow> (int + BSONObj) res" where
  "msgExtractQuery b = bnd (check_msg b sizeof_MsgQuery OP_QUERY) (\<lambda>c. case c of Inl rc \<Rightarrow> Ret (Inl rc)
     | Inr _ \<Rightarrow> bnd (obj_init (b, sizeof_MsgQuery)) (\<lambda>key. Ret (Inr key)))"

definition msgExtractCommand :: "buf \<Rightarrow> (int + int \<times> cptr option) res" where
  "msgExtractCommand b = bnd (check_msg b sizeof_MsgCommand OP_COMMAND) (\<lambda>c. case c of Inl rc \<Rightarrow> Ret (Inl rc)
     | Inr _ \<Rightarrow> bnd (ldi32 b 8) (\<lambda>numArgs.
         Ret (Inr (numArgs, if numArgs = 0 then None else Some (b, sizeof_MsgCommand)))))"

end
