(* ===== verification/MsgSpec.thy ===== *)
theory MsgSpec
  imports Msg
begin

text \<open>
  What a built message looks like, and that taking it apart gives back what was put in: all the
  build functions write a row of words followed by encoded documents.
\<close>

section \<open>The buffer\<close>

definition mb_ok :: "msg_buffer \<Rightarrow> bool" where
  "mb_ok mb \<longleftrightarrow> int (length (mb_bytes mb)) = mb_size mb \<and> mb_size mb < 2147483648"

definition can_grow :: "realloc_env \<Rightarrow> int \<Rightarrow> msg_buffer \<Rightarrow> bool" where
  "can_grow env sz mb \<longleftrightarrow> env \<noteq> None \<or> sz \<le> mb_size mb"

lemma length_realloc_bytes: "length b \<le> n \<Longrightarrow> length (realloc_bytes junk n b) = n"
  by (simp add: realloc_bytes_def)

lemma msgCheckBuffer_ok:
  assumes "mb_ok mb" "0 \<le> sz" "sz < 2147483648" "can_grow env sz mb"
  obtains mb' where "msgCheckBuffer env sz mb = (EDB_OK, mb')" "mb_ok mb'" "sz \<le> mb_size mb'"
proof (cases "sz > mb_size mb")
  case False
  then show ?thesis
    using that [of mb] assms(1) by (simp add: msgCheckBuffer_def)
next
  case True
  with assms(4) obtain junk where "env = Some junk"
    by (auto simp: can_grow_def)
  with True assms show ?thesis
    using that by (simp add: msgCheckBuffer_def mb_ok_def length_realloc_bytes)
qed

lemma msgCheckBuffer_fail:
  "env = None \<Longrightarrow> mb_size mb < sz \<Longrightarrow> 0 \<le> sz \<Longrightarrow> msgCheckBuffer env sz mb = (EDB_OOM, mb)"
  by (simp add: msgCheckBuffer_def)

section \<open>What is written\<close>

definition word_bytes :: "int list \<Rightarrow> u8 list" where
  "word_bytes vs = concat (map (\<lambda>v. le32 (to_u32 v)) vs)"

definition doc_bytes :: "fields list \<Rightarrow> u8 list" where
  "doc_bytes fss = concat (map enc_obj fss)"

lemma word_bytes_simps [simp]: "word_bytes [] = []" "word_bytes (v # vs) = le32 (to_u32 v) @ word_bytes vs"
  by (simp_all add: word_bytes_def)

lemma doc_bytes_simps [simp]: "doc_bytes [] = []" "doc_bytes (fs # fss) = enc_obj fs @ doc_bytes fss"
  by (simp_all add: doc_bytes_def)

lemma length_word_bytes [simp]: "length (word_bytes vs) = 4 * length vs"
  by (induction vs) simp_all

lemma put_words_append:
  "p = int (length pre) \<Longrightarrow> 4 * length vs \<le> length old \<Longrightarrow>
     put_words vs p (pre @ old) = Ret (pre @ word_bytes vs @ drop (4 * length vs) old)"
proof (induction vs arbitrary: p pre old)
  case (Cons v vs)
  have "put_words vs (p + 4) ((pre @ le32 (to_u32 v)) @ drop 4 old) =
      Ret ((pre @ le32 (to_u32 v)) @ word_bytes vs @ drop (4 * length vs) (drop 4 old))"
    using Cons.prems by (intro Cons.IH) simp_all
  moreover have "sti32 (pre @ old) p v = Ret (pre @ le32 (to_u32 v) @ drop 4 old)"
    using Cons.prems by (intro sti32_append) simp_all
  ultimately show ?case
    by (simp add: add.commute)
qed simp

lemma put_doc_append:
  assumes "obj_in o1 fs" "p = int (length pre)" "length (enc_obj fs) \<le> length old"
  shows "put_doc o1 p (pre @ old) = Ret (pre @ enc_obj fs @ drop (length (enc_obj fs)) old)"
proof -
  have "ldn (fst o1) (snd o1) (int (length (enc_obj fs))) = Ret (enc_obj fs)"
    using assms(1) by (simp add: obj_in_def ldn_at)
  then show ?thesis
    using stn_append [OF assms(2,3)] by (simp add: put_doc_def obj_objsize_in [OF assms(1)])
qed

lemma put_docs_append:
  "list_all2 obj_in os fss \<Longrightarrow> p = int (length pre) \<Longrightarrow> length (doc_bytes fss) \<le> length old \<Longrightarrow>
     put_docs os p (pre @ old) = Ret (pre @ doc_bytes fss @ drop (length (doc_bytes fss)) old)"
proof (induction os fss arbitrary: p pre old rule: list_all2_induct)
  case (Cons o1 os fs fss)
  let ?n = "length (enc_obj fs)"
  have "put_docs os (p + int ?n) ((pre @ enc_obj fs) @ drop ?n old) =
      Ret ((pre @ enc_obj fs) @ doc_bytes fss @ drop (length (doc_bytes fss)) (drop ?n old))"
    using Cons by (intro Cons.IH) simp_all
  moreover have "put_doc o1 p (pre @ old) = Ret (pre @ enc_obj fs @ drop ?n old)"
    using Cons by (intro put_doc_append) simp_all
  ultimately show ?case
    by (simp add: obj_objsize_in [OF Cons(1)] add.commute)
qed simp

lemma put_docs_single: "obj_in o1 fs \<Longrightarrow> put_docs [o1] p b = put_doc o1 p b"
  by (cases "put_doc o1 p b") (simp_all add: obj_objsize_in)

lemma add_sizes_wrap:
  "list_all2 obj_in os fss \<Longrightarrow> -2147483648 \<le> sz \<Longrightarrow> sz < 2147483648 \<Longrightarrow>
     add_sizes os sz = Ret (i32 (sz + int (length (doc_bytes fss))))"
proof (induction os fss arbitrary: sz rule: list_all2_induct)
  case Nil
  then show ?case
    by (simp add: i32_id)
next
  case (Cons o1 os fs fss)
  have "i32 (i32 (sz + a) + b) = i32 (sz + a + b)" for a b
    by (rule i32_i32_add)
  then show ?case
    using Cons.IH [OF conjunct1 [OF i32_range] conjunct2 [OF i32_range]]
    by (simp add: obj_objsize_in [OF Cons(1)] add.assoc)
qed

text \<open>All the build functions at once: words, then documents, in a buffer that is large enough.\<close>

lemma with_buffer_msg:
  assumes "mb_ok mb" "can_grow env sz mb" "sz < 2147483648" "list_all2 obj_in os fss"
    and sz: "sz = 4 * int (length ws) + int (length (doc_bytes fss))"
  shows "\<exists>mb' rest. with_buffer env sz mb (\<lambda>b. bnd (put_words ws 0 b) (put_docs os (4 * int (length ws)))) =
      Ret (EDB_OK, mb') \<and> mb_ok mb' \<and> mb_bytes mb' = word_bytes ws @ doc_bytes fss @ rest"
proof -
  obtain mb1 where c: "msgCheckBuffer env sz mb = (EDB_OK, mb1)" "mb_ok mb1" "sz \<le> mb_size mb1"
    using msgCheckBuffer_ok [of mb sz env] assms(1-3) sz by auto
  let ?b = "mb_bytes mb1" and ?d = "doc_bytes fss"
  have len: "4 * length ws + length ?d \<le> length ?b"
    using c(2,3) sz by (simp add: mb_ok_def)
  have "put_words ws 0 ([] @ ?b) = Ret ([] @ word_bytes ws @ drop (4 * length ws) ?b)"
    using len by (intro put_words_append) simp_all
  moreover have "put_docs os (4 * int (length ws)) (word_bytes ws @ drop (4 * length ws) ?b) =
      Ret (word_bytes ws @ ?d @ drop (length ?d) (drop (4 * length ws) ?b))"
    using assms(4) len by (intro put_docs_append) simp_all
  ultimately have "with_buffer env sz mb (\<lambda>b. bnd (put_words ws 0 b) (put_docs os (4 * int (length ws)))) =
      Ret (EDB_OK, mb1\<lparr>mb_bytes := word_bytes ws @ ?d @ drop (length ?d) (drop (4 * length ws) ?b)\<rparr>)"
    using c(1) by (simp add: with_buffer_def edb_codes)
  moreover have "mb_ok (mb1\<lparr>mb_bytes := word_bytes ws @ ?d @ drop (length ?d) (drop (4 * length ws) ?b)\<rparr>)"
    using c(2) len by (simp add: mb_ok_def)
  ultimately show ?thesis
    by fastforce
qed

section \<open>What is read back\<close>

text \<open>A message in a buffer: its words, the first of which is its length, and its documents.\<close>

definition msg_in :: "buf \<Rightarrow> int list \<Rightarrow> fields list \<Rightarrow> bool" where
  "msg_in b ws fss \<longleftrightarrow> (\<exists>rest. b = word_bytes ws @ doc_bytes fss @ rest) \<and>
     (\<forall>w \<in> set ws. -2147483648 \<le> w \<and> w < 2147483648)"

text \<open>Documents one after the other from \<open>p\<close> on.\<close>

fun docs_in :: "buf \<Rightarrow> int \<Rightarrow> fields list \<Rightarrow> bool" where
  "docs_in b p [] = True"
| "docs_in b p (fs # fss) = (obj_in (b, p) fs \<and> docs_in b (p + int (length (enc_obj fs))) fss)"

lemma word_bytes_append: "word_bytes (us @ vs) = word_bytes us @ word_bytes vs"
  by (simp add: word_bytes_def)

lemma ldi32_word:
  assumes "msg_in b ws fss" "i < length ws"
  shows "ldi32 b (4 * int i) = Ret (ws ! i)"
proof -
  obtain rest where b: "b = word_bytes ws @ doc_bytes fss @ rest"
      "-2147483648 \<le> ws ! i" "ws ! i < 2147483648"
    using assms by (auto simp: msg_in_def)
  have "ws = take i ws @ ws ! i # drop (Suc i) ws"
    using assms(2) by (rule id_take_nth_drop)
  then have "b = word_bytes (take i ws) @ le32 (to_u32 (ws ! i)) @ word_bytes (drop (Suc i) ws) @ doc_bytes fss @ rest"
    using b(1) word_bytes_append [of "take i ws" "ws ! i # drop (Suc i) ws"] by simp
  then have "at b (4 * int i) (le32 (to_u32 (ws ! i)))"
    unfolding at_def using assms(2) by fastforce
  then show ?thesis
    using b(2,3) by (simp add: ldi32_def ld32_at s32_to_u32)
qed

lemma docs_in_at:
  "at b p (doc_bytes fss) \<Longrightarrow> length b < 2147483648 \<Longrightarrow>
     \<forall>fs \<in> set fss. wf_fields fs \<and> int (length (enc_obj fs)) \<le> BSONObjMaxInternalSize \<Longrightarrow> docs_in b p fss"
  by (induction fss arbitrary: p) (simp_all add: at_append obj_in_def)

lemma list_all2_wf:
  "list_all2 obj_in os fss \<Longrightarrow>
     \<forall>fs \<in> set fss. wf_fields fs \<and> int (length (enc_obj fs)) \<le> BSONObjMaxInternalSize"
  by (induction os fss rule: list_all2_induct) (auto simp: obj_in_def)

lemma msg_docs:
  assumes "msg_in b ws fss" "length b < 2147483648" "list_all2 obj_in os fss"
  shows "docs_in b (4 * int (length ws)) fss"
proof (rule docs_in_at [OF _ assms(2) list_all2_wf [OF assms(3)]])
  show "at b (4 * int (length ws)) (doc_bytes fss)"
    using assms(1) unfolding msg_in_def at_def by fastforce
qed

lemma check_msg_word:
  assumes "msg_in b (len # op # ws) fss"
  shows "check_msg b least want =
    Ret (if len < least \<or> op \<noteq> want then Inl EDB_INVALIDARG else Inr ())"
  using ldi32_word [OF assms, of 0] ldi32_word [OF assms, of 1] by (simp add: check_msg_def)

lemma doc_bytes_single [simp]: "doc_bytes [fs] = enc_obj fs"
  by simp

text \<open>A built message, whichever function built it.\<close>

lemma build_msg:
  assumes "mb_ok mb" "can_grow env sz mb" "sz < 2147483648" "list_all2 obj_in os fss"
    and "sz = 4 * int (length ws) + int (length (doc_bytes fss))"
    and "\<forall>w \<in> set ws. -2147483648 \<le> w \<and> w < 2147483648"
  obtains mb' where
    "with_buffer env sz mb (\<lambda>b. bnd (put_words ws 0 b) (put_docs os (4 * int (length ws)))) = Ret (EDB_OK, mb')"
    "mb_ok mb'" "msg_in (mb_bytes mb') ws fss" "docs_in (mb_bytes mb') (4 * int (length ws)) fss"
proof -
  obtain mb' rest where m:
    "with_buffer env sz mb (\<lambda>b. bnd (put_words ws 0 b) (put_docs os (4 * int (length ws)))) = Ret (EDB_OK, mb')"
    "mb_ok mb'" "mb_bytes mb' = word_bytes ws @ doc_bytes fss @ rest"
    using with_buffer_msg [OF assms(1-5)] by blast
  then have i: "msg_in (mb_bytes mb') ws fss"
    using assms(6) by (auto simp: msg_in_def)
  have "length (mb_bytes mb') < 2147483648"
    using m(2) by (simp add: mb_ok_def)
  from msg_docs [OF i this assms(4)] m i show ?thesis
    using that by blast
qed

lemma put_doc_eta: "put_doc o1 p = (\<lambda>b. put_doc o1 p b)"
  by simp

lemma put_docs_single': "obj_in o1 fs \<Longrightarrow> put_docs [o1] p = put_doc o1 p"
  using put_docs_single by blast

lemma total_size:
  "0 \<le> k \<Longrightarrow> k + int (length (enc_obj fs)) < 2147483648 \<Longrightarrow>
     i32 (k + int (length (enc_obj fs))) = k + int (length (enc_obj fs))"
  by (simp add: i32_id)

lemma obj_in_small: "obj_in o1 fs \<Longrightarrow> int (length (enc_obj fs)) \<le> 16793600"
  by (simp add: obj_in_def BSONObjMaxInternalSize_def)

section \<open>Round trips\<close>

lemma reply_roundtrip:
  assumes "mb_ok mb" "-2147483648 \<le> rc" "rc < 2147483648" "obj_in o1 fs"
    and "can_grow env (16 + int (length (enc_obj fs))) mb"
  shows "\<exists>mb'. msgBuildReply env mb rc (Some o1) = Ret (EDB_OK, mb') \<and> mb_ok mb' \<and>
    ldi32 (mb_bytes mb') 0 = Ret (16 + int (length (enc_obj fs))) \<and>
    msgExtraReply (mb_bytes mb') = Ret (Inr (rc, 1, Some (mb_bytes mb', 16))) \<and>
    obj_in (mb_bytes mb', 16) fs"
proof -
  let ?sz = "16 + int (length (enc_obj fs))" and ?ws = "[16 + int (length (enc_obj fs)), 1, rc, 1]"
  note small = obj_in_small [OF assms(4)]
  obtain mb' where m: "with_buffer env ?sz mb (\<lambda>b. bnd (put_words ?ws 0 b) (put_docs [o1] 16)) = Ret (EDB_OK, mb')"
      "mb_ok mb'" "msg_in (mb_bytes mb') ?ws [fs]" "docs_in (mb_bytes mb') 16 [fs]"
    using build_msg [of mb env ?sz "[o1]" "[fs]" ?ws] assms small by auto
  have "msgBuildReply env mb rc (Some o1) = Ret (EDB_OK, mb')"
    using m(1) small
    by (simp add: msgBuildReply_def obj_objsize_in [OF assms(4)] total_size put_docs_single' [OF assms(4)]
        layout_simps del: put_words.simps put_docs.simps)
  then show ?thesis
    using m ldi32_word [OF m(3), of 0] ldi32_word [OF m(3), of 2] ldi32_word [OF m(3), of 3]
    by (simp add: msgExtraReply_def check_msg_word [OF m(3)] layout_simps)
qed

lemma reply_empty_roundtrip:
  assumes "mb_ok mb" "-2147483648 \<le> rc" "rc < 2147483648" "can_grow env 16 mb"
  shows "\<exists>mb'. msgBuildReply env mb rc None = Ret (EDB_OK, mb') \<and> mb_ok mb' \<and>
    ldi32 (mb_bytes mb') 0 = Ret 16 \<and> msgExtraReply (mb_bytes mb') = Ret (Inr (rc, 0, None))"
proof -
  let ?ws = "[16, 1, rc, 0]"
  obtain mb' where m: "with_buffer env 16 mb (\<lambda>b. bnd (put_words ?ws 0 b) (put_docs [] 16)) = Ret (EDB_OK, mb')"
      "mb_ok mb'" "msg_in (mb_bytes mb') ?ws []"
    using build_msg [of mb env 16 "[]" "[]" ?ws] assms by auto
  have "put_docs [] 16 = Ret"
    by (rule ext) simp
  with m(1) have "msgBuildReply env mb rc None = Ret (EDB_OK, mb')"
    by (simp add: msgBuildReply_def layout_simps del: put_words.simps)
  then show ?thesis
    using m ldi32_word [OF m(3), of 0] ldi32_word [OF m(3), of 2] ldi32_word [OF m(3), of 3]
    by (simp add: msgExtraReply_def check_msg_word [OF m(3)] layout_simps)
qed

lemma insert_roundtrip:
  assumes "mb_ok mb" "obj_in o1 fs" "can_grow env (12 + int (length (enc_obj fs))) mb"
  shows "\<exists>mb'. msgBuildInsert env mb o1 = Ret (EDB_OK, mb') \<and> mb_ok mb' \<and>
    ldi32 (mb_bytes mb') 0 = Ret (12 + int (length (enc_obj fs))) \<and>
    ldi32 (mb_bytes mb') 4 = Ret OP_INSERT \<and>
    msgExtractInsert (mb_bytes mb') = Ret (Inr (1, Some (mb_bytes mb', 12))) \<and> obj_in (mb_bytes mb', 12) fs"
proof -
  let ?sz = "12 + int (length (enc_obj fs))" and ?ws = "[12 + int (length (enc_obj fs)), 2, 1]"
  note small = obj_in_small [OF assms(2)]
  obtain mb' where m: "with_buffer env ?sz mb (\<lambda>b. bnd (put_words ?ws 0 b) (put_docs [o1] 12)) = Ret (EDB_OK, mb')"
      "mb_ok mb'" "msg_in (mb_bytes mb') ?ws [fs]" "docs_in (mb_bytes mb') 12 [fs]"
    using build_msg [of mb env ?sz "[o1]" "[fs]" ?ws] assms small by auto
  have "msgBuildInsert env mb o1 = Ret (EDB_OK, mb')"
    using m(1) small
    by (simp add: msgBuildInsert_def Let_def obj_objsize_in [OF assms(2)] total_size
        put_docs_single' [OF assms(2)] layout_simps del: put_words.simps put_docs.simps)
  then show ?thesis
    using m ldi32_word [OF m(3), of 0] ldi32_word [OF m(3), of 1] ldi32_word [OF m(3), of 2]
    by (simp add: msgExtractInsert_def check_msg_word [OF m(3)] layout_simps)
qed

lemma insert_many_roundtrip:
  assumes "mb_ok mb" "list_all2 obj_in os fss" "12 + int (length (doc_bytes fss)) < 2147483648"
    and "can_grow env (12 + int (length (doc_bytes fss))) mb" "length os < 2147483648"
  shows "\<exists>mb'. msgBuildInsert_many env mb os = Ret (EDB_OK, mb') \<and> mb_ok mb' \<and>
    msgExtractInsert (mb_bytes mb') = Ret (Inr (int (length os), if os = [] then None else Some (mb_bytes mb', 12))) \<and>
    docs_in (mb_bytes mb') 12 fss"
proof -
  let ?sz = "12 + int (length (doc_bytes fss))"
  let ?ws = "[12 + int (length (doc_bytes fss)), 2, int (length os)]"
  obtain mb' where m: "with_buffer env ?sz mb (\<lambda>b. bnd (put_words ?ws 0 b) (put_docs os 12)) = Ret (EDB_OK, mb')"
      "mb_ok mb'" "msg_in (mb_bytes mb') ?ws fss" "docs_in (mb_bytes mb') 12 fss"
    using build_msg [of mb env ?sz os fss ?ws] assms by auto
  have "put_docs os 12 = (\<lambda>b. put_docs os 12 b)"
    by simp
  then have "msgBuildInsert_many env mb os = Ret (EDB_OK, mb')"
    using m(1) assms(3) add_sizes_wrap [OF assms(2), of 12]
    by (simp add: msgBuildInsert_many_def i32_id layout_simps del: put_words.simps)
  then show ?thesis
    using m ldi32_word [OF m(3), of 2]
    by (simp add: msgExtractInsert_def check_msg_word [OF m(3)] layout_simps)
qed

lemma delete_roundtrip:
  assumes "mb_ok mb" "obj_in o1 fs" "can_grow env (8 + int (length (enc_obj fs))) mb"
  shows "\<exists>mb'. msgBuildDelete env mb o1 = Ret (EDB_OK, mb') \<and> mb_ok mb' \<and>
    ldi32 (mb_bytes mb') 4 = Ret OP_DELETE \<and>
    msgExtractDelete (mb_bytes mb') = Ret (Inr (mb_bytes mb', 8)) \<and> obj_in (mb_bytes mb', 8) fs \<and>
    msgExtractQuery (mb_bytes mb') = Ret (Inl EDB_INVALIDARG)"
proof -
  let ?sz = "8 + int (length (enc_obj fs))" and ?ws = "[8 + int (length (enc_obj fs)), 3]"
  note small = obj_in_small [OF assms(2)]
  obtain mb' where m: "with_buffer env ?sz mb (\<lambda>b. bnd (put_words ?ws 0 b) (put_docs [o1] 8)) = Ret (EDB_OK, mb')"
      "mb_ok mb'" "msg_in (mb_bytes mb') ?ws [fs]" "docs_in (mb_bytes mb') 8 [fs]"
    using build_msg [of mb env ?sz "[o1]" "[fs]" ?ws] assms small by auto
  have "msgBuildDelete env mb o1 = Ret (EDB_OK, mb')"
    using m(1) small
    by (simp add: msgBuildDelete_def Let_def obj_objsize_in [OF assms(2)] total_size
        put_docs_single' [OF assms(2)] layout_simps del: put_words.simps put_docs.simps)
  moreover have "obj_in (mb_bytes mb', 8) fs"
    using m(4) by simp
  ultimately show ?thesis
    using m(2) ldi32_word [OF m(3), of 1] obj_init_in [of "(mb_bytes mb', 8)" fs]
    by (simp add: msgExtractDelete_def msgExtractQuery_def check_msg_word [OF m(3)] layout_simps)
qed

lemma query_roundtrip:
  assumes "mb_ok mb" "obj_in o1 fs" "can_grow env (8 + int (length (enc_obj fs))) mb"
  shows "\<exists>mb'. msgBuildQuery env mb o1 = Ret (EDB_OK, mb') \<and> mb_ok mb' \<and>
    ldi32 (mb_bytes mb') 4 = Ret OP_QUERY \<and>
    msgExtractQuery (mb_bytes mb') = Ret (Inr (mb_bytes mb', 8)) \<and> obj_in (mb_bytes mb', 8) fs"
proof -
  let ?sz = "8 + int (length (enc_obj fs))" and ?ws = "[8 + int (length (enc_obj fs)), 4]"
  note small = obj_in_small [OF assms(2)]
  obtain mb' where m: "with_buffer env ?sz mb (\<lambda>b. bnd (put_words ?ws 0 b) (put_docs [o1] 8)) = Ret (EDB_OK, mb')"
      "mb_ok mb'" "msg_in (mb_bytes mb') ?ws [fs]" "docs_in (mb_bytes mb') 8 [fs]"
    using build_msg [of mb env ?sz "[o1]" "[fs]" ?ws] assms small by auto
  have "msgBuildQuery env mb o1 = Ret (EDB_OK, mb')"
    using m(1) small
    by (simp add: msgBuildQuery_def Let_def obj_objsize_in [OF assms(2)] total_size
        put_docs_single' [OF assms(2)] layout_simps del: put_words.simps put_docs.simps)
  moreover have "obj_in (mb_bytes mb', 8) fs"
    using m(4) by simp
  ultimately show ?thesis
    using m(2) ldi32_word [OF m(3), of 1] obj_init_in [of "(mb_bytes mb', 8)" fs]
    by (simp add: msgExtractQuery_def check_msg_word [OF m(3)] layout_simps)
qed

lemma command_many_roundtrip:
  assumes "mb_ok mb" "list_all2 obj_in os fss" "12 + int (length (doc_bytes fss)) < 2147483648"
    and "can_grow env (12 + int (length (doc_bytes fss))) mb" "length os < 2147483648"
  shows "\<exists>mb'. msgBuildCommand_many env mb os = Ret (EDB_OK, mb') \<and> mb_ok mb' \<and>
    msgExtractCommand (mb_bytes mb') = Ret (Inr (int (length os), if os = [] then None else Some (mb_bytes mb', 12))) \<and>
    docs_in (mb_bytes mb') 12 fss"
proof -
  let ?sz = "12 + int (length (doc_bytes fss))"
  let ?ws = "[12 + int (length (doc_bytes fss)), 5, int (length os)]"
  obtain mb' where m: "with_buffer env ?sz mb (\<lambda>b. bnd (put_words ?ws 0 b) (put_docs os 12)) = Ret (EDB_OK, mb')"
      "mb_ok mb'" "msg_in (mb_bytes mb') ?ws fss" "docs_in (mb_bytes mb') 12 fss"
    using build_msg [of mb env ?sz os fss ?ws] assms by auto
  then have "msgBuildCommand_many env mb os = Ret (EDB_OK, mb')"
    using assms(3) add_sizes_wrap [OF assms(2), of 12]
    by (simp add: msgBuildCommand_many_def i32_id layout_simps del: put_words.simps)
  then show ?thesis
    using m ldi32_word [OF m(3), of 2]
    by (simp add: msgExtractCommand_def check_msg_word [OF m(3)] layout_simps)
qed

text \<open>The single-document command is the vector of one.\<close>

lemma command_single:
  assumes "obj_in o1 fs"
  shows "msgBuildCommand env mb o1 = msgBuildCommand_many env mb [o1]"
    "msgBuildInsert env mb o1 = msgBuildInsert_many env mb [o1]"
  by (simp_all add: msgBuildCommand_def msgBuildCommand_many_def msgBuildInsert_def msgBuildInsert_many_def
      Let_def obj_objsize_in [OF assms] put_docs_single' [OF assms] del: put_docs.simps put_words.simps)

section \<open>Overflow of the size\<close>

text \<open>
  From 2 GB of documents on the sum of the sizes wraps to a negative \<open>int\<close>, which every buffer is
  large enough for, and the copies run over the end of it.
\<close>

lemma put_docs_overrun:
  "list_all2 obj_in os fss \<Longrightarrow> p + int (length (doc_bytes fss)) > int (length b) \<Longrightarrow> 0 \<le> p \<Longrightarrow> os \<noteq> [] \<Longrightarrow>
     put_docs os p b = Stuck"
proof (induction os fss arbitrary: p b rule: list_all2_induct)
  case (Cons o1 os fs fss)
  have l: "ldn (fst o1) (snd o1) (int (length (enc_obj fs))) = Ret (enc_obj fs)"
    using Cons(1) by (simp add: obj_in_def ldn_at)
  show ?case
  proof (cases "p + int (length (enc_obj fs)) \<le> int (length b)")
    case True
    then obtain b' where b': "stn b p (enc_obj fs) = Ret b'"
      using Cons.prems(2) by (simp add: stn_def)
    from stn_length [OF this] have "length b' = length b" .
    moreover have "os \<noteq> []"
      using Cons.prems(1) Cons(2) True by auto
    ultimately show ?thesis
      using Cons.IH [where p = "p + int (length (enc_obj fs))" and b = b'] Cons.prems(1,2) l b'
      by (simp add: put_doc_def obj_objsize_in [OF Cons(1)] add.assoc)
  qed (simp add: put_doc_def obj_objsize_in [OF Cons(1)] l stn_def)
qed simp

lemma insert_many_overflow:
  assumes "mb_ok mb" "list_all2 obj_in os fss" "12 \<le> mb_size mb"
    and "2147483648 \<le> 12 + int (length (doc_bytes fss))" "12 + int (length (doc_bytes fss)) < 4294967296"
  shows "msgBuildInsert_many env mb os = Stuck"
proof -
  let ?n = "int (length (doc_bytes fss))"
  have "to_u32 (12 + ?n) = nat (12 + ?n)"
    using assms(5) by (intro to_u32_nat) simp_all
  then have sz: "i32 (12 + ?n) = 12 + ?n - 4294967296"
    using assms(4) by (simp add: i32_def s32_def nat_less_iff)
  then have c: "msgCheckBuffer env (i32 (12 + ?n)) mb = (EDB_OK, mb)"
    using assms(3,5) by (simp add: msgCheckBuffer_def)
  let ?ws = "[i32 (12 + ?n), 2, int (length os)]" and ?b = "mb_bytes mb"
  have len: "4 * length ?ws \<le> length ?b"
    using assms(1,3) by (simp add: mb_ok_def)
  then have w: "put_words ?ws 0 ([] @ ?b) = Ret ([] @ word_bytes ?ws @ drop (4 * length ?ws) ?b)"
    by (intro put_words_append) simp_all
  have "put_docs os 12 (word_bytes ?ws @ drop (4 * length ?ws) ?b) = Stuck"
  proof (rule put_docs_overrun [OF assms(2)])
    show "12 + ?n > int (length (word_bytes ?ws @ drop (4 * length ?ws) ?b))"
      using assms(1,4) len by (simp add: mb_ok_def)
    show "os \<noteq> []"
      using assms(2,4) by auto
  qed simp
  then show ?thesis
    using c w add_sizes_wrap [OF assms(2), of 12]
    by (simp add: msgBuildInsert_many_def with_buffer_def edb_codes layout_simps del: put_words.simps)
qed

end
