(* ===== verification/OssLatch.thy ===== *)
theory OssLatch
  imports Prelude
begin

text \<open>
  The two latches of \<open>include/ossLatch.hpp\<close>: \<open>ossXLatch\<close> over a POSIX mutex and \<open>ossSLatch\<close> over a
  POSIX read/write lock, as values that name the threads holding them.  A blocking call that
  cannot be granted yet is \<open>Wait\<close>; an unlock by a thread that does not hold the lock is
  undefined by POSIX, \<open>Stuck\<close>.  The interface both share, and the interleaving of the calls of
  any number of threads, follow.
\<close>

type_synonym tid = nat

datatype OSS_LATCH_MODE = SHARED | EXCLUSIVE

section \<open>ossXLatch\<close>

type_synonym ossXLatch = "tid option"

definition x_init :: ossXLatch where
  "x_init = None"

fun x_get :: "tid \<Rightarrow> ossXLatch \<Rightarrow> ossXLatch res" where
  "x_get t None = Ret (Some t)"
| "x_get t (Some u) = Wait"

fun x_release :: "tid \<Rightarrow> ossXLatch \<Rightarrow> ossXLatch res" where
  "x_release t l = (if l = Some t then Ret None else Stuck)"

fun x_try_get :: "tid \<Rightarrow> ossXLatch \<Rightarrow> bool \<times> ossXLatch" where
  "x_try_get t None = (True, Some t)"
| "x_try_get t (Some u) = (False, Some u)"

section \<open>ossSLatch\<close>

record ossSLatch =
  writer :: "tid option"
  readers :: "tid list"

definition s_init :: ossSLatch where
  "s_init = \<lparr>writer = None, readers = []\<rparr>"

definition s_get :: "tid \<Rightarrow> ossSLatch \<Rightarrow> ossSLatch res" where
  "s_get t l = (if writer l = None \<and> readers l = [] then Ret (l\<lparr>writer := Some t\<rparr>) else Wait)"

definition s_try_get :: "tid \<Rightarrow> ossSLatch \<Rightarrow> bool \<times> ossSLatch" where
  "s_try_get t l = (if writer l = None \<and> readers l = [] then (True, l\<lparr>writer := Some t\<rparr>) else (False, l))"

definition s_get_shared :: "tid \<Rightarrow> ossSLatch \<Rightarrow> ossSLatch res" where
  "s_get_shared t l = (if writer l = None then Ret (l\<lparr>readers := t # readers l\<rparr>) else Wait)"

text \<open>\<open>release\<close> and \<open>release_shared\<close> are the same call, \<open>pthread_rwlock_unlock\<close>.\<close>

definition s_release :: "tid \<Rightarrow> ossSLatch \<Rightarrow> ossSLatch res" where
  "s_release t l = (if writer l = Some t then Ret (l\<lparr>writer := None\<rparr>)
     else if t \<in> set (readers l) then Ret (l\<lparr>readers := remove1 t (readers l)\<rparr>) else Stuck)"

definition s_release_shared :: "tid \<Rightarrow> ossSLatch \<Rightarrow> ossSLatch res" where
  "s_release_shared t l = s_release t l"

section \<open>The interface: an exclusive latch\<close>

text \<open>
  What the storage and the EDU manager rely on: a latch that is free is granted, is then held
  by the caller alone, is not granted to anybody else, and is free again after the release.
\<close>

locale xlatch =
  fixes get :: "tid \<Rightarrow> 'l \<Rightarrow> 'l res"
    and release :: "tid \<Rightarrow> 'l \<Rightarrow> 'l res"
    and try_get :: "tid \<Rightarrow> 'l \<Rightarrow> bool \<times> 'l"
    and free :: "'l \<Rightarrow> bool"
    and held :: "tid \<Rightarrow> 'l \<Rightarrow> bool"
  assumes get_free: "free l \<Longrightarrow> \<exists>l'. get t l = Ret l' \<and> held t l' \<and> release t l' = Ret l"
    and get_busy: "\<not> free l \<Longrightarrow> get t l = Wait"
    and try_get_spec: "try_get t l = (case get t l of Ret l' \<Rightarrow> (True, l') | _ \<Rightarrow> (False, l))"
    and held_busy: "held t l \<Longrightarrow> \<not> free l"
    and held_unique: "held t l \<Longrightarrow> held u l \<Longrightarrow> t = u"
begin

lemma get_Ret_iff: "(\<exists>l'. get t l = Ret l') \<longleftrightarrow> free l"
  by (cases "free l") (auto simp: get_busy dest: get_free [of l t])

lemma get_holds: "get t l = Ret l' \<Longrightarrow> held t l' \<and> free l"
  by (cases "free l") (auto simp: get_busy dest: get_free [of l t])

lemma get_release: "get t l = Ret l' \<Longrightarrow> release t l' = Ret l"
  by (cases "free l") (auto simp: get_busy dest: get_free [of l t])

lemma get_excludes: "get t l = Ret l' \<Longrightarrow> get u l' = Wait \<and> try_get u l' = (False, l')"
  by (drule get_holds) (auto simp: try_get_spec get_busy dest: held_busy)

lemma try_get_True: "try_get t l = (True, l') \<longleftrightarrow> get t l = Ret l'"
  by (auto simp: try_get_spec split: res.splits)

text \<open>A critical section that gets, works and releases leaves the latch as it found it.\<close>

lemma section_balanced: "bnd (get t l) (release t) = (if free l then Ret l else Wait)"
  using get_free [of l t] get_busy [of l t] by auto

end

definition s_free :: "ossSLatch \<Rightarrow> bool" where
  "s_free l \<longleftrightarrow> writer l = None \<and> readers l = []"

definition s_held :: "tid \<Rightarrow> ossSLatch \<Rightarrow> bool" where
  "s_held t l \<longleftrightarrow> writer l = Some t"

interpretation xl: xlatch x_get x_release x_try_get "\<lambda>l. l = None" "\<lambda>t l. l = Some t"
proof unfold_locales
  show "x_try_get t l = (case x_get t l of Ret l' \<Rightarrow> (True, l') | _ \<Rightarrow> (False, l))" for t l
    by (cases l) auto
qed auto

interpretation sl: xlatch s_get s_release s_try_get s_free s_held
  by unfold_locales
     (auto simp: s_free_def s_held_def s_get_def s_release_def s_try_get_def split: if_splits)

section \<open>Interleavings\<close>

text \<open>The calls that return, by any thread, on one shared \<open>ossSLatch\<close>.\<close>

datatype latch_call = Get tid | TryGet tid | GetShared tid | Release tid | ReleaseShared tid

inductive latch_step :: "ossSLatch \<Rightarrow> latch_call \<Rightarrow> ossSLatch \<Rightarrow> bool" where
  "s_get t l = Ret l' \<Longrightarrow> latch_step l (Get t) l'"
| "s_try_get t l = (b, l') \<Longrightarrow> latch_step l (TryGet t) l'"
| "s_get_shared t l = Ret l' \<Longrightarrow> latch_step l (GetShared t) l'"
| "s_release t l = Ret l' \<Longrightarrow> latch_step l (Release t) l'"
| "s_release_shared t l = Ret l' \<Longrightarrow> latch_step l (ReleaseShared t) l'"

inductive_cases latch_stepE: "latch_step l c l'"

inductive latch_reach :: "ossSLatch \<Rightarrow> bool" where
  latch_start: "latch_reach s_init"
| latch_more: "latch_reach l \<Longrightarrow> latch_step l c l' \<Longrightarrow> latch_reach l'"

text \<open>At most one writer, and no reader while there is one.\<close>

definition latch_excl :: "ossSLatch \<Rightarrow> bool" where
  "latch_excl l \<longleftrightarrow> writer l = None \<or> readers l = []"

lemma latch_step_excl: "latch_step l c l' \<Longrightarrow> latch_excl l \<Longrightarrow> latch_excl l'"
  by (erule latch_stepE)
     (auto simp: latch_excl_def s_get_def s_try_get_def s_get_shared_def s_release_def
        s_release_shared_def split: if_splits)

lemma latch_reach_excl: "latch_reach l \<Longrightarrow> latch_excl l"
proof (induction rule: latch_reach.induct)
  case latch_start
  then show ?case
    by (simp add: latch_excl_def s_init_def)
qed (rule latch_step_excl)

lemma shared_balanced:
  "writer l = None \<Longrightarrow> bnd (s_get_shared t l) (s_release_shared t) = Ret l"
  by (simp add: s_get_shared_def s_release_shared_def s_release_def)

end
