(* ===== verification/OssFile.thy ===== *)
theory OssFile
  imports OssCore OssLatch
begin

unbundle bit_operations_syntax

text \<open>
  \<open>oss/ossPrimitiveFileOp.cpp\<close> and \<open>oss/ossMmapFile.cpp\<close>: a file handle with the retry loops around
  the system calls, and a file mapped into memory segment by segment.  What the system calls
  answer is a script argument; a script that ends while the code would still call is \<open>Wait\<close>.
\<close>

section \<open>The primitive file\<close>

text \<open>
  \<open>fhandle\<close> is the descriptor, -1 when invalid; the file itself is its size, its bytes and the
  kernel's offset.  \<open>EINTR\<close> is 4 on Linux.
\<close>

definition EINTR :: int where "EINTR = 4"
definition ENOMEM :: int where "ENOMEM = 12"
definition EACCES :: int where "EACCES = 13"

record ossPrimitiveFileOp =
  fhandle :: int
  bIsStdout :: bool
  fsize :: nat
  fbytes :: mem
  foffset :: nat

definition fop_isValid :: "('a) ossPrimitiveFileOp_scheme \<Rightarrow> bool" where
  "fop_isValid f \<longleftrightarrow> fhandle f \<noteq> - 1"

definition fop_Close :: "'a ossPrimitiveFileOp_scheme \<Rightarrow> 'a ossPrimitiveFileOp_scheme" where
  "fop_Close f = (if fop_isValid f \<and> \<not> bIsStdout f then f\<lparr>fhandle := - 1\<rparr> else f)"

text \<open>The mode the option bits are translated to.\<close>

datatype open_flag = O_RDWR | O_RDONLY | O_WRONLY | O_CREAT | O_TRUNC

definition fop_open_mode :: "nat \<Rightarrow> open_flag list" where
  "fop_open_mode options =
     (if bit options 1 then [O_RDONLY] else if bit options 2 then [O_WRONLY] else [O_RDWR])
     @ (if bit options 3 then [] else if bit options 4 then [O_CREAT] else [])
     @ (if bit options 5 then [O_TRUNC] else [])"

definition OSS_PRIMITIVE_FILE_OP_OPEN_ALWAYS :: nat where
  "OSS_PRIMITIVE_FILE_OP_OPEN_ALWAYS = 16"

text \<open>\<open>calls\<close>: the descriptor and the \<open>errno\<close> of each \<open>open\<close>; interrupted calls are repeated.\<close>

fun fop_open_loop :: "(int \<times> int) list \<Rightarrow> (int \<times> int) res" where
  "fop_open_loop [] = Wait"
| "fop_open_loop ((h, e) # calls) = (if h = - 1 \<and> e = EINTR then fop_open_loop calls else Ret (h, e))"

definition fop_Open :: "(int \<times> int) list \<Rightarrow> 'a ossPrimitiveFileOp_scheme \<Rightarrow>
    (int \<times> 'a ossPrimitiveFileOp_scheme) res" where
  "fop_Open calls f = bnd (fop_open_loop calls) (\<lambda>(h, e).
     Ret (if h \<le> - 1 then e else 0, f\<lparr>fhandle := h, foffset := 0\<rparr>))"

definition fop_openStdout :: "'a ossPrimitiveFileOp_scheme \<Rightarrow> 'a ossPrimitiveFileOp_scheme" where
  "fop_openStdout f = f\<lparr>fhandle := 1, bIsStdout := True\<rparr>"

definition fop_seekToEnd :: "'a ossPrimitiveFileOp_scheme \<Rightarrow> 'a ossPrimitiveFileOp_scheme" where
  "fop_seekToEnd f = f\<lparr>foffset := fsize f\<rparr>"

definition fop_seekToOffset :: "int \<Rightarrow> 'a ossPrimitiveFileOp_scheme \<Rightarrow> 'a ossPrimitiveFileOp_scheme" where
  "fop_seekToOffset off f = (if off \<noteq> - 1 \<and> 0 \<le> off then f\<lparr>foffset := nat off\<rparr> else f)"

text \<open>
  One \<open>read\<close> or \<open>write\<close>: how many bytes it moved, or -1 with an \<open>errno\<close>.  A write puts the first
  \<open>n\<close> bytes it was given at the kernel's offset.
\<close>

datatype sys_io = Moved nat | Failed int

definition put_bytes :: "u8 list \<Rightarrow> 'a ossPrimitiveFileOp_scheme \<Rightarrow> 'a ossPrimitiveFileOp_scheme" where
  "put_bytes bs f = f\<lparr>fbytes := blit (fbytes f) (foffset f) bs, foffset := foffset f + length bs,
     fsize := max (fsize f) (foffset f + length bs)\<rparr>"

fun fop_write_loop :: "u8 list \<Rightarrow> sys_io list \<Rightarrow> 'a ossPrimitiveFileOp_scheme \<Rightarrow>
    (int \<times> 'a ossPrimitiveFileOp_scheme) res" where
  "fop_write_loop rest [] f = Wait"
| "fop_write_loop rest (Failed e # calls) f =
     (if e = EINTR then fop_write_loop rest calls f else Ret (e, f))"
| "fop_write_loop rest (Moved n # calls) f =
     (let f' = put_bytes (take n rest) f in
      if drop n rest = [] then Ret (0, f') else fop_write_loop (drop n rest) calls f')"

text \<open>A size of 0 stands for the length of the C string in the buffer.\<close>

definition c_prefix :: "u8 list \<Rightarrow> u8 list" where
  "c_prefix bs = takeWhile (\<lambda>c. c \<noteq> 0) bs"

definition fop_Write :: "u8 list \<Rightarrow> nat \<Rightarrow> sys_io list \<Rightarrow> 'a ossPrimitiveFileOp_scheme \<Rightarrow>
    (int \<times> 'a ossPrimitiveFileOp_scheme) res" where
  "fop_Write buf n calls f =
     (let data = (if n = 0 then c_prefix buf else take n buf) in
      if fop_isValid f then fop_write_loop data calls f else Ret (0, f))"

text \<open>
  \<open>Read\<close> calls \<open>read\<close> once, but for interruptions; \<open>want\<close> says whether the caller passed a pointer
  for the count.  On the error path the code stores through that pointer without a test.
\<close>

fun fop_read_loop :: "nat \<Rightarrow> sys_io list \<Rightarrow> 'a ossPrimitiveFileOp_scheme \<Rightarrow>
    ((int \<times> u8 list) \<times> 'a ossPrimitiveFileOp_scheme) res" where
  "fop_read_loop sz [] f = Wait"
| "fop_read_loop sz (Failed e # calls) f =
     (if e = EINTR then fop_read_loop sz calls f else Ret ((e, []), f))"
| "fop_read_loop sz (Moved n # calls) f =
     (let k = min (min n sz) (fsize f - foffset f) in
      Ret ((0, rdb (fbytes f) (foffset f) k), f\<lparr>foffset := foffset f + k\<rparr>))"

definition fop_Read :: "bool \<Rightarrow> nat \<Rightarrow> int \<Rightarrow> sys_io list \<Rightarrow> 'a ossPrimitiveFileOp_scheme \<Rightarrow>
    ((int \<times> u8 list) \<times> 'a ossPrimitiveFileOp_scheme) res" where
  "fop_Read want sz errno calls f =
     (if fop_isValid f then
        bnd (fop_read_loop sz calls f) (\<lambda>((rc, bs), f').
          if rc \<noteq> 0 \<and> \<not> want then Stuck else Ret ((rc, bs), f'))
      else if want then Ret ((errno, []), f) else Stuck)"

text \<open>\<open>getSize\<close>: \<open>fstat\<close> answers with the file's size, or fails with an \<open>errno\<close> (\<open>Some\<close>).\<close>

definition fop_getSize :: "int option \<Rightarrow> 'a ossPrimitiveFileOp_scheme \<Rightarrow> int \<times> nat" where
  "fop_getSize err f = (case err of None \<Rightarrow> (0, fsize f) | Some e \<Rightarrow> (e, 0))"

section \<open>What the write loop does\<close>

lemma rdb_blit_append: "blit (blit m a xs) (a + length xs) ys = blit m a (xs @ ys)"
  by (rule ext) (auto simp: blit_def nth_append)

lemma put_bytes_append: "put_bytes ys (put_bytes xs f) = put_bytes (xs @ ys) f"
  by (simp add: put_bytes_def rdb_blit_append max.assoc max_def)

lemma put_bytes_fields [simp]:
  "fhandle (put_bytes bs f) = fhandle f" "foffset (put_bytes bs f) = foffset f + length bs"
  "fsize (put_bytes bs f) = max (fsize f) (foffset f + length bs)"
  by (simp_all add: put_bytes_def)

lemma put_bytes_Nil: "foffset f \<le> fsize f \<Longrightarrow> put_bytes [] f = f"
  by (cases f) (auto simp: put_bytes_def blit_def fun_eq_iff)

text \<open>Success means all bytes, in order, at the offset; a failure leaves a proper prefix of them.\<close>

lemma fop_write_loop_spec:
  assumes "fop_write_loop data calls f = Ret (rc, f')" "foffset f \<le> fsize f" "Failed 0 \<notin> set calls"
  shows "\<exists>out rest. data = out @ rest \<and> f' = put_bytes out f \<and> (rc = 0 \<longrightarrow> rest = [])"
  using assms
proof (induction data calls f rule: fop_write_loop.induct)
  case (2 rest e calls f)
  show ?case
  proof (cases "e = EINTR")
    case True
    with 2 show ?thesis
      by simp
  next
    case False
    with 2 have "rc \<noteq> 0" "f' = put_bytes [] f"
      by (auto simp: put_bytes_Nil)
    then show ?thesis
      by (metis append_Nil)
  qed
next
  case (3 rest n calls f)
  let ?f = "put_bytes (take n rest) f"
  show ?case
  proof (cases "drop n rest = []")
    case True
    with 3(2) have "f' = put_bytes rest f"
      by (simp add: Let_def)
    then show ?thesis
      by (metis append_Nil2)
  next
    case False
    with 3 obtain dn rs where r: "drop n rest = dn @ rs" "f' = put_bytes dn ?f" "rc = 0 \<longrightarrow> rs = []"
      by (auto simp: Let_def)
    have "rest = take n rest @ drop n rest"
      by simp
    also have "\<dots> = (take n rest @ dn) @ rs"
      unfolding r(1) by simp
    finally show ?thesis
      using r(2,3) put_bytes_append by metis
  qed
qed simp

text \<open>With no handle the bytes are dropped and the call reports success.\<close>

lemma fop_Write_invalid: "\<not> fop_isValid f \<Longrightarrow> fop_Write buf n calls f = Ret (0, f)"
  by (simp add: fop_Write_def)

text \<open>A kernel that keeps answering 0 keeps the loop going.\<close>

lemma fop_write_zero_spins:
  "data \<noteq> [] \<Longrightarrow> fop_write_loop data (replicate k (Moved 0)) f = Wait"
  by (induction k arbitrary: f) (auto simp: Let_def)

section \<open>The mapped file\<close>

record ossMmapSegment =
  sptr :: nat
  slen :: nat
  soff :: nat

record ossMmapFile = ossPrimitiveFileOp +
  mlatch :: ossXLatch
  opened :: bool
  segments :: "ossMmapSegment list"
  vmem :: mem

text \<open>
  \<open>map\<close> of \<open>ossMmapFile\<close>.  The kernel's answer is the address, or the \<open>errno\<close>; a mapping shows
  the bytes of the file (\<open>MAP_SHARED\<close>).  \<open>stat_err\<close> is the outcome of \<open>fstat\<close>.
\<close>

definition map_view :: "mem \<Rightarrow> nat \<Rightarrow> mem \<Rightarrow> nat \<Rightarrow> nat \<Rightarrow> mem" where
  "map_view m a file off len = (\<lambda>x. if a \<le> x \<and> x < a + len then file (off + (x - a)) else m x)"

definition mmap_body :: "nat \<Rightarrow> nat \<Rightarrow> int option \<Rightarrow> nat + int \<Rightarrow> 'a ossMmapFile_scheme \<Rightarrow>
    (int \<times> nat option) \<times> 'a ossMmapFile_scheme" where
  "mmap_body off len stat_err ans f =
     (if len = 0 then ((EDB_OK, None), f) else
      let (rc, fsz) = fop_getSize stat_err f in
      if rc \<noteq> 0 then ((rc, None), f) else
      if (off + len) mod 18446744073709551616 > fsz then ((EDB_INVALIDARG, None), f) else
      case ans of
        Inr e \<Rightarrow> ((if e = ENOMEM then EDB_OOM else if e = EACCES then EDB_PERM else EDB_SYS, None), f)
      | Inl a \<Rightarrow> ((EDB_OK, Some a), f\<lparr>segments := segments f @ [\<lparr>sptr = a, slen = len, soff = off\<rparr>],
            vmem := map_view (vmem f) a (fbytes f) off len\<rparr>))"

definition mmap_map :: "tid \<Rightarrow> nat \<Rightarrow> nat \<Rightarrow> int option \<Rightarrow> nat + int \<Rightarrow> 'a ossMmapFile_scheme \<Rightarrow>
    ((int \<times> nat option) \<times> 'a ossMmapFile_scheme) res" where
  "mmap_map t off len stat_err ans f = bnd (x_get t (mlatch f)) (\<lambda>l.
     let (r, f') = mmap_body off len stat_err ans (f\<lparr>mlatch := l\<rparr>) in
     bnd (x_release t (mlatch f')) (\<lambda>l'. Ret (r, f'\<lparr>mlatch := l'\<rparr>)))"

definition mmap_open :: "tid \<Rightarrow> (int \<times> int) list \<Rightarrow> 'a ossMmapFile_scheme \<Rightarrow>
    (int \<times> 'a ossMmapFile_scheme) res" where
  "mmap_open t calls f = bnd (x_get t (mlatch f)) (\<lambda>l.
     bnd (fop_Open calls (f\<lparr>mlatch := l\<rparr>)) (\<lambda>(rc, f1).
     let f2 = (if rc = EDB_OK then f1\<lparr>opened := True\<rparr> else f1) in
     bnd (x_release t (mlatch f2)) (\<lambda>l'. Ret (rc, f2\<lparr>mlatch := l'\<rparr>))))"

text \<open>
  \<open>close\<close> unmaps every segment: what the mappings hold is now what the file holds (the last one
  mapped wins where two overlap; the code never maps a range twice).
\<close>

definition write_back :: "mem \<Rightarrow> ossMmapSegment list \<Rightarrow> mem \<Rightarrow> mem" where
  "write_back m segs file = fold (\<lambda>s fb. map_view fb (soff s) m (sptr s) (slen s)) segs file"

definition mmap_close :: "tid \<Rightarrow> 'a ossMmapFile_scheme \<Rightarrow> 'a ossMmapFile_scheme res" where
  "mmap_close t f = bnd (x_get t (mlatch f)) (\<lambda>l.
     let f1 = f\<lparr>mlatch := l, fbytes := write_back (vmem f) (segments f) (fbytes f), segments := []\<rparr>;
         f2 = (if opened f1 then (fop_Close f1)\<lparr>opened := False\<rparr> else f1) in
     bnd (x_release t (mlatch f2)) (\<lambda>l'. Ret (f2\<lparr>mlatch := l'\<rparr>)))"

text \<open>The latch is free after every call that returns.\<close>

lemma mmap_body_latch [simp]: "mlatch (snd (mmap_body off len err ans f)) = mlatch f"
  by (auto simp: mmap_body_def Let_def split: prod.splits sum.splits)

lemma mmap_map_eq:
  "mlatch f = None \<Longrightarrow> mmap_map t off len err ans f =
     Ret (fst (mmap_body off len err ans (f\<lparr>mlatch := Some t\<rparr>)),
       (snd (mmap_body off len err ans (f\<lparr>mlatch := Some t\<rparr>)))\<lparr>mlatch := None\<rparr>)"
  using mmap_body_latch [of off len err ans "f\<lparr>mlatch := Some t\<rparr>"]
  by (cases "mmap_body off len err ans (f\<lparr>mlatch := Some t\<rparr>)") (simp add: mmap_map_def)

end
