(* ===== verification/OssSocket.thy ===== *)
theory OssSocket
  imports OssFile CMem
begin

text \<open>
  \<open>ossSocket\<close> of \<open>oss/ossSocket.cpp\<close>.  The answers of the socket calls are script arguments; a
  script that ends while the code would still call is \<open>Wait\<close>.  Addresses are kept as the numbers in
  \<open>sockaddr_in\<close>, the port in network byte order; their lengths are always that of \<open>sockaddr_in\<close>.
\<close>

section \<open>Addresses\<close>

definition htons :: "nat \<Rightarrow> nat" where
  "htons n = (n mod 256) * 256 + (n div 256) mod 256"

definition ntohs :: "nat \<Rightarrow> nat" where
  "ntohs n = htons n"

record sockaddr_in =
  sin_family :: nat
  sin_port :: nat
  sin_addr :: nat

definition AF_INET :: nat where "AF_INET = 2"

definition addr_zero :: sockaddr_in where
  "addr_zero = \<lparr>sin_family = 0, sin_port = 0, sin_addr = 0\<rparr>"

definition OSS_SOCKET_DEF_TIMEOUT :: int where "OSS_SOCKET_DEF_TIMEOUT = 500000"

text \<open>The options the code sets; those set on the current descriptor are kept, in order.\<close>

datatype sock_option = SO_LINGER int int | SO_REUSEADDR int | SO_RCVTIMEO int | SO_SNDTIMEO int
  | TCP_NODELAY int | SO_KEEPALIVE int

record ossSocket =
  sk_fd :: int
  sk_sockAddress :: sockaddr_in
  sk_peerAddress :: sockaddr_in
  sk_init :: bool
  sk_timeout :: int
  sk_options :: "sock_option list"

text \<open>The four constructors.  \<open>gethostbyname\<close> may fail; then \<open>inet_addr\<close> reads the name as a number.\<close>

definition sock_listening :: "nat \<Rightarrow> int \<Rightarrow> ossSocket" where
  "sock_listening port timeout = \<lparr>sk_fd = 0,
     sk_sockAddress = \<lparr>sin_family = AF_INET, sin_port = htons port, sin_addr = 0\<rparr>,
     sk_peerAddress = addr_zero, sk_init = False, sk_timeout = timeout, sk_options = []\<rparr>"

definition sock_new :: ossSocket where
  "sock_new = \<lparr>sk_fd = 0, sk_sockAddress = addr_zero, sk_peerAddress = addr_zero, sk_init = False,
     sk_timeout = OSS_SOCKET_DEF_TIMEOUT, sk_options = []\<rparr>"

definition resolve :: "(string \<Rightarrow> nat option) \<Rightarrow> (string \<Rightarrow> nat) \<Rightarrow> string \<Rightarrow> nat" where
  "resolve gethostbyname inet_addr host = (case gethostbyname host of Some a \<Rightarrow> a | None \<Rightarrow> inet_addr host)"

definition sock_connecting :: "(string \<Rightarrow> nat option) \<Rightarrow> (string \<Rightarrow> nat) \<Rightarrow> string \<Rightarrow> nat \<Rightarrow> int \<Rightarrow> ossSocket" where
  "sock_connecting gethostbyname inet_addr host port timeout = \<lparr>sk_fd = 0,
     sk_sockAddress = \<lparr>sin_family = AF_INET, sin_port = htons port, sin_addr = resolve gethostbyname inet_addr host\<rparr>,
     sk_peerAddress = addr_zero, sk_init = False, sk_timeout = timeout, sk_options = []\<rparr>"

text \<open>From a descriptor: \<open>getsockname\<close> and \<open>getpeername\<close> give an address or fail (\<open>None\<close>).\<close>

definition sock_existing :: "int \<Rightarrow> int \<Rightarrow> sockaddr_in \<Rightarrow> sockaddr_in option \<Rightarrow> sockaddr_in option \<Rightarrow> ossSocket" where
  "sock_existing fd timeout junk sockname peername = (let
     s = \<lparr>sk_fd = fd, sk_sockAddress = junk, sk_peerAddress = addr_zero, sk_init = True, sk_timeout = timeout, sk_options = []\<rparr> in
     case sockname of None \<Rightarrow> s\<lparr>sk_init := False\<rparr>
     | Some a \<Rightarrow> (case peername of None \<Rightarrow> s\<lparr>sk_sockAddress := a\<rparr>
         | Some b \<Rightarrow> s\<lparr>sk_sockAddress := a, sk_peerAddress := b\<rparr>))"

definition sock_setAddress :: "(string \<Rightarrow> nat option) \<Rightarrow> (string \<Rightarrow> nat) \<Rightarrow> string \<Rightarrow> nat \<Rightarrow> ossSocket \<Rightarrow> ossSocket" where
  "sock_setAddress gethostbyname inet_addr host port s = s\<lparr>
     sk_sockAddress := \<lparr>sin_family = AF_INET, sin_port = htons port, sin_addr = resolve gethostbyname inet_addr host\<rparr>,
     sk_peerAddress := addr_zero\<rparr>"

definition sock_getLocalPort :: "ossSocket \<Rightarrow> nat" where
  "sock_getLocalPort s = ntohs (sin_port (sk_sockAddress s))"

definition sock_getPeerPort :: "ossSocket \<Rightarrow> nat" where
  "sock_getPeerPort s = ntohs (sin_port (sk_peerAddress s))"

text \<open>\<open>_getAddress\<close>: at most \<open>NI_MAXHOST\<close> bytes; \<open>getnameinfo\<close> answers a code and writes the name.\<close>

definition NI_MAXHOST :: nat where "NI_MAXHOST = 1025"

definition sock_getAddress :: "(sockaddr_in \<Rightarrow> nat \<Rightarrow> int \<times> string) \<Rightarrow> sockaddr_in \<Rightarrow> nat \<Rightarrow> int \<times> string option" where
  "sock_getAddress getnameinfo a len = (let (rc, name) = getnameinfo a (if len < NI_MAXHOST then len else NI_MAXHOST) in
     if rc \<noteq> 0 then (EDB_NETWORK, None) else (EDB_OK, Some name))"

definition sock_getLocalAddress :: "(sockaddr_in \<Rightarrow> nat \<Rightarrow> int \<times> string) \<Rightarrow> ossSocket \<Rightarrow> nat \<Rightarrow> int \<times> string option" where
  "sock_getLocalAddress getnameinfo s len = sock_getAddress getnameinfo (sk_sockAddress s) len"

definition sock_getPeerAddress :: "(sockaddr_in \<Rightarrow> nat \<Rightarrow> int \<times> string) \<Rightarrow> ossSocket \<Rightarrow> nat \<Rightarrow> int \<times> string option" where
  "sock_getPeerAddress getnameinfo s len = sock_getAddress getnameinfo (sk_peerAddress s) len"

text \<open>
  \<open>atoi\<close>: white space, a sign, digits.  A number that does not fit an \<open>int\<close> is undefined by the C
  standard and given here without the limit.
\<close>

definition is_digit :: "char \<Rightarrow> bool" where
  "is_digit c \<longleftrightarrow> 48 \<le> (of_char c :: nat) \<and> (of_char c :: nat) \<le> 57"

definition digit_of :: "char \<Rightarrow> int" where
  "digit_of c = int (of_char c) - 48"

definition is_space :: "char \<Rightarrow> bool" where
  "is_space c \<longleftrightarrow> (of_char c :: nat) = 32 \<or> 9 \<le> (of_char c :: nat) \<and> (of_char c :: nat) \<le> 13"

definition digits_value :: "string \<Rightarrow> int" where
  "digits_value s = foldl (\<lambda>n c. n * 10 + digit_of c) 0 (takeWhile is_digit s)"

definition c_atoi :: "string \<Rightarrow> int" where
  "c_atoi s = (case dropWhile is_space s of [] \<Rightarrow> 0
     | c # cs \<Rightarrow> if c = CHR ''-'' then - digits_value cs
         else if c = CHR ''+'' then digits_value cs else digits_value (c # cs))"

definition sock_getPort :: "(string \<Rightarrow> nat option) \<Rightarrow> string \<Rightarrow> int \<times> nat" where
  "sock_getPort getservbyname name = (EDB_OK, case getservbyname name of
     None \<Rightarrow> nat (c_atoi name mod 65536) | Some p \<Rightarrow> ntohs p)"

section \<open>Opening and closing\<close>

text \<open>\<open>opt\<close> answers what \<open>setsockopt\<close> returns for an option; the option is set when that is 0.\<close>

definition set_option :: "(sock_option \<Rightarrow> int) \<Rightarrow> sock_option \<Rightarrow> ossSocket \<Rightarrow> int \<times> ossSocket" where
  "set_option opt x s = (opt x, if opt x = 0 then s\<lparr>sk_options := sk_options s @ [x]\<rparr> else s)"

definition sock_setSocketLi :: "(sock_option \<Rightarrow> int) \<Rightarrow> int \<Rightarrow> int \<Rightarrow> ossSocket \<Rightarrow> int \<times> ossSocket" where
  "sock_setSocketLi opt lOnOff linger s = set_option opt (SO_LINGER lOnOff linger) s"

definition sock_setTimeout :: "(sock_option \<Rightarrow> int) \<Rightarrow> int \<Rightarrow> ossSocket \<Rightarrow> int \<times> ossSocket" where
  "sock_setTimeout opt seconds s = (let (_, s1) = set_option opt (SO_RCVTIMEO seconds) s in
     set_option opt (SO_SNDTIMEO seconds) s1)"

definition sock_disableNagle :: "(sock_option \<Rightarrow> int) \<Rightarrow> ossSocket \<Rightarrow> int \<times> ossSocket" where
  "sock_disableNagle opt s = (let (_, s1) = set_option opt (TCP_NODELAY 1) s in
     set_option opt (SO_KEEPALIVE 1) s1)"

definition sock_initSocket :: "(sock_option \<Rightarrow> int) \<Rightarrow> int \<Rightarrow> ossSocket \<Rightarrow> int \<times> ossSocket" where
  "sock_initSocket opt fd s = (if sk_init s then (EDB_OK, s) else
     let s1 = s\<lparr>sk_peerAddress := addr_zero, sk_fd := fd, sk_options := []\<rparr> in
     if fd = - 1 then (EDB_NETWORK, s1)
     else (EDB_OK, snd (sock_setTimeout opt (sk_timeout s) (s1\<lparr>sk_init := True\<rparr>))))"

definition sock_close :: "ossSocket \<Rightarrow> ossSocket" where
  "sock_close s = (if sk_init s then s\<lparr>sk_init := False\<rparr> else s)"

definition sock_bind_listen :: "(sock_option \<Rightarrow> int) \<Rightarrow> int \<Rightarrow> int \<Rightarrow> ossSocket \<Rightarrow> int \<times> ossSocket" where
  "sock_bind_listen opt bind_rc listen_rc s = (
     let (_, s1) = set_option opt (SO_REUSEADDR 1) s; (_, s2) = sock_setSocketLi opt 1 30 s1 in
     if bind_rc \<noteq> 0 then (EDB_NETWORK, sock_close s2)
     else if listen_rc \<noteq> 0 then (EDB_NETWORK, sock_close s2) else (EDB_OK, s2))"

definition sock_connect :: "int \<Rightarrow> sockaddr_in option \<Rightarrow> sockaddr_in option \<Rightarrow> ossSocket \<Rightarrow> int \<times> ossSocket" where
  "sock_connect rc sockname peername s = (if rc \<noteq> 0 then (EDB_NETWORK, s) else
     case sockname of None \<Rightarrow> (EDB_NETWORK, s)
     | Some a \<Rightarrow> (case peername of None \<Rightarrow> (EDB_NETWORK, s\<lparr>sk_sockAddress := a\<rparr>)
         | Some b \<Rightarrow> (EDB_OK, s\<lparr>sk_sockAddress := a, sk_peerAddress := b\<rparr>)))"

definition sock_isConnected :: "int \<Rightarrow> bool" where
  "sock_isConnected send_rc \<longleftrightarrow> \<not> send_rc < 0"

section \<open>Waiting for the descriptor\<close>

text \<open>
  The loop around \<open>select\<close> that \<open>send\<close>, \<open>recv\<close> and \<open>accept\<close> start with: it answers that the time is
  over, that our descriptor is ready or another one is, or an \<open>errno\<close>.
\<close>

datatype select_result = Sel_timeout | Sel_ready | Sel_other | Sel_error int

fun select_loop :: "select_result list \<Rightarrow> int res" where
  "select_loop [] = Wait"
| "select_loop (Sel_timeout # _) = Ret EDB_TIMEOUT"
| "select_loop (Sel_ready # _) = Ret EDB_OK"
| "select_loop (Sel_other # rs) = select_loop rs"
| "select_loop (Sel_error e # rs) = (if e = EINTR then select_loop rs else Ret EDB_NETWORK)"

definition sock_accept :: "select_result list \<Rightarrow> int \<Rightarrow> ossSocket \<Rightarrow> ((int \<times> int option) \<times> ossSocket) res" where
  "sock_accept sel accepted s = bnd (select_loop sel) (\<lambda>rc.
     if rc = EDB_TIMEOUT then Ret ((rc, Some 0), s)
     else if rc \<noteq> EDB_OK then Ret ((rc, None), sock_close s)
     else if accepted = - 1 then Ret ((EDB_NETWORK, Some accepted), sock_close s)
     else Ret ((EDB_OK, Some accepted), s))"

section \<open>Sending and receiving\<close>

text \<open>The bytes that went out, with the code.\<close>

fun send_loop :: "u8 list \<Rightarrow> sys_io list \<Rightarrow> (int \<times> u8 list) res" where
  "send_loop [] calls = Ret (EDB_OK, [])"
| "send_loop rest [] = Wait"
| "send_loop rest (Failed e # calls) = Ret (EDB_NETWORK, [])"
| "send_loop rest (Moved n # calls) = bnd (send_loop (drop n rest) calls) (\<lambda>(rc, out). Ret (rc, take n rest @ out))"

definition sock_send :: "cptr \<Rightarrow> int \<Rightarrow> select_result list \<Rightarrow> sys_io list \<Rightarrow> (int \<times> u8 list) res" where
  "sock_send p len sel calls = (if len = 0 then Ret (EDB_OK, []) else
     bnd (select_loop sel) (\<lambda>rc. if rc \<noteq> EDB_OK then Ret (rc, []) else
     if len < 0 then Ret (EDB_OK, []) else
     bnd (ldn (fst p) (snd p) len) (\<lambda>bs. send_loop bs calls)))"

text \<open>
  \<open>recv\<close> gets some of the bytes (at most those asked for), none when the peer is gone, or an
  \<open>errno\<close>; \<open>EAGAIN\<close> and \<open>EWOULDBLOCK\<close> are the same number on Linux.  The result has the bytes stored
  from the start of the caller's buffer.
\<close>

datatype recv_result = Got "u8 list" | Recv_failed int

definition EAGAIN :: int where "EAGAIN = 11"

definition MAX_RECV_RETRIES :: nat where "MAX_RECV_RETRIES = 5"

fun recv_loop :: "int \<Rightarrow> bool \<Rightarrow> nat \<Rightarrow> nat \<Rightarrow> recv_result list \<Rightarrow> (int \<times> u8 list) res" where
  "recv_loop timeout peek 0 retries calls = Ret (EDB_OK, [])"
| "recv_loop timeout peek (Suc n) retries [] = Wait"
| "recv_loop timeout peek (Suc n) retries (Got bs # calls) = (let got = take (Suc n) bs in
     if got = [] then Ret (EDB_NETWORK_CLOSE, [])
     else if peek then Ret (int (length got), got)
     else bnd (recv_loop timeout peek (Suc n - length got) retries calls) (\<lambda>(rc, more). Ret (rc, got @ more)))"
| "recv_loop timeout peek (Suc n) retries (Recv_failed e # calls) =
     (if e = EAGAIN \<and> timeout > 0 then Ret (EDB_NETWORK, [])
      else if e = EINTR \<and> retries < MAX_RECV_RETRIES then recv_loop timeout peek (Suc n) (retries + 1) calls
      else Ret (EDB_NETWORK, []))"

definition sock_recv :: "ossSocket \<Rightarrow> bool \<Rightarrow> int \<Rightarrow> select_result list \<Rightarrow> recv_result list \<Rightarrow> (int \<times> u8 list) res" where
  "sock_recv s peek len sel calls = (if len = 0 then Ret (EDB_OK, []) else
     bnd (select_loop sel) (\<lambda>rc. if rc \<noteq> EDB_OK then Ret (rc, []) else
     recv_loop (sk_timeout s) peek (nat len) 0 calls))"

section \<open>Lemmas\<close>

lemma ntohs_htons: "ntohs (htons p) = p mod 65536"
proof -
  have "p mod 65536 = p mod 256 + 256 * (p div 256 mod 256)"
    using mod_mult2_eq [of p 256 256] by simp
  then show ?thesis
    by (simp add: ntohs_def htons_def)
qed

lemma select_outcome: "select_loop sel = Ret rc \<Longrightarrow> rc = EDB_OK \<or> rc = EDB_TIMEOUT \<or> rc = EDB_NETWORK"
  by (induction sel rule: select_loop.induct) (auto split: if_splits)

lemma send_loop_prefix: "send_loop bs calls = Ret (rc, out) \<Longrightarrow> \<exists>rest. bs = out @ rest \<and> (rc = EDB_OK \<longrightarrow> rest = [])"
proof (induction bs calls arbitrary: rc out rule: send_loop.induct)
  case (4 v va n calls)
  then obtain out' where out: "send_loop (drop n (v # va)) calls = Ret (rc, out')" "out = take n (v # va) @ out'"
    by (auto simp: bnd_eq_Ret)
  with 4(1) obtain rest where "drop n (v # va) = out' @ rest" "rc = EDB_OK \<longrightarrow> rest = []"
    by blast
  with out(2) show ?case
    by (metis append.assoc append_take_drop_id)
qed (simp_all add: edb_codes)

lemma send_loop_ends: "\<forall>c \<in> set calls. \<exists>n. c = Moved (Suc n) \<Longrightarrow> length bs \<le> length calls \<Longrightarrow> send_loop bs calls = Ret (EDB_OK, bs)"
proof (induction bs calls rule: send_loop.induct)
  case (4 v va n calls)
  then have "length (drop n (v # va)) \<le> length calls"
    by auto
  with 4 show ?case
    by (auto simp: bnd_eq_Ret)
qed simp_all

text \<open>The stream the peer sends: what the calls gave, in order.\<close>

fun chunks :: "recv_result list \<Rightarrow> u8 list" where
  "chunks [] = []"
| "chunks (Got bs # calls) = bs @ chunks calls"
| "chunks (Recv_failed e # calls) = chunks calls"

text \<open>No call gives more than was asked for.\<close>

fun fits :: "nat \<Rightarrow> recv_result list \<Rightarrow> bool" where
  "fits n [] \<longleftrightarrow> True"
| "fits n (Got bs # calls) \<longleftrightarrow> length bs \<le> n \<and> (n = length bs \<or> fits (n - length bs) calls)"
| "fits n (Recv_failed e # calls) \<longleftrightarrow> fits n calls"

lemma recv_loop_prefix:
  "recv_loop timeout False n retries calls = Ret (rc, bs) \<Longrightarrow> fits n calls \<Longrightarrow>
     length bs \<le> n \<and> (\<exists>rest. chunks calls = bs @ rest) \<and> (rc = EDB_OK \<longleftrightarrow> length bs = n)"
proof (induction timeout "False" n retries calls arbitrary: rc bs rule: recv_loop.induct)
  case (3 timeout n retries cs calls)
  show ?case
  proof (cases "cs = []")
    case True
    with 3(2) show ?thesis
      by (auto simp: edb_codes)
  next
    case False
    then obtain more where more: "recv_loop timeout False (Suc n - length cs) retries calls = Ret (rc, more)" "bs = cs @ more"
      using 3(2,3) by (auto simp: Let_def bnd_eq_Ret split: if_splits)
    have l: "length cs \<le> Suc n"
      using 3(3) by simp
    show ?thesis
    proof (cases "length cs = Suc n")
      case True
      with more show ?thesis
        by auto
    next
      case ne: False
      then have "fits (Suc n - length cs) calls"
        using 3(3) by simp
      with 3(1) [of "take (Suc n) cs" rc more] more l False have
        "length more \<le> Suc n - length cs \<and> (\<exists>rest. chunks calls = more @ rest) \<and> (rc = EDB_OK \<longleftrightarrow> length more = Suc n - length cs)"
        by simp
      with more l show ?thesis
        by auto
    qed
  qed
qed (auto simp: edb_codes split: if_splits)

lemma sock_send_all:
  assumes "sock_send (b, i) len sel calls = Ret (EDB_OK, out)" "0 < len"
  shows "ldn b i len = Ret out" "length out = nat len"
proof -
  obtain bs where bs: "ldn b i len = Ret bs" "send_loop bs calls = Ret (EDB_OK, out)"
    using assms by (auto simp: sock_send_def bnd_eq_Ret split: if_splits)
  with send_loop_prefix [OF bs(2)] show "ldn b i len = Ret out"
    by auto
  then show "length out = nat len"
    by (auto simp: ldn_def sub_def split: if_splits)
qed

lemma sock_recv_part:
  assumes "sock_recv s False len sel calls = Ret (rc, bs)" "0 < len" "fits (nat len) calls"
  shows "length bs \<le> nat len \<and> (\<exists>rest. chunks calls = bs @ rest) \<and> (rc = EDB_OK \<longleftrightarrow> length bs = nat len)"
proof -
  consider "rc \<noteq> EDB_OK" "bs = []" | "recv_loop (sk_timeout s) False (nat len) 0 calls = Ret (rc, bs)"
    using assms(1,2) by (auto simp: sock_recv_def bnd_eq_Ret split: if_splits)
  then show ?thesis
  proof cases
    case 1
    with assms(2) show ?thesis
      by simp
  next
    case 2
    then show ?thesis
      by (rule recv_loop_prefix [OF _ assms(3)])
  qed
qed

text \<open>How a reception ends: it still waits, or some bytes came, all of them when the code is \<open>EDB_OK\<close>.\<close>

definition recv_end :: "nat \<Rightarrow> (int \<times> u8 list) res \<Rightarrow> bool" where
  "recv_end n r \<longleftrightarrow> (case r of Ret (rc, bs) \<Rightarrow> length bs \<le> n \<and> (rc = EDB_OK \<longrightarrow> length bs = n)
     | Raise _ \<Rightarrow> False | Stuck \<Rightarrow> False | Wait \<Rightarrow> True)"

lemma recv_end_simps [simp]:
  "recv_end n Wait" "recv_end n (Ret (rc, bs)) \<longleftrightarrow> length bs \<le> n \<and> (rc = EDB_OK \<longrightarrow> length bs = n)"
  "\<not> recv_end n Stuck" "\<not> recv_end n (Raise k)"
  by (simp_all add: recv_end_def)

lemma recv_end_cases:
  assumes "recv_end n r"
  obtains "r = Wait" | rc bs where "r = Ret (rc, bs)" "length bs \<le> n" "rc = EDB_OK \<Longrightarrow> length bs = n"
  using assms by (cases r) auto

lemma recv_end_cat:
  assumes "recv_end (n - length got) r" "length got \<le> n"
  shows "recv_end n (bnd r (\<lambda>(rc, more). Ret (rc, got @ more)))"
  using assms(1) by (cases rule: recv_end_cases) (use assms(2) in auto)

lemma recv_loop_end: "recv_end n (recv_loop timeout False n retries calls)"
proof (induction timeout "False" n retries calls rule: recv_loop.induct)
  case (3 timeout n retries cs calls)
  let ?got = "take (Suc n) cs"
  show ?case
  proof (cases "?got = []")
    case False
    then have "recv_end (Suc n - length ?got) (recv_loop timeout False (Suc n - length ?got) retries calls)"
      by (intro 3) simp_all
    from recv_end_cat [OF this] False show ?thesis
      by (simp add: Let_def)
  qed (simp add: edb_codes)
qed (simp_all add: edb_codes)

lemma sock_recv_end: "recv_end (nat n) (sock_recv s False n sel calls)"
proof -
  have "select_loop sel = Wait \<or> (\<exists>rc. select_loop sel = Ret rc)"
    by (induction sel rule: select_loop.induct) auto
  with recv_loop_end [of "nat n" "sk_timeout s" 0 calls] show ?thesis
    by (auto simp: sock_recv_def)
qed

text \<open>A peer that sends some bytes and goes.\<close>

lemma recv_then_closed:
  assumes "xs \<noteq> []" "length xs < nat n"
  shows "sock_recv s False n [Sel_ready] [Got xs, Got []] = Ret (EDB_NETWORK_CLOSE, xs)"
proof -
  obtain k where k: "nat n = Suc k"
    using assms(2) by (cases "nat n") auto
  obtain j where j: "Suc k - length xs = Suc j"
    using assms(2) k by (cases "Suc k - length xs") auto
  have "take (Suc k) xs = xs"
    using assms(2) k by simp
  moreover have "n \<noteq> 0"
    using k by auto
  ultimately show ?thesis
    using assms(1) k j by (simp add: sock_recv_def Let_def edb_codes)
qed

lemma recv_exact:
  assumes "length xs = nat n" "0 < n"
  shows "sock_recv s False n [Sel_ready] [Got xs] = Ret (EDB_OK, xs)"
proof -
  obtain k where k: "nat n = Suc k"
    using assms(2) by (cases "nat n") auto
  then have "take (Suc k) xs = xs" "xs \<noteq> []"
    using assms(1) by auto
  with assms k show ?thesis
    by (simp add: sock_recv_def Let_def edb_codes)
qed

end
