(* ===== verification/Client.thy ===== *)
theory Client
  imports MsgSpec OssSocket
begin

text \<open>
  The shell client: the line it reads (\<open>client/edb.cpp\<close>), the commands (\<open>client/command.cpp\<close>) and
  their look-up (\<open>client/commandFactory.cpp\<close>).  What the socket calls do and the document that
  \<open>fromjson\<close> makes of the text are arguments.  Characters are bytes.
\<close>

section \<open>Reading a line\<close>

definition CMD_BUFFER_SIZE :: nat where "CMD_BUFFER_SIZE = 512"

definition SPACE :: u8 where "SPACE = 32"
definition TAB :: u8 where "TAB = 9"
definition BACK_SLANT :: u8 where "BACK_SLANT = 92"
definition NEW_LINE :: u8 where "NEW_LINE = 10"

text \<open>
  \<open>readLine\<close> stores from offset \<open>at\<close> of the buffer, without looking at its \<open>length\<close> argument; a
  character outside the buffer is \<open>Stuck\<close>.  What is left of the input comes with the buffer; the
  input that ends without a new line is \<open>Wait\<close>.
\<close>

fun read_chars :: "nat \<Rightarrow> u8 list \<Rightarrow> buf \<Rightarrow> (buf \<times> u8 list) res" where
  "read_chars p [] b = Wait"
| "read_chars p (ch # input) b = (if ch = NEW_LINE then Ret (b, input)
     else if ch = BACK_SLANT then read_chars p input b
     else if p < length b then read_chars (p + 1) input (b[p := ch]) else Stuck)"

definition readLine :: "nat \<Rightarrow> u8 list \<Rightarrow> buf \<Rightarrow> (buf \<times> u8 list) res" where
  "readLine p input b = bnd (read_chars p input b) (\<lambda>(b, input). bnd (c_strlen b (int p)) (\<lambda>n.
     bnd (stn b (int p + n) [0]) (\<lambda>b. Ret (b, input))))"

text \<open>
  \<open>readInput\<close>: continuation lines while the last character is a backslash (\<open>curBufLen\<close> is not
  computed again).  The byte before the buffer, which an empty line looks at, is an argument.
\<close>

fun more_lines :: "nat \<Rightarrow> u8 \<Rightarrow> nat \<Rightarrow> u8 list \<Rightarrow> buf \<Rightarrow> (buf \<times> u8 list) res" where
  "more_lines 0 before curBufLen input b = Wait"
| "more_lines (Suc k) before curBufLen input b =
     (if (if curBufLen = 0 then before else b ! (curBufLen - 1)) = BACK_SLANT \<and> CMD_BUFFER_SIZE - curBufLen > 0
      then (if curBufLen = 0 then Stuck else
        bnd (readLine (curBufLen - 1) input b) (\<lambda>(b, input). more_lines k before curBufLen input b))
      else Ret (b, input))"

definition readInput :: "u8 \<Rightarrow> u8 list \<Rightarrow> (u8 list \<times> u8 list) res" where
  "readInput before input = bnd (readLine 0 input (replicate CMD_BUFFER_SIZE 0)) (\<lambda>(b, input).
     bnd (c_strlen b 0) (\<lambda>n. bnd (more_lines (length input + 1) before (nat n) input b) (\<lambda>(b, input).
     bnd (c_strlen b 0) (\<lambda>n. Ret (map (\<lambda>c. if c = TAB then SPACE else c) (take (nat n) b), input)))))"

text \<open>\<open>split\<close>: the pieces between delimiters, an empty one after a delimiter at the end left out.\<close>

function split :: "u8 list \<Rightarrow> u8 \<Rightarrow> u8 list list" where
  "split text delim = (if text = [] then [] else
     takeWhile (\<lambda>c. c \<noteq> delim) text # split (drop 1 (dropWhile (\<lambda>c. c \<noteq> delim) text)) delim)"
  by pat_completeness auto
termination
proof (relation "measure (\<lambda>(text, delim). length text)")
  fix s :: "u8 list" and delim
  assume "s \<noteq> []"
  then show "((drop 1 (dropWhile (\<lambda>c. c \<noteq> delim) s), delim), s, delim) \<in> measure (\<lambda>(s, delim). length s)"
    using length_dropWhile_le [of "\<lambda>c. c \<noteq> delim" s] by (cases s) auto
qed simp

declare split.simps [simp del]

section \<open>Commands\<close>

definition RECV_BUF_SIZE :: nat where "RECV_BUF_SIZE = 4096"
definition SEND_BUF_SIZE :: nat where "SEND_BUF_SIZE = 4096"

definition EDB_QUERY_INVALID_ARGUMENT :: int where "EDB_QUERY_INVALID_ARGUMENT = - 101"
definition EDB_INSERT_INVALID_ARGUMENT :: int where "EDB_INSERT_INVALID_ARGUMENT = - 102"
definition EDB_DELETE_INVALID_ARGUMENT :: int where "EDB_DELETE_INVALID_ARGUMENT = - 103"
definition EDB_INVALID_RECORD :: int where "EDB_INVALID_RECORD = - 104"
definition EDB_RECV_DATA_LENGTH_ERROR :: int where "EDB_RECV_DATA_LENGTH_ERROR = - 107"
definition EDB_SOCK_INIT_FAILED :: int where "EDB_SOCK_INIT_FAILED = - 113"
definition EDB_SOCK_CONNECT_FAILED :: int where "EDB_SOCK_CONNECT_FAILED = - 114"
definition EDB_SOCK_NOT_CONNECT :: int where "EDB_SOCK_NOT_CONNECT = - 115"
definition EDB_SOCK_REMOTE_CLOSED :: int where "EDB_SOCK_REMOTE_CLOSED = - 116"
definition EDB_SOCK_SEND_FAILED :: int where "EDB_SOCK_SEND_FAILED = - 117"
definition EDB_MSG_BUILD_FAILED :: int where "EDB_MSG_BUILD_FAILED = - 119"

text \<open>\<open>getError\<close>: the code itself, and the line it prints.\<close>

definition error_lines :: "(int \<times> string) list" where
  "error_lines = [(EDB_IO, ''io error is occurred''), (EDB_INVALIDARG, ''invalid argument''), (EDB_PERM, ''edb_perm''),
     (EDB_OOM, ''edb_oom''), (EDB_SYS, ''edb_sys''), (EDB_QUIESCED, ''edu_quiesced''),
     (EDB_PMD_HELP_ONLY, ''edb_network_close''), (EDB_PMD_FORCE_SYSTEM_EDU, ''edb_pmd_force_system_edu''),
     (EDB_TIMEOUT, ''edb_timeout''), (EDB_EDU_INVAL_STATUS, ''edb_edu_inval_status''), (EDB_NETWORK, ''edb_network''),
     (EDB_NETWORK_CLOSE, ''edb_network_close''), (EDB_APP_FORCED, ''edb_app_forced''),
     (EDB_IXM_ID_EXIST, ''edb_ixm_id_exist''), (EDB_HEADER_INVALID, ''edb_header_invalid''),
     (EDB_IXM_ID_NOT_EXIST, ''edb_ixm_id_not_exist''), (EDB_QUERY_INVALID_ARGUMENT, ''edb_query_invalid_argument''),
     (EDB_INSERT_INVALID_ARGUMENT, ''edb_insert_invalid_argument''), (EDB_DELETE_INVALID_ARGUMENT, ''edb_delete_invalid_argument''),
     (EDB_INVALID_RECORD, ''edb_invalid_record''), (EDB_RECV_DATA_LENGTH_ERROR, ''edb_recv_data_length_error''),
     (EDB_SOCK_INIT_FAILED, ''edb_sock__init_failed''), (EDB_SOCK_CONNECT_FAILED, ''edb_sock_connect_failed''),
     (EDB_SOCK_NOT_CONNECT, ''edb_sock_not_connect''), (EDB_SOCK_REMOTE_CLOSED, ''edb_sock_remote_closed''),
     (EDB_SOCK_SEND_FAILED, ''edb_sock_send_failed''), (EDB_MSG_BUILD_FAILED, ''edb_msg_build_failed'')]"

definition getError :: "int \<Rightarrow> int \<times> string option" where
  "getError code = (code, map_of error_lines code)"

text \<open>
  What the socket does during an order: the answers of the two \<open>isConnected\<close> probes, the calls that
  send the message, and those that receive the length and the rest of the reply.
\<close>

record order_io =
  oi_probe :: int
  oi_realloc :: realloc_env
  oi_send :: "select_result list \<times> sys_io list"
  oi_probe2 :: int
  oi_head :: "(select_result list \<times> recv_result list) list"
  oi_body :: "(select_result list \<times> recv_result list) list"

fun recv_retry :: "ossSocket \<Rightarrow> int \<Rightarrow> (select_result list \<times> recv_result list) list \<Rightarrow> (int \<times> u8 list) res" where
  "recv_retry s n [] = Wait"
| "recv_retry s n ((sel, calls) # later) = bnd (sock_recv s False n sel calls) (\<lambda>(rc, bs).
     if rc = EDB_TIMEOUT then recv_retry s n later else Ret (rc, bs))"

text \<open>The code and the receive buffer; only a closed connection is an error of the first \<open>recv\<close>.\<close>

definition recvReply :: "ossSocket \<Rightarrow> order_io \<Rightarrow> (int \<times> buf) res" where
  "recvReply s io = (let b = replicate RECV_BUF_SIZE 0 in
     if \<not> sock_isConnected (oi_probe2 io) then Ret (EDB_SOCK_NOT_CONNECT, b) else
     bnd (recv_retry s 4 (oi_head io)) (\<lambda>(ret, bs). bnd (stn b 0 bs) (\<lambda>b.
     if ret = EDB_NETWORK_CLOSE then Ret (EDB_SOCK_REMOTE_CLOSED, b) else
     bnd (ldi32 b 0) (\<lambda>len. if len > int RECV_BUF_SIZE then Ret (EDB_RECV_DATA_LENGTH_ERROR, b) else
     bnd (recv_retry s (i32 (len - 4)) (oi_body io)) (\<lambda>(ret, bs). bnd (stn b 4 bs) (\<lambda>b.
     if ret = EDB_NETWORK_CLOSE then Ret (EDB_SOCK_REMOTE_CLOSED, b) else Ret (ret, b)))))))"

text \<open>
  \<open>sendOrder\<close> with a document.  The buffer it passes to the build function is a member array: when
  that asks \<open>realloc\<close> for more (the message is longer than 4096 bytes) the behaviour is undefined.
\<close>

type_synonym msg_builder = "realloc_env \<Rightarrow> msg_buffer \<Rightarrow> BSONObj \<Rightarrow> (int \<times> msg_buffer) res"

definition sendOrder_doc :: "(u8 list \<Rightarrow> BSONObj res) \<Rightarrow> msg_builder \<Rightarrow> u8 list \<Rightarrow> order_io \<Rightarrow> (int \<times> u8 list) res" where
  "sendOrder_doc fromjson onMsgBuild json io = (case fromjson json of
     Raise n \<Rightarrow> Ret (EDB_INVALID_RECORD, [])
   | Ret bsonData \<Rightarrow> bnd (onMsgBuild (oi_realloc io) \<lparr>mb_bytes = replicate SEND_BUF_SIZE 0, mb_size = int SEND_BUF_SIZE\<rparr> bsonData) (\<lambda>(ret, mb).
       if mb_size mb \<noteq> int SEND_BUF_SIZE then Stuck else
       if ret \<noteq> 0 then Ret (EDB_MSG_BUILD_FAILED, []) else
       bnd (ldi32 (mb_bytes mb) 0) (\<lambda>len. bnd (sock_send (mb_bytes mb, 0) len (fst (oi_send io)) (snd (oi_send io))) (\<lambda>(ret, out).
       if ret \<noteq> 0 then Ret (EDB_SOCK_SEND_FAILED, out) else Ret (ret, out))))
   | Stuck \<Rightarrow> Stuck | Wait \<Rightarrow> Wait)"

definition sendOrder_op :: "int \<Rightarrow> order_io \<Rightarrow> (int \<times> u8 list) res" where
  "sendOrder_op opCode io = bnd (put_words [sizeof_MsgHeader, opCode] 0 (replicate SEND_BUF_SIZE 0)) (\<lambda>b.
     bnd (ldi32 b 0) (\<lambda>len. sock_send (b, 0) len (fst (oi_send io)) (snd (oi_send io))))"

text \<open>The replies: the code in them; a QUERY prints the document, a SNAPSHOT four of its fields.\<close>

definition handle_code :: "buf \<Rightarrow> int res" where
  "handle_code b = bnd (ldi32 b 8) (\<lambda>code. Ret (fst (getError code)))"

definition handle_query :: "(BSONObj \<Rightarrow> unit run) \<Rightarrow> buf \<Rightarrow> int run" where
  "handle_query toString b = obnd (Some (handle_code b)) (\<lambda>ret. if ret \<noteq> 0 then Some (Ret ret) else
     obnd (Some (ldi32 b 12)) (\<lambda>num. if num = 0 then Some (Ret ret) else
     obnd (Some (obj_init (b, 16))) (\<lambda>d. obnd (toString d) (\<lambda>_. Some (Ret ret)))))"

definition handle_snapshot :: "buf \<Rightarrow> (int \<times> int list) run" where
  "handle_snapshot b = obnd (Some (handle_code b)) (\<lambda>ret. if ret \<noteq> 0 then Some (Ret (ret, [])) else
     obnd (Some (obj_init (b, 16))) (\<lambda>d.
     obnd (getIntField d (map of_char ''insertTimes'')) (\<lambda>a. obnd (getIntField d (map of_char ''delTimes'')) (\<lambda>b.
     obnd (getIntField d (map of_char ''queryTimes'')) (\<lambda>c. obnd (getIntField d (map of_char ''serverRunTimes'')) (\<lambda>e.
     Some (Ret (ret, [a, b, c, e]))))))))"

text \<open>One order with a document: INSERT, QUERY and DELETE differ in the codes and the reply.\<close>

definition execute_order :: "int \<Rightarrow> (u8 list \<Rightarrow> BSONObj res) \<Rightarrow> msg_builder \<Rightarrow> (buf \<Rightarrow> int run) \<Rightarrow> ossSocket \<Rightarrow> order_io \<Rightarrow>
    u8 list list \<Rightarrow> int run" where
  "execute_order noArgument fromjson onMsgBuild handleReply s io argVec = (case argVec of [] \<Rightarrow> Some (Ret noArgument)
     | json # _ \<Rightarrow> if \<not> sock_isConnected (oi_probe io) then Some (Ret EDB_SOCK_NOT_CONNECT) else
       obnd (Some (sendOrder_doc fromjson onMsgBuild json io)) (\<lambda>(rc, _). if rc \<noteq> 0 then Some (Ret rc) else
       obnd (Some (recvReply s io)) (\<lambda>(rc, b). if rc \<noteq> 0 then Some (Ret rc) else handleReply b)))"

definition InsertCommand_execute :: "(u8 list \<Rightarrow> BSONObj res) \<Rightarrow> ossSocket \<Rightarrow> order_io \<Rightarrow> u8 list list \<Rightarrow> int run" where
  "InsertCommand_execute fromjson = execute_order EDB_INSERT_INVALID_ARGUMENT fromjson msgBuildInsert (\<lambda>b. Some (handle_code b))"

definition QueryCommand_execute :: "(BSONObj \<Rightarrow> unit run) \<Rightarrow> (u8 list \<Rightarrow> BSONObj res) \<Rightarrow> ossSocket \<Rightarrow> order_io \<Rightarrow> u8 list list \<Rightarrow> int run" where
  "QueryCommand_execute toString fromjson = execute_order EDB_QUERY_INVALID_ARGUMENT fromjson msgBuildQuery (handle_query toString)"

definition DeleteCommand_execute :: "(u8 list \<Rightarrow> BSONObj res) \<Rightarrow> ossSocket \<Rightarrow> order_io \<Rightarrow> u8 list list \<Rightarrow> int run" where
  "DeleteCommand_execute fromjson = execute_order EDB_DELETE_INVALID_ARGUMENT fromjson msgBuildDelete (\<lambda>b. Some (handle_code b))"

definition SnapshotCommand_execute :: "ossSocket \<Rightarrow> order_io \<Rightarrow> (int \<times> int list) run" where
  "SnapshotCommand_execute s io = (if \<not> sock_isConnected (oi_probe io) then Some (Ret (EDB_SOCK_NOT_CONNECT, [])) else
     obnd (Some (sendOrder_op OP_SNAPSHOT io)) (\<lambda>(rc, _). if rc \<noteq> 0 then Some (Ret (rc, [])) else
     obnd (Some (recvReply s io)) (\<lambda>(rc, b). if rc \<noteq> 0 then Some (Ret (rc, [])) else handle_snapshot b)))"

text \<open>The code, the socket and \<open>gQuit\<close>.\<close>

definition QuitCommand_execute :: "ossSocket \<Rightarrow> order_io \<Rightarrow> (int \<times> ossSocket \<times> bool) res" where
  "QuitCommand_execute s io = (if \<not> sock_isConnected (oi_probe io) then Ret (EDB_SOCK_NOT_CONNECT, s, False) else
     bnd (sendOrder_op OP_DISCONNECT io) (\<lambda>_. Ret (EDB_OK, sock_close s, True)))"

text \<open>
  CONNECT looks at two arguments without counting them.  The code of \<open>initSocket\<close> is dropped.
\<close>

definition ConnectCommand_execute :: "(string \<Rightarrow> nat option) \<Rightarrow> (string \<Rightarrow> nat) \<Rightarrow> (sock_option \<Rightarrow> int) \<Rightarrow> int \<Rightarrow> int \<Rightarrow>
    sockaddr_in option \<Rightarrow> sockaddr_in option \<Rightarrow> ossSocket \<Rightarrow> string list \<Rightarrow> (int \<times> ossSocket) res" where
  "ConnectCommand_execute gethostbyname inet_addr opt fd conn sockname peername s argVec = (case argVec of
     address # port # _ \<Rightarrow> (let
       s = snd (sock_initSocket opt fd (sock_close s));
       s = sock_setAddress gethostbyname inet_addr address (to_u32 (c_atoi port)) s;
       (ret, s) = sock_connect conn sockname peername s in
       if ret \<noteq> 0 then Ret (EDB_SOCK_CONNECT_FAILED, s) else Ret (ret, snd (sock_disableNagle opt s)))
   | _ \<Rightarrow> Stuck)"

section \<open>The commands by name\<close>

datatype command = ConnectCommand | QuitCommand | HelpCommand | InsertCommand | DeleteCommand | QueryCommand | SnapshotCommand

definition command_map :: "(string \<times> command) list" where
  "command_map = [(''connect'', ConnectCommand), (''quit'', QuitCommand), (''help'', HelpCommand), (''insert'', InsertCommand),
     (''delete'', DeleteCommand), (''query'', QueryCommand), (''snapshot'', SnapshotCommand)]"

definition getCommandProcesser :: "u8 list \<Rightarrow> command option" where
  "getCommandProcesser pCmd = map_of (map (\<lambda>(name, c). (map of_char name, c)) command_map) pCmd"

text \<open>\<open>prompt\<close>: the command to run, if any, and its arguments.\<close>

definition prompt :: "u8 \<Rightarrow> u8 list \<Rightarrow> (command option \<times> u8 list list \<times> u8 list) res" where
  "prompt before input = bnd (readInput before input) (\<lambda>(text, input).
     let words = split text SPACE in
     Ret (getCommandProcesser (case words of [] \<Rightarrow> [] | w # _ \<Rightarrow> w), drop 1 words, input))"

end
