(* ===== verification/ClientSpec.thy ===== *)
theory ClientSpec
  imports Client
begin

text \<open>
  What the client does with a line and with a reply: the line it reads is the typed one without its
  backslashes, the message it sends is the one built, the code it returns is the one of the reply,
  and what happens to it when the first \<open>recv\<close> fails.
\<close>

section \<open>Reading a line\<close>

lemma read_chars_line:
  assumes "NEW_LINE \<notin> set l" "p + length (filter (\<lambda>c. c \<noteq> BACK_SLANT) l) \<le> length b"
  shows "read_chars p (l @ NEW_LINE # rest) b =
    Ret (take p b @ filter (\<lambda>c. c \<noteq> BACK_SLANT) l @ drop (p + length (filter (\<lambda>c. c \<noteq> BACK_SLANT) l)) b, rest)"
  using assms
proof (induction l arbitrary: p b)
  case (Cons c l)
  have c: "c \<noteq> NEW_LINE"
    using Cons.prems(1) by auto
  show ?case
  proof (cases "c = BACK_SLANT")
    case True
    with c Cons show ?thesis
      by simp
  next
    case False
    then have p: "p < length b"
      using Cons.prems(2) by simp
    have "read_chars (p + 1) (l @ NEW_LINE # rest) (b[p := c]) =
        Ret (take (p + 1) (b[p := c]) @ filter (\<lambda>c. c \<noteq> BACK_SLANT) l @
          drop (p + 1 + length (filter (\<lambda>c. c \<noteq> BACK_SLANT) l)) (b[p := c]), rest)"
      using Cons.prems False by (intro Cons.IH) simp_all
    moreover have "take (p + 1) (b[p := c]) = take p b @ [c]"
      using p by (simp add: take_Suc_conv_app_nth)
    ultimately show ?thesis
      using p c False by simp
  qed
qed simp

text \<open>More characters than the buffer has are stored behind it.\<close>

lemma read_chars_overflow:
  assumes "NEW_LINE \<notin> set l" "length b < p + length (filter (\<lambda>c. c \<noteq> BACK_SLANT) l)" "p \<le> length b"
  shows "read_chars p (l @ rest) b = Stuck"
  using assms
proof (induction l arbitrary: p b)
  case (Cons c l)
  then show ?case
    by (cases "c = BACK_SLANT"; cases "p = length b") auto
qed simp

lemma c_strlen_text:
  assumes "0 \<notin> set s"
  shows "c_strlen (s @ 0 # rest) 0 = Ret (int (length s))"
proof -
  have "c_len (s @ 0 # rest) = Ret (length s)"
    using assms by (induction s) auto
  then show ?thesis
    by (simp add: c_strlen_def tail_at_def)
qed

text \<open>
  The text of a line is never a continued one: the backslashes are left out while it is read.
\<close>

lemma readInput_line:
  assumes l: "NEW_LINE \<notin> set l" "0 \<notin> set l" and s: "s = filter (\<lambda>c. c \<noteq> BACK_SLANT) l" "length s < 512"
    and before: "s \<noteq> [] \<or> before \<noteq> BACK_SLANT"
  shows "readInput before (l @ NEW_LINE # rest) = Ret (map (\<lambda>c. if c = TAB then SPACE else c) s, rest)"
proof -
  let ?b = "s @ 0 # replicate (511 - length s) 0"
  have z: "0 \<notin> set s"
    using l(2) s(1) by auto
  have "drop (length s) (replicate 512 0) = (0 :: u8) # replicate (511 - length s) 0"
    using s(2) by (simp add: replicate_Suc [symmetric] Suc_diff_Suc del: replicate_Suc)
  then have "read_chars 0 (l @ NEW_LINE # rest) (replicate 512 0) = Ret (?b, rest)"
    using read_chars_line [OF l(1), of 0 "replicate 512 0" rest] s by simp
  moreover have "stn ?b (int (length s)) [0] = Ret ?b"
    by (simp add: stn_def)
  ultimately have r: "readLine 0 (l @ NEW_LINE # rest) (replicate CMD_BUFFER_SIZE 0) = Ret (?b, rest)"
    by (simp add: readLine_def c_strlen_text [OF z] CMD_BUFFER_SIZE_def)
  have "(if length s = 0 then before else ?b ! (length s - 1)) \<noteq> BACK_SLANT"
  proof (cases "s = []")
    case False
    then have "?b ! (length s - 1) \<in> set s"
      by (simp add: nth_append)
    then show ?thesis
      using False s(1) by auto
  qed (use before in auto)
  then have "more_lines (Suc k) before (length s) rest ?b = Ret (?b, rest)" for k
    by simp
  then show ?thesis
    using r c_strlen_text [OF z] by (simp add: readInput_def del: more_lines.simps)
qed

section \<open>Splitting\<close>

text \<open>The pieces have no delimiter in them; put together with one behind each they are the text.\<close>

lemma split_pieces: "w \<in> set (split s d) \<Longrightarrow> d \<notin> set w"
proof (induction s d rule: split.induct)
  case (1 s d)
  then show ?case
    by (subst (asm) (2) split.simps) (auto split: if_splits dest: set_takeWhileD)
qed

lemma split_concat:
  "concat (map (\<lambda>w. w @ [d]) (split s d)) = (if s = [] \<or> last s = d then s else s @ [d])"
proof (induction s d rule: split.induct)
  case (1 s d)
  let ?t = "takeWhile (\<lambda>c. c \<noteq> d) s" and ?r = "dropWhile (\<lambda>c. c \<noteq> d) s"
  show ?case
  proof (cases "s = []")
    case False
    note IH = 1 [OF False]
    have e: "split s d = ?t # split (drop 1 ?r) d"
      using False by (subst split.simps) (rule if_not_P)
    show ?thesis
    proof (cases ?r)
      case Nil
      then have "?t = s" "d \<notin> set s"
        by (auto simp: dropWhile_eq_Nil_conv takeWhile_eq_all_conv)
      moreover from this have "split s d = [s]"
        by (simp only: e Nil) (simp add: split.simps [of "[]"])
      ultimately show ?thesis
        using False last_in_set [OF False] by auto
    next
      case (Cons x xs)
      then have x: "x = d" "s = ?t @ d # xs"
        using dropWhile_eq_Cons_conv [of "\<lambda>c. c \<noteq> d" s x xs] takeWhile_dropWhile_id [of "\<lambda>c. c \<noteq> d" s] by auto
      then have "last s = (if xs = [] then d else last xs)"
        by (metis last_ConsL last_ConsR last_appendR list.discI)
      moreover have "concat (map (\<lambda>w. w @ [d]) (split s d)) = ?t @ d # concat (map (\<lambda>w. w @ [d]) (split xs d))"
        using False Cons by (subst split.simps) simp
      ultimately show ?thesis
        using IH x Cons False by auto
    qed
  qed (simp add: split.simps)
qed

section \<open>Replies\<close>

lemma recv_retry_end: "recv_end (nat n) (recv_retry s n script)"
proof (induction s n script rule: recv_retry.induct)
  case (2 s n sel calls later)
  from sock_recv_end [of n s sel calls] show ?case
    by (cases rule: recv_end_cases) (use 2 in \<open>auto simp: edb_codes\<close>)
qed simp

lemma ldn_append: "p + n \<le> int (length m) \<Longrightarrow> ldn (m @ x) p n = ldn m p n"
  by (auto simp: ldn_def sub_def)

lemma ldi32_append: "p + 4 \<le> int (length m) \<Longrightarrow> ldi32 (m @ x) p = ldi32 m p"
  by (simp add: ldi32_def ld32_def ldn_append)

text \<open>A whole reply that fits the buffer, however it was cut.\<close>

lemma recvReply_message:
  assumes "sock_isConnected (oi_probe2 io)" "length m = nat len" "4 \<le> len" "len \<le> 4096" "ldi32 m 0 = Ret len"
    and "recv_retry s 4 (oi_head io) = Ret (EDB_OK, take 4 m)" "recv_retry s (len - 4) (oi_body io) = Ret (EDB_OK, drop 4 m)"
  shows "recvReply s io = Ret (EDB_OK, m @ replicate (4096 - nat len) 0)"
proof -
  let ?z = "replicate 4096 (0 :: u8)"
  obtain b1 where b1: "stn ?z 0 (take 4 m) = Ret b1" "b1 = take 4 m @ drop 4 ?z"
    using assms(2,3) by (simp add: stn_def)
  have m: "take 4 m @ drop 4 m = m" "length (take 4 m) = 4"
    using assms(2,3) by simp_all
  have l: "ldi32 b1 0 = Ret len"
    using ldi32_append [of 0 "take 4 m" "drop 4 ?z"] ldi32_append [of 0 "take 4 m" "drop 4 m"] assms(5) m unfolding b1(2) by simp
  have "stn b1 4 (drop 4 m) = Ret (take 4 m @ drop 4 m @ drop (length (drop 4 m)) (drop 4 ?z))"
    unfolding b1(2) using assms(2-4) m(2) by (intro stn_append) simp_all
  moreover have "drop (length (drop 4 m)) (drop 4 ?z) = replicate (4096 - nat len) 0"
    using assms(2,3) by simp
  ultimately have b2: "stn b1 4 (drop 4 m) = Ret (m @ replicate (4096 - nat len) 0)"
    using m(1) append_assoc [of "take 4 m" "drop 4 m"] by metis
  have "i32 (len - 4) = len - 4"
    using assms(3,4) by (simp add: i32_id)
  with assms(1,4,6,7) b1(1) l b2 show ?thesis
    by (simp add: recvReply_def RECV_BUF_SIZE_def Let_def edb_codes)
qed

lemma extract_reply_words:
  assumes "msgExtraReply b = Ret (Inr (rc, num, d))"
  shows "ldi32 b 8 = Ret rc" "ldi32 b 12 = Ret num"
proof -
  obtain c where "check_msg b sizeof_MsgReply OP_REPLY = Ret c" "(case c of Inl rc \<Rightarrow> Ret (Inl rc) | Inr _ \<Rightarrow> bnd (ldi32 b 8) (\<lambda>returnCode. bnd (ldi32 b 12) (\<lambda>numReturn.
       Ret (Inr (returnCode, numReturn, if numReturn = 0 then None else Some (b, sizeof_MsgReply)))))) = Ret (Inr (rc, num, d))"
    using assms by (auto simp: msgExtraReply_def bnd_eq_Ret)
  then show "ldi32 b 8 = Ret rc" "ldi32 b 12 = Ret num"
    by (cases c; auto simp: bnd_eq_Ret)+
qed

lemma handle_code_reply:
  assumes "msgExtraReply (mb_bytes rb) = Ret (Inr (rc, num, d))" "16 \<le> len" "nat len \<le> length (mb_bytes rb)"
  shows "handle_code (take (nat len) (mb_bytes rb) @ rest) = Ret rc"
proof -
  have "ldi32 (mb_bytes rb) 8 = Ret rc"
    by (rule extract_reply_words(1) [OF assms(1)])
  moreover have "ldi32 (take (nat len) (mb_bytes rb) @ drop (nat len) (mb_bytes rb)) 8 = ldi32 (take (nat len) (mb_bytes rb)) 8"
    by (rule ldi32_append) (use assms(2,3) in simp)
  moreover have "ldi32 (take (nat len) (mb_bytes rb) @ rest) 8 = ldi32 (take (nat len) (mb_bytes rb)) 8"
    by (rule ldi32_append) (use assms(2,3) in simp)
  ultimately have "ldi32 (take (nat len) (mb_bytes rb) @ rest) 8 = Ret rc"
    by simp
  then show ?thesis
    by (simp add: handle_code_def getError_def)
qed

section \<open>An INSERT\<close>

lemma sock_send_ok:
  assumes "select_loop sel = Ret EDB_OK" "\<forall>c \<in> set calls. \<exists>n. c = Moved (Suc n)" "length out \<le> length calls"
    and "ldn b i len = Ret out" "0 < len"
  shows "sock_send (b, i) len sel calls = Ret (EDB_OK, out)"
  using assms send_loop_ends [OF assms(2,3)] by (simp add: sock_send_def)

lemma sendOrder_insert:
  assumes "fromjson json = Ret doc" "obj_in doc fs" "12 + length (enc_obj fs) \<le> 4096"
    and "select_loop (fst (oi_send io)) = Ret EDB_OK" "\<forall>c \<in> set (snd (oi_send io)). \<exists>n. c = Moved (Suc n)" "4096 \<le> length (snd (oi_send io))"
  shows "\<exists>m. msgBuildInsert (oi_realloc io) \<lparr>mb_bytes = replicate SEND_BUF_SIZE 0, mb_size = int SEND_BUF_SIZE\<rparr> doc = Ret (EDB_OK, m) \<and>
    ldi32 (mb_bytes m) 0 = Ret (12 + int (length (enc_obj fs))) \<and>
    sendOrder_doc fromjson msgBuildInsert json io = Ret (EDB_OK, take (12 + length (enc_obj fs)) (mb_bytes m))"
proof -
  let ?mb = "\<lparr>mb_bytes = replicate SEND_BUF_SIZE 0, mb_size = int SEND_BUF_SIZE\<rparr>" and ?n = "12 + int (length (enc_obj fs))"
  have ok: "mb_ok ?mb" "can_grow (oi_realloc io) ?n ?mb"
    using assms(3) by (simp_all add: mb_ok_def can_grow_def SEND_BUF_SIZE_def)
  obtain m where m: "msgBuildInsert (oi_realloc io) ?mb doc = Ret (EDB_OK, m)" "mb_ok m" "ldi32 (mb_bytes m) 0 = Ret ?n"
    using insert_roundtrip [OF ok(1) assms(2) ok(2)] by blast
  have c: "msgCheckBuffer (oi_realloc io) ?n ?mb = (EDB_OK, ?mb)"
    using assms(3) by (simp add: msgCheckBuffer_def SEND_BUF_SIZE_def)
  have sz: "mb_size m = int SEND_BUF_SIZE"
    using m(1) c assms(3) by (auto simp: msgBuildInsert_def Let_def obj_objsize_in [OF assms(2)] layout_simps total_size
        with_buffer_def edb_codes bnd_eq_Ret simp del: put_words.simps)
  then have "length (mb_bytes m) = 4096"
    using m(2) by (simp add: mb_ok_def SEND_BUF_SIZE_def)
  then have "ldn (mb_bytes m) 0 ?n = Ret (take (12 + length (enc_obj fs)) (mb_bytes m))"
    using assms(3) by (simp add: ldn_def sub_def nat_add_distrib)
  moreover have "length (take (12 + length (enc_obj fs)) (mb_bytes m)) \<le> length (snd (oi_send io))"
    using assms(3,6) by simp
  ultimately have "sock_send (mb_bytes m, 0) ?n (fst (oi_send io)) (snd (oi_send io)) =
      Ret (EDB_OK, take (12 + length (enc_obj fs)) (mb_bytes m))"
    by (intro sock_send_ok [OF assms(4,5)]) simp_all
  with m sz assms(1) show ?thesis
    by (simp add: sendOrder_doc_def edb_codes)
qed

text \<open>What the client does when the network fails before the length of the reply.\<close>

lemma recvReply_masked:
  assumes "sock_isConnected (oi_probe2 io)" "recv_retry s 4 (oi_head io) = Ret (rc, [])" "rc \<noteq> EDB_NETWORK_CLOSE"
    and "recv_retry s (- 4) (oi_body io) = Ret (EDB_OK, [])"
  shows "recvReply s io = Ret (EDB_OK, replicate 4096 0)" "handle_code (replicate 4096 0) = Ret EDB_OK"
proof -
  let ?z = "replicate 4096 (0 :: u8)"
  have s: "stn ?z 0 [] = Ret ?z" "stn ?z 4 [] = Ret ?z"
    by (simp_all add: stn_def replicate_add [symmetric])
  have v: "le_value (replicate 4 0) = 0"
    by (simp add: numeral_eq_Suc)
  have l: "ldi32 ?z p = Ret 0" if "0 \<le> p" "p \<le> 4092" for p
    using that v by (simp add: ldi32_def ld32_def ldn_def sub_def s32_def min_absorb1)
  have "i32 (0 - 4) = - 4"
    by (simp add: i32_id)
  with assms s l [of 0] show "recvReply s io = Ret (EDB_OK, ?z)"
    by (simp add: recvReply_def RECV_BUF_SIZE_def Let_def edb_codes)
  show "handle_code ?z = Ret EDB_OK"
    using l [of 8] by (simp add: handle_code_def getError_def edb_codes)
qed

text \<open>A length of at most \<open>INT_MIN + 3\<close> passes the test and becomes a large positive one.\<close>

lemma recvReply_overrun:
  assumes "sock_isConnected (oi_probe2 io)" "recv_retry s 4 (oi_head io) = Ret (EDB_OK, le32 2147483648)"
    and "recv_retry s 2147483644 (oi_body io) = Ret (rc, bs)" "4092 < length bs"
  shows "recvReply s io = Stuck"
proof -
  let ?b = "le32 2147483648 @ replicate 4092 (0 :: u8)"
  have s: "stn (replicate 4096 0) 0 (le32 2147483648) = Ret ?b" "stn ?b 4 bs = Stuck"
    using assms(4) by (simp_all add: stn_def)
  have l: "ldi32 ?b 0 = Ret (- 2147483648)"
    using ldi32_append [of 0 "le32 2147483648" "replicate 4092 0"] by (simp add: ldi32_def ld32_def ldn_def sub_def s32_def)
  have "i32 (- 2147483648 - 4) = 2147483644"
    by (simp add: i32_def s32_def to_u32_def)
  with assms(1-3) s l show ?thesis
    by (simp add: recvReply_def RECV_BUF_SIZE_def Let_def edb_codes)
qed

end
