(* ===== verification/Codec.thy ===== *)
theory Codec
  imports CMem
begin

unbundle bit_operations_syntax

text \<open>
  Texts for bytes: the hexadecimal digits of \<open>bson/src/util/hex.h\<close> and the base-64 alphabet of
  \<open>bson/lib/base64.h\<close> and \<open>base64.cpp\<close>, with the round trips.  The \<open>assert\<close> of \<open>hex.h\<close> is the one of
  \<open>bsonassert.h\<close> and throws; the one of \<open>base64.cpp\<close> is the C library's and ends the process (\<open>Stuck\<close>).
\<close>

section \<open>Hexadecimal digits\<close>

definition fromHex1 :: "u8 \<Rightarrow> u8 res" where
  "fromHex1 c = (if 0x30 \<le> c \<and> c \<le> 0x39 then Ret (c - 0x30)
     else if 0x61 \<le> c \<and> c \<le> 0x66 then Ret (c - 0x61 + 10)
     else if 0x41 \<le> c \<and> c \<le> 0x46 then Ret (c - 0x41 + 10)
     else Raise 0)"

definition fromHex :: "u8 \<Rightarrow> u8 \<Rightarrow> u8 res" where
  "fromHex c0 c1 = bnd (fromHex1 c0) (\<lambda>hi. bnd (fromHex1 c1) (\<lambda>lo. Ret (push_bit 4 hi OR lo)))"

definition hexchars_upper :: "u8 list" where
  "hexchars_upper = [0x30, 0x31, 0x32, 0x33, 0x34, 0x35, 0x36, 0x37, 0x38, 0x39, 0x41, 0x42, 0x43, 0x44, 0x45, 0x46]"

definition hexchars_lower :: "u8 list" where
  "hexchars_lower = [0x30, 0x31, 0x32, 0x33, 0x34, 0x35, 0x36, 0x37, 0x38, 0x39, 0x61, 0x62, 0x63, 0x64, 0x65, 0x66]"

text \<open>One turn of either loop: the digits of a byte.\<close>

definition hex_byte :: "u8 list \<Rightarrow> u8 \<Rightarrow> u8 list" where
  "hex_byte hexchars c = [hexchars ! unat (drop_bit 4 (c AND 0xF0)), hexchars ! unat (c AND 0x0F)]"

definition toHex :: "u8 list \<Rightarrow> u8 list" where
  "toHex bs = concat (map (hex_byte hexchars_upper) bs)"

definition toHexLower :: "u8 list \<Rightarrow> u8 list" where
  "toHexLower bs = concat (map (hex_byte hexchars_lower) bs)"

text \<open>The loop that reads pairs of digits (\<open>OID::init\<close> and \<open>stringToOid\<close>).\<close>

fun fromHexs :: "u8 list \<Rightarrow> u8 list res" where
  "fromHexs (c0 # c1 # cs) = bnd (fromHex c0 c1) (\<lambda>b. bnd (fromHexs cs) (\<lambda>bs. Ret (b # bs)))"
| "fromHexs _ = Ret []"

text \<open>A statement on every byte holds when it holds for the 256 of them.\<close>

lemma all_u8: "(\<forall>c :: u8. P c) \<longleftrightarrow> (\<forall>n \<in> set [0..<256]. P (of_nat n))"
proof
  assume a: "\<forall>n \<in> set [0..<256]. P (of_nat n)"
  show "\<forall>c. P c"
  proof
    fix c :: u8
    have "P (of_nat (unat c))"
      using a unat_u8_less [of c] by (metis atLeastLessThan_iff atLeastLessThan_upt zero_le)
    then show "P c"
      by simp
  qed
qed simp

lemma fromHex_hex_byte [simp]:
  "fromHex (hex_byte hexchars_upper c ! 0) (hex_byte hexchars_upper c ! 1) = Ret c"
  "fromHex (hex_byte hexchars_lower c ! 0) (hex_byte hexchars_lower c ! 1) = Ret c"
proof -
  have "\<forall>c. fromHex (hex_byte hexchars_upper c ! 0) (hex_byte hexchars_upper c ! 1) = Ret c"
    unfolding all_u8 by code_simp
  moreover have "\<forall>c. fromHex (hex_byte hexchars_lower c ! 0) (hex_byte hexchars_lower c ! 1) = Ret c"
    unfolding all_u8 by code_simp
  ultimately show "fromHex (hex_byte hexchars_upper c ! 0) (hex_byte hexchars_upper c ! 1) = Ret c"
    "fromHex (hex_byte hexchars_lower c ! 0) (hex_byte hexchars_lower c ! 1) = Ret c"
    by blast+
qed

lemma hex_byte_pair: "hex_byte ds c = [hex_byte ds c ! 0, hex_byte ds c ! 1]"
  by (simp add: hex_byte_def)

lemma fromHexs_pair: "fromHexs (hex_byte ds c @ cs) =
    bnd (fromHex (hex_byte ds c ! 0) (hex_byte ds c ! 1)) (\<lambda>b. bnd (fromHexs cs) (\<lambda>bs. Ret (b # bs)))"
  by (subst hex_byte_pair) simp

lemma fromHexs_toHex [simp]: "fromHexs (toHex bs) = Ret bs" "fromHexs (toHexLower bs) = Ret bs"
  by (induction bs) (simp_all add: toHex_def toHexLower_def fromHexs_pair fromHex_hex_byte [unfolded One_nat_def])

lemma length_toHex [simp]: "length (toHex bs) = 2 * length bs" "length (toHexLower bs) = 2 * length bs"
  by (induction bs) (simp_all add: toHex_def toHexLower_def hex_byte_def)

section \<open>Base 64\<close>

definition b64_encode_chars :: "u8 list" where
  "b64_encode_chars = map of_nat ([65..<91] @ [97..<123] @ [48..<58] @ [43, 47])"

definition b64_decode_table :: "u8 list" where
  "b64_decode_table = fold (\<lambda>i d. d[unat (b64_encode_chars ! i) := of_nat i]) [0..<64] (replicate 257 0)"

text \<open>\<open>Alphabet::e\<close> and the look-up \<open>alphabet.decode[c]\<close>.\<close>

definition b64_e :: "u8 \<Rightarrow> u8" where
  "b64_e x = b64_encode_chars ! unat (x AND 0x3F)"

definition b64_d :: "u8 \<Rightarrow> u8" where
  "b64_d c = b64_decode_table ! unat c"

text \<open>\<open>Alphabet::test\<close>, run by the constructor.\<close>

definition c_toupper :: "u8 \<Rightarrow> u8" where
  "c_toupper c = (if 0x61 \<le> c \<and> c \<le> 0x7A then c - 0x20 else c)"

definition b64_test :: bool where
  "b64_test \<longleftrightarrow> length b64_encode_chars = 64 \<and>
     (\<forall>i \<in> set [0..<26]. b64_encode_chars ! i = c_toupper (b64_encode_chars ! (i + 26)))"

text \<open>The loop over groups of three bytes, then the padding by \<open>size % 3\<close>.\<close>

fun b64_encode_loop :: "u8 list \<Rightarrow> u8 list" where
  "b64_encode_loop [] = []"
| "b64_encode_loop [a] = [b64_e (drop_bit 2 a), b64_e (push_bit 4 a)]"
| "b64_encode_loop [a, b] = [b64_e (drop_bit 2 a), b64_e (push_bit 4 a OR (drop_bit 4 b AND 0xF)),
     b64_e (push_bit 2 (b AND 0xF))]"
| "b64_encode_loop (a # b # c # bs) = b64_e (drop_bit 2 a) # b64_e (push_bit 4 a OR (drop_bit 4 b AND 0xF)) #
     b64_e (push_bit 2 (b AND 0xF) OR (drop_bit 6 c AND 0x3)) # b64_e (c AND 0x3F) # b64_encode_loop bs"

definition b64_encode :: "u8 list \<Rightarrow> u8 list" where
  "b64_encode bs = b64_encode_loop bs @ (let m = length bs mod 3 in
     if m = 1 then [0x3D, 0x3D] else if m = 2 then [0x3D] else [])"

definition b64_group :: "u8 \<Rightarrow> u8 \<Rightarrow> u8 \<Rightarrow> u8 \<Rightarrow> u8 list" where
  "b64_group s0 s1 s2 s3 =
     (let buf0 = (push_bit 2 (b64_d s0) AND 0xFC) OR (drop_bit 4 (b64_d s1) AND 0x3);
          buf1 = (push_bit 4 (b64_d s1) AND 0xF0) OR (drop_bit 2 (b64_d s2) AND 0xF);
          buf2 = (push_bit 6 (b64_d s2) AND 0xC0) OR (b64_d s3 AND 0x3F);
          len = (if s3 = 0x3D then (if s2 = 0x3D then 1 else 2) else 3)
      in take len [buf0, buf1, buf2])"

fun b64_decode_loop :: "u8 list \<Rightarrow> u8 list" where
  "b64_decode_loop (s0 # s1 # s2 # s3 # cs) = b64_group s0 s1 s2 s3 @ b64_decode_loop cs"
| "b64_decode_loop _ = []"

definition b64_decode :: "u8 list \<Rightarrow> u8 list res" where
  "b64_decode s = (if length s mod 4 \<noteq> 0 then Stuck else Ret (b64_decode_loop s))"

text \<open>The table inverts the alphabet, and no letter of it is the padding character.\<close>

lemma b64_test_holds: "b64_test"
  by code_simp

lemma b64_fold:
  assumes "\<And>i j. i < n \<Longrightarrow> j < n \<Longrightarrow> f i = f j \<Longrightarrow> i = j" "\<And>i. i < n \<Longrightarrow> f i < length d" "i < n"
  shows "fold (\<lambda>i d. d[f i := g i]) [0..<n] d ! f i = g i \<and> length (fold (\<lambda>i d. d[f i := g i]) [0..<n] d) = length d"
  using assms
proof (induction n arbitrary: i)
  case (Suc n)
  show ?case
  proof (cases "n = 0")
    case False
    have l: "length (fold (\<lambda>i d. d[f i := g i]) [0..<n] d) = length d"
      using Suc.IH [of 0] Suc.prems False by simp
    show ?thesis
    proof (cases "i = n")
      case True
      then show ?thesis
        using l Suc.prems(2) [of n] by simp
    next
      case i: False
      then have "f n \<noteq> f i" "i < n"
        using Suc.prems(1) [of i n] Suc.prems(3) by auto
      then show ?thesis
        using Suc.IH [of i] Suc.prems by simp
    qed
  qed (use Suc.prems(2) [of 0] Suc.prems(3) in simp)
qed simp

lemma b64_letters: "distinct b64_encode_chars" "0x3D \<notin> set b64_encode_chars" "length b64_encode_chars = 64"
  by code_simp+

lemma sextet_less: "unat ((x :: u8) AND 0x3F) < 64"
proof -
  have "x AND 0x3F = take_bit 6 x"
    by (simp add: take_bit_eq_mask mask_eq_exp_minus_1)
  then have "unat (x AND 0x3F) = take_bit 6 (unat x)"
    by (simp add: unsigned_take_bit_eq)
  then show ?thesis
    by (simp add: take_bit_eq_mod)
qed

lemma b64_d_e [simp]: "b64_d (b64_e x) = x AND 0x3F"
proof -
  have "b64_decode_table ! unat (b64_encode_chars ! unat (x AND 0x3F)) = of_nat (unat (x AND 0x3F))"
    unfolding b64_decode_table_def
  proof (rule b64_fold [THEN conjunct1])
    show "i = j" if "i < 64" "j < 64" "unat (b64_encode_chars ! i) = unat (b64_encode_chars ! j)" for i j
      using that b64_letters nth_eq_iff_index_eq by (metis word_unat_eq_iff)
    show "unat (b64_encode_chars ! i) < length (replicate 257 (0 :: u8))" if "i < 64" for i
      using unat_u8_less [of "b64_encode_chars ! i"] by simp
  qed (rule sextet_less)
  then show ?thesis
    by (simp add: b64_d_def b64_e_def)
qed

lemma b64_e_pad [simp]: "b64_e x \<noteq> 0x3D"
  using b64_letters(2,3) sextet_less [of x] nth_mem [of "unat (x AND 0x3F)" b64_encode_chars]
  unfolding b64_e_def by metis

text \<open>The constants as masks, so that the equations of a group are equations of bits.\<close>

lemma masks: "(0x3F :: u8) = mask 6" "(0xF :: u8) = mask 4" "(0x3 :: u8) = mask 2"
  "(0xFC :: u8) = push_bit 2 (mask 6)" "(0xF0 :: u8) = push_bit 4 (mask 4)" "(0xC0 :: u8) = push_bit 6 (mask 2)"
  by (simp_all add: mask_eq_exp_minus_1)

lemma shift_back: "\<not> n < 2 \<Longrightarrow> Suc (Suc (n - 2)) = n" "\<not> n < 4 \<Longrightarrow> 4 + (n - 4) = n" "\<not> n < 6 \<Longrightarrow> 6 + (n - 6) = (n :: nat)"
  by simp_all

lemma sextet0: "(push_bit 2 (drop_bit 2 a AND 0x3F) AND 0xFC) OR
    (drop_bit 4 ((push_bit 4 a OR (drop_bit 4 b AND 0xF)) AND 0x3F) AND 0x3) = (a :: u8)"
  unfolding masks by (rule bit_word_eqI, rename_tac n, case_tac "n < 2"; case_tac "n < 4"; case_tac "n < 6")
    (auto simp: bit_simps shift_back)

lemma sextet1: "(push_bit 4 ((push_bit 4 a OR (drop_bit 4 b AND 0xF)) AND 0x3F) AND 0xF0) OR
    (drop_bit 2 ((push_bit 2 (b AND 0xF) OR (drop_bit 6 c AND 0x3)) AND 0x3F) AND 0xF) = (b :: u8)"
  unfolding masks by (rule bit_word_eqI, rename_tac n, case_tac "n < 2"; case_tac "n < 4"; case_tac "n < 6")
    (auto simp: bit_simps shift_back)

lemma sextet2: "(push_bit 6 ((push_bit 2 (b AND 0xF) OR (drop_bit 6 c AND 0x3)) AND 0x3F) AND 0xC0) OR
    (((c AND 0x3F) AND 0x3F) AND 0x3F) = (c :: u8)"
  unfolding masks by (rule bit_word_eqI, rename_tac n, case_tac "n < 2"; case_tac "n < 4"; case_tac "n < 6")
    (auto simp: bit_simps shift_back)


lemma sextet_last: "(push_bit 2 (drop_bit 2 a AND 0x3F) AND 0xFC) OR (drop_bit 4 (push_bit 4 a AND 0x3F) AND 0x3) = (a :: u8)"
  "(push_bit 4 ((push_bit 4 a OR (drop_bit 4 b AND 0xF)) AND 0x3F) AND 0xF0) OR
    (drop_bit 2 (push_bit 2 (b AND 0xF) AND 0x3F) AND 0xF) = (b :: u8)"
  using sextet0 [of a 0] sextet1 [of a b 0] by simp_all

text \<open>Decoding gives back what was encoded, whatever its length.\<close>

lemma b64_pad [simp]: "b64_d 0x3D = 0"
  by code_simp

lemma b64_encode_Cons3: "b64_encode (a # b # c # bs) = b64_e (drop_bit 2 a) # b64_e (push_bit 4 a OR (drop_bit 4 b AND 0xF)) #
     b64_e (push_bit 2 (b AND 0xF) OR (drop_bit 6 c AND 0x3)) # b64_e (c AND 0x3F) # b64_encode bs"
  by (simp add: b64_encode_def Let_def mod_Suc)

lemma b64_group_full [simp]:
  "b64_group (b64_e (drop_bit 2 a)) (b64_e (push_bit 4 a OR (drop_bit 4 b AND 0xF)))
     (b64_e (push_bit 2 (b AND 0xF) OR (drop_bit 6 c AND 0x3))) (b64_e (c AND 0x3F)) = [a, b, c]"
  unfolding b64_group_def Let_def b64_d_e sextet0 sextet1 sextet2 by simp

lemma b64_loops: "b64_decode_loop (b64_encode bs) = bs \<and> length (b64_encode bs) mod 4 = 0"
proof (induction bs rule: b64_encode_loop.induct)
  case (4 a b c bs)
  then show ?case
    by (simp only: b64_encode_Cons3 b64_decode_loop.simps b64_group_full) simp
qed (simp_all add: b64_encode_def b64_group_def Let_def sextet0 [simplified] sextet_last [simplified])

theorem b64_roundtrip: "b64_decode (b64_encode bs) = Ret bs"
  using b64_loops [of bs] by (simp add: b64_decode_def)

theorem b64_length: "length (b64_encode bs) = 4 * ((length bs + 2) div 3)"
proof (induction bs rule: b64_encode_loop.induct)
  case (4 a b c bs)
  have "(Suc (Suc (Suc (length bs))) + 2) div 3 = Suc ((length bs + 2) div 3)"
    by simp
  with 4 show ?case
    by (simp only: b64_encode_Cons3 list.size) simp
qed (simp_all add: b64_encode_def)

lemma b64_chars: "set (b64_encode bs) \<subseteq> set b64_encode_chars \<union> {0x3D}"
proof (induction bs rule: b64_encode_loop.induct)
  case (4 a b c bs)
  then show ?case
    using sextet_less b64_letters(3) by (auto simp: b64_encode_Cons3 b64_e_def)
qed (use sextet_less b64_letters(3) in \<open>auto simp: b64_encode_def b64_e_def\<close>)

end
