(* ===== verification/DmsPage.thy ===== *)
theory DmsPage
  imports OssCore
begin

text \<open>
  One page of a data file, \<open>include/dms.hpp\<close> and the page part of \<open>dms/dms.cpp\<close>: the header, the
  slot array that grows upwards behind it, the records that grow downwards from the end, and the
  code that inserts, drops, looks up and compacts.  A page is a region of a byte-addressed memory
  at a base address; the header fields are 32-bit words at the offsets of the struct.
\<close>

section \<open>Layout\<close>

definition DMS_EXTEND_SIZE :: nat where [layout_simps]: "DMS_EXTEND_SIZE = 65536"
definition DMS_PAGESIZE :: nat where [layout_simps]: "DMS_PAGESIZE = 4194304"
definition sizeof_dmsHeader :: nat where [layout_simps]: "sizeof_dmsHeader = 16"
definition sizeof_dmsPageHeader :: nat where [layout_simps]: "sizeof_dmsPageHeader = 28"
definition sizeof_dmsRecord :: nat where [layout_simps]: "sizeof_dmsRecord = 8"
definition sizeof_SLOT :: nat where [layout_simps]: "sizeof_SLOT = 4"
definition DMS_FILE_SEGMENT_SIZE :: nat where [layout_simps]: "DMS_FILE_SEGMENT_SIZE = 134217728"
definition DMS_FILE_HEADER_SIZE :: nat where [layout_simps]: "DMS_FILE_HEADER_SIZE = 65536"
definition DMS_PAGES_PER_SEGMENT :: nat where [layout_simps]: "DMS_PAGES_PER_SEGMENT = 32"
definition DMS_MAX_RECORD :: nat where [layout_simps]:
  "DMS_MAX_RECORD = 4194304 - sizeof_dmsHeader - sizeof_dmsRecord - sizeof_SLOT"

definition DMS_SLOT_EMPTY :: nat where [layout_simps]: "DMS_SLOT_EMPTY = 4294967295"
definition DMS_INVALID_PAGEID :: nat where [layout_simps]: "DMS_INVALID_PAGEID = 4294967295"
definition DMS_RECORD_FLAG_NORMAL :: nat where [layout_simps]: "DMS_RECORD_FLAG_NORMAL = 0"
definition DMS_RECORD_FLAG_DROPPED :: nat where [layout_simps]: "DMS_RECORD_FLAG_DROPPED = 1"

text \<open>\<open>PAGH\<close> and \<open>DMSH\<close>.\<close>

definition DMS_PAGE_EYECATCHER :: "u8 list" where "DMS_PAGE_EYECATCHER = [0x50, 0x41, 0x47, 0x48]"
definition DMS_HEADER_EYECATCHER :: "u8 list" where "DMS_HEADER_EYECATCHER = [0x44, 0x4D, 0x53, 0x48]"

text \<open>Fields of \<open>dmsPageHeader\<close> at page address \<open>p\<close>, of \<open>dmsRecord\<close> and the slots.\<close>

definition numSlots :: "mem \<Rightarrow> nat \<Rightarrow> nat" where "numSlots m p = rd32 m (p + 12)"
definition slotOffset :: "mem \<Rightarrow> nat \<Rightarrow> nat" where "slotOffset m p = rd32 m (p + 16)"
definition freeSpace :: "mem \<Rightarrow> nat \<Rightarrow> nat" where "freeSpace m p = rd32 m (p + 20)"
definition freeOffset :: "mem \<Rightarrow> nat \<Rightarrow> nat" where "freeOffset m p = rd32 m (p + 24)"

definition slot_addr :: "nat \<Rightarrow> nat \<Rightarrow> nat" where
  "slot_addr p i = p + sizeof_dmsPageHeader + i * sizeof_SLOT"

definition slot :: "mem \<Rightarrow> nat \<Rightarrow> nat \<Rightarrow> nat" where "slot m p i = rd32 m (slot_addr p i)"
definition rec_size :: "mem \<Rightarrow> nat \<Rightarrow> nat \<Rightarrow> nat" where "rec_size m p s = rd32 m (p + s)"
definition rec_flag :: "mem \<Rightarrow> nat \<Rightarrow> nat \<Rightarrow> nat" where "rec_flag m p s = rd32 m (p + s + 4)"

text \<open>The header \<open>_extendSegment\<close> copies to the start of a new page.\<close>

definition page_header :: "u8 list" where
  "page_header = DMS_PAGE_EYECATCHER @ le32 DMS_PAGESIZE @ le32 0 @ le32 0
     @ le32 sizeof_dmsPageHeader @ le32 (DMS_PAGESIZE - sizeof_dmsPageHeader) @ le32 DMS_PAGESIZE"

section \<open>Compaction (\<open>_recoverSpace\<close>)\<close>

text \<open>
  One turn of the loop, with \<open>pRight\<close> as an offset in the page; \<open>isRecover\<close> is set by the first
  empty slot, and only records behind it are moved.  \<open>_freeOffset\<close> is not written.
\<close>

definition recover_step :: "nat \<Rightarrow> nat \<Rightarrow> mem \<times> nat \<times> bool \<Rightarrow> mem \<times> nat \<times> bool" where
  "recover_step p i = (\<lambda>(m, right, isRecover).
     let s = slot m p i in
     if s \<noteq> DMS_SLOT_EMPTY then
       let size = rec_size m p s; right' = right - size in
       if isRecover then
         (wr32 (blit m (p + right') (rdb m (p + s) size)) (slot_addr p i) right', right', isRecover)
       else (m, right', isRecover)
     else (m, right, True))"

definition recoverSpace :: "mem \<Rightarrow> nat \<Rightarrow> mem" where
  "recoverSpace m p = fst (fold (recover_step p) [0..<numSlots m p] (m, DMS_PAGESIZE, False))"

section \<open>Insertion into a page\<close>

text \<open>The two tests of \<open>dmsFile::insert\<close>, with the widths of their C expressions.\<close>

definition needs_recover :: "mem \<Rightarrow> nat \<Rightarrow> nat \<Rightarrow> bool" where
  "needs_recover m p recordSize \<longleftrightarrow>
     freeSpace m p > u32_sub (freeOffset m p) (slotOffset m p) \<and>
     u32_add (slotOffset m p) recordSize + sizeof_dmsRecord + sizeof_SLOT > freeOffset m p"

definition no_room :: "mem \<Rightarrow> nat \<Rightarrow> nat \<Rightarrow> bool" where
  "no_room m p recordSize \<longleftrightarrow>
     freeSpace m p < recordSize + sizeof_dmsRecord + sizeof_SLOT \<or>
     u32_sub (freeOffset m p) (slotOffset m p) < recordSize + sizeof_dmsRecord + sizeof_SLOT"

text \<open>
  The writes in the order of the code: slot, record header and body; then (\<open>put_meta\<close>) the header
  fields, which an exception from the construction of \<open>outRecord\<close> would skip.
\<close>

definition record_offset :: "mem \<Rightarrow> nat \<Rightarrow> nat \<Rightarrow> nat" where
  "record_offset m p recordSize = u32_sub (u32_sub (freeOffset m p) recordSize) sizeof_dmsRecord"

definition put_data :: "mem \<Rightarrow> nat \<Rightarrow> nat \<Rightarrow> u8 list \<Rightarrow> mem" where
  "put_data m p off bs =
     blit (blit (wr32 m (slot_addr p (numSlots m p)) off) (p + off)
         (le32 (length bs + sizeof_dmsRecord) @ le32 DMS_RECORD_FLAG_NORMAL))
       (p + off + sizeof_dmsRecord) bs"

definition put_meta :: "mem \<Rightarrow> nat \<Rightarrow> nat \<Rightarrow> mem" where
  "put_meta m p off =
     (let m = wr32 m (p + 12) (u32_add (numSlots m p) 1);
          m = wr32 m (p + 16) (u32_add (slotOffset m p) sizeof_SLOT)
      in wr32 m (p + 24) off)"

definition put_record :: "mem \<Rightarrow> nat \<Rightarrow> u8 list \<Rightarrow> mem" where
  "put_record m p bs = (let off = record_offset m p (length bs) in put_meta (put_data m p off bs) p off)"

section \<open>Dropping a record (\<open>dmsFile::remove\<close>)\<close>

text \<open>The slot is emptied and the record's flag set; its bytes stay.\<close>

definition drop_record :: "mem \<Rightarrow> nat \<Rightarrow> nat \<Rightarrow> nat \<Rightarrow> mem" where
  "drop_record m p i s =
     wr32 (wr32 m (slot_addr p i) DMS_SLOT_EMPTY) (p + s + 4) DMS_RECORD_FLAG_DROPPED"

section \<open>Looking up a slot (\<open>_searchSlot\<close>)\<close>

text \<open>The code compares with \<open>>\<close>, so the slot behind the last one is read too.\<close>

definition searchSlot :: "mem \<Rightarrow> nat \<Rightarrow> nat \<Rightarrow> int \<times> nat" where
  "searchSlot m p slotID = (if slotID > numSlots m p then (EDB_SYS, 0) else (EDB_OK, slot m p slotID))"

section \<open>What a page holds\<close>

definition slots :: "mem \<Rightarrow> nat \<Rightarrow> nat list" where
  "slots m p = map (slot m p) [0..<numSlots m p]"

definition rec_bytes :: "mem \<Rightarrow> nat \<Rightarrow> nat \<Rightarrow> u8 list" where
  "rec_bytes m p s = rdb m (p + s + sizeof_dmsRecord) (rec_size m p s - sizeof_dmsRecord)"

definition slot_rec :: "mem \<Rightarrow> nat \<Rightarrow> nat \<Rightarrow> u8 list option" where
  "slot_rec m p s = (if s = DMS_SLOT_EMPTY then None else Some (rec_bytes m p s))"

text \<open>The records by slot number, \<open>None\<close> for a dropped one.\<close>

definition page_recs :: "mem \<Rightarrow> nat \<Rightarrow> u8 list option list" where
  "page_recs m p = map (slot_rec m p) (slots m p)"

text \<open>
  The records lie in the order of their slots from the end of the page downwards, between \<open>lo\<close> and
  the right bound \<open>r\<close>; without a dropped slot in front (\<open>gap\<close>) they lie back to back.
\<close>

fun packed :: "mem \<Rightarrow> nat \<Rightarrow> nat list \<Rightarrow> nat \<Rightarrow> bool \<Rightarrow> nat \<Rightarrow> bool" where
  "packed m p [] r gap lo = (lo \<le> r \<and> (\<not> gap \<longrightarrow> lo = r))"
| "packed m p (s # ss) r gap lo =
     (if s = DMS_SLOT_EMPTY then packed m p ss r True lo
      else sizeof_dmsRecord \<le> rec_size m p s \<and> lo \<le> s \<and> s + rec_size m p s \<le> r \<and>
        (\<not> gap \<longrightarrow> s + rec_size m p s = r) \<and> rec_flag m p s = DMS_RECORD_FLAG_NORMAL \<and>
        packed m p ss s gap lo)"

fun live_size :: "mem \<Rightarrow> nat \<Rightarrow> nat list \<Rightarrow> nat" where
  "live_size m p [] = 0"
| "live_size m p (s # ss) = (if s = DMS_SLOT_EMPTY then 0 else rec_size m p s) + live_size m p ss"

text \<open>
  The invariant of a page.  The last clause accounts for every byte: header and slots, live
  records, and what the free space counter says is left.
\<close>

definition page_inv :: "mem \<Rightarrow> nat \<Rightarrow> bool" where
  "page_inv m p \<longleftrightarrow> rdb m p 4 = DMS_PAGE_EYECATCHER \<and>
     slotOffset m p = sizeof_dmsPageHeader + sizeof_SLOT * numSlots m p \<and>
     slotOffset m p \<le> freeOffset m p \<and>
     packed m p (slots m p) DMS_PAGESIZE False (freeOffset m p) \<and>
     freeSpace m p + slotOffset m p + live_size m p (slots m p) = DMS_PAGESIZE"

end
