(* ===== verification/DmsPageInv.thy ===== *)
theory DmsPageInv
  imports DmsPage
begin

text \<open>
  The page operations keep the page invariant and do to the records of the page what they are
  for: an insertion appends a record, a removal drops one slot, compaction changes no record.
\<close>

section \<open>The packing predicate\<close>

lemma packed_le: "packed m p ss r gap lo \<Longrightarrow> lo \<le> r"
proof (induction ss arbitrary: r gap)
  case (Cons s ss)
  then show ?case
    by (auto split: if_splits dest: Cons.IH)
qed simp

lemma packed_gap: "packed m p ss r gap lo \<Longrightarrow> packed m p ss r True lo"
  by (induction ss arbitrary: r gap) (auto split: if_splits)

lemma packed_right: "packed m p ss r True lo \<Longrightarrow> r \<le> r' \<Longrightarrow> packed m p ss r' True lo"
  by (induction ss arbitrary: r r') (auto split: if_splits)

lemma packed_slot:
  "packed m p ss r gap lo \<Longrightarrow> s \<in> set ss \<Longrightarrow> s \<noteq> DMS_SLOT_EMPTY \<Longrightarrow>
     sizeof_dmsRecord \<le> rec_size m p s \<and> lo \<le> s \<and> s + rec_size m p s \<le> r \<and>
     rec_flag m p s = DMS_RECORD_FLAG_NORMAL"
proof (induction ss arbitrary: r gap)
  case (Cons t ss)
  then show ?case
    by (cases "s = t") (auto split: if_splits dest: Cons.IH)
qed simp

text \<open>Everything said about the records depends on the bytes between \<open>lo\<close> and \<open>r\<close> only.\<close>

lemma rec_size_cong:
  "(\<And>x. p + s \<le> x \<Longrightarrow> x < p + s + 4 \<Longrightarrow> m x = m' x) \<Longrightarrow> rec_size m p s = rec_size m' p s"
  unfolding rec_size_def by (rule rd32_cong) simp

lemma rec_flag_cong:
  "(\<And>x. p + s + 4 \<le> x \<Longrightarrow> x < p + s + 8 \<Longrightarrow> m x = m' x) \<Longrightarrow> rec_flag m p s = rec_flag m' p s"
  unfolding rec_flag_def by (rule rd32_cong) simp

lemma rec_bytes_cong:
  "sizeof_dmsRecord \<le> rec_size m p s \<Longrightarrow>
     (\<And>x. p + s \<le> x \<Longrightarrow> x < p + s + rec_size m p s \<Longrightarrow> m x = m' x) \<Longrightarrow>
     rec_bytes m p s = rec_bytes m' p s"
proof -
  assume a: "sizeof_dmsRecord \<le> rec_size m p s"
    "\<And>x. p + s \<le> x \<Longrightarrow> x < p + s + rec_size m p s \<Longrightarrow> m x = m' x"
  then have "rec_size m p s = rec_size m' p s"
    by (intro rec_size_cong) (simp add: layout_simps)
  moreover have "rdb m (p + s + sizeof_dmsRecord) (rec_size m p s - sizeof_dmsRecord)
      = rdb m' (p + s + sizeof_dmsRecord) (rec_size m p s - sizeof_dmsRecord)"
    using a by (intro rdb_cong) (simp add: layout_simps)
  ultimately show ?thesis
    by (simp add: rec_bytes_def)
qed

definition agree :: "mem \<Rightarrow> mem \<Rightarrow> nat \<Rightarrow> nat \<Rightarrow> bool" where
  "agree m m' a b \<longleftrightarrow> (\<forall>x. a \<le> x \<and> x < b \<longrightarrow> m x = m' x)"

lemma agreeD: "agree m m' a b \<Longrightarrow> a \<le> x \<Longrightarrow> x < b \<Longrightarrow> m x = m' x"
  by (simp add: agree_def)

lemma agree_sub: "agree m m' a b \<Longrightarrow> a \<le> a' \<Longrightarrow> b' \<le> b \<Longrightarrow> agree m m' a' b'"
  by (auto simp: agree_def)

lemma packed_cong:
  assumes "packed m p ss r gap lo" "agree m m' (p + lo) (p + r)"
  shows "packed m' p ss r gap lo \<and> live_size m' p ss = live_size m p ss \<and>
    map (slot_rec m' p) ss = map (slot_rec m p) ss"
  using assms
proof (induction ss arbitrary: r gap)
  case (Cons s ss)
  show ?case
  proof (cases "s = DMS_SLOT_EMPTY")
    case True
    with Cons.prems Cons.IH [of r True] show ?thesis
      by (simp add: slot_rec_def)
  next
    case False
    with Cons.prems have s: "sizeof_dmsRecord \<le> rec_size m p s" "lo \<le> s" "s + rec_size m p s \<le> r"
        "packed m p ss s gap lo"
      by simp_all
    then have "agree m m' (p + lo) (p + s)"
      using Cons.prems(2) by (auto elim: agree_sub)
    with Cons.IH s(4) have IH: "packed m' p ss s gap lo" "live_size m' p ss = live_size m p ss"
        "map (slot_rec m' p) ss = map (slot_rec m p) ss"
      by blast+
    have same: "rec_size m' p s = rec_size m p s" "rec_flag m' p s = rec_flag m p s"
      using s agreeD [OF Cons.prems(2)] by (auto intro!: rec_size_cong rec_flag_cong simp: layout_simps)
    have "rec_bytes m' p s = rec_bytes m p s"
      using s agreeD [OF Cons.prems(2)] by (intro rec_bytes_cong [symmetric]) auto
    with same IH False Cons.prems show ?thesis
      by (auto simp: slot_rec_def)
  qed
qed simp

lemma packed_snoc:
  assumes "packed m p ss r gap lo" "t \<noteq> DMS_SLOT_EMPTY" "sizeof_dmsRecord \<le> rec_size m p t"
    "t + rec_size m p t = lo" "rec_flag m p t = DMS_RECORD_FLAG_NORMAL"
  shows "packed m p (ss @ [t]) r gap t"
  using assms
proof (induction ss arbitrary: r gap)
  case (Cons s ss)
  show ?case
  proof (cases "s = DMS_SLOT_EMPTY")
    case False
    with Cons.prems(1) have "packed m p ss s gap lo" "lo \<le> s"
      by simp_all
    with Cons.IH [of s gap] Cons.prems False show ?thesis
      by auto
  qed (use Cons in auto)
qed auto

lemma live_size_append [simp]: "live_size m p (ss @ ts) = live_size m p ss + live_size m p ts"
  by (induction ss) auto

section \<open>Reading a page through writes\<close>

lemma slots_cong: "agree m m' p (p + slotOffset m p) \<Longrightarrow>
    slotOffset m p = sizeof_dmsPageHeader + sizeof_SLOT * numSlots m p \<Longrightarrow> slots m' p = slots m p"
proof -
  assume a: "agree m m' p (p + slotOffset m p)"
    "slotOffset m p = sizeof_dmsPageHeader + sizeof_SLOT * numSlots m p"
  have n: "numSlots m' p = numSlots m p"
    unfolding numSlots_def using a agreeD [OF a(1)] by (intro rd32_cong) (auto simp: layout_simps)
  have "slot m' p i = slot m p i" if "i < numSlots m p" for i
    unfolding slot_def slot_addr_def using that a agreeD [OF a(1)]
    by (intro rd32_cong) (auto simp: layout_simps)
  with n show ?thesis
    by (simp add: slots_def)
qed

text \<open>Two memories that agree on a page agree on all that is said about it.\<close>

lemma page_cong:
  assumes "page_inv m p" "agree m m' p (p + DMS_PAGESIZE)"
  shows "page_inv m' p \<and> page_recs m' p = page_recs m p \<and> freeSpace m' p = freeSpace m p"
proof -
  have b: "slotOffset m p = sizeof_dmsPageHeader + sizeof_SLOT * numSlots m p"
      "slotOffset m p \<le> freeOffset m p" "freeOffset m p \<le> DMS_PAGESIZE"
      "packed m p (slots m p) DMS_PAGESIZE False (freeOffset m p)"
    using assms(1) packed_le by (auto simp: page_inv_def)
  have sl: "slots m' p = slots m p"
    using b agree_sub [OF assms(2)] by (intro slots_cong) auto
  have pk: "packed m' p (slots m p) DMS_PAGESIZE False (freeOffset m p)"
      "live_size m' p (slots m p) = live_size m p (slots m p)"
      "map (slot_rec m' p) (slots m p) = map (slot_rec m p) (slots m p)"
    using packed_cong [OF b(4) agree_sub [OF assms(2)]] by auto
  have f: "numSlots m' p = numSlots m p" "slotOffset m' p = slotOffset m p"
      "freeSpace m' p = freeSpace m p" "freeOffset m' p = freeOffset m p"
    unfolding numSlots_def slotOffset_def freeSpace_def freeOffset_def
    by (rule rd32_cong, simp add: layout_simps agreeD [OF assms(2)])+
  moreover have "rdb m' p 4 = rdb m p 4"
    by (rule rdb_cong) (simp add: layout_simps agreeD [OF assms(2)])
  ultimately show ?thesis
    using assms(1) pk sl by (simp add: page_inv_def page_recs_def)
qed

lemma agree_blit: "b \<le> a \<or> a + length bs \<le> c \<Longrightarrow> agree m (blit m a bs) c b"
  by (auto simp: agree_def blit_def)

lemma agree_wr32: "b \<le> a \<or> a + 4 \<le> c \<Longrightarrow> agree m (wr32 m a v) c b"
  by (simp add: wr32_def agree_blit)

lemma agree_trans: "agree m m' a b \<Longrightarrow> agree m' m'' a b \<Longrightarrow> agree m m'' a b"
  by (simp add: agree_def)

lemma agree_refl [simp]: "agree m m a b"
  by (simp add: agree_def)

section \<open>Bounds\<close>

lemma page_inv_bounds:
  assumes "page_inv m p"
  shows "slotOffset m p = 28 + 4 * numSlots m p" "slotOffset m p \<le> freeOffset m p"
    "freeOffset m p \<le> 4194304" "freeSpace m p \<le> 4194276"
    "freeOffset m p - slotOffset m p \<le> freeSpace m p"
    "u32_sub (freeOffset m p) (slotOffset m p) = freeOffset m p - slotOffset m p"
proof -
  have pk: "packed m p (slots m p) DMS_PAGESIZE False (freeOffset m p)"
    and acc: "freeSpace m p + slotOffset m p + live_size m p (slots m p) = DMS_PAGESIZE"
    and so: "slotOffset m p = sizeof_dmsPageHeader + sizeof_SLOT * numSlots m p"
    and le: "slotOffset m p \<le> freeOffset m p"
    using assms by (simp_all add: page_inv_def)
  have room: "live_size m p ss + lo \<le> r" if "packed m p ss r gap lo" for ss r gap lo
    using that
  proof (induction ss arbitrary: r gap)
    case (Cons s ss)
    then show ?case
      by (fastforce split: if_splits dest: Cons.IH)
  qed simp
  show "slotOffset m p = 28 + 4 * numSlots m p" "slotOffset m p \<le> freeOffset m p"
      "freeOffset m p \<le> 4194304" "freeSpace m p \<le> 4194276"
      "freeOffset m p - slotOffset m p \<le> freeSpace m p"
    using so le acc packed_le [OF pk] room [OF pk] by (simp_all add: layout_simps)
  show "u32_sub (freeOffset m p) (slotOffset m p) = freeOffset m p - slotOffset m p"
    using le packed_le [OF pk] by (intro u32_sub_le) (simp_all add: layout_simps)
qed

section \<open>The free space counter\<close>

definition set_freeSpace :: "mem \<Rightarrow> nat \<Rightarrow> nat \<Rightarrow> mem" where
  "set_freeSpace m p v = wr32 m (p + 20) v"

lemma set_freeSpace_fields:
  "numSlots (set_freeSpace m p v) p = numSlots m p"
  "slotOffset (set_freeSpace m p v) p = slotOffset m p"
  "freeOffset (set_freeSpace m p v) p = freeOffset m p"
  "freeSpace (set_freeSpace m p v) p = v mod 4294967296"
  "rdb (set_freeSpace m p v) p 4 = rdb m p 4"
  by (simp_all add: set_freeSpace_def numSlots_def slotOffset_def freeOffset_def freeSpace_def mem_simps)

lemma set_freeSpace_slots: "slots (set_freeSpace m p v) p = slots m p"
proof -
  have "slot (set_freeSpace m p v) p i = slot m p i" for i
    by (simp add: slot_def set_freeSpace_def slot_addr_def layout_simps mem_simps)
  then show ?thesis
    by (simp add: slots_def set_freeSpace_fields)
qed

text \<open>A page whose invariant is short of the accounting gets it from the right counter.\<close>

definition page_pre :: "mem \<Rightarrow> nat \<Rightarrow> bool" where
  "page_pre m p \<longleftrightarrow> rdb m p 4 = DMS_PAGE_EYECATCHER \<and>
     slotOffset m p = sizeof_dmsPageHeader + sizeof_SLOT * numSlots m p \<and>
     slotOffset m p \<le> freeOffset m p \<and>
     packed m p (slots m p) DMS_PAGESIZE False (freeOffset m p)"

lemma set_freeSpace_inv:
  assumes "page_pre m p" "v + slotOffset m p + live_size m p (slots m p) = DMS_PAGESIZE"
  shows "page_inv (set_freeSpace m p v) p \<and> page_recs (set_freeSpace m p v) p = page_recs m p"
proof -
  have ag: "agree m (set_freeSpace m p v) (p + freeOffset m p) (p + DMS_PAGESIZE)"
    using assms(1) unfolding set_freeSpace_def
    by (intro agree_wr32) (simp add: page_pre_def layout_simps)
  have pk: "packed m p (slots m p) DMS_PAGESIZE False (freeOffset m p)"
    using assms(1) by (simp add: page_pre_def)
  have "packed (set_freeSpace m p v) p (slots m p) DMS_PAGESIZE False (freeOffset m p)"
      "live_size (set_freeSpace m p v) p (slots m p) = live_size m p (slots m p)"
      "map (slot_rec (set_freeSpace m p v) p) (slots m p) = map (slot_rec m p) (slots m p)"
    using packed_cong [OF pk ag] by blast+
  moreover have "v mod 4294967296 = v"
    using assms(2) by (simp add: layout_simps)
  ultimately show ?thesis
    using assms by (simp add: page_inv_def page_pre_def page_recs_def set_freeSpace_fields set_freeSpace_slots)
qed

section \<open>Insertion\<close>

lemma put_record_spec:
  assumes inv: "page_inv m p" and room: "\<not> no_room m p (length bs)"
  shows "page_pre (put_record m p bs) p"
    "page_recs (put_record m p bs) p = page_recs m p @ [Some bs]"
    "live_size (put_record m p bs) p (slots (put_record m p bs) p)
       = live_size m p (slots m p) + length bs + 8"
    "slotOffset (put_record m p bs) p = slotOffset m p + 4"
    "numSlots (put_record m p bs) p = numSlots m p + 1"
    "freeSpace (put_record m p bs) p = freeSpace m p"
    "freeOffset (put_record m p bs) p = freeOffset m p - length bs - 8"
    "slot (put_record m p bs) p (numSlots m p) = freeOffset m p - length bs - 8"
    "record_offset m p (length bs) = freeOffset m p - length bs - 8"
    "x < p \<or> p + DMS_PAGESIZE \<le> x \<Longrightarrow> put_record m p bs x = m x"
proof -
  note bd = page_inv_bounds [OF inv]
  define n so fo off where "n = numSlots m p" and "so = slotOffset m p" and "fo = freeOffset m p"
    and "off = fo - length bs - 8"
  have rm: "length bs + 12 + so \<le> fo" "so = 28 + 4 * n" "fo \<le> 4194304"
    using room bd unfolding n_def so_def fo_def no_room_def by (auto simp: layout_simps)
  have off: "off + length bs + 8 = fo" "so + 4 \<le> off"
    using rm by (simp_all add: off_def)
  have u: "u32_sub (u32_sub fo (length bs)) sizeof_dmsRecord = off" "u32_add n 1 = n + 1"
      "u32_add so sizeof_SLOT = so + 4" "slot_addr p n = p + so"
    using rm by (simp_all add: u32_sub_le u32_add_small layout_simps off_def slot_addr_def)
  define m1 m2 m3 where "m1 = wr32 m (p + so) off"
    and "m2 = blit m1 (p + off) (le32 (length bs + 8) @ le32 0)"
    and "m3 = blit m2 (p + off + 8) bs"
  define m4 where "m4 = wr32 (wr32 (wr32 m3 (p + 12) (n + 1)) (p + 16) (so + 4)) (p + 24) off"
  have ag_rec: "agree m3 m4 (p + so) (p + 4194304)"
    unfolding m4_def using rm
    by (intro agree_trans [OF agree_trans [OF agree_wr32 agree_wr32] agree_wr32]) simp_all
  have ag_old: "agree m m3 (p + fo) (p + 4194304)"
    unfolding m3_def m2_def m1_def using rm off
    by (intro agree_trans [OF agree_trans [OF agree_wr32 agree_blit] agree_blit]) simp_all
  have ag_head: "agree m m3 p (p + so)"
    unfolding m3_def m2_def m1_def using rm off
    by (intro agree_trans [OF agree_trans [OF agree_wr32 agree_blit] agree_blit]) simp_all
  have "numSlots m3 p = n" "slotOffset m3 p = so"
    unfolding numSlots_def slotOffset_def n_def so_def using rm agreeD [OF ag_head]
    by (auto intro!: rd32_cong [symmetric] simp: so_def)
  then have "numSlots m3 p = n" "slotOffset (wr32 m3 (p + 12) (n + 1)) p = so"
    by (simp_all add: slotOffset_def mem_simps)
  then have put: "put_record m p bs = m4"
    unfolding put_record_def put_meta_def put_data_def record_offset_def Let_def fo_def [symmetric]
      so_def [symmetric] n_def [symmetric] u
    unfolding DMS_RECORD_FLAG_NORMAL_def sizeof_dmsRecord_def m1_def [symmetric] m2_def [symmetric]
      m3_def [symmetric]
    by (simp only: u m4_def)
  have f4: "numSlots m4 p = n + 1" "slotOffset m4 p = so + 4" "freeOffset m4 p = off"
      "freeSpace m4 p = freeSpace m3 p" "rdb m4 p 4 = rdb m3 p 4"
    using rm off
    by (simp_all add: m4_def numSlots_def slotOffset_def freeOffset_def freeSpace_def mem_simps)
  have f3: "freeSpace m3 p = freeSpace m p" "rdb m3 p 4 = rdb m p 4"
    unfolding freeSpace_def using rm agreeD [OF ag_head]
    by (auto intro!: rd32_cong [symmetric] rdb_cong [symmetric])
  have sl_new: "slot m4 p n = off"
  proof -
    have "rd32 m3 (p + so) = off"
      unfolding m3_def m2_def m1_def using rm off by (simp add: mem_simps)
    moreover have "rd32 m4 (p + so) = rd32 m3 (p + so)"
      using rm agreeD [OF ag_rec] by (intro rd32_cong [symmetric]) auto
    ultimately show ?thesis
      by (simp add: slot_def u(4))
  qed
  have sl_old: "slot m4 p i = slot m p i" if "i < n" for i
  proof -
    have "slot m4 p i = slot m3 p i"
      unfolding m4_def slot_def slot_addr_def using that rm by (simp add: layout_simps mem_simps)
    also have "\<dots> = slot m p i"
      unfolding slot_def slot_addr_def using that rm agreeD [OF ag_head]
      by (intro rd32_cong [symmetric]) (auto simp: layout_simps)
    finally show ?thesis .
  qed
  have slots4: "slots m4 p = slots m p @ [off]"
    using sl_new sl_old by (simp add: slots_def f4 n_def [symmetric])
  have r3: "rec_size m3 p off = length bs + 8" "rec_flag m3 p off = 0" "rec_bytes m3 p off = bs"
  proof -
    have "rdb m2 (p + off) 8 = le32 (length bs + 8) @ le32 0"
      unfolding m2_def by (rule rdb_blit_same) simp
    then have "rdb m2 (p + off) 4 @ rdb m2 (p + off + 4) 4 = le32 (length bs + 8) @ le32 0"
      using rdb_append [of m2 "p + off" 4 4] by simp
    then have "rdb m2 (p + off) 4 = le32 (length bs + 8)" "rdb m2 (p + off + 4) 4 = le32 0"
      by simp_all
    then have "rd32 m2 (p + off) = length bs + 8" "rd32 m2 (p + off + 4) = 0"
      using rm by (simp_all add: rd32_def)
    then show "rec_size m3 p off = length bs + 8" "rec_flag m3 p off = 0"
      by (simp_all add: rec_size_def rec_flag_def m3_def mem_simps)
    then show "rec_bytes m3 p off = bs"
      by (simp add: rec_bytes_def layout_simps m3_def mem_simps)
  qed
  have r4: "rec_size m4 p off = length bs + 8" "rec_flag m4 p off = 0" "rec_bytes m4 p off = bs"
  proof -
    have ag: "agree m3 m4 (p + off) (p + off + (length bs + 8))"
      using off rm by (intro agree_sub [OF ag_rec]) auto
    show "rec_size m4 p off = length bs + 8" "rec_flag m4 p off = 0" "rec_bytes m4 p off = bs"
      using r3 agreeD [OF ag] rec_size_cong [of p off m3 m4] rec_flag_cong [of p off m3 m4]
        rec_bytes_cong [of m3 p off m4] by (simp_all add: layout_simps)
  qed
  have ag: "agree m m4 (p + fo) (p + DMS_PAGESIZE)"
    using agree_trans [OF ag_old agree_sub [OF ag_rec, of "p + fo" "p + 4194304"]] rm
    by (simp add: layout_simps)
  have pk: "packed m p (slots m p) DMS_PAGESIZE False fo"
    using inv by (simp add: page_inv_def fo_def)
  have old: "packed m4 p (slots m p) DMS_PAGESIZE False fo"
      "live_size m4 p (slots m p) = live_size m p (slots m p)"
      "map (slot_rec m4 p) (slots m p) = map (slot_rec m p) (slots m p)"
    using packed_cong [OF pk ag] by blast+
  have ne: "off \<noteq> DMS_SLOT_EMPTY"
    using rm by (simp add: layout_simps off_def)
  show "page_pre (put_record m p bs) p"
    using packed_snoc [OF old(1) ne] r4 off f3 f4 inv rm
    by (simp add: put page_pre_def slots4 page_inv_def layout_simps)
  show "page_recs (put_record m p bs) p = page_recs m p @ [Some bs]"
    using old(3) ne r4 by (simp add: put page_recs_def slots4 slot_rec_def)
  show "live_size (put_record m p bs) p (slots (put_record m p bs) p)
       = live_size m p (slots m p) + length bs + 8"
    using old(2) ne r4 by (simp add: put slots4)
  show "slotOffset (put_record m p bs) p = slotOffset m p + 4"
    "numSlots (put_record m p bs) p = numSlots m p + 1"
    "freeSpace (put_record m p bs) p = freeSpace m p"
    "freeOffset (put_record m p bs) p = freeOffset m p - length bs - 8"
    "slot (put_record m p bs) p (numSlots m p) = freeOffset m p - length bs - 8"
    using f4 f3 sl_new by (simp_all add: put n_def so_def off_def fo_def)
  show "record_offset m p (length bs) = freeOffset m p - length bs - 8"
    using u(1) by (simp add: record_offset_def fo_def off_def)
  show "put_record m p bs x = m x" if "x < p \<or> p + DMS_PAGESIZE \<le> x"
    using that rm off unfolding put m4_def m3_def m2_def m1_def
    by (auto simp: wr32_out blit_out layout_simps)
qed

section \<open>Removal\<close>

lemma packed_drop:
  assumes "packed m p ss r gap lo" "i < length ss" "ss ! i = s" "s \<noteq> DMS_SLOT_EMPTY"
    and "agree m m' 0 (p + s + 4)" "agree m m' (p + s + 8) (p + r)"
  shows "packed m' p (ss[i := DMS_SLOT_EMPTY]) r gap lo \<and>
    live_size m' p (ss[i := DMS_SLOT_EMPTY]) + rec_size m p s = live_size m p ss \<and>
    map (slot_rec m' p) (ss[i := DMS_SLOT_EMPTY]) = (map (slot_rec m p) ss)[i := None]"
  using assms
proof (induction ss arbitrary: i r gap)
  case (Cons t ss)
  show ?case
  proof (cases i)
    case 0
    with Cons.prems have t: "t = s" "packed m p ss s gap lo" "s \<le> r"
      by simp_all
    have "agree m m' (p + lo) (p + s)"
      using Cons.prems(5) by (rule agree_sub) simp_all
    from packed_cong [OF t(2) this] t packed_right [OF packed_gap] 0 Cons.prems(4) show ?thesis
      by (auto simp: slot_rec_def)
  next
    case (Suc j)
    show ?thesis
    proof (cases "t = DMS_SLOT_EMPTY")
      case True
      with Cons.prems Cons.IH [of r True j] Suc show ?thesis
        by (simp add: slot_rec_def)
    next
      case False
      with Cons.prems(1) have t: "sizeof_dmsRecord \<le> rec_size m p t" "lo \<le> t"
          "t + rec_size m p t \<le> r" "packed m p ss t gap lo"
        by simp_all
      have "s \<in> set ss"
        using Cons.prems(2,3) Suc by auto
      then have "s + 8 \<le> t"
        using packed_slot [OF t(4) _ Cons.prems(4)] by (simp add: layout_simps)
      then have ag: "agree m m' (p + t) (p + r)" "agree m m' (p + s + 8) (p + t)"
        using agree_sub [OF Cons.prems(6), of "p + t" "p + r"]
          agree_sub [OF Cons.prems(6), of "p + s + 8" "p + t"] t(3) by auto
      have same: "rec_size m' p t = rec_size m p t" "rec_flag m' p t = rec_flag m p t"
          "rec_bytes m' p t = rec_bytes m p t"
        using t agreeD [OF ag(1)]
        by (auto intro!: rec_size_cong [symmetric] rec_flag_cong [symmetric] rec_bytes_cong [symmetric]
            simp: layout_simps)
      from Cons.IH [OF t(4) _ _ Cons.prems(4,5) ag(2), of j] Cons.prems Suc False same show ?thesis
        by (auto simp: slot_rec_def)
    qed
  qed
qed simp

lemma slot_wr_slot:
  "slot (wr32 m (slot_addr p i) v) p j = (if i = j then v mod 4294967296 else slot m p j)"
proof (cases "i = j")
  case False
  then have "slot_addr p j + 4 \<le> slot_addr p i \<or> slot_addr p i + 4 \<le> slot_addr p j"
    by (auto simp: slot_addr_def layout_simps)
  with False show ?thesis
    by (simp add: slot_def mem_simps)
qed (simp add: slot_def mem_simps)

lemma slot_wr_out: "slot_addr p j + 4 \<le> a \<Longrightarrow> slot (wr32 m a v) p j = slot m p j"
  by (simp add: slot_def mem_simps)

lemma drop_record_spec:
  assumes inv: "page_inv m p" and i: "i < numSlots m p" and s: "slot m p i = s" "s \<noteq> DMS_SLOT_EMPTY"
  defines "m' \<equiv> drop_record m p i s"
  shows "page_pre m' p" "page_recs m' p = (page_recs m p)[i := None]"
    "live_size m' p (slots m' p) + rec_size m p s = live_size m p (slots m p)"
    "slotOffset m' p = slotOffset m p" "numSlots m' p = numSlots m p" "freeSpace m' p = freeSpace m p"
    "freeOffset m' p = freeOffset m p" "rec_size m' p s = rec_size m p s"
    "x < p \<or> p + DMS_PAGESIZE \<le> x \<Longrightarrow> m' x = m x"
proof -
  note bd = page_inv_bounds [OF inv]
  have pk: "packed m p (slots m p) DMS_PAGESIZE False (freeOffset m p)"
    using inv by (simp add: page_inv_def)
  have mem: "s \<in> set (slots m p)"
    using i s(1) by (auto simp: slots_def)
  have sb: "freeOffset m p \<le> s" "8 \<le> rec_size m p s" "s + rec_size m p s \<le> 4194304"
    using packed_slot [OF pk mem s(2)] by (simp_all add: layout_simps)
  define m1 where "m1 = wr32 m (slot_addr p i) DMS_SLOT_EMPTY"
  have m': "m' = wr32 m1 (p + s + 4) DMS_RECORD_FLAG_DROPPED"
    by (simp add: m'_def drop_record_def m1_def)
  have addr: "p + 28 \<le> slot_addr p i" "slot_addr p i + 4 \<le> p + freeOffset m p"
    using i bd by (auto simp: slot_addr_def layout_simps)
  have f: "numSlots m' p = numSlots m p" "slotOffset m' p = slotOffset m p"
      "freeSpace m' p = freeSpace m p" "freeOffset m' p = freeOffset m p" "rdb m' p 4 = rdb m p 4"
    unfolding m' m1_def using addr sb
    by (simp_all add: numSlots_def slotOffset_def freeSpace_def freeOffset_def mem_simps)
  have sl: "slot m' p j = (if j = i then DMS_SLOT_EMPTY else slot m p j)" if "j < numSlots m p" for j
  proof -
    have "slot_addr p j + 4 \<le> p + s + 4"
      using that bd sb by (simp add: slot_addr_def layout_simps)
    then show ?thesis
      by (simp add: m' m1_def slot_wr_out slot_wr_slot layout_simps)
  qed
  have slots': "slots m' p = (slots m p)[i := DMS_SLOT_EMPTY]"
    by (rule nth_equalityI) (use sl f in \<open>auto simp: slots_def nth_list_update\<close>)
  have ag1: "agree m m1 (p + freeOffset m p) (p + DMS_PAGESIZE)"
    unfolding m1_def using addr by (intro agree_wr32) simp
  note c1 = packed_cong [OF pk ag1]
  have rs1: "rec_size m1 p s = rec_size m p s"
    unfolding m1_def rec_size_def using addr sb by (simp add: mem_simps)
  have ag2: "agree m1 m' 0 (p + s + 4)" "agree m1 m' (p + s + 8) (p + DMS_PAGESIZE)"
    unfolding m' by (intro agree_wr32; simp)+
  have nth: "i < length (slots m p)" "slots m p ! i = s"
    using i s(1) by (simp_all add: slots_def)
  have d: "packed m' p (slots m' p) DMS_PAGESIZE False (freeOffset m p)"
      "live_size m' p (slots m' p) + rec_size m p s = live_size m p (slots m p)"
      "map (slot_rec m' p) (slots m' p) = (map (slot_rec m p) (slots m p))[i := None]"
    using packed_drop [OF conjunct1 [OF c1] nth s(2) ag2] c1 rs1 by (simp_all add: slots')
  show "page_pre m' p"
    using d(1) inv f by (simp add: page_pre_def page_inv_def)
  show "page_recs m' p = (page_recs m p)[i := None]"
    using d(3) by (simp add: page_recs_def)
  show "live_size m' p (slots m' p) + rec_size m p s = live_size m p (slots m p)"
    by (rule d(2))
  show "slotOffset m' p = slotOffset m p" "numSlots m' p = numSlots m p" "freeSpace m' p = freeSpace m p"
      "freeOffset m' p = freeOffset m p"
    by (simp_all add: f)
  show "rec_size m' p s = rec_size m p s"
    unfolding m' rec_size_def [of "wr32 m1 (p + s + 4) DMS_RECORD_FLAG_DROPPED"]
    using rs1 by (simp add: mem_simps rec_size_def)
  show "m' x = m x" if "x < p \<or> p + DMS_PAGESIZE \<le> x"
    using that addr sb bd(3) unfolding m' m1_def by (auto simp: wr32_out layout_simps)
qed

section \<open>Compaction\<close>

text \<open>What the loop over the slots \<open>i..<n\<close> establishes for the slots it has passed.\<close>

definition recovered :: "nat \<Rightarrow> mem \<Rightarrow> nat \<Rightarrow> nat \<Rightarrow> nat list \<Rightarrow> nat \<Rightarrow> bool \<Rightarrow> nat \<Rightarrow> mem \<Rightarrow> bool" where
  "recovered p m i n ss right gap lo m' \<longleftrightarrow>
     packed m' p (map (slot m' p) [i..<n]) right gap lo \<and>
     live_size m' p (map (slot m' p) [i..<n]) = live_size m p ss \<and>
     map (slot_rec m' p) (map (slot m' p) [i..<n]) = map (slot_rec m p) ss \<and>
     agree m m' 0 (slot_addr p i) \<and> agree m m' (slot_addr p n) (p + lo) \<and>
     (\<forall>x \<ge> p + right. m x = m' x)"

lemma slot_addr_mono: "i \<le> j \<Longrightarrow> slot_addr p i \<le> slot_addr p j"
  by (simp add: slot_addr_def)

lemma slot_addr_Suc: "slot_addr p (Suc i) = slot_addr p i + 4"
  by (simp add: slot_addr_def layout_simps)

lemma slot_agree: "agree m m' 0 (slot_addr p (Suc i)) \<Longrightarrow> slot m' p i = slot m p i"
  unfolding slot_def slot_addr_Suc by (rule rd32_cong [symmetric]) (simp add: agree_def)

lemma upt_Suc_first: "i < n \<Longrightarrow> [i..<n] = i # [Suc i..<n]"
  by (simp add: upt_conv_Cons)

lemma agree_shrink: "agree m m' 0 b \<Longrightarrow> b' \<le> b \<Longrightarrow> agree m m' 0 b'"
  by (auto simp: agree_def)

lemma recovered_empty:
  assumes "recovered p m (Suc i) n ss right True lo m'" "i < n" "slot m p i = DMS_SLOT_EMPTY"
  shows "recovered p m i n (DMS_SLOT_EMPTY # ss) right gap lo m'"
proof -
  have "slot m' p i = DMS_SLOT_EMPTY"
    using assms slot_agree [of m m' p i] by (simp add: recovered_def)
  moreover have "agree m m' 0 (slot_addr p i)"
    using assms(1) by (auto simp: recovered_def slot_addr_Suc elim: agree_shrink)
  ultimately show ?thesis
    using assms by (simp add: recovered_def upt_Suc_first slot_rec_def)
qed

lemma recovered_stay:
  assumes "recovered p m (Suc i) n ss s False lo m'" "i < n" "slot m p i = s" "s \<noteq> DMS_SLOT_EMPTY"
    and "sizeof_dmsRecord \<le> rec_size m p s" "lo \<le> s" "s + rec_size m p s = right"
    and "rec_flag m p s = DMS_RECORD_FLAG_NORMAL"
  shows "recovered p m i n (s # ss) right False lo m'"
proof -
  have out: "\<forall>x \<ge> p + s. m x = m' x"
    using assms(1) by (simp add: recovered_def)
  have "slot m' p i = s"
    using assms(1,3) slot_agree [of m m' p i] by (simp add: recovered_def)
  moreover have "agree m m' 0 (slot_addr p i)"
    using assms(1) by (auto simp: recovered_def slot_addr_Suc elim: agree_shrink)
  moreover have "rec_size m' p s = rec_size m p s" "rec_flag m' p s = rec_flag m p s"
      "rec_bytes m' p s = rec_bytes m p s"
    using out assms(5) by (auto intro!: rec_size_cong [symmetric] rec_flag_cong [symmetric]
        rec_bytes_cong [symmetric])
  ultimately show ?thesis
    using assms out by (auto simp: recovered_def upt_Suc_first slot_rec_def)
qed

text \<open>A moved record: \<open>m1\<close> is the memory after the \<open>memmove\<close> and the slot update.\<close>

definition move_record :: "mem \<Rightarrow> nat \<Rightarrow> nat \<Rightarrow> nat \<Rightarrow> nat \<Rightarrow> mem" where
  "move_record m p i s rt =
     wr32 (blit m (p + rt) (rdb m (p + s) (rec_size m p s))) (slot_addr p i) rt"

lemma move_record_frame:
  assumes "slot_addr p n \<le> p + lo" "i < n" "lo \<le> s" "s \<le> rt" "rt + rec_size m p s = right"
    "right \<le> DMS_PAGESIZE"
  defines "m1 \<equiv> move_record m p i s rt"
  shows "agree m m1 0 (slot_addr p i)" "agree m m1 (slot_addr p (Suc i)) (p + rt)"
    "\<forall>x \<ge> p + right. m x = m1 x" "slot m1 p i = rt"
    "\<forall>k < rec_size m p s. m1 (p + rt + k) = m (p + s + k)"
proof -
  have le: "slot_addr p (Suc i) \<le> slot_addr p n"
    using assms(2) by (intro slot_addr_mono) simp
  then have a: "slot_addr p i + 4 \<le> p + lo"
    using assms(1) by (simp add: slot_addr_Suc)
  show "agree m m1 0 (slot_addr p i)" "agree m m1 (slot_addr p (Suc i)) (p + rt)"
    unfolding m1_def move_record_def using a assms(3,4) slot_addr_Suc [of p i]
    by (intro agree_trans [OF agree_blit agree_wr32]; simp)+
  show "\<forall>x \<ge> p + right. m x = m1 x" "\<forall>k < rec_size m p s. m1 (p + rt + k) = m (p + s + k)"
    unfolding m1_def move_record_def using a assms(3-5) by (auto simp: wr32_def blit_def)
  show "slot m1 p i = rt"
    using assms(5,6) by (simp add: m1_def move_record_def slot_def mem_simps layout_simps)
qed

lemma recovered_move:
  assumes "recovered p m1 (Suc i) n ss rt True lo m'" and m1: "m1 = move_record m p i s rt"
    and b: "slot_addr p n \<le> p + lo" "i < n" "lo \<le> s" "s \<le> rt" "rt + rec_size m p s = right"
    "right \<le> DMS_PAGESIZE" "s \<noteq> DMS_SLOT_EMPTY" "sizeof_dmsRecord \<le> rec_size m p s"
    "rec_flag m p s = DMS_RECORD_FLAG_NORMAL"
    and c: "live_size m1 p ss = live_size m p ss" "map (slot_rec m1 p) ss = map (slot_rec m p) ss"
  shows "recovered p m i n (s # ss) right True lo m'"
proof -
  let ?size = "rec_size m p s"
  note fr = move_record_frame [OF b(1-6), folded m1]
  note IH = assms(1) [unfolded recovered_def]
  have si: "slot m' p i = rt"
    using IH fr(4) slot_agree [of m1 m' p i] by simp
  have cp: "m' (p + rt + k) = m (p + s + k)" if "k < ?size" for k
    using IH fr(5) that by (metis add.assoc le_add1)
  have rd: "rdb m' (p + rt + k) j = rdb m (p + s + k) j" if "k + j \<le> ?size" for k j
    using that by (intro nth_equalityI) (auto simp: add.assoc cp [unfolded add.assoc])
  have 1: "rec_size m' p rt = ?size"
    using rd [of 0 4] b(8) by (simp add: rec_size_def rd32_def layout_simps)
  have 2: "rec_flag m' p rt = DMS_RECORD_FLAG_NORMAL"
    using rd [of 4 4] b(8,9) by (simp add: rec_flag_def rd32_def layout_simps)
  have 3: "rec_bytes m' p rt = rec_bytes m p s"
    using rd [of 8 "?size - 8"] b(8) 1 by (simp add: rec_bytes_def layout_simps)
  have ne: "rt \<noteq> DMS_SLOT_EMPTY"
    using b(5,6) by (simp add: layout_simps)
  have a1: "agree m m' 0 (slot_addr p i)"
    using IH agree_trans [OF fr(1) agree_shrink [of m1 m' "slot_addr p (Suc i)"]]
    by (simp add: slot_addr_Suc)
  have "agree m m1 (slot_addr p n) (p + lo)"
    using fr(2) b(2-4) slot_addr_mono [of "Suc i" n p] by (auto elim: agree_sub)
  then have a2: "agree m m' (slot_addr p n) (p + lo)"
    using IH by (auto intro: agree_trans)
  have a3: "\<forall>x \<ge> p + right. m x = m' x"
    using IH fr(3) b(5) by simp
  show ?thesis
    using IH si 1 2 3 ne a1 a2 a3 b c
    by (simp add: recovered_def upt_Suc_first slot_rec_def)
qed

lemma recover_step_eq:
  "recover_step p i (m, right, g) = (if slot m p i = DMS_SLOT_EMPTY then (m, right, True)
     else let rt = right - rec_size m p (slot m p i) in
       (if g then move_record m p i (slot m p i) rt else m, rt, g))"
  by (simp add: recover_step_def move_record_def Let_def)

lemma recover_loop:
  assumes "packed m p ss r gap lo" "ss = map (slot m p) [i..<n]" "r \<le> right" "right \<le> DMS_PAGESIZE"
    "\<not> gap \<longrightarrow> right = r" "slot_addr p n \<le> p + lo"
  shows "recovered p m i n ss right gap lo (fst (fold (recover_step p) [i..<n] (m, right, gap)))"
  using assms
proof (induction ss arbitrary: i m r right gap)
  case Nil
  then show ?case
    by (auto simp: recovered_def)
next
  case (Cons s ss)
  from Cons.prems(2) have i: "i < n"
    by (cases "i < n") auto
  have s: "slot m p i = s" "ss = map (slot m p) [Suc i..<n]"
    using Cons.prems(2) upt_Suc_first [OF i] by simp_all
  show ?case
  proof (cases "s = DMS_SLOT_EMPTY")
    case True
    with Cons.prems(1) have "packed m p ss r True lo"
      by simp
    from Cons.IH [OF this s(2) Cons.prems(3,4) _ Cons.prems(6)] recovered_empty [OF _ i] s True
    show ?thesis
      by (simp add: upt_Suc_first [OF i] recover_step_eq)
  next
    case False
    with Cons.prems(1) have t: "sizeof_dmsRecord \<le> rec_size m p s" "lo \<le> s"
        "s + rec_size m p s \<le> r" "\<not> gap \<longrightarrow> s + rec_size m p s = r"
        "rec_flag m p s = DMS_RECORD_FLAG_NORMAL" "packed m p ss s gap lo"
      by simp_all
    show ?thesis
    proof (cases gap)
      case nogap: False
      then have r: "right - rec_size m p s = s" "s + rec_size m p s = right" "s \<le> DMS_PAGESIZE"
        using t Cons.prems(4,5) by auto
      from Cons.IH [OF t(6) s(2) order_refl r(3) _ Cons.prems(6)] nogap
      have "recovered p m (Suc i) n ss s False lo
          (fst (fold (recover_step p) [Suc i..<n] (m, s, False)))"
        by simp
      from recovered_stay [OF this i s(1) False t(1,2) r(2) t(5)] show ?thesis
        using False s(1) nogap r by (simp add: upt_Suc_first [OF i] recover_step_eq Let_def)
    next
      case True
      define rt where "rt = right - rec_size m p s"
      define m1 where "m1 = move_record m p i s rt"
      have rt: "s \<le> rt" "rt + rec_size m p s = right" "rt \<le> DMS_PAGESIZE"
        using t Cons.prems(3,4) by (simp_all add: rt_def)
      note fr = move_record_frame [OF Cons.prems(6) i t(2) rt(1,2) Cons.prems(4), folded m1_def]
      have pk1: "packed m p ss s True lo"
        using t(6) True by simp
      have "agree m m1 (p + lo) (p + s)"
        using fr(2) Cons.prems(6) slot_addr_mono [of "Suc i" n p] i rt(1) by (auto elim: agree_sub)
      note c = packed_cong [OF pk1 this]
      have sl1: "ss = map (slot m1 p) [Suc i..<n]"
      proof -
        have "slot m1 p j = slot m p j" if "Suc i \<le> j" "j < n" for j
        proof -
          have "slot_addr p (Suc i) \<le> slot_addr p j" "slot_addr p (Suc j) \<le> slot_addr p n"
            using that by (simp_all add: slot_addr_mono)
          then show ?thesis
            unfolding slot_def using agreeD [OF fr(2)] Cons.prems(6) t(2) rt(1)
            by (intro rd32_cong [symmetric]) (simp add: slot_addr_Suc)
        qed
        then show ?thesis
          using s(2) by simp
      qed
      from Cons.IH [OF conjunct1 [OF c] sl1 rt(1,3) _ Cons.prems(6)]
      have "recovered p m1 (Suc i) n ss rt True lo
          (fst (fold (recover_step p) [Suc i..<n] (m1, rt, True)))"
        by simp
      from recovered_move [OF this m1_def Cons.prems(6) i t(2) rt(1,2) Cons.prems(4) False t(1,5)] c
      show ?thesis
        using False s(1) True
        by (simp add: upt_Suc_first [OF i] recover_step_eq Let_def m1_def rt_def)
    qed
  qed
qed

text \<open>
  Compaction keeps the invariant and every record, and leaves the header, \<open>_freeOffset\<close> included,
  and everything outside the page as they were.
\<close>

lemma recoverSpace_spec:
  assumes inv: "page_inv m p"
  defines "m' \<equiv> recoverSpace m p"
  shows "page_inv m' p" "page_recs m' p = page_recs m p" "freeOffset m' p = freeOffset m p"
    "slotOffset m' p = slotOffset m p" "freeSpace m' p = freeSpace m p" "numSlots m' p = numSlots m p"
    "x < p \<or> p + DMS_PAGESIZE \<le> x \<Longrightarrow> m' x = m x"
proof -
  note bd = page_inv_bounds [OF inv]
  let ?n = "numSlots m p" and ?lo = "freeOffset m p"
  have pk: "packed m p (slots m p) DMS_PAGESIZE False ?lo"
    using inv by (simp add: page_inv_def)
  have "slot_addr p ?n \<le> p + ?lo"
    using bd by (simp add: slot_addr_def layout_simps)
  from recover_loop [OF pk slots_def order_refl order_refl _ this]
  have R: "recovered p m 0 ?n (slots m p) DMS_PAGESIZE False ?lo m'"
    by (simp add: m'_def recoverSpace_def)
  then have ag: "agree m m' 0 (p + 28)" and out: "\<forall>x \<ge> p + DMS_PAGESIZE. m x = m' x"
    by (simp_all add: recovered_def slot_addr_def layout_simps)
  have f: "numSlots m' p = numSlots m p" "slotOffset m' p = slotOffset m p"
      "freeSpace m' p = freeSpace m p" "freeOffset m' p = freeOffset m p"
    unfolding numSlots_def slotOffset_def freeSpace_def freeOffset_def
    by (rule rd32_cong [symmetric], simp add: agreeD [OF ag])+
  have e: "rdb m' p 4 = rdb m p 4"
    by (rule rdb_cong) (simp add: agreeD [OF ag])
  from R have "packed m' p (slots m' p) DMS_PAGESIZE False ?lo"
      "live_size m' p (slots m' p) = live_size m p (slots m p)" "page_recs m' p = page_recs m p"
    by (simp_all add: recovered_def slots_def f page_recs_def)
  with inv f e show "page_inv m' p" "page_recs m' p = page_recs m p" "freeOffset m' p = freeOffset m p"
      "slotOffset m' p = slotOffset m p" "freeSpace m' p = freeSpace m p" "numSlots m' p = numSlots m p"
    by (simp_all add: page_inv_def)
  show "x < p \<or> p + DMS_PAGESIZE \<le> x \<Longrightarrow> m' x = m x"
    using ag out by (auto simp: agree_def)
qed

end
