(* ===== verification/DmsFile.thy ===== *)
theory DmsFile
  imports DmsPageInv OssFile BsonObjSpec "HOL-Library.Multiset"
begin

text \<open>
  \<open>dmsFile\<close> of \<open>include/dms.hpp\<close> and \<open>dms/dms.cpp\<close>: the data file as segments of 32 pages mapped
  into memory, the free space map that finds a page for a record, and the operations insert,
  remove, find, extend, initialise and load.  Every operation returns its outcome together with
  the state it leaves, the state of its latches included, also where it throws.
\<close>

section \<open>State\<close>

record dmsRecordID =
  r_pageID :: nat
  r_slotID :: nat

text \<open>
  \<open>body\<close> lists the addresses of the segments, \<open>freeSpaceMap\<close> is the multimap from free bytes to
  page id as the list of its entries in iteration order; \<open>_mutex\<close> is \<open>dlatch\<close> here (the mapped
  file underneath has a latch of its own).
\<close>

record dmsFile = ossMmapFile +
  header :: "nat option"
  body :: "nat list"
  freeSpaceMap :: "(nat \<times> nat) list"
  dlatch :: ossSLatch
  extendMutex :: ossXLatch

definition getNumSegments :: "dmsFile \<Rightarrow> nat" where
  "getNumSegments st = length (body st) mod 4294967296"

definition getNumPages :: "dmsFile \<Rightarrow> nat" where
  "getNumPages st = (getNumSegments st * DMS_PAGES_PER_SEGMENT) mod 4294967296"

definition page_addr :: "nat list \<Rightarrow> nat \<Rightarrow> nat" where
  "page_addr segs k = segs ! (k div DMS_PAGES_PER_SEGMENT) + DMS_PAGESIZE * (k mod DMS_PAGES_PER_SEGMENT)"

definition pageToOffset :: "dmsFile \<Rightarrow> nat \<Rightarrow> nat option" where
  "pageToOffset st pageID = (if pageID \<ge> getNumPages st then None else Some (page_addr (body st) pageID))"

definition validSize :: "nat \<Rightarrow> bool" where
  "validSize sz = (if sz < DMS_FILE_HEADER_SIZE then False
     else (sz - DMS_FILE_HEADER_SIZE) mod DMS_FILE_SEGMENT_SIZE = 0)"

section \<open>The free space map\<close>

text \<open>\<open>std::multimap\<close>: an insertion goes behind the entries with the same key.\<close>

fun fsm_insert :: "nat \<Rightarrow> nat \<Rightarrow> (nat \<times> nat) list \<Rightarrow> (nat \<times> nat) list" where
  "fsm_insert k v [] = [(k, v)]"
| "fsm_insert k v (e # es) = (if k < fst e then (k, v) # e # es else e # fsm_insert k v es)"

fun fsm_upper_bound :: "nat \<Rightarrow> (nat \<times> nat) list \<Rightarrow> nat option" where
  "fsm_upper_bound k [] = None"
| "fsm_upper_bound k (e # es) = (if k < fst e then Some (snd e) else fsm_upper_bound k es)"

text \<open>The loop over \<open>equal_range\<close> that erases the page's entry.\<close>

fun fsm_erase :: "nat \<Rightarrow> nat \<Rightarrow> (nat \<times> nat) list \<Rightarrow> (nat \<times> nat) list" where
  "fsm_erase k v [] = []"
| "fsm_erase k v (e # es) = (if fst e = k \<and> snd e = v then es else e # fsm_erase k v es)"

definition findPage :: "nat \<Rightarrow> dmsFile \<Rightarrow> nat" where
  "findPage requiredSize st = (case fsm_upper_bound (requiredSize mod 4294967296) (freeSpaceMap st) of
     Some pid \<Rightarrow> pid | None \<Rightarrow> DMS_INVALID_PAGEID)"

definition updateFreeSpace :: "nat \<Rightarrow> int \<Rightarrow> nat \<Rightarrow> dmsFile \<Rightarrow> dmsFile" where
  "updateFreeSpace p changeSize pageID st =
     (let fs = freeSpace (vmem st) p;
          erased = fsm_erase fs pageID (freeSpaceMap st);
          fs' = to_u32 (int fs + changeSize)
      in st\<lparr>vmem := set_freeSpace (vmem st) p fs', freeSpaceMap := fsm_insert fs' pageID erased\<rparr>)"

section \<open>Insertion\<close>

text \<open>
  The part of \<open>insert\<close> under the latch, once a page has been chosen.  The result carries the
  record id and the address of \<open>outRecord\<close>, whose construction throws on an invalid size.
\<close>

definition insert_page :: "nat \<Rightarrow> u8 list \<Rightarrow> int \<Rightarrow> dmsFile \<Rightarrow>
    (int \<times> (dmsRecordID \<times> nat) option) res \<times> dmsFile" where
  "insert_page pageID bs recordSize st = (let n = length bs in
     case pageToOffset st pageID of
       None \<Rightarrow> (Ret (EDB_SYS, None), st)
     | Some p \<Rightarrow>
         if rdb (vmem st) p 4 \<noteq> DMS_PAGE_EYECATCHER then (Ret (EDB_SYS, None), st)
         else let m = (if needs_recover (vmem st) p n then recoverSpace (vmem st) p else vmem st) in
           if no_room m p n then (Ret (EDB_SYS, None), st\<lparr>vmem := m\<rparr>)
           else let off = record_offset m p n; rid = \<lparr>r_pageID = pageID, r_slotID = numSlots m p\<rparr> in
             if \<not> (0 < recordSize \<and> recordSize \<le> BSONObjMaxInternalSize)
             then (Raise 10334, st\<lparr>vmem := put_data m p off bs\<rparr>)
             else (Ret (EDB_OK, Some (rid, p + off + sizeof_dmsRecord)),
                   updateFreeSpace p (- int (n + sizeof_SLOT + sizeof_dmsRecord)) pageID
                     (st\<lparr>vmem := put_record m p bs\<rparr>)))"

text \<open>What \<open>_extendSegment\<close> asks the system: the size of the file, the writes, the mapping.\<close>

record ext_env =
  x_stat :: "int option"
  x_writes :: "nat \<Rightarrow> sys_io list"
  x_map_stat :: "int option"
  x_map :: "nat + int"

fun extendFile_loop :: "nat \<Rightarrow> (nat \<Rightarrow> sys_io list) \<Rightarrow> nat \<Rightarrow> dmsFile \<Rightarrow> (int \<times> dmsFile) res" where
  "extendFile_loop 0 writes i st = Ret (EDB_OK, st)"
| "extendFile_loop (Suc k) writes i st =
     bnd (fop_Write (replicate DMS_EXTEND_SIZE 0) DMS_EXTEND_SIZE (writes i) (fop_seekToEnd st)) (\<lambda>(rc, st').
     if rc \<noteq> 0 then Ret (rc, st') else extendFile_loop k writes (Suc i) st')"

definition extendFile :: "nat \<Rightarrow> (nat \<Rightarrow> sys_io list) \<Rightarrow> dmsFile \<Rightarrow> (int \<times> dmsFile) res" where
  "extendFile sz writes st = (if sz mod DMS_EXTEND_SIZE \<noteq> 0 then Ret (EDB_SYS, st)
     else extendFile_loop (sz div DMS_EXTEND_SIZE) writes 0 st)"

definition init_pages :: "mem \<Rightarrow> nat \<Rightarrow> mem" where
  "init_pages m base = fold (\<lambda>i m. blit m (base + i * DMS_PAGESIZE) page_header) [0..<DMS_PAGES_PER_SEGMENT] m"

text \<open>The critical section of \<open>_extendSegment\<close>.\<close>

definition add_segment :: "nat \<Rightarrow> dmsFile \<Rightarrow> dmsFile res" where
  "add_segment base st = (case header st of None \<Rightarrow> Stuck
     | Some h \<Rightarrow> let freeMapSize = length (freeSpaceMap st) in
         Ret (st\<lparr>freeSpaceMap := fold (\<lambda>i fsm. fsm_insert (DMS_PAGESIZE - sizeof_dmsPageHeader)
                   (to_u32 (int (i + freeMapSize))) fsm) [0..<DMS_PAGES_PER_SEGMENT] (freeSpaceMap st),
                body := body st @ [base],
                vmem := wr32 (vmem st) (h + 4) (u32_add (rd32 (vmem st) (h + 4)) DMS_PAGES_PER_SEGMENT)\<rparr>))"

definition extendSegment :: "tid \<Rightarrow> ext_env \<Rightarrow> dmsFile \<Rightarrow> (int \<times> dmsFile) res" where
  "extendSegment t env st =
     (let (rc, offset) = fop_getSize (x_stat env) st in if rc \<noteq> 0 then Ret (rc, st) else
      bnd (extendFile DMS_FILE_SEGMENT_SIZE (x_writes env) st) (\<lambda>(rc, st). if rc \<noteq> 0 then Ret (rc, st) else
      bnd (mmap_map t offset DMS_FILE_SEGMENT_SIZE (x_map_stat env) (x_map env) st) (\<lambda>((rc, a), st).
      if rc \<noteq> 0 then Ret (rc, st) else
      case a of None \<Rightarrow> Stuck | Some base \<Rightarrow>
        bnd (s_get t (dlatch st)) (\<lambda>l.
        bnd (add_segment base (st\<lparr>vmem := init_pages (vmem st) base, dlatch := l\<rparr>)) (\<lambda>st.
        bnd (s_release t (dlatch st)) (\<lambda>l'. Ret (EDB_OK, st\<lparr>dlatch := l'\<rparr>)))))))"

text \<open>
  The loop at \<open>retry\<close>.  Its script says what happens each time no page is found: this thread gets
  the extend latch and extends (\<open>Extend\<close>), or another thread has it, and \<open>Others\<close> is the state this
  thread finds when it gets the latch after all.
\<close>

datatype retry_event = Extend ext_env | Others dmsFile

definition unlatched :: "tid \<Rightarrow> 'a res \<times> dmsFile \<Rightarrow> 'a res \<times> dmsFile" where
  "unlatched t = (\<lambda>(r, st). case r of
     Ret x \<Rightarrow> (case s_release t (dlatch st) of Ret l \<Rightarrow> (Ret x, st\<lparr>dlatch := l\<rparr>) | _ \<Rightarrow> (Stuck, st))
   | _ \<Rightarrow> (r, st))"

fun insert_retry :: "tid \<Rightarrow> u8 list \<Rightarrow> int \<Rightarrow> retry_event list \<Rightarrow> dmsFile \<Rightarrow>
    (int \<times> (dmsRecordID \<times> nat) option) res \<times> dmsFile" where
  "insert_retry t bs recordSize evs st =
     (case s_get t (dlatch st) of Ret l \<Rightarrow>
        let pageID = findPage (length bs + sizeof_dmsRecord) st in
        if pageID = DMS_INVALID_PAGEID then
          (case evs of
             [] \<Rightarrow> (Wait, st)
           | Extend env # evs' \<Rightarrow>
               (case x_get t (extendMutex st) of Ret x \<Rightarrow>
                  (case extendSegment t env (st\<lparr>extendMutex := x\<rparr>) of
                     Ret (rc, st') \<Rightarrow>
                       (case x_release t (extendMutex st') of Ret x' \<Rightarrow>
                          if rc \<noteq> 0 then (Ret (rc, None), st'\<lparr>extendMutex := x'\<rparr>)
                          else insert_retry t bs recordSize evs' (st'\<lparr>extendMutex := x'\<rparr>)
                        | _ \<Rightarrow> (Stuck, st'))
                   | r \<Rightarrow> (bnd r (\<lambda>_. Stuck), st\<lparr>extendMutex := x\<rparr>))
                | _ \<Rightarrow> (Wait, st))
           | Others st' # evs' \<Rightarrow>
               (case x_get t (extendMutex st') of Ret x \<Rightarrow>
                  (case x_release t x of Ret x' \<Rightarrow>
                     insert_retry t bs recordSize evs' (st'\<lparr>extendMutex := x'\<rparr>)
                   | _ \<Rightarrow> (Stuck, st'))
                | _ \<Rightarrow> (Wait, st')))
        else unlatched t (insert_page pageID bs recordSize (st\<lparr>dlatch := l\<rparr>))
      | _ \<Rightarrow> (Wait, st))"

text \<open>
  \<open>insert\<close>: the size is an \<open>int\<close> compared with a \<open>size_t\<close>; the look-up of \<open>_id\<close> may not return on
  a malformed record, which is \<open>None\<close> of the whole.
\<close>

definition dms_insert :: "tid \<Rightarrow> BSONObj \<Rightarrow> retry_event list \<Rightarrow> dmsFile \<Rightarrow>
    ((int \<times> (dmsRecordID \<times> nat) option) res \<times> dmsFile) option" where
  "dms_insert t record evs st =
     (case obj_objsize record of
        Ret recordSize \<Rightarrow>
          if to_u64 recordSize > DMS_MAX_RECORD then Some (Ret (EDB_INVALIDARG, None), st) else
          (case getFieldDottedOrArray record str_id of
             None \<Rightarrow> None
           | Some r \<Rightarrow>
               (case bnd r (\<lambda>(e, _). elem_eoo e) of
                  Ret z \<Rightarrow>
                    if z then Some (Ret (EDB_INVALIDARG, None), st) else
                    (case ldn (fst record) (snd record) recordSize of
                       Ret bs \<Rightarrow> Some (insert_retry t bs recordSize evs st)
                     | _ \<Rightarrow> Some (Stuck, st))
                | r' \<Rightarrow> Some (bnd r' (\<lambda>_. Stuck), st)))
      | _ \<Rightarrow> Some (Stuck, st))"

section \<open>Removal and look-up\<close>

definition remove_body :: "dmsRecordID \<Rightarrow> dmsFile \<Rightarrow> int res \<times> dmsFile" where
  "remove_body rid st =
     (case pageToOffset st (r_pageID rid) of None \<Rightarrow> (Ret EDB_SYS, st)
      | Some p \<Rightarrow> let (rc, s) = searchSlot (vmem st) p (r_slotID rid) in
          if rc \<noteq> 0 then (Ret rc, st)
          else if s = DMS_SLOT_EMPTY then (Ret EDB_SYS, st)
          else let m = drop_record (vmem st) p (r_slotID rid) s in
            (Ret EDB_OK, updateFreeSpace p (s32 (rec_size m p s)) (r_pageID rid) (st\<lparr>vmem := m\<rparr>)))"

definition dms_remove :: "tid \<Rightarrow> dmsRecordID \<Rightarrow> dmsFile \<Rightarrow> int res \<times> dmsFile" where
  "dms_remove t rid st = (case s_get t (dlatch st) of
     Ret l \<Rightarrow> unlatched t (remove_body rid (st\<lparr>dlatch := l\<rparr>)) | _ \<Rightarrow> (Wait, st))"

text \<open>The record is constructed in place and copied; the construction may throw.\<close>

definition find_body :: "dmsRecordID \<Rightarrow> dmsFile \<Rightarrow> (int \<times> u8 list option) res" where
  "find_body rid st =
     (case pageToOffset st (r_pageID rid) of None \<Rightarrow> Ret (EDB_SYS, None)
      | Some p \<Rightarrow> let (rc, s) = searchSlot (vmem st) p (r_slotID rid) in
          if rc \<noteq> 0 then Ret (rc, None)
          else if s = DMS_SLOT_EMPTY then Ret (EDB_SYS, None)
          else if rec_flag (vmem st) p s = DMS_RECORD_FLAG_DROPPED then Ret (EDB_SYS, None)
          else let sz = s32 (rd32 (vmem st) (p + s + sizeof_dmsRecord)) in
            if 0 < sz \<and> sz \<le> BSONObjMaxInternalSize
            then Ret (EDB_OK, Some (rdb (vmem st) (p + s + sizeof_dmsRecord) (nat sz)))
            else Raise 10334)"

definition dms_find :: "tid \<Rightarrow> dmsRecordID \<Rightarrow> dmsFile \<Rightarrow> (int \<times> u8 list option) res \<times> dmsFile" where
  "dms_find t rid st = (case s_get_shared t (dlatch st) of
     Ret l \<Rightarrow> let st = st\<lparr>dlatch := l\<rparr> in
       (case find_body rid st of
          Ret x \<Rightarrow> (case s_release_shared t l of Ret l' \<Rightarrow> (Ret x, st\<lparr>dlatch := l'\<rparr>) | _ \<Rightarrow> (Stuck, st))
        | r \<Rightarrow> (r, st))
   | _ \<Rightarrow> (Wait, st))"

section \<open>Opening a file\<close>

definition file_header :: "u8 list" where
  "file_header = DMS_HEADER_EYECATCHER @ le32 0 @ le32 0 @ le32 0"

definition initNew :: "tid \<Rightarrow> ext_env \<Rightarrow> dmsFile \<Rightarrow> (int \<times> dmsFile) res" where
  "initNew t env st =
     bnd (extendFile DMS_FILE_HEADER_SIZE (x_writes env) st) (\<lambda>(rc, st). if rc \<noteq> 0 then Ret (rc, st) else
     bnd (mmap_map t 0 DMS_FILE_HEADER_SIZE (x_map_stat env) (x_map env) st) (\<lambda>((rc, a), st).
     if rc \<noteq> 0 then Ret (rc, st) else
     case a of None \<Rightarrow> Stuck | Some h \<Rightarrow>
       Ret (EDB_OK, st\<lparr>header := Some h, vmem := blit (vmem st) h file_header\<rparr>)))"

text \<open>
  \<open>_loadData\<close>: the offset of segment \<open>i\<close> is computed in \<open>int\<close>, and the page ids entered in the
  free space map are \<open>k\<close>, the number of the page within its segment.
\<close>

definition load_pages :: "nat \<Rightarrow> dmsFile \<Rightarrow> dmsFile" where
  "load_pages base st = st\<lparr>body := body st @ [base],
     freeSpaceMap := fold (\<lambda>k fsm. fsm_insert (freeSpace (vmem st) (base + k * DMS_PAGESIZE)) k fsm)
       [0..<DMS_PAGES_PER_SEGMENT] (freeSpaceMap st)\<rparr>"

definition segment_offset :: "int \<Rightarrow> nat" where
  "segment_offset i = to_u64 (i32 (int DMS_FILE_HEADER_SIZE + i32 (int DMS_FILE_SEGMENT_SIZE * i)))"

fun load_segments :: "tid \<Rightarrow> nat \<Rightarrow> nat \<Rightarrow> (nat \<Rightarrow> int option \<times> (nat + int)) \<Rightarrow> dmsFile \<Rightarrow> (int \<times> dmsFile) res" where
  "load_segments t 0 i envs st = Ret (EDB_OK, st)"
| "load_segments t (Suc n) i envs st =
     bnd (mmap_map t (segment_offset (int i)) DMS_FILE_SEGMENT_SIZE (fst (envs i)) (snd (envs i)) st)
       (\<lambda>((rc, a), st). if rc \<noteq> 0 then Ret (rc, st) else
     case a of None \<Rightarrow> Stuck | Some base \<Rightarrow> load_segments t n (Suc i) envs (load_pages base st))"

definition loadData :: "tid \<Rightarrow> int option \<times> (nat + int) \<Rightarrow> (nat \<Rightarrow> int option \<times> (nat + int)) \<Rightarrow>
    dmsFile \<Rightarrow> (int \<times> dmsFile) res" where
  "loadData t henv envs st =
     bnd (case header st of Some h \<Rightarrow> Ret (EDB_OK, st)
          | None \<Rightarrow> bnd (mmap_map t 0 DMS_FILE_HEADER_SIZE (fst henv) (snd henv) st)
              (\<lambda>((rc, a), st). Ret (rc, if rc = 0 then st\<lparr>header := a\<rparr> else st))) (\<lambda>(rc, st).
     if rc \<noteq> 0 then Ret (rc, st) else
     case header st of None \<Rightarrow> Stuck | Some h \<Rightarrow>
       let numPage = s32 (rd32 (vmem st) (h + 4)) in
       if numPage mod int DMS_PAGES_PER_SEGMENT \<noteq> 0 then Ret (EDB_SYS, st)
       else load_segments t (nat (numPage div int DMS_PAGES_PER_SEGMENT)) 0 envs st)"

text \<open>
  \<open>initialize\<close>: a file of size 0 is given a header and asked for its size again; \<open>tries\<close> lists the
  outcomes of \<open>fstat\<close> with the environment of the \<open>_initNew\<close> that may follow.
\<close>

fun init_loop :: "tid \<Rightarrow> (int option \<times> ext_env) list \<Rightarrow> int option \<times> (nat + int) \<Rightarrow>
    (nat \<Rightarrow> int option \<times> (nat + int)) \<Rightarrow> dmsFile \<Rightarrow> (int \<times> dmsFile) res" where
  "init_loop t [] henv envs st = Wait"
| "init_loop t ((stat, env) # tries) henv envs st =
     (let (rc, offset) = fop_getSize stat st in
      if rc \<noteq> 0 then Ret (rc, st)
      else if offset = 0 then bnd (initNew t env st) (\<lambda>(rc, st).
        if rc \<noteq> 0 then Ret (rc, st) else init_loop t tries henv envs st)
      else loadData t henv envs st)"

definition dms_initialize :: "tid \<Rightarrow> bool \<Rightarrow> (int \<times> int) list \<Rightarrow> (int option \<times> ext_env) list \<Rightarrow>
    int option \<times> (nat + int) \<Rightarrow> (nat \<Rightarrow> int option \<times> (nat + int)) \<Rightarrow> dmsFile \<Rightarrow> (int \<times> dmsFile) res" where
  "dms_initialize t dup_ok opens tries henv envs st =
     (if \<not> dup_ok then Ret (EDB_OOM, st) else
      bnd (mmap_open t opens st) (\<lambda>(rc, st). if rc \<noteq> 0 then Ret (rc, st) else
      init_loop t tries henv envs st))"

end
