(* ===== verification/DmsInv.thy ===== *)
theory DmsInv
  imports DmsFile
begin

text \<open>
  The state of a data file as a map from record ids to documents: the invariant that ties the
  pages, the free space map and the segments together, and what every operation does to the map.
\<close>

section \<open>The free space map\<close>

lemma mset_fsm_insert [simp]: "mset (fsm_insert k v es) = add_mset (k, v) (mset es)"
  by (induction es) auto

lemma mset_fsm_erase: "(k, v) \<in> set es \<Longrightarrow> mset (fsm_erase k v es) = mset es - {#(k, v)#}"
  by (induction es) (auto simp: prod_eq_iff)

lemma set_fsm_insert [simp]: "set (fsm_insert k v es) = insert (k, v) (set es)"
  by (induction es) auto

lemma set_fsm_erase: "set (fsm_erase k v es) \<subseteq> set es"
  by (induction es) auto

lemma sorted_fsm_insert: "sorted (map fst es) \<Longrightarrow> sorted (map fst (fsm_insert k v es))"
  by (induction es) auto

lemma sorted_fsm_erase: "sorted (map fst es) \<Longrightarrow> sorted (map fst (fsm_erase k v es))"
proof (induction es)
  case (Cons e es)
  then show ?case
    using set_fsm_erase [of k v es] by auto
qed simp

lemma fsm_upper_bound_Some: "fsm_upper_bound k es = Some v \<Longrightarrow> \<exists>k'. k < k' \<and> (k', v) \<in> set es"
proof (induction es)
  case (Cons e es)
  then show ?case
    by (cases e) (auto split: if_splits)
qed simp

lemma fsm_upper_bound_None: "fsm_upper_bound k es = None \<longleftrightarrow> (\<forall>e \<in> set es. fst e \<le> k)"
  by (induction es) auto

section \<open>The invariant of the data file\<close>

definition seg_disjoint :: "nat list \<Rightarrow> bool" where
  "seg_disjoint segs \<longleftrightarrow> (\<forall>i < length segs. \<forall>j < length segs. i \<noteq> j \<longrightarrow>
     segs ! i + DMS_FILE_SEGMENT_SIZE \<le> segs ! j \<or> segs ! j + DMS_FILE_SEGMENT_SIZE \<le> segs ! i)"

definition npages :: "nat list \<Rightarrow> nat" where
  "npages segs = 32 * length segs"

definition fsm_of :: "mem \<Rightarrow> nat list \<Rightarrow> (nat \<times> nat) multiset" where
  "fsm_of m segs = mset (map (\<lambda>k. (freeSpace m (page_addr segs k), k)) [0..<npages segs])"

text \<open>A stored document starts with its own length, which the BSON constructor accepts.\<close>

definition rec_valid :: "u8 list \<Rightarrow> bool" where
  "rec_valid bs \<longleftrightarrow> 4 \<le> length bs \<and> le_value (take 4 bs) = length bs \<and>
     int (length bs) \<le> BSONObjMaxInternalSize"

definition pages_inv :: "mem \<Rightarrow> nat list \<Rightarrow> bool" where
  "pages_inv m segs \<longleftrightarrow> (\<forall>k < npages segs. page_inv m (page_addr segs k) \<and>
     (\<forall>bs. Some bs \<in> set (page_recs m (page_addr segs k)) \<longrightarrow> rec_valid bs))"

definition dms_inv :: "dmsFile \<Rightarrow> bool" where
  "dms_inv st \<longleftrightarrow> npages (body st) < 4294967295 \<and> seg_disjoint (body st) \<and>
     pages_inv (vmem st) (body st) \<and> sorted (map fst (freeSpaceMap st)) \<and>
     mset (freeSpaceMap st) = fsm_of (vmem st) (body st)"

text \<open>The documents by record id.\<close>

definition dms_abs :: "dmsFile \<Rightarrow> nat \<times> nat \<Rightarrow> u8 list option" where
  "dms_abs st = (\<lambda>(pid, sid). if pid < npages (body st) then
     (let rs = page_recs (vmem st) (page_addr (body st) pid) in
      if sid < length rs then rs ! sid else None) else None)"

section \<open>Pages of segments\<close>

lemma getNumPages_inv: "npages (body st) < 4294967295 \<Longrightarrow> getNumPages st = npages (body st)"
  by (simp add: getNumPages_def getNumSegments_def npages_def layout_simps)

lemma pageToOffset_inv:
  "npages (body st) < 4294967295 \<Longrightarrow> pageToOffset st pid =
     (if pid < npages (body st) then Some (page_addr (body st) pid) else None)"
  by (simp add: pageToOffset_def getNumPages_inv)

lemma page_disjoint:
  assumes "seg_disjoint segs" "j < npages segs" "k < npages segs" "j \<noteq> k"
  shows "page_addr segs j + DMS_PAGESIZE \<le> page_addr segs k \<or>
    page_addr segs k + DMS_PAGESIZE \<le> page_addr segs j"
proof (cases "j div 32 = k div 32")
  case True
  then have "j mod 32 \<noteq> k mod 32"
    using assms(4) by (metis div_mult_mod_eq)
  then show ?thesis
    using True by (auto simp: page_addr_def layout_simps)
next
  case False
  have "j div 32 < length segs" "k div 32 < length segs"
    using assms(2,3) by (simp_all add: npages_def less_mult_imp_div_less mult.commute)
  then have "segs ! (j div 32) + 134217728 \<le> segs ! (k div 32) \<or>
      segs ! (k div 32) + 134217728 \<le> segs ! (j div 32)"
    using assms(1) False by (simp add: seg_disjoint_def layout_simps)
  moreover have "j mod 32 \<le> 31" "k mod 32 \<le> 31"
    by simp_all
  ultimately show ?thesis
    unfolding page_addr_def layout_simps by linarith
qed

lemma page_agree:
  assumes "seg_disjoint segs" "j < npages segs" "k < npages segs" "j \<noteq> k"
    and "\<And>x. x < page_addr segs k \<or> page_addr segs k + DMS_PAGESIZE \<le> x \<Longrightarrow> m' x = m x"
  shows "agree m m' (page_addr segs j) (page_addr segs j + DMS_PAGESIZE)"
  using page_disjoint [OF assms(1-4)] assms(5) by (fastforce simp: agree_def)

lemma mset_map_upt_update:
  assumes "k < n" "\<And>j. j < n \<Longrightarrow> j \<noteq> k \<Longrightarrow> f' j = f j"
  shows "mset (map f' [0..<n]) = add_mset (f' k) (mset (map f [0..<n]) - {#f k#})"
proof -
  have split: "[0..<n] = [0..<k] @ k # [Suc k..<n]"
    using assms(1) by (metis less_imp_le_nat upt_add_eq_append upt_conv_Cons le_add_diff_inverse zero_le)
  have eq: "map f' [0..<k] = map f [0..<k]" "map f' [Suc k..<n] = map f [Suc k..<n]"
    using assms by auto
  have ms: "A + add_mset x B = add_mset x (A + add_mset y B - {#y#})" for A B and x y :: 'a
    by simp
  show ?thesis
    by (simp only: split map_append list.map mset_append mset.simps eq) (rule ms)
qed

text \<open>
  One page changes, with its invariant kept and its entry in the free space map replaced: the
  whole invariant is kept, and only the documents of that page may differ.
\<close>

lemma page_update:
  assumes inv: "dms_inv st" and pid: "pid < npages (body st)" and p: "p = page_addr (body st) pid"
    and out: "\<And>x. x < p \<or> p + DMS_PAGESIZE \<le> x \<Longrightarrow> m' x = vmem st x"
    and pinv: "page_inv m' p" "\<And>bs. Some bs \<in> set (page_recs m' p) \<Longrightarrow> rec_valid bs"
    and fsm: "sorted (map fst fsm')" "mset fsm' = add_mset (freeSpace m' p, pid)
        (mset (freeSpaceMap st) - {#(freeSpace (vmem st) p, pid)#})"
    and st': "body st' = body st" "vmem st' = m'" "freeSpaceMap st' = fsm'"
  shows "dms_inv st' \<and> dms_abs st' = (\<lambda>(a, b). if a = pid then
     (let rs = page_recs m' p in if b < length rs then rs ! b else None) else dms_abs st (a, b))"
proof -
  let ?B = "body st"
  have dj: "seg_disjoint ?B" and pg: "pages_inv (vmem st) ?B"
    using inv by (simp_all add: dms_inv_def)
  have other: "page_inv m' (page_addr ?B j) \<and> page_recs m' (page_addr ?B j) = page_recs (vmem st) (page_addr ?B j)
      \<and> freeSpace m' (page_addr ?B j) = freeSpace (vmem st) (page_addr ?B j)"
    if "j < npages ?B" "j \<noteq> pid" for j
  proof (rule page_cong)
    show "page_inv (vmem st) (page_addr ?B j)"
      using pg that(1) by (simp add: pages_inv_def)
    show "agree (vmem st) m' (page_addr ?B j) (page_addr ?B j + DMS_PAGESIZE)"
      using out p by (intro page_agree [OF dj that(1) pid that(2)]) simp
  qed
  have "pages_inv m' ?B"
    using other pinv pg p by (metis pages_inv_def)
  moreover have "mset fsm' = fsm_of m' ?B"
    unfolding fsm(2) fsm_of_def
    using inv other p
    by (subst mset_map_upt_update [OF pid, of _ "\<lambda>k. (freeSpace (vmem st) (page_addr ?B k), k)"])
       (auto simp: dms_inv_def fsm_of_def)
  ultimately have "dms_inv st'"
    using inv st' fsm(1) by (simp add: dms_inv_def)
  moreover have "dms_abs st' = (\<lambda>(a, b). if a = pid then
     (let rs = page_recs m' p in if b < length rs then rs ! b else None) else dms_abs st (a, b))"
    using pid p other by (auto simp: dms_abs_def st' Let_def fun_eq_iff)
  ultimately show ?thesis
    by blast
qed

lemma fsm_entry:
  "dms_inv st \<Longrightarrow> pid < npages (body st) \<Longrightarrow>
     (freeSpace (vmem st) (page_addr (body st) pid), pid) \<in> set (freeSpaceMap st)"
proof -
  assume "dms_inv st" "pid < npages (body st)"
  then have "(freeSpace (vmem st) (page_addr (body st) pid), pid) \<in># mset (freeSpaceMap st)"
    by (simp add: dms_inv_def fsm_of_def)
  then show ?thesis
    by simp
qed

lemma fsm_entry_unique:
  "dms_inv st \<Longrightarrow> (k, pid) \<in> set (freeSpaceMap st) \<Longrightarrow>
     pid < npages (body st) \<and> k = freeSpace (vmem st) (page_addr (body st) pid)"
proof -
  assume "dms_inv st" "(k, pid) \<in> set (freeSpaceMap st)"
  then have "(k, pid) \<in># fsm_of (vmem st) (body st)"
    by (simp add: dms_inv_def flip: set_mset_mset)
  then show ?thesis
    by (auto simp: fsm_of_def)
qed

text \<open>The page found has strictly more free bytes than asked for.\<close>

lemma findPage_spec:
  assumes "dms_inv st" "n < 4294967296" "findPage n st \<noteq> DMS_INVALID_PAGEID"
  shows "findPage n st < npages (body st) \<and>
    n < freeSpace (vmem st) (page_addr (body st) (findPage n st))"
  using assms fsm_upper_bound_Some [of n "freeSpaceMap st"] fsm_entry_unique [OF assms(1)]
  by (auto simp: findPage_def split: option.splits)

lemma findPage_none:
  assumes "dms_inv st" "n < 4294967296"
  shows "findPage n st = DMS_INVALID_PAGEID \<longleftrightarrow>
    (\<forall>k < npages (body st). freeSpace (vmem st) (page_addr (body st) k) \<le> n)"
proof -
  have "findPage n st = DMS_INVALID_PAGEID \<longleftrightarrow> fsm_upper_bound n (freeSpaceMap st) = None"
  proof (cases "fsm_upper_bound n (freeSpaceMap st)")
    case (Some v)
    then obtain k where "(k, v) \<in> set (freeSpaceMap st)"
      using fsm_upper_bound_Some by blast
    then have "v < npages (body st)"
      using fsm_entry_unique [OF assms(1)] by blast
    moreover have "npages (body st) < 4294967295"
      using assms(1) by (simp add: dms_inv_def)
    ultimately show ?thesis
      using Some assms(2) by (simp add: findPage_def layout_simps)
  qed (use assms(2) in \<open>simp add: findPage_def\<close>)
  also have "\<dots> \<longleftrightarrow> (\<forall>k < npages (body st). freeSpace (vmem st) (page_addr (body st) k) \<le> n)"
    unfolding fsm_upper_bound_None
  proof safe
    fix k
    assume "\<forall>e \<in> set (freeSpaceMap st). fst e \<le> n" "k < npages (body st)"
    then show "freeSpace (vmem st) (page_addr (body st) k) \<le> n"
      using fsm_entry [OF assms(1), of k] by (auto dest: bspec)
  next
    fix e
    assume "\<forall>k < npages (body st). freeSpace (vmem st) (page_addr (body st) k) \<le> n"
      "e \<in> set (freeSpaceMap st)"
    then show "fst e \<le> n"
      using fsm_entry_unique [OF assms(1), of "fst e" "snd e"] by simp
  qed
  finally show ?thesis .
qed

end
