(* ===== verification/DmsSpec.thy ===== *)
theory DmsSpec
  imports DmsInv
begin

text \<open>
  The operations of the data file against the map \<open>dms_abs\<close>: insertion into a page, removal and
  look-up keep the invariant, do to the map what they should, and give the latch back.
\<close>

section \<open>The counter and its entry\<close>

lemma updateFreeSpace_fields [simp]:
  "body (updateFreeSpace p c pid st) = body st" "dlatch (updateFreeSpace p c pid st) = dlatch st"
  "extendMutex (updateFreeSpace p c pid st) = extendMutex st"
  "header (updateFreeSpace p c pid st) = header st"
  by (simp_all add: updateFreeSpace_def Let_def)

text \<open>
  A page was changed except for its counter, and the counter is then moved by \<open>c\<close>: this is where
  insertion and removal meet.
\<close>

lemma updateFreeSpace_page:
  assumes inv: "dms_inv st" and pid: "pid < npages (body st)" and p: "p = page_addr (body st) pid"
    and out: "\<And>x. x < p \<or> p + DMS_PAGESIZE \<le> x \<Longrightarrow> m1 x = vmem st x"
    and pre: "page_pre m1 p" "\<And>bs. Some bs \<in> set (page_recs m1 p) \<Longrightarrow> rec_valid bs"
    and fs: "freeSpace m1 p = freeSpace (vmem st) p"
      "int (freeSpace m1 p) + c + int (slotOffset m1 p + live_size m1 p (slots m1 p)) = int DMS_PAGESIZE"
      "0 \<le> int (freeSpace m1 p) + c"
  defines "st' \<equiv> updateFreeSpace p c pid (st\<lparr>vmem := m1\<rparr>)"
  shows "dms_inv st'" "dms_abs st' = (\<lambda>(a, b). if a = pid then
     (let rs = page_recs m1 p in if b < length rs then rs ! b else None) else dms_abs st (a, b))"
proof -
  define v where "v = nat (int (freeSpace m1 p) + c)"
  have v: "v + slotOffset m1 p + live_size m1 p (slots m1 p) = DMS_PAGESIZE"
    using fs(2,3) by (simp add: v_def)
  then have vb: "v < 4294967296"
    by (simp add: layout_simps)
  have "to_u32 (int (freeSpace m1 p) + c) = v"
    using fs(3) vb by (simp add: v_def to_u32_nat)
  then have st': "st' = st\<lparr>vmem := set_freeSpace m1 p v,
      freeSpaceMap := fsm_insert v pid (fsm_erase (freeSpace (vmem st) p) pid (freeSpaceMap st))\<rparr>"
    by (simp add: st'_def updateFreeSpace_def fs(1))
  note sf = set_freeSpace_inv [OF pre(1) v]
  have entry: "(freeSpace (vmem st) p, pid) \<in> set (freeSpaceMap st)"
    using fsm_entry [OF inv pid] p by simp
  have "dms_inv st' \<and> dms_abs st' = (\<lambda>(a, b). if a = pid then
     (let rs = page_recs (set_freeSpace m1 p v) p in if b < length rs then rs ! b else None)
       else dms_abs st (a, b))"
  proof (rule page_update [OF inv pid p])
    show "set_freeSpace m1 p v x = vmem st x" if "x < p \<or> p + DMS_PAGESIZE \<le> x" for x
      using out [OF that] that by (auto simp: set_freeSpace_def wr32_out layout_simps)
    show "page_inv (set_freeSpace m1 p v) p"
      using sf by simp
    show "rec_valid bs" if "Some bs \<in> set (page_recs (set_freeSpace m1 p v) p)" for bs
      using that sf pre(2) by simp
    show "sorted (map fst (fsm_insert v pid (fsm_erase (freeSpace (vmem st) p) pid (freeSpaceMap st))))"
      using inv by (simp add: sorted_fsm_insert sorted_fsm_erase dms_inv_def)
    show "mset (fsm_insert v pid (fsm_erase (freeSpace (vmem st) p) pid (freeSpaceMap st))) =
        add_mset (freeSpace (set_freeSpace m1 p v) p, pid)
          (mset (freeSpaceMap st) - {#(freeSpace (vmem st) p, pid)#})"
      using vb by (simp add: mset_fsm_erase [OF entry] set_freeSpace_fields)
  qed (simp_all add: st')
  then show "dms_inv st'" "dms_abs st' = (\<lambda>(a, b). if a = pid then
     (let rs = page_recs m1 p in if b < length rs then rs ! b else None) else dms_abs st (a, b))"
    unfolding conjunct2 [OF sf] by blast+
qed

section \<open>Insertion into a page\<close>

text \<open>With room for the record there is nothing to compact; compaction never makes room.\<close>

lemma room_no_recover:
  assumes "page_inv m p" "n \<le> 4294967" "\<not> no_room m p n"
  shows "\<not> needs_recover m p n"
proof -
  note bd = page_inv_bounds [OF assms(1)]
  have "u32_add (slotOffset m p) n = slotOffset m p + n"
    using bd assms(2) by (intro u32_add_small) linarith
  then show ?thesis
    using bd assms(3) by (auto simp: needs_recover_def no_room_def layout_simps)
qed

lemma recover_no_room:
  assumes "page_inv m p" "n \<le> 4294967295 - 4194304" "needs_recover m p n"
  shows "no_room (recoverSpace m p) p n"
proof -
  note bd = page_inv_bounds [OF assms(1)] and r = recoverSpace_spec [OF assms(1)]
  have "u32_add (slotOffset m p) n = slotOffset m p + n"
    using bd assms(2) by (intro u32_add_small) linarith
  then show ?thesis
    using bd assms(3) r by (auto simp: needs_recover_def no_room_def layout_simps)
qed

lemma page_of_inv:
  assumes "dms_inv st" "pid < npages (body st)"
  shows "page_inv (vmem st) (page_addr (body st) pid)"
    "pageToOffset st pid = Some (page_addr (body st) pid)"
    "Some bs \<in> set (page_recs (vmem st) (page_addr (body st) pid)) \<Longrightarrow> rec_valid bs"
  using assms pageToOffset_inv [of st pid] by (auto simp: dms_inv_def pages_inv_def)

lemma length_page_recs [simp]: "length (page_recs m p) = numSlots m p"
  by (simp add: page_recs_def slots_def)

lemma page_recs_nth: "i < numSlots m p \<Longrightarrow> page_recs m p ! i = slot_rec m p (slot m p i)"
  by (simp add: page_recs_def slots_def)

lemma insert_page_ok:
  assumes inv: "dms_inv st" and pid: "pid < npages (body st)" and p: "p = page_addr (body st) pid"
    and room: "\<not> no_room (vmem st) p (length bs)" and bs: "rec_valid bs"
  defines "sid \<equiv> numSlots (vmem st) p"
  shows "\<exists>st' a. insert_page pid bs (int (length bs)) st =
      (Ret (EDB_OK, Some (\<lparr>r_pageID = pid, r_slotID = sid\<rparr>, a)), st') \<and> dms_inv st' \<and>
      dms_abs st' = (dms_abs st)((pid, sid) \<mapsto> bs) \<and> dms_abs st (pid, sid) = None \<and>
      rdb (vmem st') a (length bs) = bs \<and> body st' = body st \<and> dlatch st' = dlatch st \<and>
      extendMutex st' = extendMutex st \<and> header st' = header st"
proof -
  let ?m = "vmem st" and ?n = "length bs"
  note pg = page_of_inv [OF inv pid, folded p]
  note sp = put_record_spec [OF pg(1) room] and bd = page_inv_bounds [OF pg(1)]
  have n: "bs \<noteq> []" "4 \<le> ?n" "int ?n \<le> BSONObjMaxInternalSize" "?n \<le> 4194304"
    using bs room bd by (auto simp: rec_valid_def no_room_def layout_simps)
  have eye: "rdb ?m p 4 = DMS_PAGE_EYECATCHER"
    using pg(1) by (simp add: page_inv_def)
  define c where "c = - int (?n + sizeof_SLOT + sizeof_dmsRecord)"
  define st' where "st' = updateFreeSpace p c pid (st\<lparr>vmem := put_record ?m p bs\<rparr>)"
  define a where "a = p + record_offset ?m p ?n + sizeof_dmsRecord"
  have run: "insert_page pid bs (int ?n) st =
      (Ret (EDB_OK, Some (\<lparr>r_pageID = pid, r_slotID = sid\<rparr>, a)), st')"
    using room_no_recover [OF pg(1) _ room] room n length_0_conv [of bs]
    by (simp add: insert_page_def pg(2) eye Let_def sid_def st'_def a_def c_def)
  have acc: "freeSpace ?m p + slotOffset ?m p + live_size ?m p (slots ?m p) = DMS_PAGESIZE"
    using pg(1) by (simp add: page_inv_def)
  have fs: "?n + 12 \<le> freeSpace ?m p"
    using room by (simp add: no_room_def layout_simps)
  have st'_ok: "dms_inv st'" "dms_abs st' = (\<lambda>(a, b). if a = pid then
     (let rs = page_recs (put_record ?m p bs) p in if b < length rs then rs ! b else None)
       else dms_abs st (a, b))"
    unfolding st'_def
    by (rule updateFreeSpace_page [OF inv pid p], use sp pg(3) bs acc fs in \<open>auto simp: c_def layout_simps\<close>)+
  have "dms_abs st' = (dms_abs st)((pid, sid) \<mapsto> bs)"
    unfolding st'_ok(2) using sp(2) pid p
    by (auto simp: fun_eq_iff dms_abs_def sid_def Let_def nth_append sp(2))
  moreover have "dms_abs st (pid, sid) = None"
    using p by (simp add: dms_abs_def sid_def)
  moreover have "rdb (vmem st') a ?n = bs"
  proof -
    have "rec_bytes (put_record ?m p bs) p (record_offset ?m p ?n) = bs"
    proof -
      have "page_recs (put_record ?m p bs) p ! sid = Some bs"
        using sp(2) by (simp add: nth_append sid_def)
      then have "slot_rec (put_record ?m p bs) p (slot (put_record ?m p bs) p sid) = Some bs"
        using sp(5) by (simp add: page_recs_nth sid_def)
      then show ?thesis
        using sp(8,9) by (simp add: slot_rec_def sid_def split: if_splits)
    qed
    then have "rdb (put_record ?m p bs) a ?n = bs"
      unfolding rec_bytes_def a_def by (metis length_rdb)
    moreover have "p + 24 \<le> a"
      using sp(9) bd fs room by (simp add: a_def layout_simps no_room_def)
    ultimately show ?thesis
      unfolding st'_def updateFreeSpace_def set_freeSpace_def Let_def by (simp add: mem_simps)
  qed
  ultimately show ?thesis
    using run st'_ok(1) by (auto simp: st'_def)
qed

text \<open>Without room the insertion answers \<open>EDB_SYS\<close>; it may have compacted, the map is the same.\<close>

lemma recover_page:
  assumes inv: "dms_inv st" and pid: "pid < npages (body st)" and p: "p = page_addr (body st) pid"
  shows "dms_inv (st\<lparr>vmem := recoverSpace (vmem st) p\<rparr>) \<and>
    dms_abs (st\<lparr>vmem := recoverSpace (vmem st) p\<rparr>) = dms_abs st"
proof -
  note pg = page_of_inv [OF inv pid, folded p]
  note r = recoverSpace_spec [OF pg(1)]
  have entry: "(freeSpace (vmem st) p, pid) \<in># mset (freeSpaceMap st)"
    using fsm_entry [OF inv pid] p by simp
  have "dms_inv (st\<lparr>vmem := recoverSpace (vmem st) p\<rparr>) \<and>
    dms_abs (st\<lparr>vmem := recoverSpace (vmem st) p\<rparr>) = (\<lambda>(a, b). if a = pid then
     (let rs = page_recs (recoverSpace (vmem st) p) p in if b < length rs then rs ! b else None)
       else dms_abs st (a, b))"
    by (rule page_update [OF inv pid p, of "recoverSpace (vmem st) p" "freeSpaceMap st"])
       (use r pg(3) inv entry in \<open>auto simp: dms_inv_def\<close>)
  moreover have "dms_abs st (pid, b) =
      (let rs = page_recs (recoverSpace (vmem st) p) p in if b < length rs then rs ! b else None)" for b
    using pid p r by (simp add: dms_abs_def)
  ultimately show ?thesis
    by (auto simp: fun_eq_iff)
qed

lemma insert_page_no_room:
  assumes inv: "dms_inv st" and pid: "pid < npages (body st)" and p: "p = page_addr (body st) pid"
    and room: "no_room (vmem st) p (length bs)" and n: "length bs \<le> DMS_MAX_RECORD"
  shows "\<exists>st'. insert_page pid bs sz st = (Ret (EDB_SYS, None), st') \<and> dms_inv st' \<and>
      dms_abs st' = dms_abs st \<and> body st' = body st \<and> dlatch st' = dlatch st \<and>
      extendMutex st' = extendMutex st \<and> header st' = header st"
proof -
  note pg = page_of_inv [OF inv pid, folded p]
  have eye: "rdb (vmem st) p 4 = DMS_PAGE_EYECATCHER"
    using pg(1) by (simp add: page_inv_def)
  show ?thesis
  proof (cases "needs_recover (vmem st) p (length bs)")
    case True
    then have "no_room (recoverSpace (vmem st) p) p (length bs)"
      using n by (intro recover_no_room [OF pg(1)]) (simp_all add: layout_simps)
    with True eye recover_page [OF inv pid p] show ?thesis
      by (simp add: insert_page_def pg(2) Let_def)
  next
    case False
    with eye room inv show ?thesis
      by (simp add: insert_page_def pg(2) Let_def)
  qed
qed

section \<open>The latch\<close>

lemma latch_inv [simp]:
  "dms_inv (st\<lparr>dlatch := l\<rparr>) = dms_inv st" "dms_abs (st\<lparr>dlatch := l\<rparr>) = dms_abs st"
  "dms_inv (st\<lparr>extendMutex := x\<rparr>) = dms_inv st" "dms_abs (st\<lparr>extendMutex := x\<rparr>) = dms_abs st"
  by (auto simp: dms_inv_def dms_abs_def fun_eq_iff)

text \<open>Getting a free latch and giving it back at the end of a body that returns.\<close>

lemma section_get:
  assumes "s_free (dlatch st)"
  obtains l where "s_get t (dlatch st) = Ret l" "s_release t l = Ret (dlatch st)"
  using sl.get_free [OF assms] by blast

lemma unlatched_Ret:
  "s_release t (dlatch st) = Ret l \<Longrightarrow> unlatched t (Ret x, st) = (Ret x, st\<lparr>dlatch := l\<rparr>)"
  by (simp add: unlatched_def)

section \<open>Removal\<close>

lemma dms_abs_page:
  assumes "dms_inv st" "pid < npages (body st)" "p = page_addr (body st) pid" "dms_abs st (pid, sid) = Some bs"
  shows "sid < numSlots (vmem st) p" "slot (vmem st) p sid \<noteq> DMS_SLOT_EMPTY"
    "rec_bytes (vmem st) p (slot (vmem st) p sid) = bs"
  using assms by (auto simp: dms_abs_def Let_def page_recs_nth slot_rec_def split: if_splits)

text \<open>A live slot points at a record of the page, whose size word counts its header too.\<close>

lemma live_slot:
  assumes "page_inv m p" "sid < numSlots m p" "slot m p sid = s" "s \<noteq> DMS_SLOT_EMPTY"
  shows "8 \<le> rec_size m p s" "freeOffset m p \<le> s" "s + rec_size m p s \<le> 4194304"
    "rec_flag m p s = DMS_RECORD_FLAG_NORMAL" "rec_size m p s = length (rec_bytes m p s) + 8"
proof -
  have "packed m p (slots m p) DMS_PAGESIZE False (freeOffset m p)" "s \<in> set (slots m p)"
    using assms by (auto simp: page_inv_def slots_def)
  from packed_slot [OF this assms(4)] show "8 \<le> rec_size m p s" "freeOffset m p \<le> s"
      "s + rec_size m p s \<le> 4194304" "rec_flag m p s = DMS_RECORD_FLAG_NORMAL"
      "rec_size m p s = length (rec_bytes m p s) + 8"
    by (simp_all add: layout_simps rec_bytes_def)
qed

lemma remove_body_ok:
  assumes inv: "dms_inv st" and ab: "dms_abs st (r_pageID rid, r_slotID rid) = Some bs"
  shows "\<exists>st'. remove_body rid st = (Ret EDB_OK, st') \<and> dms_inv st' \<and>
    dms_abs st' = (dms_abs st)((r_pageID rid, r_slotID rid) := None) \<and>
    dlatch st' = dlatch st \<and> extendMutex st' = extendMutex st \<and> body st' = body st"
proof -
  let ?m = "vmem st" and ?pid = "r_pageID rid" and ?sid = "r_slotID rid"
  have pid: "?pid < npages (body st)"
    using ab by (simp add: dms_abs_def split: if_splits)
  define p s where "p = page_addr (body st) ?pid" and "s = slot ?m p ?sid"
  note pg = page_of_inv [OF inv pid, folded p_def]
  note ds = dms_abs_page [OF inv pid p_def ab, folded s_def]
  note lv = live_slot [OF pg(1) ds(1) s_def [symmetric] ds(2)]
  note dr = drop_record_spec [OF pg(1) ds(1) s_def [symmetric] ds(2)]
  let ?m1 = "drop_record ?m p ?sid s"
  define st' where "st' = updateFreeSpace p (int (rec_size ?m p s)) ?pid (st\<lparr>vmem := ?m1\<rparr>)"
  have "s32 (rec_size ?m1 p s) = int (rec_size ?m p s)"
    using lv(3) dr(8) by simp
  then have run: "remove_body rid st = (Ret EDB_OK, st')"
    using ds(1,2) pg(2) by (simp add: remove_body_def searchSlot_def Let_def edb_codes st'_def flip: s_def)
  have acc: "freeSpace ?m p + slotOffset ?m p + live_size ?m p (slots ?m p) = DMS_PAGESIZE"
    using pg(1) by (simp add: page_inv_def)
  have ok: "dms_inv st'" "dms_abs st' = (\<lambda>(a, b). if a = ?pid then
     (let rs = page_recs ?m1 p in if b < length rs then rs ! b else None) else dms_abs st (a, b))"
    unfolding st'_def
    by (rule updateFreeSpace_page [OF inv pid p_def],
        use dr pg(3) acc in \<open>auto dest: set_update_subset_insert [THEN subsetD]\<close>)+
  have "dms_abs st' = (dms_abs st)((?pid, ?sid) := None)"
    unfolding ok(2) using dr(2,5) pid p_def ds(1)
    by (auto simp: fun_eq_iff dms_abs_def Let_def nth_list_update)
  with run ok(1) show ?thesis
    by (auto simp: st'_def)
qed

text \<open>An id that names no document, the slot just behind the last one aside, is refused.\<close>

lemma remove_body_bad:
  assumes inv: "dms_inv st" and ab: "dms_abs st (r_pageID rid, r_slotID rid) = None"
    and "r_pageID rid < npages (body st) \<Longrightarrow>
      r_slotID rid \<noteq> numSlots (vmem st) (page_addr (body st) (r_pageID rid))"
  shows "remove_body rid st = (Ret EDB_SYS, st)" "find_body rid st = Ret (EDB_SYS, None)"
proof -
  let ?pid = "r_pageID rid" and ?sid = "r_slotID rid"
  have np: "npages (body st) < 4294967295"
    using inv by (simp add: dms_inv_def)
  have "remove_body rid st = (Ret EDB_SYS, st) \<and> find_body rid st = Ret (EDB_SYS, None)"
  proof (cases "?pid < npages (body st)")
    case True
    define p where "p = page_addr (body st) ?pid"
    show ?thesis
    proof (cases "?sid < numSlots (vmem st) p")
      case sl: True
      then have "slot (vmem st) p ?sid = DMS_SLOT_EMPTY"
        using ab True by (auto simp: dms_abs_def p_def page_recs_nth slot_rec_def split: if_splits)
      with True sl np show ?thesis
        by (simp add: remove_body_def find_body_def pageToOffset_inv searchSlot_def edb_codes flip: p_def)
    next
      case False
      with True np assms(3) show ?thesis
        by (simp add: remove_body_def find_body_def pageToOffset_inv searchSlot_def edb_codes p_def)
    qed
  qed (use np in \<open>simp add: remove_body_def find_body_def pageToOffset_inv\<close>)
  then show "remove_body rid st = (Ret EDB_SYS, st)" "find_body rid st = Ret (EDB_SYS, None)"
    by simp_all
qed

section \<open>Look-up\<close>

lemma rdb_take: "k \<le> n \<Longrightarrow> take k (rdb m a n) = rdb m a k"
  by (rule nth_equalityI) auto

lemma find_body_ok:
  assumes inv: "dms_inv st" and ab: "dms_abs st (r_pageID rid, r_slotID rid) = Some bs"
  shows "find_body rid st = Ret (EDB_OK, Some bs)"
proof -
  let ?m = "vmem st" and ?pid = "r_pageID rid" and ?sid = "r_slotID rid"
  have pid: "?pid < npages (body st)"
    using ab by (simp add: dms_abs_def split: if_splits)
  define p s where "p = page_addr (body st) ?pid" and "s = slot ?m p ?sid"
  note pg = page_of_inv [OF inv pid, folded p_def]
  note ds = dms_abs_page [OF inv pid p_def ab, folded s_def]
  note lv = live_slot [OF pg(1) ds(1) s_def [symmetric] ds(2)]
  have "Some bs \<in> set (page_recs ?m p)"
    using ab pid ds(1) unfolding in_set_conv_nth by (auto simp: dms_abs_def p_def Let_def)
  then have bs: "rec_valid bs"
    by (rule pg(3))
  have "rec_size ?m p s = length bs + 8"
    using lv(5) ds(3) by simp
  then have b: "bs = rdb ?m (p + s + 8) (length bs)"
    using ds(3) by (simp add: rec_bytes_def layout_simps)
  have "take 4 bs = rdb ?m (p + s + 8) 4"
    using bs by (subst b) (simp add: rec_valid_def rdb_take)
  then have "rd32 ?m (p + s + 8) = length bs"
    using bs by (simp add: rd32_def rec_valid_def)
  moreover have "length bs < 2147483648" "0 < length bs" "int (length bs) \<le> BSONObjMaxInternalSize"
    using bs by (auto simp: rec_valid_def BSONObjMaxInternalSize_def)
  ultimately show ?thesis
    using ds(1,2) lv(4) pg(2) b
    by (simp add: find_body_def searchSlot_def edb_codes layout_simps flip: s_def)
qed

end
