(* ===== verification/DmsStore.thy ===== *)
theory DmsStore
  imports DmsSpec
begin

text \<open>
  The calls of \<open>dmsFile\<close> as their callers see them: the latch is taken and given back on every
  path that returns, documents go in, are found and are dropped, and files grow by segments; then
  the places where the code falls short of that.
\<close>

section \<open>The calls under the latch\<close>

lemma dms_remove_ok:
  assumes "dms_inv st" "s_free (dlatch st)" "dms_abs st (r_pageID rid, r_slotID rid) = Some bs"
  shows "\<exists>st'. dms_remove t rid st = (Ret EDB_OK, st') \<and> dms_inv st' \<and>
    dms_abs st' = (dms_abs st)((r_pageID rid, r_slotID rid) := None) \<and> dlatch st' = dlatch st"
proof -
  obtain l where l: "s_get t (dlatch st) = Ret l" "s_release t l = Ret (dlatch st)"
    using section_get [OF assms(2)] .
  obtain st' where "remove_body rid (st\<lparr>dlatch := l\<rparr>) = (Ret EDB_OK, st')" "dms_inv st'"
      "dms_abs st' = (dms_abs st)((r_pageID rid, r_slotID rid) := None)" "dlatch st' = l"
    using remove_body_ok [of "st\<lparr>dlatch := l\<rparr>" rid bs] assms by auto
  with l show ?thesis
    by (simp add: dms_remove_def unlatched_Ret)
qed

lemma dms_remove_bad:
  assumes "dms_inv st" "s_free (dlatch st)" "dms_abs st (r_pageID rid, r_slotID rid) = None"
    "r_pageID rid < npages (body st) \<Longrightarrow>
      r_slotID rid \<noteq> numSlots (vmem st) (page_addr (body st) (r_pageID rid))"
  shows "dms_remove t rid st = (Ret EDB_SYS, st)"
proof -
  obtain l where l: "s_get t (dlatch st) = Ret l" "s_release t l = Ret (dlatch st)"
    using section_get [OF assms(2)] .
  with remove_body_bad(1) [of "st\<lparr>dlatch := l\<rparr>" rid] assms show ?thesis
    by (simp add: dms_remove_def unlatched_Ret)
qed

lemma dms_find_run:
  assumes "writer (dlatch st) = None" "\<And>l. find_body rid (st\<lparr>dlatch := l\<rparr>) = Ret x"
  shows "dms_find t rid st = (Ret x, st)"
  using assms by (simp add: dms_find_def s_get_shared_def s_release_shared_def s_release_def)

lemma find_body_latch [simp]: "find_body rid (st\<lparr>dlatch := l\<rparr>) = find_body rid st"
proof -
  have "vmem (st\<lparr>dlatch := l\<rparr>) = vmem st" "body (st\<lparr>dlatch := l\<rparr>) = body st"
    by simp_all
  then show ?thesis
    unfolding find_body_def pageToOffset_def getNumPages_def getNumSegments_def by presburger
qed

lemma dms_find_ok:
  assumes "dms_inv st" "writer (dlatch st) = None" "dms_abs st (r_pageID rid, r_slotID rid) = Some bs"
  shows "dms_find t rid st = (Ret (EDB_OK, Some bs), st)"
  using assms find_body_ok [OF assms(1,3)] by (intro dms_find_run) simp_all

lemma dms_find_bad:
  assumes "dms_inv st" "writer (dlatch st) = None" "dms_abs st (r_pageID rid, r_slotID rid) = None"
    "r_pageID rid < npages (body st) \<Longrightarrow>
      r_slotID rid \<noteq> numSlots (vmem st) (page_addr (body st) (r_pageID rid))"
  shows "dms_find t rid st = (Ret (EDB_SYS, None), st)"
  using assms remove_body_bad(2) [OF assms(1,3,4)] by (intro dms_find_run) simp_all

lemma findPage_latch [simp]: "findPage n (st\<lparr>dlatch := l\<rparr>) = findPage n st"
  by (simp add: findPage_def)

text \<open>Insertion when a page is found: either it has room, or the answer is \<open>EDB_SYS\<close>.\<close>

lemma insert_retry_ok:
  assumes inv: "dms_inv st" and free: "s_free (dlatch st)" and bs: "rec_valid bs"
    and pid: "findPage (length bs + 8) st \<noteq> DMS_INVALID_PAGEID"
    and p: "p = page_addr (body st) (findPage (length bs + 8) st)"
    and room: "\<not> no_room (vmem st) p (length bs)"
  shows "\<exists>st' a. insert_retry t bs (int (length bs)) evs st =
      (Ret (EDB_OK, Some (\<lparr>r_pageID = findPage (length bs + 8) st, r_slotID = numSlots (vmem st) p\<rparr>, a)), st') \<and>
      dms_inv st' \<and> dms_abs st' = (dms_abs st)((findPage (length bs + 8) st, numSlots (vmem st) p) \<mapsto> bs) \<and>
      dms_abs st (findPage (length bs + 8) st, numSlots (vmem st) p) = None \<and>
      rdb (vmem st') a (length bs) = bs \<and> dlatch st' = dlatch st \<and> extendMutex st' = extendMutex st"
proof -
  obtain l where l: "s_get t (dlatch st) = Ret l" "s_release t l = Ret (dlatch st)"
    using section_get [OF free] .
  have n: "length bs + 8 < 4294967296"
    using bs by (simp add: rec_valid_def BSONObjMaxInternalSize_def)
  have lt: "findPage (length bs + 8) st < npages (body st)"
    using findPage_spec [OF inv n pid] by simp
  obtain st' a where r: "insert_page (findPage (length bs + 8) st) bs (int (length bs)) (st\<lparr>dlatch := l\<rparr>) =
      (Ret (EDB_OK, Some (\<lparr>r_pageID = findPage (length bs + 8) st, r_slotID = numSlots (vmem st) p\<rparr>, a)), st')"
      "dms_inv st'" "dms_abs st' = (dms_abs st)((findPage (length bs + 8) st, numSlots (vmem st) p) \<mapsto> bs)"
      "dms_abs st (findPage (length bs + 8) st, numSlots (vmem st) p) = None"
      "rdb (vmem st') a (length bs) = bs" "dlatch st' = l" "extendMutex st' = extendMutex st"
    using insert_page_ok [of "st\<lparr>dlatch := l\<rparr>" "findPage (length bs + 8) st" p bs] assms lt by auto
  then have "insert_retry t bs (int (length bs)) evs st =
      (Ret (EDB_OK, Some (\<lparr>r_pageID = findPage (length bs + 8) st, r_slotID = numSlots (vmem st) p\<rparr>, a)),
       st'\<lparr>dlatch := dlatch st\<rparr>)"
    using l pid by (subst insert_retry.simps) (simp add: Let_def unlatched_Ret layout_simps)
  with r show ?thesis
    by simp
qed

lemma insert_retry_sys:
  assumes inv: "dms_inv st" and free: "s_free (dlatch st)" and n: "length bs \<le> DMS_MAX_RECORD"
    and pid: "findPage (length bs + 8) st \<noteq> DMS_INVALID_PAGEID"
    and p: "p = page_addr (body st) (findPage (length bs + 8) st)"
    and room: "no_room (vmem st) p (length bs)"
  shows "\<exists>st'. insert_retry t bs sz evs st = (Ret (EDB_SYS, None), st') \<and> dms_inv st' \<and>
      dms_abs st' = dms_abs st \<and> dlatch st' = dlatch st \<and> extendMutex st' = extendMutex st"
proof -
  obtain l where l: "s_get t (dlatch st) = Ret l" "s_release t l = Ret (dlatch st)"
    using section_get [OF free] .
  have "length bs + 8 < 4294967296"
    using n by (simp add: layout_simps)
  then have lt: "findPage (length bs + 8) st < npages (body st)"
    using findPage_spec [OF inv _ pid] by simp
  obtain st' where r: "insert_page (findPage (length bs + 8) st) bs sz (st\<lparr>dlatch := l\<rparr>) =
      (Ret (EDB_SYS, None), st')" "dms_inv st'" "dms_abs st' = dms_abs st" "dlatch st' = l"
      "extendMutex st' = extendMutex st"
    using insert_page_no_room [of "st\<lparr>dlatch := l\<rparr>" "findPage (length bs + 8) st" p bs sz] assms lt
    by auto
  then have "insert_retry t bs sz evs st = (Ret (EDB_SYS, None), st'\<lparr>dlatch := dlatch st\<rparr>)"
    using l pid by (subst insert_retry.simps) (simp add: Let_def unlatched_Ret layout_simps)
  with r show ?thesis
    by simp
qed

section \<open>Checks on the record\<close>

lemma rec_valid_enc:
  assumes "int (length (enc_obj fs)) \<le> BSONObjMaxInternalSize"
  shows "rec_valid (enc_obj fs)"
proof -
  have "length (enc_obj fs) < 4294967296"
    using assms by (simp add: BSONObjMaxInternalSize_def)
  then show ?thesis
    using assms by (simp add: rec_valid_def enc_obj_def enc_doc_def)
qed

lemma split_dot_id: "split_dot str_id = None"
  by (simp add: split_dot_def str_id_def)

lemma cname_id: "cname str_id"
  by (simp add: cname_def str_id_def)

lemma id_lookup:
  assumes "obj_in record fs"
  shows "\<exists>e. getFieldDottedOrArray record str_id = Some (Ret (e, [])) \<and>
    elem_eoo e = Ret (map_of fs str_id = None)"
proof -
  have al: "array_lookup fs str_id = (map_of fs str_id, [])"
    by (subst array_lookup.simps) (simp add: split_dot_id)
  obtain e where e: "getFieldDottedOrArray record str_id = Some (Ret (e, []))"
      "finds (fst record) e (map_of fs str_id)"
    using getFieldDottedOrArray_finds [OF assms cname_id] al by auto
  then show ?thesis
    using finds_type [of "fst record" e] by (cases "map_of fs str_id") (auto simp: finds_def elem_eoo_def)
qed

lemma to_u64_nat: "int n < 18446744073709551616 \<Longrightarrow> to_u64 (int n) = n"
  by (simp add: to_u64_def)

lemma dms_insert_checked:
  assumes "obj_in record fs"
  shows "dms_insert t record evs st = Some (
     if length (enc_obj fs) > DMS_MAX_RECORD \<or> map_of fs str_id = None
     then (Ret (EDB_INVALIDARG, None), st)
     else insert_retry t (enc_obj fs) (int (length (enc_obj fs))) evs st)"
proof -
  obtain e where e: "getFieldDottedOrArray record str_id = Some (Ret (e, []))"
      "elem_eoo e = Ret (map_of fs str_id = None)"
    using id_lookup [OF assms] by blast
  have "length (enc_obj fs) < 2147483648"
    by (rule obj_in_parts(4) [OF assms])
  then have u: "to_u64 (int (length (enc_obj fs))) = length (enc_obj fs)"
    by (intro to_u64_nat) simp
  have "ldn (fst record) (snd record) (int (length (enc_obj fs))) = Ret (enc_obj fs)"
    using assms by (intro ldn_at) (auto simp: obj_in_def)
  then show ?thesis
    unfolding dms_insert_def obj_objsize_in [OF assms] res.case u e option.case bnd.simps case_prod_conv
    by simp
qed

text \<open>The document of 13 bytes whose element has size 0 keeps \<open>insert\<close> from ever returning.\<close>

lemma dms_insert_endless: "dms_insert t (endless_doc, 0) evs st = None"
proof -
  have "getFieldDottedOrArray (endless_doc, 0) str_id = None"
    by (subst getFieldDottedOrArray.simps) (simp add: split_dot_id endless_getField)
  moreover have "obj_objsize (endless_doc, 0) = Ret 13"
    by (simp add: obj_objsize_def endless_doc_def eval_loads)
  ultimately show ?thesis
    by (simp add: dms_insert_def to_u64_def layout_simps)
qed

text \<open>The whole of \<open>insert\<close> for a document it accepts.\<close>

lemma insert_stores:
  assumes "dms_inv st" "s_free (dlatch st)" "obj_in record fs" "map_of fs str_id \<noteq> None"
    and n: "n = length (enc_obj fs)" "n \<le> DMS_MAX_RECORD"
    and pid: "pid = findPage (n + sizeof_dmsRecord) st" "pid \<noteq> DMS_INVALID_PAGEID"
    and p: "p = page_addr (body st) pid"
  shows "\<exists>st'. dms_inv st' \<and> dlatch st' = dlatch st \<and> extendMutex st' = extendMutex st \<and>
    (if no_room (vmem st) p n
     then dms_insert t record evs st = Some (Ret (EDB_SYS, None), st') \<and> dms_abs st' = dms_abs st
     else let sid = numSlots (vmem st) p in \<exists>a.
       dms_insert t record evs st = Some (Ret (EDB_OK, Some (\<lparr>r_pageID = pid, r_slotID = sid\<rparr>, a)), st') \<and>
       dms_abs st (pid, sid) = None \<and> dms_abs st' = (dms_abs st)((pid, sid) \<mapsto> enc_obj fs) \<and>
       rdb (vmem st') a n = enc_obj fs)"
proof -
  have i: "dms_insert t record evs st = Some (insert_retry t (enc_obj fs) (int (length (enc_obj fs))) evs st)"
    using dms_insert_checked [OF assms(3)] assms(4) n by simp
  have v: "rec_valid (enc_obj fs)"
    using assms(3) by (intro rec_valid_enc) (simp add: obj_in_def)
  have q: "findPage (length (enc_obj fs) + 8) st \<noteq> DMS_INVALID_PAGEID"
      "p = page_addr (body st) (findPage (length (enc_obj fs) + 8) st)"
      "pid = findPage (length (enc_obj fs) + 8) st"
    using pid p n(1) by (simp_all add: layout_simps)
  show ?thesis
  proof (cases "no_room (vmem st) p n")
    case True
    with insert_retry_sys [OF assms(1,2) _ q(1,2), of t "int (length (enc_obj fs))" evs] n
    show ?thesis
      unfolding i by auto
  next
    case False
    with insert_retry_ok [OF assms(1,2) v q(1,2), of t evs] n show ?thesis
      unfolding i q(3) [symmetric] Let_def by auto
  qed
qed

end
