(* ===== verification/DmsGrow.thy ===== *)
theory DmsGrow
  imports DmsStore
begin

text \<open>
  Growing the file: \<open>_extendSegment\<close> adds 32 empty pages to the invariant and changes no document;
  what the system calls must answer for it to succeed; and the two places where growing does not
  help: records above the real capacity of a page, and the ids \<open>_loadData\<close> gives to pages.
\<close>

section \<open>Fresh pages\<close>

lemma rdb_sub: "k + j \<le> n \<Longrightarrow> rdb m (a + k) j = take j (drop k (rdb m a n))"
  by (rule nth_equalityI) (auto simp: add.assoc)

lemma page_header_fields:
  "length page_header = 28" "take 4 page_header = DMS_PAGE_EYECATCHER"
  "take 4 (drop 12 page_header) = le32 0" "take 4 (drop 16 page_header) = le32 28"
  "take 4 (drop 20 page_header) = le32 4194276" "take 4 (drop 24 page_header) = le32 4194304"
  by (simp_all add: page_header_def DMS_PAGE_EYECATCHER_def layout_simps)

lemma fresh_page:
  assumes "rdb m p 28 = page_header"
  shows "page_inv m p" "page_recs m p = []" "freeSpace m p = 4194276" "numSlots m p = 0"
    "freeOffset m p = 4194304" "slotOffset m p = 28"
proof -
  have f: "rd32 m (p + k) = le_value (take 4 (drop k page_header))" if "k + 4 \<le> 28" for k
    using rdb_sub [OF that, of m p] assms by (simp add: rd32_def)
  show n: "numSlots m p = 0" and s: "freeSpace m p = 4194276" and fo: "freeOffset m p = 4194304"
      and so: "slotOffset m p = 28"
    using f [of 12] f [of 20] f [of 24] f [of 16]
    by (simp_all add: numSlots_def freeSpace_def freeOffset_def slotOffset_def page_header_fields)
  then show "page_recs m p = []"
    by (simp add: page_recs_def slots_def)
  have "rdb m p 4 = DMS_PAGE_EYECATCHER"
    using rdb_sub [of 0 4 28 m p] assms by (simp add: page_header_fields)
  then show "page_inv m p"
    using n s fo so by (simp add: page_inv_def slots_def layout_simps)
qed

lemma blit_apply: "blit m a bs x = (if a \<le> x \<and> x < a + length bs then bs ! (x - a) else m x)"
  by (simp add: blit_def)

lemma init_pages_at:
  "fold (\<lambda>i m. blit m (base + i * 4194304) page_header) [0..<n] m x =
     (if base \<le> x \<and> x < base + n * 4194304 \<and> (x - base) mod 4194304 < 28
      then page_header ! ((x - base) mod 4194304) else m x)"
proof (induction n)
  case (Suc n)
  let ?P = "base + n * 4194304 \<le> x \<and> x < base + n * 4194304 + 28"
  have q: "(x - base) mod 4194304 = x - (base + n * 4194304)"
    if "base + n * 4194304 \<le> x" "x < base + Suc n * 4194304"
  proof -
    have "x - base = n * 4194304 + (x - (base + n * 4194304))" "x - (base + n * 4194304) < 4194304"
      using that by simp_all
    then show ?thesis
      by (metis mod_less mod_mult_self3)
  qed
  show ?case
  proof (cases "base + n * 4194304 \<le> x \<and> x < base + Suc n * 4194304")
    case True
    define y where "y = x - (base + n * 4194304)"
    have "(x - base) mod 4194304 = y" "x = base + n * 4194304 + y"
      using q True by (simp_all add: y_def)
    with True Suc show ?thesis
      by (simp add: blit_apply page_header_fields)
  next
    case False
    then have "\<not> ?P"
      by auto
    with False Suc show ?thesis
      by (auto simp: blit_apply page_header_fields)
  qed
qed auto

lemma init_pages_eq:
  "init_pages m base x = (if base \<le> x \<and> x < base + 134217728 \<and> (x - base) mod 4194304 < 28
     then page_header ! ((x - base) mod 4194304) else m x)"
  unfolding init_pages_def layout_simps init_pages_at by simp

lemma init_pages_page:
  assumes "k < 32"
  shows "rdb (init_pages m base) (base + 4194304 * k) 28 = page_header"
proof (rule nth_equalityI)
  fix i
  assume "i < length (rdb (init_pages m base) (base + 4194304 * k) 28)"
  then have "i < 28"
    by simp
  moreover have "(4194304 * k + i) mod 4194304 = i" if "i < 28"
    using that by (simp add: mod_mult_self4)
  ultimately show "rdb (init_pages m base) (base + 4194304 * k) 28 ! i = page_header ! i"
    using assms by (simp add: init_pages_eq)
qed (simp add: page_header_fields)

section \<open>One more segment\<close>

text \<open>The header page of the file lies apart from the segments.\<close>

definition header_apart :: "dmsFile \<Rightarrow> bool" where
  "header_apart st \<longleftrightarrow> (\<exists>h. header st = Some h \<and> (\<forall>b \<in> set (body st).
     h + DMS_FILE_HEADER_SIZE \<le> b \<or> b + DMS_FILE_SEGMENT_SIZE \<le> h))"

text \<open>What \<open>mmap\<close> promises: the new mapping overlaps nothing that is mapped.\<close>

definition fresh_base :: "nat \<Rightarrow> dmsFile \<Rightarrow> bool" where
  "fresh_base base st \<longleftrightarrow>
     (\<forall>b \<in> set (body st). b + DMS_FILE_SEGMENT_SIZE \<le> base \<or> base + DMS_FILE_SEGMENT_SIZE \<le> b) \<and>
     (\<forall>h. header st = Some h \<longrightarrow> h + DMS_FILE_HEADER_SIZE \<le> base \<or> base + DMS_FILE_SEGMENT_SIZE \<le> h)"

definition same_but_file :: "dmsFile \<Rightarrow> dmsFile \<Rightarrow> bool" where
  "same_but_file st st' \<longleftrightarrow> vmem st' = vmem st \<and> body st' = body st \<and> freeSpaceMap st' = freeSpaceMap st \<and>
     header st' = header st \<and> dlatch st' = dlatch st \<and> extendMutex st' = extendMutex st \<and> mlatch st' = mlatch st"

lemma same_but_file_put [simp]: "same_but_file st (put_bytes bs st)" "same_but_file st (fop_seekToEnd st)"
  by (simp_all add: same_but_file_def put_bytes_def fop_seekToEnd_def)

lemma same_but_file_trans: "same_but_file a b \<Longrightarrow> same_but_file b c \<Longrightarrow> same_but_file a c"
  by (simp add: same_but_file_def)

lemma fop_write_loop_same:
  fixes st :: dmsFile
  shows "fop_write_loop bs calls st = Ret (rc, st') \<Longrightarrow> same_but_file st st'"
proof (induction bs calls st rule: fop_write_loop.induct)
  case (3 rest n calls f)
  then show ?case
    by (auto simp: Let_def split: if_splits intro: same_but_file_trans [OF same_but_file_put(1)])
qed (auto simp: same_but_file_def split: if_splits)

lemma extendFile_loop_same:
  "extendFile_loop k writes i st = Ret (rc, st') \<Longrightarrow> same_but_file st st'"
proof (induction k arbitrary: i st)
  case (Suc k)
  then obtain rc1 st1 where w: "fop_Write (replicate DMS_EXTEND_SIZE 0) DMS_EXTEND_SIZE (writes i) (fop_seekToEnd st)
      = Ret (rc1, st1)" and r: "(if rc1 \<noteq> 0 then Ret (rc1, st1) else extendFile_loop k writes (Suc i) st1) = Ret (rc, st')"
    by (auto simp: bnd_eq_Ret)
  have "same_but_file (fop_seekToEnd st) st1"
    using w fop_write_loop_same by (auto simp: fop_Write_def Let_def split: if_splits) (simp add: same_but_file_def)
  then have "same_but_file st st1"
    by (rule same_but_file_trans [OF same_but_file_put(2)])
  then show ?case
    using r Suc.IH by (auto split: if_splits intro: same_but_file_trans)
qed (simp add: same_but_file_def)

lemma fold_fsm_insert:
  "mset (fold (\<lambda>i fsm. fsm_insert (k i) (v i) fsm) ks fsm) = mset fsm + mset (map (\<lambda>i. (k i, v i)) ks)"
  by (induction ks arbitrary: fsm) simp_all

lemma fold_fsm_sorted:
  "sorted (map fst fsm) \<Longrightarrow> sorted (map fst (fold (\<lambda>i fsm. fsm_insert (k i) (v i) fsm) ks fsm))"
  by (induction ks arbitrary: fsm) (simp_all add: sorted_fsm_insert)

lemma page_addr_append:
  "k < npages segs \<Longrightarrow> page_addr (segs @ [base]) k = page_addr segs k"
  "j < 32 \<Longrightarrow> page_addr (segs @ [base]) (npages segs + j) = base + 4194304 * j"
proof -
  show "k < npages segs \<Longrightarrow> page_addr (segs @ [base]) k = page_addr segs k"
    by (simp add: page_addr_def npages_def layout_simps nth_append less_mult_imp_div_less mult.commute)
  show "page_addr (segs @ [base]) (npages segs + j) = base + 4194304 * j" if "j < 32"
  proof -
    have "(32 * length segs + j) div 32 = length segs" "(32 * length segs + j) mod 32 = j"
      using that by simp_all
    then show ?thesis
      by (simp add: page_addr_def npages_def layout_simps)
  qed
qed

lemma page_in_segment:
  assumes "k < npages segs"
  shows "segs ! (k div 32) \<in> set segs" "segs ! (k div 32) \<le> page_addr segs k"
    "page_addr segs k + 4194304 \<le> segs ! (k div 32) + 134217728"
proof -
  have "k div 32 < length segs"
    using assms by (simp add: npages_def less_mult_imp_div_less mult.commute)
  then show "segs ! (k div 32) \<in> set segs"
    by simp
  have "k mod 32 \<le> 31"
    by simp
  then show "segs ! (k div 32) \<le> page_addr segs k"
      "page_addr segs k + 4194304 \<le> segs ! (k div 32) + 134217728"
    unfolding page_addr_def layout_simps by linarith+
qed

lemma add_segment_inv:
  assumes inv: "dms_inv st" and room: "npages (body st) + 32 < 4294967295"
    and fr: "fresh_base base st" and h: "header_apart st"
    and m: "\<And>x. x < base \<or> base + 134217728 \<le> x \<Longrightarrow> m x = vmem st x"
    and p: "\<And>k. k < 32 \<Longrightarrow> rdb m (base + 4194304 * k) 28 = page_header"
    and add: "add_segment base (st\<lparr>vmem := m, dlatch := l\<rparr>) = Ret st'"
  shows "dms_inv st'" "dms_abs st' = dms_abs st" "body st' = body st @ [base]" "header_apart st'"
    "\<And>k. k < 32 \<Longrightarrow> rdb (vmem st') (base + 4194304 * k) 28 = page_header" "dlatch st' = l"
    "extendMutex st' = extendMutex st"
    "\<And>k. k < npages (body st) \<Longrightarrow>
      freeSpace (vmem st') (page_addr (body st) k) = freeSpace (vmem st) (page_addr (body st) k)"
proof -
  let ?B = "body st" and ?F = "freeSpaceMap st"
  obtain hd where hd: "header st = Some hd" "\<forall>b \<in> set ?B. hd + 65536 \<le> b \<or> b + 134217728 \<le> hd"
    using h by (auto simp: header_apart_def layout_simps)
  have fb: "hd + 65536 \<le> base \<or> base + 134217728 \<le> hd"
    using fr hd(1) by (simp add: fresh_base_def layout_simps)
  have len: "length ?F = npages ?B"
  proof -
    have "size (mset ?F) = npages ?B"
      using inv by (simp add: dms_inv_def fsm_of_def)
    then show ?thesis
      by simp
  qed
  define m' where "m' = wr32 m (hd + 4) (u32_add (rd32 m (hd + 4)) 32)"
  define F' where "F' = fold (\<lambda>i fsm. fsm_insert 4194276 (to_u32 (int (i + npages ?B))) fsm) [0..<32] ?F"
  have st': "body st' = ?B @ [base]" "vmem st' = m'" "freeSpaceMap st' = F'" "header st' = Some hd"
      "dlatch st' = l" "extendMutex st' = extendMutex st"
    using add hd(1) by (auto simp: add_segment_def Let_def len m'_def F'_def layout_simps)
  then show "body st' = ?B @ [base]" "dlatch st' = l" "extendMutex st' = extendMutex st"
    by simp_all
  have m'_out: "m' x = m x" if "x < hd \<or> hd + 65536 \<le> x" for x
    using that by (auto simp: m'_def wr32_out)
  have new: "rdb m' (base + 4194304 * k) 28 = page_header" if "k < 32" for k
  proof -
    have "rdb m' (base + 4194304 * k) 28 = rdb m (base + 4194304 * k) 28"
      using fb that by (intro rdb_cong m'_out) auto
    then show ?thesis
      using p that by simp
  qed
  then show "\<And>k. k < 32 \<Longrightarrow> rdb (vmem st') (base + 4194304 * k) 28 = page_header"
    by (simp add: st')
  have old: "page_inv m' (page_addr ?B k)" "page_recs m' (page_addr ?B k) = page_recs (vmem st) (page_addr ?B k)"
      "freeSpace m' (page_addr ?B k) = freeSpace (vmem st) (page_addr ?B k)" if k: "k < npages ?B" for k
  proof -
    note ps = page_in_segment [OF k]
    have "?B ! (k div 32) + 134217728 \<le> base \<or> base + 134217728 \<le> ?B ! (k div 32)"
      using fr ps(1) by (simp add: fresh_base_def layout_simps)
    moreover have "hd + 65536 \<le> ?B ! (k div 32) \<or> ?B ! (k div 32) + 134217728 \<le> hd"
      using hd(2) ps(1) by blast
    ultimately have "agree (vmem st) m' (page_addr ?B k) (page_addr ?B k + DMS_PAGESIZE)"
      unfolding agree_def using ps(2,3) m'_out m by (auto simp: layout_simps)
    from page_cong [OF page_of_inv(1) [OF inv k] this]
    show "page_inv m' (page_addr ?B k)" "page_recs m' (page_addr ?B k) = page_recs (vmem st) (page_addr ?B k)"
        "freeSpace m' (page_addr ?B k) = freeSpace (vmem st) (page_addr ?B k)"
      by simp_all
  qed
  show "\<And>k. k < npages ?B \<Longrightarrow> freeSpace (vmem st') (page_addr ?B k) = freeSpace (vmem st) (page_addr ?B k)"
    using old(3) by (simp add: st')
  have np: "npages (?B @ [base]) = npages ?B + 32"
    by (simp add: npages_def)
  have cases: "P k" if "k < npages ?B + 32" "\<And>k. k < npages ?B \<Longrightarrow> P k"
      "\<And>j. j < 32 \<Longrightarrow> P (npages ?B + j)" for P k
    using that(1) that(2) [of k] that(3) [of "k - npages ?B"] by (cases "k < npages ?B") auto
  have pages: "pages_inv m' (?B @ [base])"
    unfolding pages_inv_def np
  proof (intro allI impI)
    fix k
    assume k: "k < npages ?B + 32"
    show "page_inv m' (page_addr (?B @ [base]) k) \<and>
        (\<forall>bs. Some bs \<in> set (page_recs m' (page_addr (?B @ [base]) k)) \<longrightarrow> rec_valid bs)"
      by (rule cases [OF k])
         (use old page_of_inv(3) [OF inv] fresh_page [OF new] in \<open>simp_all add: page_addr_append\<close>)
  qed
  have fsm: "mset F' = fsm_of m' (?B @ [base])"
  proof -
    have ids: "to_u32 (int (i + npages ?B)) = i + npages ?B" if "i < 32" for i
      using that room by (simp add: to_u32_nat)
    have "mset F' = mset ?F + mset (map (\<lambda>i. (4194276, to_u32 (int (i + npages ?B)))) [0..<32])"
      unfolding F'_def by (rule fold_fsm_insert)
    also have "map (\<lambda>i. (4194276 :: nat, to_u32 (int (i + npages ?B)))) [0..<32]
        = map (\<lambda>k. (freeSpace m' (page_addr (?B @ [base]) k), k)) [npages ?B..<npages ?B + 32]"
      by (rule nth_equalityI)
         (use ids fresh_page(3) [OF new] page_addr_append(2) in \<open>simp_all add: add.commute\<close>)
    also have "mset ?F = mset (map (\<lambda>k. (freeSpace m' (page_addr (?B @ [base]) k), k)) [0..<npages ?B])"
    proof -
      have "map (\<lambda>k. (freeSpace m' (page_addr (?B @ [base]) k), k)) [0..<npages ?B] =
          map (\<lambda>k. (freeSpace (vmem st) (page_addr ?B k), k)) [0..<npages ?B]"
        using old(3) by (simp add: page_addr_append(1))
      then show ?thesis
        using inv by (simp only: dms_inv_def fsm_of_def)
    qed
    also have "\<dots> + mset (map (\<lambda>k. (freeSpace m' (page_addr (?B @ [base]) k), k)) [npages ?B..<npages ?B + 32])
        = fsm_of m' (?B @ [base])"
      unfolding fsm_of_def np upt_add_eq_append [OF le0] by simp
    finally show ?thesis .
  qed
  have "sorted (map fst F')"
    unfolding F'_def using inv by (intro fold_fsm_sorted) (simp add: dms_inv_def)
  moreover have "seg_disjoint (?B @ [base])"
    using inv fr unfolding dms_inv_def seg_disjoint_def fresh_base_def
    by (auto simp: nth_append less_Suc_eq layout_simps)
  ultimately show "dms_inv st'"
    using room pages fsm by (simp add: dms_inv_def st' np)
  show "dms_abs st' = dms_abs st"
  proof -
    have "dms_abs st' (k, s) = dms_abs st (k, s)" for k s
    proof (cases "k < npages ?B + 32")
      case True
      show ?thesis
        by (rule cases [OF True])
           (use old(2) fresh_page(2) [OF new] in \<open>simp_all add: dms_abs_def st' np page_addr_append Let_def\<close>)
    qed (simp add: dms_abs_def st' np)
    then show ?thesis
      by (auto simp: fun_eq_iff)
  qed
  show "header_apart st'"
    using hd(2) fb by (auto simp: header_apart_def st' layout_simps)
qed

lemma extendFile_same: "extendFile sz writes st = Ret (rc, st') \<Longrightarrow> same_but_file st st'"
  using extendFile_loop_same by (auto simp: extendFile_def same_but_file_def split: if_splits)

text \<open>A successful run of \<open>_extendSegment\<close>, taken apart.\<close>

lemma extendSegment_run:
  assumes "extendSegment t env st = Ret (EDB_OK, st')" "x_map env = Inl base" "mlatch st = None"
  obtains l m st1 where "s_get t (dlatch st) = Ret l"
    "\<And>x. x < base \<or> base + 134217728 \<le> x \<Longrightarrow> m x = vmem st x"
    "add_segment base (st1\<lparr>vmem := init_pages m base, dlatch := l\<rparr>) = Ret (st'\<lparr>dlatch := l\<rparr>)"
    "same_but_file st (st1\<lparr>vmem := vmem st\<rparr>)" "s_release t l = Ret (dlatch st')"
proof -
  obtain off where st: "fop_getSize (x_stat env) st = (0, off)"
    using assms(1) by (cases "fop_getSize (x_stat env) st") (auto simp: extendSegment_def edb_codes split: if_splits)
  obtain st1 where e: "extendFile DMS_FILE_SEGMENT_SIZE (x_writes env) st = Ret (EDB_OK, st1)"
    using assms(1) st by (auto simp: extendSegment_def bnd_eq_Ret edb_codes split: if_splits)
  have same: "same_but_file st st1"
    by (rule extendFile_same [OF e])
  then have ml: "mlatch st1 = None"
    using assms(3) by (simp add: same_but_file_def)
  obtain a st2 where mm: "mmap_map t off DMS_FILE_SEGMENT_SIZE (x_map_stat env) (x_map env) st1 = Ret ((EDB_OK, a), st2)"
    using assms(1) st e by (auto simp: extendSegment_def bnd_eq_Ret edb_codes split: if_splits)
  then have a: "a = Some base" and m2: "vmem st2 = map_view (vmem st1) base (fbytes st1) off DMS_FILE_SEGMENT_SIZE"
      and s2: "same_but_file st1 (st2\<lparr>vmem := vmem st1\<rparr>)"
    using assms(2) ml
    by (auto simp: mmap_map_eq mmap_body_def Let_def same_but_file_def edb_codes layout_simps
        split: prod.splits if_splits)
  obtain l where l: "s_get t (dlatch st) = Ret l"
      and add: "bnd (add_segment base (st2\<lparr>vmem := init_pages (vmem st2) base, dlatch := l\<rparr>)) (\<lambda>st.
        bnd (s_release t (dlatch st)) (\<lambda>l'. Ret (EDB_OK, st\<lparr>dlatch := l'\<rparr>))) = Ret (EDB_OK, st')"
    using assms(1) st e mm a same s2
    by (auto simp: extendSegment_def bnd_eq_Ret edb_codes same_but_file_def)
  obtain st3 l' where st3: "add_segment base (st2\<lparr>vmem := init_pages (vmem st2) base, dlatch := l\<rparr>) = Ret st3"
      "s_release t (dlatch st3) = Ret l'" "st' = st3\<lparr>dlatch := l'\<rparr>"
    using add by (auto simp: bnd_eq_Ret)
  have d3: "dlatch st3 = l"
    using st3(1) by (auto simp: add_segment_def Let_def split: option.splits)
  show thesis
  proof (rule that [OF l])
    show "vmem st2 x = vmem st x" if "x < base \<or> base + 134217728 \<le> x" for x
      using that same m2 by (auto simp: map_view_def same_but_file_def layout_simps)
    show "add_segment base (st2\<lparr>vmem := init_pages (vmem st2) base, dlatch := l\<rparr>) = Ret (st'\<lparr>dlatch := l\<rparr>)"
      using st3(1,3) d3 by (cases st3) simp
    show "same_but_file st (st2\<lparr>vmem := vmem st\<rparr>)"
      using same s2 by (simp add: same_but_file_def)
    show "s_release t l = Ret (dlatch st')"
      using st3(2,3) d3 by simp
  qed
qed

lemma same_but_file_inv:
  assumes "same_but_file st st'"
  shows "dms_inv st' = dms_inv st" "dms_abs st' = dms_abs st" "header_apart st' = header_apart st"
    "fresh_base base st' = fresh_base base st"
proof -
  have eqs: "vmem st' = vmem st" "body st' = body st" "freeSpaceMap st' = freeSpaceMap st"
      "header st' = header st"
    using assms by (simp_all add: same_but_file_def)
  show "dms_inv st' = dms_inv st" "dms_abs st' = dms_abs st" "header_apart st' = header_apart st"
      "fresh_base base st' = fresh_base base st"
    unfolding dms_inv_def dms_abs_def header_apart_def fresh_base_def eqs by (rule refl)+
qed

lemma extendSegment_ok:
  assumes inv: "dms_inv st" and room: "npages (body st) + 32 < 4294967295"
    and base: "x_map env = Inl base" "fresh_base base st" and h: "header_apart st" "mlatch st = None"
    and run: "extendSegment t env st = Ret (EDB_OK, st')"
  shows "dms_inv st'" "dms_abs st' = dms_abs st" "body st' = body st @ [base]" "header_apart st'"
    "\<And>k. k < 32 \<Longrightarrow> rdb (vmem st') (base + 4194304 * k) 28 = page_header" "dlatch st' = dlatch st"
    "extendMutex st' = extendMutex st"
    "\<And>k. k < npages (body st) \<Longrightarrow>
      freeSpace (vmem st') (page_addr (body st) k) = freeSpace (vmem st) (page_addr (body st) k)"
proof -
  obtain l m st1 where l: "s_get t (dlatch st) = Ret l"
    and m: "\<And>x. x < base \<or> base + 134217728 \<le> x \<Longrightarrow> m x = vmem st x"
    and add: "add_segment base (st1\<lparr>vmem := init_pages m base, dlatch := l\<rparr>) = Ret (st'\<lparr>dlatch := l\<rparr>)"
    and same: "same_but_file st (st1\<lparr>vmem := vmem st\<rparr>)" and rel: "s_release t l = Ret (dlatch st')"
    using extendSegment_run [OF run base(1) h(2)] by blast
  let ?st1 = "st1\<lparr>vmem := vmem st\<rparr>"
  have s1: "dms_inv ?st1" "header_apart ?st1" "fresh_base base ?st1" "body ?st1 = body st"
    using inv h base(2) same_but_file_inv [OF same] same by (simp_all add: same_but_file_def)
  have out: "init_pages m base x = vmem ?st1 x" if "x < base \<or> base + 134217728 \<le> x" for x
    using m that by (auto simp: init_pages_eq)
  have add': "add_segment base (?st1\<lparr>vmem := init_pages m base, dlatch := l\<rparr>) = Ret (st'\<lparr>dlatch := l\<rparr>)"
    using add by simp
  note A = add_segment_inv [OF s1(1) _ s1(3,2) out init_pages_page add', unfolded s1(4), OF room]
  show "dms_inv st'" "dms_abs st' = dms_abs st" "body st' = body st @ [base]" "header_apart st'"
    "\<And>k. k < 32 \<Longrightarrow> rdb (vmem st') (base + 4194304 * k) 28 = page_header"
    "extendMutex st' = extendMutex st"
    "\<And>k. k < npages (body st) \<Longrightarrow>
      freeSpace (vmem st') (page_addr (body st) k) = freeSpace (vmem st) (page_addr (body st) k)"
    using A same_but_file_inv(2) [OF same] same by (simp_all add: header_apart_def same_but_file_def)
  show "dlatch st' = dlatch st"
    using sl.get_release [OF l] rel by simp
qed

end
