(* ===== verification/DmsLimits.thy ===== *)
theory DmsLimits
  imports DmsGrow
begin

text \<open>
  Inserting into a file that has to grow, and the limits of the code: what it cannot store although it accepts it, the
  slot it reads behind the last one, and the page ids after a reload.
\<close>

section \<open>Insertion with an extension\<close>

lemma fresh_page_room: "rdb m p 28 = page_header \<Longrightarrow> n + 12 \<le> 4194276 \<Longrightarrow> \<not> no_room m p n"
  using fresh_page [of m p] by (simp add: no_room_def u32_sub_le layout_simps)

text \<open>After a successful extension the first page with enough free bytes is one of the new ones.\<close>

lemma findPage_extended:
  assumes inv: "dms_inv st" "dms_inv st'" and none: "findPage (n + 8) st = DMS_INVALID_PAGEID"
    and body: "body st' = body st @ [base]" and n: "n + 12 \<le> 4194276"
    and new: "\<And>k. k < 32 \<Longrightarrow> rdb (vmem st') (base + 4194304 * k) 28 = page_header"
    and old: "\<And>k. k < npages (body st) \<Longrightarrow>
      freeSpace (vmem st') (page_addr (body st) k) = freeSpace (vmem st) (page_addr (body st) k)"
  shows "\<exists>k < 32. findPage (n + 8) st' = npages (body st) + k"
proof -
  have np: "npages (body st') = npages (body st) + 32"
    by (simp add: body npages_def)
  have lt: "n + 8 < 4294967296"
    using n by simp
  have "freeSpace (vmem st') (page_addr (body st') (npages (body st) + 0)) = 4194276"
    unfolding body page_addr_append(2) [of 0, simplified] using fresh_page(3) [OF new [of 0]]
    by (simp add: page_addr_append(2) [of 0, simplified])
  then have "findPage (n + 8) st' \<noteq> DMS_INVALID_PAGEID"
    using findPage_none [OF inv(2) lt] np n by (auto intro!: exI [of _ "npages (body st)"])
  from findPage_spec [OF inv(2) lt this]
  have f: "findPage (n + 8) st' < npages (body st) + 32"
      "n + 8 < freeSpace (vmem st') (page_addr (body st') (findPage (n + 8) st'))"
    by (simp_all add: np)
  have "\<not> findPage (n + 8) st' < npages (body st)"
  proof
    assume lt': "findPage (n + 8) st' < npages (body st)"
    then have "freeSpace (vmem st) (page_addr (body st) (findPage (n + 8) st')) \<le> n + 8"
      using none findPage_none [OF inv(1) lt] by simp
    then show False
      using f(2) old lt' by (simp add: body page_addr_append(1))
  qed
  then show ?thesis
    using f(1) by (intro exI [of _ "findPage (n + 8) st' - npages (body st)"]) auto
qed

lemma insert_retry_extends:
  assumes inv: "dms_inv st" "npages (body st) + 32 < 4294967295" and free: "s_free (dlatch st)"
      "extendMutex st = None" "mlatch st = None"
    and base: "x_map env = Inl base" "fresh_base base st" "header_apart st"
    and none: "findPage (length bs + 8) st = DMS_INVALID_PAGEID"
    and bs: "rec_valid bs" "length bs + 12 \<le> 4194276"
    and run: "extendSegment t env (st\<lparr>extendMutex := Some t\<rparr>) = Ret (EDB_OK, st1)"
  shows "\<exists>rid a st'. insert_retry t bs (int (length bs)) (Extend env # evs) st =
      (Ret (EDB_OK, Some (rid, a)), st') \<and> dms_inv st' \<and>
      dms_abs st' = (dms_abs st)((r_pageID rid, r_slotID rid) \<mapsto> bs) \<and>
      dms_abs st (r_pageID rid, r_slotID rid) = None \<and> dlatch st' = dlatch st \<and> extendMutex st' = None"
proof -
  let ?n = "length bs" and ?st0 = "st\<lparr>extendMutex := Some t\<rparr>"
  obtain l where l: "s_get t (dlatch st) = Ret l"
    using section_get [OF free(1)] by metis
  have i0: "dms_inv ?st0" "fresh_base base ?st0" "header_apart ?st0" "mlatch ?st0 = None"
      "npages (body ?st0) + 32 < 4294967295"
    using inv base(2,3) free(3) by (simp_all add: fresh_base_def header_apart_def)
  note e = extendSegment_ok [OF i0(1,5) base(1) i0(2-4) run]
  let ?st1 = "st1\<lparr>extendMutex := None\<rparr>"
  have i1: "dms_inv ?st1" "dms_abs ?st1 = dms_abs st" "body ?st1 = body st @ [base]" "s_free (dlatch ?st1)"
      "dlatch ?st1 = dlatch st"
    using e free(1) by simp_all
  have old: "freeSpace (vmem ?st1) (page_addr (body st) k) = freeSpace (vmem st) (page_addr (body st) k)"
    if "k < npages (body st)" for k
    using e(8) [of k] that by simp
  have new: "rdb (vmem ?st1) (base + 4194304 * k) 28 = page_header" if "k < 32" for k
    using e(5) [OF that] by simp
  obtain k where k: "k < 32" "findPage (?n + 8) ?st1 = npages (body st) + k"
    using findPage_extended [OF inv(1) i1(1) none i1(3) bs(2) new old] by auto
  have room: "\<not> no_room (vmem ?st1) (page_addr (body ?st1) (findPage (?n + 8) ?st1)) ?n"
    unfolding k(2) i1(3) page_addr_append(2) [OF k(1)] using new [OF k(1)] bs(2)
    by (rule fresh_page_room)
  have "findPage (?n + 8) ?st1 \<noteq> DMS_INVALID_PAGEID"
    using k inv(2) by (simp add: layout_simps)
  from insert_retry_ok [OF i1(1,4) bs(1) this refl room, of t evs] obtain st' a where
    r: "insert_retry t bs (int ?n) evs ?st1 = (Ret (EDB_OK, Some (\<lparr>r_pageID = findPage (?n + 8) ?st1,
        r_slotID = numSlots (vmem ?st1) (page_addr (body ?st1) (findPage (?n + 8) ?st1))\<rparr>, a)), st')"
      "dms_inv st'" "dms_abs st' = (dms_abs ?st1)((findPage (?n + 8) ?st1,
        numSlots (vmem ?st1) (page_addr (body ?st1) (findPage (?n + 8) ?st1))) \<mapsto> bs)"
      "dms_abs ?st1 (findPage (?n + 8) ?st1,
        numSlots (vmem ?st1) (page_addr (body ?st1) (findPage (?n + 8) ?st1))) = None"
      "dlatch st' = dlatch ?st1" "extendMutex st' = None"
    by auto
  have "insert_retry t bs (int ?n) (Extend env # evs) st = insert_retry t bs (int ?n) evs ?st1"
    using l none free(2) run e(7)
    by (subst insert_retry.simps) (simp add: Let_def layout_simps edb_codes)
  then show ?thesis
    unfolding r(1)
    by (intro exI conjI, assumption) (use r i1(2,5) in simp_all)
qed

section \<open>When an extension succeeds\<close>

text \<open>An environment in which every call answers at once: each write moves its 64 kB.\<close>

definition good_env :: "nat \<Rightarrow> ext_env" where
  "good_env base = \<lparr>x_stat = None, x_writes = (\<lambda>_. [Moved 65536]), x_map_stat = None, x_map = Inl base\<rparr>"

lemma extendFile_loop_good:
  fixes st :: dmsFile
  assumes "fop_isValid st"
  shows "\<exists>st'. extendFile_loop k (\<lambda>_. [Moved 65536]) i st = Ret (EDB_OK, st') \<and>
    fsize st' = fsize st + k * 65536"
  using assms
proof (induction k arbitrary: i st)
  case (Suc k)
  let ?st1 = "put_bytes (replicate 65536 0) (fop_seekToEnd st)"
  have "fop_isValid ?st1" "fsize ?st1 = fsize st + 65536"
    using Suc.prems by (simp_all add: fop_isValid_def put_bytes_def fop_seekToEnd_def)
  moreover have "fop_Write (replicate 65536 0) 65536 [Moved 65536] (fop_seekToEnd st) = Ret (0, ?st1)"
    using Suc.prems by (simp add: fop_Write_def fop_isValid_def fop_seekToEnd_def Let_def)
  ultimately show ?case
    using Suc.IH [of ?st1 "Suc i"] by (simp add: layout_simps add.assoc)
qed simp

lemma extendSegment_good:
  fixes st :: dmsFile
  assumes "fop_isValid st" "s_free (dlatch st)" "mlatch st = None" "header st = Some h"
    "fsize st + 134217728 < 18446744073709551616"
  shows "\<exists>st'. extendSegment t (good_env base) st = Ret (EDB_OK, st')"
proof -
  obtain st1 where e: "extendFile DMS_FILE_SEGMENT_SIZE (\<lambda>_. [Moved 65536]) st = Ret (EDB_OK, st1)"
      "fsize st1 = fsize st + 134217728"
    using extendFile_loop_good [OF assms(1), of 2048 0] by (auto simp: extendFile_def layout_simps)
  have s: "same_but_file st st1"
    by (rule extendFile_same [OF e(1)])
  let ?f = "st1\<lparr>mlatch := Some t\<rparr>"
  define f2 where "f2 = ?f\<lparr>segments := segments ?f @ [\<lparr>sptr = base, slen = 134217728, soff = fsize st\<rparr>],
      vmem := map_view (vmem ?f) base (fbytes ?f) (fsize st) 134217728\<rparr>"
  define st2 where "st2 = f2\<lparr>mlatch := None\<rparr>"
  have b: "mmap_body (fsize st) 134217728 None (Inl base) ?f = ((EDB_OK, Some base), f2)"
    using e(2) assms(5) by (simp add: mmap_body_def fop_getSize_def f2_def)
  have m: "mmap_map t (fsize st) 134217728 None (Inl base) st1 = Ret ((EDB_OK, Some base), st2)"
    using s assms(3) by (subst mmap_map_eq) (simp_all add: same_but_file_def st2_def b)
  have d2: "dlatch st2 = dlatch st" "header st2 = Some h"
    using s assms(4) by (simp_all add: same_but_file_def st2_def f2_def)
  obtain l where l: "s_get t (dlatch st) = Ret l" "s_release t l = Ret (dlatch st)"
    using section_get [OF assms(2)] .
  have "extendSegment t (good_env base) st = bnd (s_get t (dlatch st2)) (\<lambda>l.
        bnd (add_segment base (st2\<lparr>vmem := init_pages (vmem st2) base, dlatch := l\<rparr>)) (\<lambda>st.
        bnd (s_release t (dlatch st)) (\<lambda>l'. Ret (EDB_OK, st\<lparr>dlatch := l'\<rparr>))))"
    using m e(1) by (simp add: extendSegment_def good_env_def fop_getSize_def edb_codes layout_simps)
  also have "\<dots> = Ret (EDB_OK, (the_ret (add_segment base
      (st2\<lparr>vmem := init_pages (vmem st2) base, dlatch := l\<rparr>)))\<lparr>dlatch := dlatch st\<rparr>)"
    using l d2 by (simp add: add_segment_def Let_def)
  finally show ?thesis
    by blast
qed

section \<open>Limits\<close>

text \<open>
  \<open>DMS_MAX_RECORD\<close> subtracts the size of the file header where a page has the larger page header,
  and \<open>_findPage\<close> wants strictly more than the record needs: from 4194268 bytes on no page ever
  serves, and the retry loop extends the file for as long as it can.
\<close>

definition fsm_small :: "dmsFile \<Rightarrow> bool" where
  "fsm_small st \<longleftrightarrow> (\<forall>e \<in> set (freeSpaceMap st). fst e \<le> 4194276)"

lemma fsm_small_none:
  assumes "fsm_small st" "4194268 \<le> n" "n + 8 < 4294967296"
  shows "findPage (n + 8) st = DMS_INVALID_PAGEID"
proof -
  have "fsm_upper_bound (n + 8) (freeSpaceMap st) = None"
    using assms by (auto simp: fsm_upper_bound_None fsm_small_def)
  then show ?thesis
    using assms(3) by (simp add: findPage_def)
qed

lemma dms_inv_small: "dms_inv st \<Longrightarrow> fsm_small st"
  using fsm_entry_unique page_inv_bounds(4) page_of_inv(1) unfolding fsm_small_def by fastforce

lemma set_fold_fsm_insert:
  "set (fold (\<lambda>i fsm. fsm_insert (k i) (v i) fsm) ks fsm) = (\<lambda>i. (k i, v i)) ` set ks \<union> set fsm"
  by (induction ks arbitrary: fsm) auto

lemma mmap_map_fsm:
  fixes st :: dmsFile
  assumes "mmap_map t off len e a st = Ret (r, st')"
  shows "freeSpaceMap st' = freeSpaceMap st"
proof -
  have body: "freeSpaceMap (snd (mmap_body off len e a f)) = freeSpaceMap f" for f :: dmsFile
    by (simp add: mmap_body_def Let_def split: prod.split sum.split)
  obtain l where l: "x_get t (mlatch st) = Ret l"
    using assms by (auto simp: mmap_map_def bnd_eq_Ret)
  obtain r' f' where f: "mmap_body off len e a (st\<lparr>mlatch := l\<rparr>) = (r', f')"
    by (cases "mmap_body off len e a (st\<lparr>mlatch := l\<rparr>)")
  then have "freeSpaceMap f' = freeSpaceMap st"
    using body [of "st\<lparr>mlatch := l\<rparr>"] by simp
  moreover obtain l' where "st' = f'\<lparr>mlatch := l'\<rparr>"
    using assms l f by (auto simp: mmap_map_def bnd_eq_Ret)
  ultimately show ?thesis
    by simp
qed

lemma add_segment_small: "fsm_small st \<Longrightarrow> add_segment base st = Ret st' \<Longrightarrow> fsm_small st'"
  by (auto simp: add_segment_def Let_def fsm_small_def set_fold_fsm_insert layout_simps split: option.splits)

lemma extendSegment_small:
  assumes "fsm_small st" "extendSegment t env st = Ret (rc, st')"
  shows "fsm_small st'"
proof (cases "fst (fop_getSize (x_stat env) st) = 0")
  case False
  then show ?thesis
    using assms by (auto simp: extendSegment_def split: prod.splits)
next
  case True
  then obtain off where g: "fop_getSize (x_stat env) st = (0, off)"
    by (cases "fop_getSize (x_stat env) st") auto
  then obtain rc1 st1 where e: "extendFile DMS_FILE_SEGMENT_SIZE (x_writes env) st = Ret (rc1, st1)"
    using assms(2) by (auto simp: extendSegment_def bnd_eq_Ret)
  have s1: "fsm_small st1"
    using extendFile_same [OF e] assms(1) by (simp add: fsm_small_def same_but_file_def)
  show ?thesis
  proof (cases "rc1 = 0")
    case False
    then show ?thesis
      using assms(2) g e s1 by (simp add: extendSegment_def)
  next
    case True
    then obtain rc2 a st2 where m: "mmap_map t off DMS_FILE_SEGMENT_SIZE (x_map_stat env) (x_map env) st1 = Ret ((rc2, a), st2)"
      using assms(2) g e by (auto simp: extendSegment_def bnd_eq_Ret)
    have s2: "fsm_small st2"
      using mmap_map_fsm [OF m] s1 by (simp add: fsm_small_def)
    show ?thesis
    proof (cases "rc2 = 0")
      case False
      then show ?thesis
        using assms(2) g e True m s2 by (simp add: extendSegment_def)
    next
      case ok: True
      then obtain base l st3 where "add_segment base (st2\<lparr>vmem := init_pages (vmem st2) base, dlatch := l\<rparr>) = Ret st3"
          "freeSpaceMap st' = freeSpaceMap st3"
        using assms(2) g e True m by (auto simp: extendSegment_def bnd_eq_Ret split: option.splits)
      then show ?thesis
        using s2 add_segment_small [of "st2\<lparr>vmem := init_pages (vmem st2) base, dlatch := l\<rparr>" base st3]
        by (simp add: fsm_small_def)
    qed
  qed
qed

text \<open>Whatever the environment does, such a record is not inserted: the loop ends with an error of
  the extension, or not within the script.\<close>

lemma insert_retry_none:
  assumes "findPage (length bs + 8) st = DMS_INVALID_PAGEID"
    and "insert_retry t bs sz evs st = (Ret (rc, x), st')"
  shows "(\<exists>env evs' rc1 st1 l. evs = Extend env # evs' \<and>
      extendSegment t env (st\<lparr>extendMutex := Some t\<rparr>) = Ret (rc1, st1) \<and>
      (if rc1 \<noteq> 0 then rc = rc1 \<and> x = None
       else insert_retry t bs sz evs' (st1\<lparr>extendMutex := l\<rparr>) = (Ret (rc, x), st'))) \<or>
    (\<exists>s evs' l. evs = Others s # evs' \<and> insert_retry t bs sz evs' (s\<lparr>extendMutex := l\<rparr>) = (Ret (rc, x), st'))"
proof -
  have np: "findPage (length bs + sizeof_dmsRecord) st = DMS_INVALID_PAGEID"
    using assms(1) by (simp add: layout_simps)
  obtain l where l: "s_get t (dlatch st) = Ret l"
    using assms(2) by (subst (asm) insert_retry.simps) (auto split: res.splits)
  note run = assms(2) [unfolded insert_retry.simps [of t bs sz evs st] l res.case Let_def np]
  show ?thesis
  proof (cases evs)
    case Nil
    with run show ?thesis
      by simp
  next
    case (Cons ev evs')
    show ?thesis
    proof (cases ev)
      case (Extend env)
      have f: "extendMutex st = None"
        using run Cons Extend by (cases "extendMutex st") auto
      obtain rc1 st1 where e: "extendSegment t env (st\<lparr>extendMutex := Some t\<rparr>) = Ret (rc1, st1)"
        using run Cons Extend f by (auto split: res.splits)
      show ?thesis
        using run Cons Extend f e by (auto split: res.splits if_splits)
    next
      case (Others s)
      have f: "extendMutex s = None"
        using run Cons Others by (cases "extendMutex s") auto
      show ?thesis
        using run Cons Others f by auto
    qed
  qed
qed

lemma insert_retry_big:
  assumes n: "4194268 \<le> length bs" "length bs + 8 < 4294967296" and "fsm_small st"
    "\<And>s. Others s \<in> set evs \<Longrightarrow> fsm_small s"
    and "insert_retry t bs sz evs st = (Ret (rc, x), st')"
  shows "rc \<noteq> EDB_OK \<and> x = None"
  using assms(3-5)
proof (induction "length evs" arbitrary: evs st)
  case 0
  then show ?case
    using insert_retry_none [OF fsm_small_none [OF 0(2) n]] by fastforce
next
  case (Suc k)
  from insert_retry_none [OF fsm_small_none [OF Suc.prems(1) n] Suc.prems(3)] show ?case
  proof (elim disjE exE conjE)
    fix env evs' rc1 st1 l
    assume e: "evs = Extend env # evs'" "extendSegment t env (st\<lparr>extendMutex := Some t\<rparr>) = Ret (rc1, st1)"
      "if rc1 \<noteq> 0 then rc = rc1 \<and> x = None
       else insert_retry t bs sz evs' (st1\<lparr>extendMutex := l\<rparr>) = (Ret (rc, x), st')"
    show ?thesis
    proof (cases "rc1 = 0")
      case True
      have "fsm_small (st\<lparr>extendMutex := Some t\<rparr>)"
        using Suc.prems(1) by (simp add: fsm_small_def)
      from extendSegment_small [OF this e(2)] have "fsm_small (st1\<lparr>extendMutex := l\<rparr>)"
        by (simp add: fsm_small_def)
      with Suc.hyps Suc.prems(2) e True show ?thesis
        by (auto intro!: Suc.hyps(1) [of evs' "st1\<lparr>extendMutex := l\<rparr>"])
    qed (use e(3) in \<open>simp add: edb_codes\<close>)
  next
    fix s evs' l
    assume e: "evs = Others s # evs'" "insert_retry t bs sz evs' (s\<lparr>extendMutex := l\<rparr>) = (Ret (rc, x), st')"
    have "fsm_small (s\<lparr>extendMutex := l\<rparr>)"
      using Suc.prems(2) [of s] e(1) by (simp add: fsm_small_def)
    with Suc.hyps Suc.prems(2) e show ?thesis
      by (intro Suc.hyps(1) [of evs' "s\<lparr>extendMutex := l\<rparr>"]) auto
  qed
qed

text \<open>
  The slot behind the last one: on a page that was never written to, slot 0 reads 0, which is
  taken for a record at the start of the page; its \<open>flag\<close> word is the page size, its data the
  page flag, an invalid object size.  The exception leaves the shared latch held, and no writer
  gets in again.
\<close>

lemma find_fresh_slot:
  assumes np: "pid < npages (body st)" "npages (body st) < 4294967295"
    and pg: "rdb (vmem st) (page_addr (body st) pid) 28 = page_header"
      "rd32 (vmem st) (page_addr (body st) pid + 28) = 0"
    and w: "writer (dlatch st) = None"
  shows "dms_find t \<lparr>r_pageID = pid, r_slotID = 0\<rparr> st =
    (Raise 10334, st\<lparr>dlatch := (dlatch st)\<lparr>readers := t # readers (dlatch st)\<rparr>\<rparr>)"
proof -
  let ?m = "vmem st" and ?p = "page_addr (body st) pid"
  have "numSlots ?m ?p = 0"
    by (rule fresh_page(4) [OF pg(1)])
  moreover have "slot ?m ?p 0 = 0"
    using pg(2) by (simp add: slot_def slot_addr_def layout_simps)
  moreover have "rec_flag ?m ?p 0 = 4194304" "rd32 ?m (?p + 8) = 0"
    using rdb_sub [of 4 4 28 ?m ?p] rdb_sub [of 8 4 28 ?m ?p] pg(1)
    by (simp_all add: rec_flag_def rd32_def page_header_def DMS_PAGE_EYECATCHER_def layout_simps)
  ultimately have "find_body \<lparr>r_pageID = pid, r_slotID = 0\<rparr> st = Raise 10334"
    using np by (simp add: find_body_def pageToOffset_inv searchSlot_def edb_codes layout_simps Let_def)
  then show ?thesis
    using w by (simp add: dms_find_def s_get_shared_def)
qed

lemma reader_blocks_insert:
  "readers (dlatch st) \<noteq> [] \<Longrightarrow> insert_retry u bs sz evs st = (Wait, st)"
  by (subst insert_retry.simps) (simp add: s_get_def)

section \<open>Reloading\<close>

text \<open>After a load every page id in the free space map is below 32, however many segments there are.\<close>

lemma load_segments_ids:
  "load_segments t n i envs st = Ret (rc, st') \<Longrightarrow> \<forall>e \<in> set (freeSpaceMap st). snd e < 32 \<Longrightarrow>
     \<forall>e \<in> set (freeSpaceMap st'). snd e < 32"
proof (induction n arbitrary: i st)
  case (Suc n)
  obtain rc1 a st1 where m: "mmap_map t (segment_offset (int i)) DMS_FILE_SEGMENT_SIZE (fst (envs i)) (snd (envs i)) st
      = Ret ((rc1, a), st1)"
    using Suc.prems(1) by (auto simp: bnd_eq_Ret)
  have f: "freeSpaceMap st1 = freeSpaceMap st"
    by (rule mmap_map_fsm [OF m])
  show ?case
  proof (cases "rc1 = 0")
    case True
    then obtain base where b: "load_segments t n (Suc i) envs (load_pages base st1) = Ret (rc, st')"
      using Suc.prems(1) m by (auto split: option.splits)
    have "\<forall>e \<in> set (freeSpaceMap (load_pages base st1)). snd e < 32"
      using Suc.prems(2) f by (auto simp: load_pages_def set_fold_fsm_insert layout_simps)
    with Suc.IH [OF b] show ?thesis
      by blast
  next
    case False
    with Suc.prems m f show ?thesis
      by auto
  qed
qed simp

lemma loadData_cases:
  assumes "loadData t henv envs st = Ret (rc, st')" "freeSpaceMap st = []"
  shows "\<exists>st0. freeSpaceMap st0 = [] \<and> (st' = st0 \<or> (\<exists>n. load_segments t n 0 envs st0 = Ret (rc, st')))"
proof -
  obtain rc0 st0 where h: "(case header st of Some h \<Rightarrow> Ret (EDB_OK, st)
          | None \<Rightarrow> bnd (mmap_map t 0 DMS_FILE_HEADER_SIZE (fst henv) (snd henv) st)
              (\<lambda>((rc, a), st). Ret (rc, if rc = 0 then st\<lparr>header := a\<rparr> else st))) = Ret (rc0, st0)"
    using assms(1) by (auto simp: loadData_def bnd_eq_Ret)
  then have "freeSpaceMap st0 = []"
    using assms(2) mmap_map_fsm by (fastforce simp: bnd_eq_Ret split: option.splits if_splits)
  moreover have "st' = st0 \<or> (\<exists>n. load_segments t n 0 envs st0 = Ret (rc, st'))"
    using assms(1) unfolding loadData_def h by (auto simp: Let_def split: if_splits option.splits)
  ultimately show ?thesis
    by blast
qed

end
