(* ===== verification/RecordStore.thy ===== *)
theory RecordStore
  imports Prelude
begin

text \<open>
  The interface between the runtime and the storage: a store of documents under keys it chooses
  itself.  \<open>abs\<close> is the map the store stands for; \<open>ins\<close> is called by a caller in an environment
  that may make the call fail, or not return (\<open>None\<close>); \<open>blind\<close> are the keys without a document
  for which the store promises nothing.  The laws are what the storage promises, and the lemmas in
  the locale are what its clients may conclude from them, for single calls and for histories.
\<close>

locale record_store =
  fixes inv :: "'s \<Rightarrow> bool" and ok :: "'d \<Rightarrow> bool" and abs :: "'s \<Rightarrow> 'k \<Rightarrow> 'd option"
    and env_ok :: "'c \<Rightarrow> 'e \<Rightarrow> 's \<Rightarrow> bool" and blind :: "'s \<Rightarrow> 'k \<Rightarrow> bool"
    and ins :: "'c \<Rightarrow> 'e \<Rightarrow> 'd \<Rightarrow> 's \<Rightarrow> ('k option \<times> 's) option"
    and del :: "'c \<Rightarrow> 'k \<Rightarrow> 's \<Rightarrow> bool \<times> 's" and get :: "'c \<Rightarrow> 'k \<Rightarrow> 's \<Rightarrow> 'd option"
  assumes ins_ok: "inv s \<Longrightarrow> ok d \<Longrightarrow> env_ok c e s \<Longrightarrow> ins c e d s = Some (Some k, s') \<Longrightarrow>
      inv s' \<and> abs s k = None \<and> abs s' = (abs s)(k \<mapsto> d)"
    and ins_fail: "inv s \<Longrightarrow> ok d \<Longrightarrow> env_ok c e s \<Longrightarrow> ins c e d s = Some (None, s') \<Longrightarrow>
      inv s' \<and> abs s' = abs s"
    and del_ok: "inv s \<Longrightarrow> abs s k = Some d \<Longrightarrow>
      \<exists>s'. del c k s = (True, s') \<and> inv s' \<and> abs s' = (abs s)(k := None)"
    and del_none: "inv s \<Longrightarrow> abs s k = None \<Longrightarrow> \<not> blind s k \<Longrightarrow> del c k s = (False, s)"
    and get_ok: "inv s \<Longrightarrow> abs s k = Some d \<Longrightarrow> get c k s = Some d"
    and get_none: "inv s \<Longrightarrow> abs s k = None \<Longrightarrow> \<not> blind s k \<Longrightarrow> get c k s = None"
begin

lemma get_abs: "inv s \<Longrightarrow> abs s k \<noteq> None \<or> \<not> blind s k \<Longrightarrow> get c k s = abs s k"
  using get_ok get_none by (cases "abs s k") auto

lemma del_abs:
  assumes "inv s" "abs s k \<noteq> None \<or> \<not> blind s k" "del c k s = (b, s')"
  shows "b = (abs s k \<noteq> None) \<and> inv s' \<and> abs s' = (abs s)(k := None)"
proof (cases "abs s k")
  case None
  with assms del_none [OF assms(1) None, of c] show ?thesis
    by (auto simp: fun_upd_idem)
next
  case (Some d)
  with assms(3) del_ok [OF assms(1) Some, of c] show ?thesis
    by auto
qed

lemma ins_then_del:
  assumes "inv s" "ok d" "env_ok c e s" "ins c e d s = Some (Some k, s')"
  shows "\<exists>s''. del c' k s' = (True, s'') \<and> inv s'' \<and> abs s'' = abs s"
proof -
  have i: "inv s'" "abs s k = None" "abs s' = (abs s)(k \<mapsto> d)"
    using ins_ok [OF assms] by simp_all
  then obtain s'' where "del c' k s' = (True, s'')" "inv s''" "abs s'' = (abs s')(k := None)"
    using del_ok [of s' k d] by fastforce
  moreover have "(abs s')(k := None) = abs s"
    using i by (auto simp: fun_eq_iff)
  ultimately show ?thesis
    by simp
qed

text \<open>
  A history: insertions that return, successful or not, and removals, by any callers, one call
  after the other.  The map beside it is what these calls should have left there.
\<close>

inductive history :: "'s \<Rightarrow> ('k \<Rightarrow> 'd option) \<Rightarrow> 's \<Rightarrow> ('k \<Rightarrow> 'd option) \<Rightarrow> bool" where
  hist_nil: "history s m s m"
| hist_ins: "history s m s' m' \<Longrightarrow> ok d \<Longrightarrow> env_ok c e s' \<Longrightarrow> ins c e d s' = Some (Some k, s'') \<Longrightarrow>
    history s m s'' (m'(k \<mapsto> d))"
| hist_ins_fail: "history s m s' m' \<Longrightarrow> ok d \<Longrightarrow> env_ok c e s' \<Longrightarrow> ins c e d s' = Some (None, s'') \<Longrightarrow>
    history s m s'' m'"
| hist_del: "history s m s' m' \<Longrightarrow> m' k \<noteq> None \<or> \<not> blind s' k \<Longrightarrow> del c k s' = (b, s'') \<Longrightarrow>
    history s m s'' (m'(k := None))"

lemma history_abs: "history s m s' m' \<Longrightarrow> inv s \<Longrightarrow> abs s = m \<Longrightarrow> inv s' \<and> abs s' = m'"
proof (induction rule: history.induct)
  case (hist_ins s m s' m' d c e k s'')
  then show ?case
    using ins_ok by metis
next
  case (hist_ins_fail s m s' m' d c e s'')
  then show ?case
    using ins_fail by metis
next
  case (hist_del s m s' m' k c b s'')
  then have "inv s'" "abs s' = m'"
    by auto
  with del_abs [of s' k c b s''] hist_del show ?case
    by simp
qed simp

lemma history_get:
  "history s (abs s) s' m' \<Longrightarrow> inv s \<Longrightarrow> m' k \<noteq> None \<or> \<not> blind s' k \<Longrightarrow> get c k s' = m' k"
  using history_abs get_abs by blast

end

end
