(* ===== verification/DmsHistory.thy ===== *)
theory DmsHistory
  imports DmsLimits RecordStore
begin

text \<open>
  Histories of calls on one data file: the calls of \<open>dmsFile\<close> as an instance of the interface of a
  record store, with insertions that extend the file, or fail to, as often as the environment lets
  them.
\<close>

section \<open>What the calls leave alone\<close>

definition same_map :: "dmsFile \<Rightarrow> dmsFile \<Rightarrow> bool" where
  "same_map st st' \<longleftrightarrow> body st' = body st \<and> header st' = header st \<and> mlatch st' = mlatch st \<and>
     extendMutex st' = extendMutex st"

lemma same_map_latch: "same_map (st\<lparr>dlatch := l\<rparr>) st' \<Longrightarrow> same_map st st'"
  by (simp add: same_map_def)

lemma unlatched_map: "same_map st (snd r) \<Longrightarrow> same_map st (snd (unlatched t r))"
  by (auto simp: unlatched_def same_map_def split: prod.splits res.splits)

lemma insert_page_map: "same_map st (snd (insert_page pid bs sz st))"
  by (simp add: insert_page_def Let_def updateFreeSpace_def same_map_def split: option.splits)

lemma remove_body_map: "same_map st (snd (remove_body rid st))"
  by (simp add: remove_body_def Let_def updateFreeSpace_def same_map_def split: option.splits prod.splits)

lemma dms_remove_map: "same_map st (snd (dms_remove t rid st))"
proof (cases "s_get t (dlatch st)")
  case (Ret l)
  then show ?thesis
    using same_map_latch [OF unlatched_map [OF remove_body_map]] by (simp add: dms_remove_def)
qed (simp_all add: dms_remove_def same_map_def)

lemma insert_found_map:
  assumes "findPage (length bs + 8) st \<noteq> DMS_INVALID_PAGEID"
  shows "same_map st (snd (insert_retry t bs sz evs st))"
proof (cases "s_get t (dlatch st)")
  case (Ret l)
  then show ?thesis
    using same_map_latch [OF unlatched_map [OF insert_page_map]] assms
    by (subst insert_retry.simps) (simp add: Let_def layout_simps)
qed (subst insert_retry.simps; simp add: same_map_def)+

section \<open>Extensions that fail\<close>

text \<open>An extension that fails may leave the file longer, and nothing else.\<close>

lemma extendSegment_fail:
  assumes "extendSegment t env st = Ret (rc, st')" "rc \<noteq> EDB_OK" "mlatch st = None"
  shows "same_but_file st st'"
proof -
  have rfl: "same_but_file st st"
    by (simp add: same_but_file_def)
  obtain rc0 off where g: "fop_getSize (x_stat env) st = (rc0, off)"
    by (cases "fop_getSize (x_stat env) st")
  show ?thesis
  proof (cases "rc0 = 0")
    case False
    with assms(1) g rfl show ?thesis
      by (simp add: extendSegment_def)
  next
    case True
    then obtain rc1 st1 where e: "extendFile DMS_FILE_SEGMENT_SIZE (x_writes env) st = Ret (rc1, st1)"
      using assms(1) g by (auto simp: extendSegment_def bnd_eq_Ret)
    note s1 = extendFile_same [OF e]
    show ?thesis
    proof (cases "rc1 = 0")
      case False
      with assms(1) g True e s1 show ?thesis
        by (simp add: extendSegment_def)
    next
      case one: True
      have ml: "mlatch st1 = None"
        using s1 assms(3) by (simp add: same_but_file_def)
      obtain rc2 a st2 where b: "mmap_body off DMS_FILE_SEGMENT_SIZE (x_map_stat env) (x_map env)
          (st1\<lparr>mlatch := Some t\<rparr>) = ((rc2, a), st2)"
        by (cases "mmap_body off DMS_FILE_SEGMENT_SIZE (x_map_stat env) (x_map env) (st1\<lparr>mlatch := Some t\<rparr>)") auto
      show ?thesis
      proof (cases "rc2 = 0")
        case False
        then have "st2 = st1\<lparr>mlatch := Some t\<rparr>"
          using b by (auto simp: mmap_body_def edb_codes Let_def split: prod.splits if_splits sum.splits)
        moreover have "st' = st2\<lparr>mlatch := None\<rparr>"
          using assms(1) g True e one b ml False by (simp add: extendSegment_def mmap_map_eq)
        ultimately have "st' = st1"
          using ml by simp
        with s1 show ?thesis
          by simp
      next
        case False: True
        then show ?thesis
          using assms(1,2) g True e one b ml
          by (auto simp: extendSegment_def mmap_map_eq bnd_eq_Ret split: option.splits)
      qed
    qed
  qed
qed

text \<open>A successful one has mapped something, and gives its own latch back.\<close>

lemma extendSegment_mapped:
  assumes "extendSegment t env st = Ret (EDB_OK, st')" "mlatch st = None"
  shows "\<exists>base. x_map env = Inl base" "mlatch st' = None"
proof -
  obtain off where g: "fop_getSize (x_stat env) st = (0, off)"
    using assms(1) by (cases "fop_getSize (x_stat env) st") (auto simp: extendSegment_def edb_codes split: if_splits)
  obtain st1 where e: "extendFile DMS_FILE_SEGMENT_SIZE (x_writes env) st = Ret (EDB_OK, st1)"
    using assms(1) g by (auto simp: extendSegment_def bnd_eq_Ret edb_codes split: if_splits)
  have ml: "mlatch st1 = None"
    using extendFile_same [OF e] assms(2) by (simp add: same_but_file_def)
  obtain a st2 where b: "mmap_body off DMS_FILE_SEGMENT_SIZE (x_map_stat env) (x_map env)
      (st1\<lparr>mlatch := Some t\<rparr>) = ((EDB_OK, a), st2)"
    using assms(1) g e ml
    by (cases "mmap_body off DMS_FILE_SEGMENT_SIZE (x_map_stat env) (x_map env) (st1\<lparr>mlatch := Some t\<rparr>)")
       (auto simp: extendSegment_def bnd_eq_Ret edb_codes mmap_map_eq split: if_splits)
  show "\<exists>base. x_map env = Inl base"
    using b by (cases "x_map env") (auto simp: mmap_body_def edb_codes Let_def layout_simps split: prod.splits if_splits)
  show "mlatch st' = None"
    using assms(1) g e ml b
    by (auto simp: extendSegment_def mmap_map_eq bnd_eq_Ret add_segment_def Let_def edb_codes split: option.splits)
qed

section \<open>The data file as a record store\<close>

text \<open>
  The state between two calls, and the extensions an insertion may try, one after the other:
  \<open>mmap\<close> hands out an address range that overlaps nothing, and the ids of the pages do not run out.
\<close>

definition store_inv :: "dmsFile \<Rightarrow> bool" where
  "store_inv st \<longleftrightarrow> dms_inv st \<and> s_free (dlatch st) \<and> extendMutex st = None \<and> mlatch st = None \<and>
     header_apart st"

definition store_ok :: "u8 list \<Rightarrow> bool" where
  "store_ok bs \<longleftrightarrow> (\<exists>fs. obj_in (bs, 0) fs \<and> bs = enc_obj fs)"

fun ext_ok :: "tid \<Rightarrow> retry_event list \<Rightarrow> dmsFile \<Rightarrow> bool" where
  "ext_ok t [] st \<longleftrightarrow> True"
| "ext_ok t (Extend env # evs) st \<longleftrightarrow> npages (body st) + 32 < 4294967295 \<and>
     (case x_map env of Inl base \<Rightarrow> fresh_base base st | Inr e \<Rightarrow> True) \<and>
     (case extendSegment t env (st\<lparr>extendMutex := Some t\<rparr>) of
        Ret (rc, st') \<Rightarrow> rc = EDB_OK \<longrightarrow> ext_ok t evs (st'\<lparr>extendMutex := None\<rparr>) | _ \<Rightarrow> True)"
| "ext_ok t (Others st' # evs) st \<longleftrightarrow> False"

definition store_ins :: "tid \<Rightarrow> retry_event list \<Rightarrow> u8 list \<Rightarrow> dmsFile \<Rightarrow> ((nat \<times> nat) option \<times> dmsFile) option" where
  "store_ins t evs bs st = (case dms_insert t (bs, 0) evs st of
     Some (Ret (rc, Some (rid, a)), st') \<Rightarrow> Some (Some (r_pageID rid, r_slotID rid), st')
   | Some (Ret (rc, None), st') \<Rightarrow> Some (None, st')
   | _ \<Rightarrow> None)"

definition store_del :: "tid \<Rightarrow> nat \<times> nat \<Rightarrow> dmsFile \<Rightarrow> bool \<times> dmsFile" where
  "store_del t k st = (case dms_remove t \<lparr>r_pageID = fst k, r_slotID = snd k\<rparr> st of
     (Ret rc, st') \<Rightarrow> (rc = EDB_OK, st') | (_, st') \<Rightarrow> (False, st'))"

definition store_get :: "tid \<Rightarrow> nat \<times> nat \<Rightarrow> dmsFile \<Rightarrow> u8 list option" where
  "store_get t k st = (case dms_find t \<lparr>r_pageID = fst k, r_slotID = snd k\<rparr> st of
     (Ret (rc, bs), _) \<Rightarrow> (if rc = EDB_OK then bs else None) | _ \<Rightarrow> None)"

text \<open>The slot just behind the last one of a page, which the look-up lets through.\<close>

definition behind_last :: "dmsFile \<Rightarrow> nat \<times> nat \<Rightarrow> bool" where
  "behind_last st k \<longleftrightarrow> fst k < npages (body st) \<and>
     snd k = numSlots (vmem st) (page_addr (body st) (fst k))"

lemma store_inv_map:
  assumes "same_map st st'" "store_inv st" "dms_inv st'" "dlatch st' = dlatch st"
  shows "store_inv st'"
proof -
  have "header_apart st' = header_apart st"
    using assms(1) by (simp add: header_apart_def same_map_def)
  with assms show ?thesis
    by (simp add: store_inv_def same_map_def)
qed

text \<open>One turn of the retry loop that extends.\<close>

lemma insert_retry_turn:
  assumes "findPage (length bs + 8) st = DMS_INVALID_PAGEID" "store_inv st"
    and "insert_retry t bs sz (Extend env # evs) st = (Ret (rc, x), st')"
  shows "\<exists>rc1 st1. extendSegment t env (st\<lparr>extendMutex := Some t\<rparr>) = Ret (rc1, st1) \<and>
    (extendMutex st1 = Some t \<longrightarrow>
      (if rc1 \<noteq> EDB_OK then rc = rc1 \<and> x = None \<and> st' = st1\<lparr>extendMutex := None\<rparr>
       else insert_retry t bs sz evs (st1\<lparr>extendMutex := None\<rparr>) = (Ret (rc, x), st')))"
proof -
  obtain l where l: "s_get t (dlatch st) = Ret l"
    using assms(2) section_get unfolding store_inv_def by metis
  have np: "findPage (length bs + sizeof_dmsRecord) st = DMS_INVALID_PAGEID"
    using assms(1) by (simp add: layout_simps)
  have x: "x_get t (extendMutex st) = Ret (Some t)"
    using assms(2) by (simp add: store_inv_def)
  note run = assms(3) [unfolded insert_retry.simps [of t bs sz "Extend env # evs" st] l res.case Let_def np]
  obtain rc1 st1 where e: "extendSegment t env (st\<lparr>extendMutex := Some t\<rparr>) = Ret (rc1, st1)"
    using run x by (auto split: res.splits)
  show ?thesis
    by (intro exI [of _ rc1] exI [of _ st1] conjI e impI) (use run x e in \<open>simp add: edb_codes split: if_splits\<close>)
qed

lemma extend_ok_inv:
  assumes inv: "store_inv st" and env: "ext_ok t (Extend env # evs) st"
    and run: "extendSegment t env (st\<lparr>extendMutex := Some t\<rparr>) = Ret (EDB_OK, st1)"
  shows "store_inv (st1\<lparr>extendMutex := None\<rparr>)" "dms_abs (st1\<lparr>extendMutex := None\<rparr>) = dms_abs st"
    "ext_ok t evs (st1\<lparr>extendMutex := None\<rparr>)" "extendMutex st1 = Some t"
proof -
  let ?st0 = "st\<lparr>extendMutex := Some t\<rparr>"
  have i0: "dms_inv ?st0" "mlatch ?st0 = None" "header_apart ?st0" "npages (body ?st0) + 32 < 4294967295"
    using inv env by (simp_all add: store_inv_def header_apart_def)
  obtain base where base: "x_map env = Inl base" and ml: "mlatch st1 = None"
    using extendSegment_mapped [OF run i0(2)] by blast
  then have "fresh_base base ?st0"
    using env by (simp add: fresh_base_def)
  note e = extendSegment_ok [OF i0(1,4) base this i0(3,2) run]
  show "extendMutex st1 = Some t"
    using e(7) by simp
  show "store_inv (st1\<lparr>extendMutex := None\<rparr>)"
    using e(1,4,6) inv ml by (simp add: store_inv_def header_apart_def)
  show "dms_abs (st1\<lparr>extendMutex := None\<rparr>) = dms_abs st"
    using e(2) by simp
  show "ext_ok t evs (st1\<lparr>extendMutex := None\<rparr>)"
    using env run by simp
qed

lemma extend_fail_inv:
  assumes inv: "store_inv st" and rc: "rc1 \<noteq> EDB_OK"
    and run: "extendSegment t env (st\<lparr>extendMutex := Some t\<rparr>) = Ret (rc1, st1)"
  shows "store_inv (st1\<lparr>extendMutex := None\<rparr>)" "dms_abs (st1\<lparr>extendMutex := None\<rparr>) = dms_abs st"
    "extendMutex st1 = Some t"
proof -
  have same: "same_but_file (st\<lparr>extendMutex := Some t\<rparr>) st1"
    using extendSegment_fail [OF run rc] inv by (simp add: store_inv_def)
  note s = same_but_file_inv [OF same]
  show "extendMutex st1 = Some t"
    using same by (simp add: same_but_file_def)
  show "store_inv (st1\<lparr>extendMutex := None\<rparr>)"
    using inv s(1,3) same by (simp add: store_inv_def header_apart_def same_but_file_def)
  show "dms_abs (st1\<lparr>extendMutex := None\<rparr>) = dms_abs st"
    using s(2) by simp
qed

text \<open>Every insertion that returns, through any number of extensions.\<close>

lemma insert_found:
  assumes inv: "store_inv st" and ok: "rec_valid bs" "length bs \<le> DMS_MAX_RECORD" and f: "findPage (length bs + 8) st \<noteq> DMS_INVALID_PAGEID"
    and run: "insert_retry t bs (int (length bs)) evs st = (Ret (rc, x), st')"
  shows "store_inv st' \<and> (case x of
      None \<Rightarrow> dms_abs st' = dms_abs st
    | Some (rid, a) \<Rightarrow> dms_abs st (r_pageID rid, r_slotID rid) = None \<and>
        dms_abs st' = (dms_abs st)((r_pageID rid, r_slotID rid) \<mapsto> bs))"
proof -
  have a: "dms_inv st" "s_free (dlatch st)" "rec_valid bs" "length bs \<le> DMS_MAX_RECORD"
    using inv ok by (simp_all add: store_inv_def)
  have m: "same_map st st'"
    using insert_found_map [OF f, of t "int (length bs)" evs] run by simp
  show ?thesis
  proof (cases "no_room (vmem st) (page_addr (body st) (findPage (length bs + 8) st)) (length bs)")
    case True
    from insert_retry_sys [OF a(1,2,4) f refl True, of t "int (length bs)" evs] run
      store_inv_map [OF m inv] show ?thesis
      by auto
  next
    case False
    from insert_retry_ok [OF a(1-3) f refl False, of t evs] run store_inv_map [OF m inv] show ?thesis
      by auto
  qed
qed

lemma retry_inserts:
  assumes "store_inv st" "rec_valid bs" "length bs \<le> DMS_MAX_RECORD" "ext_ok t evs st"
    and "insert_retry t bs (int (length bs)) evs st = (Ret (rc, x), st')"
  shows "store_inv st' \<and> (case x of
      None \<Rightarrow> dms_abs st' = dms_abs st
    | Some (rid, a) \<Rightarrow> dms_abs st (r_pageID rid, r_slotID rid) = None \<and>
        dms_abs st' = (dms_abs st)((r_pageID rid, r_slotID rid) \<mapsto> bs))"
  using assms(1,4,5)
proof (induction evs arbitrary: st)
  case Nil
  show ?case
  proof (cases "findPage (length bs + 8) st = DMS_INVALID_PAGEID")
    case True
    then show ?thesis
      using insert_retry_none [OF True Nil(3)] by simp
  next
    case False
    then show ?thesis
      by (rule insert_found [OF Nil(1) assms(2,3) _ Nil(3)])
  qed
next
  case (Cons ev evs)
  show ?case
  proof (cases "findPage (length bs + 8) st = DMS_INVALID_PAGEID")
    case False
    then show ?thesis
      by (rule insert_found [OF Cons(2) assms(2,3) _ Cons(4)])
  next
    case True
    obtain env where ev: "ev = Extend env"
      using Cons(3) by (cases ev) simp_all
    obtain rc1 st1 where run: "extendSegment t env (st\<lparr>extendMutex := Some t\<rparr>) = Ret (rc1, st1)"
      and r: "extendMutex st1 = Some t \<Longrightarrow>
        (if rc1 \<noteq> EDB_OK then rc = rc1 \<and> x = None \<and> st' = st1\<lparr>extendMutex := None\<rparr>
         else insert_retry t bs (int (length bs)) evs (st1\<lparr>extendMutex := None\<rparr>) = (Ret (rc, x), st'))"
      using insert_retry_turn [OF True Cons(2) Cons(4) [unfolded ev]] by blast
    show ?thesis
    proof (cases "rc1 = EDB_OK")
      case False
      from extend_fail_inv [OF Cons(2) False run] r False show ?thesis
        by simp
    next
      case ok: True
      note e = extend_ok_inv [OF Cons(2) Cons(3) [unfolded ev] run [unfolded ok]]
      from r [OF e(4)] ok have "insert_retry t bs (int (length bs)) evs (st1\<lparr>extendMutex := None\<rparr>) = (Ret (rc, x), st')"
        by simp
      from Cons.IH [OF e(1,3) this] show ?thesis
        unfolding e(2) .
    qed
  qed
qed

text \<open>The whole of \<open>insert\<close>: what its checks refuse changes nothing.\<close>

lemma store_insert:
  assumes "store_inv st" "store_ok bs" "ext_ok t evs st" "dms_insert t (bs, 0) evs st = Some (Ret (rc, x), st')"
  shows "store_inv st' \<and> (case x of
      None \<Rightarrow> dms_abs st' = dms_abs st
    | Some (rid, a) \<Rightarrow> dms_abs st (r_pageID rid, r_slotID rid) = None \<and>
        dms_abs st' = (dms_abs st)((r_pageID rid, r_slotID rid) \<mapsto> bs))"
proof -
  obtain fs where fs: "obj_in (bs, 0) fs" "bs = enc_obj fs"
    using assms(2) by (auto simp: store_ok_def)
  note run = assms(4) [unfolded dms_insert_checked [OF fs(1)] fs(2) [symmetric]]
  show ?thesis
  proof (cases "length bs > DMS_MAX_RECORD \<or> map_of fs str_id = None")
    case True
    with run assms(1) show ?thesis
      by simp
  next
    case False
    have "rec_valid bs"
      using fs by (simp add: obj_in_def rec_valid_enc)
    moreover have "insert_retry t bs (int (length bs)) evs st = (Ret (rc, x), st')"
      using False run by (auto simp del: insert_retry.simps)
    ultimately show ?thesis
      using False by (intro retry_inserts [OF assms(1) _ _ assms(3)]) simp_all
  qed
qed

lemma store_ins_Some:
  "store_ins t evs bs st = Some (Some k, st') \<Longrightarrow> \<exists>rc rid a. k = (r_pageID rid, r_slotID rid) \<and>
     dms_insert t (bs, 0) evs st = Some (Ret (rc, Some (rid, a)), st')"
  "store_ins t evs bs st = Some (None, st') \<Longrightarrow> \<exists>rc. dms_insert t (bs, 0) evs st = Some (Ret (rc, None), st')"
  by (auto simp: store_ins_def split: prod.splits res.splits option.splits)

interpretation dms_store: record_store store_inv store_ok dms_abs ext_ok behind_last store_ins store_del store_get
proof unfold_locales
  show "store_inv s' \<and> dms_abs s k = None \<and> dms_abs s' = (dms_abs s)(k \<mapsto> d)"
    if i: "store_inv s" "store_ok d" "ext_ok c e s" and r: "store_ins c e d s = Some (Some k, s')" for s d c e k s'
  proof -
    obtain rc rid a where run: "dms_insert c (d, 0) e s = Some (Ret (rc, Some (rid, a)), s')"
        "k = (r_pageID rid, r_slotID rid)"
      using store_ins_Some(1) [OF r] by blast
    from store_insert [OF i run(1)] run(2) show ?thesis
      by simp
  qed
  show "store_inv s' \<and> dms_abs s' = dms_abs s"
    if i: "store_inv s" "store_ok d" "ext_ok c e s" and r: "store_ins c e d s = Some (None, s')" for s d c e s'
  proof -
    obtain rc where run: "dms_insert c (d, 0) e s = Some (Ret (rc, None), s')"
      using store_ins_Some(2) [OF r] by blast
    from store_insert [OF i run] show ?thesis
      by simp
  qed
  show "\<exists>s'. store_del c k s = (True, s') \<and> store_inv s' \<and> dms_abs s' = (dms_abs s)(k := None)"
    if i: "store_inv s" and k: "dms_abs s k = Some d" for s k d c
  proof -
    let ?rid = "\<lparr>r_pageID = fst k, r_slotID = snd k\<rparr>"
    obtain s' where r: "dms_remove c ?rid s = (Ret EDB_OK, s')" "dms_inv s'"
        "dms_abs s' = (dms_abs s)(k := None)" "dlatch s' = dlatch s"
      using dms_remove_ok [of s ?rid d c] i k by (auto simp: store_inv_def)
    then have "store_inv s'"
      using store_inv_map [OF _ i] dms_remove_map [of s c ?rid] by simp
    with r show ?thesis
      by (simp add: store_del_def)
  qed
  show "store_del c k s = (False, s)" if "store_inv s" "dms_abs s k = None" "\<not> behind_last s k" for s k c
    using dms_remove_bad [of s "\<lparr>r_pageID = fst k, r_slotID = snd k\<rparr>" c] that
    by (auto simp: store_inv_def store_del_def behind_last_def edb_codes)
  show "store_get c k s = Some d" if "store_inv s" "dms_abs s k = Some d" for s k d c
    using dms_find_ok [of s "\<lparr>r_pageID = fst k, r_slotID = snd k\<rparr>" d c] that
    by (auto simp: store_inv_def store_get_def s_free_def)
  show "store_get c k s = None" if "store_inv s" "dms_abs s k = None" "\<not> behind_last s k" for s k c
    using dms_find_bad [of s "\<lparr>r_pageID = fst k, r_slotID = snd k\<rparr>" c] that
    by (auto simp: store_inv_def store_get_def s_free_def behind_last_def edb_codes)
qed

end
