(* ===== verification/DmsDemo.thy ===== *)
theory DmsDemo
  imports DmsHistory
begin

text \<open>
  A concrete data file for the closed instances of the properties: an opened file of one header
  page, the file after its first extension (one segment at address 65536), and the file after the
  document \<open>{_id: 1}\<close> was inserted.
\<close>

definition demo_empty :: dmsFile where
  "demo_empty = \<lparr>fhandle = 3, bIsStdout = False, fsize = 65536, fbytes = (\<lambda>_. 0), foffset = 65536,
     mlatch = None, opened = True, segments = [], vmem = (\<lambda>_. 0), header = Some 0, body = [],
     freeSpaceMap = [], dlatch = s_init, extendMutex = None\<rparr>"

definition demo_file :: dmsFile where
  "demo_file = (case extendSegment 1 (good_env 65536) demo_empty of Ret (_, st) \<Rightarrow> st | _ \<Rightarrow> demo_empty)"

definition demo_fields :: fields where
  "demo_fields = [(str_id, VInt 1)]"

definition demo_doc :: "u8 list" where
  "demo_doc = enc_obj demo_fields"

definition demo_stored :: dmsFile where
  "demo_stored = snd (insert_retry 1 demo_doc 14 [] demo_file)"

lemma demo_empty_inv: "dms_inv demo_empty" "s_free (dlatch demo_empty)" "mlatch demo_empty = None"
    "header_apart demo_empty" "fresh_base 65536 demo_empty" "body demo_empty = []"
    "freeSpaceMap demo_empty = []" "extendMutex demo_empty = None" "header demo_empty = Some 0"
  by (simp_all add: demo_empty_def dms_inv_def npages_def seg_disjoint_def pages_inv_def fsm_of_def
    s_free_def s_init_def header_apart_def fresh_base_def layout_simps)

lemma demo_run: "extendSegment 1 (good_env 65536) demo_empty = Ret (EDB_OK, demo_file)"
proof -
  have "fop_isValid demo_empty" "fsize demo_empty = 65536"
    by (simp_all add: demo_empty_def fop_isValid_def)
  then obtain st where "extendSegment 1 (good_env 65536) demo_empty = Ret (EDB_OK, st)"
    using extendSegment_good [of demo_empty 0 1 65536] demo_empty_inv by auto
  then show ?thesis
    by (simp add: demo_file_def)
qed

lemma demo_base: "x_map (good_env base) = Inl base"
  by (simp add: good_env_def)

lemma demo_room: "npages (body demo_empty) + 32 < 4294967295"
  by (simp add: npages_def demo_empty_inv)

lemmas demo_ext = extendSegment_ok [OF demo_empty_inv(1) demo_room demo_base demo_empty_inv(5,4,3) demo_run]

lemma demo_file_inv: "dms_inv demo_file" "s_free (dlatch demo_file)" "body demo_file = [65536]"
    "npages (body demo_file) = 32" "dms_abs demo_file = Map.empty" "extendMutex demo_file = None"
  using demo_ext(1-3,6,7) demo_empty_inv by (auto simp: npages_def dms_abs_def fun_eq_iff)

lemma demo_addr: "k < 32 \<Longrightarrow> page_addr (body demo_file) k = 65536 + 4194304 * k"
  by (simp add: demo_file_inv page_addr_def layout_simps)

lemma demo_page: "k < 32 \<Longrightarrow> rdb (vmem demo_file) (page_addr (body demo_file) k) 28 = page_header"
  using demo_ext(5) by (simp add: demo_addr)

lemma demo_find:
  assumes "n + 12 \<le> 4194276"
  shows "findPage (n + 8) demo_file \<noteq> DMS_INVALID_PAGEID" "findPage (n + 8) demo_file < 32"
    "\<not> no_room (vmem demo_file) (page_addr (body demo_file) (findPage (n + 8) demo_file)) n"
proof -
  have lt: "n + 8 < 4294967296"
    using assms by simp
  show f: "findPage (n + 8) demo_file \<noteq> DMS_INVALID_PAGEID"
    using findPage_none [OF demo_file_inv(1) lt] fresh_page(3) [OF demo_page [of 0]] demo_file_inv(4) assms
    by (auto intro!: exI [of _ 0])
  show k: "findPage (n + 8) demo_file < 32"
    using findPage_spec [OF demo_file_inv(1) lt f] demo_file_inv(4) by simp
  show "\<not> no_room (vmem demo_file) (page_addr (body demo_file) (findPage (n + 8) demo_file)) n"
    using fresh_page_room [OF demo_page [OF k], of n] assms by (simp add: layout_simps)
qed

lemma demo_doc_eq: "demo_doc = [14, 0, 0, 0, 16, 95, 105, 100, 0, 1, 0, 0, 0, 0]"
  by (simp add: demo_doc_def demo_fields_def enc_obj_def enc_doc_def str_id_def le32_eq byte_def)

lemma demo_doc_in: "obj_in (demo_doc, 0) demo_fields"
  using at_self [of demo_doc]
  by (simp add: obj_in_def demo_doc_def [symmetric] demo_doc_eq BSONObjMaxInternalSize_def)
    (simp add: demo_fields_def cname_id)

lemma demo_doc_valid: "rec_valid demo_doc" "length demo_doc = 14" "store_ok demo_doc"
proof -
  show l: "length demo_doc = 14"
    by (simp add: demo_doc_eq)
  show "rec_valid demo_doc"
    unfolding demo_doc_def
    by (rule rec_valid_enc) (use l in \<open>simp add: demo_doc_def BSONObjMaxInternalSize_def\<close>)
  show "store_ok demo_doc"
    using demo_doc_in by (auto simp: store_ok_def demo_doc_def)
qed

text \<open>The file with the document in it: it went to slot 0 of the page \<open>demo_pid\<close>.\<close>

definition demo_pid :: nat where
  "demo_pid = findPage 22 demo_file"

lemma demo_pid: "demo_pid < 32" "findPage 22 demo_file \<noteq> DMS_INVALID_PAGEID"
    "numSlots (vmem demo_file) (page_addr (body demo_file) demo_pid) = 0"
  using demo_find [of 14] fresh_page(4) [OF demo_page [of demo_pid]] by (simp_all add: demo_pid_def)

lemma demo_insert:
  "\<exists>a. insert_retry 1 demo_doc 14 [] demo_file =
     (Ret (EDB_OK, Some (\<lparr>r_pageID = demo_pid, r_slotID = 0\<rparr>, a)), demo_stored)"
  "dms_inv demo_stored" "s_free (dlatch demo_stored)" "dms_abs demo_stored = [(demo_pid, 0) \<mapsto> demo_doc]"
proof -
  have room: "\<not> no_room (vmem demo_file) (page_addr (body demo_file) demo_pid) 14"
    using demo_find [of 14] by (simp add: demo_pid_def)
  obtain st a where st: "insert_retry 1 demo_doc 14 [] demo_file =
        (Ret (EDB_OK, Some (\<lparr>r_pageID = demo_pid, r_slotID = 0\<rparr>, a)), st)"
      "dms_inv st" "dms_abs st = [(demo_pid, 0) \<mapsto> demo_doc]" "dlatch st = dlatch demo_file"
    using insert_retry_ok [OF demo_file_inv(1,2) demo_doc_valid(1), where t = 1 and evs = "[]"]
      demo_pid room demo_file_inv(5) demo_doc_valid(2)
    by (auto simp flip: demo_pid_def)
  then show "\<exists>a. insert_retry 1 demo_doc 14 [] demo_file =
     (Ret (EDB_OK, Some (\<lparr>r_pageID = demo_pid, r_slotID = 0\<rparr>, a)), demo_stored)"
    "dms_inv demo_stored" "s_free (dlatch demo_stored)" "dms_abs demo_stored = [(demo_pid, 0) \<mapsto> demo_doc]"
    using demo_file_inv(2) by (simp_all add: demo_stored_def)
qed

lemma demo_stored_slots: "numSlots (vmem demo_stored) (page_addr (body demo_stored) demo_pid) \<noteq> 0"
proof
  assume "numSlots (vmem demo_stored) (page_addr (body demo_stored) demo_pid) = 0"
  then have "dms_abs demo_stored (demo_pid, 0) = None"
    by (simp add: dms_abs_def page_recs_def slots_def)
  then show False
    by (simp add: demo_insert(4))
qed

lemma demo_stored_page:
  "page_inv (vmem demo_stored) (page_addr (body demo_stored) demo_pid)"
  "page_recs (vmem demo_stored) (page_addr (body demo_stored) demo_pid) \<noteq> []"
proof -
  have lt: "demo_pid < npages (body demo_stored)"
    using fun_cong [OF demo_insert(4), of "(demo_pid, 0)"] by (auto simp: dms_abs_def split: if_splits)
  show "page_inv (vmem demo_stored) (page_addr (body demo_stored) demo_pid)"
    using page_of_inv(1) [OF demo_insert(2) lt] .
  show "page_recs (vmem demo_stored) (page_addr (body demo_stored) demo_pid) \<noteq> []"
    using demo_stored_slots by (simp add: page_recs_def slots_def)
qed

text \<open>
  A segment with fresh pages over zeroed memory, and the same file saved to disk: reopening it finds
  32 pages in its header.
\<close>

definition demo_fresh :: dmsFile where
  "demo_fresh = demo_empty\<lparr>body := [65536], vmem := init_pages (\<lambda>_. 0) 65536\<rparr>"

lemma demo_fresh: "npages (body demo_fresh) = 32" "writer (dlatch demo_fresh) = None"
    "rdb (vmem demo_fresh) (page_addr (body demo_fresh) 3) 28 = page_header"
    "rd32 (vmem demo_fresh) (page_addr (body demo_fresh) 3 + 28) = 0"
proof -
  have a: "page_addr (body demo_fresh) 3 = 65536 + 4194304 * 3"
    by (simp add: demo_fresh_def page_addr_def layout_simps)
  show "npages (body demo_fresh) = 32" "writer (dlatch demo_fresh) = None"
    by (simp_all add: demo_fresh_def npages_def demo_empty_def s_init_def)
  show "rdb (vmem demo_fresh) (page_addr (body demo_fresh) 3) 28 = page_header"
    unfolding a using init_pages_page [of 3 "\<lambda>_. 0" 65536] by (simp add: demo_fresh_def)
  have "rdb (vmem demo_fresh) (page_addr (body demo_fresh) 3 + 28) 4 = [0, 0, 0, 0]"
    unfolding a by (simp add: demo_fresh_def rdb_def init_pages_eq upt_conv_Cons)
  then show "rd32 (vmem demo_fresh) (page_addr (body demo_fresh) 3 + 28) = 0"
    by (simp add: rd32_def)
qed

definition demo_saved :: dmsFile where
  "demo_saved = demo_empty\<lparr>fsize := 134283264, fbytes := init_pages (\<lambda>_. 0) 65536, vmem := wr32 (\<lambda>_. 0) 4 32\<rparr>"

lemma demo_saved_empty: "freeSpaceMap demo_saved = []"
  by (simp add: demo_saved_def demo_empty_def)

lemma fsm_upper_bound_fold:
  assumes "c \<in> set ks" "n < f c"
  shows "fsm_upper_bound n (fold (\<lambda>k fsm. fsm_insert (f k) k fsm) ks fsm) \<noteq> None"
proof -
  have "(f c, c) \<in> set (fold (\<lambda>k fsm. fsm_insert (f k) k fsm) ks fsm)"
    using assms(1) by (simp add: set_fold_fsm_insert)
  with assms(2) show ?thesis
    unfolding fsm_upper_bound_None by fastforce
qed

lemma demo_saved_load:
  "\<exists>st'. loadData 1 (None, Inl 0) (\<lambda>_. (None, Inl 65536)) demo_saved = Ret (EDB_OK, st') \<and>
     findPage 22 st' \<noteq> DMS_INVALID_PAGEID"
proof -
  define m where "m = map_view (vmem demo_saved) 65536 (fbytes demo_saved) 65536 134217728"
  define st1 where "st1 = demo_saved\<lparr>segments := [\<lparr>sptr = 65536, slen = 134217728, soff = 65536\<rparr>], vmem := m\<rparr>"
  have "mmap_body 65536 134217728 None (Inl 65536) (demo_saved\<lparr>mlatch := Some 1\<rparr>) =
      ((EDB_OK, Some 65536), st1\<lparr>mlatch := Some 1\<rparr>)"
    by (simp add: mmap_body_def fop_getSize_def demo_saved_def demo_empty_def st1_def m_def)
  moreover have "mlatch demo_saved = None" "st1\<lparr>mlatch := None\<rparr> = st1"
    by (simp_all add: demo_saved_def demo_empty_def st1_def)
  ultimately have mm: "mmap_map 1 65536 134217728 None (Inl 65536) demo_saved = Ret ((EDB_OK, Some 65536), st1)"
    by (subst mmap_map_eq) simp_all
  have "rd32 (vmem demo_saved) 4 = 32" "header demo_saved = Some 0"
    by (simp_all add: demo_saved_def demo_empty_def mem_simps)
  moreover have "segment_offset 0 = 65536"
    by (simp add: segment_offset_def layout_simps i32_id to_u64_def)
  ultimately have l: "loadData 1 (None, Inl 0) (\<lambda>_. (None, Inl 65536)) demo_saved = Ret (EDB_OK, load_pages 65536 st1)"
    using mm by (simp add: loadData_def layout_simps edb_codes)
  have "freeSpace m 65536 = freeSpace (init_pages (\<lambda>_. 0) 65536) (65536 + 4194304 * 0)"
    unfolding freeSpace_def mult_0_right add_0_right
    by (rule rd32_cong) (simp add: m_def map_view_def demo_saved_def)
  also have "\<dots> = 4194276"
    using fresh_page(3) [OF init_pages_page [of 0 "\<lambda>_. 0" 65536]] by simp
  finally have "22 < freeSpace m (65536 + 0 * DMS_PAGESIZE)"
    by simp
  then have f: "fsm_upper_bound 22 (freeSpaceMap (load_pages 65536 st1)) \<noteq> None"
    unfolding load_pages_def
    using fsm_upper_bound_fold [of 0 "[0..<DMS_PAGES_PER_SEGMENT]" 22 "\<lambda>k. freeSpace m (65536 + k * DMS_PAGESIZE)"]
    by (simp add: st1_def layout_simps)
  have "\<forall>e \<in> set (freeSpaceMap (load_pages 65536 st1)). snd e < 32"
    using load_segments_ids [of 1 1 0 "\<lambda>_. (None, Inl 65536)" demo_saved] mm \<open>segment_offset 0 = 65536\<close> demo_saved_empty
    by (simp add: layout_simps edb_codes)
  moreover obtain pid where "fsm_upper_bound 22 (freeSpaceMap (load_pages 65536 st1)) = Some pid"
    using f by blast
  ultimately have "findPage 22 (load_pages 65536 st1) \<noteq> DMS_INVALID_PAGEID"
    using fsm_upper_bound_Some [of 22 "freeSpaceMap (load_pages 65536 st1)" pid]
    by (auto simp: findPage_def DMS_INVALID_PAGEID_def)
  with l show ?thesis
    by blast
qed

section \<open>A first insertion, which extends the file\<close>

lemma demo_store_ins: "\<exists>k st'. store_ins 1 [Extend (good_env 65536)] demo_doc demo_empty = Some (Some k, st')"
proof -
  obtain st1 where run: "extendSegment 1 (good_env 65536) (demo_empty\<lparr>extendMutex := Some 1\<rparr>) = Ret (EDB_OK, st1)"
    using extendSegment_good [of "demo_empty\<lparr>extendMutex := Some 1\<rparr>" 0 1 65536] demo_empty_inv
    by (auto simp: demo_empty_def fop_isValid_def)
  have "findPage (length demo_doc + 8) demo_empty = DMS_INVALID_PAGEID" "length demo_doc + 12 \<le> 4194276"
    using demo_empty_inv(7) demo_doc_valid(2) by (simp_all add: findPage_def)
  from insert_retry_extends [OF demo_empty_inv(1) demo_room demo_empty_inv(2,8,3) demo_base
      demo_empty_inv(5,4) this(1) demo_doc_valid(1) this(2) run, of "[]"]
  obtain rid a st' where "insert_retry 1 demo_doc (int (length demo_doc)) [Extend (good_env 65536)] demo_empty =
      (Ret (EDB_OK, Some (rid, a)), st')"
    by blast
  moreover have "map_of demo_fields str_id \<noteq> None" "\<not> DMS_MAX_RECORD < length demo_doc"
    using demo_doc_valid(2) by (simp_all add: demo_fields_def layout_simps)
  ultimately have "dms_insert 1 (demo_doc, 0) [Extend (good_env 65536)] demo_empty = Some (Ret (EDB_OK, Some (rid, a)), st')"
    unfolding dms_insert_checked [OF demo_doc_in] demo_doc_def [symmetric] by simp
  then show ?thesis
    unfolding store_ins_def by simp
qed

lemma demo_ext_ok: "ext_ok 1 [Extend (good_env 65536)] demo_empty"
  using demo_room demo_empty_inv(5) by (simp add: demo_base split: res.splits prod.splits)

end
