(* ===== verification/Oid.thy ===== *)
theory Oid
  imports Codec
begin

unbundle bit_operations_syntax

text \<open>
  Object ids (\<open>bson/src/oid.h\<close>, \<open>bson/src/oid.cpp\<close>, with the counter of \<open>bson/lib/atomic_int.h\<close>) and
  operation times (\<open>bson/src/util/optime.h\<close>).  An id is its twelve bytes; the static members are a
  state.  Random numbers, the process id and the clock are arguments.
\<close>

section \<open>Ids\<close>

definition oid_clear :: "u8 list" where
  "oid_clear = replicate 12 0"

definition oid_isSet :: "u8 list \<Rightarrow> bool" where
  "oid_isSet x \<longleftrightarrow> le_value (take 8 x) \<noteq> 0 \<or> le_value (drop 8 x) \<noteq> 0"

definition oid_equal :: "u8 list \<Rightarrow> u8 list \<Rightarrow> bool" where
  "oid_equal x y \<longleftrightarrow> le_value (take 8 x) = le_value (take 8 y) \<and> le_value (drop 8 x) = le_value (drop 8 y)"

definition oid_compare :: "u8 list \<Rightarrow> u8 list \<Rightarrow> int" where
  "oid_compare x y = mem_cmp x y"

definition oid_less :: "u8 list \<Rightarrow> u8 list \<Rightarrow> bool" where
  "oid_less x y \<longleftrightarrow> oid_compare x y < 0"

definition oid_le :: "u8 list \<Rightarrow> u8 list \<Rightarrow> bool" where
  "oid_le x y \<longleftrightarrow> oid_compare x y \<le> 0"

definition oid_str :: "u8 list \<Rightarrow> u8 list" where
  "oid_str x = toHexLower x"

definition oid_init_str :: "u8 list \<Rightarrow> u8 list res" where
  "oid_init_str s = (if length s \<noteq> 24 then Raise 0 else fromHexs s)"

text \<open>The least and the greatest id of a moment (in milliseconds).\<close>

definition oid_init_date :: "nat \<Rightarrow> bool \<Rightarrow> u8 list" where
  "oid_init_date date greatest = rev (le32 (date div 1000)) @ replicate 8 (if greatest then 0xFF else 0)"

definition oid_asTimeT :: "u8 list \<Rightarrow> int" where
  "oid_asTimeT x = s32 (le_value (rev (take 4 x)))"

definition oid_asDateT :: "u8 list \<Rightarrow> int" where
  "oid_asDateT x = oid_asTimeT x * 1000"

section \<open>Generating ids\<close>

record OIDState =
  ourMachine :: "u8 list"
  ourMachineAndPid :: "u8 list"
  oid_inc :: nat

definition ourPid :: "nat \<Rightarrow> nat" where
  "ourPid pid = pid mod 65536"

text \<open>\<open>_pid\<close> are the last two of the five bytes, \<open>rest\<close> the second and third.\<close>

definition foldInPid :: "nat \<Rightarrow> u8 list \<Rightarrow> u8 list" where
  "foldInPid pid x = (let p = ourPid pid;
     x = take 3 x @ le_bytes 2 (le_value (drop 3 x) XOR p mod 65536)
   in take 1 x @ le_bytes 2 (le_value (sub x 1 2) XOR p div 65536) @ drop 3 x)"

definition genMachineAndPid :: "nat \<Rightarrow> nat \<times> nat \<times> nat \<times> nat \<Rightarrow> OIDState \<Rightarrow> (u8 list \<times> OIDState) res" where
  "genMachineAndPid pid nonces st = (case nonces of (a, b, c, n) \<Rightarrow>
     if a = b \<and> b = c then Raise 0 else
     let m = take 5 (le64 n) in Ret (foldInPid pid m, st\<lparr>ourMachine := m\<rparr>))"

definition regenMachineId :: "nat \<Rightarrow> nat \<times> nat \<times> nat \<times> nat \<Rightarrow> OIDState \<Rightarrow> OIDState res" where
  "regenMachineId pid nonces st = bnd (genMachineAndPid pid nonces st) (\<lambda>(x, st). Ret (st\<lparr>ourMachineAndPid := x\<rparr>))"

text \<open>
  \<open>operator!=\<close> compares the two arrays \<open>_machineNumber\<close>, that is the addresses of two different
  objects, which are never equal.
\<close>

definition mp_not_equal :: "u8 list \<Rightarrow> u8 list \<Rightarrow> bool" where
  "mp_not_equal x y \<longleftrightarrow> drop 3 x \<noteq> drop 3 y \<or> True"

definition getMachineId :: "OIDState \<Rightarrow> nat" where
  "getMachineId st = le_value (take 3 (ourMachineAndPid st) @ [0])"

definition justForked :: "nat \<Rightarrow> nat \<times> nat \<times> nat \<times> nat \<Rightarrow> OIDState \<Rightarrow> OIDState res" where
  "justForked pid nonces st = (let x = foldInPid pid (ourMachine st) in
     bnd (genMachineAndPid pid nonces st) (\<lambda>(y, st). let st = st\<lparr>ourMachineAndPid := y\<rparr> in
     if mp_not_equal x y then Ret (st\<lparr>ourMachineAndPid := x\<rparr>) else Raise 0))"

text \<open>\<open>AtomicUInt::operator++(int)\<close> and \<open>OID::init()\<close>; \<open>t\<close> is what \<open>time(0)\<close> answers.\<close>

definition atomic_post_inc :: "nat \<Rightarrow> nat \<times> nat" where
  "atomic_post_inc x = (x, u32_add x 1)"

definition oid_init :: "nat \<Rightarrow> OIDState \<Rightarrow> u8 list \<times> OIDState" where
  "oid_init t st = (let (new_inc, inc) = atomic_post_inc (oid_inc st) in
     (rev (le32 t) @ ourMachineAndPid st @ rev (take 3 (le32 new_inc)), st\<lparr>oid_inc := inc\<rparr>))"

section \<open>Operation times\<close>

record OpTime =
  ot_i :: u32
  ot_secs :: u32

definition ot_of :: "u64 \<Rightarrow> OpTime" where
  "ot_of x = \<lparr>ot_i = ucast x, ot_secs = ucast (drop_bit 32 x)\<rparr>"

definition ot_asDate :: "OpTime \<Rightarrow> u64" where
  "ot_asDate t = push_bit 32 (ucast (ot_secs t)) OR ucast (ot_i t)"

definition ot_isNull :: "OpTime \<Rightarrow> bool" where
  "ot_isNull t \<longleftrightarrow> ot_secs t = 0"

definition ot_less :: "OpTime \<Rightarrow> OpTime \<Rightarrow> bool" where
  "ot_less l r = (if ot_secs l \<noteq> ot_secs r then ot_secs l < ot_secs r else ot_i l < ot_i r)"

definition ot_le :: "OpTime \<Rightarrow> OpTime \<Rightarrow> bool" where
  "ot_le l r \<longleftrightarrow> ot_less l r \<or> l = r"

text \<open>\<open>now\<close>: the time answered and the new \<open>last\<close> are the same.\<close>

definition ot_now :: "u32 \<Rightarrow> OpTime \<Rightarrow> OpTime" where
  "ot_now clock prev = (let t = (if clock < ot_secs prev then ot_secs prev else clock) in
     if ot_secs prev = t then prev\<lparr>ot_i := ot_i prev + 1\<rparr> else \<lparr>ot_i = 1, ot_secs = t\<rparr>)"

section \<open>Ids and their texts\<close>

theorem oid_text: "length x = 12 \<Longrightarrow> oid_init_str (oid_str x) = Ret x"
  by (simp add: oid_init_str_def oid_str_def)

lemma le_value_inj: "length x = length y \<Longrightarrow> le_value x = le_value y \<Longrightarrow> x = y"
  by (metis le_bytes_le_value)

lemma oid_equal_iff: "length x = 12 \<Longrightarrow> length y = 12 \<Longrightarrow> oid_equal x y \<longleftrightarrow> x = y"
  using le_value_inj [of "take 8 x" "take 8 y"] le_value_inj [of "drop 8 x" "drop 8 y"]
  by (simp add: oid_equal_def) (metis append_take_drop_id)

lemma oid_compare_0: "length x = 12 \<Longrightarrow> length y = 12 \<Longrightarrow> oid_compare x y = 0 \<longleftrightarrow> oid_equal x y"
  by (simp add: oid_compare_def oid_equal_iff mem_cmp_eq_0)

section \<open>The order of ids\<close>

lemma mem_cmp_append: "length xs = length ys \<Longrightarrow>
    mem_cmp (xs @ xs') (ys @ ys') = (if mem_cmp xs ys = 0 then mem_cmp xs' ys' else mem_cmp xs ys)"
  by (induction xs ys rule: list_induct2) auto

lemma byte_less: "byte m < byte n \<longleftrightarrow> m mod 256 < n mod 256"
  by (simp add: word_less_nat_alt unat_byte)

lemma mem_cmp_be: "mem_cmp (rev (le_bytes k m)) (rev (le_bytes k n)) = sgn (int (m mod 256 ^ k) - int (n mod 256 ^ k))"
proof (induction k arbitrary: m n)
  case (Suc k)
  have split: "a mod 256 ^ Suc k = 256 * (a div 256 mod 256 ^ k) + a mod 256" for a :: nat
    by (simp add: mod_mult2_eq)
  have b: "a mod 256 < 256" for a :: nat
    by simp
  show ?case
    unfolding split using Suc.IH [of "m div 256" "n div 256"] b [of m] b [of n]
    by (auto simp: mem_cmp_append byte_less sgn_if)
qed simp

lemma mem_cmp_refl [simp]: "mem_cmp xs xs = 0"
  by (simp add: mem_cmp_eq_0)

lemma le_bytes_add: "le_bytes (k + j) n = le_bytes k n @ le_bytes j (n div 256 ^ k)"
  by (induction k arbitrary: n) (simp_all add: div_mult2_eq)

lemma take3_le32: "take 3 (le32 n) = le_bytes 3 n"
  using le_bytes_add [of 3 1 n] by (simp add: le32_def)

lemma oid_init_eq: "oid_init t st = (rev (le32 t) @ ourMachineAndPid st @ rev (le_bytes 3 (oid_inc st)),
    st\<lparr>oid_inc := u32_add (oid_inc st) 1\<rparr>)"
  by (simp add: oid_init_def atomic_post_inc_def take3_le32)

lemma oid_order_time: "t mod 4294967296 \<noteq> t' mod 4294967296 \<Longrightarrow>
    oid_compare (fst (oid_init t st)) (fst (oid_init t' st')) = sgn (int (t mod 4294967296) - int (t' mod 4294967296))"
  using mem_cmp_be [of 4 t t'] by (simp add: oid_compare_def oid_init_eq mem_cmp_append le32_def sgn_if)

lemma oid_order_count: "t mod 4294967296 = t' mod 4294967296 \<Longrightarrow> ourMachineAndPid st = ourMachineAndPid st' \<Longrightarrow>
    oid_compare (fst (oid_init t st)) (fst (oid_init t' st')) = sgn (int (oid_inc st mod 16777216) - int (oid_inc st' mod 16777216))"
  using mem_cmp_be [of 4 t t'] mem_cmp_be [of 3 "oid_inc st" "oid_inc st'"]
  by (simp add: oid_compare_def oid_init_eq mem_cmp_append le32_def)

text \<open>The ids one process makes in a row at the given times.\<close>

fun oid_row :: "nat list \<Rightarrow> OIDState \<Rightarrow> u8 list list" where
  "oid_row [] st = []"
| "oid_row (t # ts) st = (let (x, st) = oid_init t st in x # oid_row ts st)"


lemma oid_row_nth:
  "i < length ts \<Longrightarrow> oid_row ts st ! i = fst (oid_init (ts ! i) (st\<lparr>oid_inc := (oid_inc st + i) mod 4294967296\<rparr>))"
proof (induction ts arbitrary: i st)
  case (Cons t ts)
  have "oid_inc st < 4294967296 \<Longrightarrow> st\<lparr>oid_inc := oid_inc st mod 4294967296\<rparr> = st"
    by simp
  show ?case
  proof (cases i)
    case 0
    have "le_bytes 3 (oid_inc st mod 4294967296) = le_bytes 3 (oid_inc st)"
    proof (rule le_value_inj)
      have "(16777216 :: nat) dvd 4294967296"
        by simp
      then show "le_value (le_bytes 3 (oid_inc st mod 4294967296)) = le_value (le_bytes 3 (oid_inc st))"
        by (simp add: mod_mod_cancel)
    qed simp
    with 0 show ?thesis
      by (simp add: oid_init_eq)
  next
    case (Suc j)
    then show ?thesis
      using Cons by (simp add: oid_init_eq u32_add_def mod_add_left_eq)
  qed
qed simp

lemma length_oid_row [simp]: "length (oid_row ts st) = length ts"
  by (induction ts arbitrary: st) (auto simp: case_prod_unfold Let_def)

text \<open>
  Up to \<open>2 ^ 24\<close> ids made in a row by one process differ, whatever the clock does; they ascend when
  the clock does and the three bytes of the counter do not overflow.
\<close>

lemma mod_24: "(n mod 4294967296) mod 16777216 = n mod (16777216 :: nat)"
  by (rule mod_mod_cancel) simp

lemma mod_shift_dvd: "(c + i) mod q = (c + j) mod q \<Longrightarrow> q dvd (j - i :: nat)"
  using mod_eq_dvd_iff_nat [of "c + i" "c + j" q] by (cases "i \<le> j") simp_all

theorem oid_row_distinct:
  assumes "length ts \<le> 16777216"
  shows "distinct (oid_row ts st)"
  unfolding distinct_conv_nth
proof (intro allI impI)
  fix i j
  assume ij: "i < length (oid_row ts st)" "j < length (oid_row ts st)" "i \<noteq> j"
  show "oid_row ts st ! i \<noteq> oid_row ts st ! j"
  proof
    assume "oid_row ts st ! i = oid_row ts st ! j"
    then have eq: "rev (le32 (ts ! i)) @ ourMachineAndPid st @ rev (le_bytes 3 ((oid_inc st + i) mod 4294967296)) =
        rev (le32 (ts ! j)) @ ourMachineAndPid st @ rev (le_bytes 3 ((oid_inc st + j) mod 4294967296))"
      using ij by (simp add: oid_row_nth oid_init_eq)
    then have "le_value (le_bytes 3 ((oid_inc st + i) mod 4294967296)) = le_value (le_bytes 3 ((oid_inc st + j) mod 4294967296))"
      by simp
    then have m: "(oid_inc st + i) mod 16777216 = (oid_inc st + j) mod 16777216"
      by (simp add: mod_24)
    have "16777216 dvd j - i" "16777216 dvd i - j"
      using mod_shift_dvd [OF m] mod_shift_dvd [OF m [symmetric]] .
    then show False
      using ij assms dvd_imp_le [of 16777216 "j - i"] dvd_imp_le [of 16777216 "i - j"] by (cases "i < j") auto
  qed
qed

theorem oid_row_ascends:
  assumes "sorted ts" "\<forall>t \<in> set ts. t < 4294967296" "oid_inc st mod 16777216 + length ts \<le> 16777216" "i < j" "j < length ts"
  shows "oid_less (oid_row ts st ! i) (oid_row ts st ! j)"
proof -
  have t: "ts ! i \<le> ts ! j" "ts ! i < 4294967296" "ts ! j < 4294967296"
    using assms by (simp_all add: sorted_iff_nth_mono_less)
  have c: "(oid_inc st + i) mod 16777216 = oid_inc st mod 16777216 + i" if "i < length ts" for i
    using that assms(3) by (subst mod_add_left_eq [symmetric]) simp
  show ?thesis
  proof (cases "ts ! i = ts ! j")
    case True
    then show ?thesis
      using assms(4,5) by (simp add: oid_less_def oid_row_nth oid_order_count mod_24 c)
  next
    case False
    then show ?thesis
      using t assms(4,5) by (simp add: oid_less_def oid_row_nth oid_order_time)
  qed
qed

section \<open>Moments\<close>

theorem oid_asTimeT_init: "length (ourMachineAndPid st) = 5 \<Longrightarrow> oid_asTimeT (fst (oid_init t st)) = s32 (t mod 4294967296)"
  by (simp add: oid_asTimeT_def oid_init_eq)

lemma mem_cmp_low: "set xs \<subseteq> {0} \<Longrightarrow> mem_cmp xs ys \<le> 0" and mem_cmp_high: "set ys \<subseteq> {0xFF} \<Longrightarrow> mem_cmp xs ys \<le> 0"
proof -
  have top: "\<not> 0xFF < (x :: u8)" for x
    using unat_u8_less [of x] by (simp add: word_less_nat_alt)
  then have lt: "(x :: u8) < 0xFF \<longleftrightarrow> x \<noteq> 0xFF" for x
    using neq_iff by blast
  show "set xs \<subseteq> {0} \<Longrightarrow> mem_cmp xs ys \<le> 0" "set ys \<subseteq> {0xFF} \<Longrightarrow> mem_cmp xs ys \<le> 0"
    by (induction xs ys rule: mem_cmp.induct) (auto simp: top lt word_gt_0)
qed

text \<open>Every id of a second lies between the two that \<open>init(Date_t)\<close> makes for it.\<close>

theorem oid_date_range:
  assumes "date div 1000 mod 4294967296 = t mod 4294967296"
  shows "oid_le (oid_init_date date False) (fst (oid_init t st)) \<and> oid_le (fst (oid_init t st)) (oid_init_date date True)"
proof -
  have "le32 (date div 1000) = le32 t"
    by (rule le_value_inj) (simp_all add: assms)
  then show ?thesis
    using mem_cmp_low [of "replicate 8 0"] mem_cmp_high [of "replicate 8 0xFF"]
    by (simp add: oid_le_def oid_compare_def oid_init_date_def oid_init_eq mem_cmp_append)
qed

section \<open>Process ids\<close>

text \<open>
  The process id is cut to 16 bits before its high bits are asked for, so that they never reach the
  machine number; after a fork the machine number stays and the process id changes.
\<close>

theorem foldInPid_low: "length x = 5 \<Longrightarrow> take 3 (foldInPid pid x) = take 3 x"
proof -
  assume l: "length x = 5"
  have "le_bytes 2 (le_value (sub x 1 2)) = sub x 1 2"
    using l le_bytes_le_value [of "sub x 1 2"] by simp
  moreover have "sub (take 3 x @ ys) 1 2 = sub x 1 2" for ys
    using l by (simp add: sub_def drop_take)
  moreover have "take 3 x = take 1 x @ sub x 1 2"
    using take_add [of 1 2 x] by (simp add: sub_def numeral_eq_Suc)
  ultimately show ?thesis
    using l by (simp add: foldInPid_def ourPid_def)
qed

theorem justForked_keeps_machine:
  assumes "justForked pid nonces st = Ret st'" "length (ourMachine st) = 5"
  shows "take 3 (ourMachineAndPid st') = take 3 (ourMachine st)"
    and "ourMachine st' = take 5 (le64 (snd (snd (snd nonces))))"
  using assms foldInPid_low [of "ourMachine st" pid]
  by (auto simp: justForked_def genMachineAndPid_def Let_def bnd_eq_Ret mp_not_equal_def split: prod.splits if_splits)

section \<open>Operation times\<close>

theorem ot_roundtrip: "ot_of (ot_asDate t) = t" "ot_asDate (ot_of x) = x"
proof -
  have out: "\<not> bit (w :: u32) (32 + n)" for w n
    using bit_imp_le_length [of w "32 + n"] by auto
  show "ot_of (ot_asDate t) = t"
    by (cases t) (auto simp: ot_of_def ot_asDate_def intro!: bit_word_eqI simp: bit_simps out)
  show "ot_asDate (ot_of x) = x"
    by (auto simp: ot_of_def ot_asDate_def intro!: bit_word_eqI simp: bit_simps)
qed

text \<open>\<open>now\<close> never goes back, even when the clock does, until its 32-bit ordinal overflows.\<close>

theorem ot_now_later: "ot_i prev \<noteq> - 1 \<Longrightarrow> ot_less prev (ot_now clock prev)"
proof -
  assume a: "ot_i prev \<noteq> - 1"
  then have "ot_i prev < ot_i prev + 1"
    using unatSuc [of "ot_i prev"] by (auto simp: word_less_nat_alt add.commute add_eq_0_iff)
  then show ?thesis
    by (auto simp: ot_now_def ot_less_def Let_def)
qed

end
