(* ===== verification/OssQueue.thy ===== *)
theory OssQueue
  imports Prelude
begin

text \<open>
  \<open>ossQueue\<close> of \<open>include/ossQueue.hpp\<close>: a \<open>std::queue\<close> behind one mutex and a condition variable.
  Each call holds the mutex from its first statement, so to the thread that makes it a call is one
  function on the contents (OssQueueRun has the steps of several threads, and that they interleave
  no further), except where it waits on the condition: there the mutex is dropped, and the next
  entry of the argument \<open>wakes\<close> is the contents the thread finds when it gets the mutex back
  (after a notification, a spurious wake-up, or another consumer that was faster).
\<close>

type_synonym 'a ossQueue = "'a list"

definition q_init :: "'a ossQueue" where
  "q_init = []"

definition q_size :: "'a ossQueue \<Rightarrow> nat" where
  "q_size q = length q mod 4294967296"

definition q_empty :: "'a ossQueue \<Rightarrow> bool" where
  "q_empty q \<longleftrightarrow> q = []"

definition q_push :: "'a \<Rightarrow> 'a ossQueue \<Rightarrow> 'a ossQueue" where
  "q_push x q = q @ [x]"

fun q_try_pop :: "'a ossQueue \<Rightarrow> 'a option \<times> 'a ossQueue" where
  "q_try_pop [] = (None, [])"
| "q_try_pop (x # q) = (Some x, q)"

fun q_wait_and_pop :: "'a ossQueue \<Rightarrow> 'a ossQueue list \<Rightarrow> ('a \<times> 'a ossQueue) res" where
  "q_wait_and_pop (x # q) wakes = Ret (x, q)"
| "q_wait_and_pop [] (q' # wakes) = q_wait_and_pop q' wakes"
| "q_wait_and_pop [] [] = Wait"

text \<open>
  With a deadline each return from the wait also says whether it was signalled (\<open>True\<close>) or the
  time was over (\<open>False\<close>: the call gives up without looking at the queue again).
\<close>

fun q_timed_wait_and_pop ::
    "'a ossQueue \<Rightarrow> (bool \<times> 'a ossQueue) list \<Rightarrow> ('a option \<times> 'a ossQueue) res" where
  "q_timed_wait_and_pop (x # q) wakes = Ret (Some x, q)"
| "q_timed_wait_and_pop [] ((signalled, q') # wakes) =
     (if signalled then q_timed_wait_and_pop q' wakes else Ret (None, q'))"
| "q_timed_wait_and_pop [] [] = Wait"

section \<open>The interface: a FIFO queue\<close>

text \<open>What the EDU control block relies on; \<open>abs\<close> is the list of the queued elements.\<close>

locale fifo =
  fixes empty :: "'q" and is_empty :: "'q \<Rightarrow> bool"
    and push :: "'a \<Rightarrow> 'q \<Rightarrow> 'q" and try_pop :: "'q \<Rightarrow> 'a option \<times> 'q"
    and abs :: "'q \<Rightarrow> 'a list"
  assumes abs_empty: "abs empty = []"
    and is_empty_abs: "is_empty q \<longleftrightarrow> abs q = []"
    and abs_push: "abs (push x q) = abs q @ [x]"
    and try_pop_Nil: "abs q = [] \<Longrightarrow> try_pop q = (None, q)"
    and try_pop_Cons: "abs q = x # xs \<Longrightarrow> \<exists>q'. try_pop q = (Some x, q') \<and> abs q' = xs"
begin

primrec drain :: "nat \<Rightarrow> 'q \<Rightarrow> 'a list" where
  "drain 0 q = []"
| "drain (Suc n) q = (case try_pop q of (None, q') \<Rightarrow> [] | (Some x, q') \<Rightarrow> x # drain n q')"

lemma abs_pushes: "abs (fold push xs q) = abs q @ xs"
  by (induction xs arbitrary: q) (simp_all add: abs_push)

lemma drain_take: "drain n q = take n (abs q)"
proof (induction n arbitrary: q)
  case (Suc n)
  show ?case
  proof (cases "abs q")
    case Nil
    then show ?thesis
      by (simp add: try_pop_Nil)
  next
    case (Cons x xs)
    with try_pop_Cons obtain q' where "try_pop q = (Some x, q')" "abs q' = xs"
      by blast
    with Suc Cons show ?thesis
      by simp
  qed
qed simp

text \<open>What is pushed comes out once, in the order in which it was pushed.\<close>

lemma pushed_then_drained: "abs q = [] \<Longrightarrow> drain (length xs) (fold push xs q) = xs"
  by (simp add: drain_take abs_pushes)

lemma not_empty_pops: "\<not> is_empty q \<Longrightarrow> \<exists>x q'. try_pop q = (Some x, q') \<and> abs q = x # abs q'"
  using try_pop_Cons is_empty_abs by (metis list.exhaust)

end

interpretation qf: fifo q_init q_empty q_push q_try_pop "\<lambda>q. q"
  by unfold_locales (auto simp: q_init_def q_empty_def q_push_def)

section \<open>Waiting\<close>

text \<open>A pop that returns takes the first element of the first non-empty contents it finds.\<close>

lemma wait_and_pop_first:
  "q_wait_and_pop q wakes = Ret (x, r) \<longleftrightarrow>
     (\<exists>ys. dropWhile (\<lambda>c. c = []) (q # wakes) = (x # r) # ys)"
  by (induction q wakes rule: q_wait_and_pop.induct) auto

lemma wait_and_pop_blocks: "q_wait_and_pop q wakes = Wait \<longleftrightarrow> q = [] \<and> set wakes \<subseteq> {[]}"
  by (induction q wakes rule: q_wait_and_pop.induct) auto

lemma wait_and_pop_total: "q_wait_and_pop q wakes \<noteq> Stuck \<and> q_wait_and_pop q wakes \<noteq> Raise n"
  by (induction q wakes rule: q_wait_and_pop.induct) auto

lemma timed_pop_found:
  "q_timed_wait_and_pop q wakes = Ret (Some x, r) \<Longrightarrow> \<exists>c \<in> set (q # map snd wakes). c = x # r"
  by (induction q wakes rule: q_timed_wait_and_pop.induct) (auto split: if_splits)

lemma timed_pop_timeout:
  "q_timed_wait_and_pop q wakes = Ret (None, r) \<Longrightarrow> q = [] \<and> (False, r) \<in> set wakes"
  by (induction q wakes rule: q_timed_wait_and_pop.induct) (auto split: if_splits)

text \<open>A timeout can lose the race: what arrived before the thread woke is left in the queue.\<close>

lemma timed_pop_timeout_leaves: "q_timed_wait_and_pop [] [(False, [x])] = Ret (None, [x])"
  by simp

text \<open>
  \<open>wait_and_pop\<close> keeps waiting exactly while all it wakes up to is an empty queue, and otherwise takes
  the head of the first non-empty one.
\<close>

lemma queue_wait_pops_first:
  "(q_wait_and_pop q wakes = Wait \<longleftrightarrow> q = [] \<and> set wakes \<subseteq> {[]}) \<and>
   (q_wait_and_pop q wakes = Ret (x, r) \<longleftrightarrow>
     (\<exists>ys. dropWhile (\<lambda>c. c = []) (q # wakes) = (x # r) # ys))"
  by (intro conjI wait_and_pop_blocks wait_and_pop_first)

end
