(* ===== verification/OssQueueRun.thy ===== *)
theory OssQueueRun
  imports OssQueue
begin

text \<open>
  \<open>ossQueue\<close> of \<open>include/ossQueue.hpp\<close> used by any number of threads at once: every statement of a
  call is a step of its own, and the steps of different threads interleave.  A thread inside a
  call has a program counter; the shared state is the contents, the holder of \<open>_mutex\<close> and the
  threads that wait on \<open>_cond\<close>.  An update of the \<open>std::queue\<close> is split into reading the contents
  and writing them back, and \<open>front\<close> and \<open>pop\<close> of an empty one are undefined, so that the calls are
  atomic only as far as the mutex makes them so.
\<close>

datatype 'a q_call = CSize | CEmpty | CPush 'a | CTry | CWait | CTimed

datatype 'a q_ret = RSize nat | REmpty bool | RVoid | RGot 'a | RMiss

datatype 'a q_pc =
    Out                       \<comment> \<open>not in a call\<close>
  | Enter "'a q_call"         \<comment> \<open>at \<open>scoped_lock lock(_mutex)\<close>\<close>
  | Hold "'a q_call"          \<comment> \<open>behind it: at the first statement, or at the test of the loop\<close>
  | Pushing 'a "'a list"      \<comment> \<open>inside \<open>_queue.push(data)\<close>, the old contents read\<close>
  | Unlock                    \<comment> \<open>at \<open>lock.unlock()\<close>\<close>
  | Notify                    \<comment> \<open>at \<open>_cond.notify_one()\<close>\<close>
  | Asleep bool              \<comment> \<open>inside \<open>_cond.wait\<close>, or \<open>timed_wait\<close> (\<open>True\<close>), not yet woken\<close>
  | Woken bool                \<comment> \<open>woken, about to take the mutex again\<close>
  | TimedOut                  \<comment> \<open>the time is over, about to take the mutex again\<close>
  | Front                     \<comment> \<open>at \<open>value = _queue.front()\<close>\<close>
  | Taken 'a                    \<comment> \<open>at \<open>_queue.pop()\<close>\<close>
  | Popping 'a "'a list"      \<comment> \<open>inside it, the remaining contents computed\<close>
  | Leave "'a q_ret"          \<comment> \<open>at the destructor of the lock\<close>
  | Undef                     \<comment> \<open>behind a \<open>front\<close> or \<open>pop\<close> of an empty queue\<close>

record ('t, 'a) q_state =
  qs_contents :: "'a list"
  qs_holder :: "'t option"
  qs_cond :: "'t list"
  qs_pc :: "'t \<Rightarrow> 'a q_pc"

datatype 'a q_event = Calls "'a q_call" | Tau | Pushed 'a | Popped 'a | Return "'a q_ret"
  | Spurious | Timeout

definition qs_init :: "('t, 'a) q_state" where
  "qs_init = \<lparr> qs_contents = [], qs_holder = None, qs_cond = [], qs_pc = (\<lambda>_. Out) \<rparr>"

definition goto :: "'t \<Rightarrow> 'a q_pc \<Rightarrow> ('t, 'a) q_state \<Rightarrow> ('t, 'a) q_state" where
  "goto t p s = s\<lparr> qs_pc := (qs_pc s)(t := p) \<rparr>"

definition take_lock :: "'t \<Rightarrow> 'a q_pc \<Rightarrow> ('t, 'a) q_state \<Rightarrow> ('a q_event \<times> ('t, 'a) q_state) option" where
  "take_lock t p s =
     (if qs_holder s = None then Some (Tau, goto t p (s\<lparr> qs_holder := Some t \<rparr>)) else None)"

text \<open>\<open>wait\<close> drops the mutex and joins the waiting threads in one step; a wake_thread-up removes the thread.\<close>

definition wait_on :: "'t \<Rightarrow> bool \<Rightarrow> ('t, 'a) q_state \<Rightarrow> ('t, 'a) q_state" where
  "wait_on t timed s =
     goto t (Asleep timed) (s\<lparr> qs_holder := None, qs_cond := qs_cond s @ [t] \<rparr>)"

definition wake_thread :: "'t \<Rightarrow> ('t, 'a) q_state \<Rightarrow> ('t, 'a) q_state" where
  "wake_thread t s = goto t (case qs_pc s t of Asleep b \<Rightarrow> Woken b | p \<Rightarrow> p)
     (s\<lparr> qs_cond := remove1 t (qs_cond s) \<rparr>)"

definition time_over :: "'t \<Rightarrow> ('t, 'a) q_state \<Rightarrow> ('t, 'a) q_state" where
  "time_over t s = goto t TimedOut (s\<lparr> qs_cond := remove1 t (qs_cond s) \<rparr>)"

text \<open>
  The next step of thread \<open>t\<close> at a program counter, \<open>None\<close> when it cannot go on by itself; \<open>u\<close> is
  the waiting thread a notification reaches (without one it is lost).
\<close>

fun q_step :: "'t \<Rightarrow> 't \<Rightarrow> 'a q_pc \<Rightarrow> ('t, 'a) q_state \<Rightarrow> ('a q_event \<times> ('t, 'a) q_state) option" where
  "q_step t u Out s = None"
| "q_step t u (Enter c) s = take_lock t (Hold c) s"
| "q_step t u (Hold CSize) s = Some (Tau, goto t (Leave (RSize (q_size (qs_contents s)))) s)"
| "q_step t u (Hold CEmpty) s = Some (Tau, goto t (Leave (REmpty (q_empty (qs_contents s)))) s)"
| "q_step t u (Hold (CPush x)) s = Some (Tau, goto t (Pushing x (qs_contents s)) s)"
| "q_step t u (Hold CTry) s =
     Some (Tau, goto t (if q_empty (qs_contents s) then Leave RMiss else Front) s)"
| "q_step t u (Hold CWait) s =
     Some (Tau, if q_empty (qs_contents s) then wait_on t False s else goto t Front s)"
| "q_step t u (Hold CTimed) s =
     Some (Tau, if q_empty (qs_contents s) then wait_on t True s else goto t Front s)"
| "q_step t u (Pushing x q) s = Some (Pushed x, goto t Unlock (s\<lparr> qs_contents := q_push x q \<rparr>))"
| "q_step t u Unlock s = Some (Tau, goto t Notify (s\<lparr> qs_holder := None \<rparr>))"
| "q_step t u Notify s =
     (if qs_cond s = [] then Some (Return RVoid, goto t Out s)
      else if u \<in> set (qs_cond s) then Some (Return RVoid, goto t Out (wake_thread u s)) else None)"
| "q_step t u (Asleep timed) s = None"
| "q_step t u (Woken timed) s = take_lock t (Hold (if timed then CTimed else CWait)) s"
| "q_step t u TimedOut s = take_lock t (Leave RMiss) s"
| "q_step t u Front s =
     Some (Tau, goto t (case qs_contents s of [] \<Rightarrow> Undef | x # q \<Rightarrow> Taken x) s)"
| "q_step t u (Taken x) s =
     Some (Tau, goto t (case qs_contents s of [] \<Rightarrow> Undef | y # q \<Rightarrow> Popping x q) s)"
| "q_step t u (Popping x q) s = Some (Popped x, goto t (Leave (RGot x)) (s\<lparr> qs_contents := q \<rparr>))"
| "q_step t u (Leave r) s = Some (Return r, goto t Out (s\<lparr> qs_holder := None \<rparr>))"
| "q_step t u Undef s = None"

text \<open>A thread calls, goes on, is woken for no reason, or finds its time over.\<close>

inductive q_move :: "('t, 'a) q_state \<Rightarrow> 't \<times> 'a q_event \<Rightarrow> ('t, 'a) q_state \<Rightarrow> bool" where
  move_call: "qs_pc s t = Out \<Longrightarrow> q_move s (t, Calls c) (goto t (Enter c) s)"
| move_own: "q_step t u (qs_pc s t) s = Some (e, s') \<Longrightarrow> q_move s (t, e) s'"
| move_spurious: "t \<in> set (qs_cond s) \<Longrightarrow> q_move s (t, Spurious) (wake_thread t s)"
| move_timeout: "t \<in> set (qs_cond s) \<Longrightarrow> qs_pc s t = Asleep True \<Longrightarrow>
    q_move s (t, Timeout) (time_over t s)"

inductive_cases q_moveE: "q_move s l s'"

inductive q_moves :: "('t, 'a) q_state \<Rightarrow> ('t \<times> 'a q_event) list \<Rightarrow> ('t, 'a) q_state \<Rightarrow> bool" where
  moves_nil: "q_moves s [] s"
| moves_snoc: "q_moves s ls s' \<Longrightarrow> q_move s' l s'' \<Longrightarrow> q_moves s (ls @ [l]) s''"

section \<open>The invariant\<close>

text \<open>The program counters between taking the mutex and dropping it.\<close>

fun in_lock :: "'a q_pc \<Rightarrow> bool" where
  "in_lock (Hold c) = True" | "in_lock (Pushing x q) = True" | "in_lock Unlock = True"
| "in_lock Front = True" | "in_lock (Taken x) = True" | "in_lock (Popping x q) = True"
| "in_lock (Leave r) = True" | "in_lock _ = False"

text \<open>Those of a thread that is still going to notify, or to look at the queue before it waits.\<close>

fun attends :: "'a q_pc \<Rightarrow> bool" where
  "attends Unlock = True" | "attends Notify = True" | "attends (Woken b) = True"
| "attends (Hold CWait) = True" | "attends (Hold CTimed) = True"
| "attends Front = True" | "attends (Taken x) = True" | "attends (Popping x q) = True"
| "attends _ = False"

text \<open>What a thread holding the mutex has read still is what is there.\<close>

fun view_ok :: "'a list \<Rightarrow> 'a q_pc \<Rightarrow> bool" where
  "view_ok c (Pushing x q) \<longleftrightarrow> c = q"
| "view_ok c Front \<longleftrightarrow> c \<noteq> []"
| "view_ok c (Taken x) \<longleftrightarrow> (\<exists>q. c = x # q)"
| "view_ok c (Popping x q) \<longleftrightarrow> c = x # q"
| "view_ok c Undef \<longleftrightarrow> False"
| "view_ok c _ \<longleftrightarrow> True"

definition attending :: "('t, 'a) q_state \<Rightarrow> nat" where
  "attending s = card {t. attends (qs_pc s t)}"

definition wait_ok :: "('t, 'a) q_state \<Rightarrow> bool" where
  "wait_ok s \<longleftrightarrow> distinct (qs_cond s) \<and> (\<forall>t. t \<in> set (qs_cond s) \<longleftrightarrow> (\<exists>b. qs_pc s t = Asleep b)) \<and>
     finite {t. qs_pc s t \<noteq> Out}"

definition mutex_ok :: "('t, 'a) q_state \<Rightarrow> bool" where
  "mutex_ok s \<longleftrightarrow> (\<forall>t. in_lock (qs_pc s t) \<longleftrightarrow> qs_holder s = Some t) \<and>
     (\<forall>t. view_ok (qs_contents s) (qs_pc s t))"

definition wake_ok :: "('t, 'a) q_state \<Rightarrow> bool" where
  "wake_ok s \<longleftrightarrow> (qs_cond s \<noteq> [] \<longrightarrow> length (qs_contents s) \<le> attending s)"

lemmas q_ops = goto_def take_lock_def wait_on_def wake_thread_def time_over_def q_empty_def q_push_def

text \<open>A program counter that does not hold the mutex sees every change of the contents unmoved.\<close>

lemma view_ok_other: "\<not> in_lock p \<Longrightarrow> p \<noteq> Undef \<Longrightarrow> view_ok c p"
  by (cases p) auto

lemma view_ok_not_Undef: "view_ok c p \<Longrightarrow> p \<noteq> Undef"
  by auto

text \<open>
  A step of thread \<open>t\<close> keeps \<open>mutex_ok\<close> when only a holder changes the contents, and the holder
  of the mutex follows the program counter.
\<close>

lemma mutex_frame:
  assumes "mutex_ok s" and pc: "qs_pc s' = (qs_pc s)(t := qs_pc s' t)"
    and "view_ok (qs_contents s') (qs_pc s' t)"
    and con: "qs_contents s' = qs_contents s \<or> in_lock (qs_pc s t)"
    and "in_lock (qs_pc s' t) \<longrightarrow> qs_holder s' = Some t \<and> (in_lock (qs_pc s t) \<or> qs_holder s = None)"
    and "\<not> in_lock (qs_pc s' t) \<longrightarrow> qs_holder s' = (if in_lock (qs_pc s t) then None else qs_holder s)"
  shows "mutex_ok s'"
proof -
  have other: "qs_pc s' x = qs_pc s x" if "x \<noteq> t" for x
    using pc that by (metis fun_upd_other)
  have "in_lock (qs_pc s' x) \<longleftrightarrow> qs_holder s' = Some x" for x
    using assms(1,5,6) other [of x] by (cases "x = t") (auto simp: mutex_ok_def split: if_splits)
  moreover have "view_ok (qs_contents s') (qs_pc s' x)" for x
  proof (cases "x = t \<or> qs_contents s' = qs_contents s")
    case True
    with assms(1,3) other [of x] show ?thesis
      by (cases "x = t") (auto simp: mutex_ok_def)
  next
    case False
    with assms(1) con have "\<not> in_lock (qs_pc s x)" "view_ok (qs_contents s) (qs_pc s x)"
      by (auto simp: mutex_ok_def)
    with False other [of x] show ?thesis
      using view_ok_other view_ok_not_Undef by metis
  qed
  ultimately show ?thesis
    by (simp add: mutex_ok_def)
qed

lemma wake_mutex:
  assumes "mutex_ok s" "wait_ok s" "t \<in> set (qs_cond s)"
  shows "mutex_ok (wake_thread t s)"
proof -
  obtain b where "qs_pc s t = Asleep b"
    using assms by (auto simp: wait_ok_def)
  then show ?thesis
    by (intro mutex_frame [OF assms(1), of _ t]) (simp_all add: wake_thread_def goto_def)
qed

lemma notify_mutex:
  assumes st: "q_step t u Notify s = Some (e, s')" and pc: "qs_pc s t = Notify"
    and inv: "mutex_ok s" "wait_ok s"
  shows "mutex_ok s'"
proof (cases "qs_cond s = []")
  case True
  with st have "s' = goto t Out s"
    by simp
  with pc show ?thesis
    by (intro mutex_frame [OF inv(1), of _ t]) (simp_all add: goto_def)
next
  case False
  with st have u: "u \<in> set (qs_cond s)" and s': "s' = goto t Out (wake_thread u s)"
    by (auto split: if_splits)
  from u inv(2) pc have "qs_pc (wake_thread u s) t = Notify"
    by (auto simp: wait_ok_def wake_thread_def goto_def)
  with s' show ?thesis
    by (intro mutex_frame [OF wake_mutex [OF inv u], of _ t]) (simp_all add: goto_def)
qed

lemma q_step_mutex:
  assumes st: "q_step t u (qs_pc s t) s = Some (e, s')" and inv: "mutex_ok s" "wait_ok s"
  shows "mutex_ok s'"
proof (cases "qs_pc s t = Notify")
  case True
  with st show ?thesis
    using notify_mutex inv by metis
next
  case False
  have view: "view_ok (qs_contents s) (qs_pc s t)" and hold: "in_lock (qs_pc s t) \<longleftrightarrow> qs_holder s = Some t"
    using inv(1) by (simp_all add: mutex_ok_def)
  show ?thesis
  proof (rule mutex_frame [OF inv(1), of _ t])
    show "qs_pc s' = (qs_pc s)(t := qs_pc s' t)"
      using st False by (cases "(t, u, qs_pc s t, s)" rule: q_step.cases) (auto simp: q_ops split: if_splits)
    show "view_ok (qs_contents s') (qs_pc s' t)"
      using st False view by (cases "(t, u, qs_pc s t, s)" rule: q_step.cases)
        (auto simp: q_ops split: if_splits list.splits)
    show "qs_contents s' = qs_contents s \<or> in_lock (qs_pc s t)"
      using st False by (cases "(t, u, qs_pc s t, s)" rule: q_step.cases) (auto simp: q_ops split: if_splits)
    show "in_lock (qs_pc s' t) \<longrightarrow> qs_holder s' = Some t \<and> (in_lock (qs_pc s t) \<or> qs_holder s = None)"
      using st False hold by (cases "(t, u, qs_pc s t, s)" rule: q_step.cases)
        (auto simp: q_ops split: if_splits list.splits)
    show "\<not> in_lock (qs_pc s' t) \<longrightarrow> qs_holder s' = (if in_lock (qs_pc s t) then None else qs_holder s)"
      using st False view by (cases "(t, u, qs_pc s t, s)" rule: q_step.cases)
        (auto simp: q_ops split: if_splits list.splits)
  qed
qed

lemma q_move_mutex: "q_move s l s' \<Longrightarrow> mutex_ok s \<Longrightarrow> wait_ok s \<Longrightarrow> mutex_ok s'"
proof (induction rule: q_move.induct)
  case (move_call s t c)
  then show ?case
    by (intro mutex_frame [OF move_call(2), of _ t]) (simp_all add: goto_def)
next
  case (move_timeout t s)
  then show ?case
    by (intro mutex_frame [OF move_timeout(3), of _ t]) (simp_all add: goto_def time_over_def)
qed (auto intro: q_step_mutex wake_mutex)

section \<open>The waiting threads\<close>

text \<open>
  \<open>wait_ok\<close> is kept when \<open>t\<close> joins or leaves the condition together with its program counter.
\<close>

lemma wait_frame:
  assumes "wait_ok s" and pc: "qs_pc s' = (qs_pc s)(t := qs_pc s' t)" and "distinct (qs_cond s')"
    and "set (qs_cond s') = (if \<exists>b. qs_pc s' t = Asleep b then insert t else (\<lambda>A. A - {t})) (set (qs_cond s))"
  shows "wait_ok s'"
proof -
  have other: "qs_pc s' x = qs_pc s x" if "x \<noteq> t" for x
    using pc that by (metis fun_upd_other)
  have "finite {x. qs_pc s' x \<noteq> Out}"
    by (rule finite_subset [of _ "insert t {x. qs_pc s x \<noteq> Out}"])
       (use assms(1) other in \<open>auto simp: wait_ok_def\<close>)
  moreover have "x \<in> set (qs_cond s') \<longleftrightarrow> (\<exists>b. qs_pc s' x = Asleep b)" for x
    using assms(1,4) other [of x] by (cases "x = t") (auto simp: wait_ok_def)
  ultimately show ?thesis
    using assms(3) by (simp add: wait_ok_def)
qed

lemma wake_wait: "wait_ok s \<Longrightarrow> t \<in> set (qs_cond s) \<Longrightarrow> wait_ok (wake_thread t s)"
  by (rule wait_frame [of s _ t]) (auto simp: wake_thread_def goto_def wait_ok_def)

lemma goto_wait:
  assumes "wait_ok s" "\<And>b. qs_pc s t \<noteq> Asleep b" "\<And>b. p \<noteq> Asleep b"
  shows "wait_ok (goto t p s)"
  by (rule wait_frame [OF assms(1), of _ t]) (use assms in \<open>auto simp: goto_def wait_ok_def\<close>)

lemma notify_wait:
  assumes st: "q_step t u Notify s = Some (e, s')" and pc: "qs_pc s t = Notify" and "wait_ok s"
  shows "wait_ok s'"
proof (cases "qs_cond s = []")
  case True
  with st pc assms(3) show ?thesis
    by (auto intro: goto_wait)
next
  case False
  with st have u: "u \<in> set (qs_cond s)" and s': "s' = goto t Out (wake_thread u s)"
    by (auto split: if_splits)
  from u assms(3) pc have "qs_pc (wake_thread u s) t = Notify"
    by (auto simp: wait_ok_def wake_thread_def goto_def)
  with s' wake_wait [OF assms(3) u] show ?thesis
    by (auto intro: goto_wait)
qed

lemma q_step_wait:
  assumes st: "q_step t u (qs_pc s t) s = Some (e, s')" and inv: "wait_ok s"
  shows "wait_ok s'"
proof (cases "qs_pc s t = Notify")
  case True
  with st inv show ?thesis
    using notify_wait by metis
next
  case False
  have t: "t \<in> set (qs_cond s) \<longleftrightarrow> (\<exists>b. qs_pc s t = Asleep b)" and d: "distinct (qs_cond s)"
    using inv by (simp_all add: wait_ok_def)
  show ?thesis
  proof (rule wait_frame [OF inv, of _ t])
    show "qs_pc s' = (qs_pc s)(t := qs_pc s' t)"
      using st False by (cases "(t, u, qs_pc s t, s)" rule: q_step.cases) (auto simp: q_ops split: if_splits)
    show "distinct (qs_cond s')"
      using st False t d by (cases "(t, u, qs_pc s t, s)" rule: q_step.cases)
        (auto simp: q_ops split: if_splits list.splits)
    show "set (qs_cond s') = (if \<exists>b. qs_pc s' t = Asleep b then insert t else (\<lambda>A. A - {t})) (set (qs_cond s))"
      using st False t by (cases "(t, u, qs_pc s t, s)" rule: q_step.cases)
        (auto simp: q_ops split: if_splits list.splits)
  qed
qed

lemma q_move_wait: "q_move s l s' \<Longrightarrow> wait_ok s \<Longrightarrow> wait_ok s'"
proof (induction rule: q_move.induct)
  case (move_timeout t s)
  then show ?case
    by (intro wait_frame [OF move_timeout(3), of _ t]) (auto simp: goto_def time_over_def wait_ok_def)
qed (auto intro: q_step_wait wake_wait goto_wait)

section \<open>No lost wake_thread-up\<close>

lemma attends_finite: "wait_ok s \<Longrightarrow> finite {t. attends (qs_pc s t)}"
  unfolding wait_ok_def by (rule finite_subset [of _ "{t. qs_pc s t \<noteq> Out}"]) auto

lemma attending_upd:
  assumes "wait_ok s" "qs_pc s' = (qs_pc s)(t := p)"
  shows "attending s' + (if attends (qs_pc s t) then 1 else 0) = attending s + (if attends p then 1 else 0)"
proof -
  let ?A = "{x. attends (qs_pc s x)}"
  note fin = attends_finite [OF assms(1)]
  have eq: "{x. attends (qs_pc s' x)} = (if attends p then insert t (?A - {t}) else ?A - {t})"
    unfolding assms(2) by (rule set_eqI) auto
  have "card ?A = card (?A - {t}) + (if attends (qs_pc s t) then 1 else 0)"
  proof (cases "t \<in> ?A")
    case True
    then show ?thesis
      using card_Suc_Diff1 [OF fin True] by simp
  next
    case False
    then show ?thesis
      by simp
  qed
  moreover have "card {x. attends (qs_pc s' x)} = card (?A - {t}) + (if attends p then 1 else 0)"
    unfolding eq using card.insert_remove [OF fin, of t] by simp
  ultimately show ?thesis
    by (simp add: attending_def)
qed

text \<open>A step of \<open>t\<close> keeps \<open>wake_ok\<close> when it does not add more to the contents than to the attending threads.\<close>

lemma wake_frame:
  assumes "wake_ok s" "wait_ok s" and pc: "qs_pc s' = (qs_pc s)(t := qs_pc s' t)"
    and "qs_cond s' \<noteq> [] \<Longrightarrow> qs_contents s' = [] \<or> qs_cond s \<noteq> [] \<and>
      length (qs_contents s') + (if attends (qs_pc s t) then 1 else 0) \<le>
      length (qs_contents s) + (if attends (qs_pc s' t) then 1 else 0)"
  shows "wake_ok s'"
  using assms attending_upd [OF assms(2) pc] by (auto simp: wake_ok_def split: if_splits)

lemma wake_wake:
  assumes "wake_ok s" "wait_ok s" "t \<in> set (qs_cond s)"
  shows "wake_ok (wake_thread t s)" "Suc (length (qs_contents (wake_thread t s))) \<le> attending (wake_thread t s)"
proof -
  obtain b where b: "qs_pc s t = Asleep b"
    using assms by (auto simp: wait_ok_def)
  then have "attending (wake_thread t s) = Suc (attending s)"
    using attending_upd [OF assms(2), of "wake_thread t s" t "Woken b"] by (simp add: wake_thread_def goto_def)
  moreover have "length (qs_contents s) \<le> attending s"
    using assms(1,3) by (auto simp: wake_ok_def)
  ultimately show "wake_ok (wake_thread t s)" "Suc (length (qs_contents (wake_thread t s))) \<le> attending (wake_thread t s)"
    by (simp_all add: wake_ok_def wake_thread_def goto_def)
qed

lemma notify_wake:
  assumes st: "q_step t u Notify s = Some (e, s')" and pc: "qs_pc s t = Notify"
    and inv: "wake_ok s" "wait_ok s"
  shows "wake_ok s'"
proof (cases "qs_cond s = []")
  case True
  with st show ?thesis
    by (auto simp: wake_ok_def goto_def)
next
  case False
  with st have u: "u \<in> set (qs_cond s)" and s': "s' = goto t Out (wake_thread u s)"
    by (auto split: if_splits)
  from u inv(2) pc have t: "qs_pc (wake_thread u s) t = Notify"
    by (auto simp: wait_ok_def wake_thread_def goto_def)
  have "Suc (attending s') = attending (wake_thread u s)"
    using attending_upd [OF wake_wait [OF inv(2) u], of s' t Out] s' t by (simp add: goto_def)
  with wake_wake(2) [OF inv u] s' show ?thesis
    by (simp add: wake_ok_def goto_def)
qed

lemma q_step_wake:
  assumes st: "q_step t u (qs_pc s t) s = Some (e, s')" and inv: "wake_ok s" "wait_ok s" "mutex_ok s"
  shows "wake_ok s'"
proof (cases "qs_pc s t = Notify")
  case True
  with st inv show ?thesis
    using notify_wake by metis
next
  case False
  have view: "view_ok (qs_contents s) (qs_pc s t)"
    using inv(3) by (simp add: mutex_ok_def)
  show ?thesis
  proof (rule wake_frame [OF inv(1,2), of _ t])
    show "qs_pc s' = (qs_pc s)(t := qs_pc s' t)"
      using st False by (cases "(t, u, qs_pc s t, s)" rule: q_step.cases) (auto simp: q_ops split: if_splits)
    show "qs_contents s' = [] \<or> qs_cond s \<noteq> [] \<and>
      length (qs_contents s') + (if attends (qs_pc s t) then 1 else 0) \<le>
      length (qs_contents s) + (if attends (qs_pc s' t) then 1 else 0)" if "qs_cond s' \<noteq> []"
      using st False view that by (cases "(t, u, qs_pc s t, s)" rule: q_step.cases)
        (auto simp: q_ops split: if_splits list.splits)
  qed
qed

lemma q_move_wake:
  "q_move s l s' \<Longrightarrow> wake_ok s \<Longrightarrow> wait_ok s \<Longrightarrow> mutex_ok s \<Longrightarrow> wake_ok s'"
proof (induction rule: q_move.induct)
  case (move_call s t c)
  then show ?case
    by (intro wake_frame [OF move_call(2,3), of _ t]) (auto simp: goto_def wake_ok_def)
next
  case (move_timeout t s)
  then show ?case
    by (intro wake_frame [OF move_timeout(3,4), of _ t]) (auto simp: goto_def time_over_def)
qed (auto intro: q_step_wake wake_wake(1))

text \<open>The three parts together, along every interleaving from the empty queue.\<close>

definition queue_inv :: "('t, 'a) q_state \<Rightarrow> bool" where
  "queue_inv s \<longleftrightarrow> mutex_ok s \<and> wait_ok s \<and> wake_ok s"

lemma queue_inv_init: "queue_inv qs_init"
  by (auto simp: queue_inv_def mutex_ok_def wait_ok_def wake_ok_def qs_init_def)

lemma queue_inv_moves: "q_moves s ls s' \<Longrightarrow> queue_inv s \<Longrightarrow> queue_inv s'"
  by (induction rule: q_moves.induct)
     (auto simp: queue_inv_def intro: q_move_mutex q_move_wait q_move_wake)

section \<open>What was pushed, popped and returned\<close>

fun q_pushed :: "('t \<times> 'a q_event) list \<Rightarrow> 'a list" where
  "q_pushed [] = []"
| "q_pushed ((t, Pushed x) # ls) = x # q_pushed ls"
| "q_pushed (_ # ls) = q_pushed ls"

fun q_popped :: "('t \<times> 'a q_event) list \<Rightarrow> ('t \<times> 'a) list" where
  "q_popped [] = []"
| "q_popped ((t, Popped x) # ls) = (t, x) # q_popped ls"
| "q_popped (_ # ls) = q_popped ls"

fun q_returned :: "('t \<times> 'a q_event) list \<Rightarrow> ('t \<times> 'a) list" where
  "q_returned [] = []"
| "q_returned ((t, Return (RGot x)) # ls) = (t, x) # q_returned ls"
| "q_returned (_ # ls) = q_returned ls"

definition values_of :: "'t \<Rightarrow> ('t \<times> 'a) list \<Rightarrow> 'a list" where
  "values_of t xs = map snd (filter (\<lambda>p. fst p = t) xs)"

fun in_hand :: "'a q_pc \<Rightarrow> 'a list" where
  "in_hand (Leave (RGot x)) = [x]"
| "in_hand _ = []"

lemma q_pushed_append: "q_pushed (ls @ ms) = q_pushed ls @ q_pushed ms"
  by (induction ls rule: q_pushed.induct) auto

lemma q_popped_append: "q_popped (ls @ ms) = q_popped ls @ q_popped ms"
  by (induction ls rule: q_popped.induct) auto

lemma q_returned_append: "q_returned (ls @ ms) = q_returned ls @ q_returned ms"
  by (induction ls rule: q_returned.induct) auto

lemma values_of_append: "values_of t (xs @ ys) = values_of t xs @ values_of t ys"
  by (simp add: values_of_def)

lemmas history_append = q_pushed_append q_popped_append q_returned_append values_of_append

lemma q_step_contents:
  assumes "q_step t u (qs_pc s t) s = Some (e, s')" "mutex_ok s"
  shows "qs_contents s @ q_pushed [(t, e)] = map snd (q_popped [(t, e)]) @ qs_contents s'"
proof -
  have "view_ok (qs_contents s) (qs_pc s t)"
    using assms(2) by (simp add: mutex_ok_def)
  with assms(1) show ?thesis
    by (cases "(t, u, qs_pc s t, s)" rule: q_step.cases) (auto simp: q_ops split: if_splits)
qed

lemma q_move_contents:
  "q_move s l s' \<Longrightarrow> mutex_ok s \<Longrightarrow>
   qs_contents s @ q_pushed [l] = map snd (q_popped [l]) @ qs_contents s'"
  by (induction rule: q_move.induct)
     (use q_step_contents in \<open>fastforce simp: goto_def wake_thread_def time_over_def\<close>)+

lemma wake_in_hand: "wait_ok s \<Longrightarrow> u \<in> set (qs_cond s) \<Longrightarrow> in_hand (qs_pc (wake_thread u s) x) = in_hand (qs_pc s x)"
  by (auto simp: wait_ok_def wake_thread_def goto_def split: q_pc.splits)

lemma return_in_hand:
  "in_hand (Leave r) = values_of t (q_returned [(t, Return r)])"
  "x \<noteq> t \<Longrightarrow> values_of x (q_returned [(t, Return r)]) = []"
  by (cases r; simp add: values_of_def)+

lemma q_step_in_hand:
  assumes "q_step t u (qs_pc s t) s = Some (e, s')" "wait_ok s"
  shows "in_hand (qs_pc s x) @ values_of x (q_popped [(t, e)]) =
    values_of x (q_returned [(t, e)]) @ in_hand (qs_pc s' x)"
proof (cases "qs_pc s t = Notify")
  case True
  with assms show ?thesis
    by (auto simp: values_of_def goto_def wake_in_hand split: if_splits)
next
  case False
  have nil: "values_of x [] = []"
    by (simp add: values_of_def)
  have one: "values_of x [(t, v)] = (if x = t then [v] else [])" for v
    by (simp add: values_of_def)
  from False assms(1) show ?thesis
    by (cases "(t, u, qs_pc s t, s)" rule: q_step.cases)
       (auto simp: q_ops nil one return_in_hand(2) simp flip: return_in_hand(1) split: if_splits list.splits)
qed

lemma q_move_in_hand:
  "q_move s l s' \<Longrightarrow> wait_ok s \<Longrightarrow>
   in_hand (qs_pc s x) @ values_of x (q_popped [l]) = values_of x (q_returned [l]) @ in_hand (qs_pc s' x)"
proof (induction rule: q_move.induct)
  case (move_own t u s e s')
  then show ?case
    by (rule q_step_in_hand)
qed (auto simp: values_of_def goto_def time_over_def wake_in_hand)

lemma queue_history:
  assumes "q_moves s ls s'" "queue_inv s"
  shows "qs_contents s @ q_pushed ls = map snd (q_popped ls) @ qs_contents s' \<and>
    (\<forall>x. in_hand (qs_pc s x) @ values_of x (q_popped ls) =
         values_of x (q_returned ls) @ in_hand (qs_pc s' x))"
  using assms
proof (induction rule: q_moves.induct)
  case (moves_snoc s ls s' l s'')
  then have inv: "mutex_ok s'" "wait_ok s'"
    using queue_inv_moves by (auto simp: queue_inv_def)
  from moves_snoc q_move_contents [OF moves_snoc(2) inv(1)] q_move_in_hand [OF moves_snoc(2) inv(2)]
  show ?case
    by (auto simp: history_append) (metis append.assoc)+
qed (simp add: values_of_def)

section \<open>Nobody sleeps beside an element\<close>

lemma holder_goes_on: "in_lock p \<Longrightarrow> \<exists>r. q_step t u p s = Some r"
  by (cases "(t, u, p, s)" rule: q_step.cases) auto

lemma queue_progress:
  assumes "queue_inv s" and t: "qs_pc s t \<noteq> Out" "\<And>b. qs_pc s t \<noteq> Asleep b"
  shows "\<exists>v u r. q_step v u (qs_pc s v) s = Some r"
proof (cases "qs_holder s")
  case (Some h)
  with assms(1) have "in_lock (qs_pc s h)"
    by (simp add: queue_inv_def mutex_ok_def)
  then obtain r where "q_step h h (qs_pc s h) s = Some r"
    using holder_goes_on [of "qs_pc s h" h h s] by blast
  then show ?thesis
    by blast
next
  case None
  have "view_ok (qs_contents s) (qs_pc s t)"
    using assms(1) by (simp add: queue_inv_def mutex_ok_def)
  then have "\<exists>r. q_step t (hd (qs_cond s)) (qs_pc s t) s = Some r"
    using None t by (cases "(t, hd (qs_cond s), qs_pc s t, s)" rule: q_step.cases) (auto simp: take_lock_def)
  then show ?thesis
    by blast
qed

lemma attends_awake: "attends p \<Longrightarrow> p \<noteq> Out \<and> p \<noteq> Asleep b"
  by (cases p) auto

lemma quiet_is_empty:
  assumes "queue_inv s" and quiet: "\<And>t. qs_pc s t = Out \<or> (\<exists>b. qs_pc s t = Asleep b)"
    and "qs_pc s w = Asleep b"
  shows "qs_contents s = []"
proof -
  have "{t. attends (qs_pc s t)} = {}"
    using quiet attends_awake by blast
  then have "attending s = 0"
    by (simp add: attending_def)
  moreover have "qs_cond s \<noteq> []"
    using assms(1,3) by (auto simp: queue_inv_def wait_ok_def)
  ultimately show ?thesis
    using assms(1) by (simp add: queue_inv_def wake_ok_def)
qed

section \<open>Schedules\<close>

text \<open>
  An interleaving given as a list: which thread goes on, whom it notifies if it does, and the
  call it makes if it is not in one.
\<close>

fun q_exec :: "('t \<times> 't \<times> 'a q_call) list \<Rightarrow> ('t, 'a) q_state \<Rightarrow>
    (('t \<times> 'a q_event) list \<times> ('t, 'a) q_state) option" where
  "q_exec [] s = Some ([], s)"
| "q_exec ((t, u, c) # xs) s =
     (case (case qs_pc s t of Out \<Rightarrow> Some (Calls c, goto t (Enter c) s) | p \<Rightarrow> q_step t u p s) of
        None \<Rightarrow> None
      | Some (e, s') \<Rightarrow> (case q_exec xs s' of None \<Rightarrow> None | Some (ls, s'') \<Rightarrow> Some ((t, e) # ls, s'')))"

lemma moves_cons: "q_moves s' ls s'' \<Longrightarrow> q_move s l s' \<Longrightarrow> q_moves s (l # ls) s''"
proof (induction rule: q_moves.induct)
  case (moves_nil s')
  then show ?case
    using moves_snoc [OF q_moves.moves_nil] by fastforce
next
  case (moves_snoc s' ls s1 l1 s2)
  then show ?case
    using q_moves.moves_snoc [of s "l # ls" s1 l1 s2] by simp
qed

lemma q_exec_moves: "q_exec xs s = Some (ls, s') \<Longrightarrow> q_moves s ls s'"
proof (induction xs arbitrary: s ls)
  case (Cons x xs)
  obtain t u c where [simp]: "x = (t, u, c)"
    by (cases x)
  from Cons(2) obtain e s1 ls1 where 1: "(case qs_pc s t of Out \<Rightarrow> Some (Calls c, goto t (Enter c) s) | p \<Rightarrow> q_step t u p s) = Some (e, s1)"
    and 2: "q_exec xs s1 = Some (ls1, s')" and 3: "ls = (t, e) # ls1"
    by (auto split: option.splits prod.splits)
  from 1 have "q_move s (t, e) s1"
    by (cases "qs_pc s t") (auto intro: move_call move_own [where u = u])
  with Cons(1) [OF 2] 3 show ?case
    by (simp add: moves_cons)
qed (simp add: moves_nil)

end
