(* ===== verification/PdLog.thy ===== *)
theory PdLog
  imports OssFile
begin

text \<open>
  The diagnostic log of \<open>pd/pd.cpp\<close>: which levels are written, and the writing of one entry to the
  log file behind its latch.  The text that \<open>snprintf\<close> puts into the fixed buffer is an argument.
\<close>

datatype PDLEVEL = PDSEVERE | PDERROR | PDEVENT | PDWARNING | PDINFO | PDDEBUG

fun pd_level :: "PDLEVEL \<Rightarrow> nat" where
  "pd_level PDSEVERE = 0" | "pd_level PDERROR = 1" | "pd_level PDEVENT = 2" | "pd_level PDWARNING = 3"
| "pd_level PDINFO = 4" | "pd_level PDDEBUG = 5"

definition PDLEVELSTRING :: "string list" where
  "PDLEVELSTRING = [''SEVERE'', ''ERROR'', ''EVENT'', ''WARNING'', ''INFO'', ''DEBUG'']"

definition getPDLevelDesp :: "nat \<Rightarrow> string" where
  "getPDLevelDesp level = (if level > 5 then ''Unknow Level'' else PDLEVELSTRING ! level)"

definition PD_DFT_DIAGLEVEL :: PDLEVEL where "PD_DFT_DIAGLEVEL = PDWARNING"

definition PD_LOG_STRINGMAX :: nat where "PD_LOG_STRINGMAX = 4096"

text \<open>What \<open>snprintf\<close> leaves in a buffer of \<open>n\<close> bytes.\<close>

definition snprintf_buf :: "nat \<Rightarrow> u8 list \<Rightarrow> u8 list" where
  "snprintf_buf n text = take (n - 1) (c_prefix text) @ [0]"

record pd_log =
  pd_file :: ossPrimitiveFileOp
  pd_mutex :: ossXLatch
  pd_path :: string

definition pdLogFileReopen :: "(int \<times> int) list \<Rightarrow> pd_log \<Rightarrow> (int \<times> pd_log) res" where
  "pdLogFileReopen opens lg = bnd (fop_Open opens (fop_Close (pd_file lg))) (\<lambda>(rc, f).
     if rc \<noteq> 0 then Ret (rc, lg\<lparr>pd_file := f\<rparr>) else Ret (rc, lg\<lparr>pd_file := fop_seekToEnd f\<rparr>))"

definition pdLogFileWrite :: "tid \<Rightarrow> u8 list \<Rightarrow> (int \<times> int) list \<Rightarrow> sys_io list \<Rightarrow> pd_log \<Rightarrow> (int \<times> pd_log) res" where
  "pdLogFileWrite t pData opens writes lg = bnd (x_get t (pd_mutex lg)) (\<lambda>l.
     bnd (let lg = lg\<lparr>pd_mutex := l\<rparr> in
          bnd (if \<not> fop_isValid (pd_file lg) then pdLogFileReopen opens lg else Ret (EDB_OK, lg)) (\<lambda>(rc, lg).
          if rc \<noteq> 0 then Ret (rc, lg) else
          bnd (fop_Write pData (length (c_prefix pData)) writes (pd_file lg)) (\<lambda>(rc, f). Ret (rc, lg\<lparr>pd_file := f\<rparr>))))
     (\<lambda>(rc, lg). bnd (x_release t (pd_mutex lg)) (\<lambda>l. Ret (rc, lg\<lparr>pd_mutex := l\<rparr>))))"

text \<open>\<open>pdLog\<close>: nothing for a level above the current one, nor for the file without a path.\<close>

definition pdLog :: "tid \<Rightarrow> PDLEVEL \<Rightarrow> PDLEVEL \<Rightarrow> u8 list \<Rightarrow> (int \<times> int) list \<Rightarrow> sys_io list \<Rightarrow> pd_log \<Rightarrow> pd_log res" where
  "pdLog t cur level sysInfo opens writes lg = (if pd_level cur < pd_level level then Ret lg else
     if pd_path lg = [] then Ret lg else
     bnd (pdLogFileWrite t (snprintf_buf PD_LOG_STRINGMAX sysInfo) opens writes lg) (\<lambda>(rc, lg). Ret lg))"

section \<open>Lemmas\<close>

lemma pd_level_desp: "getPDLevelDesp (pd_level l) \<noteq> ''Unknow Level''"
  by (cases l) (simp_all add: getPDLevelDesp_def PDLEVELSTRING_def)

lemma c_prefix_snprintf: "c_prefix (snprintf_buf n text) = take (n - 1) (c_prefix text)"
proof -
  have "0 \<notin> set (take (n - 1) (c_prefix text))"
    by (auto simp: c_prefix_def dest!: in_set_takeD set_takeWhileD)
  then show ?thesis
    unfolding snprintf_buf_def by (subst c_prefix_def) (subst takeWhile_append2; auto)
qed

text \<open>The latch is free again after every entry, whatever the file did.\<close>

lemma pdLogFileWrite_latch:
  assumes "pd_mutex lg = None" "pdLogFileWrite t pData opens writes lg = Ret (rc, lg')"
  shows "pd_mutex lg' = None"
  using assms by (auto simp: pdLogFileWrite_def pdLogFileReopen_def Let_def bnd_eq_Ret split: if_splits)

lemma pdLog_filtered: "pd_level cur < pd_level level \<Longrightarrow> pdLog t cur level info opens writes lg = Ret lg"
  by (simp add: pdLog_def)

end
