(* ===== verification/PmdEDU.thy ===== *)
theory PmdEDU
  imports OssQueue OssCore StdMap
begin

text \<open>
  The control block of an engine dispatchable unit (EDU), \<open>include/pmdEDU.hpp\<close>, its events
  (\<open>include/pmdEDUEvent.hpp\<close>), and the registry of entry points and the two I/O wrappers of
  \<open>pmd/pmdEDU.cpp\<close>.
\<close>

section \<open>Types\<close>

datatype EDU_TYPES = EDU_TYPE_TCPLISTENER | EDU_TYPE_AGENT | EDU_TYPE_UNKNOWN

datatype EDU_STATUS = PMD_EDU_CREATING | PMD_EDU_RUNNING | PMD_EDU_WAITING | PMD_EDU_IDLE
  | PMD_EDU_DESTROY | PMD_EDU_UNKNOWN

datatype pmdEDUEventTypes = PMD_EDU_EVENT_NONE | PMD_EDU_EVENT_TERM | PMD_EDU_EVENT_RESUME
  | PMD_EDU_EVENT_ACTIVE | PMD_EDU_EVENT_DEACTIVE | PMD_EDU_EVENT_MSG | PMD_EDU_EVENT_TIMEOUT
  | PMD_EDU_EVENT_LOCKWAKEUP

fun edu_type_code :: "EDU_TYPES \<Rightarrow> nat" where
  "edu_type_code EDU_TYPE_TCPLISTENER = 0"
| "edu_type_code EDU_TYPE_AGENT = 1"
| "edu_type_code EDU_TYPE_UNKNOWN = 2"

instantiation EDU_TYPES :: linorder
begin

definition less_eq_EDU_TYPES :: "EDU_TYPES \<Rightarrow> EDU_TYPES \<Rightarrow> bool" where
  "less_eq_EDU_TYPES s t \<longleftrightarrow> edu_type_code s \<le> edu_type_code t"

definition less_EDU_TYPES :: "EDU_TYPES \<Rightarrow> EDU_TYPES \<Rightarrow> bool" where
  "less_EDU_TYPES s t \<longleftrightarrow> edu_type_code s < edu_type_code t"

instance
proof
  fix s t u :: EDU_TYPES
  show "s \<le> t \<Longrightarrow> t \<le> s \<Longrightarrow> s = t"
    by (cases s; cases t) (simp_all add: less_eq_EDU_TYPES_def)
qed (auto simp: less_eq_EDU_TYPES_def less_EDU_TYPES_def)

end

section \<open>The control block\<close>

text \<open>The data of an event is a pointer, kept as its address; 0 is NULL.\<close>

record pmdEDUEvent =
  eventType :: pmdEDUEventTypes
  ev_release :: bool
  ev_data :: nat

definition event_init :: pmdEDUEvent where
  "event_init = \<lparr>eventType = PMD_EDU_EVENT_NONE, ev_release = False, ev_data = 0\<rparr>"

type_synonym EDUID = nat

record pmdEDUCB =
  cb_type :: EDU_TYPES
  cb_status :: EDU_STATUS
  cb_id :: EDUID
  cb_forced :: bool
  cb_disconnected :: bool
  cb_queue :: "pmdEDUEvent ossQueue"

definition cb_new :: "EDU_TYPES \<Rightarrow> pmdEDUCB" where
  "cb_new type = \<lparr>cb_type = type, cb_status = PMD_EDU_CREATING, cb_id = 0, cb_forced = False,
     cb_disconnected = False, cb_queue = q_init\<rparr>"

definition cb_postEvent :: "pmdEDUEvent \<Rightarrow> pmdEDUCB \<Rightarrow> pmdEDUCB" where
  "cb_postEvent ev cb = cb\<lparr>cb_queue := q_push ev (cb_queue cb)\<rparr>"

definition cb_force :: "pmdEDUCB \<Rightarrow> pmdEDUCB" where
  "cb_force cb = cb\<lparr>cb_forced := True\<rparr>"

definition cb_disconnect :: "pmdEDUCB \<Rightarrow> pmdEDUCB" where
  "cb_disconnect cb = cb\<lparr>cb_disconnected := True\<rparr>"

text \<open>
  \<open>waitEvent\<close> in its two halves.  Before the wait the status becomes WAITING unless the EDU is
  pooled; the wait itself is that of the queue, with the contents found at each wake-up as in
  \<open>OssQueue\<close>; an event that arrives makes the EDU RUNNING unless it is TERM.
\<close>

definition cb_wait_begin :: "pmdEDUCB \<Rightarrow> pmdEDUCB" where
  "cb_wait_begin cb = (if cb_status cb \<noteq> PMD_EDU_IDLE then cb\<lparr>cb_status := PMD_EDU_WAITING\<rparr> else cb)"

definition cb_wait_end :: "pmdEDUEvent option \<Rightarrow> pmdEDUCB \<Rightarrow> pmdEDUCB" where
  "cb_wait_end ev cb = (case ev of None \<Rightarrow> cb
     | Some e \<Rightarrow> if eventType e = PMD_EDU_EVENT_TERM then cb\<lparr>cb_disconnected := True\<rparr>
         else cb\<lparr>cb_status := PMD_EDU_RUNNING\<rparr>)"

definition cb_waitEvent :: "int \<Rightarrow> (bool \<times> pmdEDUEvent ossQueue) list \<Rightarrow> pmdEDUCB \<Rightarrow>
    (pmdEDUEvent option \<times> pmdEDUCB) res" where
  "cb_waitEvent millsec wakes cb = (let cb1 = cb_wait_begin cb in
     if millsec < 0 then bnd (q_wait_and_pop (cb_queue cb1) (map snd wakes)) (\<lambda>(ev, q).
       Ret (Some ev, cb_wait_end (Some ev) (cb1\<lparr>cb_queue := q\<rparr>)))
     else bnd (q_timed_wait_and_pop (cb_queue cb1) wakes) (\<lambda>(ev, q).
       Ret (ev, cb_wait_end ev (cb1\<lparr>cb_queue := q\<rparr>))))"

section \<open>The registry of EDU types\<close>

text \<open>\<open>mapEDUName\<close> and \<open>mapEDUTypeSys\<close>.\<close>

record edu_registry =
  mapEDUName :: "(EDU_TYPES, string) std_map"
  mapEDUTypeSys :: "(EDU_TYPES, EDU_TYPES) std_map"

definition registerEDUName :: "EDU_TYPES \<Rightarrow> string \<Rightarrow> bool \<Rightarrow> edu_registry \<Rightarrow> int \<times> edu_registry" where
  "registerEDUName type name system r =
     (if map_of (mapEDUName r) type \<noteq> None then (EDB_SYS, r) else
      let r1 = r\<lparr>mapEDUName := smap_put type name (mapEDUName r)\<rparr> in
      (EDB_OK, if system then r1\<lparr>mapEDUTypeSys := smap_put type type (mapEDUTypeSys r1)\<rparr> else r1))"

definition getEDUName :: "EDU_TYPES \<Rightarrow> edu_registry \<Rightarrow> string" where
  "getEDUName type r = (case map_of (mapEDUName r) type of Some n \<Rightarrow> n | None \<Rightarrow> ''Unknown'')"

definition isSystemEDU :: "EDU_TYPES \<Rightarrow> edu_registry \<Rightarrow> bool" where
  "isSystemEDU type r \<longleftrightarrow> map_of (mapEDUTypeSys r) type \<noteq> None"

datatype entry_point = pmdAgentEntryPoint | pmdTcpListenerEntryPoint

text \<open>
  The static table: building it (the first call) registers the three names; then the loop looks
  for the type.
\<close>

definition edu_entries :: "(EDU_TYPES \<times> bool \<times> entry_point option \<times> string) list" where
  "edu_entries = [(EDU_TYPE_AGENT, False, Some pmdAgentEntryPoint, ''Agent''),
     (EDU_TYPE_TCPLISTENER, True, Some pmdTcpListenerEntryPoint, ''TCPListener''),
     (EDU_TYPE_UNKNOWN, False, None, ''Unknown'')]"

definition register_entries :: "edu_registry \<Rightarrow> edu_registry" where
  "register_entries r = fold (\<lambda>(type, system, _, name) r. snd (registerEDUName type name system r)) edu_entries r"

definition getEntryFuncByType :: "EDU_TYPES \<Rightarrow> entry_point option" where
  "getEntryFuncByType type = (case find (\<lambda>e. fst e = type) edu_entries of
     Some (_, _, f, _) \<Rightarrow> f | None \<Rightarrow> None)"

section \<open>Receiving and sending (\<open>pmdRecv\<close>, \<open>pmdSend\<close>)\<close>

text \<open>
  Both repeat the socket call until it does something else than time out, unless the EDU was
  forced in the meantime.  An entry of the script: was the EDU forced when the loop looked, and
  what the socket call returned otherwise.
\<close>

fun pmd_io_loop :: "(bool \<times> int) list \<Rightarrow> int res" where
  "pmd_io_loop [] = Wait"
| "pmd_io_loop ((forced, rc) # calls) = (if forced then Ret EDB_APP_FORCED
     else if rc = EDB_TIMEOUT then pmd_io_loop calls else Ret rc)"

definition pmdRecv :: "(bool \<times> int) list \<Rightarrow> int res" where
  "pmdRecv calls = pmd_io_loop calls"

definition pmdSend :: "(bool \<times> int) list \<Rightarrow> int res" where
  "pmdSend calls = pmd_io_loop calls"

section \<open>Lemmas\<close>

lemma entry_points [simp]:
  "getEntryFuncByType EDU_TYPE_AGENT = Some pmdAgentEntryPoint"
  "getEntryFuncByType EDU_TYPE_TCPLISTENER = Some pmdTcpListenerEntryPoint"
  "getEntryFuncByType EDU_TYPE_UNKNOWN = None"
  by (simp_all add: getEntryFuncByType_def edu_entries_def)

lemma registered:
  "register_entries \<lparr>mapEDUName = [], mapEDUTypeSys = []\<rparr> =
     \<lparr>mapEDUName = [(EDU_TYPE_TCPLISTENER, ''TCPListener''), (EDU_TYPE_AGENT, ''Agent''), (EDU_TYPE_UNKNOWN, ''Unknown'')],
      mapEDUTypeSys = [(EDU_TYPE_TCPLISTENER, EDU_TYPE_TCPLISTENER)]\<rparr>"
  by (simp add: register_entries_def edu_entries_def registerEDUName_def less_EDU_TYPES_def)

lemma registering_twice: "map_of (mapEDUName r) type \<noteq> None \<Longrightarrow> registerEDUName type name system r = (EDB_SYS, r)"
  by (simp add: registerEDUName_def)

lemma pmd_io_forced: "(True, rc) \<in> set calls \<Longrightarrow> pmd_io_loop calls \<noteq> Wait"
  by (induction calls rule: pmd_io_loop.induct) auto

lemma pmd_io_outcome: "pmd_io_loop calls = Ret rc \<Longrightarrow> rc \<noteq> EDB_TIMEOUT"
  by (induction calls rule: pmd_io_loop.induct) (auto simp: edb_codes split: if_splits)

text \<open>The status after \<open>waitEvent\<close>, by outcome.\<close>

lemma cb_waitEvent_status:
  assumes "cb_waitEvent millsec wakes cb = Ret (ev, cb')"
  shows "cb_status cb' = (case ev of
       Some e \<Rightarrow> if eventType e = PMD_EDU_EVENT_TERM then cb_status (cb_wait_begin cb) else PMD_EDU_RUNNING
     | None \<Rightarrow> cb_status (cb_wait_begin cb))"
    "cb_id cb' = cb_id cb" "cb_type cb' = cb_type cb" "cb_forced cb' = cb_forced cb"
proof -
  obtain q where "cb' = cb_wait_end ev ((cb_wait_begin cb)\<lparr>cb_queue := q\<rparr>)"
    using assms by (cases "millsec < 0") (auto simp: cb_waitEvent_def Let_def bnd_eq_Ret)
  then show "cb_status cb' = (case ev of
       Some e \<Rightarrow> if eventType e = PMD_EDU_EVENT_TERM then cb_status (cb_wait_begin cb) else PMD_EDU_RUNNING
     | None \<Rightarrow> cb_status (cb_wait_begin cb))"
    "cb_id cb' = cb_id cb" "cb_type cb' = cb_type cb" "cb_forced cb' = cb_forced cb"
    by (cases ev; simp add: cb_wait_end_def cb_wait_begin_def)+
qed

end
