(* ===== verification/PmdEDUMgr.thy ===== *)
theory PmdEDUMgr
  imports PmdEDU OssLatch
begin

unbundle bit_operations_syntax

text \<open>
  The EDU manager (\<open>include/pmdEDUMgr.hpp\<close>, \<open>pmd/pmdEDUMgr.cpp\<close>): the thread pool.  Control blocks
  live on a heap and the queues hold pointers to them, so a call that reaches a block that was
  deleted is \<open>Stuck\<close>.  Every call takes the manager's latch for the part the code guards with it,
  and gives it back on every path.  \<open>EDB_ASSERT\<close> is empty in the release build.
\<close>

section \<open>State\<close>

type_synonym cbp = nat

record pmdEDUMgr =
  runQueue :: "(EDUID, cbp) std_map"
  idleQueue :: "(EDUID, cbp) std_map"
  tid_eduid_map :: "(nat, EDUID) std_map"
  mgr_latch :: ossSLatch
  nextEDUID :: EDUID
  mapSystemEDUS :: "(EDU_TYPES, EDUID) std_map"
  isQuiesced :: bool
  isDestroyed :: bool
  cb_heap :: "cbp \<Rightarrow> pmdEDUCB option"
  cb_next :: cbp

definition mgr_init :: pmdEDUMgr where
  "mgr_init = \<lparr>runQueue = [], idleQueue = [], tid_eduid_map = [], mgr_latch = s_init, nextEDUID = 1,
     mapSystemEDUS = [], isQuiesced = False, isDestroyed = False, cb_heap = Map.empty, cb_next = 1\<rparr>"

type_synonym 'a mgr_call = "pmdEDUMgr \<Rightarrow> ('a \<times> pmdEDUMgr) res"

text \<open>The two kinds of critical section on \<open>_mutex\<close>.\<close>

definition exclusive :: "tid \<Rightarrow> 'a mgr_call \<Rightarrow> 'a mgr_call" where
  "exclusive t f st = bnd (s_get t (mgr_latch st)) (\<lambda>l.
     bnd (f (st\<lparr>mgr_latch := l\<rparr>)) (\<lambda>(r, st').
     bnd (s_release t (mgr_latch st')) (\<lambda>l'. Ret (r, st'\<lparr>mgr_latch := l'\<rparr>))))"

definition shared :: "tid \<Rightarrow> 'a mgr_call \<Rightarrow> 'a mgr_call" where
  "shared t f st = bnd (s_get_shared t (mgr_latch st)) (\<lambda>l.
     bnd (f (st\<lparr>mgr_latch := l\<rparr>)) (\<lambda>(r, st').
     bnd (s_release_shared t (mgr_latch st')) (\<lambda>l'. Ret (r, st'\<lparr>mgr_latch := l'\<rparr>))))"

definition cb_at :: "cbp \<Rightarrow> pmdEDUMgr \<Rightarrow> pmdEDUCB res" where
  "cb_at p st = (case cb_heap st p of None \<Rightarrow> Stuck | Some cb \<Rightarrow> Ret cb)"

definition cb_upd :: "cbp \<Rightarrow> (pmdEDUCB \<Rightarrow> pmdEDUCB) \<Rightarrow> pmdEDUMgr \<Rightarrow> pmdEDUMgr res" where
  "cb_upd p f st = (case cb_heap st p of None \<Rightarrow> Stuck
     | Some cb \<Rightarrow> Ret (st\<lparr>cb_heap := (cb_heap st)(p \<mapsto> f cb)\<rparr>))"

text \<open>The look-up most calls start with: the run queue, then the idle queue.\<close>

definition find_edu :: "EDUID \<Rightarrow> pmdEDUMgr \<Rightarrow> cbp option" where
  "find_edu eduID st = (case map_of (runQueue st) eduID of Some p \<Rightarrow> Some p
     | None \<Rightarrow> map_of (idleQueue st) eduID)"

section \<open>Sizes and system EDUs\<close>

definition mgr_size :: "pmdEDUMgr \<Rightarrow> nat" where
  "mgr_size st = u32_add (length (runQueue st)) (length (idleQueue st))"

definition sizeRun :: "tid \<Rightarrow> nat mgr_call" where
  "sizeRun t = shared t (\<lambda>st. Ret (length (runQueue st) mod 4294967296, st))"

definition sizeIdle :: "tid \<Rightarrow> nat mgr_call" where
  "sizeIdle t = shared t (\<lambda>st. Ret (length (idleQueue st) mod 4294967296, st))"

definition sizeSystem :: "tid \<Rightarrow> nat mgr_call" where
  "sizeSystem t = shared t (\<lambda>st. Ret (length (mapSystemEDUS st) mod 4294967296, st))"

definition setQuiesced :: "bool \<Rightarrow> pmdEDUMgr \<Rightarrow> pmdEDUMgr" where
  "setQuiesced b st = st\<lparr>isQuiesced := b\<rparr>"

definition isSystemID :: "EDUID \<Rightarrow> pmdEDUMgr \<Rightarrow> bool" where
  "isSystemID eduID st \<longleftrightarrow> list_ex (\<lambda>e. snd e = eduID) (mapSystemEDUS st)"

definition regSystemEDU :: "tid \<Rightarrow> EDU_TYPES \<Rightarrow> EDUID \<Rightarrow> unit mgr_call" where
  "regSystemEDU t edu eduid = exclusive t (\<lambda>st.
     Ret ((), st\<lparr>mapSystemEDUS := smap_put edu eduid (mapSystemEDUS st)\<rparr>))"

definition getSystemEDU :: "tid \<Rightarrow> EDU_TYPES \<Rightarrow> EDUID mgr_call" where
  "getSystemEDU t edu = shared t (\<lambda>st.
     Ret (case map_of (mapSystemEDUS st) edu of Some i \<Rightarrow> i | None \<Rightarrow> 0, st))"

definition isPoolable :: "EDU_TYPES \<Rightarrow> bool" where
  "isPoolable type \<longleftrightarrow> EDU_TYPE_AGENT = type"

section \<open>Forcing\<close>

text \<open>\<open>forceUserEDU\<close> compares the id in each block, and stops at the first match.\<close>

fun force_first :: "EDUID \<Rightarrow> (EDUID \<times> cbp) list \<Rightarrow> bool mgr_call" where
  "force_first eduID [] st = Ret (False, st)"
| "force_first eduID (e # es) st = bnd (cb_at (snd e) st) (\<lambda>cb.
     if cb_id cb = eduID then bnd (cb_upd (snd e) cb_force st) (\<lambda>st'. Ret (True, st'))
     else force_first eduID es st)"

definition forceUserEDU :: "tid \<Rightarrow> EDUID \<Rightarrow> int mgr_call" where
  "forceUserEDU t eduID = exclusive t (\<lambda>st.
     if isSystemID eduID st then Ret (EDB_PMD_FORCE_SYSTEM_EDU, st)
     else bnd (force_first eduID (runQueue st) st) (\<lambda>(hit, st').
       if hit then Ret (EDB_OK, st')
       else bnd (force_first eduID (idleQueue st') st') (\<lambda>(_, st''). Ret (EDB_OK, st''))))"

definition EDU_SYSTEM :: nat where "EDU_SYSTEM = 1"
definition EDU_USER :: nat where "EDU_USER = 2"
definition EDU_ALL :: nat where "EDU_ALL = 3"

definition in_property :: "nat \<Rightarrow> EDUID \<Rightarrow> pmdEDUMgr \<Rightarrow> bool" where
  "in_property property i st \<longleftrightarrow> (EDU_SYSTEM AND property \<noteq> 0 \<and> isSystemID i st) \<or>
     (EDU_USER AND property \<noteq> 0 \<and> \<not> isSystemID i st)"

fun force_all :: "(EDUID \<times> cbp) list \<Rightarrow> pmdEDUMgr \<Rightarrow> pmdEDUMgr res" where
  "force_all [] st = Ret st"
| "force_all (e # es) st = bnd (cb_upd (snd e) cb_force st) (force_all es)"

definition forceEDUs :: "tid \<Rightarrow> nat \<Rightarrow> int mgr_call" where
  "forceEDUs t property = exclusive t (\<lambda>st.
     bnd (force_all (filter (\<lambda>e. in_property property (fst e) st) (runQueue st)) st) (\<lambda>st'.
     bnd (force_all (if EDU_USER AND property \<noteq> 0 then idleQueue st' else []) st') (\<lambda>st''.
       Ret (EDB_OK, st''))))"

definition getEDUCount :: "tid \<Rightarrow> nat \<Rightarrow> nat mgr_call" where
  "getEDUCount t property = shared t (\<lambda>st.
     Ret (u32_add (length (filter (\<lambda>e. in_property property (fst e) st) (runQueue st)))
       (if EDU_USER AND property \<noteq> 0 then length (idleQueue st) else 0), st))"

section \<open>Events\<close>

definition postEDUPost :: "tid \<Rightarrow> EDUID \<Rightarrow> pmdEDUEvent \<Rightarrow> int mgr_call" where
  "postEDUPost t eduID ev = shared t (\<lambda>st. case find_edu eduID st of
     None \<Rightarrow> Ret (EDB_SYS, st)
   | Some p \<Rightarrow> bnd (cb_upd p (cb_postEvent ev) st) (\<lambda>st'. Ret (EDB_OK, st')))"

text \<open>The wait on the block's queue happens with the shared latch held.\<close>

definition waitEDUPost :: "tid \<Rightarrow> EDUID \<Rightarrow> int \<Rightarrow> (bool \<times> pmdEDUEvent ossQueue) list \<Rightarrow>
    (int \<times> pmdEDUEvent option) mgr_call" where
  "waitEDUPost t eduID millsecond wakes = shared t (\<lambda>st. case find_edu eduID st of
     None \<Rightarrow> Ret ((EDB_SYS, None), st)
   | Some p \<Rightarrow> bnd (cb_at p st) (\<lambda>cb. bnd (cb_waitEvent millsecond wakes cb) (\<lambda>(ev, cb').
       bnd (cb_upd p (\<lambda>_. cb') st) (\<lambda>st'.
       Ret ((if ev = None then EDB_TIMEOUT else EDB_OK, ev), st')))))"

section \<open>The life of an EDU\<close>

text \<open>\<open>_destroyEDU\<close>: the first entry of the thread map that names the EDU goes, the block is deleted.\<close>

fun erase_first_value :: "EDUID \<Rightarrow> (nat, EDUID) std_map \<Rightarrow> (nat, EDUID) std_map" where
  "erase_first_value i [] = []"
| "erase_first_value i (e # es) = (if snd e = i then es else e # erase_first_value i es)"

definition destroy_found :: "EDUID \<Rightarrow> cbp \<Rightarrow> int mgr_call" where
  "destroy_found eduID p st = Ret (EDB_OK, st\<lparr>tid_eduid_map := erase_first_value eduID (tid_eduid_map st),
     cb_heap := (cb_heap st)(p := None)\<rparr>)"

definition destroyEDU :: "tid \<Rightarrow> EDUID \<Rightarrow> int mgr_call" where
  "destroyEDU t eduID = exclusive t (\<lambda>st. case map_of (runQueue st) eduID of
     None \<Rightarrow> (case map_of (idleQueue st) eduID of
         None \<Rightarrow> Ret (EDB_SYS, st)
       | Some p \<Rightarrow> bnd (cb_at p st) (\<lambda>cb.
           if cb_status cb \<noteq> PMD_EDU_IDLE then Ret (EDB_EDU_INVAL_STATUS, st)
           else destroy_found eduID p (st\<lparr>idleQueue := smap_erase eduID (idleQueue st)\<rparr>)))
   | Some p \<Rightarrow> bnd (cb_at p st) (\<lambda>cb.
       if cb_status cb \<noteq> PMD_EDU_WAITING \<and> cb_status cb \<noteq> PMD_EDU_CREATING
       then Ret (EDB_EDU_INVAL_STATUS, st)
       else destroy_found eduID p (st\<lparr>runQueue := smap_erase eduID (runQueue st)\<rparr>)))"

definition set_status :: "EDU_STATUS \<Rightarrow> pmdEDUCB \<Rightarrow> pmdEDUCB" where
  "set_status s cb = cb\<lparr>cb_status := s\<rparr>"

definition waitEDU :: "tid \<Rightarrow> EDUID \<Rightarrow> int mgr_call" where
  "waitEDU t eduID = shared t (\<lambda>st. case map_of (runQueue st) eduID of
     None \<Rightarrow> Ret (EDB_SYS, st)
   | Some p \<Rightarrow> bnd (cb_at p st) (\<lambda>cb.
       if cb_status cb = PMD_EDU_WAITING then Ret (EDB_OK, st)
       else if cb_status cb \<noteq> PMD_EDU_RUNNING then Ret (EDB_EDU_INVAL_STATUS, st)
       else bnd (cb_upd p (set_status PMD_EDU_WAITING) st) (\<lambda>st'. Ret (EDB_OK, st'))))"

definition deactivateEDU :: "tid \<Rightarrow> EDUID \<Rightarrow> int mgr_call" where
  "deactivateEDU t eduID = exclusive t (\<lambda>st. case map_of (runQueue st) eduID of
     None \<Rightarrow> (if map_of (idleQueue st) eduID \<noteq> None then Ret (EDB_OK, st) else Ret (EDB_SYS, st))
   | Some p \<Rightarrow> bnd (cb_at p st) (\<lambda>cb.
       if cb_status cb = PMD_EDU_IDLE then Ret (EDB_OK, st)
       else if cb_status cb \<noteq> PMD_EDU_WAITING \<and> cb_status cb \<noteq> PMD_EDU_CREATING
       then Ret (EDB_EDU_INVAL_STATUS, st)
       else bnd (cb_upd p (set_status PMD_EDU_IDLE) (st\<lparr>runQueue := smap_erase eduID (runQueue st)\<rparr>))
         (\<lambda>st'. Ret (EDB_OK, st'\<lparr>idleQueue := smap_put eduID p (idleQueue st')\<rparr>))))"

definition activateEDU :: "tid \<Rightarrow> EDUID \<Rightarrow> int mgr_call" where
  "activateEDU t eduID = exclusive t (\<lambda>st. case map_of (idleQueue st) eduID of
     None \<Rightarrow> (case map_of (runQueue st) eduID of
         None \<Rightarrow> Ret (EDB_SYS, st)
       | Some p \<Rightarrow> bnd (cb_at p st) (\<lambda>cb.
           if cb_status cb = PMD_EDU_RUNNING then Ret (EDB_OK, st)
           else if cb_status cb \<noteq> PMD_EDU_WAITING \<and> cb_status cb \<noteq> PMD_EDU_CREATING
           then Ret (EDB_EDU_INVAL_STATUS, st)
           else bnd (cb_upd p (set_status PMD_EDU_RUNNING) st) (\<lambda>st'. Ret (EDB_OK, st'))))
   | Some p \<Rightarrow> bnd (cb_at p st) (\<lambda>cb.
       if cb_status cb = PMD_EDU_RUNNING then Ret (EDB_OK, st)
       else if cb_status cb \<noteq> PMD_EDU_IDLE then Ret (EDB_EDU_INVAL_STATUS, st)
       else bnd (cb_upd p (set_status PMD_EDU_RUNNING) (st\<lparr>idleQueue := smap_erase eduID (idleQueue st)\<rparr>))
         (\<lambda>st'. Ret (EDB_OK, st'\<lparr>runQueue := smap_put eduID p (runQueue st')\<rparr>))))"

text \<open>
  \<open>_createNewEDU\<close>.  \<open>alloc\<close> and \<open>thread\<close> say whether \<open>new\<close> and the creation of the thread succeed.
  The result has what was stored through the pointer \<open>eduid\<close>, also on failure.
\<close>

definition createNewEDU :: "tid \<Rightarrow> bool \<Rightarrow> bool \<Rightarrow> EDU_TYPES \<Rightarrow> nat \<Rightarrow> (int \<times> EDUID option) mgr_call" where
  "createNewEDU t alloc thread type arg st =
     (if isQuiesced st then Ret ((EDB_QUIESCED, None), st)
      else if getEntryFuncByType type = None then Ret ((EDB_INVALIDARG, None), st)
      else if \<not> alloc then Ret ((EDB_OOM, None), st)
      else let p = cb_next st;
               st1 = st\<lparr>cb_heap := (cb_heap st)(p \<mapsto> set_status PMD_EDU_CREATING (cb_new type)), cb_next := p + 1\<rparr> in
        bnd (exclusive t (\<lambda>st. let i = nextEDUID st in
            if map_of (runQueue st) i \<noteq> None \<or> map_of (idleQueue st) i \<noteq> None then Ret (None, st)
            else bnd (cb_upd p (\<lambda>cb. cb\<lparr>cb_id := i\<rparr>) st) (\<lambda>st. Ret (Some i,
              st\<lparr>runQueue := smap_put i p (runQueue st), nextEDUID := (i + 1) mod 18446744073709551616\<rparr>))) st1)
        (\<lambda>(r, st2). case r of
           None \<Rightarrow> Ret ((EDB_SYS, None), st2\<lparr>cb_heap := (cb_heap st2)(p := None)\<rparr>)
         | Some i \<Rightarrow> if \<not> thread then Ret ((EDB_SYS, Some i),
               st2\<lparr>runQueue := smap_erase i (runQueue st2), cb_heap := (cb_heap st2)(p := None)\<rparr>)
             else bnd (cb_upd p (cb_postEvent \<lparr>eventType = PMD_EDU_EVENT_RESUME, ev_release = False, ev_data = arg\<rparr>) st2)
               (\<lambda>st3. Ret ((EDB_OK, Some i), st3))))"

text \<open>\<open>startEDU\<close>: the first pooled EDU that is IDLE, else a new one.\<close>

fun first_idle :: "(EDUID \<times> cbp) list \<Rightarrow> pmdEDUMgr \<Rightarrow> (EDUID \<times> cbp) option res" where
  "first_idle [] st = Ret None"
| "first_idle (e # es) st = bnd (cb_at (snd e) st) (\<lambda>cb.
     if cb_status cb = PMD_EDU_IDLE then Ret (Some e) else first_idle es st)"

definition reuse_idle :: "EDU_TYPES \<Rightarrow> (EDUID \<times> cbp) option mgr_call" where
  "reuse_idle type st =
     (if idleQueue st = [] \<or> \<not> isPoolable type then Ret (None, st)
      else bnd (first_idle (idleQueue st) st) (\<lambda>r. case r of
          None \<Rightarrow> Ret (None, st)
        | Some (i, p) \<Rightarrow> bnd (cb_upd p (\<lambda>cb. cb\<lparr>cb_type := type, cb_status := PMD_EDU_WAITING\<rparr>)
              (st\<lparr>idleQueue := smap_erase i (idleQueue st)\<rparr>)) (\<lambda>st'.
            Ret (Some (i, p), st'\<lparr>runQueue := smap_put i p (runQueue st')\<rparr>))))"

definition startEDU :: "tid \<Rightarrow> bool \<Rightarrow> bool \<Rightarrow> EDU_TYPES \<Rightarrow> nat \<Rightarrow> (int \<times> EDUID option) mgr_call" where
  "startEDU t alloc thread type arg st =
     (if isQuiesced st then Ret ((EDB_QUIESCED, None), st) else
      bnd (exclusive t (reuse_idle type) st) (\<lambda>(r, st'). case r of
         None \<Rightarrow> createNewEDU t alloc thread type arg st'
       | Some (i, p) \<Rightarrow> bnd (cb_upd p (cb_postEvent \<lparr>eventType = PMD_EDU_EVENT_RESUME, ev_release = False, ev_data = arg\<rparr>) st')
           (\<lambda>st''. Ret ((EDB_OK, Some i), st''))))"

text \<open>
  \<open>returnEDU\<close>, called with a place to store whether the EDU is gone; \<open>maxPool\<close> is the configured
  size of the pool, compared as an unsigned number.
\<close>

definition returnEDU :: "tid \<Rightarrow> int \<Rightarrow> EDUID \<Rightarrow> bool \<Rightarrow> (int \<times> bool) mgr_call" where
  "returnEDU t maxPool eduID force st =
     bnd (shared t (\<lambda>st. case find_edu eduID st of None \<Rightarrow> Ret (None, st)
         | Some p \<Rightarrow> bnd (cb_at p st) (\<lambda>cb. Ret (Some (cb_type cb), st))) st) (\<lambda>(r, st1). case r of
       None \<Rightarrow> Ret ((EDB_SYS, False), st1)
     | Some type \<Rightarrow>
         if \<not> isPoolable type \<or> force \<or> isDestroyed st1 \<or> mgr_size st1 > to_u32 maxPool
         then bnd (destroyEDU t eduID st1) (\<lambda>(rc, st2). Ret ((rc, rc = EDB_OK \<or> rc = EDB_SYS), st2))
         else bnd (deactivateEDU t eduID st1) (\<lambda>(rc, st2). Ret ((rc, rc = EDB_SYS), st2)))"

section \<open>Look-ups by thread and id\<close>

definition getEDU :: "tid \<Rightarrow> nat \<Rightarrow> cbp option mgr_call" where
  "getEDU t tid = shared t (\<lambda>st. Ret (case map_of (tid_eduid_map st) tid of None \<Rightarrow> None
     | Some i \<Rightarrow> find_edu i st, st))"

definition setEDU :: "tid \<Rightarrow> nat \<Rightarrow> EDUID \<Rightarrow> unit mgr_call" where
  "setEDU t tid eduid = exclusive t (\<lambda>st. Ret ((), st\<lparr>tid_eduid_map := smap_put tid eduid (tid_eduid_map st)\<rparr>))"

definition getEDUByID :: "tid \<Rightarrow> EDUID \<Rightarrow> cbp option mgr_call" where
  "getEDUByID t eduID = shared t (\<lambda>st. Ret (find_edu eduID st, st))"

section \<open>Shutdown\<close>

text \<open>
  The two loops of \<open>_destroyAll\<close>: force every five seconds, sleep, count again.  \<open>later\<close> gives the
  states the other threads have left after each sleep; when it ends and EDUs are still there, the
  loop goes on (\<open>Wait\<close>).
\<close>

fun drain_loop :: "tid \<Rightarrow> nat \<Rightarrow> nat \<Rightarrow> pmdEDUMgr list \<Rightarrow> (pmdEDUMgr list) mgr_call" where
  "drain_loop t property timeCounter later st = bnd (getEDUCount t property st) (\<lambda>(n, st).
     if n = 0 then Ret (later, st) else
     bnd (if timeCounter mod 50 = 0 then forceEDUs t property st else Ret (EDB_OK, st)) (\<lambda>(_, st).
     case later of [] \<Rightarrow> Wait | st' # later' \<Rightarrow> drain_loop t property (u32_add timeCounter 1) later' st'))"

definition destroyAll :: "tid \<Rightarrow> pmdEDUMgr list \<Rightarrow> int mgr_call" where
  "destroyAll t later st =
     bnd (drain_loop t EDU_USER 0 later (st\<lparr>isDestroyed := True, isQuiesced := True\<rparr>)) (\<lambda>(later', st').
     bnd (drain_loop t EDU_ALL 0 later' st') (\<lambda>(_, st''). Ret (EDB_OK, st'')))"

end
