(* ===== verification/PmdMgrSpec.thy ===== *)
theory PmdMgrSpec
  imports PmdEDUMgr
begin

text \<open>
  What holds between the calls of the EDU manager: every control block alive is in exactly one of
  the two queues under its own id, ids are never used twice, pooled EDUs are agents.  From such a
  state every call returns, touches no deleted block, and leaves such a state.
\<close>

section \<open>The invariant\<close>

definition run_status :: "EDU_STATUS \<Rightarrow> bool" where
  "run_status s \<longleftrightarrow> s = PMD_EDU_CREATING \<or> s = PMD_EDU_RUNNING \<or> s = PMD_EDU_WAITING"

definition idle_status :: "EDU_STATUS \<Rightarrow> bool" where
  "idle_status s \<longleftrightarrow> s = PMD_EDU_IDLE \<or> s = PMD_EDU_RUNNING \<or> s = PMD_EDU_WAITING"

definition mgr_inv :: "pmdEDUMgr \<Rightarrow> bool" where
  "mgr_inv st \<longleftrightarrow> smap_ok (runQueue st) \<and> smap_ok (idleQueue st) \<and> nextEDUID st < 18446744073709551615 \<and>
     (\<forall>i p. map_of (runQueue st) i = Some p \<longrightarrow> map_of (idleQueue st) i = None) \<and>
     (\<forall>p cb. cb_heap st p = Some cb \<longrightarrow> find_edu (cb_id cb) st = Some p \<and> p < cb_next st \<and>
        cb_id cb < nextEDUID st) \<and>
     (\<forall>i p. map_of (runQueue st) i = Some p \<longrightarrow>
        (\<exists>cb. cb_heap st p = Some cb \<and> cb_id cb = i \<and> run_status (cb_status cb))) \<and>
     (\<forall>i p. map_of (idleQueue st) i = Some p \<longrightarrow>
        (\<exists>cb. cb_heap st p = Some cb \<and> cb_id cb = i \<and> idle_status (cb_status cb) \<and> isPoolable (cb_type cb)))"

text \<open>Pooled EDUs that are all IDLE: what the calls of the manager alone keep.\<close>

definition pool_idle :: "pmdEDUMgr \<Rightarrow> bool" where
  "pool_idle st \<longleftrightarrow> (\<forall>i p cb. map_of (idleQueue st) i = Some p \<longrightarrow> cb_heap st p = Some cb \<longrightarrow>
     cb_status cb = PMD_EDU_IDLE)"

lemma find_edu_latch [simp]: "find_edu i (st\<lparr>mgr_latch := l\<rparr>) = find_edu i st"
  by (simp add: find_edu_def split: option.split)

lemma mgr_inv_latch [simp]: "mgr_inv (st\<lparr>mgr_latch := l\<rparr>) = mgr_inv st"
  by (simp add: mgr_inv_def)

lemma pool_idle_latch [simp]: "pool_idle (st\<lparr>mgr_latch := l\<rparr>) = pool_idle st"
  by (simp add: pool_idle_def)

lemma mgr_inv_init: "mgr_inv mgr_init" "pool_idle mgr_init" "s_free (mgr_latch mgr_init)"
  by (simp_all add: mgr_inv_def pool_idle_def mgr_init_def s_free_def s_init_def)

lemma mgr_inv_run:
  assumes "mgr_inv st" "map_of (runQueue st) i = Some p"
  obtains cb where "cb_heap st p = Some cb" "cb_id cb = i" "run_status (cb_status cb)"
    "map_of (idleQueue st) i = None" "find_edu i st = Some p"
  using assms unfolding mgr_inv_def by (metis option.simps(5) find_edu_def)

lemma mgr_inv_idle:
  assumes "mgr_inv st" "map_of (idleQueue st) i = Some p"
  obtains cb where "cb_heap st p = Some cb" "cb_id cb = i" "idle_status (cb_status cb)"
    "isPoolable (cb_type cb)" "map_of (runQueue st) i = None" "find_edu i st = Some p"
proof -
  have "map_of (runQueue st) i = None"
    using assms unfolding mgr_inv_def by (metis not_None_eq option.distinct(1))
  with assms that show ?thesis
    unfolding mgr_inv_def find_edu_def by (metis option.simps(4))
qed

lemma mgr_inv_found:
  assumes "mgr_inv st" "find_edu i st = Some p"
  obtains cb where "cb_heap st p = Some cb" "cb_id cb = i"
  using assms mgr_inv_run [OF assms(1), of i p] mgr_inv_idle [OF assms(1), of i p]
  by (auto simp: find_edu_def split: option.splits)

section \<open>Critical sections\<close>

text \<open>\<open>safe f\<close>: from a state with the invariant \<open>f\<close> returns, with the invariant and the latch unchanged.\<close>

definition safe :: "'a mgr_call \<Rightarrow> bool" where
  "safe f \<longleftrightarrow> (\<forall>st. mgr_inv st \<longrightarrow> (\<exists>r st'. f st = Ret (r, st') \<and> mgr_inv st' \<and> mgr_latch st' = mgr_latch st))"

lemma safeD: "safe f \<Longrightarrow> mgr_inv st \<Longrightarrow> \<exists>r st'. f st = Ret (r, st') \<and> mgr_inv st' \<and> mgr_latch st' = mgr_latch st"
  by (simp add: safe_def)

definition free_safe :: "'a mgr_call \<Rightarrow> bool" where
  "free_safe f \<longleftrightarrow> (\<forall>st. mgr_inv st \<longrightarrow> s_free (mgr_latch st) \<longrightarrow>
     (\<exists>r st'. f st = Ret (r, st') \<and> mgr_inv st' \<and> mgr_latch st' = mgr_latch st))"

lemma exclusive_run:
  assumes "s_free (mgr_latch st)" "\<And>l. \<exists>st'. f (st\<lparr>mgr_latch := l\<rparr>) = Ret (r, st'\<lparr>mgr_latch := l\<rparr>) \<and> P st'"
  shows "\<exists>st'. exclusive t f st = Ret (r, st'\<lparr>mgr_latch := mgr_latch st\<rparr>) \<and> P st'"
proof -
  obtain l where l: "s_get t (mgr_latch st) = Ret l" "s_release t l = Ret (mgr_latch st)"
    using sl.get_free [OF assms(1)] by blast
  obtain st' where "f (st\<lparr>mgr_latch := l\<rparr>) = Ret (r, st'\<lparr>mgr_latch := l\<rparr>)" "P st'"
    using assms(2) by blast
  with l show ?thesis
    by (auto simp: exclusive_def)
qed

lemma exclusive_safe: "safe f \<Longrightarrow> free_safe (exclusive t f)"
  unfolding free_safe_def
proof (intro allI impI)
  fix st
  assume f: "safe f" and st: "mgr_inv st" "s_free (mgr_latch st)"
  obtain l where l: "s_get t (mgr_latch st) = Ret l" "s_release t l = Ret (mgr_latch st)"
    using sl.get_free [OF st(2)] by blast
  obtain r st' where "f (st\<lparr>mgr_latch := l\<rparr>) = Ret (r, st')" "mgr_inv st'" "mgr_latch st' = l"
    using safeD [OF f, of "st\<lparr>mgr_latch := l\<rparr>"] st(1) by auto
  with l show "\<exists>r st'. exclusive t f st = Ret (r, st') \<and> mgr_inv st' \<and> mgr_latch st' = mgr_latch st"
    by (simp add: exclusive_def)
qed

lemma shared_safe: "safe f \<Longrightarrow> free_safe (shared t f)"
  unfolding free_safe_def
proof (intro allI impI)
  fix st
  assume f: "safe f" and st: "mgr_inv st" "s_free (mgr_latch st)"
  obtain l where l: "s_get_shared t (mgr_latch st) = Ret l" "s_release_shared t l = Ret (mgr_latch st)"
    using st(2) shared_balanced [of "mgr_latch st" t] by (auto simp: s_free_def s_get_shared_def)
  have "mgr_inv (st\<lparr>mgr_latch := l\<rparr>)"
    using st(1) by simp
  then obtain r st' where "f (st\<lparr>mgr_latch := l\<rparr>) = Ret (r, st')" "mgr_inv st'" "mgr_latch st' = l"
    using safeD [OF f, of "st\<lparr>mgr_latch := l\<rparr>"] by auto
  with l show "\<exists>r st'. shared t f st = Ret (r, st') \<and> mgr_inv st' \<and> mgr_latch st' = mgr_latch st"
    by (simp add: shared_def)
qed

section \<open>The four changes\<close>

text \<open>
  Every call is made of these: a block changes, an EDU moves between the queues, an EDU goes, an
  EDU is created.
\<close>

lemma inv_upd:
  assumes "mgr_inv st" "cb_heap st p = Some cb" "cb_id cb' = cb_id cb"
    and "map_of (runQueue st) (cb_id cb) = Some p \<Longrightarrow> run_status (cb_status cb')"
    and "map_of (idleQueue st) (cb_id cb) = Some p \<Longrightarrow> idle_status (cb_status cb') \<and> isPoolable (cb_type cb')"
  shows "mgr_inv (st\<lparr>cb_heap := (cb_heap st)(p \<mapsto> cb')\<rparr>)"
proof -
  let ?st = "st\<lparr>cb_heap := (cb_heap st)(p \<mapsto> cb')\<rparr>"
  have f: "find_edu i ?st = find_edu i st" for i
    by (simp add: find_edu_def split: option.split)
  have id: "i = cb_id cb" if "map_of (runQueue st) i = Some p \<or> map_of (idleQueue st) i = Some p" for i
    using that assms(1,2) unfolding mgr_inv_def by (metis option.inject)
  show ?thesis
    using assms id unfolding mgr_inv_def f by (auto split: if_splits)
qed

lemma inv_to_idle:
  assumes "mgr_inv st" "map_of (runQueue st) i = Some p" "cb_heap st p = Some cb" "cb_id cb' = cb_id cb"
    and "idle_status (cb_status cb')" "isPoolable (cb_type cb')"
  shows "mgr_inv (st\<lparr>runQueue := smap_erase i (runQueue st), idleQueue := smap_put i p (idleQueue st),
    cb_heap := (cb_heap st)(p \<mapsto> cb')\<rparr>)" (is "mgr_inv ?st")
proof -
  have i: "cb_id cb = i" "map_of (idleQueue st) i = None"
    using mgr_inv_run [OF assms(1,2)] assms(3) by (metis option.inject, metis)
  have f: "find_edu j ?st = find_edu j st" for j
    using assms(2) i(2) by (simp add: find_edu_def split: option.split)
  have id: "j = i" if "map_of (runQueue st) j = Some p \<or> map_of (idleQueue st) j = Some p" for j
    using that assms(1,3) i(1) unfolding mgr_inv_def by (metis option.inject)
  have ok: "smap_ok (smap_erase i (runQueue st))" "smap_ok (smap_put i p (idleQueue st))"
    using assms(1) by (simp_all add: mgr_inv_def smap_ok_erase smap_ok_put)
  have "find_edu (cb_id cb) st = Some p" "p < cb_next st" "cb_id cb < nextEDUID st"
    using assms(1,3) by (simp_all add: mgr_inv_def)
  then show ?thesis
    using assms id i ok unfolding mgr_inv_def f by (auto split: if_splits)
qed

lemma inv_to_run:
  assumes "mgr_inv st" "map_of (idleQueue st) i = Some p" "cb_heap st p = Some cb" "cb_id cb' = cb_id cb"
    and "run_status (cb_status cb')"
  shows "mgr_inv (st\<lparr>runQueue := smap_put i p (runQueue st), idleQueue := smap_erase i (idleQueue st),
    cb_heap := (cb_heap st)(p \<mapsto> cb')\<rparr>)" (is "mgr_inv ?st")
proof -
  have i: "cb_id cb = i" "map_of (runQueue st) i = None"
    using mgr_inv_idle [OF assms(1,2)] assms(3) by (metis option.inject, metis)
  have f: "find_edu j ?st = find_edu j st" for j
    using assms(2) i(2) by (simp add: find_edu_def split: option.split)
  have id: "j = i" if "map_of (runQueue st) j = Some p \<or> map_of (idleQueue st) j = Some p" for j
    using that assms(1,3) i(1) unfolding mgr_inv_def by (metis option.inject)
  have ok: "smap_ok (smap_put i p (runQueue st))" "smap_ok (smap_erase i (idleQueue st))"
    using assms(1) by (simp_all add: mgr_inv_def smap_ok_erase smap_ok_put)
  have "find_edu (cb_id cb) st = Some p" "p < cb_next st" "cb_id cb < nextEDUID st"
    using assms(1,3) by (simp_all add: mgr_inv_def)
  then show ?thesis
    using assms id i ok unfolding mgr_inv_def f by (auto split: if_splits)
qed

lemma inv_delete:
  assumes "mgr_inv st" "find_edu i st = Some p"
  shows "mgr_inv (st\<lparr>runQueue := smap_erase i (runQueue st), idleQueue := smap_erase i (idleQueue st),
    tid_eduid_map := m, cb_heap := (cb_heap st)(p := None)\<rparr>)" (is "mgr_inv ?st")
proof -
  obtain cb where cb: "cb_heap st p = Some cb" "cb_id cb = i"
    using mgr_inv_found [OF assms] .
  have f: "find_edu j ?st = (if j = i then None else find_edu j st)" for j
    by (simp add: find_edu_def split: option.split)
  have id: "q \<noteq> p" if "map_of (runQueue st) j = Some q \<or> map_of (idleQueue st) j = Some q" "j \<noteq> i" for j q
    using that assms(1) cb unfolding mgr_inv_def by (metis option.inject)
  have i: "q = p" if "cb_heap st q = Some c" "cb_id c = i" for q c
    using that assms unfolding mgr_inv_def by (metis option.inject)
  have ok: "smap_ok (smap_erase i (runQueue st))" "smap_ok (smap_erase i (idleQueue st))"
    using assms(1) by (simp_all add: mgr_inv_def smap_ok_erase)
  show ?thesis
    using assms(1) id i ok unfolding mgr_inv_def f by (auto split: if_splits)
qed

lemma inv_create:
  assumes "mgr_inv st" "i = nextEDUID st" "p = cb_next st" "i + 1 < 18446744073709551615"
    and "cb_id cb = i" "run_status (cb_status cb)"
  shows "mgr_inv (st\<lparr>runQueue := smap_put i p (runQueue st), nextEDUID := i + 1,
    cb_heap := (cb_heap st)(p \<mapsto> cb), cb_next := p + 1\<rparr>)" (is "mgr_inv ?st")
proof -
  have new: "map_of (runQueue st) i = None" "map_of (idleQueue st) i = None"
    using assms(1,2) unfolding mgr_inv_def by (metis less_irrefl not_None_eq)+
  have h: "cb_heap st p = None"
    using assms(1,3) unfolding mgr_inv_def by (metis less_irrefl not_None_eq)
  have f: "find_edu j ?st = (if j = i then Some p else find_edu j st)" for j
    using new by (simp add: find_edu_def split: option.split)
  have id: "q \<noteq> p" if "map_of (runQueue st) j = Some q \<or> map_of (idleQueue st) j = Some q" for j q
    using that assms(1) h unfolding mgr_inv_def by (metis option.distinct(1))
  have less: "cb_id c \<noteq> nextEDUID st" if "cb_heap st q = Some c" for q c
    using that assms(1) by (fastforce simp: mgr_inv_def)
  have ok: "smap_ok (smap_put i p (runQueue st))"
    using assms(1) by (simp add: mgr_inv_def smap_ok_put)
  show ?thesis
    using assms id ok less new unfolding mgr_inv_def f by (auto split: if_splits simp: less_Suc_eq)
qed

section \<open>The abstract machine\<close>

text \<open>
  What the manager shows of its EDUs: for each id whether the EDU is pooled, and its status.  The
  four transitions of the table in \<open>pmdEDUMgr.hpp\<close> as functions on one entry, with the code
  returned.
\<close>

type_synonym edu_entry = "(bool \<times> EDU_STATUS) option"

definition edu_view :: "pmdEDUMgr \<Rightarrow> EDUID \<Rightarrow> edu_entry" where
  "edu_view st i = (case map_of (runQueue st) i of
     Some p \<Rightarrow> map_option (\<lambda>cb. (False, cb_status cb)) (cb_heap st p)
   | None \<Rightarrow> (case map_of (idleQueue st) i of
       Some p \<Rightarrow> map_option (\<lambda>cb. (True, cb_status cb)) (cb_heap st p) | None \<Rightarrow> None))"

fun spec_wait :: "edu_entry \<Rightarrow> int \<times> edu_entry" where
  "spec_wait (Some (False, PMD_EDU_WAITING)) = (EDB_OK, Some (False, PMD_EDU_WAITING))"
| "spec_wait (Some (False, PMD_EDU_RUNNING)) = (EDB_OK, Some (False, PMD_EDU_WAITING))"
| "spec_wait (Some (False, s)) = (EDB_EDU_INVAL_STATUS, Some (False, s))"
| "spec_wait e = (EDB_SYS, e)"

fun spec_activate :: "edu_entry \<Rightarrow> int \<times> edu_entry" where
  "spec_activate None = (EDB_SYS, None)"
| "spec_activate (Some (b, PMD_EDU_RUNNING)) = (EDB_OK, Some (b, PMD_EDU_RUNNING))"
| "spec_activate (Some (False, PMD_EDU_WAITING)) = (EDB_OK, Some (False, PMD_EDU_RUNNING))"
| "spec_activate (Some (False, PMD_EDU_CREATING)) = (EDB_OK, Some (False, PMD_EDU_RUNNING))"
| "spec_activate (Some (True, PMD_EDU_IDLE)) = (EDB_OK, Some (False, PMD_EDU_RUNNING))"
| "spec_activate (Some (b, s)) = (EDB_EDU_INVAL_STATUS, Some (b, s))"

fun spec_deactivate :: "edu_entry \<Rightarrow> int \<times> edu_entry" where
  "spec_deactivate None = (EDB_SYS, None)"
| "spec_deactivate (Some (True, s)) = (EDB_OK, Some (True, s))"
| "spec_deactivate (Some (False, PMD_EDU_WAITING)) = (EDB_OK, Some (True, PMD_EDU_IDLE))"
| "spec_deactivate (Some (False, PMD_EDU_CREATING)) = (EDB_OK, Some (True, PMD_EDU_IDLE))"
| "spec_deactivate (Some (False, s)) = (EDB_EDU_INVAL_STATUS, Some (False, s))"

fun spec_destroy :: "edu_entry \<Rightarrow> int \<times> edu_entry" where
  "spec_destroy None = (EDB_SYS, None)"
| "spec_destroy (Some (True, PMD_EDU_IDLE)) = (EDB_OK, None)"
| "spec_destroy (Some (False, PMD_EDU_WAITING)) = (EDB_OK, None)"
| "spec_destroy (Some (False, PMD_EDU_CREATING)) = (EDB_OK, None)"
| "spec_destroy (Some (b, s)) = (EDB_EDU_INVAL_STATUS, Some (b, s))"

lemma edu_view_latch [simp]: "edu_view (st\<lparr>mgr_latch := l\<rparr>) = edu_view st"
  by (simp add: edu_view_def fun_eq_iff split: option.split)

lemma edu_view_tid [simp]: "edu_view (st\<lparr>tid_eduid_map := m\<rparr>) = edu_view st"
  by (simp add: edu_view_def fun_eq_iff split: option.split)

lemma edu_view_run:
  assumes "mgr_inv st" "map_of (runQueue st) i = Some p" "cb_heap st p = Some cb"
  shows "edu_view st i = Some (False, cb_status cb)" "cb_id cb = i" "run_status (cb_status cb)"
    "map_of (idleQueue st) i = None" "find_edu i st = Some p"
proof -
  obtain c where "cb_heap st p = Some c" "cb_id c = i" "run_status (cb_status c)"
      "map_of (idleQueue st) i = None" "find_edu i st = Some p"
    using mgr_inv_run [OF assms(1,2)] .
  with assms(2,3) show "edu_view st i = Some (False, cb_status cb)" "cb_id cb = i" "run_status (cb_status cb)"
    "map_of (idleQueue st) i = None" "find_edu i st = Some p"
    by (simp_all add: edu_view_def)
qed

lemma edu_view_idle:
  assumes "mgr_inv st" "map_of (idleQueue st) i = Some p" "cb_heap st p = Some cb"
  shows "edu_view st i = Some (True, cb_status cb)" "cb_id cb = i" "idle_status (cb_status cb)"
    "isPoolable (cb_type cb)" "map_of (runQueue st) i = None" "find_edu i st = Some p"
proof -
  obtain c where "cb_heap st p = Some c" "cb_id c = i" "idle_status (cb_status c)" "isPoolable (cb_type c)"
      "map_of (runQueue st) i = None" "find_edu i st = Some p"
    using mgr_inv_idle [OF assms(1,2)] .
  with assms(2,3) show "edu_view st i = Some (True, cb_status cb)" "cb_id cb = i" "idle_status (cb_status cb)"
    "isPoolable (cb_type cb)" "map_of (runQueue st) i = None" "find_edu i st = Some p"
    by (simp_all add: edu_view_def)
qed

lemma edu_view_none: "edu_view st i = None" if "map_of (runQueue st) i = None" "map_of (idleQueue st) i = None"
  using that by (simp add: edu_view_def)

text \<open>A change that touches one id and its block only.\<close>

lemma edu_view_local:
  assumes "mgr_inv st" "find_edu i st = Some p"
    and "\<And>j. j \<noteq> i \<Longrightarrow> map_of (runQueue st') j = map_of (runQueue st) j"
    and "\<And>j. j \<noteq> i \<Longrightarrow> map_of (idleQueue st') j = map_of (idleQueue st) j"
    and "\<And>q. q \<noteq> p \<Longrightarrow> cb_heap st' q = cb_heap st q"
  shows "edu_view st' = (edu_view st)(i := edu_view st' i)"
proof
  fix j
  obtain cb where cb: "cb_heap st p = Some cb" "cb_id cb = i"
    using mgr_inv_found [OF assms(1,2)] .
  show "edu_view st' j = ((edu_view st)(i := edu_view st' i)) j"
  proof (cases "j = i")
    case False
    have "q \<noteq> p" if "map_of (runQueue st) j = Some q \<or> map_of (idleQueue st) j = Some q" for q
      using that assms(1) cb False unfolding mgr_inv_def by (metis option.inject)
    then show ?thesis
      using False assms(3-5) by (simp add: edu_view_def split: option.split)
  qed simp
qed

lemma cb_at_Ret: "cb_heap st p = Some cb \<Longrightarrow> cb_at p st = Ret cb"
  by (simp add: cb_at_def)

lemma cb_upd_Ret: "cb_heap st p = Some cb \<Longrightarrow> cb_upd p f st = Ret (st\<lparr>cb_heap := (cb_heap st)(p \<mapsto> f cb)\<rparr>)"
  by (simp add: cb_upd_def)

text \<open>A call that refines a transition: it returns its code and changes the entry so, and nothing else.\<close>

definition refines :: "int mgr_call \<Rightarrow> EDUID \<Rightarrow> (edu_entry \<Rightarrow> int \<times> edu_entry) \<Rightarrow> pmdEDUMgr \<Rightarrow> bool" where
  "refines f i spec st \<longleftrightarrow> (\<exists>st'. f st = Ret (fst (spec (edu_view st i)), st') \<and> mgr_inv st' \<and>
     edu_view st' = (edu_view st)(i := snd (spec (edu_view st i))) \<and> mgr_latch st' = mgr_latch st \<and>
     isQuiesced st' = isQuiesced st \<and> isDestroyed st' = isDestroyed st \<and> nextEDUID st' = nextEDUID st)"

lemma refines_unchanged: "mgr_inv st \<Longrightarrow> f st = Ret (rc, st) \<Longrightarrow> spec (edu_view st i) = (rc, edu_view st i) \<Longrightarrow> refines f i spec st"
  by (simp add: refines_def)

lemma refines_exclusive:
  assumes "\<And>l. refines f i spec (st\<lparr>mgr_latch := l\<rparr>)" "s_free (mgr_latch st)"
  shows "refines (exclusive t f) i spec st"
proof -
  obtain l where l: "s_get t (mgr_latch st) = Ret l" "s_release t l = Ret (mgr_latch st)"
    using sl.get_free [OF assms(2)] by blast
  with assms(1) [of l] show ?thesis
    by (auto simp: refines_def exclusive_def)
qed

lemma refines_shared:
  assumes "\<And>l. refines f i spec (st\<lparr>mgr_latch := l\<rparr>)" "s_free (mgr_latch st)"
  shows "refines (shared t f) i spec st"
proof -
  obtain l where l: "s_get_shared t (mgr_latch st) = Ret l" "s_release_shared t l = Ret (mgr_latch st)"
    using assms(2) shared_balanced [of "mgr_latch st" t] by (auto simp: s_free_def s_get_shared_def)
  with assms(1) [of l] show ?thesis
    by (auto simp: refines_def shared_def)
qed

lemma edu_cases:
  assumes "mgr_inv st"
  obtains (none) "map_of (runQueue st) i = None" "map_of (idleQueue st) i = None" "edu_view st i = None"
      "find_edu i st = None"
  | (run) p cb where "map_of (runQueue st) i = Some p" "map_of (idleQueue st) i = None" "cb_heap st p = Some cb"
      "edu_view st i = Some (False, cb_status cb)" "run_status (cb_status cb)" "cb_id cb = i" "find_edu i st = Some p"
  | (idle) p cb where "map_of (runQueue st) i = None" "map_of (idleQueue st) i = Some p" "cb_heap st p = Some cb"
      "edu_view st i = Some (True, cb_status cb)" "idle_status (cb_status cb)" "cb_id cb = i"
      "isPoolable (cb_type cb)" "find_edu i st = Some p"
proof (cases "map_of (runQueue st) i")
  case (Some p)
  then obtain cb where "cb_heap st p = Some cb"
    using mgr_inv_run [OF assms] by blast
  with edu_view_run [OF assms Some] Some show ?thesis
    using run by blast
next
  case N: None
  show ?thesis
  proof (cases "map_of (idleQueue st) i")
    case None
    with N show ?thesis
      using none by (simp add: edu_view_none find_edu_def)
  next
    case (Some p)
    then obtain cb where "cb_heap st p = Some cb"
      using mgr_inv_idle [OF assms] by blast
    with edu_view_idle [OF assms Some] Some show ?thesis
      using idle by blast
  qed
qed

lemma refinesI:
  assumes "mgr_inv st" "find_edu i st = Some p" "f st = Ret (rc, st')" "mgr_inv st'"
    and "\<And>j. j \<noteq> i \<Longrightarrow> map_of (runQueue st') j = map_of (runQueue st) j"
    and "\<And>j. j \<noteq> i \<Longrightarrow> map_of (idleQueue st') j = map_of (idleQueue st) j"
    and "\<And>q. q \<noteq> p \<Longrightarrow> cb_heap st' q = cb_heap st q"
    and "spec (edu_view st i) = (rc, edu_view st' i)" "mgr_latch st' = mgr_latch st"
    and "isQuiesced st' = isQuiesced st" "isDestroyed st' = isDestroyed st" "nextEDUID st' = nextEDUID st"
  shows "refines f i spec st"
  using edu_view_local [OF assms(1,2,5-7)] assms(3,4,8-) by (simp add: refines_def)

lemmas body_simps = cb_at_def cb_upd_def set_status_def edu_view_def run_status_def idle_status_def

lemma exclusive_refinesI:
  assumes "mgr_inv st" "s_free (mgr_latch st)" "\<And>s. mgr_inv s \<Longrightarrow> edu_view s = edu_view st \<Longrightarrow> cb_heap s = cb_heap st \<Longrightarrow>
      runQueue s = runQueue st \<Longrightarrow> refines f i spec s"
  shows "refines (exclusive t f) i spec st" "refines (shared t f) i spec st"
  using assms by (auto intro!: refines_exclusive refines_shared)

lemma waitEDU_refines:
  assumes "mgr_inv st" "s_free (mgr_latch st)"
  shows "refines (waitEDU t i) i spec_wait st"
  unfolding waitEDU_def
proof (rule exclusive_refinesI(2) [OF assms])
  fix s
  assume inv: "mgr_inv s"
  let ?f = "\<lambda>st. case map_of (runQueue st) i of
     None \<Rightarrow> Ret (EDB_SYS, st)
   | Some p \<Rightarrow> bnd (cb_at p st) (\<lambda>cb.
       if cb_status cb = PMD_EDU_WAITING then Ret (EDB_OK, st)
       else if cb_status cb \<noteq> PMD_EDU_RUNNING then Ret (EDB_EDU_INVAL_STATUS, st)
       else bnd (cb_upd p (set_status PMD_EDU_WAITING) st) (\<lambda>st'. Ret (EDB_OK, st')))"
  from inv show "refines ?f i spec_wait s"
  proof (cases rule: edu_cases [where i = i])
    case (run p cb)
    show ?thesis
    proof (cases "cb_status cb = PMD_EDU_RUNNING")
      case True
      let ?st' = "s\<lparr>cb_heap := (cb_heap s)(p \<mapsto> set_status PMD_EDU_WAITING cb)\<rparr>"
      have "mgr_inv ?st'"
        using run by (intro inv_upd [OF inv run(3)]) (simp_all add: body_simps)
      with run True show ?thesis
        by (intro refinesI [OF inv run(7), where st' = ?st' and rc = EDB_OK]) (simp_all add: body_simps)
    qed (use run in \<open>intro refines_unchanged [OF inv, where rc = "if cb_status cb = PMD_EDU_WAITING
           then EDB_OK else EDB_EDU_INVAL_STATUS"]; auto simp: cb_at_def run_status_def\<close>)
  qed (intro refines_unchanged [OF inv, where rc = EDB_SYS]; simp)+
qed

lemma activateEDU_refines:
  assumes "mgr_inv st" "s_free (mgr_latch st)"
  shows "refines (activateEDU t i) i spec_activate st"
  unfolding activateEDU_def
proof (rule exclusive_refinesI(1) [OF assms], goal_cases)
  case (1 s)
  note inv = 1(1)
  from inv show ?case
  proof (cases rule: edu_cases [where i = i])
    case none
    then show ?thesis
      by (intro refines_unchanged [OF inv, where rc = EDB_SYS]) simp_all
  next
    case (run p cb)
    show ?thesis
    proof (cases "cb_status cb = PMD_EDU_RUNNING")
      case False
      let ?st' = "s\<lparr>cb_heap := (cb_heap s)(p \<mapsto> set_status PMD_EDU_RUNNING cb)\<rparr>"
      have "mgr_inv ?st'"
        using run by (intro inv_upd [OF inv run(3)]) (simp_all add: body_simps)
      with run False show ?thesis
        by (intro refinesI [OF inv run(7), where st' = ?st' and rc = EDB_OK]) (auto simp: body_simps)
    qed (use run in \<open>intro refines_unchanged [OF inv, where rc = EDB_OK]; auto simp: cb_at_def\<close>)
  next
    case (idle p cb)
    show ?thesis
    proof (cases "cb_status cb = PMD_EDU_IDLE")
      case True
      let ?st' = "s\<lparr>runQueue := smap_put i p (runQueue s), idleQueue := smap_erase i (idleQueue s),
        cb_heap := (cb_heap s)(p \<mapsto> set_status PMD_EDU_RUNNING cb)\<rparr>"
      have "mgr_inv ?st'"
        using idle by (intro inv_to_run [OF inv idle(2,3)]) (simp_all add: body_simps)
      with idle True show ?thesis
        by (intro refinesI [OF inv idle(8), where st' = ?st' and rc = EDB_OK]) (simp_all add: body_simps)
    qed (use idle in \<open>intro refines_unchanged [OF inv, where rc = "if cb_status cb = PMD_EDU_RUNNING
           then EDB_OK else EDB_EDU_INVAL_STATUS"]; auto simp: cb_at_def idle_status_def\<close>)
  qed
qed

lemma destroyEDU_refines:
  assumes "mgr_inv st" "s_free (mgr_latch st)"
  shows "refines (destroyEDU t i) i spec_destroy st"
  unfolding destroyEDU_def
proof (rule exclusive_refinesI(1) [OF assms], goal_cases)
  case (1 s)
  note inv = 1(1)
  have erase: "smap_erase i m = m" if "map_of m i = None" for m :: "(EDUID, cbp) std_map"
    using that by (auto simp: smap_erase_def filter_id_conv map_of_eq_None_iff)
  from inv show ?case
  proof (cases rule: edu_cases [where i = i])
    case none
    then show ?thesis
      by (intro refines_unchanged [OF inv, where rc = EDB_SYS]) simp_all
  next
    case (run p cb)
    show ?thesis
    proof (cases "cb_status cb = PMD_EDU_RUNNING")
      case False
      let ?st' = "s\<lparr>runQueue := smap_erase i (runQueue s), tid_eduid_map := erase_first_value i (tid_eduid_map s),
        cb_heap := (cb_heap s)(p := None)\<rparr>"
      have "mgr_inv ?st'"
        using inv_delete [OF inv run(7), of "erase_first_value i (tid_eduid_map s)"] erase [OF run(2)] by simp
      with run False show ?thesis
        by (intro refinesI [OF inv run(7), where st' = ?st' and rc = EDB_OK])
          (auto simp: body_simps destroy_found_def)
    qed (use run in \<open>intro refines_unchanged [OF inv, where rc = EDB_EDU_INVAL_STATUS]; auto simp: cb_at_def\<close>)
  next
    case (idle p cb)
    show ?thesis
    proof (cases "cb_status cb = PMD_EDU_IDLE")
      case True
      let ?st' = "s\<lparr>idleQueue := smap_erase i (idleQueue s), tid_eduid_map := erase_first_value i (tid_eduid_map s),
        cb_heap := (cb_heap s)(p := None)\<rparr>"
      have "mgr_inv ?st'"
        using inv_delete [OF inv idle(8), of "erase_first_value i (tid_eduid_map s)"] erase [OF idle(1)] by simp
      with idle True show ?thesis
        by (intro refinesI [OF inv idle(8), where st' = ?st' and rc = EDB_OK])
          (simp_all add: body_simps destroy_found_def)
    qed (use idle in \<open>intro refines_unchanged [OF inv, where rc = EDB_EDU_INVAL_STATUS]; auto simp: cb_at_def idle_status_def\<close>)
  qed
qed

text \<open>\<open>_deactivateEDU\<close> keeps the invariant for agents; its caller checks the type.\<close>

definition edu_type :: "pmdEDUMgr \<Rightarrow> EDUID \<Rightarrow> EDU_TYPES option" where
  "edu_type st i = (case find_edu i st of None \<Rightarrow> None | Some p \<Rightarrow> map_option cb_type (cb_heap st p))"

lemma deactivateEDU_refines:
  assumes "mgr_inv st" "s_free (mgr_latch st)" "edu_type st i = Some EDU_TYPE_AGENT \<or> edu_type st i = None"
  shows "refines (deactivateEDU t i) i spec_deactivate st"
  unfolding deactivateEDU_def
proof (rule exclusive_refinesI(1) [OF assms(1,2)], goal_cases)
  case (1 s)
  note inv = 1(1)
  from inv show ?case
  proof (cases rule: edu_cases [where i = i])
    case none
    then show ?thesis
      by (intro refines_unchanged [OF inv, where rc = EDB_SYS]) simp_all
  next
    case (run p cb)
    then have ty: "isPoolable (cb_type cb)"
      using assms(3) 1(3,4) by (simp add: edu_type_def find_edu_def isPoolable_def)
    show ?thesis
    proof (cases "cb_status cb = PMD_EDU_RUNNING")
      case False
      let ?st' = "s\<lparr>runQueue := smap_erase i (runQueue s), idleQueue := smap_put i p (idleQueue s),
        cb_heap := (cb_heap s)(p \<mapsto> set_status PMD_EDU_IDLE cb)\<rparr>"
      have "mgr_inv ?st'"
        using run ty by (intro inv_to_idle [OF inv run(1,3)]) (simp_all add: body_simps)
      with run False show ?thesis
        by (intro refinesI [OF inv run(7), where st' = ?st' and rc = EDB_OK]) (auto simp: body_simps)
    qed (use run in \<open>intro refines_unchanged [OF inv, where rc = EDB_EDU_INVAL_STATUS]; auto simp: cb_at_def\<close>)
  next
    case (idle p cb)
    then show ?thesis
      by (intro refines_unchanged [OF inv, where rc = EDB_OK]) simp_all
  qed
qed

end
