(* ===== verification/PmdMgrRun.thy ===== *)
theory PmdMgrRun
  imports PmdMgrSpec
begin

text \<open>
  The remaining calls of the EDU manager: creating, reusing and returning EDUs, forcing, events and
  registrations; and any sequence of calls from the state the constructor leaves.
\<close>

section \<open>Creating\<close>

definition resume_event :: "nat \<Rightarrow> pmdEDUEvent" where
  "resume_event arg = \<lparr>eventType = PMD_EDU_EVENT_RESUME, ev_release = False, ev_data = arg\<rparr>"

definition cb_started :: "EDU_TYPES \<Rightarrow> EDUID \<Rightarrow> nat \<Rightarrow> pmdEDUCB" where
  "cb_started type i arg = cb_postEvent (resume_event arg) (cb_new type\<lparr>cb_id := i\<rparr>)"

lemma fresh_id:
  assumes "mgr_inv st"
  shows "map_of (runQueue st) (nextEDUID st) = None" "map_of (idleQueue st) (nextEDUID st) = None"
    "cb_heap st (cb_next st) = None" "edu_view st (nextEDUID st) = None"
proof -
  show *: "map_of (runQueue st) (nextEDUID st) = None" "map_of (idleQueue st) (nextEDUID st) = None"
    using assms unfolding mgr_inv_def by (metis less_irrefl not_None_eq)+
  then show "edu_view st (nextEDUID st) = None"
    by (rule edu_view_none)
  show "cb_heap st (cb_next st) = None"
    using assms unfolding mgr_inv_def by (metis less_irrefl not_None_eq)
qed

lemma smap_erase_put_new: "map_of m k = None \<Longrightarrow> smap_erase k (smap_put k v m) = m"
  by (induction m) (auto simp: smap_erase_def filter_id_conv map_of_eq_None_iff split: if_splits)

text \<open>What the code makes of a state: the new entry in place, or nothing but the counters.\<close>

definition with_new :: "EDU_TYPES \<Rightarrow> nat \<Rightarrow> pmdEDUMgr \<Rightarrow> pmdEDUMgr" where
  "with_new type arg st = st\<lparr>runQueue := smap_put (nextEDUID st) (cb_next st) (runQueue st),
     nextEDUID := nextEDUID st + 1,
     cb_heap := (cb_heap st)(cb_next st \<mapsto> cb_started type (nextEDUID st) arg), cb_next := cb_next st + 1\<rparr>"

definition create_result :: "bool \<Rightarrow> bool \<Rightarrow> EDU_TYPES \<Rightarrow> nat \<Rightarrow> pmdEDUMgr \<Rightarrow> (int \<times> EDUID option) \<times> pmdEDUMgr" where
  "create_result alloc thread type arg st =
     (if isQuiesced st then ((EDB_QUIESCED, None), st)
      else if type = EDU_TYPE_UNKNOWN then ((EDB_INVALIDARG, None), st)
      else if \<not> alloc then ((EDB_OOM, None), st)
      else if \<not> thread then ((EDB_SYS, Some (nextEDUID st)),
        st\<lparr>nextEDUID := nextEDUID st + 1, cb_next := cb_next st + 1\<rparr>)
      else ((EDB_OK, Some (nextEDUID st)), with_new type arg st))"

lemma entry_known: "getEntryFuncByType type = None \<longleftrightarrow> type = EDU_TYPE_UNKNOWN"
  by (cases type) simp_all

lemma createNewEDU_result:
  assumes "mgr_inv st" "s_free (mgr_latch st)" "nextEDUID st + 1 < 18446744073709551615"
  shows "createNewEDU t alloc thread type arg st = Ret (create_result alloc thread type arg st)"
proof -
  note new = fresh_id [OF assms(1)]
  obtain l where l: "s_get t (mgr_latch st) = Ret l" "s_release t l = Ret (mgr_latch st)"
    using sl.get_free [OF assms(2)] by blast
  have h: "(cb_heap st)(cb_next st := None) = cb_heap st"
    using new(3) by (simp add: fun_eq_iff)
  show ?thesis
    using new(1-3) l assms(3) h
    by (simp add: createNewEDU_def create_result_def entry_known Let_def exclusive_def cb_upd_def with_new_def
        cb_started_def resume_event_def set_status_def cb_new_def cb_postEvent_def smap_erase_put_new)
qed

lemma with_new_inv:
  assumes "mgr_inv st" "nextEDUID st + 1 < 18446744073709551615"
  shows "mgr_inv (with_new type arg st)"
  unfolding with_new_def
  using inv_create [OF assms(1) refl refl assms(2), of "cb_started type (nextEDUID st) arg"]
  by (simp add: cb_started_def cb_postEvent_def cb_new_def run_status_def)

lemma with_new_view:
  assumes "mgr_inv st"
  shows "edu_view (with_new type arg st) = (edu_view st)(nextEDUID st := Some (False, PMD_EDU_CREATING))"
proof
  fix j
  have p: "q \<noteq> cb_next st" if "map_of (runQueue st) j = Some q \<or> map_of (idleQueue st) j = Some q" for q
    using that assms fresh_id(3) [OF assms] unfolding mgr_inv_def by (metis option.distinct(1))
  show "edu_view (with_new type arg st) j = ((edu_view st)(nextEDUID st := Some (False, PMD_EDU_CREATING))) j"
    using p by (auto simp: edu_view_def with_new_def cb_started_def cb_postEvent_def cb_new_def split: option.split)
qed

lemma counters_inv:
  assumes "mgr_inv st" "nextEDUID st + 1 < 18446744073709551615"
  shows "mgr_inv (st\<lparr>nextEDUID := nextEDUID st + 1, cb_next := cb_next st + 1\<rparr>)" (is "mgr_inv ?st")
proof -
  have "find_edu i ?st = find_edu i st" for i
    by (simp add: find_edu_def split: option.split)
  with assms show ?thesis
    unfolding mgr_inv_def by (auto simp: less_Suc_eq)
qed

lemma counters_view: "edu_view (st\<lparr>nextEDUID := n, cb_next := q\<rparr>) = edu_view st"
  by (simp add: edu_view_def fun_eq_iff split: option.split)

lemma create_result_inv:
  assumes "mgr_inv st" "nextEDUID st + 1 < 18446744073709551615"
  shows "mgr_inv (snd (create_result alloc thread type arg st))"
  using assms counters_inv [OF assms] by (simp add: create_result_def with_new_inv)

lemma find_SomeD: "find P xs = Some x \<Longrightarrow> x \<in> set xs \<and> P x"
  by (induction xs) (auto split: if_splits)

section \<open>Starting: reuse of a pooled EDU\<close>

text \<open>\<open>startable\<close>: the pooled EDU that \<open>startEDU\<close> takes, the first IDLE one in the order of the ids.\<close>

definition startable :: "EDU_TYPES \<Rightarrow> pmdEDUMgr \<Rightarrow> (EDUID \<times> cbp) option" where
  "startable type st = (if isPoolable type
     then find (\<lambda>e. edu_view st (fst e) = Some (True, PMD_EDU_IDLE)) (idleQueue st) else None)"

lemma idle_entry:
  assumes "mgr_inv st" "e \<in> set (idleQueue st)"
  obtains cb where "cb_heap st (snd e) = Some cb" "edu_view st (fst e) = Some (True, cb_status cb)"
    "map_of (idleQueue st) (fst e) = Some (snd e)"
proof -
  have m: "map_of (idleQueue st) (fst e) = Some (snd e)"
    using assms by (simp add: mgr_inv_def map_of_smap)
  then obtain cb where "cb_heap st (snd e) = Some cb"
    using mgr_inv_idle [OF assms(1)] by blast
  with m edu_view_idle(1) [OF assms(1) m] show ?thesis
    using that by blast
qed

lemma first_idle_find:
  assumes "mgr_inv st" "set es \<subseteq> set (idleQueue st)"
  shows "first_idle es st = Ret (find (\<lambda>e. edu_view st (fst e) = Some (True, PMD_EDU_IDLE)) es)"
  using assms(2)
proof (induction es)
  case (Cons e es)
  then obtain cb where "cb_heap st (snd e) = Some cb" "edu_view st (fst e) = Some (True, cb_status cb)"
    using idle_entry [OF assms(1), of e] by auto
  with Cons show ?case
    by (simp add: cb_at_def)
qed simp

definition reused :: "EDU_TYPES \<Rightarrow> EDUID \<Rightarrow> cbp \<Rightarrow> (pmdEDUCB \<Rightarrow> pmdEDUCB) \<Rightarrow> pmdEDUMgr \<Rightarrow> pmdEDUMgr" where
  "reused type i p f st = st\<lparr>runQueue := smap_put i p (runQueue st), idleQueue := smap_erase i (idleQueue st),
     cb_heap := (cb_heap st)(p := map_option (\<lambda>cb. f (cb\<lparr>cb_type := type, cb_status := PMD_EDU_WAITING\<rparr>)) (cb_heap st p))\<rparr>"

definition start_result :: "bool \<Rightarrow> bool \<Rightarrow> EDU_TYPES \<Rightarrow> nat \<Rightarrow> pmdEDUMgr \<Rightarrow> (int \<times> EDUID option) \<times> pmdEDUMgr" where
  "start_result alloc thread type arg st =
     (if isQuiesced st then ((EDB_QUIESCED, None), st) else case startable type st of
        None \<Rightarrow> create_result alloc thread type arg st
      | Some (i, p) \<Rightarrow> ((EDB_OK, Some i), reused type i p (cb_postEvent (resume_event arg)) st))"

lemma startable_Some:
  assumes "mgr_inv st" "startable type st = Some (i, p)"
  obtains cb where "map_of (idleQueue st) i = Some p" "cb_heap st p = Some cb" "cb_status cb = PMD_EDU_IDLE"
    "isPoolable type" "edu_view st i = Some (True, PMD_EDU_IDLE)" "map_of (runQueue st) i = None" "cb_id cb = i"
    "find_edu i st = Some p"
proof -
  have e: "(i, p) \<in> set (idleQueue st)" "edu_view st i = Some (True, PMD_EDU_IDLE)" "isPoolable type"
    using assms(2) find_SomeD [of "\<lambda>e. edu_view st (fst e) = Some (True, PMD_EDU_IDLE)" "idleQueue st" "(i, p)"]
    by (simp_all add: startable_def split: if_splits)
  obtain cb where cb: "cb_heap st p = Some cb" "edu_view st i = Some (True, cb_status cb)" "map_of (idleQueue st) i = Some p"
    using idle_entry [OF assms(1) e(1)] by auto
  with e(2) have "cb_status cb = PMD_EDU_IDLE"
    by simp
  with that cb e edu_view_idle [OF assms(1) cb(3,1)] show ?thesis
    by simp
qed

lemma startEDU_result:
  assumes "mgr_inv st" "s_free (mgr_latch st)" "nextEDUID st + 1 < 18446744073709551615"
  shows "startEDU t alloc thread type arg st = Ret (start_result alloc thread type arg st)"
proof -
  obtain l where l: "s_get t (mgr_latch st) = Ret l" "s_release t l = Ret (mgr_latch st)"
    using sl.get_free [OF assms(2)] by blast
  let ?s = "st\<lparr>mgr_latch := l\<rparr>"
  have f: "first_idle (idleQueue st) ?s = Ret (find (\<lambda>e. edu_view st (fst e) = Some (True, PMD_EDU_IDLE)) (idleQueue st))"
    using first_idle_find [of ?s "idleQueue st"] assms(1) by simp
  show ?thesis
  proof (cases "startable type st")
    case None
    then have "reuse_idle type ?s = Ret (None, ?s)"
      using f by (auto simp: reuse_idle_def startable_def split: if_splits)
    with l None createNewEDU_result [OF assms] show ?thesis
      by (simp add: startEDU_def start_result_def exclusive_def)
  next
    case (Some x)
    obtain i p where x: "x = (i, p)"
      by (cases x)
    from Some x obtain cb where cb: "map_of (idleQueue st) i = Some p" "cb_heap st p = Some cb" "isPoolable type"
      using startable_Some [OF assms(1)] by blast
    have ne: "idleQueue st \<noteq> []"
      using cb(1) by auto
    have "find (\<lambda>e. edu_view st (fst e) = Some (True, PMD_EDU_IDLE)) (idleQueue st) = Some (i, p)"
      using Some x by (simp add: startable_def split: if_splits)
    with f cb l Some x ne show ?thesis
      by (simp add: startEDU_def start_result_def exclusive_def reuse_idle_def cb_upd_def reused_def resume_event_def)
  qed
qed

lemma reused_inv:
  assumes "mgr_inv st" "startable type st = Some (i, p)"
  shows "mgr_inv (reused type i p (cb_postEvent ev) st)"
    "edu_view (reused type i p (cb_postEvent ev) st) = (edu_view st)(i := Some (False, PMD_EDU_WAITING))"
proof -
  obtain cb where cb: "map_of (idleQueue st) i = Some p" "cb_heap st p = Some cb" "cb_status cb = PMD_EDU_IDLE"
    "isPoolable type" "map_of (runQueue st) i = None" "cb_id cb = i" "find_edu i st = Some p"
    using startable_Some [OF assms] by metis
  show "mgr_inv (reused type i p (cb_postEvent ev) st)"
    unfolding reused_def using cb
    by (simp add: inv_to_run [OF assms(1) cb(1,2)] cb_postEvent_def run_status_def)
  have "edu_view (reused type i p (cb_postEvent ev) st) i = Some (False, PMD_EDU_WAITING)"
    using cb by (simp add: edu_view_def reused_def cb_postEvent_def)
  moreover have "edu_view (reused type i p (cb_postEvent ev) st) =
      (edu_view st)(i := edu_view (reused type i p (cb_postEvent ev) st) i)"
    by (rule edu_view_local [OF assms(1) cb(7)]) (simp_all add: reused_def)
  ultimately show "edu_view (reused type i p (cb_postEvent ev) st) = (edu_view st)(i := Some (False, PMD_EDU_WAITING))"
    by simp
qed

section \<open>Changes to the blocks\<close>

text \<open>Forcing and events change the blocks in place, and nothing the queues or the invariant speak of.\<close>

definition on_cbs :: "(pmdEDUCB \<Rightarrow> pmdEDUCB) \<Rightarrow> pmdEDUMgr \<Rightarrow> pmdEDUMgr" where
  "on_cbs g st = st\<lparr>cb_heap := \<lambda>p. map_option g (cb_heap st p)\<rparr>"

definition keeps_entry :: "(pmdEDUCB \<Rightarrow> pmdEDUCB) \<Rightarrow> bool" where
  "keeps_entry g \<longleftrightarrow> (\<forall>cb. cb_id (g cb) = cb_id cb \<and> cb_type (g cb) = cb_type cb \<and> cb_status (g cb) = cb_status cb)"

lemma keeps_entry_if [intro]: "keeps_entry g \<Longrightarrow> keeps_entry (\<lambda>cb. if P cb then g cb else cb)"
  by (auto simp: keeps_entry_def)

lemma keeps_entry_basic [intro]: "keeps_entry cb_force" "keeps_entry (cb_postEvent ev)"
  by (simp_all add: keeps_entry_def cb_force_def cb_postEvent_def)

lemma on_cbs_sel [simp]: "runQueue (on_cbs g st) = runQueue st" "idleQueue (on_cbs g st) = idleQueue st"
  "mgr_latch (on_cbs g st) = mgr_latch st" "nextEDUID (on_cbs g st) = nextEDUID st"
  "cb_next (on_cbs g st) = cb_next st" "isQuiesced (on_cbs g st) = isQuiesced st"
  "isDestroyed (on_cbs g st) = isDestroyed st" "mapSystemEDUS (on_cbs g st) = mapSystemEDUS st"
  "cb_heap (on_cbs g st) p = map_option g (cb_heap st p)" "find_edu i (on_cbs g st) = find_edu i st"
  by (simp_all add: on_cbs_def find_edu_def split: option.split)

lemma on_cbs_comp: "on_cbs g (on_cbs f st) = on_cbs (\<lambda>cb. g (f cb)) st"
  by (simp add: on_cbs_def option.map_comp comp_def)

lemma on_cbs_id [simp]: "on_cbs (\<lambda>cb. cb) st = st"
  by (simp add: on_cbs_def option.map_ident)

lemma on_cbs_inv: "keeps_entry g \<Longrightarrow> mgr_inv st \<Longrightarrow> mgr_inv (on_cbs g st)"
proof -
  assume g: "keeps_entry g" and st: "mgr_inv st"
  have eq: "cb_id (g cb) = cb_id cb" "cb_type (g cb) = cb_type cb" "cb_status (g cb) = cb_status cb" for cb
    using g by (simp_all add: keeps_entry_def)
  have ex: "(\<exists>cb. cb_heap (on_cbs g st) p = Some cb \<and> P (cb_id cb) (cb_status cb) (cb_type cb)) \<longleftrightarrow>
      (\<exists>cb. cb_heap st p = Some cb \<and> P (cb_id cb) (cb_status cb) (cb_type cb))" for p P
    by (cases "cb_heap st p") (simp_all add: eq)
  show "mgr_inv (on_cbs g st)"
    using st ex [where P = "\<lambda>i s t. i = _ \<and> run_status s"] ex [where P = "\<lambda>i s t. i = _ \<and> idle_status s \<and> isPoolable t"]
    unfolding mgr_inv_def by (auto simp: eq)
qed

lemma on_cbs_view: "keeps_entry g \<Longrightarrow> edu_view (on_cbs g st) = edu_view st"
  by (simp add: keeps_entry_def edu_view_def fun_eq_iff option.map_comp comp_def split: option.split)

lemma cb_upd_on_cbs:
  assumes "mgr_inv st" "find_edu i st = Some p"
  shows "cb_upd p f st = Ret (on_cbs (\<lambda>cb. if cb_id cb = i then f cb else cb) st)"
proof -
  obtain cb where cb: "cb_heap st p = Some cb" "cb_id cb = i"
    using mgr_inv_found [OF assms] .
  have "cb_id c \<noteq> i" if "cb_heap st q = Some c" "q \<noteq> p" for q c
    using that assms unfolding mgr_inv_def by (metis option.inject)
  then have other: "map_option (\<lambda>cb. if cb_id cb = i then f cb else cb) (cb_heap st q) = cb_heap st q" if "q \<noteq> p" for q
    using that by (cases "cb_heap st q") simp_all
  have "(cb_heap st)(p \<mapsto> f cb) = (\<lambda>q. map_option (\<lambda>cb. if cb_id cb = i then f cb else cb) (cb_heap st q))"
  proof
    fix q
    show "((cb_heap st)(p \<mapsto> f cb)) q = map_option (\<lambda>cb. if cb_id cb = i then f cb else cb) (cb_heap st q)"
      using cb other [of q] by (cases "q = p") simp_all
  qed
  with cb show ?thesis
    by (simp add: cb_upd_def on_cbs_def)
qed

lemma force_all_result:
  assumes "mgr_inv st" "\<forall>e \<in> set es. find_edu (fst e) st = Some (snd e)"
  shows "force_all es st = Ret (on_cbs (\<lambda>cb. if cb_id cb \<in> fst ` set es then cb_force cb else cb) st)"
  using assms
proof (induction es arbitrary: st)
  case (Cons e es)
  let ?g = "\<lambda>cb. if cb_id cb = fst e then cb_force cb else cb"
  have "cb_upd (snd e) cb_force st = Ret (on_cbs ?g st)"
    using Cons.prems by (intro cb_upd_on_cbs) simp_all
  moreover have "mgr_inv (on_cbs ?g st)"
    using Cons.prems(1) by (intro on_cbs_inv) auto
  ultimately show ?case
    using Cons.IH [of "on_cbs ?g st"] Cons.prems(2)
    by (auto simp: on_cbs_comp cb_force_def intro!: arg_cong [where f = "\<lambda>g. on_cbs g st"])
qed simp

lemma queue_found:
  assumes "mgr_inv st"
  shows "e \<in> set (runQueue st) \<Longrightarrow> find_edu (fst e) st = Some (snd e)"
    "e \<in> set (idleQueue st) \<Longrightarrow> find_edu (fst e) st = Some (snd e)"
proof -
  assume "e \<in> set (runQueue st)"
  then have "map_of (runQueue st) (fst e) = Some (snd e)"
    using assms by (simp add: mgr_inv_def map_of_smap)
  then show "find_edu (fst e) st = Some (snd e)"
    by (simp add: find_edu_def)
next
  assume "e \<in> set (idleQueue st)"
  then have m: "map_of (idleQueue st) (fst e) = Some (snd e)"
    using assms by (simp add: mgr_inv_def map_of_smap)
  from mgr_inv_idle [OF assms m] show "find_edu (fst e) st = Some (snd e)"
    by metis
qed

lemma force_first_result:
  assumes "mgr_inv st" "\<forall>e \<in> set es. find_edu (fst e) st = Some (snd e)"
  shows "force_first i es st = Ret (if i \<in> fst ` set es
     then (True, on_cbs (\<lambda>cb. if cb_id cb = i then cb_force cb else cb) st) else (False, st))"
  using assms(2)
proof (induction es)
  case (Cons e es)
  then obtain cb where cb: "cb_heap st (snd e) = Some cb" "cb_id cb = fst e"
    using mgr_inv_found [OF assms(1), of "fst e" "snd e"] by auto
  show ?case
  proof (cases "fst e = i")
    case True
    with Cons.prems have "cb_upd (snd e) cb_force st = Ret (on_cbs (\<lambda>cb. if cb_id cb = i then cb_force cb else cb) st)"
      by (intro cb_upd_on_cbs [OF assms(1)]) simp
    with True cb show ?thesis
      by (simp add: cb_at_def)
  next
    case False
    with Cons cb show ?thesis
      by (auto simp: cb_at_def)
  qed
qed simp

lemma exclusive_Ret:
  assumes "s_free (mgr_latch st)" "\<And>l. f (st\<lparr>mgr_latch := l\<rparr>) = Ret (r, st'\<lparr>mgr_latch := l\<rparr>)" "mgr_latch st' = mgr_latch st"
  shows "exclusive t f st = Ret (r, st')"
proof -
  obtain l where l: "s_get t (mgr_latch st) = Ret l" "s_release t l = Ret (mgr_latch st)"
    using sl.get_free [OF assms(1)] by blast
  have "st'\<lparr>mgr_latch := mgr_latch st\<rparr> = st'"
    using assms(3) by (metis pmdEDUMgr.surjective pmdEDUMgr.update_convs(4))
  with l show ?thesis
    by (simp add: exclusive_def assms(2))
qed

lemma shared_Ret:
  assumes "s_free (mgr_latch st)" "\<And>l. f (st\<lparr>mgr_latch := l\<rparr>) = Ret (r, st'\<lparr>mgr_latch := l\<rparr>)" "mgr_latch st' = mgr_latch st"
  shows "shared t f st = Ret (r, st')"
proof -
  obtain l where l: "s_get_shared t (mgr_latch st) = Ret l" "s_release_shared t l = Ret (mgr_latch st)"
    using assms(1) shared_balanced [of "mgr_latch st" t] by (auto simp: s_free_def s_get_shared_def)
  have "st'\<lparr>mgr_latch := mgr_latch st\<rparr> = st'"
    using assms(3) by (metis pmdEDUMgr.surjective pmdEDUMgr.update_convs(4))
  with l show ?thesis
    by (simp add: shared_def assms(2))
qed

lemma on_cbs_latch: "on_cbs g (st\<lparr>mgr_latch := l\<rparr>) = (on_cbs g st)\<lparr>mgr_latch := l\<rparr>"
  by (simp add: on_cbs_def)

lemma isSystemID_cong [simp]: "isSystemID i (st\<lparr>mgr_latch := l\<rparr>) = isSystemID i st"
    "isSystemID i (on_cbs g st) = isSystemID i st"
  by (simp_all add: isSystemID_def)

lemma in_property_cong [simp]: "in_property q i (st\<lparr>mgr_latch := l\<rparr>) = in_property q i st"
  by (simp add: in_property_def)

section \<open>Forcing, events, returning: what each call does\<close>

definition alive :: "pmdEDUMgr \<Rightarrow> EDUID set" where
  "alive st = {i. edu_view st i \<noteq> None}"

lemma alive_find: "mgr_inv st \<Longrightarrow> i \<in> alive st \<longleftrightarrow> find_edu i st \<noteq> None"
  by (erule edu_cases [where i = i]) (auto simp: alive_def)

lemma alive_queues:
  assumes "mgr_inv st"
  shows "i \<in> alive st \<longleftrightarrow> i \<in> fst ` set (runQueue st) \<or> i \<in> fst ` set (idleQueue st)"
proof -
  have "find_edu i st \<noteq> None \<longleftrightarrow> map_of (runQueue st) i \<noteq> None \<or> map_of (idleQueue st) i \<noteq> None"
    by (simp add: find_edu_def split: option.split)
  then show ?thesis
    using alive_find [OF assms, of i] by (simp only: map_of_eq_None_iff) simp
qed

definition forced_upd :: "(EDUID \<Rightarrow> bool) \<Rightarrow> pmdEDUMgr \<Rightarrow> pmdEDUMgr" where
  "forced_upd P = on_cbs (\<lambda>cb. if P (cb_id cb) then cb_force cb else cb)"

lemma on_cbs_cong:
  "(\<And>p cb. cb_heap st p = Some cb \<Longrightarrow> g cb = h cb) \<Longrightarrow> on_cbs g st = on_cbs h st"
  unfolding on_cbs_def by (rule arg_cong [where f = "\<lambda>h. st\<lparr>cb_heap := h\<rparr>"]) (auto simp: fun_eq_iff split: option.split intro!: option.map_cong)

lemma cb_alive: "mgr_inv st \<Longrightarrow> cb_heap st p = Some cb \<Longrightarrow> cb_id cb \<in> alive st"
  by (simp add: alive_find) (metis mgr_inv_def option.distinct(1))

lemma not_alive_on_cbs:
  assumes "mgr_inv st" "i \<notin> alive st"
  shows "on_cbs (\<lambda>cb. if cb_id cb = i then f cb else cb) st = st"
  using on_cbs_cong [of st "\<lambda>cb. if cb_id cb = i then f cb else cb" "\<lambda>cb. cb"] assms cb_alive [OF assms(1)] by fastforce

lemma forceUserEDU_result:
  assumes "mgr_inv st" "s_free (mgr_latch st)"
  shows "forceUserEDU t i st = Ret (if isSystemID i st then (EDB_PMD_FORCE_SYSTEM_EDU, st)
     else (EDB_OK, forced_upd (\<lambda>j. j = i) st))"
proof (cases "isSystemID i st")
  case True
  then show ?thesis
    unfolding forceUserEDU_def by (simp add: exclusive_Ret [OF assms(2)])
next
  case False
  have "forceUserEDU t i st = Ret (EDB_OK, forced_upd (\<lambda>j. j = i) st)"
    unfolding forceUserEDU_def
  proof (rule exclusive_Ret [OF assms(2)])
    fix l
    let ?s = "st\<lparr>mgr_latch := l\<rparr>"
    have inv: "mgr_inv ?s"
      using assms(1) by simp
    have r: "force_first i (runQueue st) ?s = Ret (if i \<in> fst ` set (runQueue st)
        then (True, forced_upd (\<lambda>j. j = i) ?s) else (False, ?s))"
      "force_first i (idleQueue st) ?s = Ret (if i \<in> fst ` set (idleQueue st)
        then (True, forced_upd (\<lambda>j. j = i) ?s) else (False, ?s))"
      using force_first_result [OF inv] queue_found [OF assms(1)] by (auto simp: forced_upd_def)
    have n: "forced_upd (\<lambda>j. j = i) st = st" if "i \<notin> fst ` set (runQueue st)" "i \<notin> fst ` set (idleQueue st)"
      using not_alive_on_cbs [OF assms(1), of i cb_force] that by (simp add: forced_upd_def alive_queues [OF assms(1)])
    show "(if isSystemID i ?s then Ret (EDB_PMD_FORCE_SYSTEM_EDU, ?s)
         else bnd (force_first i (runQueue ?s) ?s) (\<lambda>(hit, st').
           if hit then Ret (EDB_OK, st')
           else bnd (force_first i (idleQueue st') st') (\<lambda>(_, st''). Ret (EDB_OK, st'')))) =
       Ret (EDB_OK, (forced_upd (\<lambda>j. j = i) st)\<lparr>mgr_latch := l\<rparr>)"
      using False r n by (auto simp: forced_upd_def on_cbs_latch)
  qed (simp add: forced_upd_def)
  with False show ?thesis
    by simp
qed

definition force_hits :: "nat \<Rightarrow> pmdEDUMgr \<Rightarrow> EDUID \<Rightarrow> bool" where
  "force_hits property st i \<longleftrightarrow> (map_of (runQueue st) i \<noteq> None \<and> in_property property i st) \<or>
     (map_of (idleQueue st) i \<noteq> None \<and> EDU_USER AND property \<noteq> 0)"

lemma forceEDUs_result:
  assumes "mgr_inv st" "s_free (mgr_latch st)"
  shows "forceEDUs t property st = Ret (EDB_OK, forced_upd (force_hits property st) st)"
  unfolding forceEDUs_def
proof (rule exclusive_Ret [OF assms(2)])
  fix l
  let ?s = "st\<lparr>mgr_latch := l\<rparr>"
  let ?run = "filter (\<lambda>e. in_property property (fst e) st) (runQueue st)"
  let ?idle = "if EDU_USER AND property \<noteq> 0 then idleQueue st else []"
  let ?g = "\<lambda>cb. if cb_id cb \<in> fst ` set ?run then cb_force cb else cb"
  have inv: "mgr_inv ?s"
    using assms(1) by simp
  have a: "force_all ?run ?s = Ret (on_cbs ?g ?s)"
    using queue_found(1) [OF assms(1)] by (intro force_all_result [OF inv]) auto
  have inv1: "mgr_inv (on_cbs ?g ?s)"
    by (intro on_cbs_inv inv keeps_entry_if keeps_entry_basic)
  have b: "force_all ?idle (on_cbs ?g ?s) =
      Ret (on_cbs (\<lambda>cb. if cb_id cb \<in> fst ` set ?idle then cb_force cb else cb) (on_cbs ?g ?s))"
    using queue_found(2) [OF assms(1)] by (intro force_all_result [OF inv1]) auto
  have c: "on_cbs (\<lambda>cb. if cb_id cb \<in> fst ` set ?idle then cb_force cb else cb) (on_cbs ?g ?s) =
      (forced_upd (force_hits property st) st)\<lparr>mgr_latch := l\<rparr>"
    unfolding forced_upd_def on_cbs_comp on_cbs_latch [symmetric]
    by (rule on_cbs_cong) (auto simp: force_hits_def map_of_eq_None_iff cb_force_def)
  show "bnd (force_all (filter (\<lambda>e. in_property property (fst e) ?s) (runQueue ?s)) ?s) (\<lambda>st'.
     bnd (force_all (if EDU_USER AND property \<noteq> 0 then idleQueue st' else []) st') (\<lambda>st''. Ret (EDB_OK, st''))) =
     Ret (EDB_OK, (forced_upd (force_hits property st) st)\<lparr>mgr_latch := l\<rparr>)"
    using a b c by (simp split: if_splits)
qed (simp add: forced_upd_def)

lemma postEDUPost_result:
  assumes "mgr_inv st" "s_free (mgr_latch st)"
  shows "postEDUPost t i ev st = Ret (if i \<in> alive st
     then (EDB_OK, on_cbs (\<lambda>cb. if cb_id cb = i then cb_postEvent ev cb else cb) st) else (EDB_SYS, st))"
proof (cases "find_edu i st")
  case None
  then show ?thesis
    unfolding postEDUPost_def by (simp add: shared_Ret [OF assms(2)] alive_find [OF assms(1)])
next
  case (Some p)
  have "postEDUPost t i ev st = Ret (EDB_OK, on_cbs (\<lambda>cb. if cb_id cb = i then cb_postEvent ev cb else cb) st)"
    unfolding postEDUPost_def
  proof (rule shared_Ret [OF assms(2)])
    fix l
    have "cb_upd p (cb_postEvent ev) (st\<lparr>mgr_latch := l\<rparr>) =
        Ret (on_cbs (\<lambda>cb. if cb_id cb = i then cb_postEvent ev cb else cb) (st\<lparr>mgr_latch := l\<rparr>))"
      using assms(1) Some by (intro cb_upd_on_cbs) simp_all
    then show "(case find_edu i (st\<lparr>mgr_latch := l\<rparr>) of None \<Rightarrow> Ret (EDB_SYS, st\<lparr>mgr_latch := l\<rparr>)
        | Some p \<Rightarrow> bnd (cb_upd p (cb_postEvent ev) (st\<lparr>mgr_latch := l\<rparr>)) (\<lambda>st'. Ret (EDB_OK, st'))) =
        Ret (EDB_OK, (on_cbs (\<lambda>cb. if cb_id cb = i then cb_postEvent ev cb else cb) st)\<lparr>mgr_latch := l\<rparr>)"
      using Some by (simp add: on_cbs_latch)
  qed simp
  with Some show ?thesis
    by (simp add: alive_find [OF assms(1)])
qed

text \<open>\<open>must_go\<close>: the four reasons for which \<open>returnEDU\<close> destroys rather than pools.\<close>

definition must_go :: "int \<Rightarrow> EDUID \<Rightarrow> bool \<Rightarrow> pmdEDUMgr \<Rightarrow> bool" where
  "must_go maxPool i force st \<longleftrightarrow> edu_type st i \<noteq> Some EDU_TYPE_AGENT \<or> force \<or> isDestroyed st \<or>
     mgr_size st > to_u32 maxPool"

lemma mgr_size_latch [simp]: "mgr_size (st\<lparr>mgr_latch := l\<rparr>) = mgr_size st"
  by (simp add: mgr_size_def)

lemma returnEDU_result:
  fixes maxPool :: int and force :: bool and i :: EDUID and st :: pmdEDUMgr
  assumes "mgr_inv st" "s_free (mgr_latch st)" "i \<in> alive st"
  defines "r \<equiv> (if must_go maxPool i force st then spec_destroy else spec_deactivate) (edu_view st i)"
  shows "\<exists>st'. returnEDU t maxPool i force st =
       Ret ((fst r, fst r = EDB_OK \<and> must_go maxPool i force st), st') \<and>
     mgr_inv st' \<and> mgr_latch st' = mgr_latch st \<and> edu_view st' = (edu_view st)(i := snd r) \<and>
     isQuiesced st' = isQuiesced st \<and> isDestroyed st' = isDestroyed st \<and> nextEDUID st' = nextEDUID st"
proof -
  obtain p where p: "find_edu i st = Some p"
    using assms(3) by (auto simp: alive_find [OF assms(1)])
  obtain cb where cb: "cb_heap st p = Some cb"
    using mgr_inv_found [OF assms(1) p] by blast
  have ty: "edu_type st i = Some (cb_type cb)"
    using p cb by (simp add: edu_type_def)
  have a: "shared t (\<lambda>st. case find_edu i st of None \<Rightarrow> Ret (None, st)
         | Some p \<Rightarrow> bnd (cb_at p st) (\<lambda>cb. Ret (Some (cb_type cb), st))) st = Ret (Some (cb_type cb), st)"
    using p cb by (intro shared_Ret [OF assms(2)]) (simp_all add: cb_at_def)
  have go: "must_go maxPool i force st \<longleftrightarrow>
      \<not> isPoolable (cb_type cb) \<or> force \<or> isDestroyed st \<or> mgr_size st > to_u32 maxPool"
    by (auto simp: must_go_def ty isPoolable_def)
  have sys: "fst r \<noteq> EDB_SYS"
    using assms(3) by (cases "edu_view st i" rule: spec_destroy.cases; cases "edu_view st i" rule: spec_deactivate.cases)
      (auto simp: r_def alive_def edb_codes)
  show ?thesis
  proof (cases "must_go maxPool i force st")
    case True
    with destroyEDU_refines [OF assms(1,2), of t i] sys a go show ?thesis
      unfolding refines_def r_def returnEDU_def by (auto simp: edb_codes)
  next
    case False
    then have "edu_type st i = Some EDU_TYPE_AGENT"
      by (simp add: must_go_def)
    with False deactivateEDU_refines [OF assms(1,2), of i t] sys a go show ?thesis
      unfolding refines_def r_def returnEDU_def by (auto simp: edb_codes)
  qed
qed

lemma returnEDU_unknown:
  assumes "mgr_inv st" "s_free (mgr_latch st)" "i \<notin> alive st"
  shows "returnEDU t maxPool i force st = Ret ((EDB_SYS, False), st)"
proof -
  have "shared t (\<lambda>st. case find_edu i st of None \<Rightarrow> Ret (None, st)
         | Some p \<Rightarrow> bnd (cb_at p st) (\<lambda>cb. Ret (Some (cb_type cb), st))) st = Ret (None, st)"
    using assms by (intro shared_Ret [OF assms(2)]) (simp_all add: alive_find)
  then show ?thesis
    by (simp add: returnEDU_def)
qed

section \<open>Histories\<close>

text \<open>
  The calls that change the queues and blocks and wait for nothing but the latch; \<open>PmdMgrAll\<close> adds
  \<open>waitEDUPost\<close>, the steps of \<open>_destroyAll\<close> and the calls that only read.
\<close>

datatype edu_op = OpStart bool bool EDU_TYPES nat | OpWait EDUID | OpActivate EDUID | OpReturn EDUID bool
  | OpForceUser EDUID | OpForceAll nat | OpPost EDUID pmdEDUEvent | OpRegister EDU_TYPES EDUID
  | OpSetThread nat EDUID | OpQuiesce bool

fun edu_do :: "tid \<Rightarrow> int \<Rightarrow> edu_op \<Rightarrow> (int \<times> EDUID option) mgr_call" where
  "edu_do t maxPool (OpStart alloc thread type arg) st = startEDU t alloc thread type arg st"
| "edu_do t maxPool (OpWait i) st = bnd (waitEDU t i st) (\<lambda>(rc, st). Ret ((rc, None), st))"
| "edu_do t maxPool (OpActivate i) st = bnd (activateEDU t i st) (\<lambda>(rc, st). Ret ((rc, None), st))"
| "edu_do t maxPool (OpReturn i force) st = bnd (returnEDU t maxPool i force st) (\<lambda>((rc, _), st). Ret ((rc, None), st))"
| "edu_do t maxPool (OpForceUser i) st = bnd (forceUserEDU t i st) (\<lambda>(rc, st). Ret ((rc, None), st))"
| "edu_do t maxPool (OpForceAll p) st = bnd (forceEDUs t p st) (\<lambda>(rc, st). Ret ((rc, None), st))"
| "edu_do t maxPool (OpPost i ev) st = bnd (postEDUPost t i ev st) (\<lambda>(rc, st). Ret ((rc, None), st))"
| "edu_do t maxPool (OpRegister ty i) st = bnd (regSystemEDU t ty i st) (\<lambda>(_, st). Ret ((EDB_OK, None), st))"
| "edu_do t maxPool (OpSetThread k i) st = bnd (setEDU t k i st) (\<lambda>(_, st). Ret ((EDB_OK, None), st))"
| "edu_do t maxPool (OpQuiesce b) st = Ret ((EDB_OK, None), setQuiesced b st)"

fun edu_run :: "int \<Rightarrow> (tid \<times> edu_op) list \<Rightarrow> (int \<times> EDUID option) list mgr_call" where
  "edu_run maxPool [] st = Ret ([], st)"
| "edu_run maxPool ((t, c) # cs) st = bnd (edu_do t maxPool c st) (\<lambda>(r, st').
     bnd (edu_run maxPool cs st') (\<lambda>(rs, st''). Ret (r # rs, st'')))"

text \<open>
  One call keeps \<open>between\<close>: the invariant, the latch free, at most one id used up, an EDU that is
  gone is not back, and who is new has an id never used before.
\<close>

definition between :: "pmdEDUMgr \<Rightarrow> pmdEDUMgr \<Rightarrow> bool" where
  "between st st' \<longleftrightarrow> mgr_inv st' \<and> mgr_latch st' = mgr_latch st \<and> nextEDUID st \<le> nextEDUID st' \<and>
     nextEDUID st' \<le> nextEDUID st + 1 \<and> (\<forall>i < nextEDUID st. i \<notin> alive st \<longrightarrow> i \<notin> alive st')"

lemma alive_upd: "edu_view st' = (edu_view st)(i := e) \<Longrightarrow> (edu_view st i = None \<Longrightarrow> e = None) \<Longrightarrow> j \<in> alive st' \<Longrightarrow> j \<in> alive st"
  by (cases "edu_view st i") (auto simp: alive_def split: if_splits)

lemma spec_None [simp]: "snd (spec_wait None) = None" "snd (spec_activate None) = None"
  "snd (spec_deactivate None) = None" "snd (spec_destroy None) = None"
  by simp_all

lemma refines_between:
  assumes "refines f i spec st" "snd (spec None) = None"
  shows "\<exists>rc st'. f st = Ret (rc, st') \<and> between st st'"
proof -
  obtain st' where st': "f st = Ret (fst (spec (edu_view st i)), st')" "mgr_inv st'" "mgr_latch st' = mgr_latch st"
      "nextEDUID st' = nextEDUID st" "edu_view st' = (edu_view st)(i := snd (spec (edu_view st i)))"
    using assms(1) unfolding refines_def by blast
  have "j \<notin> alive st'" if "j \<notin> alive st" for j
    using alive_upd [OF st'(5), of j] assms(2) that by metis
  with st' show ?thesis
    by (simp add: between_def)
qed

lemma on_cbs_between: "mgr_inv st \<Longrightarrow> keeps_entry g \<Longrightarrow> between st (on_cbs g st)"
  by (simp add: between_def on_cbs_inv on_cbs_view alive_def)

lemma between_refl: "mgr_inv st \<Longrightarrow> between st st"
  by (simp add: between_def)

lemma start_between:
  assumes "mgr_inv st" "nextEDUID st + 1 < 18446744073709551615"
  shows "between st (snd (start_result alloc thread type arg st))"
proof (cases "isQuiesced st")
  case True
  then show ?thesis
    using between_refl [OF assms(1)] by (simp add: start_result_def)
next
  case False
  show ?thesis
  proof (cases "startable type st")
    case None
    have n: "between st (with_new type arg st)"
      unfolding between_def alive_def with_new_view [OF assms(1)]
      using with_new_inv [OF assms] by (simp add: with_new_def)
    have c: "between st (st\<lparr>nextEDUID := nextEDUID st + 1, cb_next := cb_next st + 1\<rparr>)"
      unfolding between_def alive_def counters_view
      using counters_inv [OF assms] by simp
    have "between st (snd (create_result alloc thread type arg st))"
      using between_refl [OF assms(1)] n c unfolding create_result_def by (simp only: split: if_split) simp
    with False None show ?thesis
      by (simp add: start_result_def)
  next
    case (Some x)
    obtain i p where x: "x = (i, p)"
      by (cases x)
    with Some have s: "startable type st = Some (i, p)"
      by simp
    have v: "edu_view st i \<noteq> None"
      using startable_Some [OF assms(1) s] by (metis option.distinct(1))
    let ?r = "reused type i p (cb_postEvent (resume_event arg)) st"
    have "alive ?r = alive st"
      using v unfolding alive_def reused_inv(2) [OF assms(1) s] by auto
    moreover have "mgr_latch ?r = mgr_latch st" "nextEDUID ?r = nextEDUID st"
      by (simp_all add: reused_def)
    ultimately have "between st ?r"
      using reused_inv(1) [OF assms(1) s] by (simp add: between_def)
    with False s show ?thesis
      by (simp add: start_result_def)
  qed
qed

lemma plain_between:
  assumes "mgr_inv st"
  shows "between st (st\<lparr>mapSystemEDUS := m\<rparr>)" "between st (st\<lparr>tid_eduid_map := n\<rparr>)" "between st (setQuiesced b st)"
proof -
  have v: "edu_view (st\<lparr>mapSystemEDUS := m\<rparr>) = edu_view st" "edu_view (st\<lparr>isQuiesced := b\<rparr>) = edu_view st"
    by (simp_all add: edu_view_def fun_eq_iff split: option.split)
  have f: "find_edu i (st\<lparr>mapSystemEDUS := m\<rparr>) = find_edu i st" "find_edu i (st\<lparr>isQuiesced := b\<rparr>) = find_edu i st"
      "find_edu i (st\<lparr>tid_eduid_map := n\<rparr>) = find_edu i st" for i
    by (simp_all add: find_edu_def split: option.split)
  have "mgr_inv (st\<lparr>mapSystemEDUS := m\<rparr>)" "mgr_inv (st\<lparr>isQuiesced := b\<rparr>)" "mgr_inv (st\<lparr>tid_eduid_map := n\<rparr>)"
    using assms unfolding mgr_inv_def f by simp_all
  with v show "between st (st\<lparr>mapSystemEDUS := m\<rparr>)" "between st (st\<lparr>tid_eduid_map := n\<rparr>)" "between st (setQuiesced b st)"
    by (simp_all add: between_def alive_def setQuiesced_def)
qed

lemma edu_do_between:
  assumes "mgr_inv st" "s_free (mgr_latch st)" "nextEDUID st + 1 < 18446744073709551615"
  shows "\<exists>r st'. edu_do t maxPool c st = Ret (r, st') \<and> between st st'"
proof (cases c)
  case (OpStart alloc thread type arg)
  then show ?thesis
    using startEDU_result [OF assms] start_between [OF assms(1,3)]
    by (cases "start_result alloc thread type arg st") (metis edu_do.simps(1) snd_conv)
next
  case (OpWait i)
  then show ?thesis
    using refines_between [OF waitEDU_refines [OF assms(1,2)], of t i] by auto
next
  case (OpActivate i)
  then show ?thesis
    using refines_between [OF activateEDU_refines [OF assms(1,2)], of t i] by auto
next
  case (OpReturn i force)
  show ?thesis
  proof (cases "i \<in> alive st")
    case True
    let ?r = "(if must_go maxPool i force st then spec_destroy else spec_deactivate) (edu_view st i)"
    obtain st' where st': "returnEDU t maxPool i force st = Ret ((fst ?r, fst ?r = EDB_OK \<and> must_go maxPool i force st), st')"
        "mgr_inv st'" "mgr_latch st' = mgr_latch st" "edu_view st' = (edu_view st)(i := snd ?r)" "nextEDUID st' = nextEDUID st"
      using returnEDU_result [OF assms(1,2) True, of t maxPool force] by blast
    have "j \<notin> alive st'" if "j \<notin> alive st" for j
      using that True by (auto simp: alive_def st'(4))
    with st' OpReturn show ?thesis
      by (simp add: between_def)
  next
    case False
    with OpReturn returnEDU_unknown [OF assms(1,2)] between_refl [OF assms(1)] show ?thesis
      by simp
  qed
next
  case (OpForceUser i)
  then show ?thesis
    using forceUserEDU_result [OF assms(1,2), of t i] between_refl [OF assms(1)]
      on_cbs_between [OF assms(1) keeps_entry_if [OF keeps_entry_basic(1)]]
    by (simp add: forced_upd_def)
next
  case (OpForceAll p)
  then show ?thesis
    using forceEDUs_result [OF assms(1,2), of t p]
      on_cbs_between [OF assms(1) keeps_entry_if [OF keeps_entry_basic(1)]]
    by (simp add: forced_upd_def)
next
  case (OpPost i ev)
  then show ?thesis
    using postEDUPost_result [OF assms(1,2), of t i ev] between_refl [OF assms(1)]
      on_cbs_between [OF assms(1) keeps_entry_if [OF keeps_entry_basic(2)]]
    by simp
next
  case (OpRegister ty i)
  have "regSystemEDU t ty i st = Ret ((), st\<lparr>mapSystemEDUS := smap_put ty i (mapSystemEDUS st)\<rparr>)"
    unfolding regSystemEDU_def by (rule exclusive_Ret [OF assms(2)]) simp_all
  with OpRegister plain_between(1) [OF assms(1)] show ?thesis
    by simp
next
  case (OpSetThread k i)
  have "setEDU t k i st = Ret ((), st\<lparr>tid_eduid_map := smap_put k i (tid_eduid_map st)\<rparr>)"
    unfolding setEDU_def by (rule exclusive_Ret [OF assms(2)]) simp_all
  with OpSetThread plain_between(2) [OF assms(1)] show ?thesis
    by simp
next
  case (OpQuiesce b)
  then show ?thesis
    using plain_between(3) [OF assms(1)] by simp
qed

lemma edu_run_safe:
  assumes "mgr_inv st" "s_free (mgr_latch st)" "nextEDUID st + length cs < 18446744073709551615"
  shows "\<exists>rs st'. edu_run maxPool cs st = Ret (rs, st') \<and> mgr_inv st' \<and> mgr_latch st' = mgr_latch st \<and>
     (\<forall>i < nextEDUID st. i \<notin> alive st \<longrightarrow> i \<notin> alive st') \<and> nextEDUID st \<le> nextEDUID st'"
  using assms
proof (induction cs arbitrary: st)
  case (Cons c cs)
  obtain t op where c: "c = (t, op)"
    by (cases c)
  obtain r st1 where st1: "edu_do t maxPool op st = Ret (r, st1)" "between st st1"
    using edu_do_between [OF Cons.prems(1,2), of t maxPool op] Cons.prems(3) by auto
  then obtain rs st' where "edu_run maxPool cs st1 = Ret (rs, st')" "mgr_inv st'" "mgr_latch st' = mgr_latch st1"
      "\<forall>i < nextEDUID st1. i \<notin> alive st1 \<longrightarrow> i \<notin> alive st'" "nextEDUID st1 \<le> nextEDUID st'"
    using Cons.IH [of st1] Cons.prems by (auto simp: between_def)
  with st1 c show ?case
    by (auto simp: between_def)
qed simp

lemma edu_run_ids:
  assumes "mgr_inv st" "s_free (mgr_latch st)" "nextEDUID st + length cs < 18446744073709551615"
    and "edu_run maxPool cs st = Ret (rs, st')"
  shows "nextEDUID st' \<le> nextEDUID st + length cs"
  using assms
proof (induction cs arbitrary: st rs)
  case (Cons c cs)
  obtain t op where c: "c = (t, op)"
    by (cases c)
  obtain r st1 where st1: "edu_do t maxPool op st = Ret (r, st1)" "between st st1"
    using edu_do_between [OF Cons.prems(1,2), of t maxPool op] Cons.prems(3) by auto
  then obtain ss where "edu_run maxPool cs st1 = Ret (ss, st')"
    using Cons.prems(4) c by (auto simp: bnd_eq_Ret)
  with Cons.IH [of st1 ss] Cons.prems st1(2) show ?case
    by (auto simp: between_def)
qed simp

text \<open>The block of an EDU, and the outcome of \<open>startEDU\<close> in terms of entries and blocks.\<close>

definition edu_cb :: "pmdEDUMgr \<Rightarrow> EDUID \<Rightarrow> pmdEDUCB option" where
  "edu_cb st i = Option.bind (find_edu i st) (cb_heap st)"

lemma start_result_spec:
  assumes "mgr_inv st" "nextEDUID st + 1 < 18446744073709551615"
  shows "let ((rc, r), st') = start_result alloc thread type arg st in mgr_inv st' \<and> mgr_latch st' = mgr_latch st \<and>
    rc = (if isQuiesced st then EDB_QUIESCED else if startable type st \<noteq> None then EDB_OK
      else if type = EDU_TYPE_UNKNOWN then EDB_INVALIDARG else if \<not> alloc then EDB_OOM
      else if \<not> thread then EDB_SYS else EDB_OK) \<and>
    (if rc \<noteq> EDB_OK then edu_view st' = edu_view st
     else \<exists>i s cb. r = Some i \<and> edu_view st' = (edu_view st)(i := Some (False, s)) \<and> edu_cb st' i = Some cb \<and>
       cb_type cb = type \<and> cb_queue cb \<noteq> [] \<and> last (cb_queue cb) = resume_event arg \<and>
       (case startable type st of Some e \<Rightarrow> i = fst e \<and> s = PMD_EDU_WAITING
        | None \<Rightarrow> i = nextEDUID st \<and> edu_view st i = None \<and> s = PMD_EDU_CREATING))"
proof (cases "isQuiesced st")
  case False
  show ?thesis
  proof (cases "startable type st")
    case None
    have new: "edu_cb (with_new type arg st) (nextEDUID st) = Some (cb_started type (nextEDUID st) arg)"
      by (simp add: edu_cb_def find_edu_def with_new_def)
    show ?thesis
    proof (cases "type = EDU_TYPE_UNKNOWN \<or> \<not> alloc \<or> \<not> thread")
      case True
      with None False assms(1) counters_inv [OF assms] counters_view [where st = st] show ?thesis
        unfolding start_result_def create_result_def by (auto simp: edb_codes)
    next
      case ok: False
      with None False new with_new_inv [OF assms] with_new_view [OF assms(1)] fresh_id(4) [OF assms(1)] show ?thesis
        unfolding start_result_def create_result_def
        by (simp add: edb_codes cb_started_def cb_postEvent_def cb_new_def q_push_def) (simp add: with_new_def)
    qed
  next
    case (Some x)
    obtain i p where x: "x = (i, p)"
      by (cases x)
    with Some have s: "startable type st = Some (i, p)"
      by simp
    obtain cb where cb: "map_of (idleQueue st) i = Some p" "cb_heap st p = Some cb"
      using startable_Some [OF assms(1) s] by metis
    let ?r = "reused type i p (cb_postEvent (resume_event arg)) st"
    have "edu_cb ?r i = Some (cb_postEvent (resume_event arg) (cb\<lparr>cb_type := type, cb_status := PMD_EDU_WAITING\<rparr>))"
      "mgr_latch ?r = mgr_latch st"
      using cb by (simp_all add: edu_cb_def find_edu_def reused_def)
    with s False reused_inv [OF assms(1) s, of "resume_event arg"] show ?thesis
      by (simp add: start_result_def cb_postEvent_def q_push_def)
  qed
qed (use assms(1) in \<open>simp add: start_result_def edb_codes\<close>)

end
