(* ===== verification/PmdEntry.thy ===== *)
theory PmdEntry
  imports PmdMgrRun
begin

text \<open>
  \<open>pmdEDUEntryPoint\<close> of \<open>pmd/pmdEDU.cpp\<close>: what the thread of an EDU does in one round of its main
  loop, on the manager and the state of the database.  The entry function of the EDU's type is a
  parameter.
\<close>

section \<open>Definitions\<close>

datatype EDB_DB_STATUS = EDB_DB_NORMAL | EDB_DB_SHUTDOWN | EDB_DB_PANIC

definition EDB_IS_DB_DOWN :: "EDB_DB_STATUS \<Rightarrow> bool" where
  "EDB_IS_DB_DOWN s \<longleftrightarrow> s = EDB_DB_SHUTDOWN \<or> s = EDB_DB_PANIC"

text \<open>The local variables that live across the rounds.\<close>

record edu_thread =
  th_event :: pmdEDUEvent
  th_forced :: bool
  th_destroyed :: bool

definition thread_start :: edu_thread where
  "thread_start = \<lparr>th_event = event_init, th_forced = False, th_destroyed = False\<rparr>"

type_synonym edu_world = "pmdEDUMgr \<times> EDB_DB_STATUS"

type_synonym entry_function = "entry_point \<Rightarrow> nat \<Rightarrow> edu_world \<Rightarrow> (int \<times> edu_world) res"

definition entry_wait :: "(bool \<times> pmdEDUEvent ossQueue) list \<Rightarrow> cbp \<Rightarrow> pmdEDUEvent option mgr_call" where
  "entry_wait wakes p st = bnd (cb_at p st) (\<lambda>cb. bnd (cb_waitEvent 1000 wakes cb) (\<lambda>(ev, cb').
     bnd (cb_upd p (\<lambda>_. cb') st) (\<lambda>st'. Ret (ev, st'))))"

text \<open>The branch for RESUME: the entry function between two calls of \<open>waitEDU\<close>.\<close>

definition entry_resume :: "tid \<Rightarrow> edu_registry \<Rightarrow> entry_function \<Rightarrow> EDUID \<Rightarrow> cbp \<Rightarrow> EDU_TYPES \<Rightarrow> nat \<Rightarrow>
    edu_world \<Rightarrow> edu_world res" where
  "entry_resume t reg entry i p type arg w = (case w of (st, db) \<Rightarrow>
     bnd (waitEDU t i st) (\<lambda>(_, st1).
     bnd (case getEntryFuncByType type of None \<Rightarrow> Ret (EDB_SYS, st1, EDB_DB_SHUTDOWN)
       | Some f \<Rightarrow> entry f arg (st1, db)) (\<lambda>(rc, st2, db2).
     bnd (if EDB_IS_DB_DOWN db2 then Ret db2 else bnd (cb_at p st2) (\<lambda>cb.
       Ret (if isSystemEDU (cb_type cb) reg then EDB_DB_SHUTDOWN else db2))) (\<lambda>db3.
     bnd (waitEDU t i st2) (\<lambda>(_, st3). Ret (st3, db3))))))"

definition entry_round :: "tid \<Rightarrow> int \<Rightarrow> edu_registry \<Rightarrow> entry_function \<Rightarrow> EDUID \<Rightarrow> cbp \<Rightarrow>
    (bool \<times> pmdEDUEvent ossQueue) list \<Rightarrow> edu_thread \<times> edu_world \<Rightarrow> (edu_thread \<times> edu_world) res" where
  "entry_round t maxPool reg entry i p wakes s = (case s of (th, st, db) \<Rightarrow>
     bnd (cb_at p st) (\<lambda>cb0.
     bnd (entry_wait wakes p st) (\<lambda>(got, st1).
     bnd (cb_at p st1) (\<lambda>cb1.
     if got = None \<and> \<not> cb_forced cb1 then Ret (th, st1, db) else
     let event = (case got of Some e \<Rightarrow> e | None \<Rightarrow> th_event th);
         forced = (th_forced th \<or> got = None) in
     bnd (if \<not> forced \<and> eventType event = PMD_EDU_EVENT_RESUME
          then entry_resume t reg entry i p (cb_type cb0) (ev_data event) (st1, db) else Ret (st1, db)) (\<lambda>(st2, db2).
     let event' = (if \<not> forced \<and> ev_data event \<noteq> 0 \<and> ev_release event then event_init else event) in
     bnd (returnEDU t maxPool i forced st2) (\<lambda>((rc, gone), st3).
     Ret (\<lparr>th_event = event', th_forced = forced, th_destroyed = gone\<rparr>, st3, db2)))))))"

text \<open>
  The loop, with what the other threads call on the manager between its rounds.  When the script is
  used up and the EDU is not destroyed its thread still runs.
\<close>

datatype world_step = Call tid edu_op | Round "(bool \<times> pmdEDUEvent ossQueue) list"

fun edu_loop :: "tid \<Rightarrow> int \<Rightarrow> edu_registry \<Rightarrow> entry_function \<Rightarrow> EDUID \<Rightarrow> cbp \<Rightarrow> world_step list \<Rightarrow>
    edu_thread \<times> edu_world \<Rightarrow> (edu_thread \<times> edu_world) res" where
  "edu_loop t maxPool reg entry i p steps s = (case s of (th, st, db) \<Rightarrow>
     if th_destroyed th then Ret s else case steps of
       [] \<Rightarrow> Wait
     | Call u c # steps' \<Rightarrow> bnd (edu_do u maxPool c st) (\<lambda>(_, st').
         edu_loop t maxPool reg entry i p steps' (th, st', db))
     | Round wakes # steps' \<Rightarrow> bnd (entry_round t maxPool reg entry i p wakes s)
         (edu_loop t maxPool reg entry i p steps'))"

declare edu_loop.simps [simp del]

definition pmdEDUEntryPoint :: "tid \<Rightarrow> int \<Rightarrow> edu_registry \<Rightarrow> entry_function \<Rightarrow> cbp \<Rightarrow> world_step list \<Rightarrow>
    edu_world \<Rightarrow> int res" where
  "pmdEDUEntryPoint t maxPool reg entry p steps w = bnd (cb_at p (fst w)) (\<lambda>cb.
     bnd (edu_loop t maxPool reg entry (cb_id cb) p steps (thread_start, w)) (\<lambda>_. Ret 0))"

section \<open>Waiting for an event\<close>

fun wait_status :: "EDU_STATUS \<Rightarrow> pmdEDUEvent option \<Rightarrow> EDU_STATUS" where
  "wait_status s ev = (let s' = (if s = PMD_EDU_IDLE then s else PMD_EDU_WAITING) in case ev of
     None \<Rightarrow> s' | Some e \<Rightarrow> if eventType e = PMD_EDU_EVENT_TERM then s' else PMD_EDU_RUNNING)"

declare wait_status.simps [simp del]

text \<open>What stays the same for the callers: latch, flags, counters, sizes and the types.\<close>

definition same_rest :: "pmdEDUMgr \<Rightarrow> pmdEDUMgr \<Rightarrow> bool" where
  "same_rest st st' \<longleftrightarrow> mgr_latch st' = mgr_latch st \<and> isQuiesced st' = isQuiesced st \<and>
     isDestroyed st' = isDestroyed st \<and> nextEDUID st' = nextEDUID st \<and> mgr_size st' = mgr_size st \<and>
     (\<forall>j. edu_type st' j = edu_type st j) \<and> (\<forall>j. find_edu j st' = find_edu j st)"

lemma same_rest_refl [simp]: "same_rest st st"
  by (simp add: same_rest_def)

lemma same_rest_trans: "same_rest a b \<Longrightarrow> same_rest b c \<Longrightarrow> same_rest a c"
  by (simp add: same_rest_def)

text \<open>A block of the same id and type in place of another.\<close>

lemma heap_upd_rest:
  assumes "mgr_inv st" "find_edu i st = Some p" "cb_heap st p = Some cb" "cb_type cb' = cb_type cb"
  defines "st' \<equiv> st\<lparr>cb_heap := (cb_heap st)(p \<mapsto> cb')\<rparr>"
  shows "same_rest st st'" "edu_view st' = (edu_view st)(i := map_option (\<lambda>(b, _). (b, cb_status cb')) (edu_view st i))"
proof -
  have f: "find_edu j st' = find_edu j st" for j
    by (simp add: st'_def find_edu_def split: option.split)
  have "edu_type st' j = edu_type st j" for j
    using assms(3,4) by (simp add: edu_type_def f split: option.split) (simp add: st'_def)
  with f show "same_rest st st'"
    by (simp add: same_rest_def) (simp add: st'_def mgr_size_def)
  have "edu_view st' = (edu_view st)(i := edu_view st' i)"
    unfolding st'_def by (rule edu_view_local [OF assms(1,2)]) simp_all
  moreover have "edu_view st' i = map_option (\<lambda>(b, _). (b, cb_status cb')) (edu_view st i)"
    using assms(2,3) by (auto simp: st'_def edu_view_def find_edu_def split: option.splits)
  ultimately show "edu_view st' = (edu_view st)(i := map_option (\<lambda>(b, _). (b, cb_status cb')) (edu_view st i))"
    by simp
qed

lemma waited_block:
  assumes "mgr_inv st" "find_edu i st = Some p" "cb_heap st p = Some cb" "cb_waitEvent ms wakes cb = Ret (ev, cb')"
  defines st': "st' \<equiv> st\<lparr>cb_heap := (cb_heap st)(p \<mapsto> cb')\<rparr>"
  shows "mgr_inv st'" "same_rest st st'"
    "edu_view st' = (edu_view st)(i := map_option (\<lambda>(b, s). (b, wait_status s ev)) (edu_view st i))"
proof -
  have "cb_status cb' = wait_status (cb_status cb) ev"
    using cb_waitEvent_status(1) [OF assms(4)] by (simp add: cb_wait_begin_def wait_status.simps split: option.split)
  then have w: "cb_status cb' = wait_status (cb_status cb) ev" "cb_id cb' = cb_id cb" "cb_type cb' = cb_type cb"
    using cb_waitEvent_status(2,3) [OF assms(4)] by simp_all
  have st: "run_status s \<Longrightarrow> run_status (wait_status s ev)" "idle_status s \<Longrightarrow> idle_status (wait_status s ev)" for s
    by (auto simp: run_status_def idle_status_def wait_status.simps Let_def split: option.split)
  from assms(1) show "mgr_inv st'"
  proof (cases rule: edu_cases [where i = i])
    case (run q c)
    with assms(2,3) w st show ?thesis
      unfolding st' by (intro inv_upd [OF assms(1,3)]) simp_all
  next
    case (idle q c)
    with assms(2,3) w st show ?thesis
      unfolding st' by (intro inv_upd [OF assms(1,3)]) simp_all
  qed (use assms(2) in simp)
  have "map_option (\<lambda>(b, _). (b, cb_status cb')) (edu_view st i) =
      map_option (\<lambda>(b, s). (b, wait_status s ev)) (edu_view st i)"
    using assms(1-3) w(1) by (cases rule: edu_cases [where i = i]) simp_all
  with heap_upd_rest [OF assms(1-3) w(3)] show "same_rest st st'"
    "edu_view st' = (edu_view st)(i := map_option (\<lambda>(b, s). (b, wait_status s ev)) (edu_view st i))"
    by (simp_all add: st')
qed

lemma entry_wait_result:
  assumes "mgr_inv st" "find_edu i st = Some p" "cb_heap st p = Some cb" "cb_waitEvent 1000 wakes cb = Ret (ev, cb')"
  shows "\<exists>st'. entry_wait wakes p st = Ret (ev, st') \<and> mgr_inv st' \<and> same_rest st st' \<and> cb_heap st' p = Some cb' \<and>
     edu_view st' = (edu_view st)(i := map_option (\<lambda>(b, s). (b, wait_status s ev)) (edu_view st i))"
  using waited_block [OF assms] assms(3,4)
  by (intro exI [of _ "st\<lparr>cb_heap := (cb_heap st)(p \<mapsto> cb')\<rparr>"]) (simp add: entry_wait_def cb_at_def cb_upd_def)

section \<open>A round of a running EDU\<close>

lemma waitEDU_running:
  assumes "mgr_inv st" "s_free (mgr_latch st)" "edu_view st i = Some (False, s)" "s \<noteq> PMD_EDU_CREATING"
  shows "\<exists>st'. waitEDU t i st = Ret (EDB_OK, st') \<and> mgr_inv st' \<and> same_rest st st' \<and>
     edu_view st' = (edu_view st)(i := Some (False, PMD_EDU_WAITING))"
  using assms(1)
proof (cases rule: edu_cases [where i = i])
  case (run p cb)
  with assms(3,4) have s: "cb_status cb = s" "s = PMD_EDU_RUNNING \<or> s = PMD_EDU_WAITING"
    by (auto simp: run_status_def)
  show ?thesis
  proof (cases "s = PMD_EDU_WAITING")
    case True
    have "waitEDU t i st = Ret (EDB_OK, st)"
      unfolding waitEDU_def using run s True by (intro shared_Ret [OF assms(2)]) (simp_all add: cb_at_def)
    moreover have "edu_view st = (edu_view st)(i := Some (False, PMD_EDU_WAITING))"
      using assms(3) True by auto
    ultimately show ?thesis
      using assms(1) by (metis same_rest_refl)
  next
    case False
    let ?st' = "st\<lparr>cb_heap := (cb_heap st)(p \<mapsto> set_status PMD_EDU_WAITING cb)\<rparr>"
    have "waitEDU t i st = Ret (EDB_OK, ?st')"
      unfolding waitEDU_def using run s False
      by (intro shared_Ret [OF assms(2)]) (simp_all add: cb_at_def cb_upd_def)
    moreover have "mgr_inv ?st'"
      using run by (intro inv_upd [OF assms(1) run(3)]) (simp_all add: set_status_def run_status_def)
    moreover have "same_rest st ?st'" "edu_view ?st' = (edu_view st)(i := Some (False, PMD_EDU_WAITING))"
      using heap_upd_rest [OF assms(1) run(7,3), of "set_status PMD_EDU_WAITING cb"] assms(3)
      by (simp_all add: set_status_def)
    ultimately show ?thesis
      by blast
  qed
qed (use assms(3) in simp_all)

lemma waitEDU_pooled:
  assumes "mgr_inv st" "s_free (mgr_latch st)" "edu_view st i = Some (True, s)"
  shows "waitEDU t i st = Ret (EDB_SYS, st)"
  using assms(1)
proof (cases rule: edu_cases [where i = i])
  case (idle p cb)
  then show ?thesis
    unfolding waitEDU_def by (intro shared_Ret [OF assms(2)]) simp_all
qed (use assms(3) in simp_all)

text \<open>
  What the EDU relies on its entry function for: it returns, with the EDU still in the run queue, not
  in the state of creation, and of the same type.
\<close>

definition entry_behaves :: "entry_function \<Rightarrow> EDUID \<Rightarrow> cbp \<Rightarrow> EDU_TYPES \<Rightarrow> bool" where
  "entry_behaves entry i p type \<longleftrightarrow> (\<forall>f arg st db. mgr_inv st \<longrightarrow> s_free (mgr_latch st) \<longrightarrow> find_edu i st = Some p \<longrightarrow>
     edu_view st i = Some (False, PMD_EDU_WAITING) \<longrightarrow> edu_type st i = Some type \<longrightarrow> getEntryFuncByType type = Some f \<longrightarrow>
     (\<exists>rc st' db'. entry f arg (st, db) = Ret (rc, st', db') \<and> mgr_inv st' \<and> s_free (mgr_latch st') \<and>
        find_edu i st' = Some p \<and> edu_type st' i = Some type \<and>
        (edu_view st' i = Some (False, PMD_EDU_RUNNING) \<or> edu_view st' i = Some (False, PMD_EDU_WAITING))))"

lemma edu_type_cb: "find_edu i st = Some p \<Longrightarrow> edu_type st i = Some type \<Longrightarrow> \<exists>cb. cb_heap st p = Some cb \<and> cb_type cb = type"
  by (auto simp: edu_type_def split: option.splits)

lemma type_of_cb: "find_edu i st = Some p \<Longrightarrow> cb_heap st p = Some cb \<Longrightarrow> edu_type st i = Some (cb_type cb)"
  by (simp add: edu_type_def)

lemma entry_resume_result:
  assumes "mgr_inv st" "s_free (mgr_latch st)" "find_edu i st = Some p" "edu_type st i = Some type"
    and "edu_view st i = Some (False, PMD_EDU_RUNNING)" "entry_behaves entry i p type"
  shows "\<exists>st' db'. entry_resume t reg entry i p type arg (st, db) = Ret (st', db') \<and> mgr_inv st' \<and>
     s_free (mgr_latch st') \<and> find_edu i st' = Some p \<and> edu_type st' i = Some type \<and>
     edu_view st' i = Some (False, PMD_EDU_WAITING)"
proof -
  obtain st1 where st1: "waitEDU t i st = Ret (EDB_OK, st1)" "mgr_inv st1" "same_rest st st1"
      "edu_view st1 i = Some (False, PMD_EDU_WAITING)"
    using waitEDU_running [OF assms(1,2,5), of t] by auto
  have l1: "s_free (mgr_latch st1)" "find_edu i st1 = Some p" "edu_type st1 i = Some type"
    using st1(3) assms(2-4) by (simp_all add: same_rest_def)
  obtain rc st2 db2 where e: "(case getEntryFuncByType type of None \<Rightarrow> Ret (EDB_SYS, st1, EDB_DB_SHUTDOWN)
       | Some f \<Rightarrow> entry f arg (st1, db)) = Ret (rc, st2, db2)" "mgr_inv st2" "s_free (mgr_latch st2)"
      "find_edu i st2 = Some p" "edu_type st2 i = Some type"
      "edu_view st2 i = Some (False, PMD_EDU_RUNNING) \<or> edu_view st2 i = Some (False, PMD_EDU_WAITING)"
  proof (cases "getEntryFuncByType type")
    case None
    with that [of EDB_SYS st1 EDB_DB_SHUTDOWN] st1 l1 show ?thesis
      by simp
  next
    case (Some f)
    have "\<exists>rc st' db'. entry f arg (st1, db) = Ret (rc, st', db') \<and> mgr_inv st' \<and> s_free (mgr_latch st') \<and>
        find_edu i st' = Some p \<and> edu_type st' i = Some type \<and>
        (edu_view st' i = Some (False, PMD_EDU_RUNNING) \<or> edu_view st' i = Some (False, PMD_EDU_WAITING))"
      using assms(6) Some st1 l1 unfolding entry_behaves_def by blast
    with Some that show ?thesis
      by auto
  qed
  obtain cb where cb: "cb_heap st2 p = Some cb"
    using edu_type_cb [OF e(4,5)] by blast
  define db3 where "db3 = (if EDB_IS_DB_DOWN db2 then db2 else
      if isSystemEDU (cb_type cb) reg then EDB_DB_SHUTDOWN else db2)"
  have d: "(if EDB_IS_DB_DOWN db2 then Ret db2 else bnd (cb_at p st2) (\<lambda>cb.
       Ret (if isSystemEDU (cb_type cb) reg then EDB_DB_SHUTDOWN else db2))) = Ret db3"
    using cb by (simp add: db3_def cb_at_def)
  obtain st3 where st3: "waitEDU t i st2 = Ret (EDB_OK, st3)" "mgr_inv st3" "same_rest st2 st3"
      "edu_view st3 i = Some (False, PMD_EDU_WAITING)"
    using waitEDU_running [OF e(2,3), of i] e(6) by (metis EDU_STATUS.distinct(1,3) fun_upd_same)
  then have "s_free (mgr_latch st3)" "find_edu i st3 = Some p" "edu_type st3 i = Some type"
    using e(3-5) by (simp_all add: same_rest_def)
  moreover have "entry_resume t reg entry i p type arg (st, db) = Ret (st3, db3)"
    using st1(1) e(1) d st3(1) by (simp add: entry_resume_def)
  ultimately show ?thesis
    using st3 by blast
qed

text \<open>
  A request for an EDU in the run queue: when its entry function is done the EDU is destroyed for one
  of the reasons of \<open>must_go\<close>, and pooled IDLE else.
\<close>

lemma entry_round_serves:
  assumes "mgr_inv st" "s_free (mgr_latch st)" "find_edu i st = Some p" "cb_heap st p = Some cb"
    and "edu_view st i = Some (False, s)" "\<not> th_forced th" "cb_waitEvent 1000 wakes cb = Ret (Some e, cb')"
    and "eventType e = PMD_EDU_EVENT_RESUME" "entry_behaves entry i p (cb_type cb)"
  shows "\<exists>th' st2 st' db'. entry_round t maxPool reg entry i p wakes (th, st, db) = Ret (th', st', db') \<and> mgr_inv st' \<and>
     s_free (mgr_latch st') \<and> edu_type st2 i = Some (cb_type cb) \<and> th_destroyed th' = must_go maxPool i False st2 \<and>
     edu_view st' i = (if must_go maxPool i False st2 then None else Some (True, PMD_EDU_IDLE))"
proof -
  obtain st1 where st1: "entry_wait wakes p st = Ret (Some e, st1)" "mgr_inv st1" "same_rest st st1"
      "cb_heap st1 p = Some cb'" "edu_view st1 i = Some (False, PMD_EDU_RUNNING)"
    using entry_wait_result [OF assms(1,3,4,7)] assms(5,8) by (auto simp: wait_status.simps)
  have l1: "s_free (mgr_latch st1)" "find_edu i st1 = Some p" "edu_type st1 i = Some (cb_type cb)"
    using st1(3) assms(2-4) by (simp_all add: same_rest_def type_of_cb)
  obtain st2 db2 where r: "entry_resume t reg entry i p (cb_type cb) (ev_data e) (st1, db) = Ret (st2, db2)"
      "mgr_inv st2" "s_free (mgr_latch st2)" "find_edu i st2 = Some p" "edu_type st2 i = Some (cb_type cb)"
      "edu_view st2 i = Some (False, PMD_EDU_WAITING)"
    using entry_resume_result [OF st1(2) l1 st1(5) assms(9)] by blast
  have al: "i \<in> alive st2"
    using r(6) by (auto simp: alive_def)
  obtain st3 where st3: "returnEDU t maxPool i False st2 = Ret ((EDB_OK, must_go maxPool i False st2), st3)"
      "mgr_inv st3" "mgr_latch st3 = mgr_latch st2"
      "edu_view st3 i = (if must_go maxPool i False st2 then None else Some (True, PMD_EDU_IDLE))"
    using returnEDU_result [OF r(2,3) al, of t maxPool False] r(6) by (cases "must_go maxPool i False st2") auto
  show ?thesis
    using assms(3,4,6,8) st1 r st3
    by (intro exI [of _ "\<lparr>th_event = if ev_data e \<noteq> 0 \<and> ev_release e then event_init else e, th_forced = False,
          th_destroyed = must_go maxPool i False st2\<rparr>"] exI [of _ st2] exI [of _ st3] exI [of _ db2])
      (simp add: entry_round_def cb_at_def)
qed

section \<open>A round of a pooled EDU\<close>

text \<open>
  A round in which no RESUME is taken: the wait, then \<open>returnEDU\<close>, unless it was a time-out of an EDU
  nobody forced.
\<close>

lemma entry_round_plain:
  assumes "mgr_inv st" "s_free (mgr_latch st)" "find_edu i st = Some p" "cb_heap st p = Some cb"
    and "cb_waitEvent 1000 wakes cb = Ret (ev, cb')"
    and "\<And>e. ev = Some e \<Longrightarrow> eventType e \<noteq> PMD_EDU_EVENT_RESUME"
  obtains st1 where "mgr_inv st1" "same_rest st st1"
    "edu_view st1 = (edu_view st)(i := map_option (\<lambda>(b, s). (b, wait_status s ev)) (edu_view st i))"
    "if ev = None \<and> \<not> cb_forced cb then entry_round t maxPool reg entry i p wakes (th, st, db) = Ret (th, st1, db)
     else \<exists>event. entry_round t maxPool reg entry i p wakes (th, st, db) =
       bnd (returnEDU t maxPool i (th_forced th \<or> ev = None) st1) (\<lambda>((rc, gone), st3).
         Ret (\<lparr>th_event = event, th_forced = (th_forced th \<or> ev = None), th_destroyed = gone\<rparr>, st3, db))"
proof -
  obtain st1 where st1: "entry_wait wakes p st = Ret (ev, st1)" "mgr_inv st1" "same_rest st st1"
      "cb_heap st1 p = Some cb'"
      "edu_view st1 = (edu_view st)(i := map_option (\<lambda>(b, s). (b, wait_status s ev)) (edu_view st i))"
    using entry_wait_result [OF assms(1,3,4,5)] by blast
  have "cb_forced cb' = cb_forced cb"
    by (rule cb_waitEvent_status(4) [OF assms(5)])
  then have "if ev = None \<and> \<not> cb_forced cb then entry_round t maxPool reg entry i p wakes (th, st, db) = Ret (th, st1, db)
     else \<exists>event. entry_round t maxPool reg entry i p wakes (th, st, db) =
       bnd (returnEDU t maxPool i (th_forced th \<or> ev = None) st1) (\<lambda>((rc, gone), st3).
         Ret (\<lparr>th_event = event, th_forced = (th_forced th \<or> ev = None), th_destroyed = gone\<rparr>, st3, db))"
    using assms(4,6) st1(1,4) by (cases ev) (auto simp: entry_round_def cb_at_def Let_def)
  with that st1 show ?thesis
    by blast
qed

text \<open>Forced while it waits in the pool, an EDU is destroyed in that round.\<close>

lemma entry_round_forced:
  assumes "mgr_inv st" "s_free (mgr_latch st)" "find_edu i st = Some p" "cb_heap st p = Some cb"
    and "edu_view st i = Some (True, PMD_EDU_IDLE)" "cb_forced cb" "cb_waitEvent 1000 wakes cb = Ret (None, cb')"
  shows "\<exists>th' st'. entry_round t maxPool reg entry i p wakes (th, st, db) = Ret (th', st', db) \<and>
     th_destroyed th' \<and> mgr_inv st' \<and> edu_view st' = (edu_view st)(i := None)"
proof -
  obtain st1 event where st1: "mgr_inv st1" "same_rest st st1" "edu_view st1 = edu_view st"
      "entry_round t maxPool reg entry i p wakes (th, st, db) =
       bnd (returnEDU t maxPool i True st1) (\<lambda>((rc, gone), st3).
         Ret (\<lparr>th_event = event, th_forced = True, th_destroyed = gone\<rparr>, st3, db))"
    by (rule entry_round_plain [OF assms(1-4,7), of t maxPool reg entry th db])
      (use assms(5,6) in \<open>auto simp: wait_status.simps fun_upd_idem\<close>)
  have "s_free (mgr_latch st1)" "i \<in> alive st1" "must_go maxPool i True st1"
    using st1(2,3) assms(2,5) by (auto simp: same_rest_def alive_def must_go_def)
  with returnEDU_result [OF st1(1), of i t maxPool True] st1(3) assms(5) st1(4) show ?thesis
    by auto
qed

text \<open>
  An EDU that is pooled and not IDLE: nothing the manager offers, and no round of its own without a
  RESUME, takes it out of the pool.
\<close>

definition stranded :: "EDUID \<Rightarrow> pmdEDUMgr \<Rightarrow> bool" where
  "stranded i st \<longleftrightarrow> (\<exists>s. edu_view st i = Some (True, s) \<and> s \<noteq> PMD_EDU_IDLE)"

lemma stranded_upd: "edu_view st' = (edu_view st)(j := e) \<Longrightarrow> stranded i st \<Longrightarrow> (i = j \<Longrightarrow> e = edu_view st i) \<Longrightarrow> stranded i st'"
  by (cases "i = j") (auto simp: stranded_def)

lemma stranded_spec:
  assumes "stranded i st"
  shows "snd (spec_wait (edu_view st i)) = edu_view st i" "snd (spec_activate (edu_view st i)) = edu_view st i"
    "spec_deactivate (edu_view st i) = (EDB_OK, edu_view st i)" "spec_destroy (edu_view st i) = (EDB_EDU_INVAL_STATUS, edu_view st i)"
proof -
  obtain s where s: "edu_view st i = Some (True, s)" "s \<noteq> PMD_EDU_IDLE"
    using assms by (auto simp: stranded_def)
  then show "snd (spec_wait (edu_view st i)) = edu_view st i" "snd (spec_activate (edu_view st i)) = edu_view st i"
    "spec_deactivate (edu_view st i) = (EDB_OK, edu_view st i)" "spec_destroy (edu_view st i) = (EDB_EDU_INVAL_STATUS, edu_view st i)"
    by (cases s; simp)+
qed

lemma refines_stranded:
  assumes "refines f j spec st" "stranded i st" "snd (spec (edu_view st i)) = edu_view st i" "f st = Ret (rc, st')"
  shows "stranded i st'"
  using assms unfolding refines_def by (auto intro!: stranded_upd [of st' st j])

lemma return_stranded:
  assumes "mgr_inv st" "s_free (mgr_latch st)" "stranded i st" "returnEDU t maxPool j force st = Ret (r, st')"
  shows "stranded i st' \<and> (i = j \<longrightarrow> \<not> snd r)"
proof (cases "j \<in> alive st")
  case True
  let ?r = "(if must_go maxPool j force st then spec_destroy else spec_deactivate) (edu_view st j)"
  have st': "r = (fst ?r, fst ?r = EDB_OK \<and> must_go maxPool j force st)" "edu_view st' = (edu_view st)(j := snd ?r)"
    using returnEDU_result [OF assms(1,2) True, of t maxPool force] assms(4) by auto
  show ?thesis
  proof (cases "i = j")
    case True
    have "?r = (EDB_EDU_INVAL_STATUS, edu_view st j) \<or> ?r = (EDB_OK, edu_view st j) \<and> \<not> must_go maxPool j force st"
      using stranded_spec(3,4) [OF assms(3)] True by simp
    with st' assms(3) True show ?thesis
      by (auto simp: edb_codes stranded_def)
  next
    case False
    with st'(2) assms(3) show ?thesis
      by (simp add: stranded_def)
  qed
next
  case False
  with returnEDU_unknown [OF assms(1,2), of j t maxPool force] assms(3,4) show ?thesis
    by auto
qed

lemma view_plain [simp]: "edu_view (st\<lparr>mapSystemEDUS := m\<rparr>) = edu_view st" "edu_view (setQuiesced b st) = edu_view st"
  by (simp_all add: edu_view_def setQuiesced_def fun_eq_iff split: option.split)

lemmas force_view = on_cbs_view [OF keeps_entry_if [OF keeps_entry_basic(1)]]
lemmas post_view = on_cbs_view [OF keeps_entry_if [OF keeps_entry_basic(2)]]

lemma start_stranded:
  assumes "mgr_inv st" "stranded i st"
  shows "stranded i (snd (start_result alloc thread type arg st))"
proof -
  have n: "i \<noteq> nextEDUID st"
    using fresh_id(4) [OF assms(1)] assms(2) by (auto simp: stranded_def)
  have "stranded i (with_new type arg st)" "stranded i (st\<lparr>nextEDUID := nextEDUID st + 1, cb_next := cb_next st + 1\<rparr>)"
    using assms(2) n unfolding stranded_def with_new_view [OF assms(1)] counters_view by simp_all
  then have c: "stranded i (snd (create_result alloc thread type arg st))"
    using assms(2) unfolding create_result_def by (simp only: split: if_split) simp
  have "stranded i (reused type j p (cb_postEvent ev) st)" if "startable type st = Some (j, p)" for j p ev
  proof -
    have "edu_view st j = Some (True, PMD_EDU_IDLE)"
      using startable_Some [OF assms(1) that] by metis
    then have "i \<noteq> j"
      using assms(2) by (auto simp: stranded_def)
    with assms(2) show ?thesis
      unfolding stranded_def reused_inv(2) [OF assms(1) that] by simp
  qed
  with c assms(2) show ?thesis
    by (cases "isQuiesced st"; cases "startable type st") (simp_all add: start_result_def split_beta)
qed

lemma call_stranded:
  assumes "mgr_inv st" "s_free (mgr_latch st)" "nextEDUID st + 1 < 18446744073709551615" "stranded i st"
    and "edu_do t maxPool c st = Ret (r, st')"
  shows "stranded i st'"
proof (cases c)
  case (OpStart alloc thread type arg)
  then show ?thesis
    using startEDU_result [OF assms(1-3)] start_stranded [OF assms(1,4)] assms(5)
    by (metis edu_do.simps(1) res.inject snd_conv)
next
  case (OpWait j)
  then obtain rc where "waitEDU t j st = Ret (rc, st')"
    using assms(5) by (auto simp: bnd_eq_Ret)
  with refines_stranded [OF waitEDU_refines [OF assms(1,2)] assms(4) stranded_spec(1) [OF assms(4)]] show ?thesis
    by blast
next
  case (OpActivate j)
  then obtain rc where "activateEDU t j st = Ret (rc, st')"
    using assms(5) by (auto simp: bnd_eq_Ret)
  with refines_stranded [OF activateEDU_refines [OF assms(1,2)] assms(4) stranded_spec(2) [OF assms(4)]] show ?thesis
    by blast
next
  case (OpReturn j force)
  then obtain q where "returnEDU t maxPool j force st = Ret (q, st')"
    using assms(5) by (auto simp: bnd_eq_Ret)
  with return_stranded [OF assms(1,2,4)] show ?thesis
    by blast
next
  case (OpForceUser j)
  with assms(4,5) forceUserEDU_result [OF assms(1,2), of t j] show ?thesis
    by (auto simp: forced_upd_def stranded_def force_view split: if_splits)
next
  case (OpForceAll q)
  with assms(4,5) forceEDUs_result [OF assms(1,2), of t q] show ?thesis
    by (auto simp: forced_upd_def stranded_def force_view)
next
  case (OpPost j ev)
  with assms(4,5) postEDUPost_result [OF assms(1,2), of t j ev] show ?thesis
    by (auto simp: stranded_def post_view split: if_splits)
next
  case (OpRegister ty j)
  have "regSystemEDU t ty j st = Ret ((), st\<lparr>mapSystemEDUS := smap_put ty j (mapSystemEDUS st)\<rparr>)"
    unfolding regSystemEDU_def by (rule exclusive_Ret [OF assms(2)]) simp_all
  with OpRegister assms(4,5) show ?thesis
    by (auto simp: stranded_def)
next
  case (OpSetThread k j)
  have "setEDU t k j st = Ret ((), st\<lparr>tid_eduid_map := smap_put k j (tid_eduid_map st)\<rparr>)"
    unfolding setEDU_def by (rule exclusive_Ret [OF assms(2)]) simp_all
  with OpSetThread assms(4,5) show ?thesis
    by (auto simp: stranded_def)
next
  case (OpQuiesce b)
  with assms(4,5) show ?thesis
    by (auto simp: stranded_def)
qed

lemma round_strands:
  assumes "mgr_inv st" "s_free (mgr_latch st)" "find_edu i st = Some p" "cb_heap st p = Some cb"
    and "edu_view st i = Some (True, s)" "cb_waitEvent 1000 wakes cb = Ret (ev, cb')"
    and "\<And>e. ev = Some e \<Longrightarrow> eventType e \<noteq> PMD_EDU_EVENT_RESUME"
    and "s \<noteq> PMD_EDU_IDLE \<or> (\<exists>e. ev = Some e \<and> eventType e \<noteq> PMD_EDU_EVENT_TERM)" "\<not> th_destroyed th"
  shows "\<exists>th' st'. entry_round t maxPool reg entry i p wakes (th, st, db) = Ret (th', st', db) \<and>
     \<not> th_destroyed th' \<and> mgr_inv st' \<and> mgr_latch st' = mgr_latch st \<and> stranded i st'"
proof -
  obtain st1 where st1: "mgr_inv st1" "same_rest st st1"
      "edu_view st1 = (edu_view st)(i := map_option (\<lambda>(b, s). (b, wait_status s ev)) (edu_view st i))"
      "if ev = None \<and> \<not> cb_forced cb then entry_round t maxPool reg entry i p wakes (th, st, db) = Ret (th, st1, db)
     else \<exists>event. entry_round t maxPool reg entry i p wakes (th, st, db) =
       bnd (returnEDU t maxPool i (th_forced th \<or> ev = None) st1) (\<lambda>((rc, gone), st3).
         Ret (\<lparr>th_event = event, th_forced = (th_forced th \<or> ev = None), th_destroyed = gone\<rparr>, st3, db))"
    using entry_round_plain [OF assms(1-4,6,7), of t maxPool reg entry th db] by metis
  have "wait_status s ev \<noteq> PMD_EDU_IDLE"
    using assms(8) by (auto simp: wait_status.simps split: option.split)
  then have s1: "stranded i st1"
    using assms(5) by (simp add: st1(3) stranded_def)
  have l1: "s_free (mgr_latch st1)" "mgr_latch st1 = mgr_latch st" "i \<in> alive st1"
    using st1(2) assms(2) s1 by (auto simp: same_rest_def alive_def stranded_def)
  show ?thesis
  proof (cases "ev = None \<and> \<not> cb_forced cb")
    case True
    with st1 s1 l1 assms(9) show ?thesis
      by simp
  next
    case False
    let ?f = "th_forced th \<or> ev = None"
    obtain event where e: "entry_round t maxPool reg entry i p wakes (th, st, db) =
        bnd (returnEDU t maxPool i ?f st1) (\<lambda>((rc, gone), st3).
          Ret (\<lparr>th_event = event, th_forced = ?f, th_destroyed = gone\<rparr>, st3, db))"
      using False st1(4) by auto
    obtain rc gone st3 where r: "returnEDU t maxPool i ?f st1 = Ret ((rc, gone), st3)" "mgr_inv st3" "mgr_latch st3 = mgr_latch st1"
      using returnEDU_result [OF st1(1) l1(1,3), of t maxPool ?f] by auto
    have "stranded i st3 \<and> \<not> gone"
      using return_stranded [OF st1(1) l1(1) s1 r(1)] by simp
    with e r l1 show ?thesis
      by simp
  qed
qed

text \<open>Then the two loops of \<open>_destroyAll\<close> do not end.\<close>

lemma getEDUCount_result:
  assumes "s_free (mgr_latch st)"
  shows "getEDUCount t property st = Ret (u32_add (length (filter (\<lambda>e. in_property property (fst e) st) (runQueue st)))
       (if EDU_USER AND property \<noteq> 0 then length (idleQueue st) else 0), st)"
  unfolding getEDUCount_def by (rule shared_Ret [OF assms]) simp_all

definition small_pool :: "pmdEDUMgr \<Rightarrow> bool" where
  "small_pool st \<longleftrightarrow> length (runQueue st) + length (idleQueue st) < 4294967296"

lemma count_stranded:
  assumes "mgr_inv st" "s_free (mgr_latch st)" "stranded i st" "small_pool st"
  shows "\<exists>n. getEDUCount t EDU_USER st = Ret (n, st) \<and> n \<noteq> 0"
proof -
  have "idleQueue st \<noteq> []"
    using assms(3) by (auto simp: stranded_def edu_view_def split: option.splits)
  moreover have "length (filter (\<lambda>e. in_property EDU_USER (fst e) st) (runQueue st)) + length (idleQueue st) < 4294967296"
    using assms(4) length_filter_le [of "\<lambda>e. in_property EDU_USER (fst e) st" "runQueue st"]
    unfolding small_pool_def by linarith
  ultimately show ?thesis
    by (simp add: getEDUCount_result [OF assms(2)] u32_add_small EDU_USER_def)
qed

lemma drain_stranded:
  assumes "\<forall>s \<in> set (st # later). mgr_inv s \<and> s_free (mgr_latch s) \<and> stranded i s \<and> small_pool s"
  shows "drain_loop t EDU_USER n later st = Wait"
  using assms
proof (induction later arbitrary: n st)
  case Nil
  then obtain k where "getEDUCount t EDU_USER st = Ret (k, st)" "k \<noteq> 0"
    using count_stranded [of st i t] by auto
  then show ?case
    using Nil forceEDUs_result [of st t EDU_USER] by simp
next
  case (Cons s later)
  then obtain k where "getEDUCount t EDU_USER st = Ret (k, st)" "k \<noteq> 0"
    using count_stranded [of st i t] by auto
  then show ?case
    using Cons forceEDUs_result [of st t EDU_USER] by simp
qed

lemma destroyAll_stranded:
  assumes "\<forall>s \<in> set (st # later). mgr_inv s \<and> s_free (mgr_latch s) \<and> stranded i s \<and> small_pool s"
  shows "destroyAll t later st = Wait"
proof -
  let ?s = "st\<lparr>isDestroyed := True, isQuiesced := True\<rparr>"
  have f: "find_edu j ?s = find_edu j st" for j
    by (simp add: find_edu_def split: option.split)
  have "edu_view ?s = edu_view st"
    by (simp add: edu_view_def fun_eq_iff split: option.split)
  then have "stranded i ?s" "small_pool ?s"
    using assms by (simp_all add: stranded_def small_pool_def)
  moreover have "mgr_inv ?s"
    using assms unfolding mgr_inv_def f by simp
  ultimately have "drain_loop t EDU_USER 0 later ?s = Wait"
    using assms by (intro drain_stranded [of _ _ i]) simp
  then show ?thesis
    by (simp add: destroyAll_def)
qed

end
