(* ===== verification/Rtn.thy ===== *)
theory Rtn
  imports DmsFile
begin

text \<open>
  The runtime component (\<open>rtn/rtn.cpp\<close>): the data file behind the operations the agents call.  A
  look-up and a removal return \<open>EDB_OK\<close> and do nothing.
\<close>

record rtn =
  rtn_dms :: "dmsFile option"

definition rtn_new :: rtn where
  "rtn_new = \<lparr>rtn_dms = None\<rparr>"

text \<open>A data file as its constructors leave it, over the bytes that are on the disk.\<close>

definition dmsFile_new :: "nat \<Rightarrow> mem \<Rightarrow> mem \<Rightarrow> dmsFile" where
  "dmsFile_new sz disk m = \<lparr>fhandle = - 1, bIsStdout = False, fsize = sz, fbytes = disk, foffset = 0,
     mlatch = x_init, opened = False, segments = [], vmem = m, header = None, body = [],
     freeSpaceMap = [], dlatch = s_init, extendMutex = x_init\<rparr>"

text \<open>What the calls of \<open>initialize\<close> meet: memory, the disk, and the answers of the system.\<close>

record rtn_env =
  re_alloc :: bool
  re_file :: dmsFile
  re_dup :: bool
  re_opens :: "(int \<times> int) list"
  re_tries :: "(int option \<times> ext_env) list"
  re_header :: "int option \<times> (nat + int)"
  re_maps :: "nat \<Rightarrow> int option \<times> (nat + int)"

definition rtnInitialize :: "tid \<Rightarrow> rtn_env \<Rightarrow> rtn \<Rightarrow> (int \<times> rtn) res" where
  "rtnInitialize t env r = (if \<not> re_alloc env then Ret (EDB_OOM, r\<lparr>rtn_dms := None\<rparr>) else
     bnd (dms_initialize t (re_dup env) (re_opens env) (re_tries env) (re_header env) (re_maps env) (re_file env))
       (\<lambda>(rc, d). Ret (rc, r\<lparr>rtn_dms := Some d\<rparr>)))"

text \<open>
  \<open>rtnInsert\<close> keeps only the code of the insertion; \<open>None\<close> when the storage does not return.  The
  data file keeps its changes when the insertion throws.
\<close>

definition rtnInsert :: "tid \<Rightarrow> BSONObj \<Rightarrow> retry_event list \<Rightarrow> rtn \<Rightarrow> (int res \<times> rtn) option" where
  "rtnInsert t record evs r = (case rtn_dms r of None \<Rightarrow> Some (Stuck, r)
     | Some d \<Rightarrow> (case dms_insert t record evs d of None \<Rightarrow> None
         | Some (x, d') \<Rightarrow> Some (bnd x (\<lambda>(rc, _). Ret rc), r\<lparr>rtn_dms := Some d'\<rparr>)))"

definition rtnFind :: "BSONObj \<Rightarrow> rtn \<Rightarrow> int \<times> rtn" where
  "rtnFind record r = (EDB_OK, r)"

definition rtnRemove :: "BSONObj \<Rightarrow> rtn \<Rightarrow> int \<times> rtn" where
  "rtnRemove record r = (EDB_OK, r)"

end
