(* ===== verification/PmdKrcb.thy ===== *)
theory PmdKrcb
  imports PmdEntry Rtn
begin

text \<open>
  Start and stop of the server: the options of \<open>pmd/pmdOptions.cpp\<close>, the control block
  \<open>EDB_KRCB\<close> of \<open>include/pmd.hpp\<close>, and the signal handler and master thread of \<open>pmd/pmdMain.cpp\<close>.
  What \<open>boost::program_options\<close> makes of the arguments and of the configuration file is an
  argument: the options it found, or the exception it throws.
\<close>

section \<open>Character arrays\<close>

definition OSS_MAX_PATHSIZE :: nat where "OSS_MAX_PATHSIZE = 4096"

definition NI_MAXSERV :: nat where "NI_MAXSERV = 32"

definition c_str :: "string \<Rightarrow> u8 list" where
  "c_str s = map of_char s"

text \<open>\<open>strncpy\<close> pads with zeros, and writes no zero when the text is too long; \<open>strcpy\<close> of a literal.\<close>

definition c_strncpy :: "u8 list \<Rightarrow> u8 list \<Rightarrow> nat \<Rightarrow> u8 list" where
  "c_strncpy dst src n = take n (c_prefix src @ replicate n 0) @ drop n dst"

definition c_strcpy :: "u8 list \<Rightarrow> u8 list \<Rightarrow> u8 list" where
  "c_strcpy dst src = src @ [0] @ drop (length src + 1) dst"

section \<open>Options\<close>

text \<open>The options declared by \<open>PMD_COMMANDS_OPTIONS\<close>, as far as they were given.\<close>

record variables_map =
  vm_help :: bool
  vm_dbpath :: "u8 list option"
  vm_svcname :: "u8 list option"
  vm_maxpool :: "nat option"
  vm_logpath :: "u8 list option"
  vm_confpath :: "u8 list option"

definition vm_empty :: variables_map where
  "vm_empty = \<lparr>vm_help = False, vm_dbpath = None, vm_svcname = None, vm_maxpool = None, vm_logpath = None, vm_confpath = None\<rparr>"

datatype po_exception = Po_reading_file | Po_unknown_option | Po_invalid_option_value | Po_error

type_synonym po_result = "po_exception + variables_map"

record pmdOptions =
  po_dbPath :: "u8 list"
  po_logPath :: "u8 list"
  po_confPath :: "u8 list"
  po_svcName :: "u8 list"
  po_maxPool :: int

definition CONFFILENAME :: string where "CONFFILENAME = ''edb.conf''"
definition LOGFILENAME :: string where "LOGFILENAME = ''diag.log''"
definition DBFILENAME :: string where "DBFILENAME = ''edb.data''"
definition SVCNAME :: string where "SVCNAME = ''48127''"
definition NUMPOOL :: int where "NUMPOOL = 5"

definition options_new :: pmdOptions where
  "options_new = \<lparr>po_dbPath = replicate (OSS_MAX_PATHSIZE + 1) 0, po_logPath = replicate (OSS_MAX_PATHSIZE + 1) 0,
     po_confPath = replicate (OSS_MAX_PATHSIZE + 1) 0, po_svcName = replicate (NI_MAXSERV + 1) 0, po_maxPool = NUMPOOL\<rparr>"

definition readCmd :: "po_result \<Rightarrow> int \<times> variables_map" where
  "readCmd parsed = (case parsed of Inr vm \<Rightarrow> (EDB_OK, vm) | Inl _ \<Rightarrow> (EDB_INVALIDARG, vm_empty))"

text \<open>One text option: the given value cut to the array, else the default, else no change.\<close>

definition import_text :: "u8 list option \<Rightarrow> bool \<Rightarrow> string \<Rightarrow> nat \<Rightarrow> u8 list \<Rightarrow> u8 list" where
  "import_text given isDefault dflt n dst = (case given of Some p \<Rightarrow> c_strncpy dst p n
     | None \<Rightarrow> if isDefault then c_strcpy dst (c_str dflt) else dst)"

definition importVM :: "variables_map \<Rightarrow> bool \<Rightarrow> pmdOptions \<Rightarrow> int \<times> pmdOptions" where
  "importVM vm isDefault o1 = (EDB_OK, o1\<lparr>
     po_confPath := import_text (vm_confpath vm) isDefault (''./'' @ CONFFILENAME) OSS_MAX_PATHSIZE (po_confPath o1),
     po_logPath := import_text (vm_logpath vm) isDefault (''./'' @ LOGFILENAME) OSS_MAX_PATHSIZE (po_logPath o1),
     po_dbPath := import_text (vm_dbpath vm) isDefault (''./'' @ DBFILENAME) OSS_MAX_PATHSIZE (po_dbPath o1),
     po_svcName := import_text (vm_svcname vm) isDefault SVCNAME NI_MAXSERV (po_svcName o1),
     po_maxPool := (case vm_maxpool vm of Some n \<Rightarrow> s32 (n mod 4294967296) | None \<Rightarrow> if isDefault then NUMPOOL else po_maxPool o1)\<rparr>)"

definition readConfigureFile :: "(u8 list \<Rightarrow> po_result) \<Rightarrow> u8 list \<Rightarrow> int \<times> variables_map" where
  "readConfigureFile parse_config_file path = (
     let conf = c_prefix (c_strncpy (replicate (OSS_MAX_PATHSIZE + 1) 0) path OSS_MAX_PATHSIZE) in
     case parse_config_file conf of Inr vm \<Rightarrow> (EDB_OK, vm)
     | Inl Po_reading_file \<Rightarrow> (EDB_IO, vm_empty) | Inl _ \<Rightarrow> (EDB_INVALIDARG, vm_empty))"

definition options_init :: "po_result \<Rightarrow> (u8 list \<Rightarrow> po_result) \<Rightarrow> pmdOptions \<Rightarrow> int \<times> pmdOptions" where
  "options_init cmdline parse_config_file o1 = (let (rc, vm) = readCmd cmdline in
     if rc \<noteq> 0 then (rc, o1) else
     if vm_help vm then (EDB_PMD_HELP_ONLY, o1) else
     let (rc, vm2) = (case vm_confpath vm of Some p \<Rightarrow> readConfigureFile parse_config_file (c_prefix p) | None \<Rightarrow> (EDB_OK, vm_empty)) in
     if rc \<noteq> 0 then (rc, o1) else
     let (rc, o2) = importVM vm2 True o1 in
     if rc \<noteq> 0 then (rc, o2) else importVM vm True o2)"

section \<open>The control block\<close>

text \<open>\<open>kr_diagPath\<close> is the global \<open>_pdDiagLogPath\<close>, which \<open>init\<close> sets.\<close>

record EDB_KRCB =
  kr_dataFilePath :: "u8 list"
  kr_logFilePath :: "u8 list"
  kr_maxPool :: int
  kr_svcName :: "u8 list"
  kr_dbStatus :: EDB_DB_STATUS
  kr_eduMgr :: pmdEDUMgr
  kr_rtnMgr :: rtn
  kr_diagPath :: "u8 list"

definition krcb_new :: EDB_KRCB where
  "krcb_new = \<lparr>kr_dataFilePath = replicate (OSS_MAX_PATHSIZE + 1) 0, kr_logFilePath = replicate (OSS_MAX_PATHSIZE + 1) 0,
     kr_maxPool = 0, kr_svcName = replicate (NI_MAXSERV + 1) 0, kr_dbStatus = EDB_DB_NORMAL,
     kr_eduMgr = mgr_init, kr_rtnMgr = rtn_new, kr_diagPath = replicate (OSS_MAX_PATHSIZE + 1) 0\<rparr>"

definition setDBStatus :: "EDB_DB_STATUS \<Rightarrow> EDB_KRCB \<Rightarrow> EDB_KRCB" where
  "setDBStatus s k = k\<lparr>kr_dbStatus := s\<rparr>"

definition setDataFilePath :: "u8 list \<Rightarrow> EDB_KRCB \<Rightarrow> EDB_KRCB" where
  "setDataFilePath p k = k\<lparr>kr_dataFilePath := c_strncpy (kr_dataFilePath k) p (OSS_MAX_PATHSIZE + 1)\<rparr>"

definition setLogFilePath :: "u8 list \<Rightarrow> EDB_KRCB \<Rightarrow> EDB_KRCB" where
  "setLogFilePath p k = k\<lparr>kr_logFilePath := c_strncpy (kr_logFilePath k) p (OSS_MAX_PATHSIZE + 1)\<rparr>"

definition setSvcName :: "u8 list \<Rightarrow> EDB_KRCB \<Rightarrow> EDB_KRCB" where
  "setSvcName p k = k\<lparr>kr_svcName := c_strncpy (kr_svcName k) p (NI_MAXSERV + 1)\<rparr>"

definition setMaxPool :: "int \<Rightarrow> EDB_KRCB \<Rightarrow> EDB_KRCB" where
  "setMaxPool n k = k\<lparr>kr_maxPool := n\<rparr>"

definition krcb_init :: "tid \<Rightarrow> rtn_env \<Rightarrow> pmdOptions \<Rightarrow> EDB_KRCB \<Rightarrow> (int \<times> EDB_KRCB) res" where
  "krcb_init t env o1 k0 = (let
     k1 = setLogFilePath (po_logPath o1) (setDataFilePath (po_dbPath o1) (setDBStatus EDB_DB_NORMAL k0));
     k2 = k1\<lparr>kr_diagPath := c_strncpy (kr_diagPath k1) (kr_logFilePath k1) (OSS_MAX_PATHSIZE + 1)\<rparr>;
     k3 = setMaxPool (po_maxPool o1) (setSvcName (po_svcName o1) k2) in
     bnd (rtnInitialize t env (kr_rtnMgr k3)) (\<lambda>(rc, r). Ret (rc, k3\<lparr>kr_rtnMgr := r\<rparr>)))"

section \<open>Signals\<close>

text \<open>\<open>signalHandleMap\<close>: the numbers whose entry asks for a shutdown are the ones with a 1.\<close>

definition PMD_MAX_SIGNALS :: int where "PMD_MAX_SIGNALS = 64"

definition signal_handles :: "(string \<times> nat) list" where
  "signal_handles = [(''Unknow'', 0),
     (''SIGHUP'', 1), (''SIGINT'', 1), (''SIGQUIT'', 1), (''SIGILL'', 1), (''SIGTRAP'', 1), (''SIGABRT'', 1),
     (''SIGBUS'', 1), (''SIGFPE'', 1), (''SIGKILL'', 1), (''SIGUSR1'', 0), (''SIGSEGV'', 1), (''SIGUSR2'', 0),
     (''SIGPIPE'', 1), (''SIGALRM'', 0), (''SIGTERM'', 1), (''SIGSTKFLT'', 0), (''SIGCHLD'', 0), (''SIGCONT'', 0),
     (''SIGSTOP'', 1), (''SIGTSTP'', 0), (''SIGTTIN'', 0), (''SIGTTOU'', 0), (''SIGURG'', 0), (''SIGXCPU'', 0),
     (''SIGXFSZ'', 0), (''SIGVTALRM'', 0), (''SIGPROF'', 0), (''SIGWINCH'', 0), (''SIGIO'', 0), (''SIGPWR'', 1),
     (''SIGSYS'', 1), (''UNKNOW'', 0), (''UNKNOW'', 0), (''SIGRTMIN'', 0), (''SIGRTMIN+1'', 0), (''SIGRTMIN+2'', 0),
     (''SIGRTMIN+3'', 0), (''SIGRTMIN+4'', 0), (''SIGTTMIN+5'', 0), (''SIGRTMIN+6'', 0), (''SIGRTMIN+7'', 0),
     (''SIGTTMIN+8'', 0), (''SIGRTMIN+9'', 0), (''SIGRTMIN+10'', 0), (''SIGRTMIN+11'', 0), (''SIGRTMIN+12'', 0),
     (''SIGRTMIN+13'', 0), (''SIGRTMIN+14'', 0), (''SIGRTMIN+15'', 0), (''SIGRTMAX-14'', 0), (''SIGRTMAX-13'', 0),
     (''SIGRTMAX-12'', 0), (''SIGRTMAX-11'', 0), (''SIGRTMAX-10'', 0), (''SIGRTMAX-9'', 0), (''SIGRTMAX-8'', 0),
     (''SIGRTMAX-7'', 0), (''SIGRTMAX-6'', 0), (''SIGRTMAX-5'', 0), (''SIGRTMAX-4'', 0), (''SIGRTMAX-3'', 0),
     (''SIGRTMAX-2'', 0), (''SIGRTMAX-1'', 0), (''SIGRTMAX'', 0)]"

definition pmdSignalHandler :: "int \<Rightarrow> EDB_KRCB \<Rightarrow> EDB_KRCB" where
  "pmdSignalHandler sigNum k = (if sigNum > 0 \<and> sigNum \<le> PMD_MAX_SIGNALS
     then (if snd (signal_handles ! nat sigNum) \<noteq> 0 then setDBStatus EDB_DB_SHUTDOWN k else k) else k)"

text \<open>
  \<open>pmdSetupSignalHandler\<close> asks for the handler for each number; the answers of \<open>sigaction\<close> are
  ignored (\<open>SIGKILL\<close> and \<open>SIGSTOP\<close> cannot be caught).  The result is the numbers it asked for.
\<close>

definition pmdSetupSignalHandler :: "int \<times> int list" where
  "pmdSetupSignalHandler = (EDB_OK, map (\<lambda>i. i + 1) [0..PMD_MAX_SIGNALS - 1])"

section \<open>The master thread\<close>

definition pmdResolveArguments :: "tid \<Rightarrow> po_result \<Rightarrow> (u8 list \<Rightarrow> po_result) \<Rightarrow> rtn_env \<Rightarrow> EDB_KRCB \<Rightarrow> (int \<times> EDB_KRCB) res" where
  "pmdResolveArguments t cmdline parse_config_file env k = (let (rc, o1) = options_init cmdline parse_config_file options_new in
     if rc \<noteq> 0 then Ret (rc, k) else krcb_init t env o1 k)"

text \<open>
  The loop that waits for the end: in each second the signals of that second arrive.  The code of
  \<open>startEDU\<close> is not looked at, so a server without a listener waits as well.
\<close>

fun master_loop :: "int list list \<Rightarrow> EDB_KRCB \<Rightarrow> EDB_KRCB res" where
  "master_loop seconds k = (if EDB_IS_DB_DOWN (kr_dbStatus k) then Ret k else
     case seconds of [] \<Rightarrow> Wait | sigs # rest \<Rightarrow> master_loop rest (fold pmdSignalHandler sigs k))"

declare master_loop.simps [simp del]

definition pmdMasterThreadMain :: "tid \<Rightarrow> po_result \<Rightarrow> (u8 list \<Rightarrow> po_result) \<Rightarrow> rtn_env \<Rightarrow> bool \<Rightarrow> bool \<Rightarrow> int list list \<Rightarrow>
    EDB_KRCB \<Rightarrow> (int \<times> EDB_KRCB) res" where
  "pmdMasterThreadMain t cmdline parse_config_file env alloc thread seconds k =
     (if fst pmdSetupSignalHandler \<noteq> 0 then Ret (fst pmdSetupSignalHandler, k) else
      bnd (pmdResolveArguments t cmdline parse_config_file env k) (\<lambda>(rc, k).
      if rc \<noteq> 0 then Ret (rc, k) else
      bnd (startEDU t alloc thread EDU_TYPE_TCPLISTENER 0 (kr_eduMgr k)) (\<lambda>(_, st).
      bnd (master_loop seconds (k\<lparr>kr_eduMgr := st\<rparr>)) (\<lambda>k. Ret (rc, k)))))"

section \<open>What the options come to\<close>

text \<open>An array of \<open>n + 1\<close> bytes that ends in a zero, and the text in it.\<close>

definition arr_ok :: "nat \<Rightarrow> u8 list \<Rightarrow> bool" where
  "arr_ok n a \<longleftrightarrow> length a = n + 1 \<and> a ! n = 0"

lemma c_prefix_nonzero: "0 \<notin> set (c_prefix s)"
  by (auto simp: c_prefix_def dest: set_takeWhileD)

lemma c_prefix_append: "0 \<notin> set s \<Longrightarrow> c_prefix (s @ 0 # rest) = s"
  by (induction s) (auto simp: c_prefix_def)

lemma c_prefix_prefix [simp]: "c_prefix (c_prefix s) = c_prefix s"
  by (simp add: c_prefix_def)

lemma arr_split: "arr_ok n a \<Longrightarrow> drop n a = [0]"
  by (simp add: arr_ok_def Cons_nth_drop_Suc [symmetric])

lemma c_strncpy_ok:
  assumes "arr_ok n dst"
  shows "arr_ok n (c_strncpy dst src n)" "c_prefix (c_strncpy dst src n) = take n (c_prefix src)"
proof -
  let ?s = "take n (c_prefix src)"
  have e: "c_strncpy dst src n = ?s @ replicate (n - length (c_prefix src)) 0 @ [0]"
    by (simp add: c_strncpy_def arr_split [OF assms])
  show "arr_ok n (c_strncpy dst src n)"
    unfolding e arr_ok_def by (cases "length (c_prefix src) \<le> n") (simp_all add: nth_append min_absorb1 min_absorb2)
  have "0 \<notin> set ?s"
    using c_prefix_nonzero [of src] by (auto dest: in_set_takeD)
  then have "c_prefix (?s @ 0 # rest) = ?s" for rest
    by (rule c_prefix_append)
  then show "c_prefix (c_strncpy dst src n) = ?s"
    unfolding e by (cases "n - length (c_prefix src)") simp_all
qed

lemma c_strcpy_ok:
  assumes "arr_ok n dst" "length src \<le> n" "0 \<notin> set src"
  shows "arr_ok n (c_strcpy dst src)" "c_prefix (c_strcpy dst src) = src"
proof -
  show "arr_ok n (c_strcpy dst src)"
    using assms(1,2) by (cases "length src = n") (auto simp: c_strcpy_def arr_ok_def nth_append)
  show "c_prefix (c_strcpy dst src) = src"
    using c_prefix_append [OF assms(3)] by (simp add: c_strcpy_def)
qed

definition chosen :: "u8 list option \<Rightarrow> nat \<Rightarrow> string \<Rightarrow> u8 list" where
  "chosen given n dflt = (case given of Some p \<Rightarrow> take n (c_prefix p) | None \<Rightarrow> c_str dflt)"

lemma import_text_ok:
  assumes "arr_ok n dst" "length (c_str dflt) \<le> n" "0 \<notin> set (c_str dflt)"
  shows "arr_ok n (import_text given True dflt n dst)" "c_prefix (import_text given True dflt n dst) = chosen given n dflt"
  using c_strncpy_ok [OF assms(1)] c_strcpy_ok [OF assms] by (simp_all add: import_text_def chosen_def split: option.split)

text \<open>The options as the rest of the server reads them.\<close>

definition options_view :: "pmdOptions \<Rightarrow> u8 list \<times> u8 list \<times> u8 list \<times> u8 list \<times> int" where
  "options_view o1 = (c_prefix (po_dbPath o1), c_prefix (po_logPath o1), c_prefix (po_confPath o1), c_prefix (po_svcName o1), po_maxPool o1)"

definition options_ok :: "pmdOptions \<Rightarrow> bool" where
  "options_ok o1 \<longleftrightarrow> arr_ok OSS_MAX_PATHSIZE (po_dbPath o1) \<and> arr_ok OSS_MAX_PATHSIZE (po_logPath o1) \<and>
     arr_ok OSS_MAX_PATHSIZE (po_confPath o1) \<and> arr_ok NI_MAXSERV (po_svcName o1)"

definition vm_view :: "variables_map \<Rightarrow> u8 list \<times> u8 list \<times> u8 list \<times> u8 list \<times> int" where
  "vm_view vm = (chosen (vm_dbpath vm) OSS_MAX_PATHSIZE ''./edb.data'', chosen (vm_logpath vm) OSS_MAX_PATHSIZE ''./diag.log'',
     chosen (vm_confpath vm) OSS_MAX_PATHSIZE ''./edb.conf'', chosen (vm_svcname vm) NI_MAXSERV ''48127'',
     case vm_maxpool vm of Some n \<Rightarrow> s32 (n mod 4294967296) | None \<Rightarrow> 5)"

lemma options_new_ok: "options_ok options_new"
  by (simp add: options_new_def options_ok_def arr_ok_def nth_append del: replicate_Suc)

lemma dflt_texts:
  "length (c_str ''./edb.conf'') \<le> OSS_MAX_PATHSIZE" "0 \<notin> set (c_str ''./edb.conf'')"
  "length (c_str ''./diag.log'') \<le> OSS_MAX_PATHSIZE" "0 \<notin> set (c_str ''./diag.log'')"
  "length (c_str ''./edb.data'') \<le> OSS_MAX_PATHSIZE" "0 \<notin> set (c_str ''./edb.data'')"
  "length (c_str ''48127'') \<le> NI_MAXSERV" "0 \<notin> set (c_str ''48127'')"
  by (simp_all add: c_str_def OSS_MAX_PATHSIZE_def NI_MAXSERV_def)

lemma importVM_ok:
  assumes "options_ok o1"
  shows "fst (importVM vm True o1) = EDB_OK" "options_ok (snd (importVM vm True o1))"
    "options_view (snd (importVM vm True o1)) = vm_view vm"
  using assms import_text_ok dflt_texts
  by (simp_all add: importVM_def options_ok_def options_view_def vm_view_def CONFFILENAME_def LOGFILENAME_def
      DBFILENAME_def SVCNAME_def NUMPOOL_def split: option.split)

lemma options_init_view:
  assumes "\<not> vm_help vm" "case vm_confpath vm of None \<Rightarrow> True | Some p \<Rightarrow> \<exists>vm2. parse (take OSS_MAX_PATHSIZE (c_prefix p)) = Inr vm2"
  shows "fst (options_init (Inr vm) parse options_new) = EDB_OK \<and>
    options_view (snd (options_init (Inr vm) parse options_new)) = vm_view vm"
proof -
  have arr: "arr_ok OSS_MAX_PATHSIZE (replicate (OSS_MAX_PATHSIZE + 1) 0)"
    by (simp add: arr_ok_def nth_append del: replicate_Suc)
  have "\<exists>vm2. options_init (Inr vm) parse options_new = importVM vm True (snd (importVM vm2 True options_new))"
  proof (cases "vm_confpath vm")
    case None
    then show ?thesis
      using assms(1) importVM_ok(1) [OF options_new_ok]
      by (intro exI [of _ vm_empty]) (simp add: options_init_def readCmd_def split_def Let_def edb_codes)
  next
    case (Some p)
    then obtain vm2 where "parse (take OSS_MAX_PATHSIZE (c_prefix p)) = Inr vm2"
      using assms(2) by auto
    with Some show ?thesis
      using assms(1) importVM_ok(1) [OF options_new_ok] c_strncpy_ok(2) [OF arr]
      by (intro exI [of _ vm2]) (simp add: options_init_def readCmd_def readConfigureFile_def split_def Let_def edb_codes)
  qed
  then show ?thesis
    using importVM_ok(2) [OF options_new_ok] importVM_ok(1,3) by metis
qed

lemma options_init_errors:
  "options_init (Inl e) parse o1 = (EDB_INVALIDARG, o1)"
  "vm_help vm \<Longrightarrow> options_init (Inr vm) parse o1 = (EDB_PMD_HELP_ONLY, o1)"
  "\<not> vm_help vm \<Longrightarrow> vm_confpath vm = Some p \<Longrightarrow> parse (take OSS_MAX_PATHSIZE (c_prefix p)) = Inl Po_reading_file \<Longrightarrow>
     options_init (Inr vm) parse o1 = (EDB_IO, o1)"
proof -
  have arr: "arr_ok OSS_MAX_PATHSIZE (replicate (OSS_MAX_PATHSIZE + 1) 0)"
    by (simp add: arr_ok_def nth_append del: replicate_Suc)
  show "options_init (Inl e) parse o1 = (EDB_INVALIDARG, o1)"
    "vm_help vm \<Longrightarrow> options_init (Inr vm) parse o1 = (EDB_PMD_HELP_ONLY, o1)"
    by (simp_all add: options_init_def readCmd_def edb_codes)
  show "\<not> vm_help vm \<Longrightarrow> vm_confpath vm = Some p \<Longrightarrow> parse (take OSS_MAX_PATHSIZE (c_prefix p)) = Inl Po_reading_file \<Longrightarrow>
     options_init (Inr vm) parse o1 = (EDB_IO, o1)"
    using c_strncpy_ok(2) [OF arr] by (simp add: options_init_def readCmd_def readConfigureFile_def Let_def edb_codes)
qed

section \<open>Signals and the master thread\<close>

definition shutdown_signals :: "int set" where
  "shutdown_signals = {1, 2, 3, 4, 5, 6, 7, 8, 9, 11, 13, 15, 19, 30, 31}"

lemma handled_table: "\<forall>n \<in> set [0..<65]. snd (signal_handles ! n) \<noteq> 0 \<longleftrightarrow> int n \<in> shutdown_signals"
  by code_simp

lemma handled_signal:
  "pmdSignalHandler sig k = (if sig \<in> shutdown_signals then setDBStatus EDB_DB_SHUTDOWN k else k)"
proof (cases "0 < sig \<and> sig \<le> 64")
  case True
  then have "nat sig \<in> set [0..<65]" "int (nat sig) = sig"
    by auto
  with bspec [OF handled_table this(1)] have "(snd (signal_handles ! nat sig) \<noteq> 0) = (sig \<in> shutdown_signals)"
    by (simp only:)
  with True show ?thesis
    unfolding pmdSignalHandler_def PMD_MAX_SIGNALS_def by presburger
next
  case False
  moreover from this have "sig \<notin> shutdown_signals"
    by (auto simp: shutdown_signals_def)
  ultimately show ?thesis
    unfolding pmdSignalHandler_def PMD_MAX_SIGNALS_def by presburger
qed

lemma fold_signals:
  "kr_dbStatus (fold pmdSignalHandler sigs k) = (if set sigs \<inter> shutdown_signals = {} then kr_dbStatus k else EDB_DB_SHUTDOWN)"
proof (induction sigs arbitrary: k)
  case (Cons sig sigs)
  then show ?case
    by (simp add: handled_signal setDBStatus_def)
qed simp

lemma master_ends:
  "EDB_IS_DB_DOWN (kr_dbStatus k) \<or> (\<exists>sigs \<in> set seconds. set sigs \<inter> shutdown_signals \<noteq> {}) \<longleftrightarrow> master_loop seconds k \<noteq> Wait"
proof (induction seconds arbitrary: k)
  case Nil
  then show ?case
    by (simp add: master_loop.simps)
next
  case (Cons sigs seconds)
  show ?case
    using Cons [of "fold pmdSignalHandler sigs k"] fold_signals [of sigs k]
    by (subst master_loop.simps, cases "set sigs \<inter> shutdown_signals = {}") (auto simp add: EDB_IS_DB_DOWN_def)
qed

lemma master_loop_down: "master_loop seconds k = Ret k' \<Longrightarrow> EDB_IS_DB_DOWN (kr_dbStatus k')"
  by (induction seconds k rule: master_loop.induct) (subst (asm) (2) master_loop.simps, auto split: list.splits if_splits)

end
