(* ===== verification/PmdAgent.thy ===== *)
theory PmdAgent
  imports PmdKrcb MsgSpec BsonBuildSpec OssSocket
begin

text \<open>
  The agent of a connection, \<open>pmd/pmdAgent.cpp\<close>: one request served on the storage
  (\<open>pmdProcessAgentRequest\<close>), and the loop that receives a packet, serves it and sends the reply
  (\<open>pmdAgentEntryPoint\<close>).  The text of a document in the log (\<open>toString\<close>) is an argument: it only
  matters whether it returns.
\<close>

section \<open>One request\<close>

record request_env =
  rq_toString :: "BSONObj \<Rightarrow> unit run"
  rq_retry :: "retry_event list"
  rq_oom :: bool
  rq_room :: "u8 list"
  rq_realloc :: realloc_env

text \<open>\<open>catch(std::exception)\<close>, in all its places.\<close>

fun caught :: "int res \<Rightarrow> int res" where
  "caught (Raise n) = Ret EDB_INVALIDARG"
| "caught r = r"

text \<open>The document of an INSERT, up to the call of the storage: an error, or the document.\<close>

definition insert_check :: "request_env \<Rightarrow> buf \<Rightarrow> (int + BSONObj) run" where
  "insert_check env b = obnd (Some (msgExtractInsert b)) (\<lambda>c. case c of
     Inl rc \<Rightarrow> Some (Ret (Inl EDB_INVALIDARG))
   | Inr (recordNum, p) \<Rightarrow> (case p of
       None \<Rightarrow> Some Stuck
     | Some q \<Rightarrow> obnd (Some (obj_init q)) (\<lambda>insertor. obnd (rq_toString env insertor) (\<lambda>_.
         Some (bnd (it_of insertor) (\<lambda>it. bnd (it_deref it) (\<lambda>ele. bnd (elem_fieldName ele) (\<lambda>tmp.
         bnd (c_strcmp tmp (str_id @ [0], 0)) (\<lambda>rc. Ret (if rc \<noteq> 0 then Inl EDB_NO_ID else Inr insertor))))))))))"

definition request_insert :: "tid \<Rightarrow> request_env \<Rightarrow> buf \<Rightarrow> rtn \<Rightarrow> (int res \<times> rtn) option" where
  "request_insert t env b r = (case insert_check env b of
     None \<Rightarrow> None
   | Some c \<Rightarrow> (case c of
       Ret (Inr insertor) \<Rightarrow> map_option (\<lambda>(x, r'). (caught x, r')) (rtnInsert t insertor (rq_retry env) r)
     | Ret (Inl rc) \<Rightarrow> Some (Ret rc, r)
     | Raise n \<Rightarrow> Some (Ret EDB_INVALIDARG, r) | Stuck \<Rightarrow> Some (Stuck, r) | Wait \<Rightarrow> Some (Wait, r)))"

text \<open>A QUERY and a DELETE take the key apart in the same way, then call the storage.\<close>

definition request_key :: "request_env \<Rightarrow> buf \<Rightarrow> (BSONObj \<Rightarrow> rtn \<Rightarrow> int \<times> rtn) \<Rightarrow> rtn \<Rightarrow> (int res \<times> rtn) option" where
  "request_key env b call r = (case msgExtractQuery b of
     Ret (Inr recordID) \<Rightarrow> map_option (\<lambda>x. case x of
         Ret _ \<Rightarrow> (case call recordID r of (rc, r') \<Rightarrow> (Ret rc, r'))
       | Raise n \<Rightarrow> (Ret EDB_INVALIDARG, r) | Stuck \<Rightarrow> (Stuck, r) | Wait \<Rightarrow> (Wait, r)) (rq_toString env recordID)
   | Ret (Inl rc) \<Rightarrow> Some (Ret EDB_INVALIDARG, r)
   | Raise n \<Rightarrow> Some (Ret EDB_INVALIDARG, r) | Stuck \<Rightarrow> Some (Stuck, r) | Wait \<Rightarrow> Some (Wait, r))"

definition snapshot_doc :: "request_env \<Rightarrow> BSONObj res" where
  "snapshot_doc env = bnd (ob_new (rq_oom env) (rq_room env) 512) (\<lambda>b.
     bnd (ob_append_cstr (c_str ''hello'') (c_str ''world'' @ [0], 0) b) (\<lambda>b.
     bnd (ob_append_int (c_str ''number'') 1 b) (\<lambda>b.
     bnd (ob_append_int (c_str ''insertTimes'') 100 b) (\<lambda>b.
     bnd (ob_append_int (c_str ''delTimes'') 1000 b) (\<lambda>b.
     bnd (ob_append_int (c_str ''queryTimes'') 2000 b) (\<lambda>b.
     bnd (ob_append_int (c_str ''serverRunTimes'') 100 b) ob_obj))))))"

text \<open>The operation: its code, the document to return, and the storage afterwards.\<close>

definition request_op :: "tid \<Rightarrow> request_env \<Rightarrow> int \<Rightarrow> buf \<Rightarrow> rtn \<Rightarrow> ((int \<times> BSONObj) res \<times> rtn) option" where
  "request_op t env opCode b r = (let plain = map_option (\<lambda>(x, r'). (bnd x (\<lambda>rc. Ret (rc, obj_empty)), r')) in
     if opCode = OP_INSERT then plain (request_insert t env b r)
     else if opCode = OP_QUERY then plain (request_key env b rtnFind r)
     else if opCode = OP_DELETE then plain (request_key env b rtnRemove r)
     else if opCode = OP_SNAPSHOT then (case snapshot_doc env of
         Ret d \<Rightarrow> Some (Ret (EDB_OK, d), r)
       | Raise n \<Rightarrow> Some (Ret (EDB_INVALIDARG, obj_empty), r) | Stuck \<Rightarrow> Some (Stuck, r) | Wait \<Rightarrow> Some (Wait, r))
     else if opCode = OP_COMMAND \<or> opCode = OP_DISCONNECT then Some (Ret (EDB_OK, obj_empty), r)
     else Some (Ret (EDB_INVALIDARG, obj_empty), r))"

text \<open>The code, whether to disconnect, the result buffer; the code of \<open>msgBuildReply\<close> is ignored.\<close>

definition pmdProcessAgentRequest :: "tid \<Rightarrow> request_env \<Rightarrow> buf \<Rightarrow> msg_buffer \<Rightarrow> rtn \<Rightarrow>
    ((int \<times> bool \<times> msg_buffer) res \<times> rtn) option" where
  "pmdProcessAgentRequest t env b mb r = (case bnd (ldi32 b 0) (\<lambda>len. bnd (ldi32 b 4) (\<lambda>op. Ret (len, op))) of
     Ret (messageLength, opCode) \<Rightarrow>
       map_option (\<lambda>(x, r'). (bnd x (\<lambda>(rc, retObj).
           if messageLength \<ge> sizeof_MsgHeader \<and> opCode = OP_DISCONNECT then Ret (rc, True, mb) else
           bnd (msgBuildReply (rq_realloc env) mb rc (if opCode = OP_SNAPSHOT \<or> opCode = OP_QUERY then Some retObj else None))
             (\<lambda>(_, mb'). Ret (rc, False, mb'))), r'))
         (if messageLength < sizeof_MsgHeader then Some (Ret (EDB_INVALIDARG, obj_empty), r)
          else request_op t env opCode b r)
   | Raise n \<Rightarrow> Some (Raise n, r) | Stuck \<Rightarrow> Some (Stuck, r) | Wait \<Rightarrow> Some (Wait, r))"

section \<open>The bytes of \<open>pmdRecv\<close> and \<open>pmdSend\<close>\<close>

fun recv_packet :: "ossSocket \<Rightarrow> int \<Rightarrow> (bool \<times> select_result list \<times> recv_result list) list \<Rightarrow> (int \<times> u8 list) res" where
  "recv_packet s n [] = Wait"
| "recv_packet s n ((forced, sel, calls) # later) = (if forced then Ret (EDB_APP_FORCED, []) else
     bnd (sock_recv s False n sel calls) (\<lambda>(rc, bs). if rc = EDB_TIMEOUT then recv_packet s n later else Ret (rc, bs)))"

fun send_packet :: "cptr \<Rightarrow> int \<Rightarrow> (bool \<times> select_result list \<times> sys_io list) list \<Rightarrow> (int \<times> u8 list) res" where
  "send_packet p n [] = Wait"
| "send_packet p n ((forced, sel, calls) # later) = (if forced then Ret (EDB_APP_FORCED, []) else
     bnd (sock_send p n sel calls) (\<lambda>(rc, out). if rc = EDB_TIMEOUT then send_packet p n later else Ret (rc, out)))"

section \<open>The loop of the agent\<close>

definition PMD_AGENT_RECEIVE_BUFFER_SZ :: int where "PMD_AGENT_RECEIVE_BUFFER_SZ = 4096"
definition EDB_PAGE_SIZE :: int where "EDB_PAGE_SIZE = 4096"

text \<open>In \<open>int\<close>; \<open>%\<close> truncates towards zero.\<close>

definition ossRoundUpToMultipleX :: "int \<Rightarrow> int \<Rightarrow> int" where
  "ossRoundUpToMultipleX x y = (let z = i32 (x + (y - 1)) in i32 (z - sgn z * (\<bar>z\<bar> mod y)))"

text \<open>
  The local variables: the receive buffer (its length is \<open>receiveBufferSize\<close>) and the result
  buffer.  A round's script: the manager calls of other threads while the agent waits, what the
  socket calls do, and the memory that \<open>malloc\<close> gives (\<open>None\<close> when it fails).
\<close>

record agent_local =
  al_recv :: buf
  al_result :: msg_buffer

record agent_round =
  ar_calls :: "(tid \<times> edu_op) list"
  ar_head :: "(bool \<times> select_result list \<times> recv_result list) list"
  ar_grow :: "(nat \<Rightarrow> u8) option"
  ar_body :: "(bool \<times> select_result list \<times> recv_result list) list"
  ar_shrink :: "(nat \<Rightarrow> u8) option"
  ar_env :: request_env
  ar_reply :: "(bool \<times> select_result list \<times> sys_io list) list"

text \<open>The error branch: a closed connection is not an error.  \<open>Inl\<close> is the code the agent leaves with.\<close>

definition agent_error :: "int \<Rightarrow> int" where
  "agent_error rc = (if rc = EDB_NETWORK_CLOSE then EDB_OK else rc)"

definition grow_receive :: "int \<Rightarrow> (nat \<Rightarrow> u8) option \<Rightarrow> buf \<Rightarrow> (int + buf) res" where
  "grow_receive packetLength env b = (if int (length b) < i32 (packetLength + 1) then
     let newSize = ossRoundUpToMultipleX (i32 (packetLength + 1)) EDB_PAGE_SIZE in
     if newSize < 0 then Ret (Inl EDB_INVALIDARG) else
     (case env of None \<Rightarrow> Ret (Inl EDB_OOM)
      | Some junk \<Rightarrow> bnd (sti32 (map junk [0..<nat newSize]) 0 packetLength) (\<lambda>b. Ret (Inr b)))
     else Ret (Inr b))"

text \<open>Receiving a packet into the buffer: the code to leave with, or the buffer and the length.\<close>

definition receive_body :: "ossSocket \<Rightarrow> agent_round \<Rightarrow> buf \<Rightarrow> int \<Rightarrow> (int + buf \<times> int) res" where
  "receive_body s ar b packetLength =
     bnd (grow_receive packetLength (ar_grow ar) b) (\<lambda>g. case g of Inl rc \<Rightarrow> Ret (Inl rc) | Inr b \<Rightarrow>
     bnd (recv_packet s (packetLength - 4) (ar_body ar)) (\<lambda>(rc, bs). bnd (stn b 4 bs) (\<lambda>b.
     if rc = EDB_APP_FORCED then Ret (Inl rc) else if rc \<noteq> 0 then Ret (Inl (agent_error rc)) else
     bnd (stn b packetLength [0]) (\<lambda>b. Ret (Inr (b, packetLength))))))"

definition receive_request :: "ossSocket \<Rightarrow> agent_round \<Rightarrow> buf \<Rightarrow> (int + buf \<times> int) res" where
  "receive_request s ar b =
     bnd (recv_packet s 4 (ar_head ar)) (\<lambda>(rc, bs). bnd (stn b 0 bs) (\<lambda>b.
     if rc = EDB_APP_FORCED then Ret (Inl rc) else if rc \<noteq> 0 then Ret (Inl (agent_error rc)) else
     bnd (ldi32 b 0) (\<lambda>packetLength. if packetLength < 4 then Ret (Inl EDB_INVALIDARG) else
     receive_body s ar b packetLength)))"

definition shrink_result :: "(nat \<Rightarrow> u8) option \<Rightarrow> msg_buffer \<Rightarrow> msg_buffer option" where
  "shrink_result env mb = (if mb_size mb > sizeof_MsgReply
     then map_option (\<lambda>junk. \<lparr>mb_bytes = map junk [0..<nat sizeof_MsgReply], mb_size = sizeof_MsgReply\<rparr>) env else Some mb)"

fun other_calls :: "int \<Rightarrow> (tid \<times> edu_op) list \<Rightarrow> pmdEDUMgr \<Rightarrow> pmdEDUMgr res" where
  "other_calls maxPool [] st = Ret st"
| "other_calls maxPool ((u, c) # cs) st = bnd (edu_do u maxPool c st) (\<lambda>(_, st'). other_calls maxPool cs st')"

text \<open>
  One round: \<open>Inl rc\<close> leaves the loop.  The bytes of the reply are part of the result.
\<close>

definition agent_step :: "tid \<Rightarrow> ossSocket \<Rightarrow> EDUID \<Rightarrow> agent_round \<Rightarrow> agent_local \<times> EDB_KRCB \<Rightarrow>
    ((int + agent_local) \<times> u8 list \<times> EDB_KRCB) run" where
  "agent_step t s myEDUID ar w = (case w of (l, k) \<Rightarrow>
     obnd (Some (other_calls (kr_maxPool k) (ar_calls ar) (kr_eduMgr k))) (\<lambda>st. let k = k\<lparr>kr_eduMgr := st\<rparr> in
     obnd (Some (receive_request s ar (al_recv l))) (\<lambda>got. case got of Inl rc \<Rightarrow> Some (Ret (Inl rc, [], k)) | Inr (b, _) \<Rightarrow>
     obnd (Some (activateEDU t myEDUID (kr_eduMgr k))) (\<lambda>(rc, st). let k = k\<lparr>kr_eduMgr := st\<rparr> in
     if rc \<noteq> 0 then Some (Ret (Inl (agent_error rc), [], k)) else
     (case shrink_result (ar_shrink ar) (al_result l) of None \<Rightarrow> Some (Ret (Inl EDB_OOM, [], k)) | Some mb \<Rightarrow>
     (case pmdProcessAgentRequest t (ar_env ar) b mb (kr_rtnMgr k) of None \<Rightarrow> None | Some (x, r) \<Rightarrow>
     obnd (Some x) (\<lambda>(_, disconnect, mb). let k = k\<lparr>kr_rtnMgr := r\<rparr> in
     obnd (if disconnect then Some (Ret (EDB_OK, [])) else
        Some (bnd (ldi32 (mb_bytes mb) 0) (\<lambda>n. send_packet (mb_bytes mb, 0) n (ar_reply ar)))) (\<lambda>(rc, out).
     if rc \<noteq> 0 then Some (Ret (Inl (agent_error rc), out, k)) else
     obnd (Some (waitEDU t myEDUID (kr_eduMgr k))) (\<lambda>(rc, st). let k = k\<lparr>kr_eduMgr := st\<rparr> in
     if rc \<noteq> 0 then Some (Ret (Inl (agent_error rc), out, k))
     else if disconnect then Some (Ret (Inl EDB_OK, out, k))
     else Some (Ret (Inr \<lparr>al_recv = b, al_result = mb\<rparr>, out, k)))))))))))"

fun agent_loop :: "tid \<Rightarrow> ossSocket \<Rightarrow> EDUID \<Rightarrow> agent_round list \<Rightarrow> agent_local \<times> EDB_KRCB \<Rightarrow>
    (int \<times> u8 list list \<times> EDB_KRCB) run" where
  "agent_loop t s i [] w = Some Wait"
| "agent_loop t s i (ar # ars) w = obnd (agent_step t s i ar w) (\<lambda>(next, out, k). case next of
     Inl rc \<Rightarrow> Some (Ret (rc, [out], k))
   | Inr l \<Rightarrow> obnd (agent_loop t s i ars (l, k)) (\<lambda>(rc, outs, k). Some (Ret (rc, out # outs, k))))"

text \<open>
  \<open>pmdAgentEntryPoint\<close>: the socket from the number in \<open>arg\<close>, the two buffers, the loop.  The socket
  is closed on each way out.
\<close>

definition pmdAgentEntry :: "tid \<Rightarrow> EDUID \<Rightarrow> int \<Rightarrow> sockaddr_in \<Rightarrow> sockaddr_in option \<Rightarrow> sockaddr_in option \<Rightarrow> (sock_option \<Rightarrow> int) \<Rightarrow>
    (nat \<Rightarrow> u8) option \<Rightarrow> (nat \<Rightarrow> u8) option \<Rightarrow> agent_round list \<Rightarrow> EDB_KRCB \<Rightarrow> (int \<times> ossSocket \<times> u8 list list \<times> EDB_KRCB) run" where
  "pmdAgentEntry t i fd junk sockname peername opt m1 m2 rounds k = (let
     s = snd (sock_disableNagle opt (sock_existing fd 0 junk sockname peername)) in
     case m1 of None \<Rightarrow> Some (Ret (EDB_OOM, sock_close s, [], k)) | Some f1 \<Rightarrow>
     (case m2 of None \<Rightarrow> Some (Ret (EDB_OOM, sock_close s, [], k)) | Some f2 \<Rightarrow>
      let recv = map f1 [0..<nat (ossRoundUpToMultipleX PMD_AGENT_RECEIVE_BUFFER_SZ EDB_PAGE_SIZE)];
          result = \<lparr>mb_bytes = map f2 [0..<nat sizeof_MsgReply], mb_size = sizeof_MsgReply\<rparr> in
      obnd (agent_loop t s i rounds (\<lparr>al_recv = recv, al_result = result\<rparr>, k)) (\<lambda>(rc, outs, k).
        Some (Ret (rc, sock_close s, outs, k)))))"

end
