(* ===== verification/PmdAgentSpec.thy ===== *)
theory PmdAgentSpec
  imports PmdAgent DmsStore
begin

text \<open>
  What an agent does with a request: a message that a client built is served by the storage and
  answered with the code of the operation; no exception leaves the function; and the receive
  buffer holds every packet whose size is not the greatest \<open>int\<close>.
\<close>

section \<open>The name of the first field\<close>

lemma deref_in:
  assumes "obj_in o1 ((n, v) # fs)"
  shows "bnd (it_of o1) it_deref = Ret (raw_elem (fst o1) (snd o1 + 4))" "elem_in (fst o1) (snd o1 + 4) (n, v)"
proof -
  show e: "elem_in (fst o1) (snd o1 + 4) (n, v)"
    using obj_in_parts(2) [OF assms] by (simp add: fields_in_Cons)
  show "bnd (it_of o1) it_deref = Ret (raw_elem (fst o1) (snd o1 + 4))"
    using elem_at_in [OF e] by (simp add: it_of_in [OF assms] it_deref_def raw_elem_def)
qed

definition first_is_id :: "fields \<Rightarrow> bool" where
  "first_is_id fs \<longleftrightarrow> fs \<noteq> [] \<and> fst (hd fs) = str_id"

lemma first_name:
  assumes "obj_in o1 fs"
  shows "bnd (it_of o1) (\<lambda>it. bnd (it_deref it) (\<lambda>ele. bnd (elem_fieldName ele) (\<lambda>tmp.
      bnd (c_strcmp tmp (str_id @ [0], 0)) (\<lambda>rc. Ret (if rc \<noteq> 0 then Inl e else Inr x))))) =
    Ret (if first_is_id fs then Inr x else Inl e)"
proof (cases fs)
  case Nil
  have "elem_at (fst o1) (snd o1 + 4) = Ret \<lparr>ebuf = fst o1, data = snd o1 + 4, fnSize = 0, totSize = 1\<rparr>"
    using obj_in_parts(3) [OF assms] Nil by (simp add: elem_at_def ld8_at)
  moreover have "c_strcmp ([0], 0) (str_id @ [0], 0) = Ret (- 1)"
    by (simp add: c_strcmp_def tail_at_def str_id_def)
  moreover have "elem_eoo \<lparr>ebuf = fst o1, data = snd o1 + 4, fnSize = 0, totSize = 1\<rparr> = Ret True"
    using obj_in_parts(3) [OF assms] Nil
    by (simp add: elem_eoo_def elem_type_def ld8_at bson_type_def type_codes_def schar_def)
  ultimately show ?thesis
    using Nil by (simp add: it_of_in [OF assms] it_deref_def elem_fieldName_def first_is_id_def)
next
  case (Cons f fs')
  obtain n v where f: "f = (n, v)"
    by (cases f)
  note d = deref_in [OF assms [unfolded Cons f]]
  have "cname str_id"
    by (simp add: cname_def str_id_def)
  from name_is_in [OF d(2) this] obtain s z where
    "elem_fieldName (raw_elem (fst o1) (snd o1 + 4)) = Ret s" "c_strcmp s (str_id @ [0], 0) = Ret z" "(z = 0) = (n = str_id)"
    by (auto simp: name_is_def bnd_eq_Ret)
  moreover obtain it where "it_of o1 = Ret it" "it_deref it = Ret (raw_elem (fst o1) (snd o1 + 4))"
    using d(1) by (auto simp: bnd_eq_Ret)
  ultimately show ?thesis
    using Cons f by (simp add: first_is_id_def)
qed

section \<open>An INSERT\<close>

lemma insert_check_in:
  assumes "msgExtractInsert b = Ret (Inr (n, Some o1))" "obj_in o1 fs" "rq_toString env o1 = Some (Ret ())"
  shows "insert_check env b = Some (Ret (if first_is_id fs then Inr o1 else Inl EDB_NO_ID))"
  using first_name [OF assms(2), of EDB_NO_ID o1]
  by (simp add: insert_check_def assms(1,3) obj_init_in [OF assms(2)])

lemma request_insert_in:
  assumes "msgExtractInsert b = Ret (Inr (n, Some o1))" "obj_in o1 fs" "rq_toString env o1 = Some (Ret ())"
    "rtn_dms r = Some d"
  shows "request_insert t env b r = (if first_is_id fs
    then map_option (\<lambda>(x, d'). (caught (bnd x (\<lambda>(rc, _). Ret rc)), r\<lparr>rtn_dms := Some d'\<rparr>)) (dms_insert t o1 (rq_retry env) d)
    else Some (Ret EDB_NO_ID, r))"
  by (cases "dms_insert t o1 (rq_retry env) d")
    (auto simp: request_insert_def insert_check_in [OF assms(1-3)] rtnInsert_def assms(4) Let_def)

section \<open>Replies\<close>

lemma process_reply:
  assumes "ldi32 b 0 = Ret len" "ldi32 b 4 = Ret op" "sizeof_MsgHeader \<le> len" "op \<noteq> OP_DISCONNECT"
    and "request_op t env op b r = Some (Ret (rc, ret), r')"
    and "op \<noteq> OP_SNAPSHOT" "op \<noteq> OP_QUERY" "mb_ok mb" "-2147483648 \<le> rc" "rc < 2147483648" "can_grow (rq_realloc env) 16 mb"
  shows "\<exists>mb'. pmdProcessAgentRequest t env b mb r = Some (Ret (rc, False, mb'), r') \<and> mb_ok mb' \<and>
    ldi32 (mb_bytes mb') 0 = Ret 16 \<and> msgExtraReply (mb_bytes mb') = Ret (Inr (rc, 0, None))"
  using reply_empty_roundtrip [OF assms(8-11)] assms(1-7) by (auto simp: pmdProcessAgentRequest_def)

lemma process_reply_doc:
  assumes "ldi32 b 0 = Ret len" "ldi32 b 4 = Ret op" "sizeof_MsgHeader \<le> len"
    and "request_op t env op b r = Some (Ret (rc, ret), r')" "obj_in ret fs"
    and "op = OP_SNAPSHOT \<or> op = OP_QUERY" "mb_ok mb" "-2147483648 \<le> rc" "rc < 2147483648"
    and "can_grow (rq_realloc env) (16 + int (length (enc_obj fs))) mb"
  shows "\<exists>mb'. pmdProcessAgentRequest t env b mb r = Some (Ret (rc, False, mb'), r') \<and> mb_ok mb' \<and>
    ldi32 (mb_bytes mb') 0 = Ret (16 + int (length (enc_obj fs))) \<and>
    msgExtraReply (mb_bytes mb') = Ret (Inr (rc, 1, Some (mb_bytes mb', 16))) \<and> obj_in (mb_bytes mb', 16) fs"
  using reply_roundtrip [OF assms(7,8,9,5,10)] assms(1-4,6)
  by (auto simp: pmdProcessAgentRequest_def layout_simps)

section \<open>The message of a client in the buffer of the agent\<close>

lemma build_insert_bytes:
  assumes "mb_ok cmb" "obj_in doc fs" "can_grow cenv (12 + int (length (enc_obj fs))) cmb" "msgBuildInsert cenv cmb doc = Ret (EDB_OK, m)"
  shows "\<exists>rest. mb_bytes m = word_bytes [12 + int (length (enc_obj fs)), OP_INSERT, 1] @ enc_obj fs @ rest"
proof -
  note small = obj_in_small [OF assms(2)]
  from with_buffer_msg [OF assms(1,3), of "[doc]" "[fs]" "[12 + int (length (enc_obj fs)), 2, 1]"] assms(2,4) small
  show ?thesis
    by (auto simp: msgBuildInsert_def Let_def obj_objsize_in [OF assms(2)] total_size put_docs_single' [OF assms(2)]
        layout_simps simp del: put_words.simps put_docs.simps word_bytes_simps)
qed

lemma insert_received:
  assumes "mb_ok cmb" "obj_in doc fs" "can_grow cenv (12 + int (length (enc_obj fs))) cmb" "msgBuildInsert cenv cmb doc = Ret (EDB_OK, m)"
    and "ldi32 (mb_bytes m) 0 = Ret len" "b = take (nat len) (mb_bytes m) @ junk" "length b < 2147483648"
  shows "ldi32 b 0 = Ret len" "ldi32 b 4 = Ret OP_INSERT" "len = 12 + int (length (enc_obj fs))"
    "msgExtractInsert b = Ret (Inr (1, Some (b, 12)))" "obj_in (b, 12) fs"
proof -
  let ?ws = "[12 + int (length (enc_obj fs)), OP_INSERT, 1]"
  note small = obj_in_small [OF assms(2)]
  obtain rest where m: "mb_bytes m = word_bytes ?ws @ enc_obj fs @ rest"
    using build_insert_bytes [OF assms(1-4)] by blast
  have "msg_in (mb_bytes m) ?ws [fs]"
    using m small by (auto simp: msg_in_def layout_simps simp del: word_bytes_simps)
  from ldi32_word [OF this, of 0] assms(5) show len: "len = 12 + int (length (enc_obj fs))"
    by simp
  have b: "b = word_bytes ?ws @ enc_obj fs @ junk"
    using assms(6) m len by (simp add: nat_add_distrib del: word_bytes_simps)
  have i: "msg_in b ?ws [fs]"
    using b small by (auto simp: msg_in_def layout_simps simp del: word_bytes_simps)
  have "list_all2 obj_in [doc] [fs]"
    using assms(2) by simp
  from msg_docs [OF i assms(7) this] show o1: "obj_in (b, 12) fs"
    by simp
  show "ldi32 b 0 = Ret len" "ldi32 b 4 = Ret OP_INSERT"
    using ldi32_word [OF i, of 0] ldi32_word [OF i, of 1] len by simp_all
  show "msgExtractInsert b = Ret (Inr (1, Some (b, 12)))"
    using ldi32_word [OF i, of 2] by (simp add: msgExtractInsert_def check_msg_word [OF i] layout_simps)
qed

text \<open>An insertion asked for over the wire is the insertion of the storage, and its code comes back.\<close>

lemma process_insert:
  assumes "mb_ok cmb" "obj_in doc fs" "can_grow cenv (12 + int (length (enc_obj fs))) cmb" "msgBuildInsert cenv cmb doc = Ret (EDB_OK, m)"
    and "ldi32 (mb_bytes m) 0 = Ret len" "b = take (nat len) (mb_bytes m) @ junk" "length b < 2147483648"
    and "rq_toString env (b, 12) = Some (Ret ())" "rtn_dms r = Some d" "mb_ok mb" "can_grow (rq_realloc env) 16 mb"
    and "first_is_id fs" "dms_insert t (b, 12) (rq_retry env) d = Some (Ret (rc, x), d')" "-2147483648 \<le> rc" "rc < 2147483648"
  shows "\<exists>mb'. pmdProcessAgentRequest t env b mb r = Some (Ret (rc, False, mb'), r\<lparr>rtn_dms := Some d'\<rparr>) \<and> mb_ok mb' \<and>
    ldi32 (mb_bytes mb') 0 = Ret 16 \<and> msgExtraReply (mb_bytes mb') = Ret (Inr (rc, 0, None))"
proof (rule process_reply)
  note i = insert_received [OF assms(1-7)]
  show "ldi32 b 0 = Ret len" "ldi32 b 4 = Ret OP_INSERT" "sizeof_MsgHeader \<le> len"
    using i(1-3) by (simp_all add: layout_simps)
  show "request_op t env OP_INSERT b r = Some (Ret (rc, obj_empty), r\<lparr>rtn_dms := Some d'\<rparr>)"
    using request_insert_in [OF i(4,5) assms(8,9), of t] assms(12,13) by (simp add: request_op_def layout_simps)
qed (use assms in \<open>simp_all add: layout_simps\<close>)

lemma process_insert_no_id:
  assumes "mb_ok cmb" "obj_in doc fs" "can_grow cenv (12 + int (length (enc_obj fs))) cmb" "msgBuildInsert cenv cmb doc = Ret (EDB_OK, m)"
    and "ldi32 (mb_bytes m) 0 = Ret len" "b = take (nat len) (mb_bytes m) @ junk" "length b < 2147483648"
    and "rq_toString env (b, 12) = Some (Ret ())" "rtn_dms r = Some d" "mb_ok mb" "can_grow (rq_realloc env) 16 mb"
    and "\<not> first_is_id fs"
  shows "\<exists>mb'. pmdProcessAgentRequest t env b mb r = Some (Ret (EDB_NO_ID, False, mb'), r) \<and> mb_ok mb' \<and>
    ldi32 (mb_bytes mb') 0 = Ret 16 \<and> msgExtraReply (mb_bytes mb') = Ret (Inr (EDB_NO_ID, 0, None))"
proof (rule process_reply)
  note i = insert_received [OF assms(1-7)]
  show "ldi32 b 0 = Ret len" "ldi32 b 4 = Ret OP_INSERT" "sizeof_MsgHeader \<le> len"
    using i(1-3) by (simp_all add: layout_simps)
  show "request_op t env OP_INSERT b r = Some (Ret (EDB_NO_ID, obj_empty), r)"
    using request_insert_in [OF i(4,5) assms(8,9), of t] assms(12) by (simp add: request_op_def layout_simps)
qed (use assms in \<open>simp_all add: layout_simps edb_codes\<close>)

section \<open>No exception leaves a request\<close>

lemma caught_no_raise [simp]: "caught x \<noteq> Raise n"
  by (cases x) simp_all

lemma request_op_no_raise: "request_op t env op b r = Some (x, r') \<Longrightarrow> x \<noteq> Raise n"
proof (rule notI)
  assume "request_op t env op b r = Some (x, r')" "x = Raise n"
  then show False
    by (auto simp: request_op_def Let_def request_insert_def request_key_def bnd_eq_Raise map_option_case
        split: if_splits res.splits option.splits sum.splits prod.splits)
qed

text \<open>The storage is the same after everything but an INSERT.\<close>

lemma request_op_reads: "request_op t env op b r = Some (x, r') \<Longrightarrow> op \<noteq> OP_INSERT \<Longrightarrow> r' = r"
  by (auto simp: request_op_def Let_def request_key_def rtnFind_def rtnRemove_def map_option_case
      split: if_splits res.splits option.splits sum.splits prod.splits)

text \<open>No exception at all leaves the function: the code around the operation has none to throw.\<close>

lemma reply_no_raise: "msgBuildReply env mb rc obj \<noteq> Raise n"
  by (auto simp: msgBuildReply_def with_buffer_def put_doc_def obj_objsize_def ldi32_def ld32_def ldn_def
      sti32_def stn_def bnd_eq_Raise split: option.splits prod.splits if_splits)

lemma process_no_raise: "pmdProcessAgentRequest t env b mb r = Some (x, r') \<Longrightarrow> x \<noteq> Raise n"
  using reply_no_raise request_op_no_raise
  by (auto simp: pmdProcessAgentRequest_def ldi32_def ld32_def ldn_def bnd_eq_Raise
      split: res.splits if_splits option.splits prod.splits)

lemma process_reads:
  "pmdProcessAgentRequest t env b mb r = Some (x, r') \<Longrightarrow> ldi32 b 4 \<noteq> Ret OP_INSERT \<Longrightarrow> r' = r"
  using request_op_reads
  by (auto simp: pmdProcessAgentRequest_def bnd_eq_Ret split: res.splits if_splits)

section \<open>The snapshot\<close>

definition snapshot_fields :: fields where
  "snapshot_fields = [(c_str ''hello'', VString (c_str ''world'')), (c_str ''number'', VInt 1), (c_str ''insertTimes'', VInt 100),
     (c_str ''delTimes'', VInt 1000), (c_str ''queryTimes'', VInt 2000), (c_str ''serverRunTimes'', VInt 100)]"

lemma snapshot_built:
  "snapshot_doc env = bnd (ob_new (rq_oom env) (rq_room env) 512) (\<lambda>ob. bnd (ob_values snapshot_fields ob) ob_obj)"
proof -
  have "ob_append_cstr name (c_str ''world'' @ [0], 0) = ob_append_string name (c_str ''world'')" for name
    by (rule ext) (simp add: ob_append_cstr_def ob_append_string_def c_str_def c_strlen_def tail_at_def)
  then show ?thesis
    by (simp add: snapshot_doc_def snapshot_fields_def bnd_assoc)
qed

lemma snapshot_ok:
  assumes "\<not> rq_oom env" "length (rq_room env) = 4"
  shows "\<exists>d. snapshot_doc env = Ret d \<and> obj_in d snapshot_fields" "length (enc_obj snapshot_fields) = 101"
proof -
  have l: "length (enc_obj snapshot_fields) = 101"
    by (simp add: snapshot_fields_def c_str_def length_enc_obj)
  then show "length (enc_obj snapshot_fields) = 101" .
  have "wf_fields snapshot_fields"
    by (simp add: snapshot_fields_def cname_def c_str_def)
  from build_document [OF this _ assms(2), of 512] l assms(1) show "\<exists>d. snapshot_doc env = Ret d \<and> obj_in d snapshot_fields"
    by (auto simp: snapshot_built BSONObjMaxInternalSize_def)
qed

lemma process_snapshot:
  assumes "ldi32 b 0 = Ret len" "ldi32 b 4 = Ret OP_SNAPSHOT" "sizeof_MsgHeader \<le> len"
    and "\<not> rq_oom env" "length (rq_room env) = 4" "mb_ok mb" "can_grow (rq_realloc env) 117 mb"
  shows "\<exists>mb'. pmdProcessAgentRequest t env b mb r = Some (Ret (EDB_OK, False, mb'), r) \<and> mb_ok mb' \<and>
    msgExtraReply (mb_bytes mb') = Ret (Inr (EDB_OK, 1, Some (mb_bytes mb', 16))) \<and> obj_in (mb_bytes mb', 16) snapshot_fields"
proof -
  obtain d where d: "snapshot_doc env = Ret d" "obj_in d snapshot_fields"
    using snapshot_ok(1) [OF assms(4,5)] by blast
  then have "request_op t env OP_SNAPSHOT b r = Some (Ret (EDB_OK, d), r)"
    by (simp add: request_op_def layout_simps)
  from process_reply_doc [OF assms(1-3) this d(2)] show ?thesis
    using assms(6,7) snapshot_ok(2) [OF assms(4,5)] by (auto simp: edb_codes)
qed

section \<open>Receiving\<close>

lemma round_up:
  assumes "0 \<le> x" "x + 4095 < 2147483648"
  shows "x \<le> ossRoundUpToMultipleX x 4096" "ossRoundUpToMultipleX x 4096 < 2147483648" "0 \<le> ossRoundUpToMultipleX x 4096"
    "4096 dvd ossRoundUpToMultipleX x 4096"
proof -
  have e: "ossRoundUpToMultipleX x 4096 = (x + 4095) - (x + 4095) mod 4096"
    using assms by (simp add: ossRoundUpToMultipleX_def i32_id sgn_if Let_def)
  then show "4096 dvd ossRoundUpToMultipleX x 4096"
    by (simp add: minus_mod_eq_mult_div)
  have "0 \<le> (x + 4095) mod 4096" "(x + 4095) mod 4096 \<le> 4095"
    using pos_mod_bound [of 4096 "x + 4095"] by simp_all
  with e assms show "x \<le> ossRoundUpToMultipleX x 4096" "ossRoundUpToMultipleX x 4096 < 2147483648" "0 \<le> ossRoundUpToMultipleX x 4096"
    by simp_all
qed

lemma round_up_overflow:
  assumes "0 \<le> x" "x < 2147483648" "2147483648 \<le> x + 4095"
  shows "ossRoundUpToMultipleX x 4096 < 0"
proof -
  let ?w = "x + 4095 - 4294967296"
  have "i32 (x + 4095) = ?w"
    using assms by (simp add: i32_def s32_def to_u32_nat [of "x + 4095"] nat_less_iff)
  then have "ossRoundUpToMultipleX x 4096 = i32 (?w + \<bar>?w\<bar> mod 4096)"
    using assms by (simp add: ossRoundUpToMultipleX_def Let_def sgn_if)
  moreover have "\<bar>?w\<bar> mod 4096 \<le> 4095" "0 \<le> \<bar>?w\<bar> mod 4096"
    using pos_mod_bound [of 4096 "\<bar>?w\<bar>"] by simp_all
  ultimately show ?thesis
    using assms by (simp add: i32_id)
qed

text \<open>The buffer after the check is longer than the packet, unless the size is the greatest \<open>int\<close>.\<close>

lemma grow_receive_result:
  assumes "4 \<le> n" "n < 2147483647" "4096 \<le> length b" "length b < 2147483648"
  obtains (err) rc where "grow_receive n env b = Ret (Inl rc)"
  | (ok) b' where "grow_receive n env b = Ret (Inr b')" "n < int (length b')" "4096 \<le> length b'" "length b' < 2147483648"
      "take 4 b = le32 (nat n) \<Longrightarrow> take 4 b' = le32 (nat n)"
proof (cases "int (length b) < n + 1")
  case False
  then show ?thesis
    using assms by (intro ok [of b]) (simp_all add: grow_receive_def i32_id)
next
  case True
  have i: "i32 (n + 1) = n + 1"
    using assms(1,2) by (intro i32_id) simp_all
  let ?z = "ossRoundUpToMultipleX (n + 1) 4096"
  show ?thesis
  proof (cases "n + 1 + 4095 < 2147483648")
    case ov: False
    have "?z < 0"
      using assms ov by (intro round_up_overflow) simp_all
    then show ?thesis
      using True by (intro err) (simp add: grow_receive_def i Let_def EDB_PAGE_SIZE_def)
  next
    case sm: True
    note z = round_up [of "n + 1", OF _ sm]
    show ?thesis
    proof (cases env)
      case None
      then show ?thesis
        using True z(3) assms(1) by (intro err [of EDB_OOM]) (simp add: grow_receive_def i Let_def EDB_PAGE_SIZE_def)
    next
      case (Some junk)
      let ?b = "le32 (nat n) @ drop 4 (map junk [0..<nat ?z])"
      have len: "4 \<le> length (map junk [0..<nat ?z])"
        using z(1) assms(1) by simp
      from sti32_append [OF _ len, of 0 "[]" n] assms(1,2) have "sti32 (map junk [0..<nat ?z]) 0 n = Ret ?b"
        by (simp add: to_u32_nat)
      with Some True z(3) assms(1) have "grow_receive n env b = Ret (Inr ?b)"
        by (simp add: grow_receive_def i Let_def EDB_PAGE_SIZE_def)
      moreover have "length ?b = nat ?z"
        using len by simp
      ultimately show ?thesis
        using True z(1,2) assms(1,3) by (intro ok [of ?b]) (simp_all del: length_append)
    qed
  qed
qed

lemma recv_packet_end: "recv_end (nat n) (recv_packet s n script)"
proof (induction s n script rule: recv_packet.induct)
  case (2 s n forced sel calls later)
  from sock_recv_end [of n s sel calls] show ?case
    by (cases rule: recv_end_cases) (use 2 in \<open>auto simp: edb_codes\<close>)
qed simp

definition packet_in :: "ossSocket \<Rightarrow> agent_round \<Rightarrow> u8 list \<Rightarrow> int \<Rightarrow> buf \<Rightarrow> bool" where
  "packet_in s ar front n b \<longleftrightarrow> (\<exists>bd. recv_packet s (n - 4) (ar_body ar) = Ret (EDB_OK, bd) \<and> take (nat n) b = front @ bd) \<and>
     4 \<le> n \<and> n < int (length b) \<and> b ! nat n = 0 \<and> 4096 \<le> length b \<and> length b < 2147483648"

lemma receive_body_safe:
  assumes n: "4 \<le> n" "n < 2147483647" and b: "4096 \<le> length b" "length b < 2147483648" "take 4 b = le32 (nat n)"
  shows "receive_body s ar b n = Wait \<or> (\<exists>rc. receive_body s ar b n = Ret (Inl rc)) \<or>
    (\<exists>b'. receive_body s ar b n = Ret (Inr (b', n)) \<and> packet_in s ar (le32 (nat n)) n b')"
  using n b(1,2)
proof (cases rule: grow_receive_result [where env = "ar_grow ar"])
  case (err rc)
  then show ?thesis
    by (simp add: receive_body_def)
next
  case (ok b1)
  from recv_packet_end [of "n - 4" s "ar_body ar"] show ?thesis
  proof (cases rule: recv_end_cases)
    case 1
    with ok(1) show ?thesis
      by (simp add: receive_body_def)
  next
    case (2 rc bd)
    obtain b2 where b2: "stn b1 4 bd = Ret b2" "length b2 = length b1" "take (4 + length bd) b2 = take 4 b1 @ bd"
      by (rule stn_ok [of 4 bd b1]) (use 2(2) ok(2) n in simp_all)
    show ?thesis
    proof (cases "rc = EDB_OK")
      case False
      with ok(1) 2(1) b2(1) show ?thesis
        by (simp add: receive_body_def edb_codes)
    next
      case True
      have bd: "length bd = nat n - 4"
        using 2(3) [OF True] by simp
      obtain b3 where b3: "stn b2 n [0] = Ret b3" "length b3 = length b2" "take (nat n + 1) b3 = take (nat n) b2 @ [0]"
        by (rule stn_ok [of n "[0]" b2]) (use ok(2) n(1) b2(2) in simp_all)
      have "take (nat n) b3 = take (nat n) b2" "b3 ! nat n = 0"
        using take_snoc [OF b3(3)] b3(2) b2(2) ok(2) n(1) by simp_all
      moreover have "nat n = 4 + length bd"
        using bd n(1) by simp
      then have "take (nat n) b2 = le32 (nat n) @ bd"
        using ok(5) [OF b(3)] b2(3) by simp
      ultimately have "packet_in s ar (le32 (nat n)) n b3"
        using 2(1) True ok(2-4) n(1) b3(2) b2(2) unfolding packet_in_def by auto
      with ok(1) 2(1) b2(1) b3(1) True show ?thesis
        by (simp add: receive_body_def edb_codes)
    qed
  qed
qed

text \<open>
  Any script, any size but the greatest \<open>int\<close>: the agent waits, leaves with a code, or has the whole
  packet in its buffer with a zero behind it.
\<close>

lemma receive_safe:
  assumes b: "4096 \<le> length b" "length b < 2147483648"
    and hd: "recv_packet s 4 (ar_head ar) \<noteq> Ret (EDB_OK, le32 2147483647)"
  shows "receive_request s ar b = Wait \<or> (\<exists>rc. receive_request s ar b = Ret (Inl rc)) \<or>
    (\<exists>b' n. recv_packet s 4 (ar_head ar) = Ret (EDB_OK, le32 (nat n)) \<and> receive_request s ar b = Ret (Inr (b', n)) \<and>
       packet_in s ar (le32 (nat n)) n b')"
  using recv_packet_end [of 4 s "ar_head ar"]
proof (cases rule: recv_end_cases)
  case 1
  then show ?thesis
    by (simp add: receive_request_def)
next
  case (2 rc fr)
  let ?b1 = "fr @ drop (length fr) b" and ?n = "s32 (le_value fr)"
  have b1: "stn b 0 fr = Ret ?b1" "length ?b1 = length b"
    using 2(2) b(1) by (simp_all add: stn_def)
  show ?thesis
  proof (cases "rc = EDB_OK")
    case False
    with 2(1) b1 show ?thesis
      by (auto simp: receive_request_def edb_codes)
  next
    case True
    then have h: "length fr = 4" "recv_packet s 4 (ar_head ar) = Ret (EDB_OK, fr)"
      using 2 by simp_all
    have len: "ldi32 ?b1 0 = Ret ?n"
      using h(1) b(1) by (simp add: ldi32_def ld32_def ldn_def sub_def)
    have step: "receive_request s ar b = (if ?n < 4 then Ret (Inl EDB_INVALIDARG) else receive_body s ar ?b1 ?n)"
      using h(2) b1(1) len by (simp add: receive_request_def edb_codes)
    show ?thesis
    proof (cases "?n < 4")
      case False
      have v: "le_value fr < 2147483648" "?n = int (le_value fr)" "le32 (le_value fr) = fr"
        using False le_value_less [of fr] h(1) le32_le_value [of fr] by (auto simp: s32_def split: if_splits)
      then have "?n < 2147483647"
        using hd h(2) by (cases "le_value fr = 2147483647") auto
      from receive_body_safe [OF _ this, of ?b1 s ar] False b b1(2) h v show ?thesis
        unfolding step by auto
    qed (simp add: step)
  qed
qed

text \<open>With the greatest \<open>int\<close> the test for the size overflows and the packet is written past the buffer.\<close>

lemma receive_overflow:
  assumes "4096 \<le> length b" "length b < 2147483648" "recv_packet s 4 (ar_head ar) = Ret (EDB_OK, le32 2147483647)"
    and "recv_packet s 2147483643 (ar_body ar) = Ret (rc, bd)" "length b < 4 + length bd"
  shows "receive_request s ar b = Stuck"
proof -
  let ?b1 = "le32 2147483647 @ drop 4 b"
  have b1: "stn b 0 (le32 2147483647) = Ret ?b1" "length ?b1 = length b"
    using assms(1) by (simp_all add: stn_def)
  have "ldi32 ?b1 0 = Ret 2147483647"
    using assms(1) by (simp add: ldi32_def ld32_def ldn_def sub_def s32_def)
  moreover have "grow_receive 2147483647 (ar_grow ar) ?b1 = Ret (Inr ?b1)"
    by (simp add: grow_receive_def i32_def s32_def to_u32_def)
  ultimately show ?thesis
    using assms(3-5) b1 by (simp add: receive_request_def receive_body_def stn_def edb_codes)
qed

text \<open>The environment of the closed instances: nothing fails.\<close>

definition demo_request :: request_env where
  "demo_request = \<lparr>rq_toString = (\<lambda>_. Some (Ret ())), rq_retry = [], rq_oom = False, rq_room = [0, 0, 0, 0], rq_realloc = None\<rparr>"

end
