(* ===== verification/PmdDemo.thy ===== *)
theory PmdDemo
  imports PmdEntry
begin

text \<open>
  Small states of the EDU manager on which the properties are instantiated: one agent just started,
  one agent in the pool, the same agent woken there by an event other than RESUME.
\<close>

definition demo_agent :: "EDU_STATUS \<Rightarrow> bool \<Rightarrow> pmdEDUEvent list \<Rightarrow> pmdEDUCB" where
  "demo_agent s forced q = \<lparr>cb_type = EDU_TYPE_AGENT, cb_status = s, cb_id = 1, cb_forced = forced,
     cb_disconnected = False, cb_queue = q\<rparr>"

definition demo_run :: "EDU_STATUS \<Rightarrow> pmdEDUEvent list \<Rightarrow> pmdEDUMgr" where
  "demo_run s q = mgr_init\<lparr>runQueue := [(1, 1)], nextEDUID := 2, cb_heap := [1 \<mapsto> demo_agent s False q], cb_next := 2\<rparr>"

definition demo_pool :: "EDU_STATUS \<Rightarrow> bool \<Rightarrow> pmdEDUEvent list \<Rightarrow> pmdEDUMgr" where
  "demo_pool s forced q = mgr_init\<lparr>idleQueue := [(1, 1)], nextEDUID := 2,
     cb_heap := [1 \<mapsto> demo_agent s forced q], cb_next := 2\<rparr>"

lemmas demo_defs = demo_run_def demo_pool_def demo_agent_def mgr_init_def

lemma demo_run_ok:
  assumes "run_status s"
  shows "mgr_inv (demo_run s q)" "s_free (mgr_latch (demo_run s q))" "edu_view (demo_run s q) 1 = Some (False, s)"
    "find_edu 1 (demo_run s q) = Some 1" "nextEDUID (demo_run s q) = 2" "cb_heap (demo_run s q) 1 = Some (demo_agent s False q)"
  using assms by (auto simp: mgr_inv_def demo_defs s_free_def s_init_def edu_view_def find_edu_def
      smap_ok_def split: if_splits)

lemma demo_pool_ok:
  assumes "idle_status s"
  shows "mgr_inv (demo_pool s f q)" "s_free (mgr_latch (demo_pool s f q))" "edu_view (demo_pool s f q) 1 = Some (True, s)"
    "find_edu 1 (demo_pool s f q) = Some 1" "nextEDUID (demo_pool s f q) = 2" "small_pool (demo_pool s f q)"
    "cb_heap (demo_pool s f q) 1 = Some (demo_agent s f q)"
  using assms by (auto simp: mgr_inv_def demo_defs s_free_def s_init_def edu_view_def find_edu_def
      smap_ok_def isPoolable_def small_pool_def split: if_splits)

lemma demo_start: "startEDU 0 True True EDU_TYPE_AGENT 7 mgr_init = Ret ((EDB_OK, Some 1), demo_run PMD_EDU_CREATING [resume_event 7])"
  using startEDU_result [OF mgr_inv_init(1,3), of 0 True True EDU_TYPE_AGENT 7]
  by (simp add: start_result_def create_result_def startable_def with_new_def cb_started_def cb_new_def
      cb_postEvent_def demo_defs q_push_def q_init_def)

definition demo_event :: pmdEDUEvent where
  "demo_event = \<lparr>eventType = PMD_EDU_EVENT_MSG, ev_release = False, ev_data = 0\<rparr>"

definition demo_entry :: entry_function where
  "demo_entry f arg w = Ret (EDB_OK, w)"

lemma demo_entry_behaves: "entry_behaves demo_entry 1 1 EDU_TYPE_AGENT"
  unfolding entry_behaves_def demo_entry_def by blast

definition reg0 :: edu_registry where
  "reg0 = register_entries \<lparr>mapEDUName = [], mapEDUTypeSys = []\<rparr>"

lemma demo_parts [simp]: "eventType demo_event = PMD_EDU_EVENT_MSG" "eventType (resume_event arg) = PMD_EDU_EVENT_RESUME"
  "\<not> th_destroyed thread_start" "\<not> th_forced thread_start" "cb_type (demo_agent s f q) = EDU_TYPE_AGENT"
  "cb_forced (demo_agent s f q) = f" "run_status PMD_EDU_CREATING" "run_status PMD_EDU_RUNNING"
  "idle_status PMD_EDU_IDLE" "idle_status PMD_EDU_RUNNING"
  by (simp_all add: demo_event_def resume_event_def thread_start_def demo_agent_def run_status_def idle_status_def)

end
