(* ===== verification/PmdListener.thy ===== *)
theory PmdListener
  imports PmdKrcb OssSocket
begin

text \<open>
  The listener, \<open>pmd/pmdTcpListener.cpp\<close>: it opens a socket on the configured port, hands each
  connection to an agent, and opens the socket again (five times at most) when \<open>accept\<close> fails.
\<close>

section \<open>Definitions\<close>

definition PMD_TCPLISTENER_RETRY :: nat where "PMD_TCPLISTENER_RETRY = 5"

text \<open>
  The port: the digits of the service name, other characters are only logged.  The sums are \<open>int\<close>;
  an overflow is undefined by the standard and wraps here.
\<close>

definition port_step :: "int \<Rightarrow> u8 \<Rightarrow> int" where
  "port_step port c = (if 48 \<le> c \<and> c \<le> 57 then i32 (i32 (port * 10) + (int (unat c) - 48)) else port)"

definition service_port :: "u8 list \<Rightarrow> int" where
  "service_port svcName = foldl port_step 0 (c_prefix svcName)"

text \<open>What became of a connection.\<close>

datatype connection = Handed EDUID int | Turned_away int

text \<open>
  One round of the accept loop: the signals and the manager calls of other threads before the test
  of the status and during \<open>accept\<close>, what \<open>select\<close> and \<open>accept\<close> answer, and whether \<open>startEDU\<close> gets
  its memory and its thread.
\<close>

record listen_round =
  lr_before :: "int list"
  lr_calls :: "(tid \<times> edu_op) list"
  lr_sel :: "select_result list"
  lr_fd :: int
  lr_during :: "int list"
  lr_alloc :: bool
  lr_thread :: bool

fun mgr_calls :: "(tid \<times> edu_op) list \<Rightarrow> EDB_KRCB \<Rightarrow> EDB_KRCB res" where
  "mgr_calls [] k = Ret k"
| "mgr_calls ((u, c) # cs) k = bnd (edu_do u (kr_maxPool k) c (kr_eduMgr k)) (\<lambda>(_, st). mgr_calls cs (k\<lparr>kr_eduMgr := st\<rparr>))"

text \<open>
  The loop, with the code so far: it returns with a code (\<open>Inl\<close>), or is left with one to start again
  or to end (\<open>Inr\<close>).
\<close>

fun accept_loop :: "tid \<Rightarrow> int \<Rightarrow> listen_round list \<Rightarrow> ossSocket \<times> EDB_KRCB \<Rightarrow>
    ((int + int) \<times> connection list \<times> ossSocket \<times> EDB_KRCB) res" where
  "accept_loop t rc [] (s, k) = (if EDB_IS_DB_DOWN (kr_dbStatus k) then Ret (Inr rc, [], s, k) else Wait)"
| "accept_loop t rc (r # rs) (s, k) = bnd (mgr_calls (lr_calls r) (fold pmdSignalHandler (lr_before r) k)) (\<lambda>k.
     if EDB_IS_DB_DOWN (kr_dbStatus k) then Ret (Inr rc, [], s, k) else
     bnd (sock_accept (lr_sel r) (lr_fd r) s) (\<lambda>((rc, _), s). let k = fold pmdSignalHandler (lr_during r) k in
     if rc = EDB_TIMEOUT then accept_loop t EDB_OK rs (s, k)
     else if rc \<noteq> 0 \<and> EDB_IS_DB_DOWN (kr_dbStatus k) then Ret (Inl EDB_OK, [], s, k)
     else if rc \<noteq> 0 then Ret (Inr rc, [], s, k)
     else bnd (startEDU t (lr_alloc r) (lr_thread r) EDU_TYPE_AGENT (to_u32 (lr_fd r)) (kr_eduMgr k)) (\<lambda>((rc, agent), st).
       bnd (accept_loop t rc rs (s, k\<lparr>kr_eduMgr := st\<rparr>)) (\<lambda>(end, conns, s, k).
         Ret (end, (if rc = 0 then Handed (the agent) (lr_fd r) else Turned_away (lr_fd r)) # conns, s, k)))))"

text \<open>One opening of the socket.\<close>

record listen_try =
  lt_signals :: "int list"
  lt_socket :: int
  lt_opt :: "sock_option \<Rightarrow> int"
  lt_bind :: int
  lt_listen :: int
  lt_rounds :: "listen_round list"

definition open_listener :: "listen_try \<Rightarrow> u8 list \<Rightarrow> int \<times> ossSocket" where
  "open_listener x svcName = (let (rc, s) = sock_initSocket (lt_opt x) (lt_socket x) (sock_listening (to_u32 (service_port svcName)) 0) in
     if rc \<noteq> 0 then (rc, s) else sock_bind_listen (lt_opt x) (lt_bind x) (lt_listen x) s)"

text \<open>The retry loop: \<open>n\<close> is \<open>retry\<close>.\<close>

fun listener_loop :: "tid \<Rightarrow> EDUID \<Rightarrow> nat \<Rightarrow> int \<Rightarrow> listen_try list \<Rightarrow> EDB_KRCB \<Rightarrow> (int \<times> connection list \<times> EDB_KRCB) res" where
  "listener_loop t i n rc [] k = (if n > PMD_TCPLISTENER_RETRY \<or> EDB_IS_DB_DOWN (kr_dbStatus k) then Ret (rc, [], k) else Wait)"
| "listener_loop t i n rc (x # xs) k = (if n > PMD_TCPLISTENER_RETRY then Ret (rc, [], k) else
     let k = fold pmdSignalHandler (lt_signals x) k in
     if EDB_IS_DB_DOWN (kr_dbStatus k) then Ret (rc, [], k) else
     let (rc, s) = open_listener x (kr_svcName k) in
     if rc \<noteq> 0 then Ret (rc, [], k) else
     bnd (activateEDU t i (kr_eduMgr k)) (\<lambda>(rc, st). let k = k\<lparr>kr_eduMgr := st\<rparr> in
     if rc \<noteq> 0 then Ret (rc, [], k) else
     bnd (accept_loop t rc (lt_rounds x) (s, k)) (\<lambda>(end, conns, s, k). case end of
       Inl rc \<Rightarrow> Ret (rc, conns, k)
     | Inr _ \<Rightarrow> bnd (waitEDU t i (kr_eduMgr k)) (\<lambda>(rc, st). let k = k\<lparr>kr_eduMgr := st\<rparr> in
         if rc \<noteq> 0 then Ret (rc, conns, k) else
         bnd (listener_loop t i (n + 1) rc xs k) (\<lambda>(rc, more, k). Ret (rc, conns @ more, k))))))"

definition pmdTcpListenerEntry :: "tid \<Rightarrow> EDUID \<Rightarrow> listen_try list \<Rightarrow> EDB_KRCB \<Rightarrow> (int \<times> connection list \<times> EDB_KRCB) res" where
  "pmdTcpListenerEntry t i tries k = listener_loop t i 0 EDB_OK tries k"

section \<open>The port\<close>

text \<open>For a service name of digits whose number is an \<open>int\<close> the port is that number.\<close>

fun decimal :: "u8 list \<Rightarrow> nat" where
  "decimal [] = 0"
| "decimal (c # cs) = (unat c - 48) * 10 ^ length cs + decimal cs"

definition all_digits :: "u8 list \<Rightarrow> bool" where
  "all_digits s \<longleftrightarrow> list_all (\<lambda>c. 48 \<le> c \<and> c \<le> 57) s"

lemma port_fold:
  assumes "all_digits s" "0 \<le> p" "p * 10 ^ length s + int (decimal s) < 2147483648"
  shows "foldl port_step p s = p * 10 ^ length s + int (decimal s)"
  using assms
proof (induction s arbitrary: p)
  case (Cons c s)
  let ?d = "int (unat c) - 48"
  have d: "0 \<le> ?d" "int (unat c - 48) = ?d"
  proof -
    have "48 \<le> unat c"
      using Cons.prems(1) by (simp add: all_digits_def word_le_nat_alt)
    then show "0 \<le> ?d" "int (unat c - 48) = ?d"
      by linarith+
  qed
  have e: "p * 10 ^ length (c # s) + int (decimal (c # s)) = (p * 10 + ?d) * 10 ^ length s + int (decimal s)"
    by (simp only: decimal.simps of_nat_add of_nat_mult of_nat_power d(2)) (simp add: algebra_simps)
  have "p * 10 + ?d \<le> (p * 10 + ?d) * 10 ^ length s"
    using d(1) Cons.prems(2) by (simp add: mult_le_cancel_left1)
  then have "p * 10 + ?d < 2147483648"
    using Cons.prems(3) unfolding e by simp
  then have "port_step p c = p * 10 + ?d"
    using Cons.prems(1,2) d(1) by (simp add: port_step_def all_digits_def i32_id)
  moreover have "foldl port_step (p * 10 + ?d) s = (p * 10 + ?d) * 10 ^ length s + int (decimal s)"
    using Cons.prems d(1) unfolding e by (intro Cons.IH) (simp_all add: all_digits_def)
  ultimately show ?case
    using e by simp
qed simp

lemma service_port_digits:
  "all_digits (c_prefix s) \<Longrightarrow> int (decimal (c_prefix s)) < 2147483648 \<Longrightarrow> service_port s = int (decimal (c_prefix s))"
  using port_fold [of "c_prefix s" 0] by (simp add: service_port_def)

section \<open>The end of the listener\<close>

text \<open>At most six openings: what comes after the sixth does not matter.\<close>

lemma listener_bounded:
  "n + length xs = 6 \<Longrightarrow> listener_loop t i n rc (xs @ ys) k = listener_loop t i n rc (xs @ zs) k"
proof (induction xs arbitrary: n rc k)
  case Nil
  then show ?case
    by (cases ys; cases zs) (simp_all add: PMD_TCPLISTENER_RETRY_def)
next
  case (Cons x xs)
  then have "listener_loop t i (n + 1) rc (xs @ ys) k = listener_loop t i (n + 1) rc (xs @ zs) k" for rc k
    by simp
  then show ?case
    by (simp only: append_Cons listener_loop.simps)
qed

text \<open>After a shutdown signal the loop takes no further connection.\<close>

lemma accept_loop_stops:
  assumes "set (lr_before r) \<inter> shutdown_signals \<noteq> {}" "lr_calls r = []"
  shows "\<exists>k'. accept_loop t rc (r # rs) (s, k) = Ret (Inr rc, [], s, k') \<and> kr_eduMgr k' = kr_eduMgr k"
proof -
  have "kr_eduMgr (fold pmdSignalHandler sigs k) = kr_eduMgr k" for sigs
    by (induction sigs arbitrary: k) (simp_all add: handled_signal setDBStatus_def)
  then show ?thesis
    using assms fold_signals [of "lr_before r" k] by (simp add: EDB_IS_DB_DOWN_def)
qed

end
