(* ===== verification/PmdMgrAll.thy ===== *)
theory PmdMgrAll
  imports PmdEntry
begin

text \<open>
  Every call of the EDU manager in one alphabet: those of \<open>PmdMgrRun\<close>, \<open>waitEDUPost\<close>, the calls that
  only read, and \<open>reset\<close> with \<open>_destroyAll\<close> in the steps between which the other threads run: the
  two flags, and then the counting and forcing rounds of its loops.
\<close>

datatype mgr_read = RdSize | RdRun | RdIdle | RdSystem | RdSystemEDU EDU_TYPES | RdCount nat

datatype mgr_op = Plain edu_op | OpWaitPost EDUID int "(bool \<times> pmdEDUEvent ossQueue) list"
  | OpRead mgr_read | OpGetEDU nat | OpGetByID EDUID | OpDestroy | OpRound nat nat

datatype mgr_answer = AnsCode int "EDUID option" | AnsEvent int "pmdEDUEvent option" | AnsNat nat
  | AnsBlock "cbp option" | AnsNone

fun read_call :: "tid \<Rightarrow> mgr_read \<Rightarrow> nat mgr_call" where
  "read_call t RdSize st = Ret (mgr_size st, st)"
| "read_call t RdRun st = sizeRun t st"
| "read_call t RdIdle st = sizeIdle t st"
| "read_call t RdSystem st = sizeSystem t st"
| "read_call t (RdSystemEDU type) st = getSystemEDU t type st"
| "read_call t (RdCount property) st = getEDUCount t property st"

text \<open>\<open>destroy_round\<close>: a turn of a loop of \<open>_destroyAll\<close> up to its sleep; \<open>True\<close> when the loop ends.\<close>

definition destroy_begin :: "pmdEDUMgr \<Rightarrow> pmdEDUMgr" where
  "destroy_begin st = st\<lparr>isDestroyed := True, isQuiesced := True\<rparr>"

definition destroy_round :: "tid \<Rightarrow> nat \<Rightarrow> nat \<Rightarrow> bool mgr_call" where
  "destroy_round t property timeCounter st = bnd (getEDUCount t property st) (\<lambda>(n, st).
     if n = 0 then Ret (True, st)
     else if timeCounter mod 50 = 0 then bnd (forceEDUs t property st) (\<lambda>(_, st). Ret (False, st))
     else Ret (False, st))"

fun mgr_do :: "tid \<Rightarrow> int \<Rightarrow> mgr_op \<Rightarrow> mgr_answer mgr_call" where
  "mgr_do t maxPool (Plain c) st = bnd (edu_do t maxPool c st) (\<lambda>((rc, i), st). Ret (AnsCode rc i, st))"
| "mgr_do t maxPool (OpWaitPost i ms wakes) st =
     bnd (waitEDUPost t i ms wakes st) (\<lambda>((rc, ev), st). Ret (AnsEvent rc ev, st))"
| "mgr_do t maxPool (OpRead r) st = bnd (read_call t r st) (\<lambda>(n, st). Ret (AnsNat n, st))"
| "mgr_do t maxPool (OpGetEDU k) st = bnd (getEDU t k st) (\<lambda>(p, st). Ret (AnsBlock p, st))"
| "mgr_do t maxPool (OpGetByID i) st = bnd (getEDUByID t i st) (\<lambda>(p, st). Ret (AnsBlock p, st))"
| "mgr_do t maxPool OpDestroy st = Ret (AnsNone, destroy_begin st)"
| "mgr_do t maxPool (OpRound property timeCounter) st =
     bnd (destroy_round t property timeCounter st) (\<lambda>(_, st). Ret (AnsNone, st))"

fun mgr_run :: "int \<Rightarrow> (tid \<times> mgr_op) list \<Rightarrow> mgr_answer list mgr_call" where
  "mgr_run maxPool [] st = Ret ([], st)"
| "mgr_run maxPool ((t, c) # cs) st = bnd (mgr_do t maxPool c st) (\<lambda>(r, st').
     bnd (mgr_run maxPool cs st') (\<lambda>(rs, st''). Ret (r # rs, st'')))"

section \<open>The loops of \<open>_destroyAll\<close> are these rounds\<close>

lemma drain_loop_round:
  "drain_loop t property k later st = bnd (destroy_round t property k st) (\<lambda>(finished, st').
     if finished then Ret (later, st') else
     (case later of [] \<Rightarrow> Wait | st'' # later' \<Rightarrow> drain_loop t property (u32_add k 1) later' st''))"
proof (cases "getEDUCount t property st")
  case (Ret x)
  obtain n st1 where x: "x = (n, st1)"
    by (cases x)
  show ?thesis
    using Ret x by (subst drain_loop.simps) (cases "forceEDUs t property st1"; auto simp: destroy_round_def split: list.split)
qed (subst drain_loop.simps; simp add: destroy_round_def)+

lemma destroyAll_rounds:
  "destroyAll t later st = bnd (drain_loop t EDU_USER 0 later (destroy_begin st)) (\<lambda>(later', st').
     bnd (drain_loop t EDU_ALL 0 later' st') (\<lambda>(_, st''). Ret (EDB_OK, st'')))"
  by (simp add: destroyAll_def destroy_begin_def)

section \<open>Waiting for an event of another EDU\<close>

text \<open>The wait ends, or there is no event and none comes.\<close>

lemma timed_pop_total:
  "(q_timed_wait_and_pop q wakes = Wait \<and> q = [] \<and> set (map snd wakes) \<subseteq> {[]}) \<or>
   (\<exists>r. q_timed_wait_and_pop q wakes = Ret r)"
  by (induction q wakes rule: q_timed_wait_and_pop.induct) auto

lemma wait_and_pop_Ret:
  "(q_wait_and_pop q wakes = Wait \<and> q = [] \<and> set wakes \<subseteq> {[]}) \<or> (\<exists>r. q_wait_and_pop q wakes = Ret r)"
  by (induction q wakes rule: q_wait_and_pop.induct) auto

definition no_event :: "(bool \<times> pmdEDUEvent ossQueue) list \<Rightarrow> pmdEDUCB \<Rightarrow> bool" where
  "no_event wakes cb \<longleftrightarrow> cb_queue cb = [] \<and> set (map snd wakes) \<subseteq> {[]}"

lemma wait_event_total:
  "(cb_waitEvent ms wakes cb = Wait \<and> no_event wakes cb) \<or> (\<exists>ev cb'. cb_waitEvent ms wakes cb = Ret (ev, cb'))"
proof -
  have q: "cb_queue (cb_wait_begin cb) = cb_queue cb"
    by (simp add: cb_wait_begin_def)
  show ?thesis
    using wait_and_pop_Ret [of "cb_queue cb" "map snd wakes"] timed_pop_total [of "cb_queue cb" wakes]
    by (auto simp: cb_waitEvent_def no_event_def q Let_def)
qed

lemma shared_latch:
  assumes "s_free (mgr_latch st)"
  obtains l where "s_get_shared t (mgr_latch st) = Ret l" "s_release_shared t l = Ret (mgr_latch st)"
  using assms shared_balanced [of "mgr_latch st" t] by (auto simp: s_free_def s_get_shared_def)

lemma rest_between: "mgr_inv st' \<Longrightarrow> same_rest st st' \<Longrightarrow> edu_view st' = (edu_view st)(i := map_option f (edu_view st i)) \<Longrightarrow>
    between st st'"
  by (auto simp: between_def same_rest_def alive_def split: if_splits)

lemma waitEDUPost_result:
  assumes "mgr_inv st" "s_free (mgr_latch st)"
  shows "(\<exists>r st'. waitEDUPost t i ms wakes st = Ret (r, st') \<and> between st st') \<or>
    (waitEDUPost t i ms wakes st = Wait \<and> (\<exists>p cb. find_edu i st = Some p \<and> cb_heap st p = Some cb \<and> no_event wakes cb))"
proof (cases "find_edu i st")
  case None
  have "waitEDUPost t i ms wakes st = Ret ((EDB_SYS, None), st)"
    unfolding waitEDUPost_def using None by (intro shared_Ret [OF assms(2)]) simp_all
  with between_refl [OF assms(1)] show ?thesis
    by blast
next
  case (Some p)
  obtain cb where cb: "cb_heap st p = Some cb"
    using mgr_inv_found [OF assms(1) Some] by blast
  obtain l where l: "s_get_shared t (mgr_latch st) = Ret l"
    using shared_latch [OF assms(2)] by blast
  consider "cb_waitEvent ms wakes cb = Wait" "no_event wakes cb" |
      ev cb' where "cb_waitEvent ms wakes cb = Ret (ev, cb')"
    using wait_event_total by blast
  then show ?thesis
  proof cases
    case 1
    with Some cb l have "waitEDUPost t i ms wakes st = Wait"
      by (simp add: waitEDUPost_def shared_def cb_at_def)
    with 1 Some cb show ?thesis
      by blast
  next
    case 2
    let ?st' = "st\<lparr>cb_heap := (cb_heap st)(p \<mapsto> cb')\<rparr>"
    have "waitEDUPost t i ms wakes st = Ret ((if ev = None then EDB_TIMEOUT else EDB_OK, ev), ?st')"
      unfolding waitEDUPost_def using Some cb 2
      by (intro shared_Ret [OF assms(2)]) (simp_all add: cb_at_def cb_upd_def)
    moreover have "between st ?st'"
      using waited_block [OF assms(1) Some cb 2] by (rule rest_between)
    ultimately show ?thesis
      by blast
  qed
qed

section \<open>Every call, and any sequence of them\<close>

lemma shared_reads:
  assumes "s_free (mgr_latch st)" "\<And>l. g (st\<lparr>mgr_latch := l\<rparr>) = g st"
  shows "shared t (\<lambda>st. Ret (g st, st)) st = Ret (g st, st)"
  by (rule shared_Ret [OF assms(1)]) (simp_all add: assms(2))

lemma read_call_result:
  assumes "s_free (mgr_latch st)"
  shows "\<exists>n. read_call t r st = Ret (n, st)"
  by (cases r; simp only: read_call.simps sizeRun_def sizeIdle_def sizeSystem_def getSystemEDU_def getEDUCount_def)
     (rule exI, (rule refl | rule shared_reads [OF assms]), simp?)+

lemma destroy_round_result:
  assumes "mgr_inv st" "s_free (mgr_latch st)"
  shows "\<exists>b st'. destroy_round t property k st = Ret (b, st') \<and> between st st'"
proof -
  obtain n where "getEDUCount t property st = Ret (n, st)"
    using read_call_result [OF assms(2), of t "RdCount property"] by auto
  moreover have "between st (forced_upd (force_hits property st) st)"
    unfolding forced_upd_def by (intro on_cbs_between assms(1) keeps_entry_if keeps_entry_basic)
  ultimately show ?thesis
    using forceEDUs_result [OF assms, of t property] between_refl [OF assms(1)]
    by (cases "n = 0"; cases "k mod 50 = 0") (auto simp: destroy_round_def)
qed

lemma destroy_begin_between:
  assumes "mgr_inv st"
  shows "between st (destroy_begin st)"
proof -
  have v: "edu_view (destroy_begin st) = edu_view st"
    by (simp add: destroy_begin_def edu_view_def fun_eq_iff split: option.split)
  have f: "find_edu i (destroy_begin st) = find_edu i st" for i
    by (simp add: destroy_begin_def find_edu_def split: option.split)
  have "mgr_inv (destroy_begin st)"
    using assms unfolding mgr_inv_def f by (simp add: destroy_begin_def)
  with v show ?thesis
    by (simp add: between_def alive_def) (simp add: destroy_begin_def)
qed

lemma mgr_do_between:
  assumes "mgr_inv st" "s_free (mgr_latch st)" "nextEDUID st + 1 < 18446744073709551615"
  shows "(\<exists>r st'. mgr_do t maxPool c st = Ret (r, st') \<and> between st st') \<or>
    (mgr_do t maxPool c st = Wait \<and> (\<exists>i ms wakes p cb. c = OpWaitPost i ms wakes \<and> find_edu i st = Some p \<and>
       cb_heap st p = Some cb \<and> no_event wakes cb))"
proof (cases c)
  case (Plain op)
  then show ?thesis
    using edu_do_between [OF assms, of t maxPool op] by auto
next
  case (OpWaitPost i ms wakes)
  then show ?thesis
    using waitEDUPost_result [OF assms(1,2), of t i ms wakes] by auto
next
  case (OpRead r)
  then show ?thesis
    using read_call_result [OF assms(2), of t r] between_refl [OF assms(1)] by auto
next
  case (OpGetEDU k)
  have "\<exists>r. getEDU t k st = Ret (r, st)"
    unfolding getEDU_def by (rule exI, rule shared_reads [OF assms(2)]) (simp split: option.split)
  with OpGetEDU between_refl [OF assms(1)] show ?thesis
    by auto
next
  case (OpGetByID i)
  have "\<exists>r. getEDUByID t i st = Ret (r, st)"
    unfolding getEDUByID_def by (rule exI, rule shared_reads [OF assms(2)]) simp
  with OpGetByID between_refl [OF assms(1)] show ?thesis
    by auto
next
  case OpDestroy
  then show ?thesis
    using destroy_begin_between [OF assms(1)] by simp
next
  case (OpRound property k)
  then show ?thesis
    using destroy_round_result [OF assms(1,2), of t property k] by auto
qed

text \<open>
  A sequence either comes to its end, or up to a \<open>waitEDUPost\<close> for an EDU that has no event and
  gets none.
\<close>

definition stops_waiting :: "int \<Rightarrow> (tid \<times> mgr_op) list \<Rightarrow> pmdEDUMgr \<Rightarrow> bool" where
  "stops_waiting maxPool cs st \<longleftrightarrow> (\<exists>pre t i ms wakes rest rs st' p cb.
     cs = pre @ (t, OpWaitPost i ms wakes) # rest \<and> mgr_run maxPool pre st = Ret (rs, st') \<and>
     mgr_inv st' \<and> find_edu i st' = Some p \<and> cb_heap st' p = Some cb \<and> no_event wakes cb)"

lemma stops_waiting_Cons:
  assumes "mgr_do t maxPool c st = Ret (r, st1)" "stops_waiting maxPool cs st1"
  shows "stops_waiting maxPool ((t, c) # cs) st"
proof -
  obtain pre u i ms wakes rest rs st' p cb where s: "cs = pre @ (u, OpWaitPost i ms wakes) # rest"
    "mgr_run maxPool pre st1 = Ret (rs, st')" "mgr_inv st' \<and> find_edu i st' = Some p \<and> cb_heap st' p = Some cb \<and> no_event wakes cb"
    using assms(2) unfolding stops_waiting_def by blast
  have "mgr_run maxPool ((t, c) # pre) st = Ret (r # rs, st')"
    using assms(1) s(2) by simp
  with s show ?thesis
    unfolding stops_waiting_def by (metis append_Cons)
qed

lemma mgr_run_safe:
  assumes "mgr_inv st" "s_free (mgr_latch st)" "nextEDUID st + length cs < 18446744073709551615"
  shows "(\<exists>rs st'. mgr_run maxPool cs st = Ret (rs, st') \<and> mgr_inv st' \<and> mgr_latch st' = mgr_latch st \<and>
     (\<forall>i < nextEDUID st. i \<notin> alive st \<longrightarrow> i \<notin> alive st') \<and> nextEDUID st \<le> nextEDUID st' \<and>
     nextEDUID st' \<le> nextEDUID st + length cs) \<or>
    (mgr_run maxPool cs st = Wait \<and> stops_waiting maxPool cs st)"
  using assms
proof (induction cs arbitrary: st)
  case (Cons c cs)
  obtain t op where c: "c = (t, op)"
    by (cases c)
  have "nextEDUID st + 1 < 18446744073709551615"
    using Cons.prems(3) by simp
  from mgr_do_between [OF Cons.prems(1,2) this, of t maxPool op] show ?case
  proof (elim disjE exE conjE, goal_cases)
    case (1 r st1)
    then have i: "mgr_inv st1" "mgr_latch st1 = mgr_latch st" "nextEDUID st \<le> nextEDUID st1"
        "nextEDUID st1 \<le> nextEDUID st + 1" "\<forall>i < nextEDUID st. i \<notin> alive st \<longrightarrow> i \<notin> alive st1"
      by (simp_all add: between_def)
    have "s_free (mgr_latch st1)" "nextEDUID st1 + length cs < 18446744073709551615"
      using i Cons.prems by simp_all
    from Cons.IH [OF i(1) this] show ?thesis
    proof (elim disjE exE conjE, goal_cases)
      case (1 rs st')
      then have "mgr_run maxPool (c # cs) st = Ret (r # rs, st')"
        using \<open>mgr_do t maxPool op st = Ret (r, st1)\<close> c by simp
      with 1 i show ?thesis
        by (intro disjI1 exI [of _ "r # rs"] exI [of _ st']) auto
    next
      case 2
      then have "mgr_run maxPool (c # cs) st = Wait"
        using \<open>mgr_do t maxPool op st = Ret (r, st1)\<close> c by simp
      moreover have "stops_waiting maxPool (c # cs) st"
        using stops_waiting_Cons [OF \<open>mgr_do t maxPool op st = Ret (r, st1)\<close>] 2 c by simp
      ultimately show ?thesis
        by blast
    qed
  next
    case (2 i ms wakes p cb)
    have "stops_waiting maxPool (c # cs) st"
      unfolding stops_waiting_def using 2 c Cons.prems(1)
      by (intro exI [of _ "[]"] exI [of _ t] exI [of _ i] exI [of _ ms] exI [of _ wakes] exI [of _ cs] exI [of _ "[]"]
          exI [of _ st] exI [of _ p] exI [of _ cb]) simp
    moreover have "mgr_run maxPool (c # cs) st = Wait"
      using 2 c by simp
    ultimately show ?thesis
      by blast
  qed
qed simp

end
