(* ===== verification/Spec2Isabelle.thy ===== *)
theory Spec2Isabelle
  imports BsonBounds BsonBoundsSpec BsonBuildSpec BsonBuilder BsonElement BsonNest BsonNestSpec
    BsonNumber BsonObj BsonObjSpec BsonOps BsonOpsSpec BsonOrder BsonOrderLaws
    BsonOrderSpec BsonQuery BsonQuerySpec BsonSpec BuildStack CMem Client
    ClientSpec Codec DmsDemo DmsFile DmsGrow DmsHistory DmsInv
    DmsLimits DmsPage DmsPageInv DmsSpec DmsStore Double LexCmp
    Msg MsgSpec Oid OssCore OssFile OssLatch OssQueue
    OssQueueRun OssSocket PdLog PmdAgent PmdAgentSpec PmdDemo PmdEDU
    PmdEDUMgr PmdEntry PmdKrcb PmdListener PmdMgrAll PmdMgrRun PmdMgrSpec
    Prelude RecordStore Rtn StdMap
begin

text \<open>
  Verification of the EmeraldDB server: its storage, the BSON documents it stores, its wire
  protocol, its thread pool, and the way from a line typed into the shell to a record in a page.

  1. The program.  A master thread (pmd/pmdMain.cpp) reads the options (pmd/pmdOptions.cpp) and
  starts, through the EDU manager (pmd/pmdEDUMgr.cpp), a listener (pmd/pmdTcpListener.cpp).  For
  every connection the listener starts an agent, an EDU of the same manager; every EDU runs the
  main loop of pmd/pmdEDU.cpp, waiting on its own queue of events (include/ossQueue.hpp).  An agent
  (pmd/pmdAgent.cpp) receives packets over its socket (oss/ossSocket.cpp), takes them apart
  (msg/msg.cpp), hands the document to the runtime (rtn/rtn.cpp) and sends back a reply.  The
  runtime calls the data file (dms/dms.cpp), which keeps BSON documents (bson/src) in pages of a
  file mapped into memory (oss/ossMmapFile.cpp) behind latches (include/ossLatch.hpp).  The shell
  (client/) turns a line into a command, builds the same messages and reads the replies.  All parts
  write to the diagnostic log (pd/pd.cpp).

  2. The outcome of C++ code.  Prelude has the type res of what a call may do: Ret, a value;
  Raise, an exception; Stuck, an access outside an allocation or another undefined step; Wait, it
  never returns or waits for something that the given environment does not supply.  A loop whose
  steps are read from the data is a partial_function of type res option, None when it runs for ever
  (type run): the BSON iteration and everything that calls it.  Machine integers are words (u8,
  u32, u64) or integers with the wrap-around written out (i32, u32 readings in Prelude).  Pages are
  regions of a byte-addressed memory (mem); C buffers are lists of bytes with an offset (CMem).
  What the operating system answers is a script, an argument of the operation: one entry per call
  of recv, select, write, open, nanosleep, realloc; when the script ends while the code would go
  on, the outcome is Wait.  So a statement for every script is a statement for every behaviour of
  the system, and no fuel is used for these loops.  The one bound is in Client (more_lines, the
  continuation lines of the shell): every turn consumes a character of the input, so the length of
  the input plus one suffices.

  3. The theories and the files under src/ they model.
    Prelude, CMem            the outcome type, memories, words, strings of the C library
    StdMap                   std::map as an ascending list of entries
    OssCore                  include/core.hpp (error codes), include/ossUtil.hpp (sleeping)
    OssLatch                 include/ossLatch.hpp: locale xlatch, interpreted for both latches;
                             interleavings of any threads as the step relation latch_step
    OssQueue, OssQueueRun    include/ossQueue.hpp: locale fifo, the calls as one thread sees them; the
                             statements of the calls of any number of threads as the relation q_move
    OssFile                  oss/ossPrimitiveFileOp.cpp, oss/ossMmapFile.cpp
    OssSocket                oss/ossSocket.cpp
    BsonElement              bson/src/bsontypes.h, bsonelement.h and the element part of bson-inl.h
    BsonObj                  bson/src/bsonobj.h, bsonobjiterator.h, look-ups of bson-inl.h, bsonobj.cpp
    Double                   the type double: what the comparisons and conversions look at
    BsonNumber               the numeric readings of an element (bsonelement.h)
    BsonOrder                woCompare, equal and woSortOrder (bsonobj.cpp, bson-inl.h), ordering.h
    BsonOrderSpec            the comparison of the abstract documents, and that the code computes it
    BsonOrderLaws            that it is a total preorder (locale total_preorder), and where it is not
    BsonBuilder              bson/src/util/builder.h, bsonobjbuilder.h
    BsonOps, BsonOpsSpec     bsonobj.cpp: selecting, renaming, flattening and checking of fields
    BsonBounds, BsonBoundsSpec
                             bsonobj.cpp: the bounds of a type, numbers from text
    BsonQuery, BsonQuerySpec bsonobj.cpp, bson-inl.h: query operators, dotted look-ups that go
                             through arrays, index keys, arrays as vectors
    BsonSpec, BsonObjSpec, BsonBuildSpec
                             the abstract documents (bval, fields), their encoding, and that the
                             code above computes on encodings what the abstract functions say
    LexCmp                   bsonobj.cpp: comparison of names with numbers in them, dotted names
    BuildStack               builders that write sub-documents into one buffer, as a stack
    BsonNest, BsonNestSpec   bsonobjiterator.h (sorted iteration), bson2map, embedded_builder.h and
                             dotted2nested
    Codec                    bson/src/util/hex.h, bson/lib/base64.h, base64.cpp
    Oid                      bson/src/oid.h, oid.cpp, bson/src/util/optime.h, bson/lib/atomic_int.h
    DmsPage, DmsFile         include/dms.hpp, include/dmsRecord.hpp, dms/dms.cpp
    DmsPageInv, DmsInv       the invariants of a page and of a file; dms_abs, the map from record
                             ids to documents a file stands for
    DmsSpec, DmsGrow, DmsStore, DmsLimits, DmsDemo
                             what each operation does to that map, extension of the file, latches
                             on every path, the limits of the code, a concrete file
    RecordStore, DmsHistory  locale record_store, the contract between runtime and storage, and its
                             histories; interpreted on the operations of dmsFile, with extensions
    Msg, MsgSpec             include/msg.hpp, msg/msg.cpp
    PmdEDU, PmdEDUMgr, PmdEntry
                             pmdEDU.cpp, pmdEDUEvent.hpp, pmdEDUMgr.cpp, the EDU main loop
    PmdMgrSpec, PmdMgrRun, PmdMgrAll, PmdDemo
                             the manager invariant, the table of transitions, histories of calls
                             (PmdMgrAll: of all calls, _destroyAll turn by turn)
    PmdKrcb                  pmd/pmdOptions.cpp, pmd/pmd.cpp, pmd/pmdMain.cpp
    PmdAgent, PmdAgentSpec   pmd/pmdAgent.cpp
    PmdListener              pmd/pmdTcpListener.cpp
    Rtn, PdLog               rtn/rtn.cpp, pd/pd.cpp
    Client, ClientSpec       client/edb.cpp, client/command.cpp, client/commandFactory.cpp
  Functions and fields keep their names; a leading underscore is dropped or doubled where HOL needs
  it.  A class is a record of its members; a method takes the record and returns it changed.

  4. What the properties show.  Storage: an insertion, removal and look-up do to the map dms_abs
  what a store promises, through compaction and extension, and so do histories of calls that
  return, one after the other; excepted is the one record id just behind the last slot of each
  page, where the code reads what is no slot.  The limits of the code are theorems of their own
  (records too large for any page, that slot, page ids after a reload).  BSON: sizes, accessors, iteration and look-ups on every encoded
  document equal their reference, a document built field by field is the document of those fields,
  and malformed data can make the loops run for ever.  The order of documents is the reference
  order, which is a total preorder as long as every 64-bit integer is the value of a double.  The
  operations on documents (selection, flattening, checks, bounds, queries) end on every document and
  build the documents their references say; nesting and flattening of dotted names invert each other, names
  compare by the numbers in them, object ids are unique and ordered, and texts of bytes are read
  back.  Wire protocol: what is built is what is
  extracted, in buffers of any size, and where the sizes overflow.  Composition: a document sent
  by a client is stored and answered (wire_insert_stored), the shell returns the code of the reply.
  EDU manager: the calls refine a table of transitions; in any history of calls, one after the
  other, no deleted block is touched, no id is used again, and every call returns but for a
  waitEDUPost without events; the loops of _destroyAll are covered turn by turn and may run for ever
  (edu_stranded_forever).  Operating system layer: files and sockets under every script, the queue
  under every interleaving of the statements of its calls, with no notification lost.

  5. Abstractions.  A latch is the set of its holders, with the semantics POSIX gives it, and but for
  the queue (OssQueueRun) a call of one thread is atomic up to its waits, so interleavings are
  sequences of calls.  Addresses are natural numbers, and mmap never
  hands out overlapping regions (its address is an argument, disjointness a hypothesis).  The text
  of a log entry and of BSONObj::toString is an argument of which only the outcome matters.
  EDB_ASSERT is empty, as in the release build.  The code is that of a little-endian machine with
  32-bit int and 64-bit pointers, the non-Windows branch of every conditional.

  6. Not modelled.  The JSON front end (bson/src/util/json.cpp) is a grammar of boost::spirit, and
  what fromjson returns is an argument of the shell.  Printing of elements and objects (toString,
  jsonString) formats with std::stringstream.  boost::program_options appears only through what it
  found or which exception it threw.  The stream operators and templates over containers of
  bsonobjbuilder.h, the array builder, md5, the calendar helpers of bson/src/util/time_support.h, and
  the Windows branches are left out; so are the help text of the server and the shell, gethostname, and the end of file on
  the shell's input.  Build files and the autoconf output hold no logic.
\<close>

section \<open>The properties\<close>

text \<open>
  C1: from the client to the storage and back: the message a client builds for a document whose first field is
  \<open>_id\<close>, received by an agent, binds one new record id to exactly the bytes of the document, and the
  reply the client takes apart carries the code of the insertion.
\<close>

theorem wire_insert_stored:
  assumes client: "mb_ok cmb" "obj_in doc fs" "can_grow cenv (12 + int (length (enc_obj fs))) cmb"
      "msgBuildInsert cenv cmb doc = Ret (EDB_OK, m)" "first_is_id fs"
    and packet: "ldi32 (mb_bytes m) 0 = Ret len" "b = take (nat len) (mb_bytes m) @ junk" "length b < 2147483648"
    and agent: "rq_toString env (b, 12) = Some (Ret ())" "rtn_dms r = Some d" "mb_ok mb" "can_grow (rq_realloc env) 16 mb"
    and storage: "dms_inv d" "s_free (dlatch d)" "n = length (enc_obj fs)" "n \<le> DMS_MAX_RECORD"
      "pid = findPage (n + sizeof_dmsRecord) d" "pid \<noteq> DMS_INVALID_PAGEID" "p = page_addr (body d) pid"
  shows "\<exists>rc mb' d'. pmdProcessAgentRequest t env b mb r = Some (Ret (rc, False, mb'), r\<lparr>rtn_dms := Some d'\<rparr>) \<and>
    msgExtraReply (mb_bytes mb') = Ret (Inr (rc, 0, None)) \<and> dms_inv d' \<and> dlatch d' = dlatch d \<and>
    (if no_room (vmem d) p n then rc = EDB_SYS \<and> dms_abs d' = dms_abs d
     else rc = EDB_OK \<and> dms_abs d (pid, numSlots (vmem d) p) = None \<and>
       dms_abs d' = (dms_abs d)((pid, numSlots (vmem d) p) \<mapsto> enc_obj fs))"
proof -
  have id: "map_of fs str_id \<noteq> None"
    using client(5) by (cases fs) (auto simp: first_is_id_def)
  note o1 = insert_received(5) [OF client(1-4) packet]
  obtain rc x d' where ins: "dms_insert t (b, 12) (rq_retry env) d = Some (Ret (rc, x), d')" "dms_inv d'" "dlatch d' = dlatch d"
    "if no_room (vmem d) p n then rc = EDB_SYS \<and> dms_abs d' = dms_abs d
     else rc = EDB_OK \<and> dms_abs d (pid, numSlots (vmem d) p) = None \<and>
       dms_abs d' = (dms_abs d)((pid, numSlots (vmem d) p) \<mapsto> enc_obj fs)"
    using insert_stores [OF storage(1,2) o1 id storage(3-7), of t "rq_retry env"] by (auto simp: Let_def split: if_splits)
  then have "- 2147483648 \<le> rc" "rc < 2147483648"
    by (auto simp: edb_codes split: if_splits)
  from process_insert [OF client(1-4) packet agent client(5) ins(1) this] ins(2-4) show ?thesis
    by blast
qed

theorem wire_insert_stored_witness:
  "\<exists>m rc mb' d'. msgBuildInsert (Some (\<lambda>_. 0)) \<lparr>mb_bytes = [], mb_size = 0\<rparr> (demo_doc, 0) = Ret (EDB_OK, m) \<and>
    pmdProcessAgentRequest 1 demo_request (take 26 (mb_bytes m) @ [0]) \<lparr>mb_bytes = replicate 16 0, mb_size = 16\<rparr> (rtn_new\<lparr>rtn_dms := Some demo_file\<rparr>) =
      Some (Ret (rc, False, mb'), rtn_new\<lparr>rtn_dms := Some d'\<rparr>) \<and> dms_inv d'"
proof -
  have mb: "mb_ok \<lparr>mb_bytes = [], mb_size = 0\<rparr>" "mb_ok \<lparr>mb_bytes = replicate 16 0, mb_size = 16\<rparr>"
    by (simp_all add: mb_ok_def)
  have l: "length (enc_obj demo_fields) = 14"
    using demo_doc_valid(2) by (simp add: demo_doc_def)
  obtain m where m: "msgBuildInsert (Some (\<lambda>_. 0)) \<lparr>mb_bytes = [], mb_size = 0\<rparr> (demo_doc, 0) = Ret (EDB_OK, m)"
      "ldi32 (mb_bytes m) 0 = Ret 26"
    using insert_roundtrip [OF mb(1) demo_doc_in, of "Some (\<lambda>_. 0)"] l by (auto simp: can_grow_def)
  have c: "can_grow (Some (\<lambda>_. 0)) (12 + int (length (enc_obj demo_fields))) \<lparr>mb_bytes = [], mb_size = 0\<rparr>" "first_is_id demo_fields"
    "rq_toString demo_request x = Some (Ret ())" "rtn_dms (rtn_new\<lparr>rtn_dms := Some demo_file\<rparr>) = Some demo_file"
    "can_grow (rq_realloc demo_request) 16 \<lparr>mb_bytes = replicate 16 0, mb_size = 16\<rparr>"
    "14 \<le> DMS_MAX_RECORD" "findPage (14 + sizeof_dmsRecord) demo_file \<noteq> DMS_INVALID_PAGEID" for x
    using demo_find(1) [of 14] by (simp_all add: can_grow_def first_is_id_def demo_fields_def demo_request_def layout_simps)
  have b: "take 26 (mb_bytes m) @ [0] = take (nat 26) (mb_bytes m) @ [0]" "length (take 26 (mb_bytes m) @ [0]) < 2147483648"
    by (simp_all add: min_def)
  from wire_insert_stored [OF mb(1) demo_doc_in c(1) m(1) c(2) m(2) b c(3,4) mb(2) c(5) demo_file_inv(1,2) l [symmetric] c(6) refl c(7) refl, of 1]
  show ?thesis
    using m(1) by auto
qed

text \<open>
  C2: insertion refines the map: a valid document with an \<open>_id\<close> and at most \<open>DMS_MAX_RECORD\<close> bytes, when
  \<open>_findPage\<close> finds a page, is stored under a record id nobody had, every other document stays, the
  returned address holds its bytes and the latches are given back; if the page found has no room
  after all the answer is \<open>EDB_SYS\<close> and no document changed.
\<close>

theorem dms_insert_stores:
  assumes "dms_inv st" "s_free (dlatch st)" "obj_in record fs" "map_of fs str_id \<noteq> None"
    and n: "n = length (enc_obj fs)" "n \<le> DMS_MAX_RECORD"
    and pid: "pid = findPage (n + sizeof_dmsRecord) st" "pid \<noteq> DMS_INVALID_PAGEID"
    and p: "p = page_addr (body st) pid"
  shows "\<exists>st'. dms_inv st' \<and> dlatch st' = dlatch st \<and> extendMutex st' = extendMutex st \<and>
    (if no_room (vmem st) p n
     then dms_insert t record evs st = Some (Ret (EDB_SYS, None), st') \<and> dms_abs st' = dms_abs st
     else let sid = numSlots (vmem st) p in \<exists>a.
       dms_insert t record evs st = Some (Ret (EDB_OK, Some (\<lparr>r_pageID = pid, r_slotID = sid\<rparr>, a)), st') \<and>
       dms_abs st (pid, sid) = None \<and> dms_abs st' = (dms_abs st)((pid, sid) \<mapsto> enc_obj fs) \<and>
       rdb (vmem st') a n = enc_obj fs)"
  by (rule insert_stores [OF assms])

theorem dms_insert_stores_witness:
  "\<exists>st'. dms_inv st' \<and> dlatch st' = dlatch demo_file \<and> extendMutex st' = extendMutex demo_file \<and>
    (if no_room (vmem demo_file) (page_addr (body demo_file) demo_pid) 14
     then dms_insert 1 (demo_doc, 0) [] demo_file = Some (Ret (EDB_SYS, None), st') \<and>
       dms_abs st' = dms_abs demo_file
     else let sid = numSlots (vmem demo_file) (page_addr (body demo_file) demo_pid) in \<exists>a.
       dms_insert 1 (demo_doc, 0) [] demo_file =
         Some (Ret (EDB_OK, Some (\<lparr>r_pageID = demo_pid, r_slotID = sid\<rparr>, a)), st') \<and>
       dms_abs demo_file (demo_pid, sid) = None \<and>
       dms_abs st' = (dms_abs demo_file)((demo_pid, sid) \<mapsto> enc_obj demo_fields) \<and>
       rdb (vmem st') a 14 = enc_obj demo_fields)"
  by (rule dms_insert_stores [OF demo_file_inv(1,2) demo_doc_in])
    (use demo_pid demo_doc_valid(2) in \<open>simp_all add: demo_pid_def demo_doc_def demo_fields_def layout_simps\<close>)

text \<open>
  C3: whole histories: after any sequence of insertions that return (through any number of extensions of
  the file that succeed or fail) and removals, the invariant holds, the map is the one the calls
  describe, and the file answers every look-up with what the history left under that record id,
  save the id just behind the last slot of a page, under which nothing is stored.
\<close>

theorem dms_history_correct:
  assumes "store_inv st" "dms_store.history st (dms_abs st) st' docs"
  shows "store_inv st' \<and> dms_abs st' = docs \<and>
    (\<forall>t k. docs k \<noteq> None \<or> \<not> behind_last st' k \<longrightarrow> store_get t k st' = docs k)"
  using dms_store.history_abs [OF assms(2,1)] dms_store.history_get [OF assms(2,1)] by blast

theorem dms_history_correct_witness:
  "\<exists>k st'. store_ins 1 [Extend (good_env 65536)] demo_doc demo_empty = Some (Some k, st') \<and>
    dms_abs st' = [k \<mapsto> demo_doc] \<and> store_get 2 k st' = Some demo_doc"
proof -
  have inv: "store_inv demo_empty"
    by (simp add: store_inv_def demo_empty_inv)
  have abs: "dms_abs demo_empty = Map.empty"
    by (simp add: dms_abs_def npages_def demo_empty_inv fun_eq_iff)
  obtain k st' where run: "store_ins 1 [Extend (good_env 65536)] demo_doc demo_empty = Some (Some k, st')"
    using demo_store_ins by blast
  have "dms_store.history demo_empty (dms_abs demo_empty) st' ((dms_abs demo_empty)(k \<mapsto> demo_doc))"
    by (rule dms_store.hist_ins [OF dms_store.hist_nil demo_doc_valid(3) demo_ext_ok run])
  note h = dms_history_correct [OF inv this]
  have "dms_abs st' = [k \<mapsto> demo_doc]"
    using h abs by simp
  moreover have "store_get 2 k st' = Some demo_doc"
    using h [THEN conjunct2, THEN conjunct2, rule_format, of k 2] by simp
  ultimately show ?thesis
    using run by blast
qed

text \<open>
  C4: \<open>remove\<close> deletes one binding of the map, keeps the invariant and gives the latch back; an id
  without a document, other than the one just behind the last slot of its page, is refused and the
  state is what it was.
\<close>

theorem dms_remove_refines:
  assumes "dms_inv st" "s_free (dlatch st)" "k = (r_pageID rid, r_slotID rid)"
    and "r_pageID rid < npages (body st) \<Longrightarrow>
      r_slotID rid \<noteq> numSlots (vmem st) (page_addr (body st) (r_pageID rid))"
  shows "\<exists>st'. dms_remove t rid st = (Ret (if dms_abs st k = None then EDB_SYS else EDB_OK), st') \<and>
    dms_inv st' \<and> dms_abs st' = (dms_abs st)(k := None) \<and> dlatch st' = dlatch st \<and>
    (dms_abs st k = None \<longrightarrow> st' = st)"
  using dms_remove_ok [OF assms(1,2), of rid _ t] dms_remove_bad [OF assms(1,2) _ assms(4), of t] assms(1,3)
  by (cases "dms_abs st k") (auto simp: fun_upd_idem)

theorem dms_remove_refines_witness:
  "\<exists>st'. dms_remove 1 \<lparr>r_pageID = demo_pid, r_slotID = 0\<rparr> demo_stored = (Ret EDB_OK, st') \<and>
    dms_inv st' \<and> dms_abs st' = Map.empty \<and> dlatch st' = dlatch demo_stored"
  using dms_remove_refines [OF demo_insert(2,3), of "(demo_pid, 0)" "\<lparr>r_pageID = demo_pid, r_slotID = 0\<rparr>" 1]
    demo_insert(4) demo_stored_slots
  by simp

text \<open>
  C5: \<open>find\<close> reads the map: for every record id but the one just behind the last slot of its page the
  answer is the stored document, or \<open>EDB_SYS\<close> when there is none, and the file and the shared latch
  are as before, whatever other readers hold it.
\<close>

theorem dms_find_refines:
  assumes "dms_inv st" "writer (dlatch st) = None"
    and "r_pageID rid < npages (body st) \<Longrightarrow>
      r_slotID rid \<noteq> numSlots (vmem st) (page_addr (body st) (r_pageID rid))"
  shows "dms_find t rid st =
    (Ret (case dms_abs st (r_pageID rid, r_slotID rid) of
       Some bs \<Rightarrow> (EDB_OK, Some bs) | None \<Rightarrow> (EDB_SYS, None)), st)"
  using dms_find_ok [OF assms(1,2)] dms_find_bad [OF assms(1,2) _ assms(3)]
  by (cases "dms_abs st (r_pageID rid, r_slotID rid)") simp_all

theorem dms_find_refines_witness:
  "dms_find 2 \<lparr>r_pageID = demo_pid, r_slotID = 0\<rparr> demo_stored = (Ret (EDB_OK, Some demo_doc), demo_stored)"
  using dms_find_refines [OF demo_insert(2), of "\<lparr>r_pageID = demo_pid, r_slotID = 0\<rparr>" 2]
    demo_insert(3,4) demo_stored_slots
  by (simp add: s_free_def)

text \<open>
  C6: when no page is found the file is extended by a segment and the insertion then succeeds: what
  \<open>_findPage\<close> finds after the extension is one of the 32 new pages, whose ids are the next free
  ones; documents and latches are as they should be.  The record must fit a fresh page: it has at
  most 4194264 bytes.
\<close>

theorem dms_insert_extends_file:
  assumes "dms_inv st" "npages (body st) + 32 < 4294967295" "s_free (dlatch st)" "extendMutex st = None"
    "mlatch st = None" "x_map env = Inl base" "fresh_base base st" "header_apart st"
    "findPage (length bs + 8) st = DMS_INVALID_PAGEID" "rec_valid bs" "length bs + 12 \<le> 4194276"
    "extendSegment t env (st\<lparr>extendMutex := Some t\<rparr>) = Ret (EDB_OK, st1)"
  shows "\<exists>rid a st'. insert_retry t bs (int (length bs)) (Extend env # evs) st =
      (Ret (EDB_OK, Some (rid, a)), st') \<and> dms_inv st' \<and>
      dms_abs st' = (dms_abs st)((r_pageID rid, r_slotID rid) \<mapsto> bs) \<and>
      dms_abs st (r_pageID rid, r_slotID rid) = None \<and> dlatch st' = dlatch st \<and> extendMutex st' = None"
  by (rule insert_retry_extends [OF assms])

theorem dms_insert_extends_file_witness:
  "\<exists>rid a st'. insert_retry 1 demo_doc 14 [Extend (good_env 65536)] demo_empty =
      (Ret (EDB_OK, Some (rid, a)), st') \<and> dms_inv st' \<and>
      dms_abs st' = [(r_pageID rid, r_slotID rid) \<mapsto> demo_doc]"
proof -
  have "dms_abs demo_empty = Map.empty"
    by (simp add: dms_abs_def npages_def demo_empty_inv fun_eq_iff)
  moreover obtain st1 where "extendSegment 1 (good_env 65536) (demo_empty\<lparr>extendMutex := Some 1\<rparr>) = Ret (EDB_OK, st1)"
    using extendSegment_good [of "demo_empty\<lparr>extendMutex := Some 1\<rparr>" 0 1 65536] demo_empty_inv
    by (auto simp: demo_empty_def fop_isValid_def)
  ultimately show ?thesis
    using dms_insert_extends_file [OF demo_empty_inv(1) demo_room demo_empty_inv(2,8,3) demo_base
      demo_empty_inv(5,4) _ demo_doc_valid(1), of 1 st1 "[]"] demo_empty_inv(7) demo_doc_valid(2)
    by (auto simp: findPage_def)
qed

text \<open>
  C7: build and read back: a new builder of any initial size, one append per field and \<open>obj()\<close> give a
  document whose bytes are the encoding of the fields; iteration finds as many fields with the same
  names in the same order, and \<open>getField\<close> finds under each name the value appended.
\<close>

theorem build_roundtrip:
  assumes "wf_fields fs" "int (length (enc_obj fs)) \<le> BSONObjMaxInternalSize" "length room = 4" "initsize \<le> 33554432" "cname name"
  shows "\<exists>doc. bnd (ob_new False room initsize) (\<lambda>ob. bnd (ob_values fs ob) ob_obj) = Ret doc \<and>
    fst doc = le32 0 @ enc_obj fs \<and> nFields doc = Some (Ret (length fs)) \<and>
    getFieldNames doc = Some (Ret (map fst fs, length fs)) \<and>
    (\<exists>e. getField doc name = Some (Ret e) \<and> finds (fst doc) e (map_of fs name))"
  using build_document [OF assms(1-4)] nFields_in getFieldNames_in getField_finds [OF _ assms(5)] by fastforce

theorem build_roundtrip_witness:
  "\<exists>doc. bnd (ob_new False [9, 9, 9, 9] 0) (\<lambda>ob. bnd (ob_values nested_fields ob) ob_obj) = Ret doc \<and>
    nFields doc = Some (Ret 1)"
proof -
  have "wf_fields nested_fields" "int (length (enc_obj nested_fields)) \<le> BSONObjMaxInternalSize" "cname [0x61]"
    by (simp_all add: nested_fields_def cname_def length_enc_obj BSONObjMaxInternalSize_def)
  from build_roundtrip [OF this(1,2) _ _ this(3), of "[9, 9, 9, 9]" 0] show ?thesis
    by (auto simp: nested_fields_def)
qed

text \<open>
  C8: the life cycle of an EDU is the table of transitions: each of \<open>waitEDU\<close>, \<open>activateEDU\<close> and
  \<open>returnEDU\<close> changes the entry of the EDU it names as \<open>spec_wait\<close>, \<open>spec_activate\<close>, and \<open>spec_destroy\<close> or
  \<open>spec_deactivate\<close> say, with their code, and nothing else; an EDU is destroyed for one of the four
  reasons of \<open>must_go\<close> only, and its thread is told so exactly when it was.
\<close>

theorem edu_lifecycle_refines:
  assumes "mgr_inv st" "s_free (mgr_latch st)"
  shows "refines (waitEDU t i) i spec_wait st \<and> refines (activateEDU t i) i spec_activate st \<and>
    (if i \<notin> alive st then returnEDU t maxPool i force st = Ret ((EDB_SYS, False), st)
     else let r = (if must_go maxPool i force st then spec_destroy else spec_deactivate) (edu_view st i) in
       \<exists>st'. returnEDU t maxPool i force st = Ret ((fst r, fst r = EDB_OK \<and> must_go maxPool i force st), st') \<and>
         mgr_inv st' \<and> mgr_latch st' = mgr_latch st \<and> edu_view st' = (edu_view st)(i := snd r))"
  using waitEDU_refines [OF assms, of t i] activateEDU_refines [OF assms, of t i] returnEDU_unknown [OF assms, of i t maxPool force]
    returnEDU_result [OF assms, of i t maxPool force]
  by (auto simp: Let_def)

theorem edu_lifecycle_refines_witness:
  "refines (waitEDU 3 1) 1 spec_wait (demo_run PMD_EDU_RUNNING [])"
  using edu_lifecycle_refines [where st = "demo_run PMD_EDU_RUNNING []" and t = 3 and i = 1]
    demo_run_ok(1,2) [of PMD_EDU_RUNNING "[]"]
  by simp

text \<open>
  C9: whatever the threads call on the manager and in whatever order, every call returns, save a
  \<open>waitEDUPost\<close> for an EDU without events: no deleted block is touched and no latch is left behind;
  the invariant holds in between; and an id whose EDU is gone is never used again.  \<open>_destroyAll\<close> is
  in it turn by turn; that its loops end is not claimed.
\<close>

theorem edu_history_safe:
  assumes "length cs + length ds < 18446744073709551614"
  shows "(\<exists>rs st ss st'. mgr_run maxPool cs mgr_init = Ret (rs, st) \<and> mgr_run maxPool ds st = Ret (ss, st') \<and>
      mgr_inv st \<and> mgr_inv st' \<and> s_free (mgr_latch st) \<and> s_free (mgr_latch st') \<and>
      (\<forall>i < nextEDUID st. i \<notin> alive st \<longrightarrow> i \<notin> alive st')) \<or>
    (mgr_run maxPool cs mgr_init = Wait \<and> stops_waiting maxPool cs mgr_init) \<or>
    (\<exists>rs st. mgr_run maxPool cs mgr_init = Ret (rs, st) \<and> mgr_run maxPool ds st = Wait \<and> stops_waiting maxPool ds st)"
proof -
  have i: "nextEDUID mgr_init = 1" "nextEDUID mgr_init + length cs < 18446744073709551615"
    using assms by (simp_all add: mgr_init_def)
  from mgr_run_safe [OF mgr_inv_init(1,3) i(2), of maxPool] show ?thesis
  proof (elim disjE exE conjE, goal_cases)
    case (1 rs st)
    then have "s_free (mgr_latch st)" "nextEDUID st + length ds < 18446744073709551615"
      using assms i mgr_inv_init(3) by simp_all
    from mgr_run_safe [OF 1(2) this, of maxPool] 1 \<open>s_free (mgr_latch st)\<close> show ?thesis
      by (elim disjE exE conjE) auto
  qed blast
qed

theorem edu_history_safe_witness:
  "\<exists>rs st ss st'. mgr_run 5 [(2, OpWaitPost 1 0 []), (1, Plain (OpStart True True EDU_TYPE_AGENT 7))] mgr_init = Ret (rs, st) \<and>
    mgr_run 5 [(2, Plain (OpReturn 1 True)), (3, OpDestroy), (3, OpRound EDU_USER 0)] st = Ret (ss, st') \<and>
    mgr_inv st \<and> mgr_inv st' \<and> s_free (mgr_latch st) \<and> s_free (mgr_latch st') \<and>
    (\<forall>i < nextEDUID st. i \<notin> alive st \<longrightarrow> i \<notin> alive st')"
proof -
  let ?cs = "[(2, OpWaitPost 1 0 []), (1, Plain (OpStart True True EDU_TYPE_AGENT 7))]"
  let ?ds = "[(2, Plain (OpReturn 1 True)), (3, OpDestroy), (3, OpRound EDU_USER 0)]"
  have "\<not> stops_waiting 5 ?cs mgr_init"
    by (auto simp: stops_waiting_def Cons_eq_append_conv find_edu_def mgr_init_def)
  moreover have "\<not> stops_waiting 5 ?ds st" for st
    by (auto simp: stops_waiting_def Cons_eq_append_conv)
  ultimately show ?thesis
    using edu_history_safe [of ?cs ?ds 5] by auto
qed

text \<open>
  C10: a reply is read back as it was built: for every return code, with a document or without one, and
  whatever buffer was passed in, the extracted code, count and document are those put in, and the
  length word counts the bytes the peer has to send.
\<close>

theorem msg_reply_roundtrip:
  assumes "mb_ok mb" "-2147483648 \<le> rc" "rc < 2147483648"
    and "case r of None \<Rightarrow> len = 16 | Some (o1, fs) \<Rightarrow> obj_in o1 fs \<and> len = 16 + int (length (enc_obj fs))"
    and "can_grow env len mb"
  shows "\<exists>mb'. msgBuildReply env mb rc (map_option fst r) = Ret (EDB_OK, mb') \<and> mb_ok mb' \<and>
    ldi32 (mb_bytes mb') 0 = Ret len \<and>
    msgExtraReply (mb_bytes mb') =
      Ret (Inr (rc, if r = None then 0 else 1, if r = None then None else Some (mb_bytes mb', 16))) \<and>
    (\<forall>o1 fs. r = Some (o1, fs) \<longrightarrow> obj_in (mb_bytes mb', 16) fs)"
proof (cases r)
  case None
  with reply_empty_roundtrip [OF assms(1-3), of env] assms(4,5) show ?thesis
    by auto
next
  case (Some x)
  then obtain o1 fs where r: "r = Some (o1, fs)"
    by (cases x) simp
  with reply_roundtrip [OF assms(1-3), of o1 fs env] assms(4,5) show ?thesis
    by auto
qed

theorem msg_reply_roundtrip_witness:
  "\<exists>mb'. msgBuildReply (Some (\<lambda>_. 0)) \<lparr>mb_bytes = [], mb_size = 0\<rparr> (- 17) (Some (demo_doc, 0)) = Ret (EDB_OK, mb') \<and>
    ldi32 (mb_bytes mb') 0 = Ret 30 \<and>
    msgExtraReply (mb_bytes mb') = Ret (Inr (- 17, 1, Some (mb_bytes mb', 16))) \<and>
    obj_in (mb_bytes mb', 16) demo_fields"
proof -
  have "mb_ok \<lparr>mb_bytes = [], mb_size = 0\<rparr>"
    by (simp add: mb_ok_def)
  from msg_reply_roundtrip [OF this, where rc = "- 17" and r = "Some ((demo_doc, 0), demo_fields)" and len = 30
      and env = "Some (\<lambda>_. 0)"]
  show ?thesis
    using demo_doc_in demo_doc_valid(2) by (auto simp: can_grow_def demo_doc_def)
qed

text \<open>
  C11: both functions that compute the size of an element, with and without a bound, agree with the length
  of its encoding, for every one of the twenty types and for every bound that covers the element.
\<close>

theorem elem_size_correct:
  assumes "elem_in b p f" "elem_of b p f e"
  shows "elem_size e = Ret (int (length (enc_elem f))) \<and>
    (\<forall>m. int (length (enc_elem f)) \<le> m \<and> m < 2147483648 \<longrightarrow>
       elem_size_max e m = Ret (int (length (enc_elem f))))"
  using elem_size_in [OF assms] elem_size_max_in [OF assms] by blast

theorem elem_size_correct_witness:
  "elem_size (raw_elem (enc_elem string_field) 0) = Ret 10 \<and>
   elem_size_max (raw_elem (enc_elem string_field) 0) 100 = Ret 10"
  using elem_size_correct [OF string_field_in raw_elem_of] by (simp add: string_field_def length_enc_elem)

text \<open>
  C12: the three look-ups end on every document and find what the abstract look-ups on its fields name:
  the first field of that name, the path through embedded documents and arrays, and the path that
  stops at an array with the rest of the name left over.
\<close>

theorem dotted_lookup_correct:
  assumes "obj_in o1 fs" "cname name"
  shows "(\<exists>e. getField o1 name = Some (Ret e) \<and> finds (fst o1) e (map_of fs name)) \<and>
    (\<exists>e. getFieldDotted o1 name = Some (Ret e) \<and> finds (fst o1) e (dotted_lookup fs name)) \<and>
    (\<exists>e. getFieldDottedOrArray o1 name = Some (Ret (e, snd (array_lookup fs name))) \<and>
      finds (fst o1) e (fst (array_lookup fs name)))"
  using getField_finds [OF assms] getFieldDotted_finds [OF assms] getFieldDottedOrArray_finds [OF assms]
  by blast

theorem dotted_lookup_correct_witness:
  "\<exists>e. getFieldDotted (enc_obj nested_fields, 0) [0x61, 0x2E, 0x62] = Some (Ret e) \<and>
     finds (enc_obj nested_fields) e (Some (VString [0x68, 0x69]))"
proof -
  have "dotted_lookup nested_fields [0x61, 0x2E, 0x62] = Some (VString [0x68, 0x69])"
    by (simp add: nested_fields_def split_dot_def)
  then show ?thesis
    using dotted_lookup_correct [OF nested_in, of "[0x61, 0x2E, 0x62]"] by (simp add: cname_def)
qed

text \<open>
  C13: the iterators visit each field of a document once and in order and then stop, whatever the document:
  its number of fields, its names and its elements are those of the abstract document.
\<close>

theorem iteration_complete:
  assumes "obj_in o1 fs"
  shows "nFields o1 = Some (Ret (length fs)) \<and> getFieldNames o1 = Some (Ret (map fst fs, length fs)) \<and>
    (\<exists>es. elems o1 = Some (Ret es) \<and> list_all2 (\<lambda>e f. finds (fst o1) e (Some (snd f))) es fs)"
  using nFields_in [OF assms] getFieldNames_in [OF assms] elems_in [OF assms] by blast

theorem iteration_complete_witness:
  "nFields (enc_obj nested_fields, 0) = Some (Ret 1) \<and>
   getFieldNames (enc_obj nested_fields, 0) = Some (Ret ([[0x61]], 1))"
  using iteration_complete [OF nested_in] by (simp add: nested_fields_def)

text \<open>
  C14: the two comparisons of objects, one with a key pattern as a document and one with the bits of an
  \<open>Ordering\<close>, end on every pair of documents and give one and the same answer, that of the
  reference comparison of the abstract fields (canonical type, then name, then value, the fields of
  negative keys reversed).
\<close>

theorem wo_compare_refines:
  assumes "obj_in o1 fs" "obj_in o2 gs" "obj_in key ks"
    and "ks = [] \<or> min (length fs) (length gs) \<le> length ks"
  shows "woCompare o1 o2 key names = Some (Ret (kcmp names (map key_neg ks) fs gs)) \<and>
    (length ks \<le> 32 \<longrightarrow> (\<exists>od. od_make key = Some (Ret od) \<and>
      woCompare_ord o1 o2 od names = Some (Ret (kcmp names (map key_neg ks) fs gs))))"
  using woCompare_in [OF assms] woCompare_ord_in [OF assms(1-3)] by blast

theorem wo_compare_refines_witness:
  "woCompare (enc_obj nested_fields, 0) (enc_obj nested_fields, 0) (enc_obj nested_fields, 0) True
     = Some (Ret 0)"
proof -
  have "kcmp True (map key_neg nested_fields) nested_fields nested_fields = 0"
    by (simp add: nested_fields_def ecmp_def flat_cmp_def upto0_def Let_def)
  then show ?thesis
    using wo_compare_refines [OF nested_in nested_in nested_in, of True] by simp
qed

text \<open>
  C15: what a sort relies on: over documents whose 64-bit integers are values of a \<open>double\<close> the code's
  comparison, without a key pattern or with one that covers the longest document, is a total preorder: a document is equal to itself, exchanging the
  arguments exchanges less and greater, and both "not greater" and "less" are transitive.
\<close>

theorem wo_order_laws:
  assumes "obj_in o1 fs" "obj_in o2 gs" "obj_in o3 hs" "exact_fields fs" "exact_fields gs" "exact_fields hs"
    and "obj_in key ks" "ks = [] \<or> max (length fs) (max (length gs) (length hs)) \<le> length ks"
  shows "\<exists>a b x y z. woCompare o1 o1 key names = Some (Ret 0) \<and>
    woCompare o1 o2 key names = Some (Ret a) \<and> woCompare o2 o1 key names = Some (Ret b) \<and>
    woCompare o2 o3 key names = Some (Ret y) \<and> woCompare o1 o3 key names = Some (Ret z) \<and>
    (a < 0 \<longleftrightarrow> b > 0) \<and> (a = 0 \<longleftrightarrow> b = 0) \<and> (a \<le> 0 \<and> y \<le> 0 \<longrightarrow> z \<le> 0) \<and> (a < 0 \<and> y \<le> 0 \<longrightarrow> z < 0)"
proof -
  let ?c = "kcmp names (map key_neg ks)"
  have ok: "ok_fields fs" "ok_fields gs" "ok_fields hs"
    using assms by (auto simp: ok_fields_def obj_in_def)
  have run: "woCompare o1 o1 key names = Some (Ret (?c fs fs))" "woCompare o1 o2 key names = Some (Ret (?c fs gs))"
    "woCompare o2 o1 key names = Some (Ret (?c gs fs))" "woCompare o2 o3 key names = Some (Ret (?c gs hs))"
    "woCompare o1 o3 key names = Some (Ret (?c fs hs))"
    by (rule woCompare_in [OF _ _ assms(7)]; (rule assms(1-3) | use assms(8) in auto))+
  have "?c fs fs = 0" "?c fs gs < 0 \<longleftrightarrow> ?c gs fs > 0" "?c fs gs = 0 \<longleftrightarrow> ?c gs fs = 0"
    "?c fs gs \<le> 0 \<and> ?c gs hs \<le> 0 \<longrightarrow> ?c fs hs \<le> 0" "?c fs gs < 0 \<and> ?c gs hs \<le> 0 \<longrightarrow> ?c fs hs < 0"
    using wo.refl [OF ok(1)] wo.sym_sign [OF ok(1,2)] wo.le_trans [OF ok] wo.less_le_trans [OF ok]
    by (auto simp: anti2_def)
  then show ?thesis
    using run by auto
qed

theorem wo_order_laws_witness:
  "woCompare (enc_obj nested_fields, 0) (enc_obj nested_fields, 0) (enc_obj nested_fields, 0) False
     = Some (Ret 0)"
proof -
  have "exact_fields nested_fields"
    by (simp add: nested_fields_def)
  from wo_order_laws [OF nested_in nested_in nested_in this this this nested_in, of False] show ?thesis
    by auto
qed

text \<open>
  C16: sorting by a key compares, field by field of the key, what the look-up of its name finds in each
  document (null when it finds nothing), reversed for a negative key, and ends always; empty
  documents come first, and an empty key is refused.
\<close>

theorem sort_order_correct:
  assumes "obj_in o1 fs" "obj_in o2 gs" "obj_in key ks"
  shows "woSortOrder o1 o2 key useDotted = Some (if fs = [] then Ret (if gs = [] then 0 else - 1)
    else if gs = [] then Ret 1 else if ks = [] then Raise 10060 else Ret (sort_cmp useDotted ks fs gs))"
proof (cases "ks = []")
  case True
  then show ?thesis
    using obj_isEmpty_in [OF assms(1)] obj_isEmpty_in [OF assms(2)] obj_isEmpty_in [OF assms(3)]
    by (simp add: woSortOrder_def)
qed (use woSortOrder_in [OF assms] in simp)

theorem sort_order_correct_witness:
  "woSortOrder (enc_obj nested_fields, 0) (enc_obj nested_fields, 0) (enc_obj [], 0) True = Some (Raise 10060)"
proof -
  have "obj_in (enc_obj [], 0) []"
    by (simp add: obj_in_def enc_obj_def enc_doc_def at_self le32_eq BSONObjMaxInternalSize_def byte_def)
  from sort_order_correct [OF nested_in nested_in this, of True] show ?thesis
    by (simp add: nested_fields_def)
qed

text \<open>
  C17: selection of fields: on every two documents the three selecting operations end and build exactly
  the fields they are meant to: those the pattern names, found plainly under empty names or by dotted
  look-up under their own (with null for a missing one on demand), and those that the filter names or
  does not name, in their order.
\<close>

theorem fields_selected:
  assumes "obj_in o1 fs" "obj_in pat ps" "length room = 4"
  shows "(let res = concat (map (\<lambda>p. found [] (map_of fs (fst p))) ps) in
      int (length (enc_obj res)) \<le> BSONObjMaxInternalSize \<longrightarrow>
      extractFieldsUnDotted False room o1 pat = Some (Ret (le32 0 @ enc_obj res, 4))) \<and>
    (let res = concat (map (extracted fs fillWithNull) ps) in
      int (length (enc_obj res)) \<le> BSONObjMaxInternalSize \<longrightarrow>
      extractFields False room o1 pat fillWithNull = Some (Ret (le32 0 @ enc_obj res, 4))) \<and>
    filterFieldsUndotted False room o1 pat inFilter =
      Some (Ret (le32 0 @ enc_obj (filter (\<lambda>f. (fst f \<in> fst ` set ps) = inFilter) fs), 4))"
  unfolding Let_def
  using extractFieldsUnDotted_in [OF assms refl] extractFields_in [OF assms refl] filterFieldsUndotted_in [OF assms]
  by blast

theorem fields_selected_witness:
  "filterFieldsUndotted False [1, 2, 3, 4] (enc_obj nested_fields, 0) (enc_obj nested_fields, 0) False =
     Some (Ret (le32 0 @ enc_obj [], 4))"
  using fields_selected [OF nested_in nested_in, of "[1, 2, 3, 4]" False False] by (simp add: nested_fields_def)

text \<open>
  C18: the recursion of \<open>nested2dotted\<close> through embedded objects ends on every document, and the document
  it builds has exactly the flattened fields: every value that is no object under its dotted path,
  in order.
\<close>

theorem nested_flattened:
  assumes "obj_in o1 fs" "length room = 4" "int (length (enc_obj (flatten [] fs))) \<le> BSONObjMaxInternalSize"
  shows "obnd (Some (ob_new False room 512)) (\<lambda>ob. obnd (nested2dotted ob o1 []) (\<lambda>ob. Some (ob_obj ob))) =
    Some (Ret (le32 0 @ enc_obj (flatten [] fs), 4))"
  using dotted_document_in [OF assms] unfolding dotted_document_def .

theorem nested_flattened_witness:
  "obnd (Some (ob_new False [0, 0, 0, 0] 512)) (\<lambda>ob. obnd (nested2dotted ob (enc_obj nested_fields, 0) [])
      (\<lambda>ob. Some (ob_obj ob))) =
    Some (Ret (le32 0 @ enc_obj [([0x61, 0x2E, 0x62], VString [0x68, 0x69])], 4))"
  using nested_flattened [OF nested_in, of "[0, 0, 0, 0]"]
  by (simp add: nested_fields_def length_enc_obj BSONObjMaxInternalSize_def)

text \<open>
  C19: reading a query: the chain of character tests of \<open>getGtLtOp\<close> is a table of operator names (anything
  that begins with \<open>$near\<close> included), and \<open>getFieldsDotted\<close> ends on every document and delivers the
  values the dotted name stands for, through objects, through arrays by index and by element.
\<close>

theorem query_read:
  assumes "elem_in b p f" "small_doc (snd f)" "obj_in o1 fs" "cname name"
  shows "elem_getGtLtOp (raw_elem b p) def = Ret (op_of (fst f) def) \<and> getGtLtOp (raw_elem b p) = Ret (field_op (snd f)) \<and>
    (\<exists>es. getFieldsDotted o1 name = Some (Ret es) \<and> list_all2 (\<lambda>e v. finds (fst o1) e (Some v)) es (dotted_all fs name))"
  using getGtLtOp_in [OF assms(1)] field_op_in [OF assms(1,2)] getFieldsDotted_in [OF assms(3,4)] by (simp add: finds_all_def)

theorem query_read_witness:
  "elem_getGtLtOp (raw_elem (enc_elem string_field) 0) Equality = Ret Equality \<and>
   (\<exists>e. getFieldsDotted (enc_obj nested_fields, 0) [0x61, 0x2E, 0x62] = Some (Ret [e]) \<and>
     finds (enc_obj nested_fields) e (Some (VString [0x68, 0x69])))"
proof -
  have "dotted_all nested_fields [0x61, 0x2E, 0x62] = [VString [0x68, 0x69]]"
    by (simp add: nested_fields_def split_dot_def dotted_all.simps [of _ "[0x61, 0x2E, 0x62]"] dotted_all.simps [of _ "[0x62]"])
  moreover have "op_of (fst string_field) Equality = Equality" "small_doc (snd string_field)"
    by (simp_all add: string_field_def op_of_def op_table_def small_doc_def BSONObjMaxInternalSize_def)
  ultimately show ?thesis
    using query_read [OF string_field_in _ nested_in, of "[0x61, 0x2E, 0x62]" Equality]
    by (auto simp: cname_def list_all2_Cons2)
qed

text \<open>
  C20: the two checks of a document, both recursive through objects, arrays and scopes, end on every
  document: \<open>valid\<close> accepts each one, no check of its bounds misfires at any depth, and \<open>okForStorage\<close>
  answers the test of the names on the abstract document.
\<close>

theorem documents_checked:
  assumes "obj_in o1 fs"
  shows "obj_valid o1 = Some (Ret True) \<and> okForStorage o1 = Some (Ret (storable_fields fs))"
  using obj_valid_in [OF assms] okForStorage_in [OF assms] ..

theorem documents_checked_witness:
  "obj_valid (enc_obj nested_fields, 0) = Some (Ret True) \<and> okForStorage (enc_obj nested_fields, 0) = Some (Ret True)"
  using documents_checked [OF nested_in] by (simp add: nested_fields_def)

text \<open>
  C21: what \<open>appendMinForType\<close> and \<open>appendMaxForType\<close> build is, for the type of every value, the document of
  the least value and of the greatest values in the two tables (two of them for undefined and null,
  where a \<open>break\<close> is missing); these bound every value of the type in the order of documents, from below
  but for binary data, code with a scope and numbers that are not finite, from above but for code
  with a scope, and in those cases there are values beyond the bounds.
\<close>

theorem type_bounds:
  assumes "map_of type_codes t = Some (btype w)" "wf_val w" "cname name" "length name \<le> 900" "length room = 4"
  shows "(\<exists>v. min_value (btype w) = Some v \<and>
      bnd (ob_new False room 512) (\<lambda>ob. bnd (ob_appendMinForType name t ob) ob_obj) = Ret (le32 0 @ enc_obj [(name, v)], 4) \<and>
      (btype w \<notin> {BinData, CodeWScope} \<and> (\<exists>a. vnum w = Fin a) \<longrightarrow> ecmp False ([], v) ([], w) \<le> 0)) \<and>
    bnd (ob_new False room 512) (\<lambda>ob. bnd (ob_appendMaxForType name t ob) ob_obj) =
      Ret (le32 0 @ enc_obj (map (Pair name) (max_values t)), 4) \<and>
    (btype w \<in> {Undefined, jstNULL} \<longrightarrow> max_values t = [VDouble dbl_neg_max_bits, VBool True]) \<and>
    (btype w \<noteq> CodeWScope \<longrightarrow> max_values t \<noteq> [] \<and> ecmp False ([], w) ([], hd (max_values t)) \<le> 0) \<and>
    ecmp False ([], VBin bin_Function []) ([], VBin 0 []) > 0 \<and> min_value BinData = Some (VBin bin_Function []) \<and>
    ecmp False ([], VDouble dbl_neg_max_bits) ([], VDouble 0xFFF0000000000000) > 0 \<and>
    ecmp False ([], VCodeW [0x61] []) ([], hd (max_values 15)) > 0"
proof -
  obtain v where v: "min_value (btype w) = Some v"
    using min_value_known by blast
  have "btype w \<in> {Undefined, jstNULL} \<longrightarrow> max_values t = [VDouble dbl_neg_max_bits, VBool True]"
    using assms(1) by (auto simp: max_values_def)
  then show ?thesis
    using v min_built [OF assms(1) v assms(3-5)] min_value_bound [OF v assms(2)]
      max_built [OF max_values_known [OF assms(1,2)] assms(3-5)] max_value_bound [OF assms(1,2)] bounds_missed
    by auto
qed

theorem type_bounds_witness:
  "bnd (ob_new False [0, 0, 0, 0] 512) (\<lambda>ob. bnd (ob_appendMaxForType [0x61] 10 ob) ob_obj) =
     Ret (le32 0 @ enc_obj [([0x61], VDouble dbl_neg_max_bits), ([0x61], VBool True)], 4)"
  using type_bounds [of 10 VNull "[0x61]" "[0, 0, 0, 0]"] by (simp add: type_codes_def cname_def)

text \<open>
  C22: numbers survive their text: given the decimal text of any 64-bit integer \<open>appendAsNumber\<close> appends
  that integer, in 32 bits for a text of fewer than eight characters and in 64 otherwise.
\<close>

theorem number_text_roundtrip:
  assumes "- 9223372036854775808 \<le> i" "i \<le> 9223372036854775807" "cname name" "length name \<le> 900" "length room = 4"
  shows "bnd (ob_new False room 512) (\<lambda>ob. bnd (ob_appendAsNumber atof name (int_text i) ob) (\<lambda>(k, ob).
      if k then ob_obj ob else Stuck)) =
    Ret (le32 0 @ enc_obj [(name, if length (int_text i) < 8 then VInt (of_int i) else VLong (of_int i))], 4)"
  by (rule number_text [OF assms])

theorem number_text_roundtrip_witness:
  "bnd (ob_new False [0, 0, 0, 0] 512) (\<lambda>ob. bnd (ob_appendAsNumber (\<lambda>_. 0) [0x61] (int_text (- 42)) ob) (\<lambda>(k, ob).
      if k then ob_obj ob else Stuck)) = Ret (le32 0 @ enc_obj [([0x61], VInt (of_int (- 42)))], 4)"
  using number_text_roundtrip [of "- 42" "[0x61]" "[0, 0, 0, 0]" "\<lambda>_. 0"]
  by (simp add: cname_def int_text_def numStr_def digits_rev_numeral)

text \<open>
  C23: \<open>Array\<close> turns an array whose names are the numbers from 0 into the vector of its values; a name that
  is no number is not ignored as promised: the exception is of another type than the handler's and
  leaves the function.
\<close>

theorem array_vector:
  assumes "elem_in b p f" "small_doc (snd f)" "snd f = VArray gs"
  shows "(map fst gs = map numStr [0..<length gs] \<and> length gs \<le> 1000000 \<longrightarrow>
      (\<exists>es. elem_Array (raw_elem b p) = Some (Ret es) \<and> list_all2 (\<lambda>e v. finds b e (Some v)) es (map snd gs))) \<and>
    (gs \<noteq> [] \<and> \<not> (fst (hd gs) \<noteq> [] \<and> (\<forall>c \<in> set (fst (hd gs)). c_isdigit c)) \<longrightarrow> elem_Array (raw_elem b p) = Some (Raise 0))"
  using elem_Array_in [OF assms] elem_Array_bad_name [OF assms(1,2), of "hd gs" "tl gs"] assms(3) by (auto simp: finds_all_def)

theorem array_vector_witness:
  "elem_Array (raw_elem (enc_elem ([0x61], VArray [([0x78], VNull)])) 0) = Some (Raise 0)"
proof -
  have "elem_in (enc_elem ([0x61], VArray [([0x78], VNull)])) 0 ([0x61], VArray [([0x78], VNull)])"
    by (rule elem_in_self) (simp_all add: cname_def length_enc_elem)
  from array_vector [OF this, of "[([0x78], VNull)]"] show ?thesis
    by (simp add: small_doc_def BSONObjMaxInternalSize_def c_isdigit_def)
qed

text \<open>
  C24: the two conversions invert each other: \<open>dotted2nested\<close>, which writes all sub-documents in place into one
  buffer through a stack of builders, ends on every document without embedded objects whose names have
  no empty part in front of a dot, and flattening what it built with \<open>nested2dotted\<close> gives the fields back in the order of their
  names (of equal names the last one).
\<close>

theorem nesting_inverse:
  assumes "obj_in o1 fs" "\<forall>f \<in> set fs. nestable f \<and> (\<forall>gs. snd f \<noteq> VObject gs)" "length room0 = 4" "\<forall>st. length (room st) = 4"
    and "int (length (enc_obj (nest (by_name fs)))) \<le> BSONObjMaxInternalSize"
    and "int (length (enc_obj (by_name fs))) \<le> BSONObjMaxInternalSize"
  shows "(obnd (dotted2nested_obj False room0 room o1) (\<lambda>o2. obnd (Some (ob_new False room0 512)) (\<lambda>ob.
      obnd (nested2dotted ob o2 []) (\<lambda>ob. Some (ob_obj ob)))) = Some (Ret (le32 0 @ enc_obj (by_name fs), 4))) \<and>
    map_of (by_name fs) = map_of (rev fs) \<and> smap_ok (by_name fs)"
  using nest_then_flatten [OF assms] unfolding dotted_document_def by (simp add: by_name_lookup by_name_ok)

theorem nesting_inverse_witness:
  "obnd (dotted2nested_obj False [0, 0, 0, 0] (\<lambda>_. [0, 0, 0, 0]) (enc_obj [([0x61, 0x2E, 0x62], VInt 1)], 0)) (\<lambda>o2.
     obnd (Some (ob_new False [0, 0, 0, 0] 512)) (\<lambda>ob. obnd (nested2dotted ob o2 []) (\<lambda>ob. Some (ob_obj ob)))) =
   Some (Ret (le32 0 @ enc_obj [([0x61, 0x2E, 0x62], VInt 1)], 4))"
proof -
  let ?fs = "[([0x61, 0x2E, 0x62], VInt 1)]"
  have b: "by_name ?fs = ?fs"
    by (simp add: by_name_def)
  have p: "dot_parts [0x61, 0x2E, 0x62] = [[0x61], [0x62]]"
    using dot_parts_app [of "[0x61]" "[0x62]"] dot_parts_one [of "[0x62]"] by simp
  have n: "nest ?fs = [([0x61], VObject [([0x62], VInt 1)])]"
    by (simp add: nest_def nest_from_def astep_def aprepare_def p frame_names_def apush_def doc_val_def)
  have "obj_in (enc_obj ?fs, 0) ?fs"
    by (rule obj_in_self) (simp_all add: cname_def length_enc_obj BSONObjMaxInternalSize_def)
  from nesting_inverse [OF this, of "[0, 0, 0, 0]" "\<lambda>_. [0, 0, 0, 0]"] show ?thesis
    by (simp add: b n p nestable_def cname_def length_enc_obj BSONObjMaxInternalSize_def)
qed

text \<open>
  C25: the comparison of names by the numbers in them: the pointer walk of \<open>lexNumCmp\<close> compares the
  sequences of characters and numbers lexicographically, numbers by their value, and is antisymmetric
  and transitive; the character \<open>0x7B\<close>, which the comment on the function calls the greatest, is below every
  digit and below the byte 255; \<open>compareDottedFieldNames\<close> compares dotted names part by part with it, for any names
  one of which has fewer parts than the bound of its loop.
\<close>

theorem lex_order_reference:
  assumes "length (name_parts l) < 1048576"
  shows "lexNumCmp s t = tokens_cmp (tokens s) (tokens t) \<and> lexNumCmp t s = - lexNumCmp s t \<and>
    (lexNumCmp s t \<le> 0 \<and> lexNumCmp t u \<le> 0 \<longrightarrow> lexNumCmp s u \<le> 0) \<and>
    lexNumCmp [0x7B] [0x30] < 0 \<and> lexNumCmp [0x7B] [0xFF] < 0 \<and>
    compareDottedFieldNames l r = Ret (parts_cmp (name_parts l) (name_parts r))"
  using compareDottedFieldNames_parts [of l r] assms lexNumCmp_anti [of t s] lex.le_trans [of s t u]
    brace_low by (simp add: lexNumCmp_tokens)

theorem lex_order_reference_witness:
  "lexNumCmp [0x61, 0x31, 0x30] [0x61, 0x30, 0x39] = 1 \<and> compareDottedFieldNames [0x61, 0x2E, 0x62] [0x61] = Ret LEFT_SUBFIELD"
proof -
  have t: "tokens [0x61, 0x31, 0x30] = [Chr 97, Num 10]" "tokens [0x61, 0x30, 0x39] = [Chr 97, Num 9]"
    by (simp_all add: lex_isNumber_def schar_def num_value_def)
  have p: "name_parts [0x61, 0x2E, 0x62] = [[0x61], [0x62]]" "name_parts [0x61] = [[0x61]]"
    by (simp_all add: name_parts.simps)
  have "lexNumCmp [0x61] [0x61] = 0"
    by (simp add: lexNumCmp_tokens tokens_cmp_zero)
  then show ?thesis
    using lex_order_reference [of "[0x61, 0x2E, 0x62]" "[0x61, 0x31, 0x30]" "[0x61, 0x30, 0x39]" "[]" "[0x61]"]
    by (simp add: t p lex_c_str_def Let_def del: lexNumCmp.simps tokens.simps)
qed

text \<open>
  C26: the sorted iterator: on every document its construction ends, its array has room for all fields, and
  it visits each field once, in an order of the names by \<open>lexNumCmp\<close>; \<open>qsort\<close> is any function that
  permutes and sorts by the comparison it is given.
\<close>

theorem sorted_iteration:
  assumes "obj_in o1 fs" "qsort_ok qs"
  shows "\<exists>i es gs. si_new qs o1 = Some (Ret i) \<and> si_all i = Ret es \<and> mset gs = mset fs \<and>
    sorted_wrt (\<lambda>f g. lexNumCmp (fst f) (fst g) \<le> 0) gs \<and>
    list_all2 (\<lambda>e f. \<exists>q. e = raw_elem (fst o1) q \<and> elem_in (fst o1) q f) es gs"
  by (rule sorted_visits [OF assms])

theorem sorted_iteration_witness:
  "\<exists>i e. si_new insertion_qsort (enc_obj nested_fields, 0) = Some (Ret i) \<and> si_all i = Ret [e] \<and>
     (\<exists>q. e = raw_elem (enc_obj nested_fields) q \<and> elem_in (enc_obj nested_fields) q ([0x61], VObject [([0x62], VString [0x68, 0x69])]))"
proof -
  obtain i es gs where r: "si_new insertion_qsort (enc_obj nested_fields, 0) = Some (Ret i)" "si_all i = Ret es"
      "mset gs = mset nested_fields"
      "list_all2 (\<lambda>e f. \<exists>q. e = raw_elem (enc_obj nested_fields) q \<and> elem_in (enc_obj nested_fields) q f) es gs"
    using sorted_iteration [OF nested_in insertion_qsort_ok] by auto
  have "gs = [([0x61], VObject [([0x62], VString [0x68, 0x69])])]"
    using r(3) by (simp add: nested_fields_def)
  then show ?thesis
    using r(1,2,4) by (auto simp: list_all2_Cons2)
qed

text \<open>
  C27: generated object ids: up to \<open>2 ^ 24\<close> of them made in a row by one process differ, whatever the clock
  answers; they ascend as long as the clock does and the three bytes of the counter do not overflow;
  and each lies between the least and the greatest id of its second.
\<close>

theorem oid_unique:
  assumes "length ts \<le> 16777216" "i < j" "j < length ts"
  shows "distinct (oid_row ts st) \<and>
    (sorted ts \<and> (\<forall>t \<in> set ts. t < 4294967296) \<and> oid_inc st mod 16777216 + length ts \<le> 16777216 \<longrightarrow>
      oid_less (oid_row ts st ! i) (oid_row ts st ! j)) \<and>
    oid_le (oid_init_date (1000 * (ts ! i)) False) (oid_row ts st ! i) \<and>
    oid_le (oid_row ts st ! i) (oid_init_date (1000 * (ts ! i)) True)"
proof -
  have "oid_le (oid_init_date (1000 * (ts ! i)) False) (oid_row ts st ! i) \<and>
      oid_le (oid_row ts st ! i) (oid_init_date (1000 * (ts ! i)) True)"
    using oid_date_range [of "1000 * (ts ! i)" "ts ! i"] oid_row_nth [of i ts st] assms(2,3) by simp
  then show ?thesis
    using oid_row_distinct [OF assms(1), of st] oid_row_ascends [OF _ _ _ assms(2,3)] by blast
qed

theorem oid_unique_witness:
  "distinct (oid_row [7, 7] \<lparr>ourMachine = [], ourMachineAndPid = [1, 2, 3, 4, 5], oid_inc = 255\<rparr>) \<and>
   oid_less (oid_row [7, 7] \<lparr>ourMachine = [], ourMachineAndPid = [1, 2, 3, 4, 5], oid_inc = 255\<rparr> ! 0)
     (oid_row [7, 7] \<lparr>ourMachine = [], ourMachineAndPid = [1, 2, 3, 4, 5], oid_inc = 255\<rparr> ! 1)"
  using oid_unique [of "[7, 7]" 0 1 "\<lparr>ourMachine = [], ourMachineAndPid = [1, 2, 3, 4, 5], oid_inc = 255\<rparr>"] by simp

text \<open>
  C28: texts of bytes are read back: what \<open>base64::encode\<close>, \<open>toHex\<close> and \<open>toHexLower\<close> write for any bytes is decoded
  to those bytes, and an object id is what its text of 24 digits says.
\<close>

theorem codec_roundtrip:
  assumes "length x = 12"
  shows "b64_decode (b64_encode bs) = Ret bs \<and> fromHexs (toHex bs) = Ret bs \<and> oid_init_str (oid_str x) = Ret x"
  using b64_roundtrip [of bs] oid_text [OF assms] by simp

theorem codec_roundtrip_witness:
  "b64_decode (b64_encode [0x4D, 0x61]) = Ret [0x4D, 0x61] \<and> oid_init_str (oid_str (replicate 12 0xAB)) = Ret (replicate 12 0xAB)"
  using codec_roundtrip [of "replicate 12 0xAB" "[0x4D, 0x61]"] by simp

text \<open>
  C29: errors stay inside a request: whatever bytes arrive the whole function throws nothing, only an INSERT
  touches the storage, and an INSERT of a document that does not start with \<open>_id\<close> is answered with
  \<open>EDB_NO_ID\<close> and stores nothing.
\<close>

theorem request_contained:
  assumes client: "mb_ok cmb" "obj_in doc fs" "can_grow cenv (12 + int (length (enc_obj fs))) cmb"
      "msgBuildInsert cenv cmb doc = Ret (EDB_OK, m)" "\<not> first_is_id fs"
    and packet: "ldi32 (mb_bytes m) 0 = Ret len" "b = take (nat len) (mb_bytes m) @ junk" "length b < 2147483648"
    and agent: "rq_toString env (b, 12) = Some (Ret ())" "rtn_dms r = Some d" "mb_ok mb" "can_grow (rq_realloc env) 16 mb"
  shows "(\<exists>mb'. pmdProcessAgentRequest t env b mb r = Some (Ret (EDB_NO_ID, False, mb'), r) \<and>
      msgExtraReply (mb_bytes mb') = Ret (Inr (EDB_NO_ID, 0, None))) \<and>
    (\<forall>env' any mb' r0 x r'. pmdProcessAgentRequest t env' any mb' r0 = Some (x, r') \<longrightarrow>
      (\<forall>e. x \<noteq> Raise e) \<and> (ldi32 any 4 \<noteq> Ret OP_INSERT \<longrightarrow> r' = r0))"
  using process_insert_no_id [OF client(1-4) packet agent client(5)] process_no_raise process_reads by blast

theorem request_contained_witness:
  "\<exists>m mb'. msgBuildInsert (Some (\<lambda>_. 0)) \<lparr>mb_bytes = [], mb_size = 0\<rparr> (enc_obj [], 0) = Ret (EDB_OK, m) \<and>
    pmdProcessAgentRequest 1 demo_request (take 17 (mb_bytes m) @ [0]) \<lparr>mb_bytes = replicate 16 0, mb_size = 16\<rparr> (rtn_new\<lparr>rtn_dms := Some demo_file\<rparr>) =
      Some (Ret (EDB_NO_ID, False, mb'), rtn_new\<lparr>rtn_dms := Some demo_file\<rparr>)"
proof -
  have mb: "mb_ok \<lparr>mb_bytes = [], mb_size = 0\<rparr>" "mb_ok \<lparr>mb_bytes = replicate 16 0, mb_size = 16\<rparr>"
    by (simp_all add: mb_ok_def)
  have e: "obj_in (enc_obj [], 0) []"
    by (rule obj_in_self) (simp_all add: length_enc_obj BSONObjMaxInternalSize_def)
  obtain m where m: "msgBuildInsert (Some (\<lambda>_. 0)) \<lparr>mb_bytes = [], mb_size = 0\<rparr> (enc_obj [], 0) = Ret (EDB_OK, m)"
      "mb_ok m" "ldi32 (mb_bytes m) 0 = Ret 17"
    using insert_roundtrip [OF mb(1) e, of "Some (\<lambda>_. 0)"] by (auto simp: can_grow_def length_enc_obj)
  have c: "can_grow (Some (\<lambda>_. 0)) (12 + int (length (enc_obj []))) \<lparr>mb_bytes = [], mb_size = 0\<rparr>" "\<not> first_is_id []"
    "rq_toString demo_request x = Some (Ret ())" "rtn_dms (rtn_new\<lparr>rtn_dms := Some demo_file\<rparr>) = Some demo_file"
    "can_grow (rq_realloc demo_request) 16 \<lparr>mb_bytes = replicate 16 0, mb_size = 16\<rparr>" for x
    by (simp_all add: can_grow_def first_is_id_def demo_request_def)
  have b: "take 17 (mb_bytes m) @ [0] = take (nat 17) (mb_bytes m) @ [0]" "length (take 17 (mb_bytes m) @ [0]) < 2147483648"
    by (simp_all add: min_def)
  from request_contained [OF mb(1) e c(1) m(1) c(2) m(3) b c(3,4) mb(2) c(5), of 1] show ?thesis
    using m(1) by blast
qed

text \<open>
  C30: the receive buffer: for every announced size except the greatest \<open>int\<close> the agent never writes outside
  its buffer and, when it goes on, has the whole packet followed by a zero; for the greatest \<open>int\<close> the
  test for the size overflows and the packet runs over the end of the buffer.
\<close>

theorem agent_receive_bounds:
  assumes "4096 \<le> length b" "length b < 2147483648"
  shows "(recv_packet s 4 (ar_head ar) \<noteq> Ret (EDB_OK, le32 2147483647) \<longrightarrow>
      receive_request s ar b = Wait \<or> (\<exists>rc. receive_request s ar b = Ret (Inl rc)) \<or>
      (\<exists>b' n. recv_packet s 4 (ar_head ar) = Ret (EDB_OK, le32 (nat n)) \<and> receive_request s ar b = Ret (Inr (b', n)) \<and>
        packet_in s ar (le32 (nat n)) n b')) \<and>
    (recv_packet s 4 (ar_head ar) = Ret (EDB_OK, le32 2147483647) \<and>
      recv_packet s 2147483643 (ar_body ar) = Ret (rc, bd) \<and> length b < 4 + length bd \<longrightarrow>
      receive_request s ar b = Stuck)"
  using receive_safe [OF assms] receive_overflow [OF assms] by blast

theorem agent_receive_bounds_witness:
  "\<exists>b sent. length b = 4096 \<and> length sent = 5000 \<and>
    receive_request sock_new \<lparr>ar_calls = [], ar_head = [(False, [Sel_ready], [Got (le32 2147483647)])], ar_grow = None,
      ar_body = [(False, [Sel_ready], [Got sent, Got []])], ar_shrink = None, ar_env = demo_request, ar_reply = []\<rparr> b = Stuck"
proof -
  obtain b sent :: "u8 list" where l: "length b = 4096" "length sent = 5000"
    using Ex_list_of_length by blast
  then have "sock_recv sock_new False 2147483643 [Sel_ready] [Got sent, Got []] = Ret (EDB_NETWORK_CLOSE, sent)"
    by (intro recv_then_closed) auto
  then have "recv_packet sock_new 2147483643 [(False, [Sel_ready], [Got sent, Got []])] = Ret (EDB_NETWORK_CLOSE, sent)"
    by (simp add: edb_codes)
  moreover have "recv_packet sock_new 4 [(False, [Sel_ready], [Got (le32 2147483647)])] = Ret (EDB_OK, le32 2147483647)"
    using recv_exact [of "le32 2147483647" 4 sock_new] by (simp add: edb_codes)
  ultimately have "receive_request sock_new \<lparr>ar_calls = [], ar_head = [(False, [Sel_ready], [Got (le32 2147483647)])], ar_grow = None,
      ar_body = [(False, [Sel_ready], [Got sent, Got []])], ar_shrink = None, ar_env = demo_request, ar_reply = []\<rparr> b = Stuck"
    by (intro agent_receive_bounds [where rc = EDB_NETWORK_CLOSE and bd = sent, THEN conjunct2, THEN mp]) (simp_all add: l del: recv_packet.simps)
  with l show ?thesis
    by blast
qed

text \<open>
  C31: the INSERT of the shell sends exactly the message built for its document and returns the code that
  the reply carries, however the reply is cut on the way.
\<close>

theorem client_insert_returns_code:
  assumes conn: "sock_isConnected (oi_probe io)" "sock_isConnected (oi_probe2 io)"
    and doc: "fromjson json = Ret doc" "obj_in doc fs" "12 + length (enc_obj fs) \<le> 4096"
    and out: "select_loop (fst (oi_send io)) = Ret EDB_OK" "\<forall>c \<in> set (snd (oi_send io)). \<exists>n. c = Moved (Suc n)" "4096 \<le> length (snd (oi_send io))"
    and reply: "msgExtraReply (mb_bytes rb) = Ret (Inr (rc, num, d))" "ldi32 (mb_bytes rb) 0 = Ret len" "16 \<le> len" "len \<le> 4096"
      "nat len \<le> length (mb_bytes rb)"
    and arrives: "recv_retry s 4 (oi_head io) = Ret (EDB_OK, take 4 (mb_bytes rb))"
      "recv_retry s (len - 4) (oi_body io) = Ret (EDB_OK, drop 4 (take (nat len) (mb_bytes rb)))"
  shows "\<exists>m. msgBuildInsert (oi_realloc io) \<lparr>mb_bytes = replicate SEND_BUF_SIZE 0, mb_size = int SEND_BUF_SIZE\<rparr> doc = Ret (EDB_OK, m) \<and>
    sendOrder_doc fromjson msgBuildInsert json io = Ret (EDB_OK, take (12 + length (enc_obj fs)) (mb_bytes m)) \<and>
    InsertCommand_execute fromjson s io (json # args) = Some (Ret rc)"
proof -
  let ?m = "take (nat len) (mb_bytes rb)"
  have "ldi32 (?m @ drop (nat len) (mb_bytes rb)) 0 = ldi32 ?m 0"
    using reply(3,5) by (intro ldi32_append) simp
  then have l: "length ?m = nat len" "ldi32 ?m 0 = Ret len" "take 4 ?m = take 4 (mb_bytes rb)"
    using reply(2,3,5) by (simp_all add: min_absorb1)
  have r: "recvReply s io = Ret (EDB_OK, ?m @ replicate (4096 - nat len) 0)"
    by (rule recvReply_message [OF conn(2) l(1) _ reply(4) l(2)]) (use reply(3) arrives l(3) in simp_all)
  obtain m where m: "msgBuildInsert (oi_realloc io) \<lparr>mb_bytes = replicate SEND_BUF_SIZE 0, mb_size = int SEND_BUF_SIZE\<rparr> doc = Ret (EDB_OK, m)"
      "sendOrder_doc fromjson msgBuildInsert json io = Ret (EDB_OK, take (12 + length (enc_obj fs)) (mb_bytes m))"
    using sendOrder_insert [where fromjson = fromjson and json = json and io = io, OF doc out] by blast
  moreover have "InsertCommand_execute fromjson s io (json # args) = Some (Ret rc)"
    using conn(1) m(2) r handle_code_reply [OF reply(1,3,5)] by (simp add: InsertCommand_execute_def execute_order_def edb_codes)
  ultimately show ?thesis
    by blast
qed

theorem client_insert_returns_code_witness:
  "\<exists>rb io. msgBuildReply (Some (\<lambda>_. 0)) \<lparr>mb_bytes = [], mb_size = 0\<rparr> EDB_NO_ID None = Ret (EDB_OK, rb) \<and>
    InsertCommand_execute (\<lambda>_. Ret (demo_doc, 0)) sock_new io [[123, 125]] = Some (Ret EDB_NO_ID)"
proof -
  have "mb_ok \<lparr>mb_bytes = [], mb_size = 0\<rparr>"
    by (simp add: mb_ok_def)
  then obtain rb where rb: "msgBuildReply (Some (\<lambda>_. 0)) \<lparr>mb_bytes = [], mb_size = 0\<rparr> EDB_NO_ID None = Ret (EDB_OK, rb)"
      "ldi32 (mb_bytes rb) 0 = Ret 16" "msgExtraReply (mb_bytes rb) = Ret (Inr (EDB_NO_ID, 0, None))"
    using reply_empty_roundtrip [of "\<lparr>mb_bytes = [], mb_size = 0\<rparr>" EDB_NO_ID "Some (\<lambda>_. 0)"] by (auto simp: edb_codes can_grow_def)
  have n: "16 \<le> length (mb_bytes rb)"
    using extract_reply_words(2) [OF rb(3)] by (auto simp: ldi32_def ld32_def ldn_def split: if_splits)
  define io where "io = \<lparr>oi_probe = 0, oi_realloc = None, oi_send = ([Sel_ready], replicate 4096 (Moved 1)), oi_probe2 = 0,
    oi_head = [([Sel_ready], [Got (take 4 (mb_bytes rb))])], oi_body = [([Sel_timeout], []), ([Sel_ready], [Got (drop 4 (take 16 (mb_bytes rb)))])]\<rparr>"
  have "recv_retry sock_new 4 (oi_head io) = Ret (EDB_OK, take 4 (mb_bytes rb))"
    using n recv_exact [of "take 4 (mb_bytes rb)" 4] by (simp add: io_def edb_codes)
  moreover have "recv_retry sock_new (16 - 4) (oi_body io) = Ret (EDB_OK, drop 4 (take (nat 16) (mb_bytes rb)))"
    using n recv_exact [of "drop 4 (take 16 (mb_bytes rb))" 12 sock_new] by (simp add: io_def edb_codes sock_recv_def [of _ _ _ "[Sel_timeout]"])
  ultimately have "InsertCommand_execute (\<lambda>_. Ret (demo_doc, 0)) sock_new io [[123, 125]] = Some (Ret EDB_NO_ID)"
    using client_insert_returns_code [where io = io and rb = rb and len = 16 and fromjson = "\<lambda>_. Ret (demo_doc, 0)" and fs = demo_fields and s = sock_new,
        OF _ _ refl demo_doc_in _ _ _ _ rb(3,2)] n demo_doc_valid(2)
    by (auto simp: io_def sock_isConnected_def demo_doc_def)
  with rb(1) show ?thesis
    by blast
qed

text \<open>
  C32: compaction moves bytes and slots but keeps every record under its slot number, the invariant of
  the page (no two records overlap, every byte is accounted for) and all memory outside the page.
\<close>

theorem recoverSpace_keeps:
  assumes "page_inv m p"
  shows "page_inv (recoverSpace m p) p \<and> page_recs (recoverSpace m p) p = page_recs m p \<and>
    numSlots (recoverSpace m p) p = numSlots m p \<and> freeSpace (recoverSpace m p) p = freeSpace m p \<and>
    (\<forall>x. x < p \<or> p + DMS_PAGESIZE \<le> x \<longrightarrow> recoverSpace m p x = m x)"
  using recoverSpace_spec [OF assms] by blast

theorem recoverSpace_keeps_witness:
  "page_recs (recoverSpace (vmem demo_stored) (page_addr (body demo_stored) demo_pid))
      (page_addr (body demo_stored) demo_pid) =
    page_recs (vmem demo_stored) (page_addr (body demo_stored) demo_pid) \<and>
   page_recs (vmem demo_stored) (page_addr (body demo_stored) demo_pid) \<noteq> []"
  using recoverSpace_keeps [OF demo_stored_page(1)] demo_stored_page(2) by simp

text \<open>
  C33: what is read is what was written: on an element that holds a value the accessor of its type returns
  exactly that value (signed integers, dates, booleans, object ids, strings with embedded zeros,
  binary data with its subtype, patterns and their flags, references, code and its scope).
\<close>

theorem elem_accessors_correct:
  assumes "elem_in b p f" "elem_of b p f e"
  shows "elem_type e = Ret (btype (snd f)) \<and> accessor_ok e (snd f)"
  using elem_type_in [OF assms] accessors_in [OF assms] ..

theorem elem_accessors_correct_witness:
  "elem_type (raw_elem (enc_elem string_field) 0) = Ret StringT \<and>
   elem_str (raw_elem (enc_elem string_field) 0) = Ret [0x68, 0x69]"
  using elem_accessors_correct [OF string_field_in raw_elem_of] by (simp add: string_field_def)

text \<open>
  C34: forcing sets the flag of the EDUs meant and of nobody else, and never the flag of a system EDU when
  users are meant.
\<close>

theorem edu_force_exact:
  assumes "mgr_inv st" "s_free (mgr_latch st)"
  shows "forceUserEDU t i st = Ret (if isSystemID i st then (EDB_PMD_FORCE_SYSTEM_EDU, st)
      else (EDB_OK, forced_upd (\<lambda>j. j = i) st)) \<and>
    forceEDUs t property st = Ret (EDB_OK, forced_upd (force_hits property st) st) \<and>
    (\<forall>j. map_of (idleQueue st) j = None \<longrightarrow> isSystemID j st \<longrightarrow> \<not> force_hits EDU_USER st j) \<and>
    (\<forall>j \<in> alive st. force_hits EDU_ALL st j)"
proof (intro conjI forceUserEDU_result forceEDUs_result assms ballI allI impI)
  fix j
  assume "map_of (idleQueue st) j = None" "isSystemID j st"
  then show "\<not> force_hits EDU_USER st j"
    by (simp add: force_hits_def in_property_def EDU_SYSTEM_def EDU_USER_def)
next
  fix j
  assume "j \<in> alive st"
  then have "map_of (runQueue st) j \<noteq> None \<or> map_of (idleQueue st) j \<noteq> None"
    unfolding alive_find [OF assms(1)] find_edu_def by (metis option.case_eq_if)
  then show "force_hits EDU_ALL st j"
    by (simp add: force_hits_def in_property_def EDU_SYSTEM_def EDU_USER_def EDU_ALL_def)
qed

theorem edu_force_exact_witness:
  "forceUserEDU 1 1 (demo_run PMD_EDU_RUNNING []) =
     Ret (EDB_OK, forced_upd (\<lambda>j. j = 1) (demo_run PMD_EDU_RUNNING []))"
proof -
  have "\<not> isSystemID 1 (demo_run PMD_EDU_RUNNING [])"
    by (simp add: isSystemID_def demo_defs)
  then show ?thesis
    using edu_force_exact [where st = "demo_run PMD_EDU_RUNNING []" and t = 1 and i = 1]
      demo_run_ok(1,2) [of PMD_EDU_RUNNING "[]"]
    by simp
qed

text \<open>
  C35: the calls of \<open>ossQueue\<close> in any interleaving of their statements: the elements come out in the order
  they went in, each once and to the thread that took it off, and no thread reads the front of an
  empty queue, whatever spurious wake-ups and timeouts happen and whoever was faster.
\<close>

theorem queue_concurrent_fifo:
  assumes "q_moves qs_init ls s"
  shows "q_pushed ls = map snd (q_popped ls) @ qs_contents s \<and>
    (\<forall>t. values_of t (q_popped ls) = values_of t (q_returned ls) @ in_hand (qs_pc s t)) \<and>
    (\<forall>t. qs_pc s t \<noteq> Undef) \<and> (\<forall>t u. in_lock (qs_pc s t) \<and> in_lock (qs_pc s u) \<longrightarrow> t = u)"
proof -
  have inv: "mutex_ok s"
    using queue_inv_moves [OF assms queue_inv_init] by (simp add: queue_inv_def)
  have "qs_pc s t \<noteq> Undef" for t
    using inv view_ok_not_Undef by (metis mutex_ok_def)
  moreover have "t = u" if "in_lock (qs_pc s t)" "in_lock (qs_pc s u)" for t u
    using inv that by (simp add: mutex_ok_def)
  ultimately show ?thesis
    using queue_history [OF assms queue_inv_init] by (simp add: qs_init_def)
qed

theorem queue_concurrent_fifo_witness:
  "\<exists>ls s. q_exec (replicate 3 (0, 0, CWait) @ replicate 6 (1, 0, CPush 7) @ replicate 5 (0, 0, CWait)) qs_init = Some (ls, s) \<and>
    qs_contents s = [] \<and> q_pushed ls = [7 :: nat] \<and> q_popped ls = [(0 :: nat, 7)] \<and>
    values_of 0 (q_popped ls) = values_of 0 (q_returned ls) @ in_hand (qs_pc s 0)"
proof -
  obtain ls s where run: "q_exec (replicate 3 (0 :: nat, 0, CWait) @ replicate 6 (1, 0, CPush 7) @ replicate 5 (0, 0, CWait)) qs_init = Some (ls, s)"
    and r: "qs_contents s = []" "q_pushed ls = [7 :: nat]" "q_popped ls = [(0, 7)]"
    by (simp add: qs_init_def eval_nat_numeral q_ops)
  then show ?thesis
    using queue_concurrent_fifo [OF q_exec_moves [OF run]] by blast
qed

text \<open>
  C36: no notification is lost, although \<open>push\<close> notifies after it has dropped the mutex and a timed wait can
  end at the same moment: beside a waiting thread there are at most as many elements as threads about
  to notify or to look, and the calls only come to rest with all threads out, or waiting on an
  empty queue.
\<close>

theorem queue_no_lost_wakeup:
  assumes "q_moves qs_init ls s"
  shows "(\<forall>w b. qs_pc s w = Asleep b \<longrightarrow> length (qs_contents s) \<le> card {t. attends (qs_pc s t)}) \<and>
    ((\<exists>v u r. q_step v u (qs_pc s v) s = Some r) \<or>
     (\<forall>t. qs_pc s t = Out) \<or> ((\<forall>t. qs_pc s t = Out \<or> (\<exists>b. qs_pc s t = Asleep b)) \<and> qs_contents s = []))"
proof -
  have inv: "queue_inv s"
    by (rule queue_inv_moves [OF assms queue_inv_init])
  have "length (qs_contents s) \<le> card {t. attends (qs_pc s t)}" if "qs_pc s w = Asleep b" for w b
    using inv that by (auto simp: queue_inv_def wait_ok_def wake_ok_def attending_def)
  then show ?thesis
    using queue_progress [OF inv] quiet_is_empty [OF inv] by blast
qed

theorem queue_no_lost_wakeup_witness:
  "\<exists>ls s. q_exec (replicate 3 (0 :: nat, 0, CWait) @ replicate 4 (1, 0, CPush 7)) qs_init = Some (ls, s) \<and>
    qs_pc s 0 = Asleep False \<and> qs_contents s = [7 :: nat] \<and> length (qs_contents s) \<le> card {t. attends (qs_pc s t)}"
proof -
  obtain ls s where run: "q_exec (replicate 3 (0 :: nat, 0, CWait) @ replicate 4 (1, 0, CPush 7)) qs_init = Some (ls, s)"
    and r: "qs_pc s 0 = Asleep False" "qs_contents s = [7 :: nat]"
    by (simp add: qs_init_def eval_nat_numeral q_ops)
  then show ?thesis
    using queue_no_lost_wakeup [OF q_exec_moves [OF run]] by blast
qed

text \<open>
  C37: the write loop puts all bytes at the file's offset, in order, through any sequence of short and
  interrupted writes, before it reports success, and a prefix of them when it fails; without a
  handle it reports success too and writes nothing.
\<close>

theorem file_write_complete:
  assumes "fop_Write buf n calls f = Ret (rc, f')" "foffset f \<le> fsize f" "Failed 0 \<notin> set calls"
    and "d = (if n = 0 then c_prefix buf else take n buf)"
  shows "if fop_isValid f
    then \<exists>out rest. d = out @ rest \<and> f' = put_bytes out f \<and> (rc = 0 \<longrightarrow> rest = [])
    else rc = 0 \<and> f' = f"
  using assms fop_write_loop_spec [of d calls f rc f'] by (auto simp: fop_Write_def Let_def)

theorem file_write_complete_witness:
  "\<exists>out rest. [1, 2, 3] = out @ rest \<and>
     put_bytes [1, 2, 3] demo_empty = put_bytes out demo_empty \<and> ((0::int) = 0 \<longrightarrow> rest = [])"
proof -
  have "fop_Write [1, 2, 3] 3 [Moved 2, Failed EINTR, Moved 1] demo_empty = Ret (0, put_bytes [1, 2, 3] demo_empty)"
    by (simp add: fop_Write_def fop_isValid_def demo_empty_def Let_def put_bytes_append)
  from file_write_complete [OF this _ _ refl] show ?thesis
    by (simp add: fop_isValid_def demo_empty_def EINTR_def)
qed

text \<open>
  C38: shutdown reaches the pool: an IDLE EDU that was forced is gone after the next time-out of its wait, its
  thread ends, and the other EDUs are as before.
\<close>

theorem edu_forced_leaves:
  assumes "mgr_inv st" "s_free (mgr_latch st)" "find_edu i st = Some p" "cb_heap st p = Some cb"
    and "edu_view st i = Some (True, PMD_EDU_IDLE)" "cb_forced cb" "cb_waitEvent 1000 wakes cb = Ret (None, cb')"
  shows "\<exists>th' st'. entry_round t maxPool reg entry i p wakes (th, st, db) = Ret (th', st', db) \<and>
     th_destroyed th' \<and> mgr_inv st' \<and> edu_view st' = (edu_view st)(i := None)"
  by (rule entry_round_forced [OF assms])

theorem edu_forced_leaves_witness:
  "\<exists>th' st'. entry_round 1 5 reg0 demo_entry 1 1 [(False, [])] (thread_start, demo_pool PMD_EDU_IDLE True [], EDB_DB_NORMAL) =
      Ret (th', st', EDB_DB_NORMAL) \<and> th_destroyed th' \<and> edu_view st' 1 = None"
proof -
  have "cb_waitEvent 1000 [(False, [])] (demo_agent PMD_EDU_IDLE True []) = Ret (None, demo_agent PMD_EDU_IDLE True [])"
    by (simp add: cb_waitEvent_def cb_wait_begin_def cb_wait_end_def demo_agent_def)
  from edu_forced_leaves [where st = "demo_pool PMD_EDU_IDLE True []", where i = 1 and p = 1, OF _ _ _ _ _ _ this,
      where th = thread_start and entry = demo_entry and t = 1 and maxPool = 5 and reg = reg0 and db = EDB_DB_NORMAL]
  show ?thesis
    using demo_pool_ok [of PMD_EDU_IDLE True "[]"] by (auto simp: idle_status_def demo_agent_def)
qed

text \<open>
  C39: \<open>_searchSlot\<close> lets the slot just behind the last one through: on a fresh page \<open>find\<close> takes the page
  header for a record, the BSON constructor throws, the shared latch is never given back, and every
  later insertion waits for ever.
\<close>

theorem dms_find_fresh_page_deadlocks:
  assumes "npages (body st) < 4294967295" "pid < npages (body st)" "writer (dlatch st) = None"
    and "rdb (vmem st) (page_addr (body st) pid) 28 = page_header"
      "rd32 (vmem st) (page_addr (body st) pid + 28) = 0"
  shows "\<exists>st'. dms_find t \<lparr>r_pageID = pid, r_slotID = 0\<rparr> st = (Raise 10334, st') \<and>
    insert_retry u bs sz evs st' = (Wait, st') \<and> dms_remove u rid st' = (Wait, st')"
proof -
  let ?st' = "st\<lparr>dlatch := (dlatch st)\<lparr>readers := t # readers (dlatch st)\<rparr>\<rparr>"
  have "dms_find t \<lparr>r_pageID = pid, r_slotID = 0\<rparr> st = (Raise 10334, ?st')"
    by (rule find_fresh_slot [OF assms(2,1,4,5,3)])
  moreover have "insert_retry u bs sz evs ?st' = (Wait, ?st')"
    by (rule reader_blocks_insert) simp
  moreover have "dms_remove u rid ?st' = (Wait, ?st')"
    by (simp add: dms_remove_def s_get_def)
  ultimately show ?thesis
    by blast
qed

theorem dms_find_fresh_page_deadlocks_witness:
  "\<exists>st'. dms_find 2 \<lparr>r_pageID = 3, r_slotID = 0\<rparr> demo_fresh = (Raise 10334, st') \<and>
    insert_retry 1 demo_doc 14 [] st' = (Wait, st') \<and>
    dms_remove 1 \<lparr>r_pageID = 0, r_slotID = 0\<rparr> st' = (Wait, st')"
  by (rule dms_find_fresh_page_deadlocks [OF _ _ _ demo_fresh(3,4)]) (simp_all add: demo_fresh)

text \<open>
  C40: a document is checked by its total size only: the 13 bytes of \<open>endless_doc\<close> are accepted, and then
  the look-up of \<open>_id\<close>, and with it \<open>insert\<close>, never returns.
\<close>

theorem malformed_size_hangs:
  "obj_init (endless_doc, 0) = Ret (endless_doc, 0) \<and> getField (endless_doc, 0) str_id = None \<and>
   dms_insert t (endless_doc, 0) evs st = None"
  using endless_valid endless_getField dms_insert_endless by blast

section \<open>Further facts\<close>

text \<open>
  The master thread ends exactly when one of the signals 1 to 9, 11, 13, 15, 19, 30 or 31 arrives (or the
  database was down), and then the database is down.
\<close>

theorem master_ends_on_signal:
  "(EDB_IS_DB_DOWN (kr_dbStatus k) \<or> (\<exists>sigs \<in> set seconds. set sigs \<inter> {1, 2, 3, 4, 5, 6, 7, 8, 9, 11, 13, 15, 19, 30, 31} \<noteq> {}) \<longleftrightarrow>
     master_loop seconds k \<noteq> Wait) \<and>
   (\<forall>k'. master_loop seconds k = Ret k' \<longrightarrow> EDB_IS_DB_DOWN (kr_dbStatus k'))"
  using master_ends [of k seconds] master_loop_down by (auto simp: shutdown_signals_def)

theorem master_ends_on_signal_witness:
  "master_loop [[10, 12], [17, 15]] krcb_new \<noteq> Wait \<and> master_loop [[10], [17]] krcb_new = Wait"
  using master_ends_on_signal [of krcb_new "[[10, 12], [17, 15]]"] master_ends_on_signal [of krcb_new "[[10], [17]]"]
  by (simp add: krcb_new_def EDB_IS_DB_DOWN_def)

text \<open>
  Two ways a reply goes wrong in the client: a network error before the length of the reply is reported
  as \<open>EDB_OK\<close>, and the length \<open>INT_MIN\<close> passes the test for the size of the buffer, which is then
  written past its end.
\<close>

theorem client_reply_errors:
  assumes "sock_isConnected (oi_probe2 io)"
  shows "(recv_retry s 4 (oi_head io) = Ret (EDB_NETWORK, []) \<and> recv_retry s (- 4) (oi_body io) = Ret (EDB_OK, []) \<longrightarrow>
      (\<exists>b. recvReply s io = Ret (EDB_OK, b) \<and> handle_code b = Ret EDB_OK)) \<and>
    (recv_retry s 4 (oi_head io) = Ret (EDB_OK, le32 2147483648) \<and> recv_retry s 2147483644 (oi_body io) = Ret (rc, bs) \<and>
      4092 < length bs \<longrightarrow> recvReply s io = Stuck)"
  using recvReply_masked [OF assms, of s EDB_NETWORK] recvReply_overrun [OF assms, of s rc bs] by (auto simp: edb_codes)

theorem client_reply_errors_witness:
  "\<exists>b. recvReply sock_new \<lparr>oi_probe = 0, oi_realloc = None, oi_send = ([], []), oi_probe2 = 0,
      oi_head = [([Sel_ready], [Recv_failed 104])], oi_body = [([Sel_ready], [])]\<rparr> = Ret (EDB_OK, b) \<and> handle_code b = Ret EDB_OK"
  (is "\<exists>b. recvReply _ ?io = _ \<and> _")
proof (rule client_reply_errors [of ?io sock_new, THEN conjunct1, THEN mp])
  show "recv_retry sock_new 4 (oi_head ?io) = Ret (EDB_NETWORK, []) \<and> recv_retry sock_new (- 4) (oi_body ?io) = Ret (EDB_OK, [])"
    by (simp add: sock_recv_def sock_new_def edb_codes EINTR_def numeral_eq_Suc)
qed (simp add: sock_isConnected_def)

text \<open>
  \<open>_loadData\<close> numbers the pages of every segment from 0: after loading, all entries of the free space
  map name one of the first 32 pages, so no insertion reaches a later segment.
\<close>

theorem dms_load_page_ids:
  assumes "freeSpaceMap st = []" "loadData t henv envs st = Ret (rc, st')" "findPage n st' = pid"
    "pid \<noteq> DMS_INVALID_PAGEID"
  shows "pid < 32"
proof -
  obtain st0 where h: "freeSpaceMap st0 = []" and l: "st' = st0 \<or>
      (\<exists>n. load_segments t n 0 envs st0 = Ret (rc, st'))"
    using loadData_cases [OF assms(2,1)] by blast
  have "\<forall>e \<in> set (freeSpaceMap st'). snd e < 32"
    using l h load_segments_ids [of t _ 0 envs st0 rc st'] by auto
  with assms(3,4) show ?thesis
    by (auto simp: findPage_def dest!: fsm_upper_bound_Some split: option.splits)
qed

theorem dms_load_page_ids_witness:
  "\<exists>st'. loadData 1 (None, Inl 0) (\<lambda>_. (None, Inl 65536)) demo_saved = Ret (EDB_OK, st') \<and> findPage 22 st' < 32"
proof -
  obtain st' where st': "loadData 1 (None, Inl 0) (\<lambda>_. (None, Inl 65536)) demo_saved = Ret (EDB_OK, st')"
      "findPage 22 st' \<noteq> DMS_INVALID_PAGEID"
    using demo_saved_load by blast
  with dms_load_page_ids [OF demo_saved_empty st'(1) refl st'(2)] show ?thesis
    by blast
qed

text \<open>
  Compaction cannot help an insertion: \<open>_recoverSpace\<close> leaves \<open>_freeOffset\<close>, \<open>_slotOffset\<close> and
  \<open>_freeSpace\<close> alone, so a page whose free bytes lie in holes still has no room for the record
  after it.
\<close>

theorem recoverSpace_gains_nothing:
  assumes "page_inv m p"
  shows "no_room (recoverSpace m p) p n = no_room m p n"
  using recoverSpace_spec [OF assms] by (simp add: no_room_def)

theorem recoverSpace_gains_nothing_witness:
  "no_room (recoverSpace (vmem demo_stored) (page_addr (body demo_stored) demo_pid))
      (page_addr (body demo_stored) demo_pid) 4194300 =
    no_room (vmem demo_stored) (page_addr (body demo_stored) demo_pid) 4194300"
  by (rule recoverSpace_gains_nothing [OF demo_stored_page(1)])

text \<open>
  \<open>startEDU\<close> serves a request by the first IDLE agent of the pool, by a new EDU when there is none or
  the type cannot be pooled, or not at all, with the code that says why; the EDU chosen is in the run
  queue with the RESUME event that carries the argument last in its queue, and the others are as before.
\<close>

theorem edu_start_spec:
  assumes "mgr_inv st" "s_free (mgr_latch st)" "nextEDUID st + 1 < 18446744073709551615"
  shows "\<exists>rc r st'. startEDU t alloc thread type arg st = Ret ((rc, r), st') \<and> mgr_inv st' \<and> mgr_latch st' = mgr_latch st \<and>
    rc = (if isQuiesced st then EDB_QUIESCED else if startable type st \<noteq> None then EDB_OK
      else if type = EDU_TYPE_UNKNOWN then EDB_INVALIDARG else if \<not> alloc then EDB_OOM
      else if \<not> thread then EDB_SYS else EDB_OK) \<and>
    (if rc \<noteq> EDB_OK then edu_view st' = edu_view st
     else \<exists>i s cb. r = Some i \<and> edu_view st' = (edu_view st)(i := Some (False, s)) \<and> edu_cb st' i = Some cb \<and>
       cb_type cb = type \<and> cb_queue cb \<noteq> [] \<and> last (cb_queue cb) = resume_event arg \<and>
       (case startable type st of Some e \<Rightarrow> i = fst e \<and> s = PMD_EDU_WAITING
        | None \<Rightarrow> i = nextEDUID st \<and> edu_view st i = None \<and> s = PMD_EDU_CREATING))"
  using startEDU_result [OF assms, of t alloc thread type arg] start_result_spec [OF assms(1,3), of alloc thread type arg]
  by (cases "start_result alloc thread type arg st") (fastforce simp: Let_def)

theorem edu_start_spec_witness:
  "\<exists>rc r st'. startEDU 1 True True EDU_TYPE_AGENT 9 (demo_pool PMD_EDU_IDLE False []) = Ret ((rc, r), st') \<and>
    rc = EDB_OK \<and> r = Some 1"
proof -
  have "startable EDU_TYPE_AGENT (demo_pool PMD_EDU_IDLE False []) = Some (1, 1)"
    using demo_pool_ok(3) [of PMD_EDU_IDLE False "[]"] by (simp add: startable_def isPoolable_def demo_pool_def)
  moreover have "\<not> isQuiesced (demo_pool PMD_EDU_IDLE False [])"
    by (simp add: demo_defs)
  ultimately show ?thesis
    using edu_start_spec [where st = "demo_pool PMD_EDU_IDLE False []" and t = 1 and alloc = True and thread = True
        and type = EDU_TYPE_AGENT and arg = 9] demo_pool_ok(1,2,5) [of PMD_EDU_IDLE False "[]"]
    by auto
qed

text \<open>
  The builder is typed: appending a value of any type to a well-formed partial document gives the
  well-formed partial document with that field at its end, and changes nothing before it.
\<close>

theorem builder_typed:
  assumes "builds ob pre fs" "cname name" "wf_val v" "fits_in pre (fs @ [(name, v)])"
    and "\<And>gs. v = VObject gs \<or> v = VArray gs \<or> (\<exists>s. v = VCodeW s gs) \<Longrightarrow> int (length (enc_obj gs)) \<le> BSONObjMaxInternalSize"
  shows "\<exists>ob'. ob_value (name, v) ob = Ret ob' \<and> builds ob' pre (fs @ [(name, v)]) \<and> ob_owned ob' = ob_owned ob \<and>
    wf_fields (fs @ [(name, v)]) \<and> drop (length pre + 4) (bb_bytes (ob_b ob')) = enc_fields fs @ enc_elem (name, v)"
proof -
  obtain ob' where ob': "ob_value (name, v) ob = Ret ob'" "builds ob' pre (fs @ [(name, v)])" "ob_owned ob' = ob_owned ob"
    using ob_value_ok [OF assms] by blast
  then show ?thesis
    using builds_bytes [OF ob'(2)] by (auto simp: builds_def enc_elem_def)
qed

theorem builder_typed_witness:
  "\<exists>ob ob'. ob_new False [9, 9, 9, 9] 512 = Ret ob \<and> ob_value ([0x61], VInt 7) ob = Ret ob' \<and>
    drop 8 (bb_bytes (ob_b ob')) = enc_elem ([0x61], VInt 7)"
proof -
  obtain ob where ob: "ob_new False [9, 9, 9, 9] 512 = Ret ob" "builds ob (le32 0) []"
    by (rule ob_new_ok [of "[9, 9, 9, 9]" 512]) simp_all
  from builder_typed [OF ob(2), of "[0x61]" "VInt 7"] ob(1) show ?thesis
    by (auto simp: cname_def length_enc_obj fits_in_def)
qed

text \<open>
  The size of an insert message is summed in an \<open>int\<close>: from 2 GB of documents on it is negative, the
  check of the buffer passes, its guard against negative lengths is not reached, and the copies
  write past the end.
\<close>

theorem msg_build_overflow:
  assumes "mb_ok mb" "list_all2 obj_in os fss" "12 \<le> mb_size mb"
    and "2147483648 \<le> 12 + int (length (doc_bytes fss))" "12 + int (length (doc_bytes fss)) < 4294967296"
  shows "msgCheckBuffer env (i32 (12 + int (length (doc_bytes fss)))) mb = (EDB_OK, mb) \<and>
    msgBuildInsert_many env mb os = Stuck"
proof -
  have "i32 (12 + int (length (doc_bytes fss))) < 0"
    using assms(4,5) i32_wraps [of "12 + int (length (doc_bytes fss))"] by simp
  then show ?thesis
    using insert_many_overflow [OF assms] assms(3) by (simp add: msgCheckBuffer_def)
qed

theorem msg_build_overflow_witness:
  "\<exists>os. length os = 153391690 \<and>
     msgBuildInsert_many None \<lparr>mb_bytes = replicate 12 0, mb_size = 12\<rparr> os = Stuck"
proof (intro exI conjI)
  let ?os = "replicate 153391690 (demo_doc, 0 :: int)" and ?fss = "replicate 153391690 demo_fields"
  have len: "int (length (doc_bytes ?fss)) = 153391690 * 14"
    using demo_doc_valid(2) by (simp add: doc_bytes_def length_concat sum_list_replicate demo_doc_def)
  have "list_all2 obj_in ?os ?fss"
    using demo_doc_in by (simp add: list_all2_conv_all_nth)
  moreover have "mb_ok \<lparr>mb_bytes = replicate 12 0, mb_size = 12\<rparr>"
    by (simp add: mb_ok_def)
  ultimately show "msgBuildInsert_many None \<lparr>mb_bytes = replicate 12 0, mb_size = 12\<rparr> ?os = Stuck"
    using msg_build_overflow [of "\<lparr>mb_bytes = replicate 12 0, mb_size = 12\<rparr>" ?os ?fss None] len by simp
qed simp

text \<open>
  The options: whatever a readable configuration file says, each option ends as the one given on the
  command line, or as its default, cut to the array it is kept in; a file that cannot be read is
  \<open>EDB_IO\<close>, wrong arguments are \<open>EDB_INVALIDARG\<close>, and \<open>--help\<close> is \<open>EDB_PMD_HELP_ONLY\<close>.
\<close>

theorem options_from_command_line:
  assumes "\<not> vm_help vm"
    and "case vm_confpath vm of None \<Rightarrow> True | Some p \<Rightarrow> \<exists>vm2. parse (take OSS_MAX_PATHSIZE (c_prefix p)) = Inr vm2"
  shows "fst (options_init (Inr vm) parse options_new) = EDB_OK \<and>
    options_view (snd (options_init (Inr vm) parse options_new)) = vm_view vm \<and>
    options_init (Inl e) parse options_new = (EDB_INVALIDARG, options_new) \<and>
    options_init (Inr (vm\<lparr>vm_help := True\<rparr>)) parse options_new = (EDB_PMD_HELP_ONLY, options_new) \<and>
    options_init (Inr (vm\<lparr>vm_confpath := Some p\<rparr>)) (\<lambda>_. Inl Po_reading_file) options_new = (EDB_IO, options_new)"
  using options_init_view [OF assms] options_init_errors assms(1) by simp

theorem options_from_command_line_witness:
  "options_view (snd (options_init (Inr (vm_empty\<lparr>vm_confpath := Some [99]\<rparr>))
     (\<lambda>_. Inr (vm_empty\<lparr>vm_svcname := Some [56, 48], vm_maxpool := Some 9\<rparr>)) options_new)) =
   vm_view (vm_empty\<lparr>vm_confpath := Some [99]\<rparr>)"
  using options_from_command_line [of "vm_empty\<lparr>vm_confpath := Some [99]\<rparr>"
      "\<lambda>_. Inr (vm_empty\<lparr>vm_svcname := Some [56, 48], vm_maxpool := Some 9\<rparr>)"]
  by (simp add: vm_empty_def)

text \<open>
  A pooled EDU that gets an event other than RESUME or TERM is stranded: it stays in the pool with a
  status that is not IDLE, no call of the manager moves it, its own thread does not end whether it is
  forced or not, and \<open>_destroyAll\<close> waits for ever.
\<close>

theorem edu_stranded_forever:
  assumes st: "mgr_inv st" "s_free (mgr_latch st)" "edu_view st i = Some (True, s)" "nextEDUID st + 1 < 18446744073709551615"
    and p: "find_edu i st = Some p" "cb_heap st p = Some cb"
  shows "(cb_waitEvent 1000 wakes cb = Ret (ev, cb') \<and> (\<forall>e. ev = Some e \<longrightarrow> eventType e \<noteq> PMD_EDU_EVENT_RESUME) \<and>
      (s \<noteq> PMD_EDU_IDLE \<or> (\<exists>e. ev = Some e \<and> eventType e \<noteq> PMD_EDU_EVENT_TERM)) \<and> \<not> th_destroyed th \<longrightarrow>
      (\<exists>th' st'. entry_round t maxPool reg entry i p wakes (th, st, db) = Ret (th', st', db) \<and>
        \<not> th_destroyed th' \<and> mgr_inv st' \<and> mgr_latch st' = mgr_latch st \<and> stranded i st')) \<and>
    (stranded i st \<longrightarrow> edu_do u maxPool c st = Ret (r, st'') \<longrightarrow> stranded i st'') \<and>
    (stranded i st \<and> small_pool st \<and> (\<forall>s \<in> set later. mgr_inv s \<and> s_free (mgr_latch s) \<and> stranded i s \<and> small_pool s) \<longrightarrow>
      destroyAll u later st = Wait)"
  using round_strands [OF st(1,2) p st(3), of wakes ev cb' th t maxPool reg entry db]
    call_stranded [OF st(1,2,4), of i u maxPool c r st''] destroyAll_stranded [of st later i u] st(1,2)
  by auto

theorem edu_stranded_forever_witness:
  "(\<exists>th' st'. entry_round 1 5 reg0 demo_entry 1 1 [] (thread_start, demo_pool PMD_EDU_IDLE False [demo_event], EDB_DB_NORMAL) =
      Ret (th', st', EDB_DB_NORMAL) \<and> \<not> th_destroyed th' \<and> stranded 1 st') \<and>
   destroyAll 2 [] (demo_pool PMD_EDU_RUNNING False []) = Wait"
proof
  have w: "cb_waitEvent 1000 [] (demo_agent PMD_EDU_IDLE False [demo_event]) = Ret (Some demo_event, demo_agent PMD_EDU_RUNNING False [])"
    by (simp add: cb_waitEvent_def cb_wait_begin_def cb_wait_end_def demo_agent_def demo_event_def)
  show "\<exists>th' st'. entry_round 1 5 reg0 demo_entry 1 1 [] (thread_start, demo_pool PMD_EDU_IDLE False [demo_event], EDB_DB_NORMAL) =
      Ret (th', st', EDB_DB_NORMAL) \<and> \<not> th_destroyed th' \<and> stranded 1 st'"
    using edu_stranded_forever [where st = "demo_pool PMD_EDU_IDLE False [demo_event]" and i = 1 and p = 1 and wakes = "[]"
        and ev = "Some demo_event" and cb = "demo_agent PMD_EDU_IDLE False [demo_event]" and cb' = "demo_agent PMD_EDU_RUNNING False []"
        and th = thread_start and entry = demo_entry and t = 1 and maxPool = 5 and reg = reg0 and db = EDB_DB_NORMAL
        and s = PMD_EDU_IDLE, THEN conjunct1]
      demo_pool_ok [of PMD_EDU_IDLE False "[demo_event]"] w
    by auto
next
  have "stranded 1 (demo_pool PMD_EDU_RUNNING False [])"
    using demo_pool_ok(3) [of PMD_EDU_RUNNING False "[]"] by (simp add: stranded_def)
  then show "destroyAll 2 [] (demo_pool PMD_EDU_RUNNING False []) = Wait"
    using edu_stranded_forever [where st = "demo_pool PMD_EDU_RUNNING False []" and i = 1 and p = 1 and later = "[]" and u = 2
        and cb = "demo_agent PMD_EDU_RUNNING False []" and s = PMD_EDU_RUNNING, THEN conjunct2, THEN conjunct2]
      demo_pool_ok [of PMD_EDU_RUNNING False "[]"]
    by auto
qed

text \<open>
  The largest records that pass the check are never stored: from 4194268 bytes on no page, however
  fresh, is ever found, so \<open>insert\<close> goes round its retry loop, one more segment each time, until an
  extension fails.
\<close>

theorem dms_insert_oversize_never:
  assumes "4194268 \<le> length bs" "length bs \<le> DMS_MAX_RECORD" "dms_inv st"
    and "\<And>s. Others s \<in> set evs \<Longrightarrow> dms_inv s"
  shows "fst (insert_retry t bs sz evs st) \<noteq> Ret (EDB_OK, x)"
proof
  assume r: "fst (insert_retry t bs sz evs st) = Ret (EDB_OK, x)"
  then obtain st' where "insert_retry t bs sz evs st = (Ret (EDB_OK, x), st')"
    by (metis prod.collapse)
  from insert_retry_big [OF assms(1) _ dms_inv_small [OF assms(3)] dms_inv_small [OF assms(4)] this]
  show False
    using assms(2) by (simp add: layout_simps)
qed

theorem dms_insert_oversize_never_witness:
  "\<forall>x. fst (insert_retry 1 (replicate 4194270 0) 4194270 [Extend (good_env 65536)] demo_file) \<noteq> Ret (EDB_OK, x)"
  by (intro allI dms_insert_oversize_never [OF _ _ demo_file_inv(1)]) (simp_all add: layout_simps)

text \<open>
  A message over a connection: a \<open>send\<close> that returns \<open>EDB_OK\<close> has handed over all its bytes in order,
  and a \<open>recv\<close> of that length at the other end stores a prefix of them, all of them exactly when it
  returns \<open>EDB_OK\<close>, for every way the stream is cut into pieces and every interruption.
\<close>

theorem sock_transfer:
  assumes snd: "sock_send (b, i) len sel calls = Ret (EDB_OK, out)" "0 < len"
    and stream: "chunks rcalls = out @ later" "fits (nat len) rcalls"
    and rcv: "sock_recv s False len sel' rcalls = Ret (rc, got)"
  shows "ldn b i len = Ret out \<and> (\<exists>rest. out = got @ rest) \<and> (rc = EDB_OK \<longleftrightarrow> got = out)"
  using sock_send_all [OF snd] sock_recv_part [OF rcv snd(2) stream(2)] stream(1) by (auto simp: append_eq_append_conv2)

theorem sock_transfer_witness:
  "sock_recv sock_new False 3 [Sel_ready] [Got [1], Recv_failed EINTR, Got [2, 3]] = Ret (EDB_OK, [1, 2, 3])"
proof -
  have s: "sock_send ([1, 2, 3, 4], 0) 3 [Sel_ready] [Moved 2, Moved 1] = Ret (EDB_OK, [1, 2, 3])"
    by (simp add: sock_send_def ldn_def sub_def)
  have r: "sock_recv sock_new False 3 [Sel_ready] [Got [1], Recv_failed EINTR, Got [2, 3]] = Ret (EDB_OK, [1, 2, 3])"
    by (simp add: sock_recv_def sock_new_def numeral_eq_Suc MAX_RECV_RETRIES_def EINTR_def EAGAIN_def)
  show ?thesis
    using sock_transfer [OF s _ _ _ r, of "[]"] r by simp
qed

text \<open>
  The key of a query or delete message comes back through its own extraction function; the agent,
  which takes delete messages apart with \<open>msgExtractQuery\<close>, gets \<open>EDB_INVALIDARG\<close> for every one.
\<close>

theorem msg_key_roundtrip:
  assumes "mb_ok mb" "obj_in key fs" "can_grow env (8 + int (length (enc_obj fs))) mb"
  shows "\<exists>mq md. msgBuildQuery env mb key = Ret (EDB_OK, mq) \<and> msgBuildDelete env mb key = Ret (EDB_OK, md) \<and>
    msgExtractQuery (mb_bytes mq) = Ret (Inr (mb_bytes mq, 8)) \<and> obj_in (mb_bytes mq, 8) fs \<and>
    msgExtractDelete (mb_bytes md) = Ret (Inr (mb_bytes md, 8)) \<and> obj_in (mb_bytes md, 8) fs \<and>
    msgExtractQuery (mb_bytes md) = Ret (Inl EDB_INVALIDARG)"
  using query_roundtrip [OF assms] delete_roundtrip [OF assms] by blast

theorem msg_key_roundtrip_witness:
  "\<exists>mq md. msgBuildQuery (Some (\<lambda>_. 0)) \<lparr>mb_bytes = [], mb_size = 0\<rparr> (demo_doc, 0) = Ret (EDB_OK, mq) \<and>
    msgBuildDelete (Some (\<lambda>_. 0)) \<lparr>mb_bytes = [], mb_size = 0\<rparr> (demo_doc, 0) = Ret (EDB_OK, md) \<and>
    msgExtractQuery (mb_bytes mq) = Ret (Inr (mb_bytes mq, 8)) \<and>
    msgExtractQuery (mb_bytes md) = Ret (Inl EDB_INVALIDARG)"
proof -
  have "mb_ok \<lparr>mb_bytes = [], mb_size = 0\<rparr>"
    by (simp add: mb_ok_def)
  from msg_key_roundtrip [OF this demo_doc_in, of "Some (\<lambda>_. 0)"] show ?thesis
    by (auto simp: can_grow_def)
qed

text \<open>
  The checks on the argument come before the latch: a document without \<open>_id\<close>, or above
  \<open>DMS_MAX_RECORD\<close>, is refused with \<open>EDB_INVALIDARG\<close> and the state stays as it is.
\<close>

theorem dms_insert_rejects:
  assumes "obj_in record fs" "DMS_MAX_RECORD < length (enc_obj fs) \<or> map_of fs str_id = None"
  shows "dms_insert t record evs st = Some (Ret (EDB_INVALIDARG, None), st)"
  using dms_insert_checked [OF assms(1)] assms(2) by auto

theorem dms_insert_rejects_witness:
  "dms_insert 1 (enc_obj [], 0) [] demo_file = Some (Ret (EDB_INVALIDARG, None), demo_file)"
  by (rule dms_insert_rejects [where fs = "[]"])
    (simp_all add: obj_in_def at_self length_enc_obj BSONObjMaxInternalSize_def)

text \<open>
  An EDU that is told to resume runs its entry function and then is in the pool, IDLE, with its thread
  alive, or destroyed, with its thread at its end, the latter for the reasons of \<open>must_go\<close> only; this
  for every entry function that returns and leaves the EDU in the run queue.
\<close>

theorem edu_round_serves:
  assumes "mgr_inv st" "s_free (mgr_latch st)" "find_edu i st = Some p" "cb_heap st p = Some cb"
    and "edu_view st i = Some (False, s)" "\<not> th_forced th" "cb_waitEvent 1000 wakes cb = Ret (Some e, cb')"
    and "eventType e = PMD_EDU_EVENT_RESUME" "entry_behaves entry i p (cb_type cb)"
  shows "\<exists>th' st2 st' db'. entry_round t maxPool reg entry i p wakes (th, st, db) = Ret (th', st', db') \<and> mgr_inv st' \<and>
     s_free (mgr_latch st') \<and> edu_type st2 i = Some (cb_type cb) \<and> th_destroyed th' = must_go maxPool i False st2 \<and>
     edu_view st' i = (if must_go maxPool i False st2 then None else Some (True, PMD_EDU_IDLE))"
  by (rule entry_round_serves [OF assms])

theorem edu_round_serves_witness:
  "\<exists>th' st2 st' db'. entry_round 1 5 (register_entries \<lparr>mapEDUName = [], mapEDUTypeSys = []\<rparr>) demo_entry 1 1 []
      (thread_start, demo_run PMD_EDU_CREATING [resume_event 7], EDB_DB_NORMAL) = Ret (th', st', db') \<and> mgr_inv st' \<and>
    s_free (mgr_latch st') \<and> edu_type st2 1 = Some EDU_TYPE_AGENT \<and> th_destroyed th' = must_go 5 1 False st2 \<and>
    edu_view st' 1 = (if must_go 5 1 False st2 then None else Some (True, PMD_EDU_IDLE))"
proof -
  have "cb_waitEvent 1000 [] (demo_agent PMD_EDU_CREATING False [resume_event 7]) =
      Ret (Some (resume_event 7), demo_agent PMD_EDU_RUNNING False [])"
    by (simp add: cb_waitEvent_def cb_wait_begin_def cb_wait_end_def demo_agent_def resume_event_def)
  from edu_round_serves [where st = "demo_run PMD_EDU_CREATING [resume_event 7]", where i = 1 and p = 1, OF _ _ _ _ _ _ this,
      where th = thread_start and entry = demo_entry and t = 1 and maxPool = 5
      and reg = "register_entries \<lparr>mapEDUName = [], mapEDUTypeSys = []\<rparr>" and db = EDB_DB_NORMAL]
  show ?thesis
    using demo_run_ok [of PMD_EDU_CREATING "[resume_event 7]"] demo_entry_behaves
    by simp
qed

text \<open>
  The restriction is needed: a \<open>long\<close> is compared with a \<open>double\<close> through its nearest double, so the
  code finds \<open>2 ^ 53 + 1\<close> (long) equal to \<open>2 ^ 53\<close> (double), that equal to \<open>2 ^ 53\<close> (long), and the first
  greater than the last.
\<close>

theorem wo_not_transitive:
  "woCompare (enc_obj long_big, 0) (enc_obj double_mid, 0) obj_empty True = Some (Ret 0) \<and>
   woCompare (enc_obj double_mid, 0) (enc_obj long_small, 0) obj_empty True = Some (Ret 0) \<and>
   woCompare (enc_obj long_big, 0) (enc_obj long_small, 0) obj_empty True = Some (Ret 1) \<and>
   obj_equal (enc_obj long_big, 0) (enc_obj double_mid, 0) = Some (Ret True) \<and>
   obj_equal (enc_obj long_big, 0) (enc_obj long_small, 0) = Some (Ret False)"
  using wo_plain_in [OF long_in(1,2)] wo_plain_in [OF long_in(2,3)] wo_plain_in [OF long_in(1,3)]
    obj_equal_in [OF long_in(1,2)] obj_equal_in [OF long_in(1,3)] long_no_undefined
  by (simp add: wo_plain_woCompare not_transitive del: fcmp.simps)

text \<open>
  The documents of an insert message stand in it one after the other, in order, behind the count that
  \<open>msgExtractInsert\<close> reads, and the two overloads agree on one document.
\<close>

theorem msg_insert_roundtrip:
  assumes "mb_ok mb" "list_all2 obj_in os fss" "12 + int (length (doc_bytes fss)) < 2147483648"
    and "can_grow env (12 + int (length (doc_bytes fss))) mb" "length os < 2147483648"
  shows "(\<exists>mb'. msgBuildInsert_many env mb os = Ret (EDB_OK, mb') \<and> mb_ok mb' \<and>
      msgExtractInsert (mb_bytes mb') =
        Ret (Inr (int (length os), if os = [] then None else Some (mb_bytes mb', 12))) \<and>
      docs_in (mb_bytes mb') 12 fss) \<and>
    (\<forall>o1. os = [o1] \<longrightarrow> msgBuildInsert env mb o1 = msgBuildInsert_many env mb os)"
proof -
  have "msgBuildInsert env mb o1 = msgBuildInsert_many env mb os" if "os = [o1]" for o1
    using assms(2) that by (auto simp: list_all2_Cons1 dest: command_single(2))
  then show ?thesis
    using insert_many_roundtrip [OF assms] by blast
qed

theorem msg_insert_roundtrip_witness:
  "\<exists>mb'. msgBuildInsert_many (Some (\<lambda>_. 0)) \<lparr>mb_bytes = [], mb_size = 0\<rparr> [(demo_doc, 0), (demo_doc, 0)] = Ret (EDB_OK, mb') \<and>
    msgExtractInsert (mb_bytes mb') = Ret (Inr (2, Some (mb_bytes mb', 12))) \<and>
    docs_in (mb_bytes mb') 12 [demo_fields, demo_fields]"
proof -
  have "mb_ok \<lparr>mb_bytes = [], mb_size = 0\<rparr>"
    by (simp add: mb_ok_def)
  from msg_insert_roundtrip [OF this, of "[(demo_doc, 0), (demo_doc, 0)]" "[demo_fields, demo_fields]" "Some (\<lambda>_. 0)"]
  show ?thesis
    using demo_doc_in demo_doc_valid(2) by (auto simp: can_grow_def demo_doc_def)
qed

end
